(* ===== verification/Prelude.thy ===== *)
theory Prelude
  imports Main "HOL-Library.Word"
begin

text \<open>
  Shared vocabulary of the development: the machine integer types of the C++ sources, the
  little-endian object representation that \<open>std::memcpy\<close> reads and writes (the server is built for
  x86-64 and arm64, both little-endian), C++'s truncating division, and the generic lemmas on words,
  lists and maps that several components use.  \<open>codec_simps\<close> collects the facts about object
  representations, \<open>bound_simps\<close> the arithmetic facts about bounded words.
\<close>

unbundle bit_operations_syntax

named_theorems codec_simps \<open>object representations of integers\<close>
named_theorems bound_simps \<open>bounds of machine integers\<close>

subsection \<open>Machine integers\<close>

type_synonym u8 = "8 word"
type_synonym u16 = "16 word"
type_synonym u32 = "32 word"
type_synonym u64 = "64 word"
type_synonym i8 = "8 word"
type_synonym i16 = "16 word"
type_synonym i32 = "32 word"
type_synonym i64 = "64 word"

lemma unat_u8_less [bound_simps]: "unat (b :: u8) < 256"
  using unsigned_less [of b, where ?'a = nat] by simp

lemma unat_u16_less [bound_simps]: "unat (w :: u16) < 65536"
  using unsigned_less [of w, where ?'a = nat] by simp

lemma unat_u32_less [bound_simps]: "unat (w :: u32) < 4294967296"
  using unsigned_less [of w, where ?'a = nat] by simp

lemma unat_ucast_widen:
  "LENGTH('a) \<le> LENGTH('b) \<Longrightarrow> unat (ucast (w :: 'a::len word) :: 'b::len word) = unat w"
  by transfer (simp add: take_bit_int_eq_self order_less_le_trans [OF take_bit_int_less_exp])

lemma unat_ucast_u16_u64 [simp]: "unat (ucast (w :: u16) :: u64) = unat w"
  by (simp add: unat_ucast_widen)

lemma unat_ucast_u8_u32 [simp]: "unat (ucast (b :: u8) :: u32) = unat b"
  by (simp add: unat_ucast_widen)

lemma unat_of_nat_u16 [bound_simps]: "n < 65536 \<Longrightarrow> unat (of_nat n :: u16) = n"
  by (simp add: unat_of_nat take_bit_nat_eq_self)

lemma unat_of_nat_u32 [bound_simps]: "n < 4294967296 \<Longrightarrow> unat (of_nat n :: u32) = n"
  by (simp add: unat_of_nat take_bit_nat_eq_self)

lemma unat_of_nat_u64 [bound_simps]: "n < 18446744073709551616 \<Longrightarrow> unat (of_nat n :: u64) = n"
  by (simp add: unat_of_nat take_bit_nat_eq_self)

lemma not_bit_if_unat_less: "unat (w :: 'a::len word) < 2 ^ n \<Longrightarrow> n \<le> i \<Longrightarrow> \<not> bit w i"
proof -
  assume "unat w < 2 ^ n" and "n \<le> i"
  then have "unat w < 2 ^ i"
    by (meson less_le_trans one_le_numeral power_increasing)
  then have "\<not> bit (unat w) i" by (simp add: bit_iff_odd)
  then show "\<not> bit w i" by (simp add: bit_unsigned_iff)
qed

lemma unat_push_or:
  assumes "unat (a :: 'a::len word) < 2 ^ n" and "unat b * 2 ^ n + unat a < 2 ^ LENGTH('a)"
  shows "unat (push_bit n b OR a) = unat b * 2 ^ n + unat a"
proof -
  have "push_bit n b OR a = push_bit n b + a"
    using not_bit_if_unat_less [OF assms(1)]
    by (intro disjunctive_add [symmetric]) (auto simp: bit_push_bit_iff)
  also have "push_bit n b + a = of_nat (unat b * 2 ^ n + unat a)"
    by (simp add: push_bit_eq_mult)
  finally show ?thesis
    using assms(2) by (simp only: unat_of_nat mod_less)
qed

subsection \<open>Little-endian object representations\<close>

text \<open>
  \<open>le_bytes n w\<close> is what \<open>std::memcpy(p, &w, n)\<close> leaves at \<open>p\<close>, and \<open>le_word bs\<close> the value a
  variable has after \<open>std::memcpy(&w, p, n)\<close> when the bytes at \<open>p\<close> are \<open>bs\<close>.
\<close>

primrec le_bytes :: "nat \<Rightarrow> 'a::len word \<Rightarrow> u8 list" where
  "le_bytes 0 w = []"
| "le_bytes (Suc n) w = ucast w # le_bytes n (drop_bit 8 w)"

primrec le_word :: "u8 list \<Rightarrow> 'a::len word" where
  "le_word [] = 0"
| "le_word (b # bs) = ucast b OR push_bit 8 (le_word bs)"

lemma length_le_bytes [simp, codec_simps]: "length (le_bytes n w) = n"
  by (induction n arbitrary: w) simp_all

lemma bit_le_word_bytes:
  "bit (le_word (le_bytes n w) :: 'a::len word) i \<longleftrightarrow> i < 8 * n \<and> bit (w :: 'a word) i"
proof (induction n arbitrary: w i)
  case 0
  then show ?case by simp
next
  case (Suc n)
  show ?case
  proof (cases "i < 8")
    case True
    then show ?thesis
      by (auto simp: bit_or_iff bit_push_bit_iff bit_ucast_iff bit_imp_le_length)
  next
    case False
    then show ?thesis
      using Suc.IH [of "drop_bit 8 w" "i - 8"]
      by (auto simp: bit_or_iff bit_push_bit_iff bit_ucast_iff bit_drop_bit_eq
          dest: bit_imp_le_length)
  qed
qed

lemma le_word_le_bytes [codec_simps]:
  "LENGTH('a) \<le> 8 * n \<Longrightarrow> le_word (le_bytes n w) = (w :: 'a::len word)"
  by (rule bit_word_eqI) (simp add: bit_le_word_bytes)

lemma ucast_ucast_or_push:
  "8 \<le> LENGTH('a) \<Longrightarrow> (ucast (ucast (b :: u8) OR push_bit 8 w :: 'a::len word) :: u8) = b"
  by (rule bit_word_eqI)
    (auto simp: bit_ucast_iff bit_or_iff bit_push_bit_iff dest: bit_imp_le_length)

lemma drop_ucast_or_push:
  assumes "\<And>i. bit w i \<Longrightarrow> i + 8 < LENGTH('a)"
  shows "drop_bit 8 (ucast (b :: u8) OR push_bit 8 w) = (w :: 'a::len word)"
  by (rule bit_word_eqI)
    (use assms in \<open>auto simp: bit_drop_bit_eq bit_or_iff bit_push_bit_iff bit_ucast_iff add.commute
      dest: bit_imp_le_length\<close>)

lemma bit_le_word_imp: "bit (le_word bs :: 'a::len word) i \<Longrightarrow> i < 8 * length bs"
proof (induction bs arbitrary: i)
  case Nil
  then show ?case by simp
next
  case (Cons b bs)
  from Cons.prems consider "bit b i" | "8 \<le> i" "bit (le_word bs :: 'a word) (i - 8)"
    by (auto simp: bit_or_iff bit_ucast_iff bit_push_bit_iff)
  then show ?case
  proof cases
    case 1
    then show ?thesis using bit_imp_le_length [of b i] by simp
  next
    case 2
    then show ?thesis using Cons.IH [of "i - 8"] by simp
  qed
qed

lemma le_bytes_le_word [codec_simps]:
  "8 * length bs \<le> LENGTH('a) \<Longrightarrow> le_bytes (length bs) (le_word bs :: 'a::len word) = bs"
proof (induction bs)
  case Nil
  then show ?case by simp
next
  case (Cons b bs)
  have "\<And>i. bit (le_word bs :: 'a word) i \<Longrightarrow> i + 8 < LENGTH('a)"
    using bit_le_word_imp [of bs] Cons.prems by fastforce
  then have "drop_bit 8 (ucast b OR push_bit 8 (le_word bs)) = (le_word bs :: 'a word)"
    by (rule drop_ucast_or_push)
  with Cons show ?case
    by (simp add: ucast_ucast_or_push del: drop_bit_or)
qed

lemma le_bytes_le_word_width:
  "length bs = n \<Longrightarrow> 8 * n \<le> LENGTH('a) \<Longrightarrow> le_bytes n (le_word bs :: 'a::len word) = bs"
  using le_bytes_le_word [of bs, where 'a = 'a] by simp

text \<open>
  The contract of a fixed-size object representation: what the message and property streams rely on
  when they copy a value in and out of a buffer.
\<close>

locale object_rep =
  fixes enc :: "'v \<Rightarrow> u8 list" and dec :: "u8 list \<Rightarrow> 'v" and width :: nat
  assumes length_enc: "length (enc v) = width"
    and dec_enc: "dec (enc v) = v"
    and enc_dec: "length bs = width \<Longrightarrow> enc (dec bs) = bs"
begin

lemma dec_prefix: "dec (take width (enc v @ rest)) = v"
  by (simp add: length_enc dec_enc)

lemma drop_prefix: "drop width (enc v @ rest) = rest"
  by (simp add: length_enc)

lemma enc_inject: "enc v = enc w \<longleftrightarrow> v = w"
  by (metis dec_enc)

lemma dec_inject: "length bs = width \<Longrightarrow> length cs = width \<Longrightarrow> dec bs = dec cs \<longleftrightarrow> bs = cs"
  by (metis enc_dec)

end

interpretation rep8: object_rep "le_bytes 1 :: u8 \<Rightarrow> u8 list" le_word 1
  by unfold_locales (auto simp: length_Suc_conv)

interpretation rep16: object_rep "le_bytes 2 :: u16 \<Rightarrow> u8 list" le_word 2
  by unfold_locales
    (simp_all add: codec_simps le_bytes_le_word_width)

interpretation rep32: object_rep "le_bytes 4 :: u32 \<Rightarrow> u8 list" le_word 4
  by unfold_locales
    (simp_all add: codec_simps le_bytes_le_word_width)

interpretation rep64: object_rep "le_bytes 8 :: u64 \<Rightarrow> u8 list" le_word 8
  by unfold_locales
    (simp_all add: codec_simps le_bytes_le_word_width)

end
