(* ===== verification/Positions.thy ===== *)
theory Positions
  imports Prelude
begin

text \<open>
  \<open>position.h\<close>, \<open>position.cpp\<close> and the two movement helpers of \<open>tools.cpp\<close>.  Coordinates are
  \<open>uint16_t\<close> (floors \<open>uint8_t\<close>) and wrap around on \<open>++\<close> and \<open>--\<close>; offsets and distances are computed
  in \<open>int32_t\<close> from values below \<open>2^16\<close>, so they are modelled as integers.
\<close>

datatype Direction =
    DIRECTION_NORTH | DIRECTION_EAST | DIRECTION_SOUTH | DIRECTION_WEST
  | DIRECTION_SOUTHWEST | DIRECTION_SOUTHEAST | DIRECTION_NORTHWEST | DIRECTION_NORTHEAST
  | DIRECTION_NONE

text \<open>The enumerators' values: diagonals carry \<open>DIRECTION_DIAGONAL_MASK = 4\<close>.\<close>

fun direction_code :: "Direction \<Rightarrow> u8" where
  "direction_code DIRECTION_NORTH = 0"
| "direction_code DIRECTION_EAST = 1"
| "direction_code DIRECTION_SOUTH = 2"
| "direction_code DIRECTION_WEST = 3"
| "direction_code DIRECTION_SOUTHWEST = 4 OR 0"
| "direction_code DIRECTION_SOUTHEAST = 4 OR 1"
| "direction_code DIRECTION_NORTHWEST = 4 OR 2"
| "direction_code DIRECTION_NORTHEAST = 4 OR 3"
| "direction_code DIRECTION_NONE = 8"

lemma direction_code_inject: "direction_code d = direction_code e \<longleftrightarrow> d = e"
  by (cases d; cases e) simp_all

datatype Position = Position (pos_x: u16) (pos_y: u16) (pos_z: u8)

definition getX :: "Position \<Rightarrow> int" where "getX p = uint (pos_x p)"
definition getY :: "Position \<Rightarrow> int" where "getY p = uint (pos_y p)"
definition getZ :: "Position \<Rightarrow> int" where "getZ p = uint (pos_z p)"

definition getOffsetX :: "Position \<Rightarrow> Position \<Rightarrow> int" where "getOffsetX q p = getX q - getX p"
definition getOffsetY :: "Position \<Rightarrow> Position \<Rightarrow> int" where "getOffsetY q p = getY q - getY p"
definition getOffsetZ :: "Position \<Rightarrow> Position \<Rightarrow> int" where "getOffsetZ q p = getZ q - getZ p"

definition getDistanceX :: "Position \<Rightarrow> Position \<Rightarrow> int" where "getDistanceX q p = \<bar>getOffsetX q p\<bar>"
definition getDistanceY :: "Position \<Rightarrow> Position \<Rightarrow> int" where "getDistanceY q p = \<bar>getOffsetY q p\<bar>"
definition getDistanceZ :: "Position \<Rightarrow> Position \<Rightarrow> int" where "getDistanceZ q p = \<bar>getOffsetZ q p\<bar>"

lemmas offset_defs = getX_def getY_def getZ_def getOffsetX_def getOffsetY_def getOffsetZ_def
  getDistanceX_def getDistanceY_def getDistanceZ_def

definition isInRange :: "Position \<Rightarrow> Position \<Rightarrow> int \<Rightarrow> int \<Rightarrow> bool" where
  "isInRange q p deltax deltay \<longleftrightarrow> getDistanceX q p \<le> deltax \<and> getDistanceY q p \<le> deltay"

definition isInRangeZ :: "Position \<Rightarrow> Position \<Rightarrow> int \<Rightarrow> int \<Rightarrow> int \<Rightarrow> bool" where
  "isInRangeZ q p deltax deltay deltaz \<longleftrightarrow>
     getDistanceX q p \<le> deltax \<and> getDistanceY q p \<le> deltay \<and> getDistanceZ q p \<le> deltaz"

text \<open>\<open>operator<\<close> compares floors first, then rows, then columns: the key order of the spectator caches.\<close>

definition position_before :: "Position \<Rightarrow> Position \<Rightarrow> bool" where
  "position_before q p \<longleftrightarrow>
     pos_z q < pos_z p \<or> (pos_z q = pos_z p \<and>
       (pos_y q < pos_y p \<or> (pos_y q = pos_y p \<and> pos_x q < pos_x p)))"

instantiation Position :: linorder
begin

definition less_Position :: "Position \<Rightarrow> Position \<Rightarrow> bool" where
  "(q :: Position) < p \<longleftrightarrow> position_before q p"

definition less_eq_Position :: "Position \<Rightarrow> Position \<Rightarrow> bool" where
  "q \<le> (p :: Position) \<longleftrightarrow> q < p \<or> q = p"

instance
proof
  fix p q :: Position
  show "p \<le> q \<or> q \<le> p"
    by (cases p; cases q) (auto simp: position_before_def less_Position_def less_eq_Position_def)
qed (auto simp: position_before_def less_Position_def less_eq_Position_def)

end

subsection \<open>Moving and pointing\<close>

fun getNextPosition :: "Direction \<Rightarrow> Position \<Rightarrow> Position" where
  "getNextPosition DIRECTION_NORTH (Position x y z) = Position x (y - 1) z"
| "getNextPosition DIRECTION_SOUTH (Position x y z) = Position x (y + 1) z"
| "getNextPosition DIRECTION_WEST (Position x y z) = Position (x - 1) y z"
| "getNextPosition DIRECTION_EAST (Position x y z) = Position (x + 1) y z"
| "getNextPosition DIRECTION_SOUTHWEST (Position x y z) = Position (x - 1) (y + 1) z"
| "getNextPosition DIRECTION_NORTHWEST (Position x y z) = Position (x - 1) (y - 1) z"
| "getNextPosition DIRECTION_NORTHEAST (Position x y z) = Position (x + 1) (y - 1) z"
| "getNextPosition DIRECTION_SOUTHEAST (Position x y z) = Position (x + 1) (y + 1) z"
| "getNextPosition DIRECTION_NONE p = p"

definition getDirectionTo :: "Position \<Rightarrow> Position \<Rightarrow> bool \<Rightarrow> Direction" where
  "getDirectionTo src dst extended =
     (if src = dst then DIRECTION_NONE
      else let x_offset = getOffsetX src dst;
               dir = (if x_offset < 0 then DIRECTION_EAST else DIRECTION_WEST);
               x_offset = (if x_offset < 0 then \<bar>x_offset\<bar> else x_offset);
               y_offset = getOffsetY src dst
        in if y_offset \<ge> 0 then
             if y_offset > x_offset then DIRECTION_NORTH
             else if y_offset = x_offset \<and> extended then
               if dir = DIRECTION_EAST then DIRECTION_NORTHEAST else DIRECTION_NORTHWEST
             else dir
           else let y_offset = \<bar>y_offset\<bar>
             in if y_offset > x_offset then DIRECTION_SOUTH
                else if y_offset = x_offset \<and> extended then
                  if dir = DIRECTION_EAST then DIRECTION_SOUTHEAST else DIRECTION_SOUTHWEST
                else dir)"

lemma uint_plus1: "uint (w :: u16) < 65535 \<Longrightarrow> uint (w + 1) = uint w + 1"
  by (simp add: uint_word_ariths)

lemma uint_minus1: "0 < uint (w :: u16) \<Longrightarrow> uint (w - 1) = uint w - 1"
  using uint_lt2p [of w] by (simp add: uint_word_ariths)

text \<open>The unit step of a direction: columns grow to the east, rows to the south.\<close>

fun dir_x :: "Direction \<Rightarrow> int" where
  "dir_x DIRECTION_NORTH = 0" | "dir_x DIRECTION_EAST = 1" | "dir_x DIRECTION_SOUTH = 0" | "dir_x DIRECTION_WEST = -1"
| "dir_x DIRECTION_SOUTHWEST = -1" | "dir_x DIRECTION_SOUTHEAST = 1" | "dir_x DIRECTION_NORTHWEST = -1"
| "dir_x DIRECTION_NORTHEAST = 1" | "dir_x DIRECTION_NONE = 0"

fun dir_y :: "Direction \<Rightarrow> int" where
  "dir_y DIRECTION_NORTH = -1" | "dir_y DIRECTION_EAST = 0" | "dir_y DIRECTION_SOUTH = 1" | "dir_y DIRECTION_WEST = 0"
| "dir_y DIRECTION_SOUTHWEST = 1" | "dir_y DIRECTION_SOUTHEAST = 1" | "dir_y DIRECTION_NORTHWEST = -1"
| "dir_y DIRECTION_NORTHEAST = -1" | "dir_y DIRECTION_NONE = 0"

text \<open>The distance on one floor, as the number of unit steps along the axes.\<close>

definition axis_distance :: "Position \<Rightarrow> Position \<Rightarrow> nat" where
  "axis_distance p q = nat (getDistanceX p q + getDistanceY p q)"

lemma axis_distance_0: "axis_distance p q = 0 \<longleftrightarrow> pos_x p = pos_x q \<and> pos_y p = pos_y q"
  by (auto simp: axis_distance_def offset_defs word_uint_eq_iff)

lemma getNextPosition_floor: "pos_z (getNextPosition d p) = pos_z p"
  by (cases p; cases d) simp_all

lemma getDirectionTo_adjacent:
  assumes "0 < getX p" "getX p < 65535" "0 < getY p" "getY p < 65535"
  shows "getDirectionTo p (getNextPosition d p) True = d"
  using assms
  by (cases p; cases d)
    (simp_all add: getDirectionTo_def offset_defs uint_plus1 uint_minus1 Let_def)

text \<open>A step in the direction pointed to brings the position strictly closer, and never wraps around.\<close>

lemma axis_distance_less:
  "getDistanceX p' q + getDistanceY p' q < getDistanceX p q + getDistanceY p q \<Longrightarrow>
     axis_distance p' q < axis_distance p q"
  by (simp add: axis_distance_def getDistanceX_def getDistanceY_def)

text \<open>What the answer says about the offsets, direction by direction.\<close>

lemma getDirectionTo_offsets:
  assumes "src \<noteq> dst"
  shows "case getDirectionTo src dst extended of
      DIRECTION_NORTH \<Rightarrow> \<bar>getOffsetX src dst\<bar> < getOffsetY src dst
    | DIRECTION_SOUTH \<Rightarrow> \<bar>getOffsetX src dst\<bar> < - getOffsetY src dst
    | DIRECTION_EAST \<Rightarrow> getOffsetX src dst < 0 \<and> \<bar>getOffsetY src dst\<bar> \<le> - getOffsetX src dst
    | DIRECTION_WEST \<Rightarrow> 0 \<le> getOffsetX src dst \<and> \<bar>getOffsetY src dst\<bar> \<le> getOffsetX src dst
    | DIRECTION_NORTHEAST \<Rightarrow> getOffsetX src dst < 0 \<and> getOffsetY src dst = - getOffsetX src dst
    | DIRECTION_NORTHWEST \<Rightarrow> 0 \<le> getOffsetX src dst \<and> getOffsetY src dst = getOffsetX src dst
    | DIRECTION_SOUTHEAST \<Rightarrow> getOffsetX src dst < 0 \<and> getOffsetY src dst = getOffsetX src dst
    | DIRECTION_SOUTHWEST \<Rightarrow> 0 \<le> getOffsetX src dst \<and> getOffsetY src dst = - getOffsetX src dst
    | DIRECTION_NONE \<Rightarrow> False"
proof -
  define dx dy where "dx = getOffsetX src dst" and "dy = getOffsetY src dst"
  show ?thesis
    unfolding dx_def [symmetric] dy_def [symmetric]
    by (cases "dx < 0"; cases "dy < 0")
      (use assms in \<open>auto simp: getDirectionTo_def Let_def dx_def [symmetric] dy_def [symmetric]\<close>)
qed

lemma getDirectionTo_progress:
  assumes "axis_distance p q \<noteq> 0"
  shows "axis_distance (getNextPosition (getDirectionTo p q extended) p) q < axis_distance p q"
proof (rule axis_distance_less)
  obtain x y z u v w where p: "p = Position x y z" and q: "q = Position u v w"
    by (cases p; cases q) auto
  have ne: "p \<noteq> q"
    using assms by (auto simp: axis_distance_def offset_defs)
  define X Y U V where XY: "X = uint x" "Y = uint y" "U = uint u" "V = uint v"
  have b: "0 \<le> X" "0 \<le> Y" "0 \<le> U" "0 \<le> V" "X < 65536" "Y < 65536" "U < 65536" "V < 65536"
    using uint_lt2p [of x] uint_lt2p [of y] uint_lt2p [of u] uint_lt2p [of v] by (simp_all add: XY)
  have d: "X \<noteq> U \<or> Y \<noteq> V"
    using assms by (auto simp: p q XY axis_distance_def offset_defs)
  have step: "X < 65535 \<Longrightarrow> uint (x + 1) = X + 1" "Y < 65535 \<Longrightarrow> uint (y + 1) = Y + 1"
    "0 < X \<Longrightarrow> uint (x - 1) = X - 1" "0 < Y \<Longrightarrow> uint (y - 1) = Y - 1"
    by (simp_all add: XY uint_plus1 uint_minus1)
  have west: "U \<le> X \<and> \<bar>Y - V\<bar> \<le> X - U \<Longrightarrow> uint (x - 1) = X - 1 \<and> U < X"
    using d b step(3) by auto
  have off: "getOffsetX p q = X - U" "getOffsetY p q = Y - V"
    by (simp_all add: p q XY offset_defs)
  note spec = getDirectionTo_offsets [OF ne, of extended, unfolded off]
  show "getDistanceX (getNextPosition (getDirectionTo p q extended) p) q
      + getDistanceY (getNextPosition (getDirectionTo p q extended) p) q
      < getDistanceX p q + getDistanceY p q"
    using spec d b step west
    by (cases "getDirectionTo p q extended")
      (simp_all add: p q offset_defs flip: XY)
qed

lemma getDirectionTo_coords:
  fixes extended :: bool
  assumes "axis_distance p q \<noteq> 0"
  defines "d \<equiv> getDirectionTo p q extended"
  shows "getX (getNextPosition d p) = getX p + dir_x d"
    and "getY (getNextPosition d p) = getY p + dir_y d"
    and "getDistanceX (getNextPosition d p) q \<le> getDistanceX p q"
    and "getDistanceY (getNextPosition d p) q \<le> getDistanceY p q"
proof -
  obtain x y z u v w where p: "p = Position x y z" and q: "q = Position u v w"
    by (cases p; cases q) auto
  have ne: "p \<noteq> q"
    using assms by (auto simp: axis_distance_def offset_defs)
  define X Y U V where XY: "X = uint x" "Y = uint y" "U = uint u" "V = uint v"
  have b: "0 \<le> X" "0 \<le> Y" "0 \<le> U" "0 \<le> V" "X < 65536" "Y < 65536" "U < 65536" "V < 65536"
    using uint_lt2p [of x] uint_lt2p [of y] uint_lt2p [of u] uint_lt2p [of v] by (simp_all add: XY)
  have ne': "X \<noteq> U \<or> Y \<noteq> V"
    using assms(1) by (auto simp: p q XY axis_distance_def offset_defs)
  have step: "X < 65535 \<Longrightarrow> uint (x + 1) = X + 1" "Y < 65535 \<Longrightarrow> uint (y + 1) = Y + 1"
    "0 < X \<Longrightarrow> uint (x - 1) = X - 1" "0 < Y \<Longrightarrow> uint (y - 1) = Y - 1"
    by (simp_all add: XY uint_plus1 uint_minus1)
  have west: "U \<le> X \<and> \<bar>Y - V\<bar> \<le> X - U \<Longrightarrow> uint (x - 1) = X - 1 \<and> U < X"
    using ne' b step(3) by auto
  have off: "getOffsetX p q = X - U" "getOffsetY p q = Y - V"
    by (simp_all add: p q XY offset_defs)
  note spec = getDirectionTo_offsets [OF ne, of extended, unfolded off, folded d_def]
  show "getX (getNextPosition d p) = getX p + dir_x d" "getY (getNextPosition d p) = getY p + dir_y d"
    using spec b step west by (cases d; simp add: p q offset_defs flip: XY)+
  show "getDistanceX (getNextPosition d p) q \<le> getDistanceX p q"
    "getDistanceY (getNextPosition d p) q \<le> getDistanceY p q"
    using spec ne' b step west by (cases d; simp add: p q offset_defs flip: XY)+
qed

subsection \<open>Properties\<close>

text \<open>
  C6: as long as a creature does not stand in the target's square (floors aside), one step in the
  direction \<open>getDirectionTo\<close> points to, diagonals allowed or not, changes its coordinates by exactly the
  unit step of that direction, as integers: nothing wraps around.  The step strictly shortens the
  distance along the axes, lengthens it along neither, and stays on the floor.
\<close>

theorem getDirectionTo_closer:
  assumes "pos_x p \<noteq> pos_x q \<or> pos_y p \<noteq> pos_y q"
  shows "let d = getDirectionTo p q extended; p' = getNextPosition d p in
    axis_distance p' q < axis_distance p q \<and> pos_z p' = pos_z p
    \<and> getX p' = getX p + dir_x d \<and> getY p' = getY p + dir_y d
    \<and> getDistanceX p' q \<le> getDistanceX p q \<and> getDistanceY p' q \<le> getDistanceY p q"
proof -
  have "axis_distance p q \<noteq> 0" using assms by (simp add: axis_distance_0)
  then show ?thesis
    unfolding Let_def by (intro conjI getDirectionTo_progress getNextPosition_floor getDirectionTo_coords)
qed

theorem getDirectionTo_closer_witness:
  "let p = Position 0 0 7; q = Position 65535 3 7; d = getDirectionTo p q True; p' = getNextPosition d p in
    axis_distance p' q < axis_distance p q \<and> pos_z p' = pos_z p
    \<and> getX p' = getX p + dir_x d \<and> getY p' = getY p + dir_y d
    \<and> getDistanceX p' q \<le> getDistanceX p q \<and> getDistanceY p' q \<le> getDistanceY p q"
  using getDirectionTo_closer [of "Position 0 0 7" "Position 65535 3 7" True] by (simp add: Let_def)
text \<open>
  Away from the edges of the map, \<open>getDirectionTo\<close> inverts \<open>getNextPosition\<close>: pointing from a
  position to its neighbour in direction \<open>d\<close> gives \<open>d\<close> back, for all eight directions and for
  \<open>DIRECTION_NONE\<close>.
\<close>

theorem getDirectionTo_getNextPosition:
  assumes "0 < pos_x p" "pos_x p < 65535" "0 < pos_y p" "pos_y p < 65535"
  shows "getDirectionTo p (getNextPosition d p) True = d"
  using assms by (intro getDirectionTo_adjacent) (simp_all add: getX_def getY_def word_less_def)

theorem getDirectionTo_getNextPosition_witness:
  "getDirectionTo (Position 100 1 7) (getNextPosition DIRECTION_NORTHWEST (Position 100 1 7)) True
     = DIRECTION_NORTHWEST"
  by (rule getDirectionTo_getNextPosition) simp_all

end
