(* ===== verification/Checksum.thy ===== *)
theory Checksum
  imports Prelude
begin

text \<open>
  \<open>adlerChecksum\<close> of \<open>tools.cpp\<close>: the Adler-32 checksum that frames every packet.  The code works on
  \<open>uint32_t\<close> accumulators and takes the remainders only once per 5552 bytes.  The lemmas show that
  the accumulators never wrap around in between, so that the result is the textbook sum taken modulo
  65521 after every byte.
\<close>

definition NETWORKMESSAGE_MAXSIZE :: nat where
  "NETWORKMESSAGE_MAXSIZE = 24590"

definition adler_mod :: u32 where
  "adler_mod = 65521"

text \<open>The inner \<open>do ... while (--tmp)\<close> loop over one block of bytes.\<close>

fun adler_block :: "u32 \<times> u32 \<Rightarrow> u8 list \<Rightarrow> u32 \<times> u32" where
  "adler_block (a, b) [] = (a, b)"
| "adler_block (a, b) (d # ds) = (let a = a + ucast d; b = b + a in adler_block (a, b) ds)"

text \<open>The outer \<open>while (length > 0)\<close> loop.\<close>

function adler_loop :: "u32 \<times> u32 \<Rightarrow> u8 list \<Rightarrow> u32 \<times> u32" where
  "adler_loop ab ds =
     (if ds = [] then ab
      else let tmp = (if length ds > 5552 then 5552 else length ds);
               (a, b) = adler_block ab (take tmp ds)
           in adler_loop (a mod adler_mod, b mod adler_mod) (drop tmp ds))"
  by pat_completeness auto
termination
  by (relation "measure (\<lambda>(ab, ds). length ds)") (auto split: if_splits)

declare adler_loop.simps [simp del]

definition adlerChecksum :: "u8 list \<Rightarrow> u32" where
  "adlerChecksum ds =
     (if length ds > NETWORKMESSAGE_MAXSIZE then 0
      else let (a, b) = adler_loop (1, 0) ds in push_bit 16 b OR a)"

subsection \<open>The textbook definition\<close>

text \<open>Adler-32 over the natural numbers, the remainder taken after every byte.\<close>

fun adler_ref :: "nat \<times> nat \<Rightarrow> u8 list \<Rightarrow> nat \<times> nat" where
  "adler_ref (a, b) [] = (a, b)"
| "adler_ref (a, b) (d # ds) =
     (let a = (a + unat d) mod 65521 in adler_ref (a, (b + a) mod 65521) ds)"

text \<open>The same without any remainder: what the accumulators of the code hold.\<close>

fun adler_sum :: "nat \<times> nat \<Rightarrow> u8 list \<Rightarrow> nat \<times> nat" where
  "adler_sum (a, b) [] = (a, b)"
| "adler_sum (a, b) (d # ds) = adler_sum (a + unat d, b + (a + unat d)) ds"

lemma adler_sum_bound:
  "adler_sum (a, b) ds = (a', b') \<Longrightarrow> a \<le> A \<Longrightarrow>
     a' \<le> A + 255 * length ds \<and>
     2 * b' \<le> 2 * b + 2 * (length ds * A) + 255 * (length ds * (length ds + 1))"
proof (induction ds arbitrary: a b A)
  case Nil
  then show ?case by simp
next
  case (Cons d ds)
  have d: "unat d \<le> 255" using unat_u8_less [of d] by simp
  then have step: "a + unat d \<le> A + 255" using Cons.prems(2) by simp
  have "a' \<le> (A + 255) + 255 * length ds \<and>
      2 * b' \<le> 2 * (b + (a + unat d)) + 2 * (length ds * (A + 255)) + 255 * (length ds * (length ds + 1))"
    using Cons.prems step by (intro Cons.IH) simp_all
  with step show ?case by (simp add: algebra_simps)
qed

lemma adler_block_eq_sum:
  assumes "adler_sum (unat a, unat b) ds = (a', b')" and "a' < 2 ^ 32" and "b' < 2 ^ 32"
  shows "adler_block (a, b) ds = (of_nat a', of_nat b')"
proof -
  have "adler_sum (x, y) ds = (a', b') \<Longrightarrow>
    adler_block (of_nat x, of_nat y) ds = (of_nat a', of_nat b')" for x y
  proof (induction ds arbitrary: x y)
    case (Cons d ds)
    have "adler_block (of_nat (x + unat d), of_nat (y + (x + unat d))) ds = (of_nat a', of_nat b')"
      using Cons.prems by (intro Cons.IH) simp
    then show ?case by (simp add: Let_def)
  qed simp
  from this [OF assms(1)] show ?thesis by simp
qed

lemma adler_ref_sum_mod:
  "adler_sum (a, b) ds = (a', b') \<Longrightarrow>
     adler_ref (a mod 65521, b mod 65521) ds = (a' mod 65521, b' mod 65521)"
proof (induction ds arbitrary: a b)
  case (Cons d ds)
  have "adler_ref ((a + unat d) mod 65521, (b + (a + unat d)) mod 65521) ds
      = (a' mod 65521, b' mod 65521)"
    using Cons by simp
  then show ?case by (simp add: Let_def mod_simps)
qed simp

lemma adler_ref_append: "adler_ref ab (xs @ ys) = adler_ref (adler_ref ab xs) ys"
  by (induction ab xs rule: adler_ref.induct) (simp_all add: Let_def)

lemma adler_ref_bound:
  "a < 65521 \<Longrightarrow> b < 65521 \<Longrightarrow> adler_ref (a, b) ds = (a', b') \<Longrightarrow> a' < 65521 \<and> b' < 65521"
proof (induction ds arbitrary: a b)
  case (Cons d ds)
  from Cons.prems(3) show ?case by (intro Cons.IH) (simp_all add: Let_def)
qed simp

text \<open>One pass of the outer loop: 5552 is small enough for the 32-bit accumulators.\<close>

lemma adler_block_ref:
  assumes a: "unat a < 65521" and b: "unat b < 65521" and len: "length ds \<le> 5552"
    and blk: "adler_block (a, b) ds = (a1, b1)"
  shows "adler_ref (unat a, unat b) ds = (unat (a1 mod adler_mod), unat (b1 mod adler_mod))"
proof -
  obtain a' b' where s: "adler_sum (unat a, unat b) ds = (a', b')" by fastforce
  have bnd: "a' \<le> 65520 + 255 * length ds"
    "2 * b' \<le> 2 * unat b + 2 * (length ds * 65520) + 255 * (length ds * (length ds + 1))"
    using adler_sum_bound [OF s, of 65520] a by simp_all
  have "length ds * (length ds + 1) \<le> 5552 * (5552 + 1)"
    using len by (intro mult_le_mono) simp_all
  with bnd b len have small: "a' < 2 ^ 32" "b' < 2 ^ 32" by simp_all
  with adler_block_eq_sum [OF s] blk have "a1 = of_nat a'" "b1 = of_nat b'" by simp_all
  with small have "unat (a1 mod adler_mod) = a' mod 65521" "unat (b1 mod adler_mod) = b' mod 65521"
    by (simp_all add: adler_mod_def unat_mod bound_simps)
  with adler_ref_sum_mod [OF s] a b show ?thesis by simp
qed

lemma adler_loop_ref:
  "unat (fst ab) < 65521 \<Longrightarrow> unat (snd ab) < 65521 \<Longrightarrow>
     adler_ref (unat (fst ab), unat (snd ab)) ds
       = (unat (fst (adler_loop ab ds)), unat (snd (adler_loop ab ds)))"
proof (induction ab ds rule: adler_loop.induct)
  case (1 ab ds)
  show ?case
  proof (cases "ds = []")
    case True
    then show ?thesis by (simp add: adler_loop.simps)
  next
    case False
    define tmp where "tmp = (if length ds > 5552 then 5552 else length ds)"
    obtain a b where ab: "ab = (a, b)" by fastforce
    obtain a1 b1 where blk: "adler_block (a, b) (take tmp ds) = (a1, b1)" by fastforce
    have ref: "adler_ref (unat a, unat b) (take tmp ds) = (unat (a1 mod adler_mod), unat (b1 mod adler_mod))"
      using "1.prems" ab by (intro adler_block_ref [OF _ _ _ blk]) (simp_all add: tmp_def)
    have lt: "unat (x mod adler_mod) < 65521" for x
      by (simp add: adler_mod_def unat_mod)
    have "adler_loop ab ds = adler_loop (a1 mod adler_mod, b1 mod adler_mod) (drop tmp ds)"
      by (subst adler_loop.simps) (simp add: False ab blk Let_def flip: tmp_def)
    moreover have "adler_ref (unat (a1 mod adler_mod), unat (b1 mod adler_mod)) (drop tmp ds)
        = (unat (fst (adler_loop (a1 mod adler_mod, b1 mod adler_mod) (drop tmp ds))),
           unat (snd (adler_loop (a1 mod adler_mod, b1 mod adler_mod) (drop tmp ds))))"
      using "1.IH" [OF False tmp_def, of "(a1, b1)" a1 b1] lt blk ab by (simp del: adler_ref.simps)
    moreover have "adler_ref (unat a, unat b) ds
        = adler_ref (unat (a1 mod adler_mod), unat (b1 mod adler_mod)) (drop tmp ds)"
      using adler_ref_append [of "(unat a, unat b)" "take tmp ds" "drop tmp ds"] ref by simp
    ultimately show ?thesis
      using ab by simp
  qed
qed

text \<open>
  C5: on every packet that fits a message, the checksum is \<open>b * 65536 + a\<close> of the textbook sums; a
  longer buffer gets 0.
\<close>

theorem adlerChecksum_correct:
  "unat (adlerChecksum ds) =
     (if length ds \<le> 24590 then (case adler_ref (1, 0) ds of (a, b) \<Rightarrow> b * 65536 + a) else 0)"
proof (cases "length ds \<le> 24590")
  case True
  obtain a b where ab: "adler_loop (1, 0) ds = (a, b)" by fastforce
  have ref: "adler_ref (1, 0) ds = (unat a, unat b)"
    using adler_loop_ref [of "(1, 0)" ds] ab by simp
  then have lt: "unat a < 65521" "unat b < 65521"
    using adler_ref_bound [of 1 0 ds] by simp_all
  have "unat (push_bit 16 b OR a) = unat b * 2 ^ 16 + unat a"
    using lt by (intro unat_push_or) simp_all
  with True ab ref show ?thesis
    by (simp add: adlerChecksum_def NETWORKMESSAGE_MAXSIZE_def)
qed (simp add: adlerChecksum_def NETWORKMESSAGE_MAXSIZE_def)

end
