(* ===== verification/Network_Message.thy ===== *)
theory Network_Message
  imports Positions Checksum
begin

text \<open>
  \<open>networkmessage.h\<close> and \<open>networkmessage.cpp\<close>: the fixed buffer every packet is read from and written
  to.  The buffer is a function from indices to bytes; every access of the code goes through
  \<open>buf_read\<close> and \<open>buf_write\<close>, which return \<open>None\<close> when it would leave the array of
  \<open>NETWORKMESSAGE_MAXSIZE\<close> bytes.  \<open>info.length\<close> and \<open>info.position\<close> are \<open>uint16_t\<close> and wrap around;
  the sizes given to \<open>canAdd\<close> are \<open>size_t\<close>.  \<open>addDouble\<close> is left out (floating point).
\<close>

record net_msg =
  nm_length :: u16
  nm_position :: u16
  nm_overrun :: bool
  nm_buffer :: "nat \<Rightarrow> u8"

definition INITIAL_BUFFER_POSITION :: u16 where "INITIAL_BUFFER_POSITION = 8"
definition HEADER_LENGTH :: nat where "HEADER_LENGTH = 2"
definition CHECKSUM_LENGTH :: nat where "CHECKSUM_LENGTH = 4"
definition XTEA_MULTIPLE :: nat where "XTEA_MULTIPLE = 8"

definition MAX_BODY_LENGTH :: nat where
  "MAX_BODY_LENGTH = NETWORKMESSAGE_MAXSIZE - HEADER_LENGTH - CHECKSUM_LENGTH - XTEA_MULTIPLE"

definition MAX_PROTOCOL_BODY_LENGTH :: nat where
  "MAX_PROTOCOL_BODY_LENGTH = MAX_BODY_LENGTH - 10"

lemmas nm_consts = NETWORKMESSAGE_MAXSIZE_def INITIAL_BUFFER_POSITION_def HEADER_LENGTH_def
  CHECKSUM_LENGTH_def XTEA_MULTIPLE_def MAX_BODY_LENGTH_def MAX_PROTOCOL_BODY_LENGTH_def

subsection \<open>The array\<close>

definition buf_write :: "nat \<Rightarrow> u8 list \<Rightarrow> (nat \<Rightarrow> u8) \<Rightarrow> (nat \<Rightarrow> u8) option" where
  "buf_write p bs b =
     (if p + length bs \<le> NETWORKMESSAGE_MAXSIZE
      then Some (\<lambda>i. if p \<le> i \<and> i < p + length bs then bs ! (i - p) else b i) else None)"

definition buf_read :: "nat \<Rightarrow> nat \<Rightarrow> (nat \<Rightarrow> u8) \<Rightarrow> u8 list option" where
  "buf_read p n b = (if p + n \<le> NETWORKMESSAGE_MAXSIZE then Some (map b [p..<p + n]) else None)"

definition nm_init :: net_msg where
  "nm_init = \<lparr>nm_length = 0, nm_position = INITIAL_BUFFER_POSITION, nm_overrun = False,
     nm_buffer = (\<lambda>_. 0)\<rparr>"

definition nm_reset :: "'a net_msg_scheme \<Rightarrow> 'a net_msg_scheme" where
  "nm_reset m = m\<lparr>nm_length := 0, nm_position := INITIAL_BUFFER_POSITION, nm_overrun := False\<rparr>"

subsection \<open>Guards\<close>

definition canAdd :: "u64 \<Rightarrow> 'a net_msg_scheme \<Rightarrow> bool" where
  "canAdd sz m \<longleftrightarrow> unat (sz + ucast (nm_position m)) < MAX_BODY_LENGTH"

text \<open>\<open>canRead\<close> computes in \<open>int32_t\<close> and records a refused read in \<open>info.overrun\<close>.\<close>

definition canRead :: "int \<Rightarrow> 'a net_msg_scheme \<Rightarrow> bool \<times> 'a net_msg_scheme" where
  "canRead sz m =
     (if uint (nm_position m) + sz > uint (nm_length m) + 8
         \<or> sz \<ge> int NETWORKMESSAGE_MAXSIZE - uint (nm_position m)
      then (False, m\<lparr>nm_overrun := True\<rparr>) else (True, m))"

subsection \<open>Writing\<close>

text \<open>\<open>std::memcpy\<close> of \<open>bs\<close> to \<open>buffer.data() + info.position\<close>, then both counters advance.\<close>

definition put_bytes :: "u8 list \<Rightarrow> 'a net_msg_scheme \<Rightarrow> 'a net_msg_scheme option" where
  "put_bytes bs m =
     (case buf_write (unat (nm_position m)) bs (nm_buffer m) of
        None \<Rightarrow> None
      | Some b \<Rightarrow> Some (m\<lparr>nm_buffer := b, nm_position := nm_position m + of_nat (length bs),
            nm_length := nm_length m + of_nat (length bs)\<rparr>))"

definition addByte :: "u8 \<Rightarrow> 'a net_msg_scheme \<Rightarrow> 'a net_msg_scheme option" where
  "addByte v m = (if \<not> canAdd 1 m then Some m else put_bytes [v] m)"

text \<open>\<open>add<T>\<close> for a \<open>T\<close> whose object representation is \<open>rep\<close>.\<close>

definition nm_add :: "u8 list \<Rightarrow> 'a net_msg_scheme \<Rightarrow> 'a net_msg_scheme option" where
  "nm_add rep m = (if \<not> canAdd (of_nat (length rep)) m then Some m else put_bytes rep m)"

definition add_u16 :: "u16 \<Rightarrow> 'a net_msg_scheme \<Rightarrow> 'a net_msg_scheme option" where
  "add_u16 v = nm_add (le_bytes 2 v)"

definition add_u32 :: "u32 \<Rightarrow> 'a net_msg_scheme \<Rightarrow> 'a net_msg_scheme option" where
  "add_u32 v = nm_add (le_bytes 4 v)"

definition add_u64 :: "u64 \<Rightarrow> 'a net_msg_scheme \<Rightarrow> 'a net_msg_scheme option" where
  "add_u64 v = nm_add (le_bytes 8 v)"

definition addBytes :: "u8 list \<Rightarrow> 'a net_msg_scheme \<Rightarrow> 'a net_msg_scheme option" where
  "addBytes bs m =
     (if \<not> canAdd (of_nat (length bs)) m \<or> length bs > 8192 then Some m else put_bytes bs m)"

definition addString :: "u8 list \<Rightarrow> 'a net_msg_scheme \<Rightarrow> 'a net_msg_scheme option" where
  "addString str m =
     (if \<not> canAdd (of_nat (length str) + 2) m \<or> length str > 8192 then Some m
      else case add_u16 (of_nat (length str)) m of
        None \<Rightarrow> None
      | Some m \<Rightarrow> put_bytes str m)"

text \<open>\<open>addPaddingBytes\<close> fills without moving the position.\<close>

definition addPaddingBytes :: "u64 \<Rightarrow> 'a net_msg_scheme \<Rightarrow> 'a net_msg_scheme option" where
  "addPaddingBytes n m =
     (if \<not> canAdd n m then Some m
      else case buf_write (unat (nm_position m)) (replicate (unat n) 0x33) (nm_buffer m) of
        None \<Rightarrow> None
      | Some b \<Rightarrow> Some (m\<lparr>nm_buffer := b, nm_length := nm_length m + ucast n\<rparr>))"

definition addPosition :: "Position \<Rightarrow> 'a net_msg_scheme \<Rightarrow> 'a net_msg_scheme option" where
  "addPosition pos m =
     Option.bind (add_u16 (pos_x pos) m) (\<lambda>m.
     Option.bind (add_u16 (pos_y pos) m) (\<lambda>m.
     addByte (pos_z pos) m))"

subsection \<open>Items\<close>

text \<open>
  What the item writers read of the item type table \<open>Item::items\<close>; the table is an argument.
\<close>

record item_type_net =
  itn_clientId :: u16
  itn_stackable :: bool
  itn_isSplash :: bool
  itn_isFluidContainer :: bool

definition fluidMap :: "u8 list" where
  "fluidMap = [0, 1, 5, 3, 6, 8, 9, 2]"

definition addItemId :: "(u16 \<Rightarrow> item_type_net) \<Rightarrow> u16 \<Rightarrow> bool \<Rightarrow> 'a net_msg_scheme \<Rightarrow> 'a net_msg_scheme option" where
  "addItemId items itemId isOTCv8 =
     (let it = items itemId;
          clientId = itn_clientId it;
          clientId = (if \<not> isOTCv8 \<and> itemId > 12660
                      then (if itn_stackable it then 3031 else 105) else clientId)
      in add_u16 clientId)"

definition addItem :: "(u16 \<Rightarrow> item_type_net) \<Rightarrow> u16 \<Rightarrow> u8 \<Rightarrow> bool \<Rightarrow> 'a net_msg_scheme \<Rightarrow> 'a net_msg_scheme option" where
  "addItem items iid count isOTCv8 m =
     Option.bind (addItemId items iid isOTCv8 m) (\<lambda>m.
       let it = items iid
       in if itn_stackable it then addByte count m
          else if itn_isSplash it \<or> itn_isFluidContainer it
               then addByte (fluidMap ! unat (count AND 7)) m
          else Some m)"

text \<open>The overload for an \<open>Item\<close>: its id, \<open>getItemCount()\<close> and \<open>getFluidType()\<close>.\<close>

definition addItem_ptr ::
  "(u16 \<Rightarrow> item_type_net) \<Rightarrow> u16 \<Rightarrow> u16 \<Rightarrow> u16 \<Rightarrow> bool \<Rightarrow> 'a net_msg_scheme \<Rightarrow> 'a net_msg_scheme option" where
  "addItem_ptr items iid itemCount fluidType isOTCv8 m =
     Option.bind (addItemId items iid isOTCv8 m) (\<lambda>m.
       let it = items iid
       in if itn_stackable it then addByte (ucast (min 0xFF itemCount)) m
          else if itn_isSplash it \<or> itn_isFluidContainer it
               then addByte (fluidMap ! unat (fluidType AND 7)) m
          else Some m)"

subsection \<open>Reading\<close>

definition getByte :: "'a net_msg_scheme \<Rightarrow> (u8 \<times> 'a net_msg_scheme) option" where
  "getByte m =
     (case canRead 1 m of
        (False, m) \<Rightarrow> Some (0, m)
      | (True, m) \<Rightarrow> (case buf_read (unat (nm_position m)) 1 (nm_buffer m) of
            None \<Rightarrow> None
          | Some bs \<Rightarrow> Some (hd bs, m\<lparr>nm_position := nm_position m + 1\<rparr>)))"

text \<open>\<open>get<T>\<close> of \<open>n\<close> bytes: a refused read yields 0, whose object representation is all zero.\<close>

definition nm_get :: "nat \<Rightarrow> 'a net_msg_scheme \<Rightarrow> (u8 list \<times> 'a net_msg_scheme) option" where
  "nm_get n m =
     (case canRead (int n) m of
        (False, m) \<Rightarrow> Some (replicate n 0, m)
      | (True, m) \<Rightarrow> (case buf_read (unat (nm_position m)) n (nm_buffer m) of
            None \<Rightarrow> None
          | Some bs \<Rightarrow> Some (bs, m\<lparr>nm_position := nm_position m + of_nat n\<rparr>)))"

definition get_u16 :: "'a net_msg_scheme \<Rightarrow> (u16 \<times> 'a net_msg_scheme) option" where
  "get_u16 m = map_option (map_prod le_word id) (nm_get 2 m)"

definition get_u32 :: "'a net_msg_scheme \<Rightarrow> (u32 \<times> 'a net_msg_scheme) option" where
  "get_u32 m = map_option (map_prod le_word id) (nm_get 4 m)"

definition get_u64 :: "'a net_msg_scheme \<Rightarrow> (u64 \<times> 'a net_msg_scheme) option" where
  "get_u64 m = map_option (map_prod le_word id) (nm_get 8 m)"

definition getString :: "u16 \<Rightarrow> 'a net_msg_scheme \<Rightarrow> (u8 list \<times> 'a net_msg_scheme) option" where
  "getString stringLen m =
     Option.bind (if stringLen = 0 then get_u16 m else Some (stringLen, m)) (\<lambda>(stringLen, m).
       case canRead (uint stringLen) m of
         (False, m) \<Rightarrow> Some ([], m)
       | (True, m) \<Rightarrow> (case buf_read (unat (nm_position m)) (unat stringLen) (nm_buffer m) of
             None \<Rightarrow> None
           | Some bs \<Rightarrow> Some (bs, m\<lparr>nm_position := nm_position m + stringLen\<rparr>)))"

definition getPosition :: "'a net_msg_scheme \<Rightarrow> (Position \<times> 'a net_msg_scheme) option" where
  "getPosition m =
     Option.bind (get_u16 m) (\<lambda>(x, m).
     Option.bind (get_u16 m) (\<lambda>(y, m).
     Option.bind (getByte m) (\<lambda>(z, m). Some (Position x y z, m))))"

definition getPreviousByte :: "'a net_msg_scheme \<Rightarrow> (u8 \<times> 'a net_msg_scheme) option" where
  "getPreviousByte m =
     (let m = m\<lparr>nm_position := nm_position m - 1\<rparr>
      in case buf_read (unat (nm_position m)) 1 (nm_buffer m) of
           None \<Rightarrow> None
         | Some bs \<Rightarrow> Some (hd bs, m))"

definition skipBytes :: "i16 \<Rightarrow> 'a net_msg_scheme \<Rightarrow> 'a net_msg_scheme" where
  "skipBytes count m = m\<lparr>nm_position := nm_position m + count\<rparr>"

definition setLength :: "u16 \<Rightarrow> 'a net_msg_scheme \<Rightarrow> 'a net_msg_scheme" where
  "setLength newLength m = m\<lparr>nm_length := newLength\<rparr>"

definition getRemainingBufferLength :: "'a net_msg_scheme \<Rightarrow> u16" where
  "getRemainingBufferLength m = nm_length m - nm_position m"

definition setBufferPosition :: "u16 \<Rightarrow> 'a net_msg_scheme \<Rightarrow> bool \<times> 'a net_msg_scheme" where
  "setBufferPosition pos m =
     (if int (unat pos) < int NETWORKMESSAGE_MAXSIZE - int (unat INITIAL_BUFFER_POSITION)
      then (True, m\<lparr>nm_position := pos + INITIAL_BUFFER_POSITION\<rparr>) else (False, m))"

definition getLengthHeader :: "'a net_msg_scheme \<Rightarrow> u16" where
  "getLengthHeader m = ucast (nm_buffer m 0) OR push_bit 8 (ucast (nm_buffer m 1))"

text \<open>\<open>getBodyBuffer\<close> also moves the position behind the length header.\<close>

definition getBodyBuffer :: "'a net_msg_scheme \<Rightarrow> 'a net_msg_scheme" where
  "getBodyBuffer m = m\<lparr>nm_position := 2\<rparr>"

subsection \<open>Streams of fields\<close>

text \<open>
  A writer and a reader of typed fields.  The laws say that writing a field appends its object
  representation and that reading its kind takes that representation off the unread bytes.
\<close>

fun put_all :: "('f \<Rightarrow> 'w \<Rightarrow> 'w option) \<Rightarrow> 'f list \<Rightarrow> 'w \<Rightarrow> 'w option" where
  "put_all put [] w = Some w"
| "put_all put (f # fs) w = (case put f w of None \<Rightarrow> None | Some w \<Rightarrow> put_all put fs w)"

fun get_all :: "('k \<Rightarrow> 'r \<Rightarrow> ('f \<times> 'r) option) \<Rightarrow> 'k list \<Rightarrow> 'r \<Rightarrow> ('f list \<times> 'r) option" where
  "get_all get [] r = Some ([], r)"
| "get_all get (k # ks) r =
     (case get k r of
        None \<Rightarrow> None
      | Some (f, r) \<Rightarrow> (case get_all get ks r of None \<Rightarrow> None | Some (fs, r) \<Rightarrow> Some (f # fs, r)))"

locale field_stream =
  fixes put :: "'f \<Rightarrow> 'w \<Rightarrow> 'w option" and get :: "'k \<Rightarrow> 'r \<Rightarrow> ('f \<times> 'r) option"
    and rep :: "'f \<Rightarrow> u8 list" and kind :: "'f \<Rightarrow> 'k" and ok :: "'f \<Rightarrow> bool"
    and winv :: "'w \<Rightarrow> bool" and written :: "'w \<Rightarrow> u8 list" and room :: "'w \<Rightarrow> nat"
    and rinv :: "'r \<Rightarrow> bool" and unread :: "'r \<Rightarrow> u8 list"
  assumes put_rep: "winv w \<Longrightarrow> ok f \<Longrightarrow> length (rep f) \<le> room w \<Longrightarrow>
      \<exists>w'. put f w = Some w' \<and> winv w' \<and> written w' = written w @ rep f
        \<and> room w' + length (rep f) = room w"
    and get_rep: "rinv r \<Longrightarrow> ok f \<Longrightarrow> unread r = rep f @ rest \<Longrightarrow>
      \<exists>r'. get (kind f) r = Some (f, r') \<and> rinv r' \<and> unread r' = rest"
begin

lemma put_all_rep:
  "winv w \<Longrightarrow> list_all ok fs \<Longrightarrow> length (concat (map rep fs)) \<le> room w \<Longrightarrow>
    \<exists>w'. put_all put fs w = Some w' \<and> winv w' \<and> written w' = written w @ concat (map rep fs)"
proof (induction fs arbitrary: w)
  case (Cons f fs)
  from Cons.prems obtain w1 where w1: "put f w = Some w1" "winv w1" "written w1 = written w @ rep f"
    "room w1 + length (rep f) = room w"
    using put_rep [of w f] by auto
  with Cons.IH [of w1] Cons.prems show ?case by auto
qed simp

lemma get_all_rep:
  "rinv r \<Longrightarrow> list_all ok fs \<Longrightarrow> unread r = concat (map rep fs) @ rest \<Longrightarrow>
    \<exists>r'. get_all get (map kind fs) r = Some (fs, r') \<and> rinv r' \<and> unread r' = rest"
proof (induction fs arbitrary: r)
  case (Cons f fs)
  from Cons.prems obtain r1 where "get (kind f) r = Some (f, r1)" "rinv r1"
    "unread r1 = concat (map rep fs) @ rest"
    using get_rep [of r f "concat (map rep fs) @ rest"] by auto
  with Cons.IH [of r1] Cons.prems show ?case by auto
qed simp

end

subsection \<open>The message is a stream of fields\<close>

datatype nm_field = FByte u8 | FU16 u16 | FU32 u32 | FU64 u64 | FString "u8 list" | FPosition Position

datatype field_kind = KByte | KU16 | KU32 | KU64 | KString | KPosition

fun kind_of :: "nm_field \<Rightarrow> field_kind" where
  "kind_of (FByte _) = KByte"
| "kind_of (FU16 _) = KU16"
| "kind_of (FU32 _) = KU32"
| "kind_of (FU64 _) = KU64"
| "kind_of (FString _) = KString"
| "kind_of (FPosition _) = KPosition"

fun field_rep :: "nm_field \<Rightarrow> u8 list" where
  "field_rep (FByte v) = [v]"
| "field_rep (FU16 v) = le_bytes 2 v"
| "field_rep (FU32 v) = le_bytes 4 v"
| "field_rep (FU64 v) = le_bytes 8 v"
| "field_rep (FString s) = le_bytes 2 (of_nat (length s) :: u16) @ s"
| "field_rep (FPosition p) = le_bytes 2 (pos_x p) @ le_bytes 2 (pos_y p) @ [pos_z p]"

fun field_ok :: "nm_field \<Rightarrow> bool" where
  "field_ok (FString s) \<longleftrightarrow> length s \<le> 8192"
| "field_ok _ \<longleftrightarrow> True"

fun nm_put :: "nm_field \<Rightarrow> 'a net_msg_scheme \<Rightarrow> 'a net_msg_scheme option" where
  "nm_put (FByte v) = addByte v"
| "nm_put (FU16 v) = add_u16 v"
| "nm_put (FU32 v) = add_u32 v"
| "nm_put (FU64 v) = add_u64 v"
| "nm_put (FString s) = addString s"
| "nm_put (FPosition p) = addPosition p"

fun nm_take :: "field_kind \<Rightarrow> 'a net_msg_scheme \<Rightarrow> (nm_field \<times> 'a net_msg_scheme) option" where
  "nm_take KByte m = map_option (map_prod FByte id) (getByte m)"
| "nm_take KU16 m = map_option (map_prod FU16 id) (get_u16 m)"
| "nm_take KU32 m = map_option (map_prod FU32 id) (get_u32 m)"
| "nm_take KU64 m = map_option (map_prod FU64 id) (get_u64 m)"
| "nm_take KString m = map_option (map_prod FString id) (getString 0 m)"
| "nm_take KPosition m = map_option (map_prod FPosition id) (getPosition m)"

definition nm_written :: "'a net_msg_scheme \<Rightarrow> u8 list" where
  "nm_written m = map (nm_buffer m) [8..<8 + unat (nm_length m)]"

definition nm_room :: "'a net_msg_scheme \<Rightarrow> nat" where
  "nm_room m = MAX_BODY_LENGTH - 1 - unat (nm_position m)"

definition nm_winv :: "'a net_msg_scheme \<Rightarrow> bool" where
  "nm_winv m \<longleftrightarrow> unat (nm_position m) = unat (nm_length m) + 8 \<and> unat (nm_position m) < MAX_BODY_LENGTH
     \<and> \<not> nm_overrun m"

definition nm_unread :: "'a net_msg_scheme \<Rightarrow> u8 list" where
  "nm_unread m = map (nm_buffer m) [unat (nm_position m)..<8 + unat (nm_length m)]"

definition nm_rinv :: "'a net_msg_scheme \<Rightarrow> bool" where
  "nm_rinv m \<longleftrightarrow> unat (nm_position m) \<le> unat (nm_length m) + 8
     \<and> unat (nm_length m) + 8 < NETWORKMESSAGE_MAXSIZE \<and> \<not> nm_overrun m"

lemma canAdd_iff:
  "n < 18446744073709486080 \<Longrightarrow>
     canAdd (of_nat n) m \<longleftrightarrow> n + unat (nm_position m) < MAX_BODY_LENGTH"
proof -
  assume n: "n < 18446744073709486080"
  then have "n + unat (nm_position m) < 18446744073709551616"
    using unat_u16_less [of "nm_position m"] by simp
  with n show "canAdd (of_nat n) m \<longleftrightarrow> n + unat (nm_position m) < MAX_BODY_LENGTH"
    by (simp add: canAdd_def unat_word_ariths bound_simps)
qed

lemma put_bytes_appends:
  assumes "nm_winv m" and "length bs \<le> nm_room m"
  shows "\<exists>m'. put_bytes bs m = Some m' \<and> nm_winv m' \<and> nm_written m' = nm_written m @ bs
    \<and> nm_room m' + length bs = nm_room m"
proof -
  define p where "p = unat (nm_position m)"
  have p: "p = unat (nm_length m) + 8" "p + length bs < 24576"
    using assms by (auto simp: nm_winv_def nm_room_def p_def nm_consts)
  define b where "b = (\<lambda>i. if p \<le> i \<and> i < p + length bs then bs ! (i - p) else nm_buffer m i)"
  define m' where "m' = m\<lparr>nm_buffer := b, nm_position := nm_position m + of_nat (length bs),
    nm_length := nm_length m + of_nat (length bs)\<rparr>"
  have put: "put_bytes bs m = Some m'"
    using p(2) by (simp add: put_bytes_def buf_write_def m'_def b_def nm_consts flip: p_def)
  have pos: "unat (nm_position m') = p + length bs" "unat (nm_length m') + 8 = p + length bs"
    using p by (simp_all add: m'_def unat_word_ariths bound_simps flip: p_def)
  have "8 + unat (nm_length m') = p + length bs" "8 \<le> p"
    using pos(2) p(1) by simp_all
  then have "nm_written m' = map b [8..<p] @ map b [p..<p + length bs]"
    using upt_add_eq_append [of 8 p "length bs"]
    by (simp add: nm_written_def) (simp add: m'_def)
  also have "map b [8..<p] = nm_written m"
    using p by (simp add: nm_written_def b_def add.commute)
  also have "map b [p..<p + length bs] = bs"
    by (rule nth_equalityI) (simp_all add: b_def)
  finally show ?thesis
    using put pos p assms(1) by (intro exI [of _ m']) (auto simp: nm_winv_def nm_room_def nm_consts p_def m'_def)
qed

lemma nm_rep_appends:
  assumes "nm_winv m" and "length bs \<le> nm_room m"
  shows "\<exists>m'. nm_add bs m = Some m' \<and> nm_winv m' \<and> nm_written m' = nm_written m @ bs
    \<and> nm_room m' + length bs = nm_room m"
proof -
  have "canAdd (of_nat (length bs)) m"
    using assms by (subst canAdd_iff) (auto simp: nm_winv_def nm_room_def nm_consts)
  then show ?thesis
    using put_bytes_appends [OF assms] by (simp add: nm_add_def)
qed

lemma addByte_nm_add: "addByte v = nm_add [v]"
  by (simp add: addByte_def nm_add_def fun_eq_iff)

lemma addString_appends:
  assumes "nm_winv m" and "length s \<le> 8192" and "2 + length s \<le> nm_room m"
  shows "\<exists>m'. addString s m = Some m' \<and> nm_winv m'
    \<and> nm_written m' = nm_written m @ le_bytes 2 (of_nat (length s) :: u16) @ s
    \<and> nm_room m' + (2 + length s) = nm_room m"
proof -
  have "canAdd (of_nat (length s) + 2) m"
    using assms canAdd_iff [of "length s + 2" m]
    by (auto simp: nm_winv_def nm_room_def nm_consts add.commute)
  moreover obtain m1 where m1: "add_u16 (of_nat (length s)) m = Some m1" "nm_winv m1"
    "nm_written m1 = nm_written m @ le_bytes 2 (of_nat (length s) :: u16)" "nm_room m1 + 2 = nm_room m"
    using nm_rep_appends [OF assms(1), of "le_bytes 2 (of_nat (length s) :: u16)"] assms(3)
    by (auto simp: add_u16_def)
  ultimately show ?thesis
    using put_bytes_appends [of m1 s] assms by (auto simp: addString_def)
qed

lemma uint_eq_int_unat: "uint w = int (unat w)"
  by simp

lemma nm_read_step:
  assumes "nm_rinv m" and "nm_unread m = bs @ rest"
  defines "m' \<equiv> m\<lparr>nm_position := nm_position m + of_nat (length bs)\<rparr>"
  shows "canRead (int (length bs)) m = (True, m)
    \<and> buf_read (unat (nm_position m)) (length bs) (nm_buffer m) = Some bs
    \<and> nm_rinv m' \<and> nm_unread m' = rest"
proof -
  define p l where "p = unat (nm_position m)" and "l = unat (nm_length m) + 8"
  have up: "uint (nm_position m) = int p" and ul: "uint (nm_length m) + 8 = int l"
    by (simp_all add: p_def l_def)
  have bnd: "p \<le> l" "l < 24590" "\<not> nm_overrun m"
    using assms(1) by (simp_all add: nm_rinv_def p_def l_def nm_consts)
  have eq: "map (nm_buffer m) [p..<l] = bs @ rest"
    using assms(2) by (simp add: nm_unread_def p_def l_def add.commute)
  then have len: "l - p = length bs + length rest"
    by (metis length_append length_map length_upt)
  have split: "[p..<l] = [p..<p + length bs] @ [p + length bs..<l]"
    using len bnd upt_add_eq_append [of p "p + length bs" "length rest"]
      le_add_diff_inverse [OF bnd(1)] by (simp add: add.assoc)
  have parts: "map (nm_buffer m) [p..<p + length bs] = bs" "map (nm_buffer m) [p + length bs..<l] = rest"
    using eq len by (simp_all add: split)
  have le_l: "int p + int (length bs) \<le> int l" "int l < 24590"
    using len bnd by linarith+
  have pos: "unat (nm_position m') = p + length bs"
    using len bnd by (simp add: m'_def unat_word_ariths bound_simps flip: p_def)
  have "canRead (int (length bs)) m = (True, m)"
    using le_l by (simp add: canRead_def up ul nm_consts)
  moreover have "buf_read p (length bs) (nm_buffer m) = Some bs"
    using len bnd parts by (simp add: buf_read_def nm_consts)
  moreover have "nm_rinv m'"
    using bnd len pos by (simp add: nm_rinv_def nm_consts) (simp add: m'_def l_def)
  moreover have "nm_unread m' = rest"
    using parts pos by (simp add: nm_unread_def) (simp add: m'_def l_def add.commute)
  ultimately show ?thesis by (simp add: p_def)
qed

lemma nm_get_takes:
  assumes "nm_rinv m" and "nm_unread m = bs @ rest" and "length bs = n"
  shows "\<exists>m'. nm_get n m = Some (bs, m') \<and> nm_rinv m' \<and> nm_unread m' = rest"
  using nm_read_step [OF assms(1,2)] assms(3) by (auto simp: nm_get_def)

lemma getByte_takes:
  assumes "nm_rinv m" and "nm_unread m = b # rest"
  shows "\<exists>m'. getByte m = Some (b, m') \<and> nm_rinv m' \<and> nm_unread m' = rest"
  using nm_read_step [of m "[b]" rest] assms by (auto simp: getByte_def)

lemma get_u16_takes:
  assumes "nm_rinv m" and "nm_unread m = le_bytes 2 (v :: u16) @ rest"
  shows "\<exists>m'. get_u16 m = Some (v, m') \<and> nm_rinv m' \<and> nm_unread m' = rest"
  using nm_get_takes [OF assms, of 2] by (auto simp: get_u16_def codec_simps)

lemma get_u32_takes:
  assumes "nm_rinv m" and "nm_unread m = le_bytes 4 (v :: u32) @ rest"
  shows "\<exists>m'. get_u32 m = Some (v, m') \<and> nm_rinv m' \<and> nm_unread m' = rest"
  using nm_get_takes [OF assms, of 4] by (auto simp: get_u32_def codec_simps)

lemma get_u64_takes:
  assumes "nm_rinv m" and "nm_unread m = le_bytes 8 (v :: u64) @ rest"
  shows "\<exists>m'. get_u64 m = Some (v, m') \<and> nm_rinv m' \<and> nm_unread m' = rest"
  using nm_get_takes [OF assms, of 8] by (auto simp: get_u64_def codec_simps)

lemma getString_takes:
  assumes "nm_rinv m" and "length s \<le> 8192"
    and "nm_unread m = le_bytes 2 (of_nat (length s) :: u16) @ s @ rest"
  shows "\<exists>m'. getString 0 m = Some (s, m') \<and> nm_rinv m' \<and> nm_unread m' = rest"
proof -
  have len: "unat (of_nat (length s) :: u16) = length s"
    using assms(2) by (simp add: bound_simps)
  then have len': "uint (of_nat (length s) :: u16) = int (length s)"
    by (metis uint_nat)
  obtain m1 where "get_u16 m = Some (of_nat (length s), m1)" "nm_rinv m1" "nm_unread m1 = s @ rest"
    using get_u16_takes [OF assms(1,3)] by auto
  then show ?thesis
    using nm_read_step [of m1 s rest] len len' by (auto simp: getString_def)
qed

lemma addPosition_appends:
  assumes "nm_winv m" and "5 \<le> nm_room m"
  shows "\<exists>m'. addPosition p m = Some m' \<and> nm_winv m'
    \<and> nm_written m' = nm_written m @ le_bytes 2 (pos_x p) @ le_bytes 2 (pos_y p) @ [pos_z p]
    \<and> nm_room m' + 5 = nm_room m"
proof -
  obtain m1 where m1: "add_u16 (pos_x p) m = Some m1" "nm_winv m1"
    "nm_written m1 = nm_written m @ le_bytes 2 (pos_x p)" "nm_room m1 + 2 = nm_room m"
    using nm_rep_appends [OF assms(1), of "le_bytes 2 (pos_x p)"] assms(2)
    by (auto simp: add_u16_def simp del: le_bytes.simps)
  obtain m2 where m2: "add_u16 (pos_y p) m1 = Some m2" "nm_winv m2"
    "nm_written m2 = nm_written m1 @ le_bytes 2 (pos_y p)" "nm_room m2 + 2 = nm_room m1"
    using nm_rep_appends [OF m1(2), of "le_bytes 2 (pos_y p)"] assms(2) m1(4)
    by (auto simp: add_u16_def simp del: le_bytes.simps)
  show ?thesis
    using nm_rep_appends [OF m2(2), of "[pos_z p]"] m1 m2 assms(2)
    by (auto simp: addPosition_def addByte_nm_add simp del: le_bytes.simps)
qed

lemma getPosition_takes:
  assumes "nm_rinv m" and "nm_unread m = le_bytes 2 (pos_x p) @ le_bytes 2 (pos_y p) @ [pos_z p] @ rest"
  shows "\<exists>m'. getPosition m = Some (p, m') \<and> nm_rinv m' \<and> nm_unread m' = rest"
proof -
  obtain m1 where m1: "get_u16 m = Some (pos_x p, m1)" "nm_rinv m1"
    "nm_unread m1 = le_bytes 2 (pos_y p) @ [pos_z p] @ rest"
    using get_u16_takes [OF assms] by auto
  obtain m2 where m2: "get_u16 m1 = Some (pos_y p, m2)" "nm_rinv m2" "nm_unread m2 = pos_z p # rest"
    using get_u16_takes [OF m1(2,3)] by auto
  show ?thesis
    using getByte_takes [OF m2(2,3)] m1(1) m2(1) by (auto simp: getPosition_def)
qed

interpretation message: field_stream nm_put nm_take field_rep kind_of field_ok
  nm_winv nm_written nm_room nm_rinv nm_unread
proof
  fix w :: "'a net_msg_scheme" and f
  assume "nm_winv w" "field_ok f" "length (field_rep f) \<le> nm_room w"
  then show "\<exists>w'. nm_put f w = Some w' \<and> nm_winv w' \<and> nm_written w' = nm_written w @ field_rep f
      \<and> nm_room w' + length (field_rep f) = nm_room w"
    using addString_appends [of w] addPosition_appends [of w] nm_rep_appends [of w "field_rep f"]
    by (cases f) (auto simp: addByte_nm_add add_u16_def add_u32_def add_u64_def simp del: le_bytes.simps)
next
  fix r :: "'b net_msg_scheme" and f rest
  assume "nm_rinv r" "field_ok f" "nm_unread r = field_rep f @ rest"
  then show "\<exists>r'. nm_take (kind_of f) r = Some (f, r') \<and> nm_rinv r' \<and> nm_unread r' = rest"
    using getByte_takes [of r] get_u16_takes [of r] get_u32_takes [of r] get_u64_takes [of r]
      getString_takes [of r] getPosition_takes [of r]
    by (cases f) (fastforce simp del: le_bytes.simps)+
qed

subsection \<open>Memory safety\<close>

lemma put_bytes_defined:
  "unat (nm_position m) + length bs \<le> NETWORKMESSAGE_MAXSIZE \<Longrightarrow> put_bytes bs m \<noteq> None"
  by (simp add: put_bytes_def buf_write_def)

lemma nm_add_defined:
  assumes "length rep < 18446744073709486080"
  shows "nm_add rep m \<noteq> None"
proof (cases "canAdd (of_nat (length rep)) m")
  case True
  then have "unat (nm_position m) + length rep \<le> NETWORKMESSAGE_MAXSIZE"
    using canAdd_iff [OF assms, of m] by (simp add: nm_consts)
  with True show ?thesis by (simp add: nm_add_def put_bytes_defined)
qed (simp add: nm_add_def)

lemma addBytes_defined:
  assumes "length bs < 18446744073709486080"
  shows "addBytes bs m \<noteq> None"
  using nm_add_defined [OF assms, of m] by (simp add: addBytes_def nm_add_def split: if_splits)

lemma addPaddingBytes_defined:
  assumes "unat n < 18446744073709486080"
  shows "addPaddingBytes n m \<noteq> None"
  using canAdd_iff [OF assms, of m]
  by (auto simp: addPaddingBytes_def buf_write_def nm_consts split: if_splits)

lemma nm_add_u16_position:
  assumes "canAdd 2 m" and "add_u16 v m = Some m'"
  shows "unat (nm_position m') = unat (nm_position m) + 2"
proof -
  have "unat (nm_position m) + 2 < 24576"
    using assms(1) canAdd_iff [of 2 m] by (simp add: nm_consts)
  then show ?thesis
    using assms by (auto simp: add_u16_def nm_add_def put_bytes_def unat_word_ariths
        simp del: le_bytes.simps split: option.splits)
qed

lemma addString_defined:
  assumes "length s < 18446744073709486078"
  shows "addString s m \<noteq> None"
proof (cases "\<not> canAdd (of_nat (length s) + 2) m \<or> length s > 8192")
  case False
  then have fit: "length s + 2 + unat (nm_position m) < MAX_BODY_LENGTH"
    using canAdd_iff [of "length s + 2" m] assms by (simp add: add.commute)
  then have "canAdd 2 m"
    using canAdd_iff [of 2 m] by simp
  moreover obtain m1 where m1: "add_u16 (of_nat (length s)) m = Some m1"
    using nm_add_defined [of "le_bytes 2 (of_nat (length s) :: u16)" m]
    by (auto simp: add_u16_def simp del: le_bytes.simps)
  ultimately have "unat (nm_position m1) = unat (nm_position m) + 2"
    by (rule nm_add_u16_position)
  with fit have "put_bytes s m1 \<noteq> None"
    by (intro put_bytes_defined) (simp add: nm_consts)
  with False m1 show ?thesis by (simp add: addString_def)
qed (auto simp: addString_def)

lemma add_u16_defined: "add_u16 v m \<noteq> None"
  using nm_add_defined [of "le_bytes 2 v" m] by (simp add: add_u16_def del: le_bytes.simps)

lemma addByte_defined: "addByte v m \<noteq> None"
  using nm_add_defined [of "[v]" m] by (simp add: addByte_nm_add)

lemma nm_put_defined:
  assumes "length (field_rep f) < 18446744073709486080"
  shows "nm_put f m \<noteq> None"
proof (cases f)
  case (FPosition p)
  then show ?thesis
    by (simp add: addPosition_def bind_eq_None_conv add_u16_defined addByte_defined
        del: not_None_eq)
qed (use assms addString_defined [of _ m] nm_add_defined [of _ m] in
    \<open>auto simp: add_u16_def add_u32_def add_u64_def addByte_nm_add simp del: le_bytes.simps\<close>)

lemma canRead_bounds:
  "canRead (int n) m = (True, m') \<Longrightarrow>
     m' = m \<and> unat (nm_position m) + n < NETWORKMESSAGE_MAXSIZE"
proof -
  assume r: "canRead (int n) m = (True, m')"
  then have "m' = m" and "int n < int NETWORKMESSAGE_MAXSIZE - uint (nm_position m)"
    by (auto simp: canRead_def not_le split: if_splits)
  with uint_nat [of "nm_position m"] show ?thesis by linarith
qed

lemma nm_get_defined: "nm_get n m \<noteq> None"
  using canRead_bounds [of n m] by (auto simp: nm_get_def buf_read_def split: prod.splits bool.splits)

lemma getByte_defined: "getByte m \<noteq> None"
  using canRead_bounds [of 1 m] by (auto simp: getByte_def buf_read_def split: prod.splits bool.splits)

lemma getString_tail_defined:
  "(case canRead (uint (k :: u16)) m of
      (False, m) \<Rightarrow> Some ([], m)
    | (True, m) \<Rightarrow> (case buf_read (unat (nm_position m)) (unat k) (nm_buffer m) of
          None \<Rightarrow> None
        | Some bs \<Rightarrow> Some (bs, m\<lparr>nm_position := nm_position m + k\<rparr>))) \<noteq> None"
proof (cases "canRead (uint k) m")
  case (Pair b m')
  then show ?thesis
    using canRead_bounds [of "unat k" m m'] by (cases b) (auto simp: buf_read_def)
qed

lemma getString_defined: "getString n m \<noteq> None"
proof -
  obtain v m1 where "get_u16 m = Some (v, m1)"
    using nm_get_defined [of 2 m] by (auto simp: get_u16_def)
  then show ?thesis
    using getString_tail_defined [of n m] getString_tail_defined [of v m1]
    by (simp add: getString_def del: not_None_eq)
qed

lemma nm_take_defined: "nm_take k m \<noteq> None"
proof (cases k)
  case KPosition
  have "get_u16 m' \<noteq> None" for m' :: "'a net_msg_scheme"
    by (simp add: get_u16_def nm_get_defined)
  then have "getPosition m \<noteq> None"
    using getByte_defined
    by (auto simp: getPosition_def bind_eq_None_conv simp del: not_None_eq split: prod.splits)
  with KPosition show ?thesis by simp
qed (simp_all add: get_u16_def get_u32_def get_u64_def nm_get_defined getByte_defined
    getString_defined)

lemma getPreviousByte_None_iff:
  "getPreviousByte m = None \<longleftrightarrow> nm_position m = 0 \<or> 24590 < unat (nm_position m)"
proof (cases "nm_position m = 0")
  case True
  moreover have "unat (- 1 :: u16) = 65535"
    by (simp add: unat_word_ariths unsigned_minus_1_eq_mask mask_eq_exp_minus_1)
  ultimately show ?thesis
    by (simp add: getPreviousByte_def Let_def buf_read_def nm_consts)
next
  case False
  then have "unat (nm_position m - 1) + 1 = unat (nm_position m)"
    by (simp add: unat_gt_0 unat_minus_one)
  with False show ?thesis
    by (auto simp: getPreviousByte_def Let_def buf_read_def nm_consts)
qed

lemma addItem_defined: "addItem items iid count isOTCv8 m \<noteq> None"
  "addItem_ptr items iid itemCount fluidType isOTCv8 m \<noteq> None"
  by (simp_all add: addItem_def addItem_ptr_def addItemId_def Let_def bind_eq_None_conv
      add_u16_defined addByte_defined del: not_None_eq)

subsection \<open>Properties\<close>

text \<open>
  C3: any sequence of typed fields (bytes, 16/32/64-bit integers, strings, positions) written to a
  fresh message, as long as it fits, is read back unchanged from the start of the body; every byte
  written is consumed and no read is reported as an overrun.
\<close>

theorem message_fields_roundtrip:
  assumes "list_all field_ok fs" and "length (concat (map field_rep fs)) \<le> 24567"
  shows "\<exists>w r. put_all nm_put fs nm_init = Some w
    \<and> get_all nm_take (map kind_of fs) (snd (setBufferPosition 0 w)) = Some (fs, r)
    \<and> nm_unread r = [] \<and> \<not> nm_overrun r"
proof -
  have "nm_winv nm_init" "nm_room nm_init = 24567" "nm_written nm_init = []"
    by (simp_all add: nm_winv_def nm_room_def nm_written_def nm_init_def nm_consts)
  then obtain w where w: "put_all nm_put fs nm_init = Some w" "nm_winv w"
    "nm_written w = concat (map field_rep fs)"
    using message.put_all_rep [of nm_init fs] assms by auto
  define r where "r = w\<lparr>nm_overrun := False, nm_position := INITIAL_BUFFER_POSITION\<rparr>"
  have ov: "\<not> nm_overrun w" using w(2) by (simp add: nm_winv_def)
  have "nm_rinv r" "nm_unread r = concat (map field_rep fs) @ []"
    using w(2,3) by (simp_all add: r_def nm_rinv_def nm_unread_def nm_winv_def nm_written_def nm_consts)
  then obtain r' where "get_all nm_take (map kind_of fs) r = Some (fs, r')" "nm_rinv r'" "nm_unread r' = []"
    using message.get_all_rep [of r fs "[]"] assms by auto
  moreover have "snd (setBufferPosition 0 w) = r"
    using ov by (simp add: setBufferPosition_def r_def nm_consts)
  ultimately show ?thesis
    using w(1) by (intro exI [of _ w] exI [of _ r']) (simp add: nm_rinv_def)
qed

theorem message_fields_roundtrip_witness:
  "\<exists>w r. put_all nm_put [FU16 513, FString [104, 105], FPosition (Position 100 200 7)] nm_init = Some w
    \<and> get_all nm_take (map kind_of [FU16 513, FString [104, 105], FPosition (Position 100 200 7)])
        (snd (setBufferPosition 0 w))
      = Some ([FU16 513, FString [104, 105], FPosition (Position 100 200 7)], r)
    \<and> nm_unread r = [] \<and> \<not> nm_overrun r"
  by (rule message_fields_roundtrip) simp_all

end
