(* ===== verification/Xtea.thy ===== *)
theory Xtea
  imports Prelude
begin

text \<open>
  The XTEA cipher of \<open>src/server/src/xtea.cpp\<close> (key schedule, encryption and decryption of a byte
  buffer in place), and the encryption steps of \<open>protocol.cpp\<close> are built on it.  A buffer is the list
  of its bytes.  The \<open>it += 8\<close> loop reads and writes eight bytes per step, so a buffer whose length is
  not a multiple of eight is accessed past its end: that is the \<open>None\<close> branch of the model.
\<close>

subsection \<open>Key schedule\<close>

definition xtea_delta :: u32 where
  "xtea_delta = 0x9E3779B9"

text \<open>One iteration of the loop of \<open>expand_key\<close>, with \<open>s\<close> for the loop's \<open>sum\<close> and \<open>ns\<close> for its \<open>next_sum\<close>.\<close>

fun expand_key_loop :: "(nat \<Rightarrow> u32) \<Rightarrow> nat \<Rightarrow> u32 \<Rightarrow> u32 \<Rightarrow> u32 list" where
  "expand_key_loop k 0 s ns = []"
| "expand_key_loop k (Suc n) s ns =
     (s + k (unat (s AND 3))) # (ns + k (unat (drop_bit 11 ns AND 3)))
       # expand_key_loop k n ns (ns + xtea_delta)"

text \<open>\<open>round_keys\<close> is a \<open>std::array<uint32_t, 64>\<close>: 32 iterations of two keys each.\<close>

definition expand_key :: "(nat \<Rightarrow> u32) \<Rightarrow> u32 list" where
  "expand_key k = expand_key_loop k 32 0 xtea_delta"

lemma length_expand_key_loop [simp]: "length (expand_key_loop k n s t) = 2 * n"
  by (induction n arbitrary: s t) simp_all

lemma length_expand_key: "length (expand_key k) = 64"
  by (simp add: expand_key_def)

subsection \<open>One block\<close>

definition xtea_mix :: "u32 \<Rightarrow> u32" where
  "xtea_mix v = (push_bit 4 v XOR drop_bit 5 v) + v"

definition encrypt_block :: "u32 \<Rightarrow> u32 \<Rightarrow> u32 \<times> u32 \<Rightarrow> u32 \<times> u32" where
  "encrypt_block k0 k1 = (\<lambda>(left, right).
     let left = left + (xtea_mix right XOR k0);
         right = right + (xtea_mix left XOR k1)
     in (left, right))"

definition decrypt_block :: "u32 \<Rightarrow> u32 \<Rightarrow> u32 \<times> u32 \<Rightarrow> u32 \<times> u32" where
  "decrypt_block k0 k1 = (\<lambda>(left, right).
     let right = right - (xtea_mix left XOR k1);
         left = left - (xtea_mix right XOR k0)
     in (left, right))"

lemma decrypt_encrypt_block [simp]: "decrypt_block k0 k1 (encrypt_block k0 k1 b) = b"
  by (cases b) (simp add: encrypt_block_def decrypt_block_def Let_def)

lemma encrypt_decrypt_block [simp]: "encrypt_block k0 k1 (decrypt_block k0 k1 b) = b"
  by (cases b) (simp add: encrypt_block_def decrypt_block_def Let_def)

subsection \<open>A buffer\<close>

definition load_block :: "u8 list \<Rightarrow> u32 \<times> u32" where
  "load_block bs = (le_word (take 4 bs), le_word (take 4 (drop 4 bs)))"

definition store_block :: "u32 \<times> u32 \<Rightarrow> u8 list" where
  "store_block = (\<lambda>(left, right). le_bytes 4 left @ le_bytes 4 right)"

lemma load_store_block [simp]: "load_block (store_block b) = b"
  by (cases b) (simp add: load_block_def store_block_def codec_simps)

lemma length_store_block [simp]: "length (store_block b) = 8"
  by (cases b) (simp add: store_block_def)

lemma store_load_block: "length bs = 8 \<Longrightarrow> store_block (load_block bs) = bs"
  by (simp add: load_block_def store_block_def le_bytes_le_word_width)

text \<open>
  The inner loop \<open>for (it = data, last = data + length; it < last; it += 8)\<close> over the bytes left:
  \<open>None\<close> when a step would touch bytes behind the buffer.
\<close>

fun map_blocks :: "(u32 \<times> u32 \<Rightarrow> u32 \<times> u32) \<Rightarrow> u8 list \<Rightarrow> u8 list option" where
  "map_blocks f bs =
     (if bs = [] then Some []
      else if length bs < 8 then None
      else case map_blocks f (drop 8 bs) of
        None \<Rightarrow> None
      | Some rest \<Rightarrow> Some (store_block (f (load_block (take 8 bs))) @ rest))"

declare map_blocks.simps [simp del]

lemma map_blocks_Nil [simp]: "map_blocks f [] = Some []"
  by (simp add: map_blocks.simps)

lemma map_blocks_short: "bs \<noteq> [] \<Longrightarrow> length bs < 8 \<Longrightarrow> map_blocks f bs = None"
  by (simp add: map_blocks.simps [of f bs])

lemma map_blocks_step:
  "length b = 8 \<Longrightarrow> map_blocks f (b @ rest) =
     map_option (\<lambda>r. store_block (f (load_block b)) @ r) (map_blocks f rest)"
  by (subst map_blocks.simps) (auto split: option.splits)

lemma map_blocks_unfold:
  assumes "8 \<le> length bs"
  shows "map_blocks f bs =
    map_option (\<lambda>r. store_block (f (load_block (take 8 bs))) @ r) (map_blocks f (drop 8 bs))"
  using map_blocks_step [of "take 8 bs" f "drop 8 bs"] assms by simp

lemma buffer_cases [case_names empty short block]:
  assumes "bs = [] \<Longrightarrow> P" and "bs \<noteq> [] \<Longrightarrow> length bs < 8 \<Longrightarrow> P"
    and "bs \<noteq> [] \<Longrightarrow> 8 \<le> length bs \<Longrightarrow> P"
  shows P
  using assms by (meson not_le)

lemma map_blocks_length: "map_blocks f bs = Some cs \<Longrightarrow> length cs = length bs"
proof (induction f bs arbitrary: cs rule: map_blocks.induct)
  case (1 f bs)
  show ?case
  proof (cases bs rule: buffer_cases)
    case block
    with "1.prems" obtain r where "map_blocks f (drop 8 bs) = Some r"
      and "cs = store_block (f (load_block (take 8 bs))) @ r"
      by (auto simp: map_blocks_unfold)
    with "1.IH" [of r] block show ?thesis by simp
  qed (use "1.prems" in \<open>auto simp: map_blocks_short\<close>)
qed

lemma map_blocks_defined: "(\<exists>cs. map_blocks f bs = Some cs) \<longleftrightarrow> 8 dvd length bs"
proof (induction f bs rule: map_blocks.induct)
  case (1 f bs)
  show ?case
  proof (cases bs rule: buffer_cases)
    case short
    then show ?thesis by (auto simp: map_blocks_short dest: dvd_imp_le)
  next
    case block
    then have "8 dvd length bs \<longleftrightarrow> 8 dvd length (drop 8 bs)"
      by (simp add: dvd_minus_self)
    with block "1" show ?thesis by (simp add: map_blocks_unfold)
  qed simp
qed

lemma map_blocks_inverse:
  "(\<And>b. g (f b) = b) \<Longrightarrow> map_blocks f bs = Some cs \<Longrightarrow> map_blocks g cs = Some bs"
proof (induction f bs arbitrary: cs rule: map_blocks.induct)
  case (1 f bs)
  show ?case
  proof (cases bs rule: buffer_cases)
    case block
    with "1.prems" obtain r where r: "map_blocks f (drop 8 bs) = Some r"
      and cs: "cs = store_block (f (load_block (take 8 bs))) @ r"
      by (auto simp: map_blocks_unfold)
    have "map_blocks g r = Some (drop 8 bs)"
      using "1.IH" [OF _ _ _ r] block "1.prems"(1) by simp
    then show ?thesis
      using block by (simp add: cs map_blocks_step "1.prems"(1) store_load_block)
  qed (use "1.prems" in \<open>auto simp: map_blocks_short\<close>)
qed

subsection \<open>Encryption and decryption\<close>

text \<open>
  \<open>xtea::encrypt\<close>: for the key pairs in order, one pass over the buffer; \<open>xtea::decrypt\<close>: the key
  pairs from the last to the first.
\<close>

fun encrypt :: "u8 list \<Rightarrow> u32 list \<Rightarrow> u8 list option" where
  "encrypt data (k0 # k1 # ks) =
     (case map_blocks (encrypt_block k0 k1) data of
        None \<Rightarrow> None
      | Some data \<Rightarrow> encrypt data ks)"
| "encrypt data _ = Some data"

fun decrypt :: "u8 list \<Rightarrow> u32 list \<Rightarrow> u8 list option" where
  "decrypt data (k0 # k1 # ks) =
     (case decrypt data ks of
        None \<Rightarrow> None
      | Some data \<Rightarrow> map_blocks (decrypt_block k0 k1) data)"
| "decrypt data _ = Some data"

lemma encrypt_length: "encrypt data ks = Some c \<Longrightarrow> length c = length data"
  by (induction data ks rule: encrypt.induct) (auto split: option.splits dest: map_blocks_length)

lemma decrypt_length: "decrypt data ks = Some c \<Longrightarrow> length c = length data"
  by (induction data ks arbitrary: c rule: decrypt.induct)
    (auto split: option.splits dest: map_blocks_length)

lemma decrypt_encrypt: "encrypt data ks = Some c \<Longrightarrow> decrypt c ks = Some data"
proof (induction data ks rule: encrypt.induct)
  case (1 data k0 k1 ks)
  then obtain d where d: "map_blocks (encrypt_block k0 k1) data = Some d" and "encrypt d ks = Some c"
    by (auto split: option.splits)
  with "1.IH" have "decrypt c ks = Some d" by simp
  then show ?case
    using map_blocks_inverse [OF _ d, of "decrypt_block k0 k1"] by simp
qed auto

lemma encrypt_decrypt: "decrypt data ks = Some c \<Longrightarrow> encrypt c ks = Some data"
proof (induction data ks arbitrary: c rule: decrypt.induct)
  case (1 data k0 k1 ks)
  then obtain d where d: "decrypt data ks = Some d"
    and c: "map_blocks (decrypt_block k0 k1) d = Some c"
    by (auto split: option.splits)
  have "map_blocks (encrypt_block k0 k1) c = Some d"
    by (rule map_blocks_inverse [OF _ c]) simp
  with "1.IH" [OF d] show ?case by simp
qed auto

lemma encrypt_defined: "8 dvd length data \<Longrightarrow> \<exists>c. encrypt data ks = Some c"
proof (induction data ks rule: encrypt.induct)
  case (1 data k0 k1 ks)
  then obtain d where d: "map_blocks (encrypt_block k0 k1) data = Some d"
    using map_blocks_defined by blast
  with "1" show ?case by (auto dest: map_blocks_length)
qed auto

lemma decrypt_defined: "8 dvd length data \<Longrightarrow> \<exists>c. decrypt data ks = Some c"
proof (induction data ks rule: decrypt.induct)
  case (1 data k0 k1 ks)
  then obtain d where d: "decrypt data ks = Some d" by blast
  with "1.prems" show ?case
    using map_blocks_defined [of "decrypt_block k0 k1" d] by (auto dest: decrypt_length)
qed auto

text \<open>
  What the protocol layer relies on: a cipher that is total on the whole blocks, keeps the length and
  is undone by its inverse.
\<close>

locale block_cipher =
  fixes enc :: "u8 list \<Rightarrow> u8 list option" and dec :: "u8 list \<Rightarrow> u8 list option" and bsize :: nat
  assumes enc_defined: "bsize dvd length p \<Longrightarrow> \<exists>c. enc p = Some c"
    and enc_length: "enc p = Some c \<Longrightarrow> length c = length p"
    and dec_enc: "enc p = Some c \<Longrightarrow> dec c = Some p"
begin

lemma enc_inject: "enc p = Some c \<Longrightarrow> enc q = Some c \<Longrightarrow> p = q"
  by (metis dec_enc option.inject)

lemma roundtrip: "bsize dvd length p \<Longrightarrow> \<exists>c. enc p = Some c \<and> length c = length p \<and> dec c = Some p"
  using enc_defined enc_length dec_enc by metis

end

interpretation xtea: block_cipher "\<lambda>d. encrypt d ks" "\<lambda>d. decrypt d ks" 8 for ks
  by unfold_locales (auto simp: encrypt_defined dest: encrypt_length decrypt_encrypt)

interpretation xtea_inv: block_cipher "\<lambda>d. decrypt d ks" "\<lambda>d. encrypt d ks" 8 for ks
  by unfold_locales (auto simp: decrypt_defined dest: decrypt_length encrypt_decrypt)

subsection \<open>Properties\<close>

text \<open>The vectors of \<open>tests/test_xtea.cpp\<close>.\<close>

lemma expand_key_test_vector:
  "take 6 (expand_key (\<lambda>_. 0xdeadbeef))
     = [0xdeadbeef, 0x7ce538a8, 0x7ce538a8, 0x1b1cb261, 0x1b1cb261, 0xb9542c1a]"
  by code_simp

lemma encrypt_test_vector:
  "encrypt [0xef, 0xbe, 0xad, 0xde, 0xef, 0xbe, 0xad, 0xde] (expand_key (\<lambda>_. 0xdeadbeef))
     = Some [0xb5, 0x8c, 0xf2, 0xfa, 0xe0, 0xc0, 0x40, 0x09]"
  by code_simp

text \<open>
  C2: for every key and every buffer of whole eight-byte blocks, XTEA encryption touches no byte
  outside the buffer, keeps its length, and decryption with the same expanded key gives the buffer
  back.
\<close>

theorem xtea_roundtrip:
  "8 dvd length data \<Longrightarrow>
     \<exists>c. encrypt data (expand_key k) = Some c \<and> length c = length data
       \<and> decrypt c (expand_key k) = Some data"
  by (rule xtea.roundtrip)

theorem xtea_roundtrip_witness:
  "\<exists>c. encrypt (replicate 8 0xef) (expand_key (\<lambda>_. 0xdeadbeef)) = Some c
     \<and> length c = length (replicate 8 (0xef :: u8))
     \<and> decrypt c (expand_key (\<lambda>_. 0xdeadbeef)) = Some (replicate 8 0xef)"
  by (rule xtea_roundtrip) simp

end
