(* ===== verification/Secure_Channel.thy ===== *)
theory Secure_Channel
  imports Network_Message Xtea
begin

text \<open>
  The path of a packet: \<open>outputmessage.h\<close> (headers written in front of the body), \<open>protocol.cpp\<close>
  (padding, encryption, checksum) and the parsing half of \<open>connection.cpp\<close>.  An assertion that fails,
  an access outside the buffer and a cipher run over a ragged block are the \<open>None\<close> results.
\<close>

subsection \<open>Output messages\<close>

record output_msg = net_msg +
  om_start :: u16   \<comment> \<open>\<open>outputBufferStart\<close>\<close>

definition om_init :: output_msg where
  "om_init = \<lparr>nm_length = 0, nm_position = INITIAL_BUFFER_POSITION, nm_overrun = False,
     nm_buffer = (\<lambda>_. 0), om_start = INITIAL_BUFFER_POSITION\<rparr>"

text \<open>\<open>add_header<T>\<close> for a \<open>T\<close> with object representation \<open>rep\<close>.\<close>

definition add_header :: "u8 list \<Rightarrow> output_msg \<Rightarrow> output_msg option" where
  "add_header rep m =
     (if unat (om_start m) < length rep then None
      else let start = om_start m - of_nat (length rep)
        in case buf_write (unat start) rep (nm_buffer m) of
             None \<Rightarrow> None
           | Some b \<Rightarrow> Some (m\<lparr>om_start := start, nm_buffer := b,
               nm_length := nm_length m + of_nat (length rep)\<rparr>))"

definition writeMessageLength :: "output_msg \<Rightarrow> output_msg option" where
  "writeMessageLength m = add_header (le_bytes 2 (nm_length m)) m"

text \<open>The bytes at \<open>getOutputBuffer()\<close>, as many as \<open>getLength()\<close> says: what goes to the socket.\<close>

definition output_bytes :: "output_msg \<Rightarrow> u8 list option" where
  "output_bytes m = buf_read (unat (om_start m)) (unat (nm_length m)) (nm_buffer m)"

definition addCryptoHeader :: "bool \<Rightarrow> output_msg \<Rightarrow> output_msg option" where
  "addCryptoHeader addChecksum m =
     Option.bind
       (if addChecksum then
          Option.bind (output_bytes m) (\<lambda>bs. add_header (le_bytes 4 (adlerChecksum bs)) m)
        else Some m)
       writeMessageLength"

text \<open>\<open>append\<close> copies another message's body behind the current position, without a guard.\<close>

definition append_msg :: "'a net_msg_scheme \<Rightarrow> output_msg \<Rightarrow> output_msg option" where
  "append_msg msg m =
     Option.bind (buf_read 8 (unat (nm_length msg)) (nm_buffer msg)) (\<lambda>bs. put_bytes bs m)"

subsection \<open>Protocol\<close>

definition XTEA_encrypt :: "output_msg \<Rightarrow> u32 list \<Rightarrow> output_msg option" where
  "XTEA_encrypt msg key =
     (let paddingBytes = unat (nm_length msg) mod 8
      in Option.bind
           (if paddingBytes \<noteq> 0 then addPaddingBytes (of_nat (8 - paddingBytes)) msg else Some msg)
           (\<lambda>msg. Option.bind (output_bytes msg) (\<lambda>bs.
              Option.bind (encrypt bs key) (\<lambda>c.
              map_option (\<lambda>b. msg\<lparr>nm_buffer := b\<rparr>)
                (buf_write (unat (om_start msg)) c (nm_buffer msg))))))"

definition XTEA_decrypt :: "'a net_msg_scheme \<Rightarrow> u32 list \<Rightarrow> (bool \<times> 'a net_msg_scheme) option" where
  "XTEA_decrypt msg key =
     (if (uint (nm_length msg) - 6) mod 8 \<noteq> 0 then Some (False, msg)
      else Option.bind (buf_read (unat (nm_position msg)) (unat (nm_length msg) - 6) (nm_buffer msg)) (\<lambda>c.
           Option.bind (decrypt c key) (\<lambda>p.
           Option.bind (buf_write (unat (nm_position msg)) p (nm_buffer msg)) (\<lambda>b.
           Option.bind (get_u16 (msg\<lparr>nm_buffer := b\<rparr>)) (\<lambda>(innerLength, msg).
             if uint innerLength + 8 > uint (nm_length msg) then Some (False, msg)
             else Some (True, setLength innerLength msg))))))"

record protocol =
  pr_key :: "u32 list"
  pr_encryptionEnabled :: bool
  pr_checksumEnabled :: bool
  pr_rawMessages :: bool

definition onSendMessage :: "protocol \<Rightarrow> output_msg \<Rightarrow> output_msg option" where
  "onSendMessage pr msg =
     (if \<not> pr_rawMessages pr then
        Option.bind (writeMessageLength msg) (\<lambda>msg.
          if pr_encryptionEnabled pr then
            Option.bind (XTEA_encrypt msg (pr_key pr)) (addCryptoHeader (pr_checksumEnabled pr))
          else Some msg)
      else Some msg)"

text \<open>
  \<open>onRecvMessage\<close> up to the virtual \<open>parsePacket\<close>: \<open>Some None\<close> is the early return, \<open>Some (Some m)\<close>
  the message handed to \<open>parsePacket\<close>.
\<close>

definition onRecvMessage :: "protocol \<Rightarrow> 'a net_msg_scheme \<Rightarrow> 'a net_msg_scheme option option" where
  "onRecvMessage pr msg =
     (if pr_encryptionEnabled pr then
        map_option (\<lambda>(ok, msg). if ok then Some msg else None) (XTEA_decrypt msg (pr_key pr))
      else Some (Some msg))"

subsection \<open>Connection\<close>

text \<open>
  \<open>Connection::parseHeader\<close> from the point where the two header bytes are in the buffer:
  \<open>False\<close> is \<open>close(FORCE_CLOSE)\<close>, \<open>True\<close> goes on to read \<open>size\<close> bytes behind the header.
\<close>

definition parseHeader_size :: "'a net_msg_scheme \<Rightarrow> (bool \<times> 'a net_msg_scheme)" where
  "parseHeader_size msg =
     (let sz = getLengthHeader msg
      in if sz = 0 \<or> unat sz \<ge> NETWORKMESSAGE_MAXSIZE - 16 then (False, msg)
         else (True, getBodyBuffer (setLength (sz + of_nat HEADER_LENGTH) msg)))"

text \<open>The checksum test at the start of \<open>Connection::parsePacket\<close>; the flag says whether it matched.\<close>

definition parsePacket_checksum :: "'a net_msg_scheme \<Rightarrow> (bool \<times> 'a net_msg_scheme) option" where
  "parsePacket_checksum msg =
     (let len = uint (nm_length msg) - uint (nm_position msg) - int CHECKSUM_LENGTH
      in Option.bind
           (if len > 0 then
              map_option adlerChecksum
                (buf_read (unat (nm_position msg) + CHECKSUM_LENGTH) (nat len) (nm_buffer msg))
            else Some 0)
           (\<lambda>checksum. Option.bind (get_u32 msg) (\<lambda>(recvChecksum, msg).
              if recvChecksum \<noteq> checksum
              then Some (False, skipBytes (- of_nat CHECKSUM_LENGTH) msg)
              else Some (True, msg))))"

text \<open>
  One incoming frame: the socket puts the first two bytes at the start of the buffer and, once the
  header is accepted, the announced number of bytes behind them; then the packet goes through the
  checksum test and to the protocol.  The outer \<open>None\<close> is an out-of-bounds access, the inner one a
  packet that is dropped (a closed connection, or too few bytes on the wire).
\<close>

definition receive_frame :: "protocol \<Rightarrow> u8 list \<Rightarrow> 'a net_msg_scheme \<Rightarrow> 'a net_msg_scheme option option" where
  "receive_frame pr frame msg =
     (if length frame < HEADER_LENGTH then Some None
      else Option.bind (buf_write 0 (take HEADER_LENGTH frame) (nm_buffer msg)) (\<lambda>b.
        case parseHeader_size (msg\<lparr>nm_buffer := b\<rparr>) of
          (False, _) \<Rightarrow> Some None
        | (True, msg) \<Rightarrow>
            if length frame < unat (nm_length msg) then Some None
            else Option.bind (buf_write HEADER_LENGTH (take (unat (nm_length msg) - HEADER_LENGTH)
                   (drop HEADER_LENGTH frame)) (nm_buffer msg)) (\<lambda>b.
                 Option.bind (parsePacket_checksum (msg\<lparr>nm_buffer := b\<rparr>)) (\<lambda>(_, msg).
                 onRecvMessage pr msg))))"

subsection \<open>Reading back what was written\<close>

lemma buf_write_Some:
  "buf_write p bs b = Some b' \<Longrightarrow> p + length bs \<le> NETWORKMESSAGE_MAXSIZE
     \<and> b' = (\<lambda>i. if p \<le> i \<and> i < p + length bs then bs ! (i - p) else b i)"
  by (auto simp: buf_write_def split: if_splits)

lemma map_buf_write:
  "buf_write p bs b = Some b' \<Longrightarrow> map b' [p..<p + length bs] = bs"
  by (rule nth_equalityI) (auto dest!: buf_write_Some)

lemma map_buf_write_other:
  "buf_write p bs b = Some b' \<Longrightarrow> j \<le> p \<or> p + length bs \<le> i \<Longrightarrow> map b' [i..<j] = map b [i..<j]"
  by (auto dest!: buf_write_Some)

lemma map_upt_split: "i \<le> j \<Longrightarrow> j \<le> k \<Longrightarrow> map f [i..<k] = map f [i..<j] @ map f [j..<k]"
  by (metis le_add_diff_inverse map_append upt_add_eq_append)

text \<open>
  A header goes in front: \<open>om_body\<close> is the list that the output buffer holds, and every header is
  consed to it.
\<close>

definition om_body :: "output_msg \<Rightarrow> u8 list" where
  "om_body m = map (nm_buffer m) [unat (om_start m)..<unat (om_start m) + unat (nm_length m)]"

lemma output_bytes_eq:
  "unat (om_start m) + unat (nm_length m) \<le> NETWORKMESSAGE_MAXSIZE \<Longrightarrow> output_bytes m = Some (om_body m)"
  by (simp add: output_bytes_def buf_read_def om_body_def)

lemma length_om_body [simp]: "length (om_body m) = unat (nm_length m)"
  by (simp add: om_body_def)

lemma add_header_prepends:
  assumes "length rep \<le> unat (om_start m)"
    and "unat (om_start m) + unat (nm_length m) \<le> NETWORKMESSAGE_MAXSIZE"
  shows "\<exists>m'. add_header rep m = Some m' \<and> unat (om_start m') + length rep = unat (om_start m)
    \<and> unat (nm_length m') = unat (nm_length m) + length rep
    \<and> nm_position m' = nm_position m \<and> om_body m' = rep @ om_body m"
proof -
  define s n where "s = unat (om_start m) - length rep" and "n = unat (nm_length m)"
  have s: "s + length rep = unat (om_start m)" using assms(1) by (simp add: s_def)
  have lt: "length rep < 65536" using assms(1) unat_u16_less [of "om_start m"] by simp
  then have us: "unat (om_start m - of_nat (length rep)) = s"
    using assms(1) by (simp add: unat_sub word_le_nat_alt bound_simps s_def)
  obtain b where b: "buf_write s rep (nm_buffer m) = Some b"
    using s assms(2) by (simp add: buf_write_def)
  define m' where "m' = m\<lparr>om_start := om_start m - of_nat (length rep), nm_buffer := b,
    nm_length := nm_length m + of_nat (length rep)\<rparr>"
  have eq: "add_header rep m = Some m'"
    using assms(1) us b by (simp add: add_header_def m'_def Let_def)
  have len: "unat (nm_length m') = n + length rep"
    using assms(2) s lt by (simp add: m'_def n_def unat_word_ariths bound_simps nm_consts)
  have "om_body m' = map b [s..<s + length rep] @ map b [s + length rep..<s + length rep + n]"
    using len us map_upt_split [of s "s + length rep" "s + length rep + n" b]
    by (simp add: om_body_def) (simp add: m'_def add.commute add.left_commute)
  also have "map b [s + length rep..<s + length rep + n]
      = map (nm_buffer m) [s + length rep..<s + length rep + n]"
    by (rule map_buf_write_other [OF b]) simp
  also have "map b [s..<s + length rep] @ \<dots> = rep @ om_body m"
    using map_buf_write [OF b] s by (simp add: om_body_def n_def)
  finally show ?thesis
    using eq len us s by (intro exI [of _ m']) (simp add: m'_def n_def)
qed

text \<open>Sending: the fields of the message after each stage, the body as a list.\<close>

definition om_fits :: "output_msg \<Rightarrow> bool" where
  "om_fits m \<longleftrightarrow> unat (om_start m) + unat (nm_length m) \<le> NETWORKMESSAGE_MAXSIZE"

lemma writeMessageLength_prepends:
  assumes "om_fits m" and "2 \<le> unat (om_start m)"
  shows "\<exists>m'. writeMessageLength m = Some m' \<and> om_fits m' \<and> unat (om_start m') + 2 = unat (om_start m)
    \<and> unat (nm_length m') = unat (nm_length m) + 2 \<and> nm_position m' = nm_position m
    \<and> om_body m' = le_bytes 2 (nm_length m) @ om_body m"
  using add_header_prepends [of "le_bytes 2 (nm_length m)" m] assms
  by (auto simp: writeMessageLength_def om_fits_def simp del: le_bytes.simps)

lemma addCryptoHeader_prepends:
  assumes "om_fits m" and "6 \<le> unat (om_start m)"
  shows "\<exists>m' len. addCryptoHeader True m = Some m' \<and> om_fits m'
    \<and> unat (om_start m') + 6 = unat (om_start m)
    \<and> unat (nm_length m') = unat (nm_length m) + 6 \<and> unat len = unat (nm_length m) + 4
    \<and> om_body m' = le_bytes 2 (len :: u16) @ le_bytes 4 (adlerChecksum (om_body m)) @ om_body m"
proof -
  have "output_bytes m = Some (om_body m)"
    using assms(1) by (simp add: om_fits_def output_bytes_eq)
  moreover obtain m1 where m1: "add_header (le_bytes 4 (adlerChecksum (om_body m))) m = Some m1"
    "unat (om_start m1) + 4 = unat (om_start m)" "unat (nm_length m1) = unat (nm_length m) + 4"
    "om_body m1 = le_bytes 4 (adlerChecksum (om_body m)) @ om_body m"
    using add_header_prepends [of "le_bytes 4 (adlerChecksum (om_body m))" m] assms
    by (auto simp: om_fits_def simp del: le_bytes.simps)
  moreover have "om_fits m1" using m1 assms by (simp add: om_fits_def)
  ultimately show ?thesis
    using writeMessageLength_prepends [of m1] assms(2)
    by (force simp: addCryptoHeader_def simp del: le_bytes.simps)
qed

text \<open>
  Encryption replaces the body, padded to whole blocks, by its ciphertext.  The padding is written at
  \<open>info.position\<close>, which is the end of the body as long as only headers were put in front.
\<close>

definition om_tight :: "output_msg \<Rightarrow> bool" where
  "om_tight m \<longleftrightarrow> unat (nm_position m) = unat (om_start m) + unat (nm_length m)"

definition pad_amount :: "nat \<Rightarrow> nat" where
  "pad_amount n = (if n mod 8 = 0 then 0 else 8 - n mod 8)"

lemma pad_amount: "8 dvd n + pad_amount n" "pad_amount n < 8"
  unfolding pad_amount_def by presburger+

lemma addPadding_appends:
  assumes "om_tight m" and "k < 8" and "unat (nm_position m) + k < MAX_BODY_LENGTH"
  shows "\<exists>m'. addPaddingBytes (of_nat k) m = Some m' \<and> om_start m' = om_start m
    \<and> unat (nm_length m') = unat (nm_length m) + k \<and> om_body m' = om_body m @ replicate k 0x33"
proof -
  define p where "p = unat (nm_position m)"
  have uk: "unat (of_nat k :: u64) = k" using assms(2) by (simp add: bound_simps)
  then have uc: "ucast (of_nat k :: u64) = (of_nat k :: u16)"
    by (metis of_nat_unat)
  have can: "canAdd (of_nat k) m"
    using assms canAdd_iff [of k m] by (simp add: add.commute)
  obtain b where b: "buf_write p (replicate k 0x33) (nm_buffer m) = Some b"
    using assms(3) by (simp add: buf_write_def p_def nm_consts)
  define m' where "m' = m\<lparr>nm_buffer := b, nm_length := nm_length m + of_nat k\<rparr>"
  have eq: "addPaddingBytes (of_nat k) m = Some m'"
    using can b uk uc by (simp add: addPaddingBytes_def m'_def p_def)
  have len: "unat (nm_length m') = unat (nm_length m) + k"
    using assms by (simp add: m'_def om_tight_def unat_word_ariths bound_simps nm_consts)
  have s: "unat (om_start m) + unat (nm_length m) = p"
    using assms(1) by (simp add: om_tight_def p_def)
  have "om_body m' = map b [unat (om_start m)..<p] @ map b [p..<p + k]"
    using len s map_upt_split [of "unat (om_start m)" p "p + k" b]
    by (simp add: om_body_def) (simp add: m'_def add.assoc [symmetric])
  also have "map b [unat (om_start m)..<p] = om_body m"
    using map_buf_write_other [OF b, of p "unat (om_start m)"] s by (simp add: om_body_def)
  also have "map b [p..<p + k] = replicate k 0x33"
    using map_buf_write [OF b] by simp
  finally show ?thesis using eq len by (simp add: m'_def)
qed

lemma XTEA_encrypt_body:
  assumes tight: "om_tight m" and room: "unat (nm_position m) + pad_amount (unat (nm_length m)) < MAX_BODY_LENGTH"
  shows "\<exists>m' c k. XTEA_encrypt m key = Some m' \<and> om_fits m' \<and> om_start m' = om_start m
    \<and> unat (nm_length m') = unat (nm_length m) + k \<and> 8 dvd unat (nm_length m') \<and> k < 8
    \<and> om_body m' = c \<and> decrypt c key = Some (om_body m @ replicate k 0x33)"
proof -
  define k where "k = pad_amount (unat (nm_length m))"
  have k: "k < 8" "8 dvd unat (nm_length m) + k" by (simp_all add: k_def pad_amount)
  obtain m1 where m1: "(if unat (nm_length m) mod 8 \<noteq> 0
        then addPaddingBytes (of_nat (8 - unat (nm_length m) mod 8)) m else Some m) = Some m1"
    "om_start m1 = om_start m" "unat (nm_length m1) = unat (nm_length m) + k"
    "om_body m1 = om_body m @ replicate k 0x33"
  proof (cases "unat (nm_length m) mod 8 = 0")
    case True
    then show ?thesis using that [of m] by (simp add: k_def pad_amount_def)
  next
    case False
    then have "k = 8 - unat (nm_length m) mod 8" by (simp add: k_def pad_amount_def)
    then show ?thesis
      using addPadding_appends [OF tight k(1)] room that False by (auto simp: k_def)
  qed
  have fits: "om_fits m1"
    using tight room m1(2,3) by (simp add: om_fits_def om_tight_def k_def nm_consts)
  obtain c where c: "encrypt (om_body m1) key = Some c" "length c = unat (nm_length m1)"
    "decrypt c key = Some (om_body m1)"
    using xtea.roundtrip [of "om_body m1" key] k(2) m1(3) by auto
  obtain b where b: "buf_write (unat (om_start m1)) c (nm_buffer m1) = Some b"
    using fits c(2) by (simp add: buf_write_def om_fits_def)
  define m' where "m' = m1\<lparr>nm_buffer := b\<rparr>"
  have "XTEA_encrypt m key = Some m'"
    using m1(1) fits c(1) b
    by (simp add: XTEA_encrypt_def Let_def om_fits_def output_bytes_eq m'_def)
  moreover have "om_body m' = c"
    using map_buf_write [OF b] c(2) by (simp add: om_body_def m'_def)
  ultimately show ?thesis
    using c m1 k fits by (intro exI [of _ m'] exI [of _ c] exI [of _ k]) (simp add: m'_def om_fits_def)
qed

text \<open>The frame that leaves the server for a payload of at most \<open>MAX_PROTOCOL_BODY_LENGTH\<close> bytes.\<close>

definition fresh_output :: "output_msg \<Rightarrow> bool" where
  "fresh_output m \<longleftrightarrow> om_start m = INITIAL_BUFFER_POSITION \<and> nm_winv m
     \<and> unat (nm_length m) \<le> MAX_PROTOCOL_BODY_LENGTH"

lemma onSendMessage_frame:
  assumes fresh: "fresh_output m"
    and pr: "\<not> pr_rawMessages pr" "pr_encryptionEnabled pr" "pr_checksumEnabled pr"
  shows "\<exists>m' c k len. onSendMessage pr m = Some m' \<and> unat (om_start m') = 0 \<and> k < 8
    \<and> output_bytes m' = Some (le_bytes 2 (len :: u16) @ le_bytes 4 (adlerChecksum c) @ c)
    \<and> unat len = length c + 4 \<and> length c = unat (nm_length m) + 2 + k \<and> 8 dvd length c
    \<and> length c \<le> 24568
    \<and> decrypt c (pr_key pr) = Some (le_bytes 2 (nm_length m) @ om_body m @ replicate k 0x33)"
proof -
  have m: "unat (om_start m) = 8" "unat (nm_position m) = unat (nm_length m) + 8"
    "unat (nm_length m) \<le> 24566"
    using fresh by (simp_all add: fresh_output_def nm_winv_def nm_consts)
  obtain m1 where m1: "writeMessageLength m = Some m1" "unat (om_start m1) = 6"
    "unat (nm_length m1) = unat (nm_length m) + 2" "nm_position m1 = nm_position m"
    "om_body m1 = le_bytes 2 (nm_length m) @ om_body m"
    using writeMessageLength_prepends [of m] m by (auto simp: om_fits_def nm_consts)
  have pad: "unat (nm_length m1) + pad_amount (unat (nm_length m1)) \<le> 24568"
    using m(3) m1(3) unfolding pad_amount_def by presburger
  obtain m2 c k where m2: "XTEA_encrypt m1 (pr_key pr) = Some m2" "om_fits m2"
    "om_start m2 = om_start m1" "unat (nm_length m2) = unat (nm_length m1) + k" "k < 8"
    "8 dvd unat (nm_length m2)" "om_body m2 = c"
    "decrypt c (pr_key pr) = Some (om_body m1 @ replicate k 0x33)"
    using XTEA_encrypt_body [of m1 "pr_key pr"] m m1 pad
    by (auto simp: om_tight_def nm_consts)
  have lc: "length c = unat (nm_length m) + 2 + k"
    using m2(4,7) m1(3) by auto
  have "length c \<le> 24568"
    using m2(5,6,7) m(3) lc by (auto simp: dvd_def) presburger
  moreover obtain m3 len where m3: "addCryptoHeader True m2 = Some m3" "om_fits m3"
    "unat (om_start m3) + 6 = unat (om_start m2)" "unat len = unat (nm_length m2) + 4"
    "om_body m3 = le_bytes 2 (len :: u16) @ le_bytes 4 (adlerChecksum c) @ c"
    using addCryptoHeader_prepends [OF m2(2)] m2(3,7) m1(2) by auto
  moreover have "onSendMessage pr m = Some m3"
    using pr m1(1) m2(1) m3(1) by (simp add: onSendMessage_def)
  ultimately show ?thesis
    using m2 m1 lc output_bytes_eq [of m3]
    by (intro exI [of _ m3] exI [of _ c] exI [of _ k] exI [of _ len])
      (auto simp: om_fits_def simp del: le_bytes.simps)
qed

subsection \<open>Receiving\<close>

lemma map_buf_write_part:
  assumes "buf_write p (xs @ ys @ zs) b = Some b'" and "i = p + length xs" and "j = i + length ys"
  shows "map b' [i..<j] = ys"
  using assms by (intro nth_equalityI) (auto dest!: buf_write_Some simp: nth_append)

lemma buf_read_part:
  assumes "buf_write p (xs @ ys @ zs) b = Some b'" and "i = p + length xs" and "n = length ys"
  shows "buf_read i n b' = Some ys"
  using assms map_buf_write_part [OF assms(1,2) refl]
  by (auto simp: buf_read_def dest!: buf_write_Some)

lemma getLengthHeader_written:
  assumes "buf_write 0 (le_bytes 2 (len :: u16) @ rest) (nm_buffer msg) = Some b"
  shows "getLengthHeader (msg\<lparr>nm_buffer := b\<rparr>) = len"
proof -
  have "map b [0..<2] = le_bytes 2 len"
    using map_buf_write_part [of 0 "[]" "le_bytes 2 len" rest _ b 0 2] assms
    by (simp del: le_bytes.simps)
  then have "le_word [b 0, b 1] = len"
    using rep16.dec_enc [of len] by (simp add: upt_rec del: le_bytes.simps le_word.simps)
  then show ?thesis by (simp add: getLengthHeader_def)
qed

lemma parseHeader_size_accepts:
  assumes "getLengthHeader msg = len" and "0 < unat len" and "unat len < 24574"
  shows "\<exists>m. parseHeader_size msg = (True, m) \<and> unat (nm_length m) = unat len + 2
    \<and> unat (nm_position m) = 2 \<and> nm_buffer m = nm_buffer msg"
  using assms
  by (auto simp: parseHeader_size_def Let_def nm_consts getBodyBuffer_def setLength_def
      unat_word_ariths unat_eq_zero)

lemma canRead_nat:
  "canRead (int n) m =
     (if unat (nm_length m) + 8 < unat (nm_position m) + n
         \<or> NETWORKMESSAGE_MAXSIZE \<le> unat (nm_position m) + n
      then (False, m\<lparr>nm_overrun := True\<rparr>) else (True, m))"
proof -
  have "uint (nm_position m) + int n > uint (nm_length m) + 8
      \<or> int n \<ge> int NETWORKMESSAGE_MAXSIZE - uint (nm_position m)
    \<longleftrightarrow> unat (nm_length m) + 8 < unat (nm_position m) + n
      \<or> NETWORKMESSAGE_MAXSIZE \<le> unat (nm_position m) + n"
    using uint_nat [of "nm_position m"] uint_nat [of "nm_length m"] by linarith
  then show ?thesis unfolding canRead_def by (rule if_cong) (rule refl)+
qed

lemma get_u32_at:
  assumes "buf_read (unat (nm_position m)) 4 (nm_buffer m) = Some (le_bytes 4 v)"
    and "unat (nm_position m) + 4 \<le> unat (nm_length m) + 8" and "unat (nm_position m) + 4 < 24590"
  shows "get_u32 m = Some (v, m\<lparr>nm_position := nm_position m + 4\<rparr>)"
proof -
  have "canRead 4 m = (True, m)"
    using assms(2,3) canRead_nat [of 4 m] by (simp add: nm_consts)
  then show ?thesis
    using assms(1) by (simp add: get_u32_def nm_get_def codec_simps del: le_bytes.simps)
qed

lemma get_u16_at:
  assumes "buf_read (unat (nm_position m)) 2 (nm_buffer m) = Some (le_bytes 2 v)"
    and "unat (nm_position m) + 2 \<le> unat (nm_length m) + 8" and "unat (nm_position m) + 2 < 24590"
  shows "get_u16 m = Some (v, m\<lparr>nm_position := nm_position m + 2\<rparr>)"
proof -
  have "canRead 2 m = (True, m)"
    using assms(2,3) canRead_nat [of 2 m] by (simp add: nm_consts)
  then show ?thesis
    using assms(1) by (simp add: get_u16_def nm_get_def codec_simps del: le_bytes.simps)
qed

lemma parsePacket_checksum_accepts:
  assumes w: "buf_write 2 (le_bytes 4 (adlerChecksum c) @ c) b0 = Some (nm_buffer msg)"
    and "unat (nm_position msg) = 2" and "unat (nm_length msg) = length c + 6" and "c \<noteq> []"
  shows "\<exists>m. parsePacket_checksum msg = Some (True, m) \<and> unat (nm_position m) = 6
    \<and> nm_length m = nm_length msg \<and> nm_buffer m = nm_buffer msg"
proof -
  have fits: "length c + 6 \<le> 24590"
    using buf_write_Some [OF w] by (simp add: nm_consts)
  have len: "uint (nm_length msg) - uint (nm_position msg) - 4 = int (length c)"
    using assms(2,3) uint_nat [of "nm_position msg"] uint_nat [of "nm_length msg"] by linarith
  have "buf_read 6 (length c) (nm_buffer msg) = Some c"
    using buf_read_part [of 2 "le_bytes 4 (adlerChecksum c)" c "[]"] w by (simp del: le_bytes.simps)
  moreover have "buf_read 2 4 (nm_buffer msg) = Some (le_bytes 4 (adlerChecksum c))"
    using buf_read_part [of 2 "[]" "le_bytes 4 (adlerChecksum c)" c] w by (simp del: le_bytes.simps)
  then have "get_u32 msg = Some (adlerChecksum c, msg\<lparr>nm_position := nm_position msg + 4\<rparr>)"
    using assms(2,3) fits by (intro get_u32_at) (simp_all del: le_bytes.simps)
  moreover have "unat (nm_position msg + 4) = 6"
    using assms(2) by (simp add: unat_word_ariths)
  ultimately show ?thesis
    using assms(2,4) by (simp add: parsePacket_checksum_def Let_def CHECKSUM_LENGTH_def len)
qed

lemma XTEA_decrypt_accepts:
  assumes r: "buf_read 6 (length c) (nm_buffer msg) = Some c"
    and pos: "unat (nm_position msg) = 6" and len: "unat (nm_length msg) = length c + 6"
    and dvd: "8 dvd length c" and d: "decrypt c key = Some (le_bytes 2 n @ body @ pad)"
    and n: "unat (n :: u16) = length body"
  shows "\<exists>m. XTEA_decrypt msg key = Some (True, m) \<and> nm_unread m = body"
proof -
  let ?p = "le_bytes 2 n @ body @ pad"
  have lp: "length ?p = length c" using decrypt_length [OF d] by simp
  have fits: "6 + length c \<le> 24590"
    using r by (simp add: buf_read_def nm_consts split: if_splits)
  obtain b where b: "buf_write 6 ?p (nm_buffer msg) = Some b"
    using fits lp by (simp add: buf_write_def nm_consts del: le_bytes.simps)
  let ?m = "msg\<lparr>nm_buffer := b\<rparr>"
  have "buf_read 6 2 b = Some (le_bytes 2 n)"
    using buf_read_part [of 6 "[]" "le_bytes 2 n" "body @ pad"] b by (simp del: le_bytes.simps)
  then have g: "get_u16 ?m = Some (n, ?m\<lparr>nm_position := nm_position msg + 2\<rparr>)"
    using get_u16_at [of ?m n] pos len lp fits by (simp del: le_bytes.simps)
  have inner: "\<not> uint n + 8 > uint (nm_length msg)"
    using n len lp uint_nat [of n] uint_nat [of "nm_length msg"] by simp
  have guard: "(uint (nm_length msg) - 6) mod 8 = 0"
    using len dvd uint_nat [of "nm_length msg"] by (auto simp: dvd_def)
  let ?r = "setLength n (?m\<lparr>nm_position := nm_position msg + 2\<rparr>)"
  have "XTEA_decrypt msg key = Some (True, ?r)"
    using guard r pos len d b g inner by (simp add: XTEA_decrypt_def del: le_bytes.simps)
  moreover have "nm_unread ?r = body"
    using map_buf_write_part [of 6 "le_bytes 2 n" body pad "nm_buffer msg" b 8] b pos n
    by (simp add: nm_unread_def setLength_def unat_word_ariths del: le_bytes.simps)
  ultimately show ?thesis by blast
qed

lemma receive_frame_accepts:
  assumes pr: "pr_encryptionEnabled pr"
    and len: "unat (len :: u16) = length c + 4" and small: "length c \<le> 24568" and dvd: "8 dvd length c"
    and ne: "c \<noteq> []" and d: "decrypt c (pr_key pr) = Some (le_bytes 2 n @ body @ pad)"
    and n: "unat (n :: u16) = length body"
  shows "\<exists>m. receive_frame pr (le_bytes 2 len @ le_bytes 4 (adlerChecksum c) @ c) msg = Some (Some m)
    \<and> nm_unread m = body"
proof -
  let ?h = "le_bytes 2 len" and ?t = "le_bytes 4 (adlerChecksum c) @ c"
  obtain b where b: "buf_write 0 ?h (nm_buffer msg) = Some b"
    by (simp add: buf_write_def nm_consts del: le_bytes.simps)
  then have "getLengthHeader (msg\<lparr>nm_buffer := b\<rparr>) = len"
    using getLengthHeader_written [of len "[]" msg b] by (simp del: le_bytes.simps)
  then obtain m1 where m1: "parseHeader_size (msg\<lparr>nm_buffer := b\<rparr>) = (True, m1)"
    "unat (nm_length m1) = length c + 6" "unat (nm_position m1) = 2"
    using parseHeader_size_accepts [of "msg\<lparr>nm_buffer := b\<rparr>" len] len small by auto
  obtain b2 where b2: "buf_write 2 ?t (nm_buffer m1) = Some b2"
    using small by (simp add: buf_write_def nm_consts del: le_bytes.simps)
  obtain m2 where m2: "parsePacket_checksum (m1\<lparr>nm_buffer := b2\<rparr>) = Some (True, m2)"
    "unat (nm_position m2) = 6" "nm_length m2 = nm_length m1" "nm_buffer m2 = b2"
    using parsePacket_checksum_accepts [of c "nm_buffer m1" "m1\<lparr>nm_buffer := b2\<rparr>"] b2 m1 ne
    by auto
  have "buf_read 6 (length c) (nm_buffer m2) = Some c"
    using buf_read_part [of 2 "le_bytes 4 (adlerChecksum c)" c "[]"] b2 m2(4)
    by (simp del: le_bytes.simps)
  then obtain m3 where "XTEA_decrypt m2 (pr_key pr) = Some (True, m3)" "nm_unread m3 = body"
    using XTEA_decrypt_accepts [OF _ m2(2) _ dvd d n] m1(2) m2(3) by auto
  moreover have "take 2 (?h @ ?t) = ?h" "drop 2 (?h @ ?t) = ?t" "length (?h @ ?t) = length c + 6"
    by (simp_all del: le_bytes.simps)
  ultimately show ?thesis
    using b b2 m1 m2 pr
    by (simp add: receive_frame_def HEADER_LENGTH_def onRecvMessage_def del: le_bytes.simps)
qed

subsection \<open>Properties\<close>

text \<open>
  C1: end to end.  A fresh output message that holds at most \<open>MAX_PROTOCOL_BODY_LENGTH\<close> bytes is sent
  over a connection with encryption and checksums: preparing it neither fails an assertion nor leaves
  the buffer, the frame that goes to the socket starts at the very front of the buffer, and when a
  connection with the same key receives that frame, in whatever state its own message object is, the
  packet handed to \<open>parsePacket\<close> has exactly the written body left to read.
\<close>

theorem secure_channel_roundtrip:
  assumes "fresh_output m"
    and "\<not> pr_rawMessages pr" "pr_encryptionEnabled pr" "pr_checksumEnabled pr"
  shows "\<exists>m' frame r. onSendMessage pr m = Some m' \<and> om_start m' = 0
    \<and> output_bytes m' = Some frame \<and> receive_frame pr frame (msg :: net_msg) = Some (Some r)
    \<and> nm_unread r = nm_written m"
proof -
  obtain m' c k len where f: "onSendMessage pr m = Some m'" "unat (om_start m') = 0"
    "output_bytes m' = Some (le_bytes 2 (len :: u16) @ le_bytes 4 (adlerChecksum c) @ c)"
    "unat len = length c + 4" "length c = unat (nm_length m) + 2 + k" "8 dvd length c"
    "length c \<le> 24568"
    "decrypt c (pr_key pr) = Some (le_bytes 2 (nm_length m) @ om_body m @ replicate k 0x33)"
    using onSendMessage_frame [OF assms] by blast
  have "c \<noteq> []" and n: "unat (nm_length m) = length (om_body m)"
    using f(5) by auto
  then obtain r where "receive_frame pr (le_bytes 2 len @ le_bytes 4 (adlerChecksum c) @ c) msg = Some (Some r)"
    "nm_unread r = om_body m"
    using receive_frame_accepts [OF assms(3) f(4,7,6) _ f(8) n, of msg] by blast
  moreover have "om_body m = nm_written m"
    using assms(1) by (simp add: om_body_def nm_written_def fresh_output_def nm_consts)
  moreover have "om_start m' = 0"
    using f(2) by (simp add: unat_eq_zero)
  ultimately show ?thesis
    using f(1,3)
    by (intro exI [of _ m'] exI [of _ "le_bytes 2 len @ le_bytes 4 (adlerChecksum c) @ c"] exI [of _ r])
      (simp del: le_bytes.simps)
qed

theorem secure_channel_roundtrip_witness:
  "\<exists>m' frame r. onSendMessage \<lparr>pr_key = expand_key (\<lambda>_. 7), pr_encryptionEnabled = True,
        pr_checksumEnabled = True, pr_rawMessages = False\<rparr> om_init = Some m' \<and> om_start m' = 0
    \<and> output_bytes m' = Some frame
    \<and> receive_frame \<lparr>pr_key = expand_key (\<lambda>_. 7), pr_encryptionEnabled = True,
        pr_checksumEnabled = True, pr_rawMessages = False\<rparr> frame nm_init = Some (Some r)
    \<and> nm_unread r = nm_written om_init"
  by (rule secure_channel_roundtrip)
    (simp_all add: fresh_output_def om_init_def nm_winv_def nm_consts)

lemma append_msg_None_iff:
  "append_msg msg om = None \<longleftrightarrow>
     24582 < unat (nm_length msg) \<or> 24590 < unat (nm_position om) + unat (nm_length msg)"
  by (auto simp: append_msg_def buf_read_def put_bytes_def buf_write_def nm_consts bind_eq_None_conv)

text \<open>
  C4: in every state of a message, whatever its length and position counters hold, no write of a field,
  an item, raw bytes or padding and no read of a field accesses a byte outside the buffer.  Two operations
  of the classes carry no guard and do so exactly in these states: \<open>getPreviousByte\<close> at position 0, where
  the counter wraps around, or past the end; and \<open>OutputMessage::append\<close> when the appended body, as long
  as its length counter says, does not lie inside its buffer or does not fit behind the position.
\<close>

theorem message_memory_safe:
  fixes m :: "'a net_msg_scheme" and msg :: "'b net_msg_scheme"
  assumes "length (field_rep f) < 18446744073709486080" and "length bs < 18446744073709486080"
    and "unat n < 18446744073709486080"
  shows "nm_put f m \<noteq> None \<and> addBytes bs m \<noteq> None \<and> addPaddingBytes n m \<noteq> None
    \<and> addItem items iid count isOTCv8 m \<noteq> None
    \<and> addItem_ptr items iid itemCount fluidType isOTCv8 m \<noteq> None \<and> nm_take k m \<noteq> None
    \<and> (getPreviousByte m = None \<longleftrightarrow> nm_position m = 0 \<or> 24590 < unat (nm_position m))
    \<and> (append_msg msg om = None \<longleftrightarrow>
         24582 < unat (nm_length msg) \<or> 24590 < unat (nm_position om) + unat (nm_length msg))"
  using assms
  by (simp add: nm_put_defined addBytes_defined addPaddingBytes_defined addItem_defined
      nm_take_defined getPreviousByte_None_iff append_msg_None_iff del: not_None_eq)

theorem message_memory_safe_witness:
  "nm_put (FU32 7) (nm_init\<lparr>nm_position := 65535\<rparr>) \<noteq> None
    \<and> addBytes [1, 2] (nm_init\<lparr>nm_position := 65535\<rparr>) \<noteq> None
    \<and> addPaddingBytes 8 (nm_init\<lparr>nm_position := 65535\<rparr>) \<noteq> None
    \<and> nm_take KString (nm_init\<lparr>nm_position := 65535\<rparr>) \<noteq> None
    \<and> getPreviousByte (nm_init\<lparr>nm_position := 65535\<rparr>) = None
    \<and> append_msg (nm_init\<lparr>nm_length := 2\<rparr>) om_init \<noteq> None"
  using message_memory_safe [of "FU32 7" "[1, 2]" 8 "nm_init\<lparr>nm_position := 65535\<rparr>" "\<lambda>_. undefined"
      0 0 False 0 0 KString "nm_init\<lparr>nm_length := 2\<rparr>" om_init]
  by (simp add: nm_init_def om_init_def nm_consts)
end
