(* ===== verification/Matrix_Area.thy ===== *)
theory Matrix_Area
  imports Positions "HOL-Library.Monad_Syntax" "HOL-Library.Signed_Division"
begin

text \<open>
  The areas of effect of spells: the bit matrices of \<open>matrixarea.h\<close> and \<open>matrixarea.cpp\<close> with their
  reflections and rotations, and the class \<open>AreaCombat\<close> of \<open>combat.cpp\<close>, which keeps one matrix per
  direction.  The slices of \<open>std::valarray\<close> are copied element by element; an index outside an array,
  undefined behaviour in C++, is the result \<open>None\<close>.  The lemmas show that the operations never leave
  the array of a well-formed matrix, where every cell goes, and that the matrices set up for the
  directions are one pattern turned about its centre.
\<close>

subsection \<open>Matrices\<close>

record matrix_area =
  ma_arr :: "bool list"
  ma_center :: "u32 \<times> u32"
  ma_rows :: u32
  ma_cols :: u32

definition empty_area :: matrix_area where
  "empty_area = \<lparr>ma_arr = [], ma_center = (0, 0), ma_rows = 0, ma_cols = 0\<rparr>"

definition new_area :: "u32 \<Rightarrow> u32 \<Rightarrow> matrix_area" where
  "new_area rows cols = \<lparr>ma_arr = replicate (unat (rows * cols)) False, ma_center = (0, 0),
     ma_rows = rows, ma_cols = cols\<rparr>"

definition area_at :: "matrix_area \<Rightarrow> u32 \<Rightarrow> u32 \<Rightarrow> bool option" where
  "area_at m row col = (let i = unat (row * ma_cols m + col) in
     if i < length (ma_arr m) then Some (ma_arr m ! i) else None)"

definition area_set :: "matrix_area \<Rightarrow> u32 \<Rightarrow> u32 \<Rightarrow> bool \<Rightarrow> matrix_area option" where
  "area_set m row col b = (let i = unat (row * ma_cols m + col) in
     if i < length (ma_arr m) then Some (m\<lparr>ma_arr := (ma_arr m)[i := b]\<rparr>) else None)"

definition setCenter :: "u32 \<Rightarrow> u32 \<Rightarrow> matrix_area \<Rightarrow> matrix_area" where
  "setCenter y x m = m\<lparr>ma_center := (x, y)\<rparr>"

definition area_bool :: "matrix_area \<Rightarrow> bool" where
  "area_bool m \<longleftrightarrow> ma_rows m = 0 \<or> ma_cols m = 0"

text \<open>
  \<open>slice start n stride\<close> lists the indices of \<open>std::slice(start, n, stride)\<close>; \<open>copy_cells\<close> assigns
  \<open>dst[i] = src[j]\<close> for the pairs \<open>(i, j)\<close> in turn.
\<close>

definition slice :: "u32 \<Rightarrow> u32 \<Rightarrow> u32 \<Rightarrow> nat list" where
  "slice start n stride = map (\<lambda>k. unat start + k * unat stride) [0..<unat n]"

fun copy_cells :: "(nat \<times> nat) list \<Rightarrow> 'a list \<Rightarrow> 'a list \<Rightarrow> 'a list option" where
  "copy_cells [] src dst = Some dst"
| "copy_cells ((i, j) # ps) src dst =
     (if i < length dst \<and> j < length src then copy_cells ps src (dst[i := src ! j]) else None)"

fun slice_loop :: "(u32 \<Rightarrow> nat list) \<Rightarrow> (u32 \<Rightarrow> nat list) \<Rightarrow> nat list \<Rightarrow> bool list \<Rightarrow> bool list
    \<Rightarrow> bool list option" where
  "slice_loop dst src [] arr newArr = Some newArr"
| "slice_loop dst src (i # is) arr newArr =
     do { newArr \<leftarrow> copy_cells (zip (dst (of_nat i)) (src (of_nat i))) arr newArr;
          slice_loop dst src is arr newArr }"

abbreviation blank :: "matrix_area \<Rightarrow> bool list" where
  "blank m \<equiv> replicate (length (ma_arr m)) False"

definition flip :: "matrix_area \<Rightarrow> matrix_area option" where
  "flip m = (let rows = ma_rows m; cols = ma_cols m; (centerX, centerY) = ma_center m in
     do { newArr \<leftarrow> slice_loop (\<lambda>i. slice (i * cols) cols 1)
            (\<lambda>i. slice ((rows - i - 1) * cols) cols 1) [0..<unat rows] (ma_arr m) (blank m);
          Some \<lparr>ma_arr = newArr, ma_center = (centerX, rows - centerY - 1),
            ma_rows = rows, ma_cols = cols\<rparr> })"

definition mirror :: "matrix_area \<Rightarrow> matrix_area option" where
  "mirror m = (let rows = ma_rows m; cols = ma_cols m; (centerX, centerY) = ma_center m in
     do { newArr \<leftarrow> slice_loop (\<lambda>i. slice i rows cols)
            (\<lambda>i. slice (cols - i - 1) rows cols) [0..<unat cols] (ma_arr m) (blank m);
          Some \<lparr>ma_arr = newArr, ma_center = (cols - centerX - 1, centerY),
            ma_rows = rows, ma_cols = cols\<rparr> })"

definition rotate90 :: "matrix_area \<Rightarrow> matrix_area option" where
  "rotate90 m = (let rows = ma_rows m; cols = ma_cols m; (centerX, centerY) = ma_center m in
     do { newArr \<leftarrow> slice_loop (\<lambda>i. slice i cols rows)
            (\<lambda>i. slice ((rows - i - 1) * cols) cols 1) [0..<unat rows] (ma_arr m) (blank m);
          Some \<lparr>ma_arr = newArr, ma_center = (rows - centerY - 1, centerX),
            ma_rows = cols, ma_cols = rows\<rparr> })"

definition rotate180 :: "matrix_area \<Rightarrow> matrix_area option" where
  "rotate180 m = (let rows = ma_rows m; cols = ma_cols m; (centerX, centerY) = ma_center m in
     Some \<lparr>ma_arr = rev (ma_arr m), ma_center = (cols - centerX - 1, rows - centerY - 1),
       ma_rows = rows, ma_cols = cols\<rparr>)"

definition rotate270 :: "matrix_area \<Rightarrow> matrix_area option" where
  "rotate270 m = (let rows = ma_rows m; cols = ma_cols m; (centerX, centerY) = ma_center m in
     do { newArr \<leftarrow> slice_loop (\<lambda>i. slice (i * rows) rows 1)
            (\<lambda>i. slice (cols - i - 1) rows cols) [0..<unat cols] (ma_arr m) (blank m);
          Some \<lparr>ma_arr = newArr, ma_center = (centerY, cols - centerX - 1),
            ma_rows = cols, ma_cols = rows\<rparr> })"

lemma unat_times_small [bound_simps]:
  "unat (a :: u32) * unat b < 4294967296 \<Longrightarrow> unat (a * b) = unat a * unat b"
  by (simp add: unat_word_ariths)

lemma unat_minus_small [bound_simps]:
  "i < unat (a :: u32) \<Longrightarrow> unat (a - of_nat i - 1) = unat a - i - 1"
proof -
  assume i: "i < unat a"
  then have "a - of_nat i - 1 = of_nat (unat a - i - 1)"
    by (simp add: of_nat_diff)
  then have "unat (a - of_nat i - 1) = unat (of_nat (unat a - i - 1) :: u32)" by (simp only:)
  also have "\<dots> = unat a - i - 1"
    using i unat_u32_less [of a] by (intro unat_of_nat_u32) simp
  finally show ?thesis .
qed

lemma unat_of_nat_below [bound_simps]: "i < unat (a :: u32) \<Longrightarrow> unat (of_nat i :: u32) = i"
  using unat_u32_less [of a] by (simp add: unat_of_nat_u32)

lemma flat_less: "i < n \<Longrightarrow> k < c \<Longrightarrow> i * c + k < n * (c :: nat)"
proof -
  assume "i < n" "k < c"
  then have "i * c + k < Suc i * c" by simp
  also have "\<dots> \<le> n * c" using \<open>i < n\<close> by (intro mult_le_mono1) simp
  finally show ?thesis .
qed

lemma flat_inject: "k < c \<Longrightarrow> k' < c \<Longrightarrow> i * c + k = i' * c + k' \<longleftrightarrow> i = i' \<and> k = (k' :: nat)"
  by (metis add.commute div_mult_self1 div_less add_right_cancel add_cancel_right_left mod_less mod_mult_self3 not_less_zero)

lemma flat_split: "j < n * c \<Longrightarrow> \<exists>i k. i < n \<and> k < c \<and> j = i * c + (k :: nat)"
  by (metis div_mult_mod_eq less_mult_imp_div_less mod_less_divisor mult_0_right not_less_zero gr0I)

lemma copy_cells_append:
  "copy_cells (ps @ qs) src dst = Option.bind (copy_cells ps src dst) (copy_cells qs src)"
  by (induction ps src dst rule: copy_cells.induct) auto

lemma slice_loop_eq:
  "slice_loop dst src is arr newArr =
     copy_cells (concat (map (\<lambda>i. zip (dst (of_nat i)) (src (of_nat i))) is)) arr newArr"
  by (induction "is" arbitrary: newArr) (simp_all add: copy_cells_append split: Option.bind_split)

lemma copy_cells_function:
  "\<forall>(i, j) \<in> set ps. i < length dst \<and> j < length src \<and> j = g i \<Longrightarrow>
   \<exists>a. copy_cells ps src dst = Some a \<and> length a = length dst \<and>
     (\<forall>i < length dst. a ! i = (if i \<in> fst ` set ps then src ! g i else dst ! i))"
proof (induction ps src dst rule: copy_cells.induct)
  case (2 i j ps src dst)
  then show ?case by (fastforce simp: nth_list_update)
qed simp

lemma slice_loop_cells:
  assumes dst: "\<And>i. i < n \<Longrightarrow> dst (of_nat i) = map (d i) [0..<m]"
    and src: "\<And>i. i < n \<Longrightarrow> src (of_nat i) = map (s i) [0..<m]"
    and bounds: "\<And>i k. i < n \<Longrightarrow> k < m \<Longrightarrow> d i k < length newArr \<and> s i k < length arr"
    and inj: "\<And>i k i' k'. i < n \<Longrightarrow> k < m \<Longrightarrow> i' < n \<Longrightarrow> k' < m \<Longrightarrow> d i k = d i' k' \<Longrightarrow> i = i' \<and> k = k'"
  shows "\<exists>a. slice_loop dst src [0..<n] arr newArr = Some a \<and> length a = length newArr \<and>
     (\<forall>i<n. \<forall>k<m. a ! d i k = arr ! s i k)"
proof -
  define ps where "ps = concat (map (\<lambda>i. zip (dst (of_nat i)) (src (of_nat i))) [0..<n])"
  define g where "g x = (let (i, k) = (THE (i, k). i < n \<and> k < m \<and> x = d i k) in s i k)" for x
  have g: "g (d i k) = s i k" if "i < n" "k < m" for i k
  proof -
    have "(THE (i', k'). i' < n \<and> k' < m \<and> d i k = d i' k') = (i, k)"
      by (rule the_equality) (use that inj in auto)
    then show ?thesis by (simp add: g_def)
  qed
  have ps: "set ps = {(d i k, s i k) | i k. i < n \<and> k < m}"
    by (force simp: ps_def dst src set_zip)
  have "\<forall>(i, j) \<in> set ps. i < length newArr \<and> j < length arr \<and> j = g i"
    using bounds g by (auto simp: ps)
  from copy_cells_function [OF this] obtain a where
    "copy_cells ps arr newArr = Some a" "length a = length newArr"
    and a: "\<And>i. i < length newArr \<Longrightarrow> i \<in> fst ` set ps \<Longrightarrow> a ! i = arr ! g i" by auto
  moreover have "a ! d i k = arr ! s i k" if "i < n" "k < m" for i k
  proof -
    have "d i k \<in> fst ` set ps" using that by (force simp: ps)
    then show ?thesis using a [of "d i k"] bounds g that by auto
  qed
  ultimately show ?thesis by (auto simp: slice_loop_eq ps_def)
qed
subsection \<open>Well-formed matrices and their cells\<close>

definition area_wf :: "matrix_area \<Rightarrow> bool" where
  "area_wf m \<longleftrightarrow> length (ma_arr m) = unat (ma_rows m) * unat (ma_cols m) \<and> length (ma_arr m) < 4294967296"

definition cell :: "matrix_area \<Rightarrow> nat \<Rightarrow> nat \<Rightarrow> bool" where
  "cell m r c = ma_arr m ! (r * unat (ma_cols m) + c)"

abbreviation nrows :: "matrix_area \<Rightarrow> nat" where "nrows m \<equiv> unat (ma_rows m)"
abbreviation ncols :: "matrix_area \<Rightarrow> nat" where "ncols m \<equiv> unat (ma_cols m)"

lemma area_at_cell:
  "area_wf m \<Longrightarrow> r < nrows m \<Longrightarrow> c < ncols m \<Longrightarrow> area_at m (of_nat r) (of_nat c) = Some (cell m r c)"
  using flat_less [of r "nrows m" c "ncols m"]
  by (simp add: area_at_def cell_def area_wf_def unat_word_ariths unat_of_nat_below Let_def)

lemma area_eqI:
  assumes "area_wf m" "area_wf m'" "ma_rows m = ma_rows m'" "ma_cols m = ma_cols m'" "ma_center m = ma_center m'"
    and "\<And>r c. r < nrows m \<Longrightarrow> c < ncols m \<Longrightarrow> cell m r c = cell m' r c"
  shows "m = m'"
proof -
  have "ma_arr m = ma_arr m'"
  proof (rule nth_equalityI)
    show "length (ma_arr m) = length (ma_arr m')" using assms by (simp add: area_wf_def)
    fix j assume "j < length (ma_arr m)"
    then obtain r c where "r < nrows m" "c < ncols m" "j = r * ncols m + c"
      using flat_split assms(1) unfolding area_wf_def by metis
    then show "ma_arr m ! j = ma_arr m' ! j"
      using assms(4,6) by (simp add: cell_def)
  qed
  then show ?thesis using assms by simp
qed

lemma turn_row_slice:
  assumes wf: "area_wf m" and i: "i < nrows m"
  shows "slice (of_nat i * ma_cols m) (ma_cols m) 1 = map (\<lambda>k. i * ncols m + k) [0..<ncols m]"
    and "slice ((ma_rows m - of_nat i - 1) * ma_cols m) (ma_cols m) 1 =
      map (\<lambda>k. (nrows m - i - 1) * ncols m + k) [0..<ncols m]"
proof -
  have le: "r * ncols m < 4294967296" if "r < nrows m" for r
    using that wf mult_le_mono1 [of r "nrows m" "ncols m"] unfolding area_wf_def by linarith
  show "slice (of_nat i * ma_cols m) (ma_cols m) 1 = map (\<lambda>k. i * ncols m + k) [0..<ncols m]"
    using le [OF i] i by (simp add: slice_def unat_times_small unat_of_nat_below [OF i])
  show "slice ((ma_rows m - of_nat i - 1) * ma_cols m) (ma_cols m) 1 =
      map (\<lambda>k. (nrows m - i - 1) * ncols m + k) [0..<ncols m]"
    using le [of "nrows m - i - 1"] i
    by (simp add: slice_def unat_times_small unat_minus_small)
qed

lemma turn_col_slice:
  assumes i: "i < ncols m"
  shows "slice (of_nat i) (ma_rows m) (ma_cols m) = map (\<lambda>k. i + k * ncols m) [0..<nrows m]"
    and "slice (ma_cols m - of_nat i - 1) (ma_rows m) (ma_cols m) =
      map (\<lambda>k. (ncols m - i - 1) + k * ncols m) [0..<nrows m]"
  using i by (simp_all add: slice_def unat_of_nat_below unat_minus_small)

text \<open>The image of a matrix under an operation: which cell of \<open>m\<close> every cell of the result shows.\<close>

definition shows_cells :: "matrix_area \<Rightarrow> matrix_area \<Rightarrow> (nat \<Rightarrow> nat \<Rightarrow> nat \<times> nat) \<Rightarrow> bool" where
  "shows_cells m m' from \<longleftrightarrow> area_wf m' \<and>
     (\<forall>r < nrows m'. \<forall>c < ncols m'. cell m' r c = (case from r c of (r', c') \<Rightarrow> cell m r' c'))"

lemma flat_bounds:
  assumes "r < R" and "c < (C :: nat)"
  shows "r * C + c < R * C" "c + r * C < R * C" "(R - r - 1) * C + c < R * C" "(C - c - 1) + r * C < R * C"
    and "c * R + r < R * C" "r + c * R < R * C"
  using flat_less [OF assms] flat_less [of "R - r - 1" R c C] flat_less [of r R "C - c - 1" C]
    flat_less [of c C r R] assms
  by (simp_all add: add.commute mult.commute [of R C])

lemma flat_inject': "k < c \<Longrightarrow> k' < c \<Longrightarrow> k + i * c = k' + i' * c \<Longrightarrow> k = k' \<and> i = (i' :: nat)"
  using flat_inject [of k c k' i i'] by (simp add: add.commute)

lemma flip_cells:
  assumes wf: "area_wf m"
  shows "\<exists>m'. flip m = Some m' \<and> shows_cells m m' (\<lambda>r c. (nrows m - 1 - r, c)) \<and>
    ma_rows m' = ma_rows m \<and> ma_cols m' = ma_cols m \<and>
    ma_center m' = (fst (ma_center m), ma_rows m - snd (ma_center m) - 1)"
proof -
  have len: "length (ma_arr m) = nrows m * ncols m" "length (ma_arr m) < 4294967296"
    using wf by (auto simp: area_wf_def)
  have "\<exists>a. slice_loop (\<lambda>i. slice (i * ma_cols m) (ma_cols m) 1)
      (\<lambda>i. slice ((ma_rows m - i - 1) * ma_cols m) (ma_cols m) 1) [0..<nrows m] (ma_arr m) (blank m) = Some a \<and>
    length a = length (blank m) \<and>
    (\<forall>i<nrows m. \<forall>k<ncols m. a ! (i * ncols m + k) = ma_arr m ! ((nrows m - i - 1) * ncols m + k))"
  proof (rule slice_loop_cells)
    show "i * ncols m + k < length (blank m) \<and> (nrows m - i - 1) * ncols m + k < length (ma_arr m)"
      if "i < nrows m" "k < ncols m" for i k
      unfolding length_replicate len(1) using that by (intro conjI flat_bounds)
  qed (simp_all add: turn_row_slice(1) [OF wf] turn_row_slice(2) [OF wf] flat_inject)
  then show ?thesis
    using len by (auto simp: flip_def shows_cells_def cell_def area_wf_def Let_def
        add.commute mult.commute split: prod.split)
qed

lemma mirror_cells:
  assumes wf: "area_wf m"
  shows "\<exists>m'. mirror m = Some m' \<and> shows_cells m m' (\<lambda>r c. (r, ncols m - 1 - c)) \<and>
    ma_rows m' = ma_rows m \<and> ma_cols m' = ma_cols m \<and>
    ma_center m' = (ma_cols m - fst (ma_center m) - 1, snd (ma_center m))"
proof -
  have len: "length (ma_arr m) = nrows m * ncols m" "length (ma_arr m) < 4294967296"
    using wf by (auto simp: area_wf_def)
  have "\<exists>a. slice_loop (\<lambda>i. slice i (ma_rows m) (ma_cols m))
      (\<lambda>i. slice (ma_cols m - i - 1) (ma_rows m) (ma_cols m)) [0..<ncols m] (ma_arr m) (blank m) = Some a \<and>
    length a = length (blank m) \<and>
    (\<forall>i<ncols m. \<forall>k<nrows m. a ! (i + k * ncols m) = ma_arr m ! ((ncols m - i - 1) + k * ncols m))"
  proof (rule slice_loop_cells)
    show "i + k * ncols m < length (blank m) \<and> (ncols m - i - 1) + k * ncols m < length (ma_arr m)"
      if "i < ncols m" "k < nrows m" for i k
      unfolding length_replicate len(1) using that by (intro conjI flat_bounds)
    show "i = i' \<and> k = k'" if "i < ncols m" "k < nrows m" "i' < ncols m" "k' < nrows m"
      "i + k * ncols m = i' + k' * ncols m" for i k i' k'
      using flat_inject' that by blast
  qed (simp_all add: turn_col_slice(1) turn_col_slice(2))
  then show ?thesis
    using len by (auto simp: mirror_def shows_cells_def cell_def area_wf_def Let_def
        add.commute mult.commute split: prod.split)
qed

lemma rotate90_cells:
  assumes wf: "area_wf m"
  shows "\<exists>m'. rotate90 m = Some m' \<and> shows_cells m m' (\<lambda>r c. (nrows m - 1 - c, r)) \<and>
    ma_rows m' = ma_cols m \<and> ma_cols m' = ma_rows m \<and>
    ma_center m' = (ma_rows m - snd (ma_center m) - 1, fst (ma_center m))"
proof -
  have len: "length (ma_arr m) = nrows m * ncols m" "length (ma_arr m) < 4294967296"
    using wf by (auto simp: area_wf_def)
  have slice: "slice (of_nat i) (ma_cols m) (ma_rows m) = map (\<lambda>k. i + k * nrows m) [0..<ncols m]"
    if "i < nrows m" for i using that by (simp add: slice_def unat_of_nat_below)
  have "\<exists>a. slice_loop (\<lambda>i. slice i (ma_cols m) (ma_rows m))
      (\<lambda>i. slice ((ma_rows m - i - 1) * ma_cols m) (ma_cols m) 1) [0..<nrows m] (ma_arr m) (blank m) = Some a \<and>
    length a = length (blank m) \<and>
    (\<forall>i<nrows m. \<forall>k<ncols m. a ! (i + k * nrows m) = ma_arr m ! ((nrows m - i - 1) * ncols m + k))"
  proof (rule slice_loop_cells)
    show "i + k * nrows m < length (blank m) \<and> (nrows m - i - 1) * ncols m + k < length (ma_arr m)"
      if "i < nrows m" "k < ncols m" for i k
      unfolding length_replicate len(1) using that by (intro conjI flat_bounds)
    show "i = i' \<and> k = k'" if "i < nrows m" "k < ncols m" "i' < nrows m" "k' < ncols m"
      "i + k * nrows m = i' + k' * nrows m" for i k i' k'
      using flat_inject' that by blast
  qed (simp_all add: slice turn_row_slice(2) [OF wf])
  then show ?thesis
    using len by (auto simp: rotate90_def shows_cells_def cell_def area_wf_def Let_def
        add.commute mult.commute split: prod.split)
qed

lemma rotate270_cells:
  assumes wf: "area_wf m"
  shows "\<exists>m'. rotate270 m = Some m' \<and> shows_cells m m' (\<lambda>r c. (c, ncols m - 1 - r)) \<and>
    ma_rows m' = ma_cols m \<and> ma_cols m' = ma_rows m \<and>
    ma_center m' = (snd (ma_center m), ma_cols m - fst (ma_center m) - 1)"
proof -
  have len: "length (ma_arr m) = nrows m * ncols m" "length (ma_arr m) < 4294967296"
    using wf by (auto simp: area_wf_def)
  have slice: "slice (of_nat i * ma_rows m) (ma_rows m) 1 = map (\<lambda>k. i * nrows m + k) [0..<nrows m]"
    if "i < ncols m" for i
  proof -
    have "i * nrows m \<le> ncols m * nrows m" using that by (intro mult_le_mono1) simp
    then have "i * nrows m < 4294967296" using len mult.commute [of "ncols m" "nrows m"] by linarith
    then show ?thesis using that by (simp add: slice_def unat_times_small unat_of_nat_below [OF that])
  qed
  have "\<exists>a. slice_loop (\<lambda>i. slice (i * ma_rows m) (ma_rows m) 1)
      (\<lambda>i. slice (ma_cols m - i - 1) (ma_rows m) (ma_cols m)) [0..<ncols m] (ma_arr m) (blank m) = Some a \<and>
    length a = length (blank m) \<and>
    (\<forall>i<ncols m. \<forall>k<nrows m. a ! (i * nrows m + k) = ma_arr m ! ((ncols m - i - 1) + k * ncols m))"
  proof (rule slice_loop_cells)
    show "i * nrows m + k < length (blank m) \<and> (ncols m - i - 1) + k * ncols m < length (ma_arr m)"
      if "i < ncols m" "k < nrows m" for i k
      unfolding length_replicate len(1) using that by (intro conjI flat_bounds)
  qed (simp_all add: slice turn_col_slice(2) flat_inject)
  then show ?thesis
    using len by (auto simp: rotate270_def shows_cells_def cell_def area_wf_def Let_def
        add.commute mult.commute split: prod.split)
qed

lemma rotate180_cells:
  assumes wf: "area_wf m"
  shows "\<exists>m'. rotate180 m = Some m' \<and> shows_cells m m' (\<lambda>r c. (nrows m - 1 - r, ncols m - 1 - c)) \<and>
    ma_rows m' = ma_rows m \<and> ma_cols m' = ma_cols m \<and>
    ma_center m' = (ma_cols m - fst (ma_center m) - 1, ma_rows m - snd (ma_center m) - 1)"
proof -
  have len: "length (ma_arr m) = nrows m * ncols m" "length (ma_arr m) < 4294967296"
    using wf by (auto simp: area_wf_def)
  have idx: "nrows m * ncols m - Suc (r * ncols m + c) = (nrows m - 1 - r) * ncols m + (ncols m - 1 - c)"
    if "r < nrows m" "c < ncols m" for r c
  proof -
    obtain R where R: "nrows m = r + 1 + R" using \<open>r < nrows m\<close> less_imp_Suc_add by fastforce
    obtain C where C: "ncols m = c + 1 + C" using \<open>c < ncols m\<close> less_imp_Suc_add by fastforce
    show ?thesis unfolding R C by (simp add: algebra_simps)
  qed
  show ?thesis
    using len idx flat_less by (auto simp: rotate180_def shows_cells_def cell_def area_wf_def Let_def rev_nth
        split: prod.split)
qed

lemmas turn_cells = flip_cells mirror_cells rotate90_cells rotate180_cells rotate270_cells

subsection \<open>Pictures\<close>

text \<open>
  What a matrix means: its dimensions, its centre and the set of its marked cells.  On pictures the
  operations are plain functions, and each operation of the class is shown to implement one.
\<close>

type_synonym picture = "u32 \<times> u32 \<times> (u32 \<times> u32) \<times> (nat \<Rightarrow> nat \<Rightarrow> bool)"

definition picture :: "matrix_area \<Rightarrow> picture" where
  "picture m = (ma_rows m, ma_cols m, ma_center m, \<lambda>r c. r < nrows m \<and> c < ncols m \<and> cell m r c)"

fun p_flip :: "picture \<Rightarrow> picture" where
  "p_flip (R, C, (x, y), f) = (R, C, (x, R - y - 1), \<lambda>r c. r < unat R \<and> f (unat R - 1 - r) c)"

fun p_mirror :: "picture \<Rightarrow> picture" where
  "p_mirror (R, C, (x, y), f) = (R, C, (C - x - 1, y), \<lambda>r c. c < unat C \<and> f r (unat C - 1 - c))"

fun p_turn :: "picture \<Rightarrow> picture" where
  "p_turn (R, C, (x, y), f) = (C, R, (R - y - 1, x), \<lambda>r c. c < unat R \<and> f (unat R - 1 - c) r)"

lemma picture_inject:
  assumes "area_wf m" and "area_wf m'" and "picture m = picture m'"
  shows "m = m'"
proof -
  have "cell m r c = cell m' r c" if "r < nrows m" "c < ncols m" for r c
  proof -
    have "snd (snd (snd (picture m))) r c = snd (snd (snd (picture m'))) r c"
      using assms(3) by simp
    then show ?thesis using assms(3) that by (simp add: picture_def)
  qed
  with assms show ?thesis by (intro area_eqI) (auto simp: picture_def)
qed

locale area_op =
  fixes op :: "matrix_area \<Rightarrow> matrix_area option" and p_op :: "picture \<Rightarrow> picture"
  assumes refines: "area_wf m \<Longrightarrow> \<exists>m'. op m = Some m' \<and> area_wf m' \<and> picture m' = p_op (picture m)"
begin

lemma not_stuck: "area_wf m \<Longrightarrow> op m \<noteq> None"
  using refines by fastforce

lemma result: "area_wf m \<Longrightarrow> op m = Some m' \<Longrightarrow> area_wf m' \<and> picture m' = p_op (picture m)"
  using refines by fastforce

lemma unchanged: "area_wf m \<Longrightarrow> p_op (picture m) = picture m \<Longrightarrow> op m = Some m"
  using refines [of m] picture_inject by metis

end

lemma area_op_compose:
  assumes "area_op op1 p1" and "area_op op2 p2"
  shows "area_op (\<lambda>m. Option.bind (op1 m) op2) (\<lambda>p. p2 (p1 p))"
proof
  fix m assume "area_wf m"
  then obtain m1 where 1: "op1 m = Some m1" "area_wf m1" "picture m1 = p1 (picture m)"
    using area_op.refines [OF assms(1)] by blast
  then obtain m2 where "op2 m1 = Some m2" "area_wf m2" "picture m2 = p2 (picture m1)"
    using area_op.refines [OF assms(2)] by blast
  with 1 show "\<exists>m'. Option.bind (op1 m) op2 = Some m' \<and> area_wf m' \<and> picture m' = p2 (p1 (picture m))"
    by simp
qed

lemma area_op_unique:
  assumes "area_op op1 p1" and "area_op op2 p2" and "area_wf m" and "p1 (picture m) = p2 (picture m)"
  shows "op1 m = op2 m"
proof -
  obtain m1 m2 where "op1 m = Some m1" "op2 m = Some m2" "area_wf m1" "area_wf m2" "picture m1 = picture m2"
    using area_op.refines [OF assms(1,3)] area_op.refines [OF assms(2,3)] assms(4) by auto
  then show ?thesis using picture_inject [of m1 m2] by simp
qed

lemma area_op_identity:
  assumes "area_op op1 p1" and "area_op op2 p2" and "area_wf m" and "p2 (p1 (picture m)) = picture m"
  shows "Option.bind (op1 m) op2 = Some m"
  using area_op.unchanged [OF area_op_compose [OF assms(1,2)] assms(3,4)] .

lemma area_op_agree:
  assumes "area_op op1 p1" and "area_op op2 p2" and "area_op op3 p3" and "area_wf m"
    and "p2 (p1 (picture m)) = p3 (picture m)"
  shows "Option.bind (op1 m) op2 = op3 m"
  using area_op_unique [OF area_op_compose [OF assms(1,2)] assms(3,4,5)] .

interpretation flip: area_op flip p_flip
proof
  fix m assume "area_wf m"
  from flip_cells [OF this] show "\<exists>m'. flip m = Some m' \<and> area_wf m' \<and> picture m' = p_flip (picture m)"
    by (cases "ma_center m") (auto simp: shows_cells_def picture_def fun_eq_iff)
qed

interpretation mirror: area_op mirror p_mirror
proof
  fix m assume "area_wf m"
  from mirror_cells [OF this] show "\<exists>m'. mirror m = Some m' \<and> area_wf m' \<and> picture m' = p_mirror (picture m)"
    by (cases "ma_center m") (auto simp: shows_cells_def picture_def fun_eq_iff)
qed

interpretation rotate90: area_op rotate90 p_turn
proof
  fix m assume "area_wf m"
  from rotate90_cells [OF this] show "\<exists>m'. rotate90 m = Some m' \<and> area_wf m' \<and> picture m' = p_turn (picture m)"
    by (cases "ma_center m") (auto simp: shows_cells_def picture_def fun_eq_iff)
qed

interpretation rotate180: area_op rotate180 "\<lambda>p. p_turn (p_turn p)"
proof
  fix m assume "area_wf m"
  from rotate180_cells [OF this]
  show "\<exists>m'. rotate180 m = Some m' \<and> area_wf m' \<and> picture m' = p_turn (p_turn (picture m))"
    by (cases "ma_center m") (auto simp: shows_cells_def picture_def fun_eq_iff)
qed

interpretation rotate270: area_op rotate270 "\<lambda>p. p_turn (p_turn (p_turn p))"
proof
  fix m assume "area_wf m"
  from rotate270_cells [OF this]
  show "\<exists>m'. rotate270 m = Some m' \<and> area_wf m' \<and> picture m' = p_turn (p_turn (p_turn (picture m)))"
    by (cases "ma_center m") (auto simp: shows_cells_def picture_def fun_eq_iff)
qed

lemma p_turn_four: "p_turn (p_turn (p_turn (p_turn (picture m)))) = picture m"
  by (cases "ma_center m") (auto simp: picture_def fun_eq_iff)

lemma p_flip_mirror: "p_mirror (p_flip (picture m)) = p_turn (p_turn (picture m))"
  by (cases "ma_center m") (auto simp: picture_def fun_eq_iff)

lemma p_flip_twice: "p_flip (p_flip (picture m)) = picture m"
  by (cases "ma_center m") (auto simp: picture_def fun_eq_iff)

lemma p_mirror_twice: "p_mirror (p_mirror (picture m)) = picture m"
  by (cases "ma_center m") (auto simp: picture_def fun_eq_iff)

lemmas p_laws = p_turn_four p_flip_mirror p_flip_twice p_mirror_twice

lemmas area_ops = flip.area_op_axioms mirror.area_op_axioms rotate90.area_op_axioms
  rotate180.area_op_axioms rotate270.area_op_axioms

text \<open>
  The reflections and rotations obey the laws of the square: two quarter turns are the half turn,
  three are \<open>rotate270\<close>, four leave the matrix, its dimensions and its centre as they were, and so do
  two reflections; flipping and mirroring make the half turn.
\<close>

theorem matrix_turns_compose:
  assumes "area_wf m"
  shows "do { m \<leftarrow> rotate90 m; rotate90 m } = rotate180 m \<and>
    do { m \<leftarrow> rotate180 m; rotate90 m } = rotate270 m \<and>
    do { m \<leftarrow> rotate270 m; rotate90 m } = Some m \<and>
    do { m \<leftarrow> flip m; mirror m } = rotate180 m \<and>
    do { m \<leftarrow> flip m; flip m } = Some m \<and>
    do { m \<leftarrow> mirror m; mirror m } = Some m"
  using assms
  by (intro conjI area_op_agree [OF area_ops(3) area_ops(3) area_ops(4)]
      area_op_agree [OF area_ops(4) area_ops(3) area_ops(5)]
      area_op_identity [OF area_ops(5) area_ops(3)]
      area_op_agree [OF area_ops(1) area_ops(2) area_ops(4)]
      area_op_identity [OF area_ops(1) area_ops(1)] area_op_identity [OF area_ops(2) area_ops(2)])
    (simp_all add: p_laws)

theorem matrix_turns_compose_witness:
  "let m = \<lparr>ma_arr = [True, False, True, False, False, True], ma_center = (1, 0), ma_rows = 2, ma_cols = 3\<rparr> in
    do { m \<leftarrow> rotate90 m; rotate90 m } = rotate180 m \<and>
    do { m \<leftarrow> rotate180 m; rotate90 m } = rotate270 m \<and>
    do { m \<leftarrow> rotate270 m; rotate90 m } = Some m \<and>
    do { m \<leftarrow> flip m; mirror m } = rotate180 m \<and>
    do { m \<leftarrow> flip m; flip m } = Some m \<and>
    do { m \<leftarrow> mirror m; mirror m } = Some m"
  unfolding Let_def by (rule matrix_turns_compose) (simp add: area_wf_def)

subsection \<open>Reading a matrix from a table\<close>

fun create_cells :: "u32 \<Rightarrow> u32 list \<Rightarrow> u32 \<Rightarrow> u32 \<Rightarrow> matrix_area \<Rightarrow> matrix_area option" where
  "create_cells cols [] x y area = Some area"
| "create_cells cols (value # vec) x y area =
     do { area \<leftarrow> (if value = 1 \<or> value = 3 then area_set area y x True else Some area);
          let area = (if value = 2 \<or> value = 3 then setCenter y x area else area);
          let x = x + 1;
          if cols = x then create_cells cols vec 0 (y + 1) area else create_cells cols vec x y area }"

definition createArea :: "u32 list \<Rightarrow> u32 \<Rightarrow> matrix_area option" where
  "createArea vec rows =
     (let cols = (if rows = 0 then 0 else of_nat (length vec div unat rows)) in
      create_cells cols vec 0 0 (new_area rows cols))"

lemma of_nat_unat_u32: "of_nat (unat (w :: u32)) = w"
  by simp

lemma Suc_div_mod_cases:
  "0 < c \<Longrightarrow> (if Suc (i mod c) = c then Suc i mod c = 0 \<and> Suc i div c = Suc (i div c)
     else Suc i mod c = Suc (i mod c) \<and> Suc i div c = i div c)"
  by (simp add: mod_Suc div_Suc)

lemma create_cells_from:
  assumes C: "C = unat cols" "0 < C" and i: "i \<le> length vec"
    and fits: "length vec = length (ma_arr m)" "length vec < 4294967296" and cols: "ma_cols m = cols"
  shows "\<exists>m'. create_cells cols (drop i vec) (of_nat (i mod C)) (of_nat (i div C)) m = Some m' \<and>
    length (ma_arr m') = length (ma_arr m) \<and> ma_rows m' = ma_rows m \<and> ma_cols m' = ma_cols m \<and>
    (\<forall>j < length vec. ma_arr m' ! j \<longleftrightarrow> ma_arr m ! j \<or> i \<le> j \<and> vec ! j \<in> {1, 3}) \<and>
    ma_center m' = (case filter (\<lambda>j. vec ! j \<in> {2, 3}) [i..<length vec] of [] \<Rightarrow> ma_center m
      | js \<Rightarrow> (of_nat (last js mod C), of_nat (last js div C)))"
  using i fits cols
proof (induction "length vec - i" arbitrary: i m)
  case 0
  then show ?case by simp
next
  case (Suc n)
  then have i: "i < length vec" by simp
  define m1 where "m1 = (if vec ! i = 1 \<or> vec ! i = 3 then m\<lparr>ma_arr := (ma_arr m)[i := True]\<rparr> else m)"
  define m2 where "m2 = (if vec ! i = 2 \<or> vec ! i = 3
    then setCenter (of_nat (i div C)) (of_nat (i mod C)) m1 else m1)"
  have idx: "unat (of_nat (i div C) * cols + of_nat (i mod C)) = i"
  proof -
    have "of_nat (i div C) * cols + of_nat (i mod C) = (of_nat (i div C * C + i mod C) :: u32)"
      by (simp only: C(1) of_nat_add of_nat_mult of_nat_unat_u32)
    then show ?thesis using i Suc.prems(3) by (simp add: unat_of_nat_u32)
  qed
  have set: "(if vec ! i = 1 \<or> vec ! i = 3 then area_set m (of_nat (i div C)) (of_nat (i mod C)) True
      else Some m) = Some m1"
    using i Suc.prems by (auto simp: m1_def area_set_def idx Let_def)
  have step: "create_cells cols (drop i vec) (of_nat (i mod C)) (of_nat (i div C)) m =
      create_cells cols (drop (Suc i) vec) (of_nat (Suc i mod C)) (of_nat (Suc i div C)) m2"
  proof -
    have "cols = of_nat (i mod C) + 1 \<longleftrightarrow> Suc (i mod C) = C"
    proof -
      have "of_nat (i mod C) + 1 = (of_nat (Suc (i mod C)) :: u32)" by simp
      moreover have "Suc (i mod C) < 4294967296 \<or> Suc (i mod C) = C"
        using C mod_less_divisor [of C i] unat_u32_less [of cols] by linarith
      ultimately show ?thesis using C(1) unat_u32_less [of cols]
        by (metis unat_of_nat_u32 of_nat_unat_u32)
    qed
    then show ?thesis using Suc_div_mod_cases [OF C(2), of i]
      by (simp add: Cons_nth_drop_Suc [OF i, symmetric] set Let_def m2_def add.commute [of 1]
            del: mod_Suc div_Suc split: if_splits)
  qed
  have "length (ma_arr m2) = length (ma_arr m)" "ma_rows m2 = ma_rows m" "ma_cols m2 = ma_cols m"
    by (auto simp: m2_def m1_def setCenter_def)
  moreover have "n = length vec - Suc i" using Suc.hyps(2) by linarith
  ultimately
  obtain m' where m': "create_cells cols (drop (Suc i) vec) (of_nat (Suc i mod C)) (of_nat (Suc i div C)) m2 = Some m'"
    "length (ma_arr m') = length (ma_arr m)" "ma_rows m' = ma_rows m" "ma_cols m' = ma_cols m"
    "\<forall>j < length vec. ma_arr m' ! j \<longleftrightarrow> ma_arr m2 ! j \<or> Suc i \<le> j \<and> vec ! j \<in> {1, 3}"
    "ma_center m' = (case filter (\<lambda>j. vec ! j \<in> {2, 3}) [Suc i..<length vec] of [] \<Rightarrow> ma_center m2
      | js \<Rightarrow> (of_nat (last js mod C), of_nat (last js div C)))"
    using Suc.hyps(1) [of "Suc i" m2] Suc.prems i unfolding Suc_le_eq by auto
  have arr: "ma_arr m2 ! j \<longleftrightarrow> ma_arr m ! j \<or> j = i \<and> vec ! j \<in> {1, 3}" if "j < length vec" for j
    using that i Suc.prems(2) by (auto simp: m2_def m1_def setCenter_def nth_list_update split: if_splits)
  have ctr: "ma_center m2 = (if vec ! i \<in> {2, 3} then (of_nat (i mod C), of_nat (i div C)) else ma_center m)"
    by (auto simp: m2_def m1_def setCenter_def)
  have "ma_center m' = (case filter (\<lambda>j. vec ! j \<in> {2, 3}) [i..<length vec] of [] \<Rightarrow> ma_center m
      | js \<Rightarrow> (of_nat (last js mod C), of_nat (last js div C)))"
    using m'(6) ctr i by (auto simp: upt_conv_Cons split: list.splits)
  with m' arr step show ?case by (auto simp: le_Suc_eq Suc_le_eq)
qed

lemma createArea_spec:
  assumes "length vec = unat rows * C" and "0 < C" and "0 < rows" and "length vec < 4294967296"
  shows "\<exists>m. createArea vec rows = Some m \<and> area_wf m \<and> ma_rows m = rows \<and> ma_cols m = of_nat C \<and> ncols m = C \<and>
    (\<forall>r < unat rows. \<forall>c < C. cell m r c \<longleftrightarrow> vec ! (r * C + c) \<in> {1, 3}) \<and>
    ma_center m = (case filter (\<lambda>j. vec ! j \<in> {2, 3}) [0..<length vec] of [] \<Rightarrow> (0, 0)
      | js \<Rightarrow> (of_nat (last js mod C), of_nat (last js div C)))"
proof -
  have pos: "0 < unat rows" using assms(3) by (simp add: word_less_nat_alt)
  have "C \<le> length vec" using assms(1) pos by simp
  then have C: "unat (of_nat C :: u32) = C" using assms(4) by (simp add: unat_of_nat_u32)
  have mult: "unat (rows * of_nat C) = unat rows * C"
    using assms(1,4) by (simp add: unat_times_small C)
  have "createArea vec rows = create_cells (of_nat C) vec 0 0 (new_area rows (of_nat C))"
    using assms(1,3) pos by (auto simp: createArea_def Let_def)
  moreover have arr: "length (ma_arr (new_area rows (of_nat C))) = length vec"
    "ma_arr (new_area rows (of_nat C)) ! j \<longleftrightarrow> False" if "j < length vec" for j
    using that by (simp_all add: new_area_def mult assms(1))
  moreover have fields: "ma_rows (new_area rows (of_nat C)) = rows"
    "ma_cols (new_area rows (of_nat C)) = of_nat C" "ma_center (new_area rows (of_nat C)) = (0, 0)"
    "length (ma_arr (new_area rows (of_nat C))) = length vec"
    by (simp_all add: new_area_def mult assms(1))
  ultimately obtain m where m: "createArea vec rows = Some m" "length (ma_arr m) = unat rows * C"
    "ma_rows m = rows" "ma_cols m = of_nat C"
    "\<forall>j < length vec. ma_arr m ! j \<longleftrightarrow> vec ! j \<in> {1, 3}"
    "ma_center m = (case filter (\<lambda>j. vec ! j \<in> {2, 3}) [0..<length vec] of [] \<Rightarrow> (0, 0)
      | js \<Rightarrow> (of_nat (last js mod C), of_nat (last js div C)))"
    using create_cells_from [of C "of_nat C" 0 vec "new_area rows (of_nat C)"] assms C
    unfolding fields by fastforce
  moreover have "cell m r c \<longleftrightarrow> vec ! (r * C + c) \<in> {1, 3}" if "r < unat rows" "c < C" for r c
    using m(5) flat_less [OF that] assms(1) by (simp add: cell_def m(4) C)
  ultimately show ?thesis using assms(1,4) C by (auto simp: area_wf_def)
qed

subsection \<open>Areas per direction\<close>

record area_combat =
  ac_areas :: "matrix_area list"
  ac_hasExtArea :: bool

definition area_combat_init :: area_combat where
  "area_combat_init = \<lparr>ac_areas = [], ac_hasExtArea = False\<rparr>"

definition resize_areas :: "nat \<Rightarrow> matrix_area list \<Rightarrow> matrix_area list" where
  "resize_areas n areas = take n (areas @ replicate n empty_area)"

definition put_area :: "Direction \<Rightarrow> matrix_area \<Rightarrow> matrix_area list \<Rightarrow> matrix_area list option" where
  "put_area dir m areas = (if unat (direction_code dir) < length areas
     then Some (areas[unat (direction_code dir) := m]) else None)"

definition area_direction :: "bool \<Rightarrow> int \<Rightarrow> int \<Rightarrow> Direction" where
  "area_direction hasExtArea dx dy =
     (let dir = (if dx < 0 then DIRECTION_WEST else if dx > 0 then DIRECTION_EAST
                 else if dy < 0 then DIRECTION_NORTH else DIRECTION_SOUTH) in
      if hasExtArea then
        (if dx < 0 \<and> dy < 0 then DIRECTION_NORTHWEST
         else if dx > 0 \<and> dy < 0 then DIRECTION_NORTHEAST
         else if dx < 0 \<and> dy > 0 then DIRECTION_SOUTHWEST
         else if dx > 0 \<and> dy > 0 then DIRECTION_SOUTHEAST else dir)
      else dir)"

definition getArea :: "area_combat \<Rightarrow> Position \<Rightarrow> Position \<Rightarrow> matrix_area" where
  "getArea ac centerPos targetPos =
     (let dx = getOffsetX targetPos centerPos; dy = getOffsetY targetPos centerPos;
          dir = area_direction (ac_hasExtArea ac) dx dy in
      if unat (direction_code dir) \<ge> length (ac_areas ac) then empty_area
      else ac_areas ac ! unat (direction_code dir))"

definition setupArea :: "u32 list \<Rightarrow> u32 \<Rightarrow> area_combat \<Rightarrow> area_combat option" where
  "setupArea vec rows ac =
     do { area \<leftarrow> createArea vec rows;
          let areas = (if length (ac_areas ac) = 0 then resize_areas 4 (ac_areas ac) else ac_areas ac);
          east \<leftarrow> rotate90 area;
          areas \<leftarrow> put_area DIRECTION_EAST east areas;
          south \<leftarrow> rotate180 area;
          areas \<leftarrow> put_area DIRECTION_SOUTH south areas;
          west \<leftarrow> rotate270 area;
          areas \<leftarrow> put_area DIRECTION_WEST west areas;
          areas \<leftarrow> put_area DIRECTION_NORTH area areas;
          Some (ac\<lparr>ac_areas := areas\<rparr>) }"

definition setupExtArea :: "u32 list \<Rightarrow> u32 \<Rightarrow> area_combat \<Rightarrow> area_combat option" where
  "setupExtArea vec rows ac =
     (if vec = [] then Some ac
      else do { area \<leftarrow> createArea vec rows;
                let areas = resize_areas 8 (ac_areas ac);
                northeast \<leftarrow> mirror area;
                areas \<leftarrow> put_area DIRECTION_NORTHEAST northeast areas;
                southwest \<leftarrow> flip area;
                areas \<leftarrow> put_area DIRECTION_SOUTHWEST southwest areas;
                southeast \<leftarrow> rotate180 area;
                areas \<leftarrow> put_area DIRECTION_SOUTHEAST southeast areas;
                areas \<leftarrow> put_area DIRECTION_NORTHWEST area areas;
                Some (ac\<lparr>ac_areas := areas, ac_hasExtArea := True\<rparr>) })"

text \<open>
  The beam or cone of \<open>setupArea(length, spread)\<close>.  The \<open>int32_t\<close> variables are integers and a value
  that does not fit, undefined behaviour in C++, is \<open>None\<close>; so is a length below zero, whose conversion
  to the unsigned row count asks for more than two billion rows.
\<close>

definition i32_ok :: "int \<Rightarrow> bool" where
  "i32_ok x \<longleftrightarrow> - 2147483648 \<le> x \<and> x < 2147483648"

fun wave_rows :: "nat \<Rightarrow> int \<Rightarrow> int \<Rightarrow> int \<Rightarrow> nat list \<Rightarrow> u32 list" where
  "wave_rows rows cols spread colSpread [] = []"
| "wave_rows rows cols spread colSpread (y # ys) =
     (let mincol = cols - colSpread + 1; maxcol = cols - (cols - colSpread) in
      map (\<lambda>x. if y = rows \<and> x = (cols - (cols smod 2)) sdiv 2 + 1 then 3
               else if mincol \<le> x \<and> x \<le> maxcol then 1 else 0) [1..cols]
      @ wave_rows rows cols spread
          (if spread > 0 \<and> int y mod spread = 0 then colSpread - 1 else colSpread) ys)"

definition setupArea_wave :: "int \<Rightarrow> int \<Rightarrow> area_combat \<Rightarrow> area_combat option" where
  "setupArea_wave len spread ac =
     (let rows = nat len;
          cols = (if spread \<noteq> 0 then ((len - (len smod spread)) sdiv spread) * 2 + 1 else 1) in
      if len < 0 \<or> \<not> i32_ok cols then None
      else setupArea (wave_rows rows cols spread cols [1..<rows + 1]) (of_nat rows) ac)"

definition radius_table :: "int list list" where
  "radius_table =
    [[0, 0, 0, 0, 0, 0, 8, 0, 0, 0, 0, 0, 0], [0, 0, 0, 0, 8, 8, 7, 8, 8, 0, 0, 0, 0],
     [0, 0, 0, 8, 7, 6, 6, 6, 7, 8, 0, 0, 0], [0, 0, 8, 7, 6, 5, 5, 5, 6, 7, 8, 0, 0],
     [0, 8, 7, 6, 5, 4, 4, 4, 5, 6, 7, 8, 0], [0, 8, 6, 5, 4, 3, 2, 3, 4, 5, 6, 8, 0],
     [8, 7, 6, 5, 4, 2, 1, 2, 4, 5, 6, 7, 8], [0, 8, 6, 5, 4, 3, 2, 3, 4, 5, 6, 8, 0],
     [0, 8, 7, 6, 5, 4, 4, 4, 5, 6, 7, 8, 0], [0, 0, 8, 7, 6, 5, 5, 5, 6, 7, 8, 0, 0],
     [0, 0, 0, 8, 7, 6, 6, 6, 7, 8, 0, 0, 0], [0, 0, 0, 0, 8, 8, 7, 8, 8, 0, 0, 0, 0],
     [0, 0, 0, 0, 0, 0, 8, 0, 0, 0, 0, 0, 0]]"

definition setupArea_radius :: "int \<Rightarrow> area_combat \<Rightarrow> area_combat option" where
  "setupArea_radius radius ac =
     setupArea (map (\<lambda>cell. if cell = 1 then 3 else if cell > 0 \<and> cell \<le> radius then 1 else 0)
       (concat radius_table)) 13 ac"

definition ring_table :: "int list list" where
  "ring_table =
    [[0, 0, 0, 0, 0, 7, 7, 7, 0, 0, 0, 0, 0], [0, 0, 0, 0, 7, 6, 6, 6, 7, 0, 0, 0, 0],
     [0, 0, 0, 7, 6, 5, 5, 5, 6, 7, 0, 0, 0], [0, 0, 7, 6, 5, 4, 4, 4, 5, 6, 7, 0, 0],
     [0, 7, 6, 5, 4, 3, 3, 3, 4, 5, 6, 7, 0], [7, 6, 5, 4, 3, 2, 0, 2, 3, 4, 5, 6, 7],
     [7, 6, 5, 4, 3, 0, 1, 0, 3, 4, 5, 6, 7], [7, 6, 5, 4, 3, 2, 0, 2, 3, 4, 5, 6, 7],
     [0, 7, 6, 5, 4, 3, 3, 3, 4, 5, 6, 7, 0], [0, 0, 7, 6, 5, 4, 4, 4, 5, 6, 7, 0, 0],
     [0, 0, 0, 7, 6, 5, 5, 5, 6, 7, 0, 0, 0], [0, 0, 0, 0, 7, 6, 6, 6, 7, 0, 0, 0, 0],
     [0, 0, 0, 0, 0, 7, 7, 7, 0, 0, 0, 0, 0]]"

definition setupAreaRing :: "int \<Rightarrow> area_combat \<Rightarrow> area_combat option" where
  "setupAreaRing ring ac =
     setupArea (map (\<lambda>cell. if cell = 1 then 3 else if cell > 0 \<and> cell = ring then 1 else 0)
       (concat ring_table)) 13 ac"

text \<open>\<open>marks m dx dy\<close>: the matrix marks the square at that offset from its centre.\<close>

fun p_marks :: "picture \<Rightarrow> int \<Rightarrow> int \<Rightarrow> bool" where
  "p_marks (R, C, (x, y), f) dx dy \<longleftrightarrow> 0 \<le> uint y + dy \<and> 0 \<le> uint x + dx \<and>
     f (nat (uint y + dy)) (nat (uint x + dx))"

definition marks :: "matrix_area \<Rightarrow> int \<Rightarrow> int \<Rightarrow> bool" where
  "marks m = p_marks (picture m)"

definition centred :: "matrix_area \<Rightarrow> bool" where
  "centred m \<longleftrightarrow> fst (ma_center m) < ma_cols m \<and> snd (ma_center m) < ma_rows m"

fun turned :: "Direction \<Rightarrow> int \<Rightarrow> int \<Rightarrow> int \<times> int" where
  "turned DIRECTION_EAST dx dy = (dy, - dx)"
| "turned DIRECTION_SOUTH dx dy = (- dx, - dy)"
| "turned DIRECTION_WEST dx dy = (- dy, dx)"
| "turned DIRECTION_NORTHEAST dx dy = (- dx, dy)"
| "turned DIRECTION_SOUTHWEST dx dy = (dx, - dy)"
| "turned DIRECTION_SOUTHEAST dx dy = (- dx, - dy)"
| "turned d dx dy = (dx, dy)"

lemma unat_sub_sub_1:
  assumes "(y :: u32) < R"
  shows "unat (R - y - 1) = unat R - unat y - 1"
proof -
  have "unat (R - of_nat (unat y) - 1) = unat R - unat y - 1"
    using assms by (intro unat_minus_small) (simp add: word_less_nat_alt)
  then show ?thesis by (simp only: of_nat_unat_u32)
qed

lemma uint_sub_sub_1:
  assumes "(y :: u32) < R"
  shows "uint (R - y - 1) = uint R - uint y - 1"
proof -
  note unat_sub_sub_1 [OF assms]
  moreover have "unat y < unat R" using assms by (simp add: word_less_nat_alt)
  ultimately show ?thesis unfolding uint_nat by linarith
qed

lemma reflect_index:
  assumes "0 \<le> U" "U < V"
  shows "0 \<le> V - U - 1 + d \<and> nat (V - U - 1 + d) < nat V \<longleftrightarrow> 0 \<le> U - d \<and> nat (U - d) < nat V"
    and "0 \<le> U - d \<Longrightarrow> nat (U - d) < nat V \<Longrightarrow> nat V - 1 - nat (V - U - 1 + d) = nat (U - d)"
  using assms by linarith+

lemma reflected:
  assumes "(y :: u32) < R" and "\<And>r. g r \<Longrightarrow> r < unat R"
  shows "0 \<le> uint (R - y - 1) + d \<and> nat (uint (R - y - 1) + d) < unat R \<and> g (unat R - 1 - nat (uint (R - y - 1) + d))
    \<longleftrightarrow> 0 \<le> uint y - d \<and> g (nat (uint y - d))"
proof -
  have "0 \<le> uint y" "uint y < uint R" using assms(1) by (simp_all add: word_less_def)
  note r = reflect_index [OF this, of d, unfolded nat_uint_eq]
  show ?thesis
    unfolding uint_sub_sub_1 [OF assms(1)] using r assms(2) by metis
qed

lemma p_marks_turn:
  assumes "centred m"
  shows "p_marks (p_turn (picture m)) dx dy = marks m dy (- dx)"
  using assms reflected [where y = "snd (ma_center m)" and R = "ma_rows m" and d = dx and
    g = "\<lambda>r. r < nrows m \<and> 0 \<le> uint (fst (ma_center m)) + dy \<and> nat (uint (fst (ma_center m)) + dy) < ncols m
      \<and> cell m r (nat (uint (fst (ma_center m)) + dy))"]
  by (cases "ma_center m") (auto simp: marks_def picture_def centred_def)

lemma p_marks_flip:
  assumes "centred m"
  shows "p_marks (p_flip (picture m)) dx dy = marks m dx (- dy)"
  using assms reflected [where y = "snd (ma_center m)" and R = "ma_rows m" and d = dy and
    g = "\<lambda>r. r < nrows m \<and> 0 \<le> uint (fst (ma_center m)) + dx \<and> nat (uint (fst (ma_center m)) + dx) < ncols m
      \<and> cell m r (nat (uint (fst (ma_center m)) + dx))"]
  by (cases "ma_center m") (auto simp: marks_def picture_def centred_def)

lemma p_marks_mirror:
  assumes "centred m"
  shows "p_marks (p_mirror (picture m)) dx dy = marks m (- dx) dy"
  using assms reflected [where y = "fst (ma_center m)" and R = "ma_cols m" and d = dx and
    g = "\<lambda>c. c < ncols m \<and> 0 \<le> uint (snd (ma_center m)) + dy \<and> nat (uint (snd (ma_center m)) + dy) < nrows m
      \<and> cell m (nat (uint (snd (ma_center m)) + dy)) c"]
  by (cases "ma_center m") (auto simp: marks_def picture_def centred_def)

definition straight :: "Direction set" where
  "straight = {DIRECTION_NORTH, DIRECTION_EAST, DIRECTION_SOUTH, DIRECTION_WEST}"

definition marks_turned :: "matrix_area \<Rightarrow> Direction \<Rightarrow> matrix_area \<Rightarrow> bool" where
  "marks_turned m d m' \<longleftrightarrow> (\<forall>dx dy. marks m' dx dy \<longleftrightarrow> (case turned d dx dy of (x, y) \<Rightarrow> marks m x y))"

lemma createArea_centred:
  assumes "length vec = unat rows * C" and "0 < C" and "0 < rows" and "length vec < 4294967296"
  shows "\<exists>m. createArea vec rows = Some m \<and> area_wf m \<and> centred m"
proof -
  obtain m where m: "createArea vec rows = Some m" "area_wf m" "ma_rows m = rows" "ma_cols m = of_nat C" "ncols m = C"
    "ma_center m = (case filter (\<lambda>j. vec ! j \<in> {2, 3}) [0..<length vec] of [] \<Rightarrow> (0, 0)
      | js \<Rightarrow> (of_nat (last js mod C), of_nat (last js div C)))"
    using createArea_spec [OF assms] by blast
  have small: "unat rows < 4294967296" "C < 4294967296" by (rule unat_u32_less) (use m(5) unat_u32_less in metis)
  have "centred m"
  proof (cases "filter (\<lambda>j. vec ! j \<in> {2, 3}) [0..<length vec]")
    case Nil
    then show ?thesis using m assms by (auto simp: centred_def word_less_nat_alt unat_gt_0)
  next
    case (Cons j js)
    then have "last (j # js) < length vec" by (metis filter_is_subset last_in_set list.discI atLeastLessThan_iff set_upt subsetD)
    then have "last (j # js) mod C < C" "last (j # js) div C < unat rows"
      using assms(1,2) by (auto simp: less_mult_imp_div_less)
    then show ?thesis
      using m(3,5,6) small unfolding Cons by (simp add: centred_def word_less_nat_alt unat_of_nat_u32)
  qed
  with m show ?thesis by blast
qed

lemma centred_rotate90:
  assumes "area_wf m" and "centred m" and "rotate90 m = Some m'"
  shows "centred m'"
  using rotate90_cells [OF assms(1)] assms(2,3) unat_sub_sub_1 [of "snd (ma_center m)" "ma_rows m"]
  by (auto simp: centred_def word_less_nat_alt)

lemma turned_rotations:
  assumes "area_wf m" and "centred m"
  shows "\<exists>e s w. rotate90 m = Some e \<and> rotate180 m = Some s \<and> rotate270 m = Some w \<and>
    marks_turned m DIRECTION_EAST e \<and> marks_turned m DIRECTION_SOUTH s \<and> marks_turned m DIRECTION_WEST w"
proof -
  obtain e where e: "rotate90 m = Some e" "area_wf e" "picture e = p_turn (picture m)"
    using rotate90.refines [OF assms(1)] by blast
  obtain s where s: "rotate180 m = Some s" "area_wf s" "picture s = p_turn (p_turn (picture m))"
    using rotate180.refines [OF assms(1)] by blast
  obtain w where w: "rotate270 m = Some w" "area_wf w" "picture w = p_turn (p_turn (p_turn (picture m)))"
    using rotate270.refines [OF assms(1)] by blast
  have "rotate90 e = Some s"
    using area_op_agree [OF area_ops(3,3,4) assms(1)] e s by simp
  moreover have "rotate90 s = Some w"
    using area_op_agree [OF area_ops(4,3,5) assms(1)] s w by simp
  moreover have "centred e" using centred_rotate90 assms e by blast
  ultimately have "centred e" "centred s" using centred_rotate90 e(2) by blast+
  then show ?thesis
    using e s w p_marks_turn [OF assms(2)] p_marks_turn [of e] p_marks_turn [of s]
    by (auto simp: marks_turned_def marks_def)
qed

lemma turned_reflections:
  assumes "area_wf m" and "centred m"
  shows "\<exists>f g. flip m = Some f \<and> mirror m = Some g \<and>
    marks_turned m DIRECTION_SOUTHWEST f \<and> marks_turned m DIRECTION_NORTHEAST g"
  using flip.refines [OF assms(1)] mirror.refines [OF assms(1)] p_marks_flip [OF assms(2)]
    p_marks_mirror [OF assms(2)]
  by (auto simp: marks_turned_def marks_def)

lemma marks_turned_refl: "marks_turned m DIRECTION_NORTH m" "marks_turned m DIRECTION_NORTHWEST m"
  by (simp_all add: marks_turned_def)

lemma marks_turned_southeast:
  "marks_turned m DIRECTION_SOUTH s \<Longrightarrow> marks_turned m DIRECTION_SOUTHEAST s"
  by (simp add: marks_turned_def)

lemma setupArea_areas:
  assumes "createArea vec rows = Some m" and "area_wf m" and "centred m"
    and "ac_areas ac = [] \<or> 4 \<le> length (ac_areas ac)"
  shows "\<exists>ac'. setupArea vec rows ac = Some ac' \<and> ac_hasExtArea ac' = ac_hasExtArea ac \<and>
    length (ac_areas ac') = max 4 (length (ac_areas ac)) \<and>
    (\<forall>d \<in> straight. marks_turned m d (ac_areas ac' ! unat (direction_code d)))"
proof -
  obtain e s w where "rotate90 m = Some e" "rotate180 m = Some s" "rotate270 m = Some w"
    "marks_turned m DIRECTION_EAST e" "marks_turned m DIRECTION_SOUTH s" "marks_turned m DIRECTION_WEST w"
    using turned_rotations [OF assms(2,3)] by blast
  with assms show ?thesis
    by (auto simp: setupArea_def put_area_def resize_areas_def straight_def marks_turned_refl max_def Let_def
        nth_list_update)
qed

lemma setupExtArea_areas:
  assumes "createArea vec rows = Some m" and "area_wf m" and "centred m" and "vec \<noteq> []"
  shows "\<exists>ac'. setupExtArea vec rows ac = Some ac' \<and> ac_hasExtArea ac' \<and> length (ac_areas ac') = 8 \<and>
    (\<forall>d. d \<notin> straight \<longrightarrow> d \<noteq> DIRECTION_NONE \<longrightarrow> marks_turned m d (ac_areas ac' ! unat (direction_code d))) \<and>
    (\<forall>d \<in> straight. unat (direction_code d) < length (ac_areas ac) \<longrightarrow>
      ac_areas ac' ! unat (direction_code d) = ac_areas ac ! unat (direction_code d))"
proof -
  obtain f g where fg: "flip m = Some f" "mirror m = Some g"
    "marks_turned m DIRECTION_SOUTHWEST f" "marks_turned m DIRECTION_NORTHEAST g"
    using turned_reflections [OF assms(2,3)] by blast
  obtain s where s: "rotate180 m = Some s" "marks_turned m DIRECTION_SOUTHEAST s"
    using turned_rotations [OF assms(2,3)] marks_turned_southeast by blast
  define areas where "areas = resize_areas 8 (ac_areas ac)"
  have len: "length areas = 8" by (simp add: areas_def resize_areas_def)
  have "setupExtArea vec rows ac =
      Some (ac\<lparr>ac_areas := areas[7 := g, 4 := f, 5 := s, 6 := m], ac_hasExtArea := True\<rparr>)"
    using assms fg s len by (simp add: setupExtArea_def put_area_def areas_def [symmetric])
  moreover have "marks_turned m d (areas[7 := g, 4 := f, 5 := s, 6 := m] ! unat (direction_code d))"
    if "d \<notin> straight" "d \<noteq> DIRECTION_NONE" for d
    using that len fg s by (cases d) (simp_all add: straight_def marks_turned_refl)
  moreover have "areas[7 := g, 4 := f, 5 := s, 6 := m] ! unat (direction_code d) = ac_areas ac ! unat (direction_code d)"
    if "d \<in> straight" "unat (direction_code d) < length (ac_areas ac)" for d
    using that len by (cases d) (simp_all add: straight_def areas_def resize_areas_def nth_append)
  ultimately show ?thesis using len by simp
qed

text \<open>Where the pattern looks: the signs of the offsets, the column before the row if there are no diagonals.\<close>

lemma area_direction_signs:
  "dir_x (area_direction ext dx dy) = sgn dx"
  "dir_y (area_direction ext dx dy) =
     (if dx = 0 \<and> dy = 0 then 1 else if ext \<or> dx = 0 then sgn dy else 0)"
  by (auto simp: area_direction_def Let_def)

lemma straight_iff: "d \<noteq> DIRECTION_NONE \<Longrightarrow> d \<in> straight \<longleftrightarrow> dir_x d = 0 \<or> dir_y d = 0"
  by (cases d) (simp_all add: straight_def)

lemma direction_code_below: "d \<noteq> DIRECTION_NONE \<Longrightarrow> unat (direction_code d) < (if d \<in> straight then 4 else 8)"
  by (cases d) (simp_all add: straight_def)

lemma area_direction_some: "area_direction ext dx dy \<noteq> DIRECTION_NONE"
  by (simp add: area_direction_def Let_def)

lemma area_direction_straight: "area_direction False dx dy \<in> straight"
  by (simp add: area_direction_def Let_def straight_def)

text \<open>
  C7: whatever the tables, no operation leaves an array, and the matrix that \<open>getArea\<close> selects is the
  pattern of the table turned about its centre towards the target.  After \<open>setupArea\<close> alone the pattern
  looks east or west according to the sign of the column offset, and north or south only within the
  centre's column; after \<open>setupExtArea\<close> it looks to the signs of both offsets, the second table
  (reflected) serving the diagonals.  A target in the centre itself is looked at from the north.
\<close>

theorem getArea_is_turned_pattern:
  assumes "length vec = unat rows * C" and "0 < C" and "0 < rows" and "length vec < 4294967296"
    and "length vec2 = unat rows2 * C2" and "0 < C2" and "0 < rows2" and "length vec2 < 4294967296"
  shows "\<exists>m m2 ac1 ac. createArea vec rows = Some m \<and> createArea vec2 rows2 = Some m2 \<and>
    setupArea vec rows area_combat_init = Some ac1 \<and> setupExtArea vec2 rows2 ac1 = Some ac \<and>
    (\<forall>center target. \<exists>d.
      dir_x d = sgn (getX target - getX center) \<and>
      dir_y d = (if getX target \<noteq> getX center then 0 else if getY target < getY center then -1 else 1) \<and>
      marks_turned m d (getArea ac1 center target)) \<and>
    (\<forall>center target. \<exists>d.
      dir_x d = sgn (getX target - getX center) \<and>
      dir_y d = (if getX target = getX center \<and> getY target = getY center then 1
        else sgn (getY target - getY center)) \<and>
      marks_turned (if dir_x d = 0 \<or> dir_y d = 0 then m else m2) d (getArea ac center target))"
proof -
  obtain m where m: "createArea vec rows = Some m" "area_wf m" "centred m"
    using createArea_centred assms by blast
  obtain m2 where m2: "createArea vec2 rows2 = Some m2" "area_wf m2" "centred m2"
    using createArea_centred assms by blast
  have "vec2 \<noteq> []" using assms(5,6,7) by (auto simp: word_less_nat_alt)
  obtain ac1 where ac1: "setupArea vec rows area_combat_init = Some ac1" "\<not> ac_hasExtArea ac1"
    "length (ac_areas ac1) = 4" "\<forall>d \<in> straight. marks_turned m d (ac_areas ac1 ! unat (direction_code d))"
    using setupArea_areas [OF m, of area_combat_init] by (auto simp: area_combat_init_def)
  obtain ac where ac: "setupExtArea vec2 rows2 ac1 = Some ac" "ac_hasExtArea ac" "length (ac_areas ac) = 8"
    "\<forall>d. d \<notin> straight \<longrightarrow> d \<noteq> DIRECTION_NONE \<longrightarrow> marks_turned m2 d (ac_areas ac ! unat (direction_code d))"
    "\<forall>d \<in> straight. unat (direction_code d) < length (ac_areas ac1) \<longrightarrow>
      ac_areas ac ! unat (direction_code d) = ac_areas ac1 ! unat (direction_code d)"
    using setupExtArea_areas [OF m2 \<open>vec2 \<noteq> []\<close>] by blast
  have "\<exists>d. dir_x d = sgn (getX t - getX c) \<and>
      dir_y d = (if getX t \<noteq> getX c then 0 else if getY t < getY c then -1 else 1) \<and>
      marks_turned m d (getArea ac1 c t)" for c t
  proof -
    define d where "d = area_direction False (getOffsetX t c) (getOffsetY t c)"
    have "d \<in> straight" "d \<noteq> DIRECTION_NONE"
      by (simp_all add: d_def area_direction_straight area_direction_some)
    then have "marks_turned m d (getArea ac1 c t)"
      using ac1 direction_code_below [of d] by (simp add: getArea_def d_def Let_def)
    then show ?thesis
      by (intro exI [of _ d])
        (auto simp: d_def area_direction_signs getOffsetX_def getOffsetY_def sgn_if)
  qed
  moreover have "\<exists>d. dir_x d = sgn (getX t - getX c) \<and>
      dir_y d = (if getX t = getX c \<and> getY t = getY c then 1 else sgn (getY t - getY c)) \<and>
      marks_turned (if dir_x d = 0 \<or> dir_y d = 0 then m else m2) d (getArea ac c t)" for c t
  proof -
    define d where "d = area_direction True (getOffsetX t c) (getOffsetY t c)"
    have some: "d \<noteq> DIRECTION_NONE" by (simp add: d_def area_direction_some)
    then have "marks_turned (if d \<in> straight then m else m2) d (getArea ac c t)"
      using ac ac1 direction_code_below [of d]
      by (auto simp: getArea_def Let_def simp flip: d_def split: if_splits)
    then show ?thesis
      unfolding straight_iff [OF some]
      by (intro exI [of _ d]) (auto simp: d_def area_direction_signs getOffsetX_def getOffsetY_def)
  qed
  ultimately show ?thesis using m m2 ac1 ac by blast
qed

theorem getArea_is_turned_pattern_witness:
  "\<exists>m m2 ac1 ac. createArea [0, 1, 1, 3, 1, 1] 2 = Some m \<and> createArea [1, 0, 0, 3] 2 = Some m2 \<and>
    setupArea [0, 1, 1, 3, 1, 1] 2 area_combat_init = Some ac1 \<and> setupExtArea [1, 0, 0, 3] 2 ac1 = Some ac \<and>
    (\<forall>center target. \<exists>d.
      dir_x d = sgn (getX target - getX center) \<and>
      dir_y d = (if getX target \<noteq> getX center then 0 else if getY target < getY center then -1 else 1) \<and>
      marks_turned m d (getArea ac1 center target)) \<and>
    (\<forall>center target. \<exists>d.
      dir_x d = sgn (getX target - getX center) \<and>
      dir_y d = (if getX target = getX center \<and> getY target = getY center then 1
        else sgn (getY target - getY center)) \<and>
      marks_turned (if dir_x d = 0 \<or> dir_y d = 0 then m else m2) d (getArea ac center target))"
  by (rule getArea_is_turned_pattern [where C = 3 and ?C2.0 = 2]) simp_all
text \<open>A table whose length is no multiple of the rows is written past the end of the matrix.\<close>

lemma createArea_ragged: "createArea [0, 0, 0, 0, 1] 2 = None"
  by code_simp

subsection \<open>The shape of a cone\<close>

lemma nth_concat_rows:
  "\<forall>ys \<in> set yss. length ys = C \<Longrightarrow> r < length yss \<Longrightarrow> c < C \<Longrightarrow> concat yss ! (r * C + c) = yss ! r ! c"
proof (induction yss arbitrary: r)
  case (Cons ys yss)
  then show ?case by (cases r) (auto simp: nth_append algebra_simps)
qed simp

lemma filter_unique:
  "j < n \<Longrightarrow> (\<And>i. i < n \<Longrightarrow> P i \<longleftrightarrow> i = j) \<Longrightarrow> filter P [0..<n] = [j]"
proof -
  assume j: "j < n" and P: "\<And>i. i < n \<Longrightarrow> P i \<longleftrightarrow> i = j"
  have "[0..<n] = [0..<j] @ j # [Suc j..<n]"
    using j upt_add_eq_append [of 0 j "n - j"] by (simp add: upt_conv_Cons)
  moreover have "filter P [0..<j] = []" "filter P [Suc j..<n] = []" "P j"
    using j P by (auto simp: filter_empty_conv)
  ultimately show ?thesis by simp
qed

definition wave_cell :: "nat \<Rightarrow> int \<Rightarrow> int \<Rightarrow> nat \<Rightarrow> int \<Rightarrow> u32" where
  "wave_cell rows cols spread y x =
     (if y = rows \<and> x = cols div 2 + 1 then 3
      else if (int y - 1) div spread < x \<and> x \<le> cols - (int y - 1) div spread then 1 else 0)"

lemma div_pred:
  assumes "0 < (s :: int)"
  shows "y div s = (y - 1) div s + (if y mod s = 0 then 1 else 0)"
proof (cases "y mod s = 0")
  case True
  then have "y - 1 = s * (y div s - 1) + (s - 1)"
    using mult_div_mod_eq [of s y] by (simp add: algebra_simps)
  then have "(y - 1) div s = y div s - 1"
    using assms int_div_pos_eq [of "y - 1" s "y div s - 1" "s - 1"] by simp
  with True show ?thesis by simp
next
  case False
  then have "y - 1 = s * (y div s) + (y mod s - 1)"
    using mult_div_mod_eq [of s y] by simp
  moreover have "0 \<le> y mod s - 1" "y mod s - 1 < s"
    using False pos_mod_bound [OF assms, of y] pos_mod_sign [OF assms, of y] by linarith+
  ultimately have "(y - 1) div s = y div s" by (intro int_div_pos_eq) auto
  with False show ?thesis by simp
qed

lemma truncated_div:
  assumes "0 \<le> (a :: int)" and "0 < b"
  shows "(a - a smod b) sdiv b = a div b"
proof -
  define q where "q = a div b"
  have q: "0 \<le> q" using assms by (simp add: q_def pos_imp_zdiv_nonneg_iff)
  have "a smod b = a mod b" using assms by (simp add: signed_modulo_int_def sgn_if)
  then have "a - a smod b = b * q" by (simp add: q_def minus_mod_eq_mult_div)
  then show ?thesis
    using q assms by (cases "q = 0") (simp_all add: signed_divide_int_def sgn_if q_def)
qed

lemma wave_rows_cells:
  assumes "0 \<le> spread" and "0 < cols"
  shows "wave_rows rows cols spread (cols - (int y - 1) div spread) [y..<y + n] =
    concat (map (\<lambda>y. map (wave_cell rows cols spread y) [1..cols]) [y..<y + n])"
proof (induction n arbitrary: y)
  case (Suc n)
  have mid: "(cols - cols smod 2) sdiv 2 = cols div 2"
    using assms(2) by (intro truncated_div) simp_all
  have next_row: "(if 0 < spread \<and> int y mod spread = 0 then cols - (int y - 1) div spread - 1
      else cols - (int y - 1) div spread) = cols - (int (Suc y) - 1) div spread"
    using assms(1) div_pred [of spread "int y"] by (cases "spread = 0") auto
  have "wave_rows rows cols spread (cols - (int y - 1) div spread) [y..<y + Suc n] =
      map (wave_cell rows cols spread y) [1..cols] @
      wave_rows rows cols spread (cols - (int (Suc y) - 1) div spread) [Suc y..<Suc y + n]"
    unfolding next_row [symmetric] by (simp add: upt_conv_Cons wave_cell_def [abs_def] Let_def mid)
  with Suc [of "Suc y"] show ?case by (simp add: upt_conv_Cons del: upt_Suc)
qed simp

text \<open>
  The area of \<open>setupArea(length, spread)\<close>, looking north: its rows are the \<open>length\<close> squares in front
  of and including the caster's own, which is the centre, and the row at distance \<open>d\<close> is marked as far as
  \<open>mid - (length - 1 - d) div spread\<close> to either side, where \<open>mid = length div spread\<close>.
\<close>

theorem wave_shape:
  assumes "0 < len" and "0 < spread" and "cols = (len div spread) * 2 + 1" and "len * cols < 4294967296"
    and "i32_ok cols"
  shows "\<exists>m. createArea (wave_rows (nat len) cols spread cols [1..<nat len + 1]) (of_nat (nat len)) = Some m \<and>
    setupArea_wave len spread ac = setupArea (wave_rows (nat len) cols spread cols [1..<nat len + 1]) (of_nat (nat len)) ac \<and>
    area_wf m \<and> ma_center m = (of_int (len div spread), of_int (len - 1)) \<and>
    (\<forall>dx dy. marks m dx dy \<longleftrightarrow> - len < dy \<and> dy \<le> 0 \<and>
      (\<bar>dx\<bar> \<le> len div spread - (len - 1 + dy) div spread \<or> dx = 0 \<and> dy = 0))"
proof -
  define L where "L = nat len"
  define C where "C = nat cols"
  define vec where "vec = wave_rows L cols spread cols [1..<L + 1]"
  have L: "int L = len" "0 < L" and C: "int C = cols" "0 < C"
    using assms pos_imp_zdiv_nonneg_iff [of spread len] by (auto simp: L_def C_def)
  have vec: "vec = concat (map (\<lambda>y. map (wave_cell L cols spread y) [1..cols]) [1..<L + 1])"
    using wave_rows_cells [of spread cols L 1 L] assms C by (simp add: vec_def add.commute)
  have rowlen: "length (map f [1..cols]) = C" for f :: "int \<Rightarrow> u32" by (simp add: C_def)
  have len: "length vec = L * C"
    unfolding vec length_concat map_map comp_def rowlen by (simp add: sum_list_triv)
  have nth: "vec ! (r * C + c) = wave_cell L cols spread (r + 1) (int c + 1)" if "r < L" "c < C" for r c
  proof -
    have "vec ! (r * C + c) = map (wave_cell L cols spread (r + 1)) [1..cols] ! c"
      unfolding vec using that rowlen by (subst nth_concat_rows [where C = C]) (auto simp del: upt_Suc)
    also have "\<dots> = wave_cell L cols spread (r + 1) (int c + 1)"
      using that C by (simp add: nth_upto add.commute)
    finally show ?thesis .
  qed
  have "int (length vec) < 4294967296" using assms(4) unfolding len by (simp add: L C)
  then have small: "length vec < 4294967296" by linarith
  moreover have "L \<le> length vec" "C \<le> length vec" using len L(2) C(2) by simp_all
  ultimately have uL: "unat (of_nat L :: u32) = L" and uC: "unat (of_nat C :: u32) = C"
    by (simp_all add: unat_of_nat_u32)
  have "(0 :: u32) < of_nat L" using L(2) uL by (simp add: word_less_nat_alt)
  then obtain m where m: "createArea vec (of_nat L) = Some m" "area_wf m" "ma_rows m = of_nat L" "ncols m = C"
    "\<forall>r < L. \<forall>c < C. cell m r c \<longleftrightarrow> vec ! (r * C + c) \<in> {1, 3}"
    "ma_center m = (case filter (\<lambda>j. vec ! j \<in> {2, 3}) [0..<length vec] of [] \<Rightarrow> (0, 0)
      | js \<Rightarrow> (of_nat (last js mod C), of_nat (last js div C)))"
    using createArea_spec [of vec "of_nat L" C] len C(2) small uL by auto
  define mid where "mid = nat (len div spread)"
  have mid: "int mid = len div spread" "mid < C" "C = 2 * mid + 1"
    using assms C by (auto simp: mid_def pos_imp_zdiv_nonneg_iff nat_add_distrib nat_mult_distrib)
  have "filter (\<lambda>j. vec ! j \<in> {2, 3}) [0..<length vec] = [(L - 1) * C + mid]"
  proof (rule filter_unique)
    show "(L - 1) * C + mid < length vec" using flat_less [of "L - 1" L mid C] L mid len by simp
    fix i assume "i < length vec"
    then obtain r c where i: "r < L" "c < C" "i = r * C + c" using flat_split len by metis
    have "cols div 2 = int mid" "r + 1 = L \<longleftrightarrow> r = L - 1" using mid(3) C(1) L(2) by linarith+
    then have "vec ! i \<in> {2, 3} \<longleftrightarrow> r = L - 1 \<and> c = mid"
      unfolding i(3) nth [OF i(1,2)] wave_cell_def by simp
    moreover have "i = (L - 1) * C + mid \<longleftrightarrow> r = L - 1 \<and> c = mid"
      unfolding i(3) by (rule flat_inject [OF i(2) mid(2)])
    ultimately show "vec ! i \<in> {2, 3} \<longleftrightarrow> i = (L - 1) * C + mid" by simp
  qed
  then have ctr: "ma_center m = (of_nat mid, of_nat (L - 1))" using m(6) mid(2) C(2) by simp
  have marks: "marks m dx dy \<longleftrightarrow> - len < dy \<and> dy \<le> 0 \<and>
      (\<bar>dx\<bar> \<le> len div spread - (len - 1 + dy) div spread \<or> dx = 0 \<and> dy = 0)" for dx dy
  proof -
    have "mid < 4294967296" "L - 1 < 4294967296"
      using mid(2) \<open>L \<le> length vec\<close> \<open>C \<le> length vec\<close> small by linarith+
    then have "unat (of_nat mid :: u32) = mid" "unat (of_nat (L - 1) :: u32) = L - 1"
      by (simp_all only: unat_of_nat_u32)
    then have "uint (of_nat mid :: u32) = int mid" "uint (of_nat (L - 1) :: u32) = len - 1"
      unfolding uint_nat using L by simp_all
    then have marks: "marks m dx dy \<longleftrightarrow> 0 \<le> len - 1 + dy \<and> 0 \<le> int mid + dx \<and>
        nat (len - 1 + dy) < L \<and> nat (int mid + dx) < C \<and> cell m (nat (len - 1 + dy)) (nat (int mid + dx))"
      using m(3,4) uL by (simp add: marks_def picture_def ctr)
    have cell: "cell m (nat (len - 1 + dy)) (nat (int mid + dx)) \<longleftrightarrow>
        (\<bar>dx\<bar> \<le> len div spread - (len - 1 + dy) div spread \<or> dx = 0 \<and> dy = 0)"
      if "0 \<le> len - 1 + dy" "0 \<le> int mid + dx" "nat (len - 1 + dy) < L" "nat (int mid + dx) < C"
    proof -
      define q where "q = (len - 1 + dy) div spread"
      have cols: "cols div 2 = int mid" "cols = 2 * int mid + 1" using mid C by linarith+
      have y: "int (nat (len - 1 + dy) + 1) - 1 = len - 1 + dy" "nat (len - 1 + dy) + 1 = L \<longleftrightarrow> dy = 0"
        and x: "int (nat (int mid + dx)) + 1 = int mid + dx + 1"
        using that L by linarith+
      have "q < int mid + dx + 1 \<and> int mid + dx + 1 \<le> 2 * int mid + 1 - q \<longleftrightarrow> \<bar>dx\<bar> \<le> int mid - q"
        by linarith
      then have "wave_cell L cols spread (nat (len - 1 + dy) + 1) (int (nat (int mid + dx)) + 1) =
          (if dy = 0 \<and> dx = 0 then 3 else if \<bar>dx\<bar> \<le> int mid - q then 1 else 0)"
        unfolding wave_cell_def x y cols(1) unfolding q_def [symmetric] cols(2) by simp
      moreover have "cell m (nat (len - 1 + dy)) (nat (int mid + dx)) \<longleftrightarrow>
          wave_cell L cols spread (nat (len - 1 + dy) + 1) (int (nat (int mid + dx)) + 1) \<in> {1, 3}"
        unfolding nth [OF that(3,4), symmetric] using m(5) that(3,4) by blast
      ultimately show ?thesis unfolding mid(1) [symmetric] q_def [symmetric] by auto
    qed
    have bounds: "0 \<le> len - 1 + dy \<and> 0 \<le> int mid + dx \<and> nat (len - 1 + dy) < L \<and> nat (int mid + dx) < C
        \<longleftrightarrow> - len < dy \<and> dy \<le> 0 \<and> \<bar>dx\<bar> \<le> int mid"
      using mid(3) L by linarith
    have "0 \<le> (len - 1 + dy) div spread" if "- len < dy"
      using that assms(2) by (simp add: pos_imp_zdiv_nonneg_iff)
    then have "\<bar>dx\<bar> \<le> int mid" if "- len < dy"
      "\<bar>dx\<bar> \<le> len div spread - (len - 1 + dy) div spread \<or> dx = 0 \<and> dy = 0"
      using that mid(1) by force
    then show ?thesis
      unfolding marks using cell bounds by blast
  qed
  have wave: "setupArea_wave len spread ac = setupArea vec (of_nat L) ac"
    using assms truncated_div [of len spread]
    by (simp add: setupArea_wave_def vec_def L_def Let_def del: upt_Suc)
  have "ma_center m = (of_int (len div spread), of_int (len - 1))"
    using ctr L(2) unfolding mid(1) [symmetric] unfolding L(1) [symmetric]
    by (simp add: of_nat_diff)
  with m(1,2) show ?thesis
    unfolding L_def [symmetric] vec_def [symmetric]
    by (intro exI [of _ m] conjI allI wave marks)
qed

theorem wave_shape_witness:
  "\<exists>m. createArea (wave_rows (nat 8) 5 3 5 [1..<nat 8 + 1]) (of_nat (nat 8)) = Some m \<and>
    setupArea_wave 8 3 area_combat_init =
      setupArea (wave_rows (nat 8) 5 3 5 [1..<nat 8 + 1]) (of_nat (nat 8)) area_combat_init \<and>
    area_wf m \<and> ma_center m = (of_int (8 div 3), of_int (8 - 1)) \<and>
    (\<forall>dx dy. marks m dx dy \<longleftrightarrow> - 8 < dy \<and> dy \<le> 0 \<and>
      (\<bar>dx\<bar> \<le> 8 div 3 - (8 - 1 + dy) div 3 \<or> dx = 0 \<and> dy = 0))"
  by (rule wave_shape) (simp_all add: i32_ok_def)

end
