(* ===== verification/Wildcard_Tree.thy ===== *)
theory Wildcard_Tree
  imports Return_Values "HOL-Library.AList" "HOL-Library.Sublist"
begin

text \<open>
  The prefix tree over the names of the players online (\<open>wildcardtree.h\<close>, \<open>wildcardtree.cpp\<close>) that
  answers queries such as \<open>jo~\<close>.  A tree means a set of names (\<open>holds\<close>); inserting, removing and
  searching are shown to implement the operations on that set, and a search to find the one name
  with the given prefix or to report that there is none or more than one.
\<close>

subsection \<open>The tree and its operations\<close>

text \<open>
  The \<open>std::map\<close> from characters to nodes is an association list with distinct keys; the code only ever
  looks a character up or visits the entry of a map with a single one, so the order is not observable.
\<close>

datatype wtree = WNode (breakpoint: bool) (children: "(char \<times> wtree) list")

fun getChild :: "char \<Rightarrow> wtree \<Rightarrow> wtree option" where
  "getChild ch (WNode b cs) = map_of cs ch"

fun setChild :: "char \<Rightarrow> wtree \<Rightarrow> wtree \<Rightarrow> wtree" where
  "setChild ch child (WNode b cs) = WNode b (AList.update ch child cs)"

fun eraseChild :: "char \<Rightarrow> wtree \<Rightarrow> wtree" where
  "eraseChild ch (WNode b cs) = WNode b (AList.delete ch cs)"

fun setBreakpoint :: "bool \<Rightarrow> wtree \<Rightarrow> wtree" where
  "setBreakpoint b (WNode _ cs) = WNode b cs"

text \<open>\<open>addChild\<close> returns a pointer to the child; its value is the child after the call.\<close>

definition addChild :: "char \<Rightarrow> bool \<Rightarrow> wtree \<Rightarrow> wtree" where
  "addChild ch bp node = (case getChild ch node of
       Some child \<Rightarrow> (if bp \<and> \<not> breakpoint child then setBreakpoint True child else child)
     | None \<Rightarrow> WNode bp [])"

text \<open>
  The loop of \<open>insert\<close> descends with \<open>cur\<close>; the changed children are put back on the way up.  For the
  empty name the unsigned \<open>length - 1\<close> wraps and the loop runs off the string: \<open>None\<close>.
\<close>

fun tree_insert :: "string \<Rightarrow> wtree \<Rightarrow> wtree option" where
  "tree_insert [] cur = None"
| "tree_insert [ch] cur = Some (setChild ch (addChild ch True cur) cur)"
| "tree_insert (ch # ch' # str) cur =
     (case tree_insert (ch' # str) (addChild ch False cur) of
        None \<Rightarrow> None
      | Some child \<Rightarrow> Some (setChild ch child cur))"

text \<open>
  \<open>remove_path\<close> is \<open>None\<close> where the name leaves the tree, the early return.  On the way up a node with
  children or a name of its own stops the deletion; its ancestors then have a child and stop it too.
\<close>

fun remove_path :: "string \<Rightarrow> wtree \<Rightarrow> wtree option" where
  "remove_path [] cur = Some (setBreakpoint False cur)"
| "remove_path (ch # str) cur = (case getChild ch cur of
       None \<Rightarrow> None
     | Some child \<Rightarrow> (case remove_path str child of
           None \<Rightarrow> None
         | Some child \<Rightarrow> Some (if children child \<noteq> [] \<or> breakpoint child then setChild ch child cur
                               else eraseChild ch cur)))"

definition tree_remove :: "string \<Rightarrow> wtree \<Rightarrow> wtree" where
  "tree_remove str root = (case remove_path str root of None \<Rightarrow> root | Some root' \<Rightarrow> root')"

fun descend :: "string \<Rightarrow> wtree \<Rightarrow> wtree option" where
  "descend [] cur = Some cur"
| "descend (ch # str) cur = (case getChild ch cur of None \<Rightarrow> None | Some child \<Rightarrow> descend str child)"

fun complete :: "wtree \<Rightarrow> string \<Rightarrow> ReturnValue \<times> string" where
  "complete (WNode bp cs) result = (case cs of
       [] \<Rightarrow> (RETURNVALUE_NOERROR, result)
     | [(ch, child)] \<Rightarrow> (if bp then (RETURNVALUE_NAMEISTOOAMBIGUOUS, result)
                         else complete child (result @ [ch]))
     | _ \<Rightarrow> (RETURNVALUE_NAMEISTOOAMBIGUOUS, result))"

definition findOne :: "string \<Rightarrow> wtree \<Rightarrow> string \<Rightarrow> ReturnValue \<times> string" where
  "findOne query root result = (case descend query root of
       None \<Rightarrow> (RETURNVALUE_PLAYERWITHTHISNAMEISNOTONLINE, result)
     | Some cur \<Rightarrow> complete cur query)"

definition wildcard_root :: wtree where
  "wildcard_root = WNode False []"

subsection \<open>The set of names a tree holds\<close>

fun holds :: "wtree \<Rightarrow> string \<Rightarrow> bool" where
  "holds t [] = breakpoint t"
| "holds t (ch # str) = (case getChild ch t of None \<Rightarrow> False | Some child \<Rightarrow> holds child str)"

definition live :: "wtree \<Rightarrow> bool" where
  "live t \<longleftrightarrow> breakpoint t \<or> children t \<noteq> []"

fun tree_wf :: "wtree \<Rightarrow> bool" where
  "tree_wf (WNode bp cs) \<longleftrightarrow> distinct (map fst cs) \<and> (\<forall>(ch, child) \<in> set cs. tree_wf child \<and> live child)"

lemma tree_wf_iff:
  "tree_wf t \<longleftrightarrow> distinct (map fst (children t)) \<and>
     (\<forall>ch child. getChild ch t = Some child \<longrightarrow> tree_wf child \<and> live child)"
  by (cases t) (auto simp: map_of_eq_Some_iff)

lemma wtree_simps [simp]:
  "getChild c (setChild ch child t) = (if c = ch then Some child else getChild c t)"
  "getChild c (setBreakpoint b t) = getChild c t"
  "breakpoint (setChild ch child t) = breakpoint t"
  "breakpoint (eraseChild ch t) = breakpoint t"
  "breakpoint (setBreakpoint b t) = b"
  "children (setBreakpoint b t) = children t"
  "children (setChild ch child t) = AList.update ch child (children t)"
  "children (eraseChild ch t) = AList.delete ch (children t)"
  "getChild c (eraseChild ch t) = (if c = ch then None else getChild c t)"
  by (cases t; simp add: update_conv' delete_conv' restrict_map_def)+

lemma holds_setBreakpoint [simp]:
  "holds (setBreakpoint b t) x = (case x of [] \<Rightarrow> b | _ \<Rightarrow> holds t x)"
  by (cases x) simp_all

lemma tree_wf_setBreakpoint [simp]: "tree_wf (setBreakpoint b t) = tree_wf t"
  by (cases t) simp

lemma tree_wf_setChild:
  "tree_wf t \<Longrightarrow> tree_wf child \<Longrightarrow> live child \<Longrightarrow> tree_wf (setChild ch child t)"
  by (simp add: tree_wf_iff [of t] tree_wf_iff [of "setChild ch child t"] distinct_update)

lemma tree_wf_eraseChild: "tree_wf t \<Longrightarrow> tree_wf (eraseChild ch t)"
  by (simp add: tree_wf_iff [of t] tree_wf_iff [of "eraseChild ch t"] distinct_delete)

lemma live_setChild [simp]: "live (setChild ch child t)"
  by (cases t) (metis live_def update_nonempty wtree.sel(2) setChild.simps)

lemma tree_wf_getChild: "tree_wf t \<Longrightarrow> getChild ch t = Some child \<Longrightarrow> tree_wf child \<and> live child"
  by (simp add: tree_wf_iff [of t])

lemma holds_addChild:
  "holds (addChild ch b t) x \<longleftrightarrow> b \<and> x = [] \<or> holds t (ch # x)"
  by (cases x) (auto simp: addChild_def split: option.split)

lemma tree_wf_addChild: "tree_wf t \<Longrightarrow> tree_wf (addChild ch b t)"
  using tree_wf_getChild by (auto simp: addChild_def split: option.split)

lemma tree_insert_correct:
  assumes "str \<noteq> []" and "tree_wf t"
  shows "\<exists>t'. tree_insert str t = Some t' \<and> tree_wf t' \<and> live t' \<and> (\<forall>x. holds t' x \<longleftrightarrow> x = str \<or> holds t x)"
  using assms
proof (induction str t rule: tree_insert.induct)
  case (2 ch cur)
  have "live (addChild ch True cur)" by (auto simp: addChild_def live_def split: option.split)
  moreover have "holds (setChild ch (addChild ch True cur) cur) x \<longleftrightarrow> x = [ch] \<or> holds cur x" for x
    by (cases x) (auto simp: holds_addChild)
  ultimately show ?case using 2 by (simp add: tree_wf_setChild tree_wf_addChild)
next
  case (3 ch ch' str cur)
  then obtain child where child: "tree_insert (ch' # str) (addChild ch False cur) = Some child"
    "tree_wf child" "live child" "\<And>x. holds child x \<longleftrightarrow> x = ch' # str \<or> holds (addChild ch False cur) x"
    using tree_wf_addChild by blast
  have "holds (setChild ch child cur) x \<longleftrightarrow> x = ch # ch' # str \<or> holds cur x" for x
    by (cases x) (auto simp: child(4) holds_addChild)
  with 3 child show ?case by (simp add: tree_wf_setChild)
qed simp

lemma remove_path_correct:
  assumes "tree_wf t"
  shows "case remove_path str t of
      None \<Rightarrow> \<not> holds t str
    | Some t' \<Rightarrow> tree_wf t' \<and> (\<forall>x. holds t' x \<longleftrightarrow> x \<noteq> str \<and> holds t x)"
  using assms
proof (induction str arbitrary: t)
  case Nil
  then show ?case by (auto split: list.split)
next
  case (Cons ch str)
  show ?case
  proof (cases "getChild ch t")
    case None
    then show ?thesis by simp
  next
    case (Some child)
    with Cons.prems have child: "tree_wf child" using tree_wf_getChild by blast
    show ?thesis
    proof (cases "remove_path str child")
      case None
      then show ?thesis using Cons.IH [OF child] Some by simp
    next
      case (Some child')
      with Cons.IH [OF child] have wf': "tree_wf child'"
        and holds': "\<And>x. holds child' x \<longleftrightarrow> x \<noteq> str \<and> holds child x" by simp_all
      have dead: "\<not> holds child' x" if "\<not> live child'" for x
        using that by (cases child'; cases x) (auto simp: live_def)
      let ?t = "if live child' then setChild ch child' t else eraseChild ch t"
      have "holds ?t x \<longleftrightarrow> x \<noteq> ch # str \<and> holds t x" for x
      proof (cases x)
        case (Cons c y)
        then show ?thesis
          using \<open>getChild ch t = Some child\<close> holds' [of y] dead [of y] by auto
      qed simp
      moreover have "tree_wf ?t"
        using Cons.prems wf' by (simp add: tree_wf_setChild tree_wf_eraseChild)
      ultimately show ?thesis
        using Some \<open>getChild ch t = Some child\<close> by (simp add: live_def disj_commute)
    qed
  qed
qed

lemma tree_remove_correct:
  "tree_wf t \<Longrightarrow> tree_wf (tree_remove str t) \<and> (\<forall>x. holds (tree_remove str t) x \<longleftrightarrow> x \<noteq> str \<and> holds t x)"
  using remove_path_correct [of t str] by (auto simp: tree_remove_def split: option.splits)

subsection \<open>Searching\<close>

lemma live_holds: "tree_wf t \<Longrightarrow> live t \<Longrightarrow> \<exists>x. holds t x"
proof (induction t)
  case (WNode b cs)
  show ?case
  proof (cases b)
    case True
    then show ?thesis by (intro exI [of _ "[]"]) simp
  next
    case False
    with WNode.prems(2) obtain ch child cs' where cs: "cs = (ch, child) # cs'"
      by (cases cs) (auto simp: live_def)
    with WNode.prems have "tree_wf child" "live child" by auto
    with WNode.IH [of "(ch, child)" child] cs obtain x where "holds child x" by auto
    then show ?thesis using cs by (intro exI [of _ "ch # x"]) simp
  qed
qed

lemma complete_correct:
  assumes "tree_wf t" and "live t"
  shows "(\<exists>s. complete t r = (RETURNVALUE_NOERROR, r @ s) \<and> (\<forall>x. holds t x \<longleftrightarrow> x = s)) \<or>
    (fst (complete t r) = RETURNVALUE_NAMEISTOOAMBIGUOUS \<and> (\<exists>x y. x \<noteq> y \<and> holds t x \<and> holds t y))"
  using assms
proof (induction t r rule: complete.induct)
  case (1 bp cs r)
  consider "cs = []" | ch child where "cs = [(ch, child)]"
    | c1 t1 c2 t2 cs' where "cs = (c1, t1) # (c2, t2) # cs'"
    by (cases cs rule: remdups_adj.cases) auto
  then show ?case
  proof cases
    case 1
    then have "holds (WNode bp cs) x \<longleftrightarrow> x = []" for x
      using "1.prems" by (cases x) (auto simp: live_def)
    with 1 show ?thesis by simp
  next
    case (2 ch child)
    with "1.prems" have child: "tree_wf child" "live child" by auto
    show ?thesis
    proof (cases bp)
      case True
      obtain x where "holds child x" using live_holds child by blast
      then have "holds (WNode bp cs) []" "holds (WNode bp cs) (ch # x)" using 2 True by simp_all
      then show ?thesis using 2 True by (intro disjI2 conjI exI [of _ "[]"] exI [of _ "ch # x"]) simp_all
    next
      case False
      then have h: "holds (WNode bp cs) x \<longleftrightarrow> (\<exists>y. x = ch # y \<and> holds child y)" for x
        using 2 by (cases x) auto
      from "1.IH" [OF 2 refl refl False child] show ?thesis
        using 2 False unfolding h by (auto 0 3)
    qed
  next
    case (3 c1 t1 c2 t2 cs')
    with "1.prems" have "tree_wf t1" "live t1" "tree_wf t2" "live t2" "c1 \<noteq> c2" by auto
    moreover from this obtain x y where "holds t1 x" "holds t2 y" using live_holds by meson
    ultimately have "holds (WNode bp cs) (c1 # x)" "holds (WNode bp cs) (c2 # y)" "c1 # x \<noteq> c2 # y"
      using 3 by simp_all
    then have "\<exists>x y. x \<noteq> y \<and> holds (WNode bp cs) x \<and> holds (WNode bp cs) y" by blast
    then show ?thesis using 3 by (intro disjI2) simp
  qed
qed

lemma descend_correct:
  assumes "tree_wf t"
  shows "case descend q t of None \<Rightarrow> (\<forall>x. \<not> holds t (q @ x))
    | Some u \<Rightarrow> tree_wf u \<and> (\<forall>x. holds u x \<longleftrightarrow> holds t (q @ x)) \<and> (q \<noteq> [] \<longrightarrow> live u) \<and> (q = [] \<longrightarrow> u = t)"
  using assms
proof (induction q t rule: descend.induct)
  case (2 ch str cur)
  show ?case
  proof (cases "getChild ch cur")
    case (Some child)
    then have "tree_wf child" "live child" using tree_wf_getChild 2(2) by blast+
    with 2(1) [OF Some] Some show ?thesis by (cases str) (auto split: option.splits)
  qed simp
qed simp

text \<open>A search finds the one name with the given prefix, or reports that there is none, or that there
  are at least two; an empty query on an empty tree is the one exception.\<close>

lemma findOne_correct:
  assumes "tree_wf t" and "q \<noteq> [] \<or> live t"
  shows "case findOne q t r of (ret, result) \<Rightarrow>
    (ret = RETURNVALUE_NOERROR \<and> prefix q result \<and> {s. holds t s \<and> prefix q s} = {result}) \<or>
    (ret = RETURNVALUE_PLAYERWITHTHISNAMEISNOTONLINE \<and> result = r \<and> {s. holds t s \<and> prefix q s} = {}) \<or>
    (ret = RETURNVALUE_NAMEISTOOAMBIGUOUS \<and> (\<exists>x y. x \<noteq> y \<and> {x, y} \<subseteq> {s. holds t s \<and> prefix q s}))"
proof (cases "descend q t")
  case None
  then have "{s. holds t s \<and> prefix q s} = {}"
    using descend_correct [OF assms(1), of q] by (auto simp: prefix_def)
  with None show ?thesis by (simp add: findOne_def)
next
  case (Some u)
  with descend_correct [OF assms(1), of q] assms(2)
  have u: "tree_wf u" "live u" "\<And>x. holds u x \<longleftrightarrow> holds t (q @ x)" by (cases q; auto)+
  have set: "{s. holds t s \<and> prefix q s} = {q @ x | x. holds u x}"
    using u(3) by (auto simp: prefix_def)
  from complete_correct [OF u(1,2), of q] show ?thesis
  proof (elim disjE exE conjE)
    fix s assume "complete u q = (RETURNVALUE_NOERROR, q @ s)" "\<forall>x. holds u x \<longleftrightarrow> x = s"
    then show ?thesis using Some by (simp add: findOne_def set)
  next
    fix x y assume "fst (complete u q) = RETURNVALUE_NAMEISTOOAMBIGUOUS" "x \<noteq> y" "holds u x" "holds u y"
    then have "\<exists>x y. x \<noteq> y \<and> {x, y} \<subseteq> {q @ x | x. holds u x}"
      by (intro exI [of _ "q @ x"] exI [of _ "q @ y"]) auto
    with \<open>fst (complete u q) = _\<close> show ?thesis
      using Some unfolding set by (cases "complete u q") (simp add: findOne_def)
  qed
qed

lemma findOne_empty: "\<not> live t \<Longrightarrow> findOne [] t r = (RETURNVALUE_NOERROR, [])"
  by (cases t) (auto simp: findOne_def live_def)

subsection \<open>The tree as a set of names\<close>

text \<open>
  What the player registry relies on: a structure that stands for a set of names, and a search that
  answers by prefix.
\<close>

locale name_index =
  fixes ok :: "'t \<Rightarrow> bool" and member :: "'t \<Rightarrow> string \<Rightarrow> bool" and empty_index :: 't
    and add :: "string \<Rightarrow> 't \<Rightarrow> 't option" and del :: "string \<Rightarrow> 't \<Rightarrow> 't"
    and find_one :: "string \<Rightarrow> 't \<Rightarrow> string \<Rightarrow> ReturnValue \<times> string"
  assumes empty: "ok empty_index \<and> (\<forall>x. \<not> member empty_index x)"
    and add: "s \<noteq> [] \<Longrightarrow> ok t \<Longrightarrow> \<exists>t'. add s t = Some t' \<and> ok t' \<and> (\<forall>x. member t' x \<longleftrightarrow> x = s \<or> member t x)"
    and del: "ok t \<Longrightarrow> ok (del s t) \<and> (\<forall>x. member (del s t) x \<longleftrightarrow> x \<noteq> s \<and> member t x)"
    and find: "ok t \<Longrightarrow> q \<noteq> [] \<or> (\<exists>x. member t x) \<Longrightarrow> case find_one q t r of (ret, result) \<Rightarrow>
      (ret = RETURNVALUE_NOERROR \<and> {s. member t s \<and> prefix q s} = {result}) \<or>
      (ret = RETURNVALUE_PLAYERWITHTHISNAMEISNOTONLINE \<and> {s. member t s \<and> prefix q s} = {}) \<or>
      (ret = RETURNVALUE_NAMEISTOOAMBIGUOUS \<and> (\<exists>x y. x \<noteq> y \<and> {x, y} \<subseteq> {s. member t s \<and> prefix q s}))"
    and find_nothing: "ok t \<Longrightarrow> \<forall>x. \<not> member t x \<Longrightarrow> find_one [] t r = (RETURNVALUE_NOERROR, [])"
begin

definition follows :: "'t \<Rightarrow> (string \<rightharpoonup> 'p) \<Rightarrow> bool" where
  "follows t names \<longleftrightarrow> ok t \<and> (\<forall>x. member t x \<longleftrightarrow> x \<in> dom names)"

lemma follows_empty: "follows empty_index Map.empty"
  using empty by (simp add: follows_def)

lemma follows_add: "follows t names \<Longrightarrow> s \<noteq> [] \<Longrightarrow> \<exists>t'. add s t = Some t' \<and> follows t' (names(s \<mapsto> p))"
  using add [of s t] by (fastforce simp: follows_def)

lemma follows_del: "follows t names \<Longrightarrow> follows (del s t) (names(s := None))"
  using del [of t s] by (auto simp: follows_def)

lemma follows_find:
  assumes "follows t names" and "q \<noteq> [] \<or> names \<noteq> Map.empty"
  obtains n where "find_one q t r = (RETURNVALUE_NOERROR, n)" "{s \<in> dom names. prefix q s} = {n}"
  | n where "find_one q t r = (RETURNVALUE_PLAYERWITHTHISNAMEISNOTONLINE, n)" "{s \<in> dom names. prefix q s} = {}"
  | n x y where "find_one q t r = (RETURNVALUE_NAMEISTOOAMBIGUOUS, n)" "x \<noteq> y" "{x, y} \<subseteq> {s \<in> dom names. prefix q s}"
proof -
  have ok: "ok t" and mem: "\<And>x. member t x \<longleftrightarrow> x \<in> dom names" using assms(1) by (auto simp: follows_def)
  have "q \<noteq> [] \<or> (\<exists>x. member t x)" using assms(2) mem by (auto simp: fun_eq_iff)
  from find [OF ok this, of r] show ?thesis
    unfolding mem by (cases "find_one q t r") (auto intro: that)
qed

lemma follows_find_nothing:
  "follows t Map.empty \<Longrightarrow> find_one [] t r = (RETURNVALUE_NOERROR, [])"
  using find_nothing by (simp add: follows_def)

end

interpretation wildcard: name_index tree_wf holds wildcard_root tree_insert tree_remove findOne
proof
  show "tree_wf wildcard_root \<and> (\<forall>x. \<not> holds wildcard_root x)"
  proof (intro conjI allI)
    show "\<not> holds wildcard_root x" for x by (cases x) (simp_all add: wildcard_root_def)
  qed (simp add: wildcard_root_def)
  fix t r and q :: string
  assume t: "tree_wf t"
  show "case findOne q t r of (ret, result) \<Rightarrow>
      (ret = RETURNVALUE_NOERROR \<and> {s. holds t s \<and> prefix q s} = {result}) \<or>
      (ret = RETURNVALUE_PLAYERWITHTHISNAMEISNOTONLINE \<and> {s. holds t s \<and> prefix q s} = {}) \<or>
      (ret = RETURNVALUE_NAMEISTOOAMBIGUOUS \<and> (\<exists>x y. x \<noteq> y \<and> {x, y} \<subseteq> {s. holds t s \<and> prefix q s}))"
    if "q \<noteq> [] \<or> (\<exists>x. holds t x)"
  proof -
    have "q \<noteq> [] \<or> live t"
    proof (rule ccontr)
      assume "\<not> ?thesis"
      then have "\<not> holds t x" for x by (cases t; cases x) (simp_all add: live_def)
      with that \<open>\<not> (q \<noteq> [] \<or> live t)\<close> show False by simp
    qed
    from findOne_correct [OF t this, of r] show ?thesis by (auto split: prod.splits)
  qed
  show "findOne [] t r = (RETURNVALUE_NOERROR, [])" if "\<forall>x. \<not> holds t x"
    using that live_holds [OF t] by (intro findOne_empty) blast
  show "tree_wf (tree_remove s t) \<and> (\<forall>x. holds (tree_remove s t) x \<longleftrightarrow> x \<noteq> s \<and> holds t x)" for s
    by (rule tree_remove_correct [OF t])
  show "\<exists>t'. tree_insert s t = Some t' \<and> tree_wf t' \<and> (\<forall>x. holds t' x \<longleftrightarrow> x = s \<or> holds t x)"
    if "s \<noteq> []" for s using tree_insert_correct [OF that t] by auto
qed

end
