(* ===== verification/Player_Registry.thy ===== *)
theory Player_Registry
  imports Wildcard_Tree Prelude
begin

text \<open>
  The registry of the players online in \<open>Game\<close> (\<open>game.cpp\<close>): the maps from names, guids and creature
  ids to players and the wildcard tree, which \<open>addPlayer\<close> and \<open>removePlayer\<close> change together, and the
  look-ups by id, guid, name and wildcard.  Reachable registries keep the four structures in step, and
  a wildcard query then finds exactly the player whose name begins with the query.
\<close>

text \<open>A \<open>Player*\<close> is the identity of the player: id, guid and name do not change while it is online.\<close>

record online_player =
  op_id :: u32
  op_guid :: u32
  op_name :: string

record registry =
  mappedPlayerNames :: "string \<rightharpoonup> online_player"
  mappedPlayerGuids :: "u32 \<rightharpoonup> online_player"
  wildcardTree :: wtree
  reg_players :: "u32 \<rightharpoonup> online_player"

definition registry_init :: registry where
  "registry_init = \<lparr>mappedPlayerNames = Map.empty, mappedPlayerGuids = Map.empty,
     wildcardTree = wildcard_root, reg_players = Map.empty\<rparr>"

text \<open>\<open>std::tolower\<close> in the C locale.\<close>

definition to_lower_char :: "char \<Rightarrow> char" where
  "to_lower_char c = (let n = (of_char c :: nat) in if 65 \<le> n \<and> n \<le> 90 then char_of (n + 32) else c)"

definition to_lower :: "string \<Rightarrow> string" where
  "to_lower s = map to_lower_char s"

definition PLAYER_NAME_LENGTH :: nat where
  "PLAYER_NAME_LENGTH = 25"

definition addPlayer :: "online_player \<Rightarrow> registry \<Rightarrow> registry option" where
  "addPlayer player g =
     (let lowercase_name = to_lower (op_name player) in
      case tree_insert lowercase_name (wildcardTree g) of
        None \<Rightarrow> None
      | Some tree \<Rightarrow> Some (g\<lparr>mappedPlayerNames := (mappedPlayerNames g)(lowercase_name \<mapsto> player),
          mappedPlayerGuids := (mappedPlayerGuids g)(op_guid player \<mapsto> player),
          wildcardTree := tree,
          reg_players := (reg_players g)(op_id player \<mapsto> player)\<rparr>))"

definition removePlayer :: "online_player \<Rightarrow> registry \<Rightarrow> registry" where
  "removePlayer player g =
     (let lowercase_name = to_lower (op_name player) in
      g\<lparr>mappedPlayerNames := (mappedPlayerNames g)(lowercase_name := None),
        mappedPlayerGuids := (mappedPlayerGuids g)(op_guid player := None),
        wildcardTree := tree_remove lowercase_name (wildcardTree g),
        reg_players := (reg_players g)(op_id player := None)\<rparr>)"

definition getPlayerByID :: "u32 \<Rightarrow> registry \<Rightarrow> online_player option" where
  "getPlayerByID i g = (if i = 0 then None else reg_players g i)"

definition getPlayerByGUID :: "u32 \<Rightarrow> registry \<Rightarrow> online_player option" where
  "getPlayerByGUID guid g = (if guid = 0 then None else mappedPlayerGuids g guid)"

definition getPlayerByName :: "string \<Rightarrow> registry \<Rightarrow> online_player option" where
  "getPlayerByName s g = (if s = [] then None else mappedPlayerNames g (to_lower s))"

text \<open>The result code and the value the reference parameter \<open>player\<close>, passed as null, has at the return.\<close>

definition getPlayerByNameWildcard :: "string \<Rightarrow> registry \<Rightarrow> ReturnValue \<times> online_player option" where
  "getPlayerByNameWildcard s g =
     (let strlen = length s in
      if strlen = 0 \<or> strlen > PLAYER_NAME_LENGTH
      then (RETURNVALUE_PLAYERWITHTHISNAMEISNOTONLINE, None)
      else if last s = CHR ''~'' then
        (case findOne (to_lower (take (strlen - 1) s)) (wildcardTree g) [] of (ret, result) \<Rightarrow>
           if ret \<noteq> RETURNVALUE_NOERROR then (ret, None)
           else (case getPlayerByName result g of
                   None \<Rightarrow> (RETURNVALUE_PLAYERWITHTHISNAMEISNOTONLINE, None)
                 | Some player \<Rightarrow> (RETURNVALUE_NOERROR, Some player)))
      else (case getPlayerByName s g of
              None \<Rightarrow> (RETURNVALUE_PLAYERWITHTHISNAMEISNOTONLINE, None)
            | Some player \<Rightarrow> (RETURNVALUE_NOERROR, Some player)))"

subsection \<open>Logins\<close>

text \<open>
  Which logins \<open>ProtocolGame::login\<close> admits as a new player (protocolgame.cpp): otherwise the connection is handed
  to the player who is online.  \<open>names\<close> is the table of characters, with their database ids as keys.
\<close>

record login_config =
  allowClones :: bool
  accountManager :: bool

definition ACCOUNT_MANAGER_PLAYER_ID :: u32 where "ACCOUNT_MANAGER_PLAYER_ID = 1"

definition login_admits :: "login_config \<Rightarrow> u32 \<Rightarrow> registry \<Rightarrow> bool" where
  "login_admits cfg characterId g \<longleftrightarrow>
     getPlayerByGUID characterId g = None \<or> allowClones cfg \<or> accountManager cfg \<and> characterId = ACCOUNT_MANAGER_PLAYER_ID"

text \<open>What the database promises: ids start at one, and names are unique, ignoring case (\<open>UNIQUE KEY name\<close>).\<close>

definition characters_ok :: "(u32 \<rightharpoonup> string) \<Rightarrow> bool" where
  "characters_ok names \<longleftrightarrow> names 0 = None \<and> (\<forall>u n. names u = Some n \<longrightarrow> n \<noteq> []) \<and>
     (\<forall>u u' n n'. names u = Some n \<longrightarrow> names u' = Some n' \<longrightarrow> to_lower n = to_lower n' \<longrightarrow> u = u')"

text \<open>The histories of the registry; a creature id is given once (\<open>setID\<close>).\<close>

inductive reg_reachable :: "login_config \<Rightarrow> (u32 \<rightharpoonup> string) \<Rightarrow> registry \<Rightarrow> bool" for cfg names where
  start: "reg_reachable cfg names registry_init"
| login: "reg_reachable cfg names g \<Longrightarrow> names (op_guid p) = Some (op_name p) \<Longrightarrow> login_admits cfg (op_guid p) g \<Longrightarrow>
    reg_players g (op_id p) = None \<Longrightarrow> addPlayer p g = Some g' \<Longrightarrow> reg_reachable cfg names g'"
| logout: "reg_reachable cfg names g \<Longrightarrow> reg_players g (op_id p) = Some p \<Longrightarrow> reg_reachable cfg names (removePlayer p g)"

subsection \<open>The registry stays consistent\<close>

definition online :: "registry \<Rightarrow> online_player set" where
  "online g = ran (reg_players g)"

text \<open>The characters that can be online more than once.\<close>

definition cloned :: "login_config \<Rightarrow> u32 set" where
  "cloned cfg = (if allowClones cfg then UNIV else if accountManager cfg then {ACCOUNT_MANAGER_PLAYER_ID} else {})"

definition reg_ok :: "login_config \<Rightarrow> (u32 \<rightharpoonup> string) \<Rightarrow> registry \<Rightarrow> bool" where
  "reg_ok cfg names g \<longleftrightarrow> wildcard.follows (wildcardTree g) (mappedPlayerNames g) \<and>
    (\<forall>i p. reg_players g i = Some p \<longrightarrow> i = op_id p \<and> names (op_guid p) = Some (op_name p) \<and>
       (op_guid p \<notin> cloned cfg \<longrightarrow> mappedPlayerNames g (to_lower (op_name p)) = Some p \<and> mappedPlayerGuids g (op_guid p) = Some p)) \<and>
    (\<forall>n p. mappedPlayerNames g n = Some p \<longrightarrow> n = to_lower (op_name p) \<and> names (op_guid p) = Some (op_name p) \<and>
       (op_guid p \<notin> cloned cfg \<longrightarrow> reg_players g (op_id p) = Some p)) \<and>
    (\<forall>u p. mappedPlayerGuids g u = Some p \<longrightarrow> u = op_guid p \<and> names u = Some (op_name p) \<and>
       (u \<notin> cloned cfg \<longrightarrow> reg_players g (op_id p) = Some p))"

lemma reg_okI:
  assumes "wildcard.follows (wildcardTree g) (mappedPlayerNames g)"
    and "\<And>i p. reg_players g i = Some p \<Longrightarrow> i = op_id p \<and> names (op_guid p) = Some (op_name p) \<and>
       (op_guid p \<notin> cloned cfg \<longrightarrow> mappedPlayerNames g (to_lower (op_name p)) = Some p \<and> mappedPlayerGuids g (op_guid p) = Some p)"
    and "\<And>n p. mappedPlayerNames g n = Some p \<Longrightarrow> n = to_lower (op_name p) \<and> names (op_guid p) = Some (op_name p) \<and>
       (op_guid p \<notin> cloned cfg \<longrightarrow> reg_players g (op_id p) = Some p)"
    and "\<And>u p. mappedPlayerGuids g u = Some p \<Longrightarrow> u = op_guid p \<and> names u = Some (op_name p) \<and>
       (u \<notin> cloned cfg \<longrightarrow> reg_players g (op_id p) = Some p)"
  shows "reg_ok cfg names g"
  using assms by (simp add: reg_ok_def)

lemma reg_okD:
  assumes "reg_ok cfg names g"
  shows "wildcard.follows (wildcardTree g) (mappedPlayerNames g)"
    and "reg_players g i = Some p \<Longrightarrow> i = op_id p \<and> names (op_guid p) = Some (op_name p)"
    and "mappedPlayerNames g n = Some p \<Longrightarrow> n = to_lower (op_name p) \<and> names (op_guid p) = Some (op_name p)"
    and "mappedPlayerGuids g u = Some p \<Longrightarrow> u = op_guid p \<and> names (op_guid p) = Some (op_name p)"
  using assms by (auto simp: reg_ok_def)

text \<open>The three maps agree on a character that cannot be cloned.\<close>

lemma reg_ok_entries:
  assumes "reg_ok cfg names g" "op_guid p \<notin> cloned cfg"
  shows "reg_players g i = Some p \<Longrightarrow> mappedPlayerNames g (to_lower (op_name p)) = Some p"
    and "reg_players g i = Some p \<Longrightarrow> mappedPlayerGuids g (op_guid p) = Some p"
    and "mappedPlayerNames g n = Some p \<Longrightarrow> reg_players g (op_id p) = Some p"
    and "mappedPlayerGuids g u = Some p \<Longrightarrow> reg_players g (op_id p) = Some p"
  using assms unfolding reg_ok_def by blast+

lemma to_lower_Nil [simp]: "to_lower s = [] \<longleftrightarrow> s = []"
  by (simp add: to_lower_def)

lemma of_char_to_lower_char:
  "(of_char (to_lower_char c) :: nat) = (if 65 \<le> (of_char c :: nat) \<and> (of_char c :: nat) \<le> 90
     then of_char c + 32 else of_char c)"
  by (simp add: to_lower_char_def Let_def)

lemma to_lower_char_idem [simp]: "to_lower_char (to_lower_char c) = to_lower_char c"
  unfolding to_lower_char_def [of "to_lower_char c"] by (auto simp: of_char_to_lower_char Let_def)

lemma to_lower_idem [simp]: "to_lower (to_lower s) = to_lower s"
  by (simp add: to_lower_def)

lemma prefix_to_lower: "prefix q s \<Longrightarrow> prefix (to_lower q) (to_lower s)"
  by (auto simp: prefix_def to_lower_def)

lemma characters_okD:
  "characters_ok names \<Longrightarrow> names u = Some n \<Longrightarrow> n \<noteq> [] \<and> u \<noteq> 0"
  "characters_ok names \<Longrightarrow> names u = Some n \<Longrightarrow> names u' = Some n' \<Longrightarrow> to_lower n = to_lower n' \<Longrightarrow> u = u'"
  unfolding characters_ok_def by (metis option.distinct(1)) blast

lemma addPlayer_defined:
  assumes "reg_ok cfg names g" and "op_name p \<noteq> []"
  shows "\<exists>t. addPlayer p g = Some (g\<lparr>mappedPlayerNames := (mappedPlayerNames g)(to_lower (op_name p) \<mapsto> p),
      mappedPlayerGuids := (mappedPlayerGuids g)(op_guid p \<mapsto> p), wildcardTree := t,
      reg_players := (reg_players g)(op_id p \<mapsto> p)\<rparr>) \<and>
    wildcard.follows t ((mappedPlayerNames g)(to_lower (op_name p) \<mapsto> p))"
  using wildcard.follows_add [of "wildcardTree g" "mappedPlayerNames g" "to_lower (op_name p)" p] assms
  by (auto simp: reg_ok_def addPlayer_def Let_def)

text \<open>A character that is admitted as a new player, and cannot be cloned, has no entry of its name or id.\<close>

lemma admitted_fresh:
  assumes "characters_ok names" "reg_ok cfg names g" "names (op_guid p) = Some (op_name p)" "login_admits cfg (op_guid p) g"
    and "op_guid p \<notin> cloned cfg"
  shows "mappedPlayerGuids g (op_guid p) = None" "mappedPlayerNames g (to_lower (op_name p)) = None"
proof -
  have "op_guid p \<noteq> 0" using characters_okD(1) [OF assms(1,3)] by simp
  then show guid: "mappedPlayerGuids g (op_guid p) = None"
    using assms(4,5) by (auto simp: login_admits_def getPlayerByGUID_def cloned_def split: if_splits)
  show "mappedPlayerNames g (to_lower (op_name p)) = None"
  proof (rule ccontr)
    assume "mappedPlayerNames g (to_lower (op_name p)) \<noteq> None"
    then obtain q where q: "mappedPlayerNames g (to_lower (op_name p)) = Some q" by auto
    note name = reg_okD(3) [OF assms(2) q]
    have same: "op_guid q = op_guid p" using characters_okD(2) [OF assms(1) _ assms(3)] name by metis
    then have free: "op_guid q \<notin> cloned cfg" using assms(5) by simp
    have "mappedPlayerGuids g (op_guid q) = Some q"
      by (rule reg_ok_entries(2) [OF assms(2) free reg_ok_entries(3) [OF assms(2) free q]])
    then show False using guid same by simp
  qed
qed

lemma reg_ok_login:
  assumes db: "characters_ok names" and ok: "reg_ok cfg names g" and p: "names (op_guid p) = Some (op_name p)"
    and admit: "login_admits cfg (op_guid p) g" and id: "reg_players g (op_id p) = None" and add: "addPlayer p g = Some g'"
  shows "reg_ok cfg names g'"
proof -
  obtain t where g': "g' = g\<lparr>mappedPlayerNames := (mappedPlayerNames g)(to_lower (op_name p) \<mapsto> p),
      mappedPlayerGuids := (mappedPlayerGuids g)(op_guid p \<mapsto> p), wildcardTree := t,
      reg_players := (reg_players g)(op_id p \<mapsto> p)\<rparr>"
    and t: "wildcard.follows t ((mappedPlayerNames g)(to_lower (op_name p) \<mapsto> p))"
    using addPlayer_defined [OF ok, of p] add characters_okD(1) [OF db p] by auto
  have other: "op_guid q \<noteq> op_guid p \<and> to_lower (op_name q) \<noteq> to_lower (op_name p)"
    if "reg_players g i = Some q" "op_guid q \<notin> cloned cfg" for i q
  proof -
    note q = reg_okD(2) [OF ok that(1)]
    have "op_guid q \<noteq> op_guid p"
      using admitted_fresh(1) [OF db ok p admit] reg_ok_entries(2) [OF ok that(2,1)] that(2) by auto
    then show ?thesis using characters_okD(2) [OF db _ p] q by metis
  qed
  show ?thesis
    unfolding g'
  proof (rule reg_okI, goal_cases)
    case 1
    then show ?case using t by simp
  next
    case (2 i q)
    then show ?case
      using reg_okD(2) [OF ok, of i q] reg_ok_entries(1,2) [OF ok, of q i] other [of i q] p by (cases "i = op_id p") simp_all
  next
    case (3 n q)
    then show ?case
      using reg_okD(3) [OF ok, of n q] reg_ok_entries(3) [OF ok, of q n] id p by (cases "n = to_lower (op_name p)") auto
  next
    case (4 u q)
    then show ?case
      using reg_okD(4) [OF ok, of u q] reg_ok_entries(4) [OF ok, of q u] id p by (cases "u = op_guid p") auto
  qed
qed

lemma reg_ok_logout:
  assumes db: "characters_ok names" and ok: "reg_ok cfg names g" and p: "reg_players g (op_id p) = Some p"
  shows "reg_ok cfg names (removePlayer p g)"
proof -
  note own = reg_okD(2) [OF ok p]
  have other: "op_guid q \<noteq> op_guid p \<and> to_lower (op_name q) \<noteq> to_lower (op_name p)"
    if "reg_players g i = Some q" "i \<noteq> op_id p" "op_guid q \<notin> cloned cfg" for i q
  proof -
    note q = reg_okD(2) [OF ok that(1)]
    have "op_guid q \<noteq> op_guid p"
    proof
      assume same: "op_guid q = op_guid p"
      then have "op_guid p \<notin> cloned cfg" using that(3) by simp
      from reg_ok_entries(2) [OF ok this p] reg_ok_entries(2) [OF ok that(3,1)] same have "q = p" by simp
      then show False using q that(2) by simp
    qed
    then show ?thesis using characters_okD(2) [OF db] q own by metis
  qed
  have entry: "op_id q \<noteq> op_id p" if "reg_players g (op_id q) = Some q" "q \<noteq> p" for q
    using that p by auto
  show ?thesis
    unfolding removePlayer_def Let_def
  proof (rule reg_okI, goal_cases)
    case 1
    then show ?case using wildcard.follows_del [OF reg_okD(1) [OF ok]] by simp
  next
    case (2 i q)
    then have "i \<noteq> op_id p" "reg_players g i = Some q" by (auto split: if_splits)
    then show ?case using reg_okD(2) [OF ok, of i q] reg_ok_entries(1,2) [OF ok, of q i] other [of i q] by simp
  next
    case (3 n q)
    then have n: "n \<noteq> to_lower (op_name p)" "mappedPlayerNames g n = Some q" by (auto split: if_splits)
    have name: "n = to_lower (op_name q)" "names (op_guid q) = Some (op_name q)" using reg_okD(3) [OF ok n(2)] by simp_all
    then have "q \<noteq> p" using n(1) by auto
    then show ?case using name reg_ok_entries(3) [OF ok _ n(2)] entry [of q] by simp
  next
    case (4 u q)
    then have u: "u \<noteq> op_guid p" "mappedPlayerGuids g u = Some q" by (auto split: if_splits)
    have guid: "u = op_guid q" "names (op_guid q) = Some (op_name q)" using reg_okD(4) [OF ok u(2)] by simp_all
    then have "q \<noteq> p" using u(1) by auto
    then show ?case using guid reg_ok_entries(4) [OF ok _ u(2)] entry [of q] by simp
  qed
qed

lemma reg_reachable_ok: "reg_reachable cfg names g \<Longrightarrow> characters_ok names \<Longrightarrow> reg_ok cfg names g"
proof (induction rule: reg_reachable.induct)
  case start
  then show ?case by (simp add: reg_ok_def registry_init_def wildcard.follows_empty)
qed (use reg_ok_login reg_ok_logout in blast)+

lemma online_by_id: "reg_ok cfg names g \<Longrightarrow> p \<in> online g \<longleftrightarrow> reg_players g (op_id p) = Some p"
  unfolding online_def ran_def using reg_okD(2) by blast

lemma online_by_name:
  "reg_ok cfg names g \<Longrightarrow> op_guid p \<notin> cloned cfg \<Longrightarrow> p \<in> online g \<longleftrightarrow> mappedPlayerNames g (to_lower (op_name p)) = Some p"
  using online_by_id reg_ok_entries(1,3) by blast

lemma online_by_guid:
  "reg_ok cfg names g \<Longrightarrow> op_guid p \<notin> cloned cfg \<Longrightarrow> p \<in> online g \<longleftrightarrow> mappedPlayerGuids g (op_guid p) = Some p"
  using online_by_id reg_ok_entries(2,4) by blast

text \<open>Where no name of a character that can be cloned begins with the query.\<close>

lemma online_prefix_names:
  assumes ok: "reg_ok cfg names g" and "\<And>u n. u \<in> cloned cfg \<Longrightarrow> names u = Some n \<Longrightarrow> \<not> prefix q (to_lower n)"
  shows "{n \<in> dom (mappedPlayerNames g). prefix q n} =
    (\<lambda>p. to_lower (op_name p)) ` {p \<in> online g. prefix q (to_lower (op_name p))}"
proof (intro equalityI subsetI)
  fix n assume "n \<in> {n \<in> dom (mappedPlayerNames g). prefix q n}"
  then obtain p where p: "mappedPlayerNames g n = Some p" "prefix q n" by auto
  then have "op_guid p \<notin> cloned cfg" using reg_okD(3) [OF ok p(1)] assms(2) [of "op_guid p" "op_name p"] by auto
  then have "p \<in> online g" using reg_ok_entries(3) [OF ok _ p(1)] online_by_id [OF ok] by simp
  then show "n \<in> (\<lambda>p. to_lower (op_name p)) ` {p \<in> online g. prefix q (to_lower (op_name p))}"
    using reg_okD(3) [OF ok p(1)] p(2) by auto
next
  fix n assume "n \<in> (\<lambda>p. to_lower (op_name p)) ` {p \<in> online g. prefix q (to_lower (op_name p))}"
  then obtain p where p: "n = to_lower (op_name p)" "p \<in> online g" "prefix q n" by auto
  then have "op_guid p \<notin> cloned cfg"
    using reg_okD(2) [OF ok, of "op_id p" p] online_by_id [OF ok, of p] assms(2) [of "op_guid p" "op_name p"] by auto
  then show "n \<in> {n \<in> dom (mappedPlayerNames g). prefix q n}" using online_by_name [OF ok] p by auto
qed

text \<open>
  C9: unless clones are allowed, after any history of logins and logouts the look-ups by id, by guid and by name (of
  any case) find a player exactly when it is online.  The account manager, which may be online more than once, is
  excepted.
\<close>

theorem lookups_agree:
  assumes "characters_ok names" and "\<not> allowClones cfg" and "reg_reachable cfg names g"
    and "accountManager cfg \<Longrightarrow> op_guid p \<noteq> ACCOUNT_MANAGER_PLAYER_ID"
    and "op_id p \<noteq> 0" and "op_guid p \<noteq> 0" and "op_name p \<noteq> []"
  shows "(getPlayerByID (op_id p) g = Some p \<longleftrightarrow> p \<in> online g) \<and>
    (getPlayerByGUID (op_guid p) g = Some p \<longleftrightarrow> p \<in> online g) \<and>
    (getPlayerByName (op_name p) g = Some p \<longleftrightarrow> p \<in> online g)"
proof -
  note ok = reg_reachable_ok [OF assms(3,1)]
  have p: "op_guid p \<notin> cloned cfg" using assms(2,4) by (simp add: cloned_def)
  show ?thesis
    using online_by_id [OF ok, of p] online_by_guid [OF ok p] online_by_name [OF ok p] assms(5-7)
    by (simp add: getPlayerByID_def getPlayerByGUID_def getPlayerByName_def)
qed

text \<open>
  C8: unless clones are allowed, after any history a query \<open>q~\<close> of at most 25 characters finds the one player online
  whose name begins with \<open>q\<close> (case ignored), and says whether there is none or more than one.  Where the account
  manager is in use, \<open>q\<close> is no beginning of its name.
\<close>

theorem wildcard_query_correct:
  assumes "characters_ok names" and "\<not> allowClones cfg" and "reg_reachable cfg names g" and "length q < 25"
    and "\<And>n. accountManager cfg \<Longrightarrow> names ACCOUNT_MANAGER_PLAYER_ID = Some n \<Longrightarrow> \<not> prefix (to_lower q) (to_lower n)"
  shows "case getPlayerByNameWildcard (q @ ''~'') g of (ret, player) \<Rightarrow>
    (let found = {p \<in> online g. prefix (to_lower q) (to_lower (op_name p))} in
     (ret = RETURNVALUE_NOERROR \<and> (\<exists>p. player = Some p \<and> found = {p})) \<or>
     (ret = RETURNVALUE_PLAYERWITHTHISNAMEISNOTONLINE \<and> player = None \<and> found = {}) \<or>
     (ret = RETURNVALUE_NAMEISTOOAMBIGUOUS \<and> player = None \<and> (\<exists>p p'. p \<noteq> p' \<and> {p, p'} \<subseteq> found)))"
proof -
  define found where "found = {p \<in> online g. prefix (to_lower q) (to_lower (op_name p))}"
  note ok = reg_reachable_ok [OF assms(3,1)]
  have clones: "\<not> prefix (to_lower q) (to_lower n)" if "u \<in> cloned cfg" "names u = Some n" for u n
    using assms(2,5) that by (auto simp: cloned_def split: if_splits)
  have dom: "{n \<in> dom (mappedPlayerNames g). prefix (to_lower q) n} = (\<lambda>p. to_lower (op_name p)) ` found"
    unfolding found_def by (rule online_prefix_names [OF ok]) (rule clones)
  have single: "op_guid p \<notin> cloned cfg \<and> op_name p \<noteq> []" if "p \<in> found" for p
  proof -
    have "names (op_guid p) = Some (op_name p)" using that reg_okD(2) [OF ok] online_by_id [OF ok] by (auto simp: found_def)
    then show ?thesis using clones [of "op_guid p"] characters_okD(1) [OF assms(1)] that by (auto simp: found_def)
  qed
  have query: "getPlayerByNameWildcard (q @ ''~'') g =
      (case findOne (to_lower q) (wildcardTree g) [] of (ret, result) \<Rightarrow>
         if ret \<noteq> RETURNVALUE_NOERROR then (ret, None)
         else (case getPlayerByName result g of
                 None \<Rightarrow> (RETURNVALUE_PLAYERWITHTHISNAMEISNOTONLINE, None)
               | Some player \<Rightarrow> (RETURNVALUE_NOERROR, Some player)))"
    using assms(4) by (simp add: getPlayerByNameWildcard_def PLAYER_NAME_LENGTH_def)
  show ?thesis
  proof (cases "to_lower q = [] \<and> mappedPlayerNames g = Map.empty")
    case True
    then have "found = {}" using dom by auto
    moreover have "findOne (to_lower q) (wildcardTree g) [] = (RETURNVALUE_NOERROR, [])"
      using wildcard.follows_find_nothing reg_okD(1) [OF ok] True by metis
    ultimately show ?thesis
      unfolding query found_def [symmetric] Let_def by (simp add: getPlayerByName_def)
  next
    case False
    then have "to_lower q \<noteq> [] \<or> mappedPlayerNames g \<noteq> Map.empty" by blast
    from reg_okD(1) [OF ok] this show ?thesis
    proof (cases rule: wildcard.follows_find [where r = "[]"])
      case (1 n)
      then have img: "(\<lambda>p. to_lower (op_name p)) ` found = {n}" using dom by simp
      then obtain p where p: "p \<in> found" "n = to_lower (op_name p)" by auto
      have "p' = p" if "p' \<in> found" for p'
      proof -
        have "to_lower (op_name p') = n" using img that by auto
        moreover have "p \<in> online g" "p' \<in> online g" using p(1) that by (simp_all add: found_def)
        ultimately show ?thesis
          using online_by_name [OF ok] single [OF p(1)] single [OF that] p(2) by (metis option.inject)
      qed
      then have "found = {p}" using p(1) by blast
      moreover have "getPlayerByName n g = Some p"
      proof -
        have "p \<in> online g" using p(1) by (simp add: found_def)
        then have "mappedPlayerNames g n = Some p" "n \<noteq> []"
          using online_by_name [OF ok, of p] single [OF p(1)] p(2) by simp_all
        then show ?thesis unfolding getPlayerByName_def p(2) by simp
      qed
      ultimately show ?thesis
        unfolding query found_def [symmetric] Let_def using 1 by simp
    next
      case (2 n)
      then have "found = {}" using dom by simp
      then show ?thesis unfolding query found_def [symmetric] Let_def using 2 by simp
    next
      case (3 n x y)
      have "{x, y} \<subseteq> (\<lambda>p. to_lower (op_name p)) ` found" using 3(3) unfolding dom .
      then obtain p p' where "p \<in> found" "p' \<in> found" "x = to_lower (op_name p)" "y = to_lower (op_name p')"
        by blast
      then have "p \<noteq> p' \<and> {p, p'} \<subseteq> found" using \<open>x \<noteq> y\<close> by auto
      then have "\<exists>p p'. p \<noteq> p' \<and> {p, p'} \<subseteq> found" by blast
      then show ?thesis unfolding query found_def [symmetric] Let_def using 3(1) by simp
    qed
  qed
qed

text \<open>
  Clones share the entries of their character.  When one of two players online with the same character leaves,
  the other is still online and found by its id, but no longer by guid or name, and no wildcard query finds it.
\<close>

theorem clone_logout_hides:
  assumes "characters_ok names" and "reg_reachable cfg names g"
    and "reg_players g (op_id p) = Some p" and "reg_players g (op_id q) = Some q"
    and "op_guid p = op_guid q" and "op_id p \<noteq> op_id q" and "op_id q \<noteq> 0"
  shows "q \<in> online (removePlayer p g) \<and> getPlayerByID (op_id q) (removePlayer p g) = Some q \<and>
    getPlayerByGUID (op_guid q) (removePlayer p g) = None \<and> getPlayerByName (op_name q) (removePlayer p g) = None \<and>
    (\<forall>s. snd (getPlayerByNameWildcard s (removePlayer p g)) \<noteq> Some q)"
proof -
  note ok = reg_reachable_ok [OF assms(2,1)] and ok' = reg_reachable_ok [OF reg_reachable.logout [OF assms(2,3)] assms(1)]
  have name: "op_name p = op_name q" using reg_okD(2) [OF ok assms(3)] reg_okD(2) [OF ok assms(4)] assms(5) by simp
  let ?g = "removePlayer p g"
  have players: "reg_players ?g (op_id q) = Some q" using assms(4,6) by (simp add: removePlayer_def Let_def)
  have gone: "mappedPlayerNames ?g (to_lower (op_name q)) = None" "mappedPlayerGuids ?g (op_guid q) = None"
    by (simp_all add: removePlayer_def Let_def name assms(5))
  have "getPlayerByName s ?g \<noteq> Some q" for s
    using gone(1) reg_okD(3) [OF ok', of "to_lower s" q] by (auto simp: getPlayerByName_def)
  then have "snd (getPlayerByNameWildcard s ?g) \<noteq> Some q" for s
    by (auto simp: getPlayerByNameWildcard_def Let_def split: prod.splits option.splits)
  then show ?thesis
    using players gone assms(7) online_by_id [OF ok', of q]
    by (auto simp: getPlayerByID_def getPlayerByGUID_def getPlayerByName_def)
qed

subsection \<open>Witnesses\<close>

text \<open>Two characters, and the account manager.\<close>

definition joe :: online_player where
  "joe = \<lparr>op_id = 268435457, op_guid = 7, op_name = ''Joe''\<rparr>"

definition anna :: online_player where
  "anna = \<lparr>op_id = 268435458, op_guid = 8, op_name = ''Anna''\<rparr>"

definition characters :: "u32 \<rightharpoonup> string" where
  "characters = [1 \<mapsto> ''Account Manager'', 7 \<mapsto> ''Joe'', 8 \<mapsto> ''Anna'']"

definition default_login :: login_config where
  "default_login = \<lparr>allowClones = False, accountManager = True\<rparr>"

lemma characters_characters_ok: "characters_ok characters"
proof -
  have names: "u = 1 \<and> n = ''Account Manager'' \<or> u = 7 \<and> n = ''Joe'' \<or> u = 8 \<and> n = ''Anna''" if "characters u = Some n" for u n
    using that by (simp add: characters_def split: if_splits)
  have "length ''Account Manager'' = 15" "length ''Joe'' = 3" "length ''Anna'' = 4" by simp_all
  then have "u = u'" if "characters u = Some n" "characters u' = Some n'" "to_lower n = to_lower n'" for u u' n n'
    using names [OF that(1)] names [OF that(2)] arg_cong [OF that(3), of length] by (auto simp: to_lower_def)
  moreover have "n \<noteq> []" if "characters u = Some n" for u n using names [OF that] by auto
  moreover have "characters 0 = None" by (simp add: characters_def)
  ultimately show ?thesis unfolding characters_ok_def by blast
qed

lemma reg_reachable_addPlayer:
  assumes "reg_reachable cfg characters g" "characters (op_guid p) = Some (op_name p)" "login_admits cfg (op_guid p) g"
    and "reg_players g (op_id p) = None"
  shows "\<exists>t. addPlayer p g = Some (g\<lparr>mappedPlayerNames := (mappedPlayerNames g)(to_lower (op_name p) \<mapsto> p),
      mappedPlayerGuids := (mappedPlayerGuids g)(op_guid p \<mapsto> p), wildcardTree := t, reg_players := (reg_players g)(op_id p \<mapsto> p)\<rparr>)"
    "reg_reachable cfg characters (the (addPlayer p g))"
proof -
  have "op_name p \<noteq> []" using characters_okD(1) [OF characters_characters_ok assms(2)] by simp
  then show add: "\<exists>t. addPlayer p g = Some (g\<lparr>mappedPlayerNames := (mappedPlayerNames g)(to_lower (op_name p) \<mapsto> p),
      mappedPlayerGuids := (mappedPlayerGuids g)(op_guid p \<mapsto> p), wildcardTree := t, reg_players := (reg_players g)(op_id p \<mapsto> p)\<rparr>)"
    using addPlayer_defined [OF reg_reachable_ok [OF assms(1) characters_characters_ok]] by blast
  then show "reg_reachable cfg characters (the (addPlayer p g))"
    using reg_reachable.login [OF assms] by (metis option.sel)
qed

lemma one_online:
  assumes "characters (op_guid p) = Some (op_name p)"
  shows "reg_reachable cfg characters (the (addPlayer p registry_init))"
    "reg_players (the (addPlayer p registry_init)) = [op_id p \<mapsto> p]" "mappedPlayerGuids (the (addPlayer p registry_init)) = [op_guid p \<mapsto> p]"
proof -
  have admits: "login_admits cfg (op_guid p) registry_init" for cfg by (simp add: login_admits_def getPlayerByGUID_def registry_init_def)
  have free: "reg_players registry_init (op_id p) = None" by (simp add: registry_init_def)
  note add = reg_reachable_addPlayer [OF reg_reachable.start assms admits free]
  show "reg_reachable cfg characters (the (addPlayer p registry_init))" by (rule add(2))
  show "reg_players (the (addPlayer p registry_init)) = [op_id p \<mapsto> p]" "mappedPlayerGuids (the (addPlayer p registry_init)) = [op_guid p \<mapsto> p]"
    using add(1) by (auto simp: registry_init_def)
qed

lemma two_online: "reg_reachable default_login characters (the (addPlayer anna (the (addPlayer joe registry_init))))"
proof -
  have joe: "characters (op_guid joe) = Some (op_name joe)" by (simp add: joe_def characters_def)
  have "characters (op_guid anna) = Some (op_name anna)" "reg_players (the (addPlayer joe registry_init)) (op_id anna) = None"
    "login_admits default_login (op_guid anna) (the (addPlayer joe registry_init))"
    unfolding one_online(2) [OF joe] login_admits_def getPlayerByGUID_def one_online(3) [OF joe]
    by (simp_all add: anna_def joe_def characters_def)
  then show ?thesis by (intro reg_reachable_addPlayer(2) [OF one_online(1) [OF joe]])
qed

theorem lookups_agree_witness:
  "let g = the (addPlayer anna (the (addPlayer joe registry_init))) in
    (getPlayerByID (op_id joe) g = Some joe \<longleftrightarrow> joe \<in> online g) \<and>
    (getPlayerByGUID (op_guid joe) g = Some joe \<longleftrightarrow> joe \<in> online g) \<and>
    (getPlayerByName (op_name joe) g = Some joe \<longleftrightarrow> joe \<in> online g)"
  unfolding Let_def
  by (rule lookups_agree [OF characters_characters_ok _ two_online])
    (simp_all add: joe_def default_login_def ACCOUNT_MANAGER_PLAYER_ID_def)

lemma other_beginning: "\<not> prefix (to_lower ''jO'') (to_lower ''Account Manager'')"
  by code_simp

theorem wildcard_query_correct_witness:
  "let g = the (addPlayer anna (the (addPlayer joe registry_init))) in
    case getPlayerByNameWildcard (''jO'' @ ''~'') g of (ret, player) \<Rightarrow>
    (let found = {p \<in> online g. prefix (to_lower ''jO'') (to_lower (op_name p))} in
     (ret = RETURNVALUE_NOERROR \<and> (\<exists>p. player = Some p \<and> found = {p})) \<or>
     (ret = RETURNVALUE_PLAYERWITHTHISNAMEISNOTONLINE \<and> player = None \<and> found = {}) \<or>
     (ret = RETURNVALUE_NAMEISTOOAMBIGUOUS \<and> player = None \<and> (\<exists>p p'. p \<noteq> p' \<and> {p, p'} \<subseteq> found)))"
  unfolding Let_def [where s = "the (addPlayer anna (the (addPlayer joe registry_init)))"]
  by (rule wildcard_query_correct [OF characters_characters_ok _ two_online])
    (simp_all add: default_login_def ACCOUNT_MANAGER_PLAYER_ID_def characters_def other_beginning)

text \<open>Joe twice, on a server that allows clones.\<close>

definition joe_again :: online_player where
  "joe_again = joe\<lparr>op_id := 268435459\<rparr>"

theorem clone_logout_hides_witness:
  "let g = the (addPlayer joe_again (the (addPlayer joe registry_init))) in
    joe \<in> online (removePlayer joe_again g) \<and> getPlayerByName (op_name joe) (removePlayer joe_again g) = None"
proof -
  have joe: "characters (op_guid joe) = Some (op_name joe)" by (simp add: joe_def characters_def)
  let ?cfg = "\<lparr>allowClones = True, accountManager = False\<rparr>"
  have again: "characters (op_guid joe_again) = Some (op_name joe_again)" "login_admits ?cfg (op_guid joe_again) (the (addPlayer joe registry_init))"
    "reg_players (the (addPlayer joe registry_init)) (op_id joe_again) = None"
    unfolding one_online(2) [OF joe] by (simp_all add: joe_again_def joe_def characters_def login_admits_def)
  note add = reg_reachable_addPlayer [OF one_online(1) [OF joe] again]
  let ?g = "the (addPlayer joe_again (the (addPlayer joe registry_init)))"
  have "reg_players ?g (op_id joe_again) = Some joe_again" "reg_players ?g (op_id joe) = Some joe"
    using add(1) one_online(2) [OF joe] by (auto simp: joe_again_def joe_def)
  then show ?thesis
    using clone_logout_hides [OF characters_characters_ok add(2), of joe_again joe] by (simp add: Let_def joe_again_def joe_def)
qed

end
