(* ===== verification/Otb_File.thy ===== *)
theory Otb_File
  imports Network_Message
begin

text \<open>
  The binary container format of the item and map files (\<open>fileloader.h\<close>, \<open>fileloader.cpp\<close>): the streams
  that read and write typed properties, the loader that parses a file into a tree of nodes and the
  removal of escape bytes from the properties of a node.  Every file that parses gives nodes whose
  properties lie inside the file, and a tree laid out in the format is read back unchanged.
\<close>

subsection \<open>Property streams\<close>

text \<open>
  The reader is the sequence of bytes from \<open>p\<close> to \<open>end\<close>.  A reading operation returns the value, \<open>None\<close>
  where the code returns \<open>false\<close>, and the stream afterwards.
\<close>

type_synonym prop_stream = "u8 list"

definition prop_read :: "nat \<Rightarrow> prop_stream \<Rightarrow> 'a::len word option \<times> prop_stream" where
  "prop_read n p = (if length p < n then (None, p) else (Some (le_word (take n p)), drop n p))"

definition readString :: "prop_stream \<Rightarrow> u8 list option \<times> prop_stream" where
  "readString p = (case prop_read 2 p of
       (None, p) \<Rightarrow> (None, p)
     | (Some strLen, p) \<Rightarrow>
         if length p < unat (strLen :: u16) then (None, p)
         else (Some (take (unat strLen) p), drop (unat strLen) p))"

definition prop_skip :: "nat \<Rightarrow> prop_stream \<Rightarrow> bool \<times> prop_stream" where
  "prop_skip n p = (if length p < n then (False, p) else (True, drop n p))"

type_synonym prop_buffer = "u8 list"

definition prop_write :: "nat \<Rightarrow> 'a::len word \<Rightarrow> prop_buffer \<Rightarrow> prop_buffer" where
  "prop_write n v buffer = buffer @ le_bytes n v"

definition writeString :: "u8 list \<Rightarrow> prop_buffer \<Rightarrow> prop_buffer" where
  "writeString str buffer =
     (if length str > 65535 then prop_write 2 (0 :: u16) buffer
      else prop_write 2 (of_nat (length str) :: u16) buffer @ str)"

datatype prop_field = PU8 u8 | PU16 u16 | PU32 u32 | PU64 u64 | PString "u8 list"

datatype prop_kind = KPU8 | KPU16 | KPU32 | KPU64 | KPString

fun prop_kind_of :: "prop_field \<Rightarrow> prop_kind" where
  "prop_kind_of (PU8 _) = KPU8"
| "prop_kind_of (PU16 _) = KPU16"
| "prop_kind_of (PU32 _) = KPU32"
| "prop_kind_of (PU64 _) = KPU64"
| "prop_kind_of (PString _) = KPString"

fun prop_put :: "prop_field \<Rightarrow> prop_buffer \<Rightarrow> prop_buffer option" where
  "prop_put (PU8 v) w = Some (prop_write 1 v w)"
| "prop_put (PU16 v) w = Some (prop_write 2 v w)"
| "prop_put (PU32 v) w = Some (prop_write 4 v w)"
| "prop_put (PU64 v) w = Some (prop_write 8 v w)"
| "prop_put (PString s) w = Some (writeString s w)"

definition prop_value :: "('a \<Rightarrow> prop_field) \<Rightarrow> 'a option \<times> prop_stream \<Rightarrow> (prop_field \<times> prop_stream) option" where
  "prop_value f r = (case r of (None, _) \<Rightarrow> None | (Some v, p) \<Rightarrow> Some (f v, p))"

fun prop_take :: "prop_kind \<Rightarrow> prop_stream \<Rightarrow> (prop_field \<times> prop_stream) option" where
  "prop_take KPU8 p = prop_value PU8 (prop_read 1 p)"
| "prop_take KPU16 p = prop_value PU16 (prop_read 2 p)"
| "prop_take KPU32 p = prop_value PU32 (prop_read 4 p)"
| "prop_take KPU64 p = prop_value PU64 (prop_read 8 p)"
| "prop_take KPString p = prop_value PString (readString p)"

fun prop_rep :: "prop_field \<Rightarrow> u8 list" where
  "prop_rep (PU8 v) = le_bytes 1 v"
| "prop_rep (PU16 v) = le_bytes 2 v"
| "prop_rep (PU32 v) = le_bytes 4 v"
| "prop_rep (PU64 v) = le_bytes 8 v"
| "prop_rep (PString s) = le_bytes 2 (of_nat (length s) :: u16) @ s"

fun prop_ok :: "prop_field \<Rightarrow> bool" where
  "prop_ok (PString s) \<longleftrightarrow> length s \<le> 65535"
| "prop_ok _ \<longleftrightarrow> True"

lemma prop_read_rep:
  "LENGTH('a) \<le> 8 * n \<Longrightarrow> prop_read n (le_bytes n v @ rest) = (Some (v :: 'a::len word), rest)"
  by (simp add: prop_read_def codec_simps)

text \<open>\<open>bound\<close> is any number of bytes that the writer's vector may grow to.\<close>

interpretation props: field_stream prop_put prop_take prop_rep prop_kind_of prop_ok
  "\<lambda>w. length w \<le> bound" "\<lambda>w. w" "\<lambda>w. bound - length w" "\<lambda>_. True" "\<lambda>p. p" for bound
proof
  fix w :: prop_buffer and f
  assume "length w \<le> bound" "prop_ok f" "length (prop_rep f) \<le> bound - length w"
  then show "\<exists>w'. prop_put f w = Some w' \<and> length w' \<le> bound \<and> w' = w @ prop_rep f \<and>
      bound - length w' + length (prop_rep f) = bound - length w"
    by (cases f) (auto simp: prop_write_def writeString_def simp del: le_bytes.simps)
next
  fix r :: prop_stream and f rest
  assume "prop_ok f" and r: "r = prop_rep f @ rest"
  then show "\<exists>r'. prop_take (prop_kind_of f) r = Some (f, r') \<and> True \<and> r' = rest"
    by (cases f) (simp_all add: prop_value_def prop_read_rep readString_def unat_of_nat_u16 del: le_bytes.simps)
qed

subsection \<open>The loader\<close>

definition NODE_ESCAPE :: u8 where "NODE_ESCAPE = 0xFD"
definition NODE_START :: u8 where "NODE_START = 0xFE"
definition NODE_END :: u8 where "NODE_END = 0xFF"

lemmas node_chars = NODE_ESCAPE_def NODE_START_def NODE_END_def

text \<open>A node holds positions in the file; \<open>propsEnd\<close> is uninitialised until the parser sets it.\<close>

datatype otb_node = ONode (on_type: u8) (propsBegin: nat) (propsEnd: "nat option") (on_children: "otb_node list")

datatype load_error = InvalidOTBFormat

definition wildcard_identifier :: "u8 list" where
  "wildcard_identifier = [0, 0, 0, 0]"

definition loader_open :: "u8 list \<Rightarrow> u8 list \<Rightarrow> load_error + u8 list" where
  "loader_open acceptedIdentifier file =
     (if length file \<le> 4 + 1 + 1 + 1 then Inl InvalidOTBFormat
      else let fileIdentifier = take 4 file in
        if fileIdentifier \<noteq> acceptedIdentifier \<and> fileIdentifier \<noteq> wildcard_identifier
        then Inl InvalidOTBFormat else Inr file)"

definition end_props :: "nat \<Rightarrow> otb_node \<Rightarrow> otb_node" where
  "end_props it n = (if on_children n = [] then ONode (on_type n) (propsBegin n) (Some it) [] else n)"

definition add_child :: "otb_node \<Rightarrow> otb_node \<Rightarrow> otb_node" where
  "add_child child n = ONode (on_type n) (propsBegin n) (propsEnd n) (on_children n @ [child])"

text \<open>
  The parse stack holds pointers to the nodes that are open; each is the last child of the one below it.
  Here the stack holds the open nodes themselves, innermost first, and a node joins its parent when it
  is closed; until then the code does not look at the parent.
\<close>

fun parse_loop :: "u8 list \<Rightarrow> nat \<Rightarrow> otb_node list \<Rightarrow> otb_node \<Rightarrow> load_error + otb_node" where
  "parse_loop [] it stack root = (if stack \<noteq> [] then Inl InvalidOTBFormat else Inr root)"
| "parse_loop (b # bs) it stack root =
     (if b = NODE_START then
        (case stack of
           [] \<Rightarrow> Inl InvalidOTBFormat
         | currentNode # stack' \<Rightarrow>
             let currentNode = end_props it currentNode in
             (case bs of
                [] \<Rightarrow> Inl InvalidOTBFormat
              | type # bs' \<Rightarrow> parse_loop bs' (it + 2) (ONode type (it + 2) None [] # currentNode # stack') root))
      else if b = NODE_END then
        (case stack of
           [] \<Rightarrow> Inl InvalidOTBFormat
         | currentNode # stack' \<Rightarrow>
             let currentNode = end_props it currentNode in
             (case stack' of
                [] \<Rightarrow> parse_loop bs (it + 1) [] currentNode
              | parent # stack'' \<Rightarrow> parse_loop bs (it + 1) (add_child currentNode parent # stack'') root))
      else if b = NODE_ESCAPE then
        (case bs of [] \<Rightarrow> Inl InvalidOTBFormat | _ # bs' \<Rightarrow> parse_loop bs' (it + 2) stack root)
      else parse_loop bs (it + 1) stack root)"

definition parseTree :: "u8 list \<Rightarrow> load_error + otb_node" where
  "parseTree file =
     (if file ! 4 \<noteq> NODE_START then Inl InvalidOTBFormat
      else let root = ONode (file ! 5) 6 None [] in parse_loop (drop 6 file) 6 [root] root)"

fun unescape :: "bool \<Rightarrow> u8 list \<Rightarrow> u8 list" where
  "unescape lastEscaped [] = []"
| "unescape lastEscaped (b # bs) =
     (let lastEscaped = (b = NODE_ESCAPE \<and> \<not> lastEscaped) in
      if lastEscaped then unescape lastEscaped bs else b # unescape lastEscaped bs)"

text \<open>\<open>None\<close>: the call returns \<open>false\<close> (no property bytes).\<close>

definition getProps :: "u8 list \<Rightarrow> otb_node \<Rightarrow> prop_stream option" where
  "getProps file node =
     (let size = the (propsEnd node) - propsBegin node in
      if size = 0 then None
      else Some (unescape False (take size (drop (propsBegin node) file))))"

subsection \<open>Every parsed node lies inside the file\<close>

fun node_inside :: "nat \<Rightarrow> otb_node \<Rightarrow> bool" where
  "node_inside n (ONode ty b e cs) \<longleftrightarrow>
     (case e of None \<Rightarrow> False | Some e \<Rightarrow> b \<le> e \<and> e \<le> n) \<and> (\<forall>c \<in> set cs. node_inside n c)"

text \<open>An open node: its properties begin before the current position, and end if it has children.\<close>

definition open_ok :: "nat \<Rightarrow> otb_node \<Rightarrow> bool" where
  "open_ok it n \<longleftrightarrow> propsBegin n \<le> it \<and> (\<forall>c \<in> set (on_children n). node_inside it c) \<and>
     (on_children n \<noteq> [] \<longrightarrow> (\<exists>e. propsEnd n = Some e \<and> propsBegin n \<le> e \<and> e \<le> it))"

definition waiting_ok :: "nat \<Rightarrow> otb_node \<Rightarrow> bool" where
  "waiting_ok it n \<longleftrightarrow> open_ok it n \<and> (\<exists>e. propsEnd n = Some e \<and> propsBegin n \<le> e \<and> e \<le> it)"

lemma node_inside_mono: "node_inside n t \<Longrightarrow> n \<le> m \<Longrightarrow> node_inside m t"
  by (induction t) (auto split: option.splits)

lemma open_ok_mono: "open_ok it n \<Longrightarrow> it \<le> it' \<Longrightarrow> open_ok it' n"
  using node_inside_mono by (fastforce simp: open_ok_def)

lemma waiting_ok_mono: "waiting_ok it n \<Longrightarrow> it \<le> it' \<Longrightarrow> waiting_ok it' n"
  using open_ok_mono by (fastforce simp: waiting_ok_def)

lemma end_props_waiting: "open_ok it n \<Longrightarrow> waiting_ok it (end_props it n)"
  by (auto simp: end_props_def waiting_ok_def open_ok_def)

lemma waiting_inside: "waiting_ok it n \<Longrightarrow> node_inside it n"
  by (cases n) (auto simp: waiting_ok_def open_ok_def)

lemma add_child_open: "waiting_ok it n \<Longrightarrow> node_inside it c \<Longrightarrow> open_ok it (add_child c n)"
  by (auto simp: waiting_ok_def open_ok_def add_child_def)

definition stack_ok :: "nat \<Rightarrow> otb_node list \<Rightarrow> bool" where
  "stack_ok it stack = (case stack of [] \<Rightarrow> True | n # ns \<Rightarrow> open_ok it n \<and> list_all (waiting_ok it) ns)"

lemma stack_ok_mono: "stack_ok it stack \<Longrightarrow> it \<le> it' \<Longrightarrow> stack_ok it' stack"
  using open_ok_mono waiting_ok_mono by (auto simp: stack_ok_def list_all_iff split: list.splits)

lemma waiting_open: "waiting_ok it n \<Longrightarrow> open_ok it n"
  by (simp add: waiting_ok_def)

lemma stack_ok_push:
  "stack_ok it (n # ns) \<Longrightarrow> stack_ok (it + 2) (ONode ty (it + 2) None [] # end_props it n # ns)"
proof -
  assume "stack_ok it (n # ns)"
  moreover have "open_ok (it + 2) (ONode ty (it + 2) None [])" by (simp add: open_ok_def)
  ultimately show ?thesis
    using end_props_waiting [of it n] waiting_ok_mono [of it _ "it + 2"]
    by (auto simp: stack_ok_def list_all_iff)
qed

lemma stack_ok_pop:
  "stack_ok it (n # m # ns) \<Longrightarrow> stack_ok (it + 1) (add_child (end_props it n) m # ns)"
  using end_props_waiting [of it n] waiting_inside [of it "end_props it n"]
    add_child_open [of it m "end_props it n"] open_ok_mono [of it _ "it + 1"] waiting_ok_mono [of it _ "it + 1"]
  by (auto simp: stack_ok_def list_all_iff)

lemma parse_loop_inside:
  assumes "stack_ok it stack" and "stack = [] \<Longrightarrow> node_inside it root"
    and "parse_loop bs it stack root = Inr t"
  shows "node_inside (it + length bs) t"
  using assms
proof (induction bs it stack root rule: parse_loop.induct)
  case (1 it stack root)
  then show ?case by (auto split: if_splits)
next
  case (2 b bs it stack root)
  consider "b = NODE_START" | "b = NODE_END" | "b = NODE_ESCAPE"
    | "b \<noteq> NODE_START" "b \<noteq> NODE_END" "b \<noteq> NODE_ESCAPE" by blast
  then show ?case
  proof cases
    case 1
    with "2.prems"(3) obtain n ns ty bs' where st: "stack = n # ns" "bs = ty # bs'"
      by (auto simp: Let_def split: list.splits)
    with "2.prems"(3) 1 have "parse_loop bs' (it + 2) (ONode ty (it + 2) None [] # end_props it n # ns) root = Inr t"
      by (simp add: Let_def)
    from "2.IH"(1) [OF 1 st(1) refl st(2) _ _ this] stack_ok_push "2.prems"(1) st show ?thesis by simp
  next
    case 2
    then have ne: "b \<noteq> NODE_START" by (simp add: node_chars)
    with "2.prems"(3) 2 obtain n ns where st: "stack = n # ns"
      by (auto simp: Let_def split: list.splits)
    show ?thesis
    proof (cases ns)
      case Nil
      with st "2.prems"(3) 2 ne have "parse_loop bs (it + 1) [] (end_props it n) = Inr t" by (simp add: Let_def)
      moreover have "node_inside (it + 1) (end_props it n)"
        using "2.prems"(1) st end_props_waiting waiting_inside node_inside_mono
        by (fastforce simp: stack_ok_def)
      ultimately show ?thesis
        using "2.IH"(2) [OF ne 2 st refl Nil] by (simp add: stack_ok_def)
    next
      case (Cons m ms)
      with st "2.prems"(3) 2 ne have "parse_loop bs (it + 1) (add_child (end_props it n) m # ms) root = Inr t"
        by (simp add: Let_def)
      then show ?thesis
        using "2.IH"(3) [OF ne 2 st refl Cons] stack_ok_pop "2.prems"(1) st Cons by simp
    qed
  next
    case 3
    then have ne: "b \<noteq> NODE_START" "b \<noteq> NODE_END" by (simp_all add: node_chars)
    with "2.prems"(3) 3 obtain c bs' where bs: "bs = c # bs'" by (auto split: list.splits)
    with "2.prems"(3) 3 ne have "parse_loop bs' (it + 2) stack root = Inr t" by simp
    moreover have "stack_ok (it + 2) stack" "stack = [] \<Longrightarrow> node_inside (it + 2) root"
      using "2.prems" stack_ok_mono node_inside_mono by simp_all
    ultimately show ?thesis using "2.IH"(4) [OF ne 3 bs] bs by simp
  next
    case 4
    with "2.prems"(3) have "parse_loop bs (it + 1) stack root = Inr t" by simp
    moreover have "stack_ok (it + 1) stack" "stack = [] \<Longrightarrow> node_inside (it + 1) root"
      using "2.prems" stack_ok_mono node_inside_mono by simp_all
    ultimately show ?thesis using "2.IH"(5) [OF 4] by simp
  qed
qed

text \<open>
  C11: whatever the bytes of a file, when the loader accepts and parses it, every node of the tree, at
  any depth, has its properties between two positions inside the file, and none is left uninitialised.
\<close>

theorem parsed_nodes_inside:
  assumes "loader_open identifier file = Inr contents" and "parseTree contents = Inr t"
  shows "node_inside (length file) t"
proof -
  have opened: "contents = file" "7 < length file"
    using assms(1) by (auto simp: loader_open_def Let_def split: if_splits)
  with assms(2) have "parse_loop (drop 6 file) 6 [ONode (file ! 5) 6 None []] (ONode (file ! 5) 6 None []) = Inr t"
    by (auto simp: parseTree_def Let_def split: if_splits)
  from parse_loop_inside [OF _ _ this] opened(2) show ?thesis
    by (simp add: stack_ok_def open_ok_def)
qed

theorem parsed_nodes_inside_witness:
  "node_inside (length ([0, 0, 0, 0, 0xFE, 1, 0xFD, 0xFF, 7, 0xFE, 2, 9, 0xFF, 0xFF] :: u8 list))
     (ONode 1 6 (Some 9) [ONode 2 11 (Some 12) []])"
  by (rule parsed_nodes_inside [of "[79, 84, 66, 73]" _
        "[0, 0, 0, 0, 0xFE, 1, 0xFD, 0xFF, 7, 0xFE, 2, 9, 0xFF, 0xFF]"])
    (simp_all add: loader_open_def parseTree_def node_chars wildcard_identifier_def
      end_props_def add_child_def Let_def)

subsection \<open>Reading back a tree\<close>

text \<open>
  The format: a node is its start mark, its type, its escaped properties, its children and its end mark.
  \<open>layout\<close> says where the parts of a tree lie when its encoding begins at a position.
\<close>

datatype otb_tree = OTree u8 "u8 list" "otb_tree list"

fun escape :: "u8 list \<Rightarrow> u8 list" where
  "escape [] = []"
| "escape (b # bs) =
     (if b = NODE_ESCAPE \<or> b = NODE_START \<or> b = NODE_END then NODE_ESCAPE # b # escape bs else b # escape bs)"

fun encode_tree :: "otb_tree \<Rightarrow> u8 list"
  and encode_trees :: "otb_tree list \<Rightarrow> u8 list" where
  "encode_tree (OTree ty ps ts) = NODE_START # ty # escape ps @ encode_trees ts @ [NODE_END]"
| "encode_trees [] = []"
| "encode_trees (t # ts) = encode_tree t @ encode_trees ts"

fun layout :: "nat \<Rightarrow> otb_tree \<Rightarrow> otb_node"
  and layouts :: "nat \<Rightarrow> otb_tree list \<Rightarrow> otb_node list" where
  "layout it (OTree ty ps ts) =
     ONode ty (it + 2) (Some (it + 2 + length (escape ps))) (layouts (it + 2 + length (escape ps)) ts)"
| "layouts it [] = []"
| "layouts it (t # ts) = layout it t # layouts (it + length (encode_tree t)) ts"

definition close_with :: "nat \<Rightarrow> otb_node list \<Rightarrow> otb_node \<Rightarrow> otb_node" where
  "close_with it cs n = (if cs = [] then n
     else ONode (on_type n) (propsBegin n) (propsEnd (end_props it n)) (on_children n @ cs))"

lemma parse_loop_escape:
  "parse_loop (escape ps @ rest) it stack root = parse_loop rest (it + length (escape ps)) stack root"
  by (induction ps arbitrary: it) (auto simp: node_chars)

lemma close_with_simps [simp]:
  "close_with it [] n = n"
  "close_with it' cs (close_with it [c] n) = close_with it (c # cs) n"
  by (auto simp: close_with_def end_props_def)

lemma close_with_one: "close_with it [c] n = add_child c (end_props it n)"
  by (auto simp: close_with_def add_child_def end_props_def)

lemma end_props_layout:
  "end_props (it + length (encode_trees ts)) (close_with it (layouts it ts) (ONode ty b None [])) =
     ONode ty b (Some it) (layouts it ts)"
  by (cases ts) (auto simp: close_with_def end_props_def)

lemma parse_loop_encode:
  "parse_loop (encode_tree t @ rest) it (cur # stack) root =
     parse_loop rest (it + length (encode_tree t)) (close_with it [layout it t] cur # stack) root"
  "parse_loop (encode_trees ts @ rest) it (cur # stack) root =
     parse_loop rest (it + length (encode_trees ts)) (close_with it (layouts it ts) cur # stack) root"
proof (induction t and ts arbitrary: it cur stack rest and it cur stack rest
    rule: encode_tree_encode_trees.induct)
  case (1 ty ps ts)
  let ?b = "it + 2 + length (escape ps)"
  have "parse_loop (encode_tree (OTree ty ps ts) @ rest) it (cur # stack) root =
      parse_loop (escape ps @ encode_trees ts @ NODE_END # rest) (it + 2)
        (ONode ty (it + 2) None [] # end_props it cur # stack) root"
    by (simp add: Let_def)
  also have "\<dots> = parse_loop (NODE_END # rest) (?b + length (encode_trees ts))
      (close_with ?b (layouts ?b ts) (ONode ty (it + 2) None []) # end_props it cur # stack) root"
    by (simp only: parse_loop_escape 1)
  also have "\<dots> = parse_loop rest (?b + length (encode_trees ts) + 1)
      (add_child (layout it (OTree ty ps ts)) (end_props it cur) # stack) root"
    using end_props_layout [of ?b ts ty "it + 2"] by (simp add: node_chars Let_def)
  finally show ?case by (simp add: close_with_one ac_simps)
next
  case (3 t ts)
  then show ?case by (simp add: add.assoc)
qed simp

lemma unescape_escape: "unescape False (escape ps) = ps"
  by (induction ps) (auto simp: node_chars)

fun denote :: "u8 list \<Rightarrow> otb_node \<Rightarrow> otb_tree" where
  "denote file (ONode ty b e cs) =
     OTree ty (case getProps file (ONode ty b e cs) of None \<Rightarrow> [] | Some ps \<Rightarrow> ps) (map (denote file) cs)"

lemma wildcard_length: "length wildcard_identifier = 4"
  by (simp add: wildcard_identifier_def)

lemma escape_Nil [simp]: "escape ps = [] \<longleftrightarrow> ps = []"
  by (cases ps) simp_all

lemma denote_layout:
  "file = pre @ encode_tree t @ post \<Longrightarrow> denote file (layout (length pre) t) = t"
  "file = pre @ encode_trees ts @ post \<Longrightarrow> map (denote file) (layouts (length pre) ts) = ts"
proof (induction t and ts arbitrary: pre post and pre post rule: encode_tree_encode_trees.induct)
  case (1 ty ps ts)
  let ?pre = "pre @ NODE_START # ty # escape ps"
  have "map (denote file) (layouts (length ?pre) ts) = ts"
    by (rule "1.IH" [of _ "NODE_END # post"]) (simp add: 1)
  moreover have "take (length (escape ps)) (drop (length pre + 2) file) = escape ps"
    by (simp add: 1)
  ultimately show ?case by (auto simp: getProps_def unescape_escape Let_def)
next
  case (3 t ts)
  then have "denote file (layout (length pre) t) = t" by (intro 3(1)) simp
  moreover have "map (denote file) (layouts (length (pre @ encode_tree t)) ts) = ts"
    by (rule 3(2) [of _ post]) (simp add: 3)
  ultimately show ?case by simp
qed simp

lemma parse_encoded:
  assumes "length ident = 4"
  shows "\<exists>root. parseTree (ident @ encode_tree (OTree ty ps ts)) = Inr root \<and>
    denote (ident @ encode_tree (OTree ty ps ts)) root = OTree ty ps ts"
proof -
  let ?file = "ident @ encode_tree (OTree ty ps ts)"
  let ?root = "ONode ty 6 None []"
  have "parseTree ?file = parse_loop (escape ps @ encode_trees ts @ [NODE_END]) 6 [?root] ?root"
    using assms by (simp add: parseTree_def nth_append Let_def)
  also have "\<dots> = parse_loop [NODE_END] (6 + length (escape ps) + length (encode_trees ts))
      [close_with (6 + length (escape ps)) (layouts (6 + length (escape ps)) ts) ?root] ?root"
    by (simp only: parse_loop_escape parse_loop_encode(2))
  also have "\<dots> = Inr (layout 4 (OTree ty ps ts))"
    using end_props_layout [of "6 + length (escape ps)" ts ty 6] by (simp add: node_chars Let_def)
  finally have "parseTree ?file = Inr (layout 4 (OTree ty ps ts))" .
  moreover have "denote ?file (layout 4 (OTree ty ps ts)) = OTree ty ps ts"
    using denote_layout(1) [of ?file ident "OTree ty ps ts" "[]"] assms by simp
  ultimately show ?thesis by blast
qed

text \<open>
  C10: a file that begins with the accepted identifier or with the wildcard and holds a tree laid out in the
  format, whatever its types, property bytes and nesting, is opened and parsed, and reading the
  properties of the nodes gives the tree back.  The tree may not be one bare node: the loader's size
  check refuses that file.
\<close>

theorem otb_roundtrip:
  assumes "length ident = 4" and "ident = accepted \<or> ident = wildcard_identifier"
    and "ps \<noteq> [] \<or> ts \<noteq> []"
  shows "let file = ident @ encode_tree (OTree ty ps ts) in
    loader_open accepted file = Inr file \<and>
    (\<exists>root. parseTree file = Inr root \<and> denote file root = OTree ty ps ts)"
proof -
  let ?file = "ident @ encode_tree (OTree ty ps ts)"
  have "encode_trees ts \<noteq> []" if "ts \<noteq> []" using that by (cases ts; cases "hd ts") auto
  then have "escape ps @ encode_trees ts \<noteq> []" using assms(3) by auto
  then have opened: "loader_open accepted ?file = Inr ?file"
    using assms by (auto simp: loader_open_def Let_def Suc_le_eq)
  then show ?thesis using parse_encoded [OF assms(1), of ty ps ts] unfolding Let_def by blast
qed

theorem otb_roundtrip_witness:
  "let file = [79, 84, 66, 73] @ encode_tree (OTree 0 [0xFE, 1] [OTree 0xFF [] []]) in
    loader_open [79, 84, 66, 73] file = Inr file \<and>
    (\<exists>root. parseTree file = Inr root \<and> denote file root = OTree 0 [0xFE, 1] [OTree 0xFF [] []])"
  by (rule otb_roundtrip) simp_all

text \<open>
  What the property writer wrote, stored as the properties of a node of a file, is what the property
  reader reads from the parsed node: the same fields in the same order, and then nothing.
\<close>

theorem stored_fields_roundtrip:
  assumes "list_all prop_ok fs" and "fs \<noteq> []"
  shows "\<exists>buffer root ps. put_all prop_put fs [] = Some buffer \<and>
    parseTree (wildcard_identifier @ encode_tree (OTree ty buffer [])) = Inr root \<and>
    getProps (wildcard_identifier @ encode_tree (OTree ty buffer [])) root = Some ps \<and>
    get_all prop_take (map prop_kind_of fs) ps = Some (fs, [])"
proof -
  let ?bs = "concat (map prop_rep fs)"
  let ?file = "wildcard_identifier @ encode_tree (OTree ty ?bs [])"
  have put: "put_all prop_put fs [] = Some ?bs"
    using props.put_all_rep [of "[]" "length ?bs" fs] assms(1) by simp
  have "prop_rep (hd fs) \<noteq> []" by (cases "hd fs") (simp_all del: le_bytes.simps add: le_bytes.simps(2) numeral_nat)
  then have ne: "?bs \<noteq> []" using assms(2) by (cases fs) auto
  obtain root where root: "parseTree ?file = Inr root" "denote ?file root = OTree ty ?bs []"
    using parse_encoded [of wildcard_identifier ty ?bs "[]"] wildcard_length by blast
  then have "getProps ?file root = Some ?bs"
    using ne by (cases root) (auto split: option.splits)
  moreover have "get_all prop_take (map prop_kind_of fs) ?bs = Some (fs, [])"
    using props.get_all_rep [where r = ?bs and fs = fs and rest = "[]"] assms(1) by simp
  ultimately show ?thesis using put root by blast
qed

theorem stored_fields_roundtrip_witness:
  "\<exists>buffer root ps. put_all prop_put [PU8 0xFE, PString [104, 105]] [] = Some buffer \<and>
    parseTree (wildcard_identifier @ encode_tree (OTree 3 buffer [])) = Inr root \<and>
    getProps (wildcard_identifier @ encode_tree (OTree 3 buffer [])) root = Some ps \<and>
    get_all prop_take (map prop_kind_of [PU8 0xFE, PString [104, 105]]) ps = Some ([PU8 0xFE, PString [104, 105]], [])"
  by (rule stored_fields_roundtrip) simp_all

end
