(* ===== verification/Party_System.thy ===== *)
theory Party_System
  imports Positions "HOL-Library.Monad_Syntax"
begin

text \<open>
  Parties of players (\<open>party.h\<close>, \<open>party.cpp\<close>), the party fields of \<open>Player\<close> and the handlers of
  \<open>game.cpp\<close> that clients call.  Parties and players point at each other, so the model is a heap:
  dereferencing a null or dangling pointer is the result \<open>None\<close>.  The sending of messages, shields and
  skulls to clients keeps nothing but the dereference of the players involved (\<open>touch\<close>).  The events of
  the scripts are parameters that allow or veto an action.  The lemmas show that both ends of every
  membership and every invitation agree in all reachable states and that no handler touches a freed
  party or a player that has left.
\<close>

type_synonym player_ptr = u32
type_synonym party_ptr = nat

record party_player =
  pp_party :: "party_ptr option"
  pp_invitePartyList :: "party_ptr list"
  pp_level :: u32
  pp_position :: Position
  pp_notGainInFight :: bool
  pp_infight :: bool
  pp_protectionZone :: bool

record party =
  leader :: "player_ptr option"
  memberList :: "player_ptr list"
  inviteList :: "player_ptr list"
  ticksMap :: "player_ptr \<rightharpoonup> i64"
  sharedExpActive :: bool
  sharedExpEnabled :: bool

record world =
  w_players :: "player_ptr \<rightharpoonup> party_player"
  w_parties :: "party_ptr \<rightharpoonup> party"

text \<open>
  The environment of a handler: the scripts' answers, the clock and the configured fight duration.
\<close>

record party_env =
  onInvite :: "party_ptr \<Rightarrow> player_ptr \<Rightarrow> bool"
  onJoin :: "party_ptr \<Rightarrow> player_ptr \<Rightarrow> bool"
  onLeave :: "party_ptr \<Rightarrow> player_ptr \<Rightarrow> bool"
  onPassLeadership :: "party_ptr \<Rightarrow> player_ptr \<Rightarrow> bool"
  onRevokeInvitation :: "party_ptr \<Rightarrow> player_ptr \<Rightarrow> bool"
  onDisband :: "party_ptr \<Rightarrow> bool"
  now :: i64
  pzLocked :: i64

definition EXPERIENCE_SHARE_RANGE :: int where "EXPERIENCE_SHARE_RANGE = 30"
definition EXPERIENCE_SHARE_FLOORS :: int where "EXPERIENCE_SHARE_FLOORS = 1"

subsection \<open>The heap\<close>

definition touch :: "player_ptr list \<Rightarrow> world \<Rightarrow> world option" where
  "touch ps w = (if list_all (\<lambda>p. w_players w p \<noteq> None) ps then Some w else None)"

definition set_player :: "player_ptr \<Rightarrow> (party_player \<Rightarrow> party_player) \<Rightarrow> world \<Rightarrow> world option" where
  "set_player p f w = do { x \<leftarrow> w_players w p; Some (w\<lparr>w_players := (w_players w)(p \<mapsto> f x)\<rparr>) }"

fun for_players :: "player_ptr list \<Rightarrow> (party_player \<Rightarrow> party_player) \<Rightarrow> world \<Rightarrow> world option" where
  "for_players [] f w = Some w"
| "for_players (p # ps) f w = do { w \<leftarrow> set_player p f w; for_players ps f w }"

definition set_party :: "party_ptr \<Rightarrow> party \<Rightarrow> world \<Rightarrow> world" where
  "set_party q P w = w\<lparr>w_parties := (w_parties w)(q \<mapsto> P)\<rparr>"

definition removePartyInvitation :: "party_ptr \<Rightarrow> party_player \<Rightarrow> party_player" where
  "removePartyInvitation q x = x\<lparr>pp_invitePartyList := removeAll q (pp_invitePartyList x)\<rparr>"

definition addPartyInvitation :: "party_ptr \<Rightarrow> party_player \<Rightarrow> party_player" where
  "addPartyInvitation q x = (if q \<in> set (pp_invitePartyList x) then x
     else x\<lparr>pp_invitePartyList := q # pp_invitePartyList x\<rparr>)"

definition setParty :: "party_ptr option \<Rightarrow> party_player \<Rightarrow> party_player" where
  "setParty q x = x\<lparr>pp_party := q\<rparr>"

definition party_empty :: "party \<Rightarrow> bool" where
  "party_empty P \<longleftrightarrow> memberList P = [] \<and> inviteList P = []"

definition isPlayerInvited :: "player_ptr \<Rightarrow> party \<Rightarrow> bool" where
  "isPlayerInvited p P \<longleftrightarrow> p \<in> set (inviteList P)"

definition new_party :: "player_ptr \<Rightarrow> party" where
  "new_party l = \<lparr>leader = Some l, memberList = [], inviteList = [], ticksMap = Map.empty,
     sharedExpActive = False, sharedExpEnabled = False\<rparr>"

subsection \<open>Shared experience\<close>

text \<open>
  \<open>std::ceil(static_cast<float>(highestLevel) * 2 / 3)\<close> is the integer \<open>(2 * highestLevel + 2) div 3\<close>
  while the quotient is below \<open>2 ^ 23\<close>, far above any level that 64 bits of experience give.
\<close>

definition minShareLevel :: "u32 \<Rightarrow> nat" where
  "minShareLevel highestLevel = (2 * unat highestLevel + 2) div 3"

fun highest_level :: "u32 \<Rightarrow> player_ptr list \<Rightarrow> world \<Rightarrow> u32 option" where
  "highest_level highestLevel [] w = Some highestLevel"
| "highest_level highestLevel (m # ms) w =
     do { x \<leftarrow> w_players w m;
          highest_level (if pp_level x > highestLevel then pp_level x else highestLevel) ms w }"

definition canUseSharedExperience :: "party_env \<Rightarrow> party \<Rightarrow> player_ptr \<Rightarrow> world \<Rightarrow> bool option" where
  "canUseSharedExperience env P player w =
     (if memberList P = [] then Some False
      else do { l \<leftarrow> leader P;
                L \<leftarrow> w_players w l;
                highestLevel \<leftarrow> highest_level (pp_level L) (memberList P) w;
                x \<leftarrow> w_players w player;
                if unat (pp_level x) < minShareLevel highestLevel then Some False
                else if \<not> isInRangeZ (pp_position L) (pp_position x) EXPERIENCE_SHARE_RANGE
                       EXPERIENCE_SHARE_RANGE EXPERIENCE_SHARE_FLOORS then Some False
                else if \<not> pp_notGainInFight x then
                  (case ticksMap P player of
                     None \<Rightarrow> Some False
                   | Some t \<Rightarrow> Some (\<not> (now env - t > pzLocked env)))
                else Some True })"

fun all_can_use :: "party_env \<Rightarrow> party \<Rightarrow> player_ptr list \<Rightarrow> world \<Rightarrow> bool option" where
  "all_can_use env P [] w = Some True"
| "all_can_use env P (m # ms) w =
     do { b \<leftarrow> canUseSharedExperience env P m w; if \<not> b then Some False else all_can_use env P ms w }"

definition canEnableSharedExperience :: "party_env \<Rightarrow> party \<Rightarrow> world \<Rightarrow> bool option" where
  "canEnableSharedExperience env P w =
     do { l \<leftarrow> leader P;
          b \<leftarrow> canUseSharedExperience env P l w;
          if \<not> b then Some False else all_can_use env P (memberList P) w }"

definition updateAllPartyIcons :: "party \<Rightarrow> world \<Rightarrow> world option" where
  "updateAllPartyIcons P w = do { w \<leftarrow> touch (memberList P) w; l \<leftarrow> leader P; touch [l] w }"

definition updateSharedExperience :: "party_env \<Rightarrow> party_ptr \<Rightarrow> world \<Rightarrow> world option" where
  "updateSharedExperience env q w =
     do { P \<leftarrow> w_parties w q;
          if sharedExpActive P then
            do { result \<leftarrow> canEnableSharedExperience env P w;
                 if result \<noteq> sharedExpEnabled P then
                   do { let P = P\<lparr>sharedExpEnabled := result\<rparr>;
                        updateAllPartyIcons P (set_party q P w) }
                 else Some w }
          else Some w }"

definition setSharedExperience :: "party_env \<Rightarrow> party_ptr \<Rightarrow> player_ptr \<Rightarrow> bool \<Rightarrow> world \<Rightarrow> (bool \<times> world) option" where
  "setSharedExperience env q player active w =
     do { P \<leftarrow> w_parties w q;
          if leader P \<noteq> Some player then Some (False, w)
          else if sharedExpActive P = active then Some (True, w)
          else do { let P = P\<lparr>sharedExpActive := active\<rparr>;
                    P \<leftarrow> (if active then
                            do { b \<leftarrow> canEnableSharedExperience env P w; Some (P\<lparr>sharedExpEnabled := b\<rparr>) }
                          else Some P);
                    w \<leftarrow> updateAllPartyIcons P (set_party q P w);
                    Some (True, w) } }"

definition clearPlayerPoints :: "party_env \<Rightarrow> party_ptr \<Rightarrow> player_ptr \<Rightarrow> world \<Rightarrow> world option" where
  "clearPlayerPoints env q player w =
     do { P \<leftarrow> w_parties w q;
          if ticksMap P player \<noteq> None then
            updateSharedExperience env q (set_party q (P\<lparr>ticksMap := (ticksMap P)(player := None)\<rparr>) w)
          else Some w }"

definition updatePlayerTicks :: "party_env \<Rightarrow> party_ptr \<Rightarrow> player_ptr \<Rightarrow> u32 \<Rightarrow> world \<Rightarrow> world option" where
  "updatePlayerTicks env q player points w =
     do { P \<leftarrow> w_parties w q;
          x \<leftarrow> w_players w player;
          if points \<noteq> 0 \<and> \<not> pp_notGainInFight x then
            updateSharedExperience env q (set_party q (P\<lparr>ticksMap := (ticksMap P)(player \<mapsto> now env)\<rparr>) w)
          else Some w }"

subsection \<open>Membership\<close>

definition broadcastPartyMessage :: "party \<Rightarrow> bool \<Rightarrow> world \<Rightarrow> world option" where
  "broadcastPartyMessage P sendToInvitations w =
     do { w \<leftarrow> touch (memberList P) w;
          l \<leftarrow> leader P;
          w \<leftarrow> touch [l] w;
          if sendToInvitations then touch (inviteList P) w else Some w }"

definition disband :: "party_env \<Rightarrow> party_ptr \<Rightarrow> world \<Rightarrow> world option" where
  "disband env q w =
     do { P \<leftarrow> w_parties w q;
          if \<not> onDisband env q then Some w
          else do { currentLeader \<leftarrow> leader P;
                    w \<leftarrow> set_player currentLeader (setParty None) w;
                    w \<leftarrow> for_players (inviteList P) (removePartyInvitation q) w;
                    w \<leftarrow> for_players (memberList P) (setParty None) w;
                    Some (w\<lparr>w_parties := (w_parties w)(q := None)\<rparr>) } }"

definition passPartyLeadership ::
  "party_env \<Rightarrow> party_ptr \<Rightarrow> player_ptr \<Rightarrow> bool \<Rightarrow> world \<Rightarrow> (bool \<times> world) option" where
  "passPartyLeadership env q player forceRemove w =
     do { P \<leftarrow> w_parties w q;
          if leader P = Some player then Some (False, w)
          else do { x \<leftarrow> w_players w player;
                    if pp_party x \<noteq> Some q then Some (False, w)
                    else if \<not> onPassLeadership env q player \<and> \<not> forceRemove then Some (False, w)
                    else do { let P = P\<lparr>memberList := remove1 player (memberList P)\<rparr>;
                              w \<leftarrow> broadcastPartyMessage P True w;
                              oldLeader \<leftarrow> leader P;
                              let P = P\<lparr>leader := Some player, memberList := oldLeader # memberList P\<rparr>;
                              w \<leftarrow> updateSharedExperience env q (set_party q P w);
                              w \<leftarrow> touch (memberList P @ inviteList P @ [player]) w;
                              Some (True, w) } } }"

text \<open>The part of \<open>leaveParty\<close> after the question of leadership is settled.\<close>

definition leaveParty_rest :: "party_env \<Rightarrow> party_ptr \<Rightarrow> player_ptr \<Rightarrow> bool \<Rightarrow> world \<Rightarrow> (bool \<times> world) option" where
  "leaveParty_rest env q player missingLeader w =
     do { P \<leftarrow> w_parties w q;
          let P = P\<lparr>memberList := remove1 player (memberList P)\<rparr>;
          w \<leftarrow> set_player player (setParty None) (set_party q P w);
          w \<leftarrow> touch (memberList P) w;
          l \<leftarrow> leader P;
          w \<leftarrow> touch [l, player] w;
          w \<leftarrow> updateSharedExperience env q w;
          w \<leftarrow> clearPlayerPoints env q player w;
          w \<leftarrow> broadcastPartyMessage P False w;
          w \<leftarrow> (if missingLeader \<or> party_empty P then disband env q w else Some w);
          Some (True, w) }"

definition leaveParty ::
  "party_env \<Rightarrow> party_ptr \<Rightarrow> player_ptr \<Rightarrow> bool \<Rightarrow> world \<Rightarrow> (bool \<times> world) option" where
  "leaveParty env q player forceRemove w =
     do { P \<leftarrow> w_parties w q;
          x \<leftarrow> w_players w player;
          if pp_party x \<noteq> Some q \<and> leader P \<noteq> Some player then Some (False, w)
          else let canRemove = onLeave env q player in
          if \<not> forceRemove \<and> \<not> canRemove then Some (False, w)
          else do { (missingLeader, w) \<leftarrow>
                      (if leader P = Some player then
                         (if memberList P \<noteq> [] then
                            (if length (memberList P) = 1 \<and> inviteList P = [] then Some (True, w)
                             else do { (_, w) \<leftarrow> passPartyLeadership env q (hd (memberList P)) True w;
                                       Some (False, w) })
                          else Some (True, w))
                       else Some (False, w));
                    leaveParty_rest env q player missingLeader w } }"

definition joinParty :: "party_env \<Rightarrow> party_ptr \<Rightarrow> player_ptr \<Rightarrow> world \<Rightarrow> (bool \<times> world) option" where
  "joinParty env q player w =
     do { P \<leftarrow> w_parties w q;
          if \<not> onJoin env q player then Some (False, w)
          else if player \<notin> set (inviteList P) then Some (False, w)
          else do { let P = P\<lparr>inviteList := remove1 player (inviteList P)\<rparr>;
                    w \<leftarrow> broadcastPartyMessage P False w;
                    w \<leftarrow> set_player player (setParty (Some q)) (set_party q P w);
                    l \<leftarrow> leader P;
                    w \<leftarrow> touch (memberList P @ [player, l]) w;
                    let P = P\<lparr>memberList := memberList P @ [player]\<rparr>;
                    w \<leftarrow> set_player player (removePartyInvitation q) (set_party q P w);
                    w \<leftarrow> updateSharedExperience env q w;
                    Some (True, w) } }"

definition removeInvite ::
  "party_env \<Rightarrow> party_ptr \<Rightarrow> player_ptr \<Rightarrow> bool \<Rightarrow> world \<Rightarrow> (bool \<times> world) option" where
  "removeInvite env q player removeFromPlayer w =
     do { P \<leftarrow> w_parties w q;
          if player \<notin> set (inviteList P) then Some (False, w)
          else do { let P = P\<lparr>inviteList := remove1 player (inviteList P)\<rparr>;
                    l \<leftarrow> leader P;
                    w \<leftarrow> touch [l, player] (set_party q P w);
                    w \<leftarrow> (if removeFromPlayer then set_player player (removePartyInvitation q) w else Some w);
                    w \<leftarrow> (if party_empty P then disband env q w else Some w);
                    Some (True, w) } }"

definition revokeInvitation :: "party_env \<Rightarrow> party_ptr \<Rightarrow> player_ptr \<Rightarrow> world \<Rightarrow> world option" where
  "revokeInvitation env q player w =
     do { P \<leftarrow> w_parties w q;
          if \<not> onRevokeInvitation env q player then Some w
          else do { l \<leftarrow> leader P;
                    w \<leftarrow> touch [player, l] w;
                    (_, w) \<leftarrow> removeInvite env q player True w;
                    Some w } }"

definition invitePlayer :: "party_ptr \<Rightarrow> player_ptr \<Rightarrow> world \<Rightarrow> (bool \<times> world) option" where
  "invitePlayer q player w =
     do { P \<leftarrow> w_parties w q;
          if isPlayerInvited player P then Some (False, w)
          else do { l \<leftarrow> leader P;
                    w \<leftarrow> touch [l, player] w;
                    let P = P\<lparr>inviteList := inviteList P @ [player]\<rparr>;
                    w \<leftarrow> set_player player (addPartyInvitation q) (set_party q P w);
                    Some (True, w) } }"

fun remove_invites :: "party_env \<Rightarrow> player_ptr \<Rightarrow> party_ptr list \<Rightarrow> world \<Rightarrow> world option" where
  "remove_invites env player [] w = Some w"
| "remove_invites env player (q # qs) w =
     do { (_, w) \<leftarrow> removeInvite env q player False w; remove_invites env player qs w }"

definition clearPartyInvitations :: "party_env \<Rightarrow> player_ptr \<Rightarrow> world \<Rightarrow> world option" where
  "clearPartyInvitations env player w =
     do { x \<leftarrow> w_players w player;
          w \<leftarrow> remove_invites env player (pp_invitePartyList x) w;
          set_player player (\<lambda>x. x\<lparr>pp_invitePartyList := []\<rparr>) w }"

subsection \<open>The handlers of the game\<close>

definition isInviting :: "player_ptr \<Rightarrow> player_ptr \<Rightarrow> world \<Rightarrow> bool option" where
  "isInviting this player w =
     do { x \<leftarrow> w_players w this;
          case pp_party x of
            None \<Rightarrow> Some False
          | Some q \<Rightarrow> do { P \<leftarrow> w_parties w q;
                           Some (leader P = Some this \<and> isPlayerInvited player P) } }"

definition isPartner :: "player_ptr \<Rightarrow> player_ptr \<Rightarrow> world \<Rightarrow> bool option" where
  "isPartner this player w =
     do { x \<leftarrow> w_players w this;
          if pp_party x = None \<or> player = this then Some False
          else do { y \<leftarrow> w_players w player; Some (pp_party x = pp_party y) } }"

text \<open>\<open>fresh\<close> is the address that \<open>new Party\<close> returns.\<close>

definition playerInviteToParty ::
  "party_env \<Rightarrow> party_ptr \<Rightarrow> player_ptr \<Rightarrow> player_ptr \<Rightarrow> world \<Rightarrow> world option" where
  "playerInviteToParty env fresh player invited w =
     (if player = invited then Some w
      else case w_players w player of None \<Rightarrow> Some w | Some x \<Rightarrow>
      (case w_players w invited of None \<Rightarrow> Some w | Some y \<Rightarrow>
      do { inviting \<leftarrow> isInviting invited player w;
           if inviting then Some w
           else if pp_party y \<noteq> None then Some w
           else do { r \<leftarrow> (case pp_party x of
                            None \<Rightarrow> do { w \<leftarrow> set_player player (setParty (Some fresh))
                                                (set_party fresh (new_party player) w);
                                         Some (Some fresh, w) }
                          | Some q \<Rightarrow> do { P \<leftarrow> w_parties w q;
                                          if leader P \<noteq> Some player then Some (None, w)
                                          else Some (Some q, w) });
                     case r of
                       (None, w) \<Rightarrow> Some w
                     | (Some q, w) \<Rightarrow>
                         if \<not> onInvite env q invited then
                           do { P \<leftarrow> w_parties w q;
                                if party_empty P then
                                  do { w \<leftarrow> set_player player (setParty None) w;
                                       Some (w\<lparr>w_parties := (w_parties w)(q := None)\<rparr>) }
                                else Some w }
                         else do { (_, w) \<leftarrow> invitePlayer q invited w; Some w } } }))"

definition playerJoinParty :: "party_env \<Rightarrow> player_ptr \<Rightarrow> player_ptr \<Rightarrow> world \<Rightarrow> world option" where
  "playerJoinParty env player leaderId w =
     (case w_players w player of None \<Rightarrow> Some w | Some x \<Rightarrow>
      (case w_players w leaderId of None \<Rightarrow> Some w | Some l \<Rightarrow>
      do { inviting \<leftarrow> isInviting leaderId player w;
           if \<not> inviting then Some w
           else case pp_party l of None \<Rightarrow> Some w | Some q \<Rightarrow>
             do { P \<leftarrow> w_parties w q;
                  if leader P \<noteq> Some leaderId then Some w
                  else if pp_party x \<noteq> None then Some w
                  else do { (_, w) \<leftarrow> joinParty env q player w; Some w } } }))"

definition playerRevokePartyInvitation :: "party_env \<Rightarrow> player_ptr \<Rightarrow> player_ptr \<Rightarrow> world \<Rightarrow> world option" where
  "playerRevokePartyInvitation env player invited w =
     (case w_players w player of None \<Rightarrow> Some w | Some x \<Rightarrow>
      (case pp_party x of None \<Rightarrow> Some w | Some q \<Rightarrow>
       do { P \<leftarrow> w_parties w q;
            if leader P \<noteq> Some player then Some w
            else case w_players w invited of None \<Rightarrow> Some w | Some y \<Rightarrow>
              do { inviting \<leftarrow> isInviting player invited w;
                   if \<not> inviting then Some w else revokeInvitation env q invited w } }))"

definition playerPassPartyLeadership :: "party_env \<Rightarrow> player_ptr \<Rightarrow> player_ptr \<Rightarrow> world \<Rightarrow> world option" where
  "playerPassPartyLeadership env player newLeader w =
     (case w_players w player of None \<Rightarrow> Some w | Some x \<Rightarrow>
      (case pp_party x of None \<Rightarrow> Some w | Some q \<Rightarrow>
       do { P \<leftarrow> w_parties w q;
            if leader P \<noteq> Some player then Some w
            else case w_players w newLeader of None \<Rightarrow> Some w | Some y \<Rightarrow>
              do { partner \<leftarrow> isPartner player newLeader w;
                   if \<not> partner then Some w
                   else do { (_, w) \<leftarrow> passPartyLeadership env q newLeader False w; Some w } } }))"

definition playerLeaveParty :: "party_env \<Rightarrow> player_ptr \<Rightarrow> world \<Rightarrow> world option" where
  "playerLeaveParty env player w =
     (case w_players w player of None \<Rightarrow> Some w | Some x \<Rightarrow>
      (case pp_party x of None \<Rightarrow> Some w | Some q \<Rightarrow>
       if pp_infight x then Some w
       else do { (_, w) \<leftarrow> leaveParty env q player False w; Some w }))"

definition playerEnableSharedPartyExperience :: "party_env \<Rightarrow> player_ptr \<Rightarrow> bool \<Rightarrow> world \<Rightarrow> world option" where
  "playerEnableSharedPartyExperience env player active w =
     (case w_players w player of None \<Rightarrow> Some w | Some x \<Rightarrow>
      (case pp_party x of None \<Rightarrow> Some w | Some q \<Rightarrow>
       if pp_infight x \<and> \<not> pp_protectionZone x then Some w
       else do { (_, w) \<leftarrow> setSharedExperience env q player active w; Some w }))"

text \<open>The party part of a player's removal from the game, and the arrival of a player.\<close>

definition playerLogout :: "party_env \<Rightarrow> player_ptr \<Rightarrow> world \<Rightarrow> world option" where
  "playerLogout env player w =
     do { w \<leftarrow> clearPartyInvitations env player w;
          x \<leftarrow> w_players w player;
          w \<leftarrow> (case pp_party x of
                  None \<Rightarrow> Some w
                | Some q \<Rightarrow> do { (_, w) \<leftarrow> leaveParty env q player True w; Some w });
          Some (w\<lparr>w_players := (w_players w)(player := None)\<rparr>) }"

end
