(* ===== verification/Party_Invariant.thy ===== *)
theory Party_Invariant
  imports Party_System
begin

text \<open>
  What a party heap says about membership (its view), the changes of the view that keep both ends of
  every membership and invitation linked, and the proof that the operations of \<open>Party_System\<close> make only
  such changes and never follow a dangling pointer.
\<close>

subsection \<open>What the heap says about membership\<close>

text \<open>
  The view of a heap: the party of every player, the parties that invite it, and the leader, members and
  invitees of every party.  The invariant speaks about the view only.
\<close>

definition party_of :: "world \<Rightarrow> player_ptr \<Rightarrow> party_ptr option" where
  "party_of w p = (case w_players w p of None \<Rightarrow> None | Some x \<Rightarrow> pp_party x)"

definition invited_by :: "world \<Rightarrow> player_ptr \<Rightarrow> party_ptr set" where
  "invited_by w p = (case w_players w p of None \<Rightarrow> {} | Some x \<Rightarrow> set (pp_invitePartyList x))"

type_synonym party_core = "player_ptr option \<times> player_ptr list \<times> player_ptr list"

definition core_of :: "party \<Rightarrow> party_core" where
  "core_of P = (leader P, memberList P, inviteList P)"

definition core :: "world \<Rightarrow> party_ptr \<Rightarrow> party_core option" where
  "core w q = map_option core_of (w_parties w q)"

definition core_ok :: "(player_ptr \<Rightarrow> party_ptr option) \<Rightarrow> (player_ptr \<Rightarrow> party_ptr set) \<Rightarrow> party_ptr \<Rightarrow>
    party_core \<Rightarrow> bool" where
  "core_ok po iv q c = (case c of (ld, ms, is) \<Rightarrow>
     (\<exists>l. ld = Some l \<and> distinct (l # ms) \<and> distinct is \<and>
       (\<forall>p. p = l \<or> p \<in> set ms \<longleftrightarrow> po p = Some q) \<and> (\<forall>p. p \<in> set is \<longleftrightarrow> q \<in> iv p) \<and>
       (\<forall>p \<in> set is. p \<noteq> l \<and> p \<notin> set ms)))"

definition view_ok :: "(player_ptr \<Rightarrow> party_ptr option) \<Rightarrow> (player_ptr \<Rightarrow> party_ptr set) \<Rightarrow>
    (party_ptr \<Rightarrow> party_core option) \<Rightarrow> bool" where
  "view_ok po iv pa \<longleftrightarrow> (\<forall>q c. pa q = Some c \<longrightarrow> core_ok po iv q c) \<and>
     (\<forall>p q. po p = Some q \<longrightarrow> pa q \<noteq> None) \<and> (\<forall>p q. q \<in> iv p \<longrightarrow> pa q \<noteq> None)"

definition nonempty_parties :: "(party_ptr \<Rightarrow> party_core option) \<Rightarrow> bool" where
  "nonempty_parties pa \<longleftrightarrow> (\<forall>q ld ms is. pa q = Some (ld, ms, is) \<longrightarrow> ms \<noteq> [] \<or> is \<noteq> [])"

definition linked :: "world \<Rightarrow> bool" where
  "linked w \<longleftrightarrow> view_ok (party_of w) (invited_by w) (core w)"

definition party_inv :: "world \<Rightarrow> bool" where
  "party_inv w \<longleftrightarrow> linked w \<and> nonempty_parties (core w)"

abbreviation present :: "world \<Rightarrow> player_ptr set" where
  "present w \<equiv> dom (w_players w)"

named_theorems view_simps

lemma core_of_simps [view_simps]:
  "core_of (P\<lparr>memberList := ms\<rparr>) = (leader P, ms, inviteList P)"
  "core_of (P\<lparr>inviteList := is\<rparr>) = (leader P, memberList P, is)"
  "core_of (P\<lparr>leader := ld\<rparr>) = (ld, memberList P, inviteList P)"
  "core_of (P\<lparr>sharedExpEnabled := b\<rparr>) = core_of P"
  "core_of (P\<lparr>sharedExpActive := b\<rparr>) = core_of P"
  "core_of (P\<lparr>ticksMap := t\<rparr>) = core_of P"
  by (simp_all add: core_of_def)

lemma set_party_view [view_simps]:
  "party_of (set_party q P w) = party_of w"
  "invited_by (set_party q P w) = invited_by w"
  "core (set_party q P w) = (core w)(q \<mapsto> core_of P)"
  "present (set_party q P w) = present w"
  "w_players (set_party q P w) = w_players w"
  "w_parties (set_party q P w) = (w_parties w)(q \<mapsto> P)"
  by (auto simp: set_party_def party_of_def invited_by_def core_def fun_eq_iff)

lemma party_of_present: "party_of w p = Some q \<Longrightarrow> p \<in> present w"
  by (auto simp: party_of_def split: option.splits)

lemma invited_present: "q \<in> invited_by w p \<Longrightarrow> p \<in> present w"
  by (auto simp: invited_by_def split: option.splits)

lemma core_SomeI: "w_parties w q = Some P \<Longrightarrow> core w q = Some (core_of P)"
  by (simp add: core_def)

lemma touch_present: "set ps \<subseteq> present w \<Longrightarrow> touch ps w = Some w"
  by (auto simp: touch_def list_all_iff)

text \<open>The same view: what a handler may assume after an operation that only notifies.\<close>

definition same_view :: "world \<Rightarrow> world \<Rightarrow> bool" where
  "same_view w w' \<longleftrightarrow> party_of w' = party_of w \<and> invited_by w' = invited_by w \<and> core w' = core w \<and>
     present w' = present w"

lemma same_view_refl [simp]: "same_view w w"
  by (simp add: same_view_def)

lemma same_view_linked: "same_view w w' \<Longrightarrow> linked w' = linked w"
  by (simp add: same_view_def linked_def)

lemma set_player_party:
  assumes "p \<in> present w"
  shows "\<exists>w'. set_player p (setParty v) w = Some w' \<and> party_of w' = (party_of w)(p := v) \<and>
    invited_by w' = invited_by w \<and> core w' = core w \<and> present w' = present w \<and> w_parties w' = w_parties w"
  using assms by (auto simp: set_player_def party_of_def invited_by_def core_def setParty_def fun_eq_iff)

lemma set_player_uninvite:
  assumes "p \<in> present w"
  shows "\<exists>w'. set_player p (removePartyInvitation q) w = Some w' \<and> party_of w' = party_of w \<and>
    invited_by w' = (invited_by w)(p := invited_by w p - {q}) \<and> core w' = core w \<and>
    present w' = present w \<and> w_parties w' = w_parties w"
  using assms
  by (auto simp: set_player_def party_of_def invited_by_def core_def removePartyInvitation_def fun_eq_iff)

lemma set_player_invite:
  assumes "p \<in> present w"
  shows "\<exists>w'. set_player p (addPartyInvitation q) w = Some w' \<and> party_of w' = party_of w \<and>
    invited_by w' = (invited_by w)(p := insert q (invited_by w p)) \<and> core w' = core w \<and>
    present w' = present w \<and> w_parties w' = w_parties w"
  using assms
  by (auto simp: set_player_def party_of_def invited_by_def core_def addPartyInvitation_def fun_eq_iff)

lemma for_players_party:
  assumes "set ps \<subseteq> present w"
  shows "\<exists>w'. for_players ps (setParty v) w = Some w' \<and>
    party_of w' = (\<lambda>p. if p \<in> set ps then v else party_of w p) \<and>
    invited_by w' = invited_by w \<and> core w' = core w \<and> present w' = present w \<and> w_parties w' = w_parties w"
  using assms
proof (induction ps arbitrary: w)
  case (Cons p ps)
  then obtain w1 where w1: "set_player p (setParty v) w = Some w1" "party_of w1 = (party_of w)(p := v)"
    "invited_by w1 = invited_by w" "core w1 = core w" "present w1 = present w" "w_parties w1 = w_parties w"
    using set_player_party [of p w v] by auto
  with Cons.IH [of w1] Cons.prems show ?case by (fastforce simp: fun_eq_iff)
qed simp

lemma for_players_uninvite:
  assumes "set ps \<subseteq> present w"
  shows "\<exists>w'. for_players ps (removePartyInvitation q) w = Some w' \<and> party_of w' = party_of w \<and>
    invited_by w' = (\<lambda>p. if p \<in> set ps then invited_by w p - {q} else invited_by w p) \<and>
    core w' = core w \<and> present w' = present w \<and> w_parties w' = w_parties w"
  using assms
proof (induction ps arbitrary: w)
  case (Cons p ps)
  then obtain w1 where w1: "set_player p (removePartyInvitation q) w = Some w1" "party_of w1 = party_of w"
    "invited_by w1 = (invited_by w)(p := invited_by w p - {q})" "core w1 = core w" "present w1 = present w"
    "w_parties w1 = w_parties w"
    using set_player_uninvite [of p w q] by auto
  with Cons.IH [of w1] Cons.prems show ?case by (fastforce simp: fun_eq_iff)
qed simp

lemma disband_view:
  assumes "w_parties w q = Some P" and "onDisband env q" and "leader P = Some l"
    and "insert l (set (memberList P) \<union> set (inviteList P)) \<subseteq> present w"
  shows "\<exists>w'. disband env q w = Some w' \<and>
    party_of w' = (\<lambda>p. if p = l \<or> p \<in> set (memberList P) then None else party_of w p) \<and>
    invited_by w' = (\<lambda>p. if p \<in> set (inviteList P) then invited_by w p - {q} else invited_by w p) \<and>
    core w' = (core w)(q := None) \<and> present w' = present w"
proof -
  obtain w1 where w1: "set_player l (setParty None) w = Some w1" "party_of w1 = (party_of w)(l := None)"
    "invited_by w1 = invited_by w" "core w1 = core w" "present w1 = present w" "w_parties w1 = w_parties w"
    using set_player_party [of l w None] assms(4) by auto
  obtain w2 where w2: "for_players (inviteList P) (removePartyInvitation q) w1 = Some w2"
    "party_of w2 = party_of w1"
    "invited_by w2 = (\<lambda>p. if p \<in> set (inviteList P) then invited_by w1 p - {q} else invited_by w1 p)"
    "core w2 = core w1" "present w2 = present w1" "w_parties w2 = w_parties w1"
    using for_players_uninvite [of "inviteList P" w1 q] assms(4) w1(5) by auto
  obtain w3 where w3: "for_players (memberList P) (setParty None) w2 = Some w3"
    "party_of w3 = (\<lambda>p. if p \<in> set (memberList P) then None else party_of w2 p)"
    "invited_by w3 = invited_by w2" "core w3 = core w2" "present w3 = present w2" "w_parties w3 = w_parties w2"
    using for_players_party [of "memberList P" w2 None] assms(4) w1(5) w2(5) by auto
  let ?w = "w3\<lparr>w_parties := (w_parties w3)(q := None)\<rparr>"
  have "disband env q w = Some ?w"
    using assms(1-3) w1(1) w2(1) w3(1) by (simp add: disband_def)
  moreover have "party_of ?w = party_of w3" "invited_by ?w = invited_by w3"
    "core ?w = (core w3)(q := None)" "present ?w = present w3"
    by (auto simp: party_of_def invited_by_def core_def fun_eq_iff)
  ultimately show ?thesis using w1 w2 w3 by (auto simp: fun_eq_iff)
qed

lemma highest_level_defined: "set ms \<subseteq> present w \<Longrightarrow> highest_level h ms w \<noteq> None"
  by (induction ms arbitrary: h) auto

lemma canUse_defined:
  assumes "leader P = Some l" and "insert l (insert p (set (memberList P))) \<subseteq> present w"
  shows "\<exists>b. canUseSharedExperience env P p w = Some b"
proof -
  obtain L x where "w_players w l = Some L" "w_players w p = Some x" using assms(2) by blast
  moreover obtain h where "highest_level (pp_level L) (memberList P) w = Some h"
    using highest_level_defined [of "memberList P" w "pp_level L"] assms(2) by auto
  ultimately show ?thesis
    using assms(1) by (auto simp: canUseSharedExperience_def split: option.splits)
qed

lemma all_can_use_defined:
  assumes "leader P = Some l" and "insert l (set (memberList P)) \<subseteq> present w" and "set ms \<subseteq> present w"
  shows "\<exists>b. all_can_use env P ms w = Some b"
  using assms(3)
proof (induction ms)
  case (Cons m ms)
  with canUse_defined [OF assms(1), of m w env] assms(2) show ?case by fastforce
qed auto

lemma canEnable_defined:
  assumes "leader P = Some l" and "insert l (set (memberList P)) \<subseteq> present w"
  shows "\<exists>b. canEnableSharedExperience env P w = Some b"
  using canUse_defined [OF assms(1), of l w env] all_can_use_defined [OF assms, of "memberList P" env] assms
  by (fastforce simp: canEnableSharedExperience_def)

lemma updateAllPartyIcons_defined:
  "leader P = Some l \<Longrightarrow> insert l (set (memberList P)) \<subseteq> present w \<Longrightarrow> updateAllPartyIcons P w = Some w"
  by (simp add: updateAllPartyIcons_def touch_present)

lemma updateSharedExperience_view:
  assumes "w_parties w q = Some P" and "leader P = Some l" and "insert l (set (memberList P)) \<subseteq> present w"
  shows "\<exists>w' P'. updateSharedExperience env q w = Some w' \<and> same_view w w' \<and>
    w_parties w' q = Some P' \<and> core_of P' = core_of P \<and> ticksMap P' = ticksMap P"
proof -
  obtain b where b: "canEnableSharedExperience env P w = Some b"
    using canEnable_defined [OF assms(2,3)] by blast
  let ?P = "P\<lparr>sharedExpEnabled := b\<rparr>"
  have "updateAllPartyIcons ?P (set_party q ?P w) = Some (set_party q ?P w)"
    using assms by (intro updateAllPartyIcons_defined [of _ l]) (auto simp: view_simps)
  moreover have "same_view w (set_party q ?P w)"
    using core_SomeI [OF assms(1)] by (auto simp: same_view_def view_simps)
  ultimately show ?thesis
    using assms(1) b by (auto simp: updateSharedExperience_def Let_def view_simps)
qed

lemma clearPlayerPoints_view:
  assumes "w_parties w q = Some P" and "leader P = Some l" and "insert l (set (memberList P)) \<subseteq> present w"
  shows "\<exists>w' P'. clearPlayerPoints env q p w = Some w' \<and> same_view w w' \<and>
    w_parties w' q = Some P' \<and> core_of P' = core_of P"
proof (cases "ticksMap P p")
  case None
  then show ?thesis using assms(1) by (auto simp: clearPlayerPoints_def)
next
  case (Some t)
  let ?P = "P\<lparr>ticksMap := (ticksMap P)(p := None)\<rparr>"
  obtain w' P' where "updateSharedExperience env q (set_party q ?P w) = Some w'"
    "same_view (set_party q ?P w) w'" "w_parties w' q = Some P'" "core_of P' = core_of ?P"
    using updateSharedExperience_view [of "set_party q ?P w" q ?P l env] assms by (auto simp: view_simps)
  moreover have "same_view w (set_party q ?P w)"
    using core_SomeI [OF assms(1)] by (auto simp: same_view_def view_simps)
  ultimately show ?thesis
    using assms(1) Some by (auto simp: clearPlayerPoints_def Let_def view_simps same_view_def)
qed

subsection \<open>The changes of the view that keep both ends linked\<close>

lemma core_ok_iff:
  "core_ok po iv q (Some l, ms, is) \<longleftrightarrow> distinct (l # ms) \<and> distinct is \<and>
    (\<forall>p. po p = Some q \<longleftrightarrow> p = l \<or> p \<in> set ms) \<and> (\<forall>p. q \<in> iv p \<longleftrightarrow> p \<in> set is) \<and>
    (\<forall>p \<in> set is. p \<noteq> l \<and> p \<notin> set ms)"
  by (auto simp: core_ok_def)

lemma core_ok_leader: "core_ok po iv q (ld, ms, is) \<Longrightarrow> \<exists>l. ld = Some l"
  by (auto simp: core_ok_def)

lemma view_okI:
  assumes "\<And>q c. pa q = Some c \<Longrightarrow> core_ok po iv q c"
    and "\<And>p q. po p = Some q \<Longrightarrow> pa q \<noteq> None" and "\<And>p q. q \<in> iv p \<Longrightarrow> pa q \<noteq> None"
  shows "view_ok po iv pa"
  using assms by (simp add: view_ok_def)

lemma core_ok_other:
  "core_ok po iv q c \<Longrightarrow> (\<And>p. po' p = Some q \<longleftrightarrow> po p = Some q) \<Longrightarrow> (\<And>p. q \<in> iv' p \<longleftrightarrow> q \<in> iv p) \<Longrightarrow>
    core_ok po' iv' q c"
  by (auto simp: core_ok_def split: prod.splits)

lemma view_ok_live:
  assumes "view_ok po iv pa"
  shows "pa q = Some c \<Longrightarrow> core_ok po iv q c" "po p = Some q \<Longrightarrow> pa q \<noteq> None" "q \<in> iv p \<Longrightarrow> pa q \<noteq> None"
  using assms unfolding view_ok_def by blast+

text \<open>
  One party changes; the players whose party or invitations change do so for this party only.
\<close>

lemma view_ok_change:
  assumes ok: "view_ok po iv pa" and c: "core_ok po' iv' q c"
    and po: "\<And>p q'. q' \<noteq> q \<Longrightarrow> po' p = Some q' \<longleftrightarrow> po p = Some q'"
    and iv: "\<And>p q'. q' \<noteq> q \<Longrightarrow> q' \<in> iv' p \<longleftrightarrow> q' \<in> iv p"
  shows "view_ok po' iv' (pa(q \<mapsto> c))"
proof (rule view_okI)
  fix q' c' assume "(pa(q \<mapsto> c)) q' = Some c'"
  then show "core_ok po' iv' q' c'"
    using c core_ok_other [OF view_ok_live(1) [OF ok], of q' c' po' iv'] po iv by (cases "q' = q") auto
next
  fix p q' assume "po' p = Some q'"
  then show "(pa(q \<mapsto> c)) q' \<noteq> None" using view_ok_live(2) [OF ok] po by (cases "q' = q") auto
next
  fix p q' assume "q' \<in> iv' p"
  then show "(pa(q \<mapsto> c)) q' \<noteq> None" using view_ok_live(3) [OF ok] iv by (cases "q' = q") auto
qed

lemma view_uninvite:
  assumes ok: "view_ok po iv pa" and q: "pa q = Some (Some l, ms, is)"
  shows "view_ok po (iv(p := iv p - {q})) (pa(q \<mapsto> (Some l, ms, remove1 p is)))"
proof (rule view_ok_change [OF ok])
  note c = view_ok_live(1) [OF ok q, unfolded core_ok_iff]
  show "core_ok po (iv(p := iv p - {q})) q (Some l, ms, remove1 p is)"
    unfolding core_ok_iff using c by auto
qed auto

lemma view_join:
  assumes ok: "view_ok po iv pa" and q: "pa q = Some (Some l, ms, is)" and p: "p \<in> set is" "po p = None"
  shows "view_ok (po(p := Some q)) (iv(p := iv p - {q})) (pa(q \<mapsto> (Some l, ms @ [p], remove1 p is)))"
proof (rule view_ok_change [OF ok])
  note c = view_ok_live(1) [OF ok q, unfolded core_ok_iff]
  show "core_ok (po(p := Some q)) (iv(p := iv p - {q})) q (Some l, ms @ [p], remove1 p is)"
    unfolding core_ok_iff using c assms(3-) by auto
qed (use p view_ok_live(1) [OF ok q, unfolded core_ok_iff] in auto)

lemma view_invite:
  assumes ok: "view_ok po iv pa" and q: "pa q = Some (Some l, ms, is)" and p: "p \<notin> set is" "po p \<noteq> Some q"
  shows "view_ok po (iv(p := insert q (iv p))) (pa(q \<mapsto> (Some l, ms, is @ [p])))"
proof (rule view_ok_change [OF ok])
  note c = view_ok_live(1) [OF ok q, unfolded core_ok_iff]
  show "core_ok po (iv(p := insert q (iv p))) q (Some l, ms, is @ [p])"
    unfolding core_ok_iff using c assms(3-) by auto
qed auto

lemma view_leave:
  assumes ok: "view_ok po iv pa" and q: "pa q = Some (Some l, ms, is)" and p: "p \<in> set ms"
  shows "view_ok (po(p := None)) iv (pa(q \<mapsto> (Some l, remove1 p ms, is)))"
proof (rule view_ok_change [OF ok])
  note c = view_ok_live(1) [OF ok q, unfolded core_ok_iff]
  show "core_ok (po(p := None)) iv q (Some l, remove1 p ms, is)"
    unfolding core_ok_iff using c assms(3-) by auto
qed (use p view_ok_live(1) [OF ok q, unfolded core_ok_iff] in auto)

lemma view_pass:
  assumes ok: "view_ok po iv pa" and q: "pa q = Some (Some l, ms, is)" and p: "p \<in> set ms"
  shows "view_ok po iv (pa(q \<mapsto> (Some p, l # remove1 p ms, is)))"
proof (rule view_ok_change [OF ok])
  note c = view_ok_live(1) [OF ok q, unfolded core_ok_iff]
  show "core_ok po iv q (Some p, l # remove1 p ms, is)"
    unfolding core_ok_iff using c assms(3-) by auto
qed auto

lemma view_create:
  assumes ok: "view_ok po iv pa" and q: "pa q = None" "po p = None"
  shows "view_ok (po(p := Some q)) iv (pa(q \<mapsto> (Some p, [], [])))"
proof (rule view_ok_change [OF ok])
  have "po p' \<noteq> Some q" "q \<notin> iv p'" for p' using view_ok_live(2,3) [OF ok] q(1) by blast+
  then show "core_ok (po(p := Some q)) iv q (Some p, [], [])"
    unfolding core_ok_iff by simp
qed (use q in auto)

lemma view_dissolve:
  assumes ok: "view_ok po iv pa" and q: "pa q = Some (Some l, ms, is)"
  shows "view_ok (\<lambda>p. if p = l \<or> p \<in> set ms then None else po p)
    (\<lambda>p. if p \<in> set is then iv p - {q} else iv p) (pa(q := None))"
proof -
  have l': "po p = Some q \<longleftrightarrow> p = l \<or> p \<in> set ms" "q \<in> iv p \<longleftrightarrow> p \<in> set is" for p
    using view_ok_live(1) [OF ok q, unfolded core_ok_iff] by blast+
  let ?po = "\<lambda>p. if p = l \<or> p \<in> set ms then None else po p"
  let ?iv = "\<lambda>p. if p \<in> set is then iv p - {q} else iv p"
  have po: "?po p = Some q' \<longleftrightarrow> po p = Some q'" if "q' \<noteq> q" for p q'
    using l'(1) [of p] that by auto
  have none: "?po p \<noteq> Some q" "q \<notin> ?iv p" for p using l' [of p] by auto
  show ?thesis
  proof (rule view_okI)
    fix q' c assume "(pa(q := None)) q' = Some c"
    then have q': "q' \<noteq> q" "pa q' = Some c" by (auto split: if_splits)
    show "core_ok ?po ?iv q' c"
    proof (rule core_ok_other [OF view_ok_live(1) [OF ok q'(2)]])
      show "?po p = Some q' \<longleftrightarrow> po p = Some q'" for p using po q'(1) .
      show "q' \<in> ?iv p \<longleftrightarrow> q' \<in> iv p" for p using q'(1) by simp
    qed
  next
    fix p q' assume "?po p = Some q'"
    moreover from this none have "q' \<noteq> q" by metis
    ultimately show "(pa(q := None)) q' \<noteq> None"
      using po [of q' p] view_ok_live(2) [OF ok, of p q'] by simp
  next
    fix p q' assume "q' \<in> ?iv p"
    moreover from this none have "q' \<noteq> q" by metis
    ultimately show "(pa(q := None)) q' \<noteq> None"
      using view_ok_live(3) [OF ok, of q' p] by (auto split: if_splits)
  qed
qed

lemma nonempty_update:
  "nonempty_parties pa \<Longrightarrow> ms \<noteq> [] \<or> is \<noteq> [] \<Longrightarrow> nonempty_parties (pa(q \<mapsto> (ld, ms, is)))"
  "nonempty_parties pa \<Longrightarrow> nonempty_parties (pa(q := None))"
  by (auto simp: nonempty_parties_def)

lemma nonempty_forget: "nonempty_parties (pa(q \<mapsto> c)) \<Longrightarrow> nonempty_parties (pa(q := None))"
  by (auto simp: nonempty_parties_def split: if_splits)

subsection \<open>The operations keep the invariant\<close>

lemma linked_party:
  assumes "linked w" and "w_parties w q = Some P"
  obtains l where "leader P = Some l" "core w q = Some (Some l, memberList P, inviteList P)"
    "distinct (l # memberList P)" "distinct (inviteList P)"
    "\<And>p. party_of w p = Some q \<longleftrightarrow> p = l \<or> p \<in> set (memberList P)"
    "\<And>p. q \<in> invited_by w p \<longleftrightarrow> p \<in> set (inviteList P)"
    "\<And>p. p \<in> set (inviteList P) \<Longrightarrow> p \<noteq> l \<and> p \<notin> set (memberList P)"
    "insert l (set (memberList P) \<union> set (inviteList P)) \<subseteq> present w"
proof -
  have core: "core w q = Some (core_of P)" using core_SomeI [OF assms(2)] .
  then have ok: "core_ok (party_of w) (invited_by w) q (core_of P)"
    using assms(1) view_ok_live(1) unfolding linked_def by blast
  then obtain l where l: "leader P = Some l" unfolding core_of_def using core_ok_leader by blast
  from ok [unfolded core_of_def l core_ok_iff]
  have c: "distinct (l # memberList P)" "distinct (inviteList P)"
    "\<And>p. party_of w p = Some q \<longleftrightarrow> p = l \<or> p \<in> set (memberList P)"
    "\<And>p. q \<in> invited_by w p \<longleftrightarrow> p \<in> set (inviteList P)"
    "\<And>p. p \<in> set (inviteList P) \<Longrightarrow> p \<noteq> l \<and> p \<notin> set (memberList P)" by simp_all
  have "insert l (set (memberList P) \<union> set (inviteList P)) \<subseteq> present w"
  proof
    fix p assume "p \<in> insert l (set (memberList P) \<union> set (inviteList P))"
    then consider "party_of w p = Some q" | "q \<in> invited_by w p" using c(3,4) by blast
    then show "p \<in> present w" using party_of_present invited_present by cases
  qed
  moreover have "core w q = Some (Some l, memberList P, inviteList P)"
    using core unfolding core_of_def l .
  ultimately show ?thesis using that [OF l _ c] by blast
qed

lemma linked_party_exists:
  assumes "linked w"
  shows "party_of w p = Some q \<Longrightarrow> \<exists>P. w_parties w q = Some P"
    and "q \<in> invited_by w p \<Longrightarrow> \<exists>P. w_parties w q = Some P"
  using view_ok_live(2,3) [OF assms [unfolded linked_def]] by (auto simp: core_def)

lemma linked_view:
  "view_ok po iv pa \<Longrightarrow> party_of w = po \<Longrightarrow> invited_by w = iv \<Longrightarrow> core w = pa \<Longrightarrow> linked w"
  by (simp add: linked_def)

lemma party_invI: "linked w \<Longrightarrow> nonempty_parties (core w) \<Longrightarrow> party_inv w"
  by (simp add: party_inv_def)

lemma party_inv_linked: "party_inv w \<Longrightarrow> linked w"
  by (simp add: party_inv_def)

lemma disband_linked:
  assumes "linked w" and "w_parties w q = Some P" and "onDisband env q"
  shows "\<exists>w'. disband env q w = Some w' \<and> linked w' \<and> core w' = (core w)(q := None) \<and>
    present w' = present w \<and> invited_by w' = (\<lambda>p. invited_by w p - {q}) \<and>
    (\<forall>p. party_of w' p = (if party_of w p = Some q then None else party_of w p))"
proof -
  obtain l where l: "leader P = Some l" "core w q = Some (Some l, memberList P, inviteList P)"
    "\<And>p. party_of w p = Some q \<longleftrightarrow> p = l \<or> p \<in> set (memberList P)"
    "\<And>p. q \<in> invited_by w p \<longleftrightarrow> p \<in> set (inviteList P)"
    "insert l (set (memberList P) \<union> set (inviteList P)) \<subseteq> present w"
    by (rule linked_party [OF assms(1,2)]) (rule that)
  obtain w' where w': "disband env q w = Some w'"
    "party_of w' = (\<lambda>p. if p = l \<or> p \<in> set (memberList P) then None else party_of w p)"
    "invited_by w' = (\<lambda>p. if p \<in> set (inviteList P) then invited_by w p - {q} else invited_by w p)"
    "core w' = (core w)(q := None)" "present w' = present w"
    using disband_view [OF assms(2,3) l(1,5)] by blast
  have "linked w'"
    by (rule linked_view [OF view_dissolve [OF assms(1) [unfolded linked_def] l(2)] w'(2-4)])
  moreover have "invited_by w' = (\<lambda>p. invited_by w p - {q})"
    unfolding w'(3) using l(4) by (intro ext) auto
  moreover have "party_of w' p = (if party_of w p = Some q then None else party_of w p)" for p
    unfolding w'(2) using l(3) by simp
  ultimately show ?thesis using w'(1,4,5) by blast
qed

lemma broadcast_defined:
  assumes "leader P = Some l" and "insert l (set (memberList P) \<union> set (inviteList P)) \<subseteq> present w"
  shows "broadcastPartyMessage P b w = Some w"
  using assms by (simp add: broadcastPartyMessage_def touch_present)

lemma removeInvite_view:
  assumes "w_parties w q = Some P" and "leader P = Some l" and "p \<in> set (inviteList P)"
    and "l \<in> present w" and "p \<in> present w" and "onDisband env q"
  shows "\<exists>w'. removeInvite env q p rm w = Some (True, w') \<and> present w' = present w \<and>
    invited_by w' = (if rm then (invited_by w)(p := invited_by w p - {q}) else invited_by w) \<and>
    (if memberList P = [] \<and> remove1 p (inviteList P) = []
     then core w' = (core w)(q := None) \<and> party_of w' = (party_of w)(l := None)
     else core w' = (core w)(q \<mapsto> (Some l, memberList P, remove1 p (inviteList P))) \<and> party_of w' = party_of w)"
proof -
  let ?P = "P\<lparr>inviteList := remove1 p (inviteList P)\<rparr>"
  let ?w = "set_party q ?P w"
  have t: "touch [l, p] ?w = Some ?w" using assms by (intro touch_present) (auto simp: view_simps)
  obtain w1 where w1: "(if rm then set_player p (removePartyInvitation q) ?w else Some ?w) = Some w1"
    "party_of w1 = party_of w" "present w1 = present w" "core w1 = (core w)(q \<mapsto> core_of ?P)"
    "invited_by w1 = (if rm then (invited_by w)(p := invited_by w p - {q}) else invited_by w)"
    "w_parties w1 q = Some ?P"
    using set_player_uninvite [of p ?w q] assms(5) by (cases rm) (auto simp: view_simps)
  have run: "removeInvite env q p rm w =
      do { w \<leftarrow> (if party_empty ?P then disband env q w1 else Some w1); Some (True, w) }"
    using w1(1) t assms(1-3) by (auto simp: removeInvite_def Let_def)
  show ?thesis
  proof (cases "memberList P = [] \<and> remove1 p (inviteList P) = []")
    case True
    obtain w2 where w2: "disband env q w1 = Some w2" "party_of w2 = (\<lambda>p. if p = l then None else party_of w1 p)"
      "invited_by w2 = invited_by w1" "core w2 = (core w1)(q := None)" "present w2 = present w1"
      using disband_view [OF w1(6) assms(6), of l] assms(2,4) True w1(3) by auto
    have "party_of w2 = (party_of w)(l := None)" unfolding w2(2) w1(2) by auto
    moreover have "core w2 = (core w)(q := None)" unfolding w2(4) w1(4) by simp
    moreover have "removeInvite env q p rm w = Some (True, w2)"
      unfolding run using True w2(1) by (simp add: party_empty_def)
    ultimately show ?thesis using True w1(3,5) w2(3,5) by simp
  next
    case False
    then have "removeInvite env q p rm w = Some (True, w1)"
      unfolding run by (auto simp: party_empty_def)
    then show ?thesis unfolding if_not_P [OF False] using w1(2-5) assms(2) by (simp add: view_simps)
  qed
qed

text \<open>The view of a removed invitation, whether or not it dissolves the party.\<close>

lemma view_removeInvite:
  assumes ok: "view_ok po iv pa" and q: "pa q = Some (Some l, ms, is)"
    and ne: "nonempty_parties pa"
    and pa': "if ms = [] \<and> remove1 p is = [] then pa' = pa(q := None) \<and> po' = po(l := None)
      else pa' = pa(q \<mapsto> (Some l, ms, remove1 p is)) \<and> po' = po"
  shows "view_ok po' (iv(p := iv p - {q})) pa' \<and> nonempty_parties pa'"
proof -
  let ?iv = "iv(p := iv p - {q})" and ?pa = "pa(q \<mapsto> (Some l, ms, remove1 p is))"
  note u = view_uninvite [OF ok q, of p]
  show ?thesis
  proof (cases "ms = [] \<and> remove1 p is = []")
    case True
    have "?pa q = Some (Some l, [], [])" using True by simp
    from view_dissolve [OF u this]
    have "view_ok (\<lambda>x. if x = l \<or> x \<in> set [] then None else po x)
      (\<lambda>x. if x \<in> set [] then ?iv x - {q} else ?iv x) (?pa(q := None))" .
    moreover have "(\<lambda>x. if x = l \<or> x \<in> set [] then None else po x) = po(l := None)"
      "(\<lambda>x. if x \<in> set [] then ?iv x - {q} else ?iv x) = ?iv" "?pa(q := None) = pa(q := None)"
      by auto
    ultimately show ?thesis using True pa' nonempty_update(2) [OF ne] by simp
  next
    case False
    with u pa' nonempty_update(1) [OF ne, of ms "remove1 p is"] show ?thesis by auto
  qed
qed

lemma remove_invites_view:
  assumes "view_ok (party_of w) ((invited_by w)(p := set qs)) (core w)" and "nonempty_parties (core w)"
    and "p \<in> present w" and "distinct qs" and "\<forall>q. onDisband env q"
  shows "\<exists>w'. remove_invites env p qs w = Some w' \<and> present w' = present w \<and>
    invited_by w' = invited_by w \<and> (\<forall>q. party_of w' p = Some q \<longrightarrow> party_of w p = Some q) \<and>
    view_ok (party_of w') ((invited_by w')(p := {})) (core w') \<and> nonempty_parties (core w')"
  using assms(1-4)
proof (induction qs arbitrary: w)
  case Nil
  then show ?case by simp
next
  case (Cons q qs)
  let ?iv = "(invited_by w)(p := set (q # qs))"
  have "core w q \<noteq> None" using view_ok_live(3) [OF Cons.prems(1), of q p] by simp
  then obtain P where P: "w_parties w q = Some P" "core w q = Some (core_of P)"
    by (auto simp: core_def)
  from view_ok_live(1) [OF Cons.prems(1) P(2)] obtain l where l: "leader P = Some l"
    unfolding core_of_def using core_ok_leader by blast
  note c = view_ok_live(1) [OF Cons.prems(1) P(2), unfolded core_of_def l core_ok_iff]
  have p: "p \<in> set (inviteList P)" using c by auto
  have lp: "l \<in> present w" using c party_of_present by blast
  obtain w1 where w1: "removeInvite env q p False w = Some (True, w1)" "present w1 = present w"
    "invited_by w1 = invited_by w"
    "if memberList P = [] \<and> remove1 p (inviteList P) = []
     then core w1 = (core w)(q := None) \<and> party_of w1 = (party_of w)(l := None)
     else core w1 = (core w)(q \<mapsto> (Some l, memberList P, remove1 p (inviteList P))) \<and> party_of w1 = party_of w"
    using removeInvite_view [OF P(1) l p lp Cons.prems(3), of env False] assms(5) by auto
  have qs: "?iv(p := ?iv p - {q}) = (invited_by w1)(p := set qs)"
    using Cons.prems(4) w1(3) by (auto simp: fun_eq_iff)
  have "core w q = Some (Some l, memberList P, inviteList P)" using P(2) l by (simp add: core_of_def)
  from view_removeInvite [OF Cons.prems(1) this Cons.prems(2) w1(4)]
  have "view_ok (party_of w1) ((invited_by w1)(p := set qs)) (core w1)" "nonempty_parties (core w1)"
    unfolding qs by blast+
  note ok1 = this
  have "p \<in> present w1" "distinct qs" using Cons.prems(3,4) w1(2) by simp_all
  with Cons.IH [OF ok1] obtain w' where w': "remove_invites env p qs w1 = Some w'"
    "present w' = present w1" "invited_by w' = invited_by w1"
    "\<forall>q. party_of w' p = Some q \<longrightarrow> party_of w1 p = Some q"
    "view_ok (party_of w') ((invited_by w')(p := {})) (core w')" "nonempty_parties (core w')" by blast
  moreover have "party_of w1 p = Some q' \<Longrightarrow> party_of w p = Some q'" for q'
    using w1(4) by (auto split: if_splits)
  moreover have "remove_invites env p (q # qs) w = Some w'" using w1(1) w'(1) by simp
  ultimately show ?case using w1(2,3) by (intro exI [of _ w']) metis
qed

lemma passPartyLeadership_view:
  assumes "w_parties w q = Some P" and "leader P = Some l" and "p \<noteq> l" and "party_of w p = Some q"
    and "insert l (set (memberList P) \<union> set (inviteList P)) \<subseteq> present w" and "p \<in> present w"
    and "onPassLeadership env q p \<or> force"
  shows "\<exists>w'. passPartyLeadership env q p force w = Some (True, w') \<and> party_of w' = party_of w \<and>
    invited_by w' = invited_by w \<and> present w' = present w \<and>
    core w' = (core w)(q \<mapsto> (Some p, l # remove1 p (memberList P), inviteList P))"
proof -
  let ?P1 = "P\<lparr>memberList := remove1 p (memberList P)\<rparr>"
  let ?P2 = "?P1\<lparr>leader := Some p, memberList := l # remove1 p (memberList P)\<rparr>"
  have members: "set (remove1 p (memberList P)) \<subseteq> present w"
    using assms(5) set_remove1_subset [of p "memberList P"] by blast
  obtain x where x: "w_players w p = Some x" "pp_party x = Some q"
    using assms(4) by (auto simp: party_of_def split: option.splits)
  have b: "broadcastPartyMessage ?P1 True w = Some w"
    using assms(2,5) members by (intro broadcast_defined [of _ l]) auto
  have P2: "w_parties (set_party q ?P2 w) q = Some ?P2" "leader ?P2 = Some p"
    "insert p (set (memberList ?P2)) \<subseteq> present (set_party q ?P2 w)"
    using assms(5,6) members by (simp_all add: view_simps)
  obtain w1 where w1: "updateSharedExperience env q (set_party q ?P2 w) = Some w1"
    "same_view (set_party q ?P2 w) w1"
    using updateSharedExperience_view [OF P2, of env] by blast
  have w1': "party_of w1 = party_of w" "invited_by w1 = invited_by w" "present w1 = present w"
    "core w1 = (core w)(q \<mapsto> (Some p, l # remove1 p (memberList P), inviteList P))"
    using w1(2) by (simp_all add: same_view_def view_simps core_of_def)
  have t: "touch (memberList ?P2 @ inviteList ?P2 @ [p]) w1 = Some w1"
    unfolding w1'(3) [symmetric]
    using assms(5,6) members w1'(3) by (intro touch_present) auto
  have "passPartyLeadership env q p force w = Some (True, w1)"
    using assms(1-3,7) x b w1(1) t by (auto simp: passPartyLeadership_def Let_def)
  with w1' show ?thesis by blast
qed

lemma leaveParty_rest_view:
  assumes "w_parties w q = Some P" and "leader P = Some l"
    and "insert l (set (memberList P) \<union> set (inviteList P)) \<subseteq> present w" and "p \<in> present w"
  shows "\<exists>w2 P2. leaveParty_rest env q p ml w =
      do { w3 \<leftarrow> (if ml \<or> remove1 p (memberList P) = [] \<and> inviteList P = [] then disband env q w2 else Some w2);
           Some (True, w3) } \<and>
    party_of w2 = (party_of w)(p := None) \<and> invited_by w2 = invited_by w \<and> present w2 = present w \<and>
    core w2 = (core w)(q \<mapsto> (Some l, remove1 p (memberList P), inviteList P)) \<and>
    w_parties w2 q = Some P2 \<and> leader P2 = Some l \<and> memberList P2 = remove1 p (memberList P) \<and>
    inviteList P2 = inviteList P"
proof -
  let ?P1 = "P\<lparr>memberList := remove1 p (memberList P)\<rparr>"
  let ?w = "set_party q ?P1 w"
  have members: "set (remove1 p (memberList P)) \<subseteq> present w"
    using assms(3) set_remove1_subset [of p "memberList P"] by blast
  obtain w0 where w0: "set_player p (setParty None) ?w = Some w0" "party_of w0 = (party_of w)(p := None)"
    "invited_by w0 = invited_by w" "present w0 = present w"
    "core w0 = (core w)(q \<mapsto> core_of ?P1)" "w_parties w0 q = Some ?P1"
    using set_player_party [of p ?w None] assms(4) by (auto simp: view_simps)
  have P1: "leader ?P1 = Some l" "insert l (set (memberList ?P1)) \<subseteq> present w0"
    using assms(2,3) members w0(4) by simp_all
  have t: "touch (memberList ?P1) w0 = Some w0" "touch [l, p] w0 = Some w0"
    by (rule touch_present, use P1(2) assms(4) w0(4) in blast)
      (rule touch_present, use P1(2) assms(4) w0(4) in simp)
  obtain w1 P1' where w1: "updateSharedExperience env q w0 = Some w1" "same_view w0 w1"
    "w_parties w1 q = Some P1'" "core_of P1' = core_of ?P1"
    using updateSharedExperience_view [OF w0(6) P1, of env] by blast
  have P1': "leader P1' = Some l" "memberList P1' = remove1 p (memberList P)" "inviteList P1' = inviteList P"
    using w1(4) assms(2) by (simp_all add: core_of_def)
  have "insert l (set (memberList P1')) \<subseteq> present w1"
    using w1(2) P1(2) P1'(2) by (simp add: same_view_def)
  then obtain w2 P2 where w2: "clearPlayerPoints env q p w1 = Some w2" "same_view w1 w2"
    "w_parties w2 q = Some P2" "core_of P2 = core_of P1'"
    using clearPlayerPoints_view [OF w1(3) P1'(1), of env p] by blast
  have pr: "present w2 = present w" using w1(2) w2(2) w0(4) by (simp add: same_view_def)
  have b: "broadcastPartyMessage ?P1 False w2 = Some w2"
    using assms(2,3) members unfolding pr [symmetric]
    by (intro broadcast_defined [of _ l]) auto
  have "leaveParty_rest env q p ml w =
      do { w3 \<leftarrow> (if ml \<or> remove1 p (memberList P) = [] \<and> inviteList P = [] then disband env q w2 else Some w2);
           Some (True, w3) }"
    using assms(1,2) w0(1) t w1(1) w2(1) b by (simp add: leaveParty_rest_def Let_def party_empty_def)
  moreover have "party_of w2 = (party_of w)(p := None)" "invited_by w2 = invited_by w"
    "core w2 = (core w)(q \<mapsto> (Some l, remove1 p (memberList P), inviteList P))"
    using w0(2,3,5) w1(2) w2(2) assms(2) by (simp_all add: same_view_def view_simps)
  moreover have "leader P2 = Some l" "memberList P2 = remove1 p (memberList P)" "inviteList P2 = inviteList P"
    using w2(4) P1' by (simp_all add: core_of_def)
  ultimately show ?thesis using pr w2(3) by blast
qed

definition left_party :: "world \<Rightarrow> player_ptr \<Rightarrow> world \<Rightarrow> bool" where
  "left_party w p w' \<longleftrightarrow> party_inv w' \<and> present w' = present w \<and> party_of w' p = None \<and>
     invited_by w' p \<subseteq> invited_by w p"

text \<open>A member leaves; an empty party is disbanded.\<close>

lemma leave_member:
  assumes "linked w" and "nonempty_parties ((core w)(q := None))" and "w_parties w q = Some P"
    and "p \<in> set (memberList P)" and "onDisband env q"
  shows "\<exists>w'. leaveParty_rest env q p False w = Some (True, w') \<and> left_party w p w'"
proof -
  obtain l where l: "leader P = Some l" "core w q = Some (Some l, memberList P, inviteList P)"
    "insert l (set (memberList P) \<union> set (inviteList P)) \<subseteq> present w"
    by (rule linked_party [OF assms(1,3)]) (rule that)
  have p: "p \<in> present w" using l(3) assms(4) by blast
  obtain w2 P2 where w2: "leaveParty_rest env q p False w =
      do { w3 \<leftarrow> (if False \<or> remove1 p (memberList P) = [] \<and> inviteList P = [] then disband env q w2 else Some w2);
           Some (True, w3) }"
    "party_of w2 = (party_of w)(p := None)" "invited_by w2 = invited_by w" "present w2 = present w"
    "core w2 = (core w)(q \<mapsto> (Some l, remove1 p (memberList P), inviteList P))" "w_parties w2 q = Some P2"
    using leaveParty_rest_view [OF assms(3) l(1,3) p, of env False] by blast
  have ok: "linked w2"
    using view_leave [OF assms(1) [unfolded linked_def] l(2) assms(4)] by (rule linked_view) (use w2 in auto)
  show ?thesis
  proof (cases "remove1 p (memberList P) = [] \<and> inviteList P = []")
    case True
    obtain w3 where w3: "disband env q w2 = Some w3" "linked w3" "core w3 = (core w2)(q := None)"
      "present w3 = present w2" "invited_by w3 = (\<lambda>p. invited_by w2 p - {q})"
      "\<forall>p. party_of w3 p = (if party_of w2 p = Some q then None else party_of w2 p)"
      using disband_linked [OF ok w2(6) assms(5)] by blast
    have "party_inv w3"
      using w3(2,3) w2(5) assms(2) by (simp add: party_inv_def)
    with True w2 w3 show ?thesis by (auto simp: left_party_def)
  next
    case False
    have "nonempty_parties (core w2)"
      unfolding w2(5) using nonempty_update(1) [OF assms(2), of "remove1 p (memberList P)" "inviteList P" q] False
      by auto
    with ok have "party_inv w2" by (rule party_invI)
    moreover have "leaveParty_rest env q p False w = Some (True, w2)" using w2(1) False by simp
    ultimately show ?thesis using w2(2-4) by (auto simp: left_party_def)
  qed
qed

text \<open>The leader leaves a party that is given up.\<close>

lemma leave_last:
  assumes "party_inv w" and "w_parties w q = Some P" and "leader P = Some p" and "onDisband env q"
  shows "\<exists>w'. leaveParty_rest env q p True w = Some (True, w') \<and> left_party w p w'"
proof -
  note linked = party_inv_linked [OF assms(1)]
  obtain l where l: "leader P = Some l" "core w q = Some (Some l, memberList P, inviteList P)"
    "distinct (l # memberList P)" "insert l (set (memberList P) \<union> set (inviteList P)) \<subseteq> present w"
    by (rule linked_party [OF linked assms(2)]) (rule that)
  have lp: "l = p" using l(1) assms(3) by simp
  have r: "remove1 p (memberList P) = memberList P" using l(3) lp by (simp add: remove1_idem)
  have p: "p \<in> present w" using l(4) lp by blast
  obtain w2 P2 where w2: "leaveParty_rest env q p True w =
      do { w3 \<leftarrow> (if True \<or> remove1 p (memberList P) = [] \<and> inviteList P = [] then disband env q w2 else Some w2);
           Some (True, w3) }"
    "party_of w2 = (party_of w)(p := None)" "invited_by w2 = invited_by w" "present w2 = present w"
    "core w2 = (core w)(q \<mapsto> (Some l, remove1 p (memberList P), inviteList P))" "w_parties w2 q = Some P2"
    "leader P2 = Some l" "memberList P2 = remove1 p (memberList P)" "inviteList P2 = inviteList P"
    using leaveParty_rest_view [OF assms(2) l(1,4) p, of env True] by blast
  have pr: "insert l (set (memberList P2) \<union> set (inviteList P2)) \<subseteq> present w2"
    using l(4) w2(4,8,9) r by simp
  obtain w3 where w3: "disband env q w2 = Some w3"
    "party_of w3 = (\<lambda>x. if x = l \<or> x \<in> set (memberList P2) then None else party_of w2 x)"
    "invited_by w3 = (\<lambda>x. if x \<in> set (inviteList P2) then invited_by w2 x - {q} else invited_by w2 x)"
    "core w3 = (core w2)(q := None)" "present w3 = present w2"
    using disband_view [OF w2(6) assms(4) w2(7) pr] by blast
  have v: "party_of w3 = (\<lambda>x. if x = l \<or> x \<in> set (memberList P) then None else party_of w x)"
    "invited_by w3 = (\<lambda>x. if x \<in> set (inviteList P) then invited_by w x - {q} else invited_by w x)"
    "core w3 = (core w)(q := None)"
    using w2(2,3,5,8,9) w3(2-4) r lp by (simp_all add: fun_eq_iff)
  have "linked w3"
    by (rule linked_view [OF view_dissolve [OF linked [unfolded linked_def] l(2)] v])
  moreover have "nonempty_parties (core w3)"
    unfolding v(3) using assms(1) by (simp add: party_inv_def nonempty_update)
  moreover have "leaveParty_rest env q p True w = Some (True, w3)" using w2(1) w3(1) by simp
  ultimately show ?thesis using v w2(4) w3(5) lp by (auto simp: left_party_def party_inv_def)
qed

lemma leaveParty_leaves:
  assumes inv: "party_inv w" and q: "party_of w p = Some q" and db: "\<forall>q. onDisband env q"
  shows "\<exists>b w'. leaveParty env q p force w = Some (b, w') \<and> party_inv w' \<and> present w' = present w \<and>
    (force \<longrightarrow> left_party w p w')"
proof -
  note linked = party_inv_linked [OF inv]
  obtain P where P: "w_parties w q = Some P" using linked_party_exists(1) [OF linked q] by blast
  obtain l where l: "leader P = Some l" "core w q = Some (Some l, memberList P, inviteList P)"
    "distinct (l # memberList P)" "\<And>p. party_of w p = Some q \<longleftrightarrow> p = l \<or> p \<in> set (memberList P)"
    "insert l (set (memberList P) \<union> set (inviteList P)) \<subseteq> present w"
    by (rule linked_party [OF linked P]) (rule that)
  obtain x where x: "w_players w p = Some x" "pp_party x = Some q"
    using q by (auto simp: party_of_def split: option.splits)
  have ne: "nonempty_parties ((core w)(q := None))"
    using inv by (simp add: party_inv_def nonempty_update)
  show ?thesis
  proof (cases "\<not> force \<and> \<not> onLeave env q p")
    case True
    then show ?thesis using P x inv by (auto simp: leaveParty_def)
  next
    case False
    have run: "leaveParty env q p force w =
      do { (missingLeader, w) \<leftarrow>
             (if l = p then
                (if memberList P \<noteq> [] then
                   (if length (memberList P) = 1 \<and> inviteList P = [] then Some (True, w)
                    else do { (_, w) \<leftarrow> passPartyLeadership env q (hd (memberList P)) True w; Some (False, w) })
                 else Some (True, w))
              else Some (False, w));
           leaveParty_rest env q p missingLeader w }"
      using False P x l(1) by (auto simp: leaveParty_def Let_def)
    consider (member) "p \<noteq> l" "p \<in> set (memberList P)"
      | (last) "p = l" "memberList P = [] \<or> length (memberList P) = 1 \<and> inviteList P = []"
      | (pass) "p = l" "memberList P \<noteq> []" "\<not> (length (memberList P) = 1 \<and> inviteList P = [])"
      using l(4) [of p] q by blast
    then show ?thesis
    proof cases
      case member
      then have "leaveParty env q p force w = leaveParty_rest env q p False w" unfolding run by simp
      moreover obtain w' where "leaveParty_rest env q p False w = Some (True, w')" "left_party w p w'"
        using leave_member [OF linked ne P member(2)] db by blast
      ultimately show ?thesis
        by (intro exI [of _ True] exI [of _ w']) (simp add: left_party_def)
    next
      case last
      then have "leaveParty env q p force w = leaveParty_rest env q p True w" unfolding run by auto
      moreover obtain w' where "leaveParty_rest env q p True w = Some (True, w')" "left_party w p w'"
        using leave_last [OF inv P] last(1) l(1) db by blast
      ultimately show ?thesis
        by (intro exI [of _ True] exI [of _ w']) (simp add: left_party_def)
    next
      case pass
      define h where "h = hd (memberList P)"
      have h: "h \<in> set (memberList P)" using pass(2) by (simp add: h_def)
      then have h': "h \<noteq> l" "party_of w h = Some q" "h \<in> present w" using l(3-5) by auto
      obtain w1 where w1: "passPartyLeadership env q h True w = Some (True, w1)" "party_of w1 = party_of w"
        "invited_by w1 = invited_by w" "present w1 = present w"
        "core w1 = (core w)(q \<mapsto> (Some h, l # remove1 h (memberList P), inviteList P))"
        using passPartyLeadership_view [OF P l(1) h'(1,2) l(5) h'(3), of env True] by blast
      have ok: "linked w1"
        using view_pass [OF linked [unfolded linked_def] l(2) h] by (rule linked_view) (use w1 in auto)
      obtain P1 where P1: "w_parties w1 q = Some P1" "memberList P1 = l # remove1 h (memberList P)"
        using w1(5) by (auto simp: core_def core_of_def fun_upd_def dest!: fun_cong [of _ _ q] split: if_splits)
      have "leaveParty env q p force w = leaveParty_rest env q p False w1"
        unfolding run using pass w1(1) by (auto simp: h_def)
      moreover have "nonempty_parties ((core w1)(q := None))" unfolding w1(5) using ne by simp
      moreover have "p \<in> set (memberList P1)" using P1(2) pass(1) by simp
      ultimately obtain w' where "leaveParty env q p force w = Some (True, w')" "left_party w1 p w'"
        using leave_member [OF ok _ P1(1)] db by metis
      then show ?thesis using w1(3,4)
        by (intro exI [of _ True] exI [of _ w']) (simp add: left_party_def)
    qed
  qed
qed

definition kept :: "world \<Rightarrow> world \<Rightarrow> bool" where
  "kept w w' \<longleftrightarrow> party_inv w' \<and> present w' = present w"

lemma joinParty_keeps:
  assumes inv: "party_inv w" and P: "w_parties w q = Some P" and po: "party_of w p = None" and p: "p \<in> present w"
  shows "\<exists>b w'. joinParty env q p w = Some (b, w') \<and> kept w w'"
proof (cases "onJoin env q p \<and> p \<in> set (inviteList P)")
  case False
  then show ?thesis using inv P by (auto simp: joinParty_def kept_def)
next
  case True
  note linked = party_inv_linked [OF inv]
  obtain l where l: "leader P = Some l" "core w q = Some (Some l, memberList P, inviteList P)"
    "insert l (set (memberList P) \<union> set (inviteList P)) \<subseteq> present w"
    by (rule linked_party [OF linked P]) (rule that)
  let ?P1 = "P\<lparr>inviteList := remove1 p (inviteList P)\<rparr>"
  let ?P2 = "?P1\<lparr>memberList := memberList P @ [p]\<rparr>"
  have invites: "set (remove1 p (inviteList P)) \<subseteq> present w"
    using l(3) set_remove1_subset [of p "inviteList P"] by blast
  have b: "broadcastPartyMessage ?P1 False w = Some w"
    using l invites by (intro broadcast_defined [of _ l]) auto
  obtain w1 where w1: "set_player p (setParty (Some q)) (set_party q ?P1 w) = Some w1"
    "party_of w1 = (party_of w)(p := Some q)" "invited_by w1 = invited_by w" "present w1 = present w"
    "core w1 = (core w)(q \<mapsto> core_of ?P1)"
    using set_player_party [of p "set_party q ?P1 w" "Some q"] p by (auto simp: view_simps)
  have t: "touch (memberList ?P1 @ [p, l]) w1 = Some w1"
    by (rule touch_present) (use l(3) p w1(4) in auto)
  obtain w2 where w2: "set_player p (removePartyInvitation q) (set_party q ?P2 w1) = Some w2"
    "party_of w2 = party_of w1" "invited_by w2 = (invited_by w)(p := invited_by w p - {q})"
    "present w2 = present w" "core w2 = (core w1)(q \<mapsto> core_of ?P2)" "w_parties w2 q = Some ?P2"
    using set_player_uninvite [of p "set_party q ?P2 w1" q] p w1(3,4) by (auto simp: view_simps)
  have "leader ?P2 = Some l" "insert l (set (memberList ?P2)) \<subseteq> present w2"
    using l p w2(4) by auto
  from updateSharedExperience_view [OF w2(6) this, of env]
  obtain w3 where w3: "updateSharedExperience env q w2 = Some w3" "same_view w2 w3" by blast
  have "joinParty env q p w = Some (True, w3)"
    using P True b w1(1) t w2(1) w3(1) l(1) by (auto simp: joinParty_def Let_def)
  moreover have view: "core w3 = (core w)(q \<mapsto> (Some l, memberList P @ [p], remove1 p (inviteList P)))"
    "party_of w3 = (party_of w)(p := Some q)" "invited_by w3 = (invited_by w)(p := invited_by w p - {q})"
    "present w3 = present w"
    using w1(2,5) w2(2-5) w3(2) l(1) by (simp_all add: same_view_def view_simps core_of_def)
  moreover have "linked w3"
    using view_join [OF linked [unfolded linked_def] l(2) _ po] True by (rule_tac linked_view) (use view in auto)
  moreover have "nonempty_parties (core w3)"
    unfolding view(1) using inv by (simp add: party_inv_def nonempty_update)
  ultimately show ?thesis by (auto simp: kept_def party_inv_def)
qed

lemma invitePlayer_view:
  assumes "w_parties w q = Some P" and "leader P = Some l" and "l \<in> present w" and "p \<in> present w"
    and "p \<notin> set (inviteList P)"
  shows "\<exists>w'. invitePlayer q p w = Some (True, w') \<and> present w' = present w \<and> party_of w' = party_of w \<and>
    invited_by w' = (invited_by w)(p := insert q (invited_by w p)) \<and>
    core w' = (core w)(q \<mapsto> (Some l, memberList P, inviteList P @ [p]))"
proof -
  let ?P = "P\<lparr>inviteList := inviteList P @ [p]\<rparr>"
  have t: "touch [l, p] w = Some w" by (rule touch_present) (use assms(3,4) in auto)
  obtain w1 where w1: "set_player p (addPartyInvitation q) (set_party q ?P w) = Some w1"
    "party_of w1 = party_of w" "invited_by w1 = (invited_by w)(p := insert q (invited_by w p))"
    "present w1 = present w" "core w1 = (core w)(q \<mapsto> core_of ?P)"
    using set_player_invite [of p "set_party q ?P w" q] assms(4) by (auto simp: view_simps)
  then show ?thesis
    using assms t by (auto simp: invitePlayer_def isPlayerInvited_def Let_def core_of_def)
qed

lemma view_invited:
  assumes "view_ok po iv pa" and "nonempty_parties (pa(q := None))" and "pa q = Some (Some l, ms, is)"
    and "p \<notin> set is" and "po p = None"
    and "party_of w' = po" "invited_by w' = iv(p := insert q (iv p))"
    and "core w' = pa(q \<mapsto> (Some l, ms, is @ [p]))"
  shows "party_inv w'"
proof -
  have "linked w'"
    using view_invite [OF assms(1,3,4)] assms(5) by (rule_tac linked_view) (use assms(6-8) in auto)
  moreover have "nonempty_parties (core w')"
    unfolding assms(8) using nonempty_update(1) [OF assms(2), of ms "is @ [p]" q] by simp
  ultimately show ?thesis by (rule party_invI)
qed

lemma removeInvite_keeps:
  assumes inv: "party_inv w" and P: "w_parties w q = Some P" and p: "p \<in> present w" and db: "\<forall>q. onDisband env q"
  shows "\<exists>b w'. removeInvite env q p True w = Some (b, w') \<and> kept w w'"
proof (cases "p \<in> set (inviteList P)")
  case False
  then show ?thesis using inv P by (auto simp: removeInvite_def kept_def)
next
  case True
  note linked = party_inv_linked [OF inv]
  obtain l where l: "leader P = Some l" "core w q = Some (Some l, memberList P, inviteList P)"
    "insert l (set (memberList P) \<union> set (inviteList P)) \<subseteq> present w"
    by (rule linked_party [OF linked P]) (rule that)
  have lp: "l \<in> present w" using l(3) by blast
  obtain w' where w': "removeInvite env q p True w = Some (True, w')" "present w' = present w"
    "invited_by w' = (invited_by w)(p := invited_by w p - {q})"
    "if memberList P = [] \<and> remove1 p (inviteList P) = []
     then core w' = (core w)(q := None) \<and> party_of w' = (party_of w)(l := None)
     else core w' = (core w)(q \<mapsto> (Some l, memberList P, remove1 p (inviteList P))) \<and> party_of w' = party_of w"
    using removeInvite_view [OF P l(1) True lp p, of env True] db by auto
  have "nonempty_parties (core w)" using inv by (simp add: party_inv_def)
  from view_removeInvite [OF linked [unfolded linked_def] l(2) this w'(4)]
  have "party_inv w'" unfolding party_inv_def linked_def w'(3) by blast
  with w'(1,2) show ?thesis by (auto simp: kept_def)
qed

lemma revokeInvitation_keeps:
  assumes inv: "party_inv w" and P: "w_parties w q = Some P" and p: "p \<in> present w" and db: "\<forall>q. onDisband env q"
  shows "\<exists>w'. revokeInvitation env q p w = Some w' \<and> kept w w'"
proof (cases "onRevokeInvitation env q p")
  case False
  then show ?thesis using inv P by (auto simp: revokeInvitation_def kept_def)
next
  case True
  obtain l where l: "leader P = Some l" "insert l (set (memberList P) \<union> set (inviteList P)) \<subseteq> present w"
    by (rule linked_party [OF party_inv_linked [OF inv] P]) (rule that)
  have "touch [p, l] w = Some w" by (rule touch_present) (use l(2) p in auto)
  with removeInvite_keeps [OF assms] True P l(1) show ?thesis by (auto simp: revokeInvitation_def)
qed

lemma passPartyLeadership_keeps:
  assumes inv: "party_inv w" and P: "w_parties w q = Some P" and p: "p \<in> present w"
  shows "\<exists>b w'. passPartyLeadership env q p force w = Some (b, w') \<and> kept w w'"
proof -
  note linked = party_inv_linked [OF inv]
  obtain l where l: "leader P = Some l" "core w q = Some (Some l, memberList P, inviteList P)"
    "\<And>p. party_of w p = Some q \<longleftrightarrow> p = l \<or> p \<in> set (memberList P)"
    "insert l (set (memberList P) \<union> set (inviteList P)) \<subseteq> present w"
    by (rule linked_party [OF linked P]) (rule that)
  obtain x where x: "w_players w p = Some x" "pp_party x = party_of w p"
    using p by (auto simp: party_of_def)
  show ?thesis
  proof (cases "p \<noteq> l \<and> party_of w p = Some q \<and> (onPassLeadership env q p \<or> force)")
    case False
    then have "passPartyLeadership env q p force w = Some (False, w)"
      using P l(1) x by (cases "l = p"; cases "party_of w p = Some q") (simp_all add: passPartyLeadership_def)
    then show ?thesis using inv by (auto simp: kept_def)
  next
    case True
    then have c: "p \<noteq> l" "party_of w p = Some q" "onPassLeadership env q p \<or> force" by blast+
    obtain w1 where w1: "passPartyLeadership env q p force w = Some (True, w1)" "party_of w1 = party_of w"
      "invited_by w1 = invited_by w" "present w1 = present w"
      "core w1 = (core w)(q \<mapsto> (Some p, l # remove1 p (memberList P), inviteList P))"
      using passPartyLeadership_view [OF P l(1) c(1,2) l(4) p c(3)] by blast
    have "p \<in> set (memberList P)" using l(3) [of p] c(1,2) by simp
    from view_pass [OF linked [unfolded linked_def] l(2) this]
    have "linked w1" by (rule linked_view) (use w1 in auto)
    moreover have "nonempty_parties (core w1)"
      unfolding w1(5) using inv by (simp add: party_inv_def nonempty_update)
    ultimately have "kept w w1" using w1(4) by (simp add: kept_def party_inv_def)
    with w1(1) show ?thesis by (intro exI conjI)
  qed
qed

lemma same_view_kept: "party_inv w \<Longrightarrow> same_view w w' \<Longrightarrow> kept w w'"
  using same_view_linked [of w w'] by (simp add: kept_def party_inv_def same_view_def)

lemma setSharedExperience_keeps:
  assumes inv: "party_inv w" and P: "w_parties w q = Some P"
  shows "\<exists>b w'. setSharedExperience env q p active w = Some (b, w') \<and> kept w w'"
proof -
  obtain l where l: "leader P = Some l" "insert l (set (memberList P) \<union> set (inviteList P)) \<subseteq> present w"
    by (rule linked_party [OF party_inv_linked [OF inv] P]) (rule that)
  let ?P = "P\<lparr>sharedExpActive := active\<rparr>"
  have members: "insert l (set (memberList P)) \<subseteq> present w" using l(2) by blast
  obtain b where b: "canEnableSharedExperience env ?P w = Some b"
    using canEnable_defined [of ?P l w env] l(1) members by auto
  have icons: "updateAllPartyIcons P' (set_party q P' w) = Some (set_party q P' w)"
    "same_view w (set_party q P' w)" if "core_of P' = core_of P" for P'
  proof -
    have "leader P' = Some l" "memberList P' = memberList P" using that l(1) by (simp_all add: core_of_def)
    then show "updateAllPartyIcons P' (set_party q P' w) = Some (set_party q P' w)"
      using members by (intro updateAllPartyIcons_defined [of _ l]) (simp_all add: view_simps)
    show "same_view w (set_party q P' w)"
      using core_SomeI [OF P] that by (auto simp: same_view_def view_simps)
  qed
  consider "leader P \<noteq> Some p \<or> sharedExpActive P = active" | "leader P = Some p" "sharedExpActive P \<noteq> active" by blast
  then show ?thesis
  proof cases
    case 1
    then show ?thesis using P inv by (auto simp: setSharedExperience_def kept_def)
  next
    case 2
    define P' where "P' = (if active then ?P\<lparr>sharedExpEnabled := b\<rparr> else ?P)"
    have c: "core_of P' = core_of P" by (simp add: P'_def view_simps)
    have "setSharedExperience env q p active w = Some (True, set_party q P' w)"
      using 2 P b icons(1) [OF c] by (auto simp: setSharedExperience_def Let_def P'_def)
    with same_view_kept [OF inv icons(2) [OF c]] show ?thesis by blast
  qed
qed

lemma updatePlayerTicks_keeps:
  assumes inv: "party_inv w" and q: "party_of w p = Some q"
  shows "\<exists>w'. updatePlayerTicks env q p points w = Some w' \<and> kept w w'"
proof -
  note linked = party_inv_linked [OF inv]
  obtain P where P: "w_parties w q = Some P" using linked_party_exists(1) [OF linked q] by blast
  obtain l where l: "leader P = Some l" "insert l (set (memberList P) \<union> set (inviteList P)) \<subseteq> present w"
    by (rule linked_party [OF linked P]) (rule that)
  obtain x where x: "w_players w p = Some x"
    using q by (auto simp: party_of_def split: option.splits)
  show ?thesis
  proof (cases "points \<noteq> 0 \<and> \<not> pp_notGainInFight x")
    case False
    then show ?thesis using P x inv by (auto simp: updatePlayerTicks_def kept_def)
  next
    case True
    let ?P = "P\<lparr>ticksMap := (ticksMap P)(p \<mapsto> now env)\<rparr>"
    have "leader ?P = Some l" "insert l (set (memberList ?P)) \<subseteq> present (set_party q ?P w)"
      "w_parties (set_party q ?P w) q = Some ?P"
      using l by (simp_all add: view_simps)
    from updateSharedExperience_view [OF this(3,1,2), of env] obtain w' where
      "updateSharedExperience env q (set_party q ?P w) = Some w'" "same_view (set_party q ?P w) w'" by blast
    moreover have "same_view w (set_party q ?P w)"
      using core_SomeI [OF P] by (auto simp: same_view_def view_simps)
    ultimately show ?thesis
      using True P x same_view_kept [OF inv, of w']
      by (auto simp: updatePlayerTicks_def Let_def same_view_def)
  qed
qed

end
