(* ===== verification/Party_Safety.thy ===== *)
theory Party_Safety
  imports Party_Invariant
begin

text \<open>
  The handlers of the game over parties as steps between states: every reachable state satisfies the
  invariant, no handler gets stuck, and the one way to break this, a script that vetoes a disbanding, is
  shown to leave a dangling leader.
\<close>

subsection \<open>The handlers keep the invariant and never dangle\<close>

lemma kept_refl: "party_inv w \<Longrightarrow> kept w w"
  by (simp add: kept_def)

lemma kept_pair: "\<exists>b w'. f = Some (b, w') \<and> kept w w' \<Longrightarrow> \<exists>w'. do { (_, w) \<leftarrow> f; Some w } = Some w' \<and> kept w w'"
  by auto

lemma player_party:
  "w_players w p = Some x \<Longrightarrow> party_of w p = pp_party x"
  "w_players w p = Some x \<Longrightarrow> invited_by w p = set (pp_invitePartyList x)"
  "w_players w p = Some x \<Longrightarrow> p \<in> present w"
  by (auto simp: party_of_def invited_by_def)

lemma player_has_party:
  assumes "party_inv w" and "w_players w p = Some x" and "pp_party x = Some q"
  obtains P where "w_parties w q = Some P" "party_of w p = Some q"
  using linked_party_exists(1) [OF party_inv_linked [OF assms(1)], of p q] player_party(1) [OF assms(2)] assms(3)
    that by auto

lemma isInviting_defined:
  assumes "party_inv w" and "p \<in> present w"
  shows "\<exists>b. isInviting p i w = Some b"
proof -
  obtain x where x: "w_players w p = Some x" using assms(2) by blast
  show ?thesis
  proof (cases "pp_party x")
    case (Some q)
    then obtain P where "w_parties w q = Some P" using player_has_party [OF assms(1) x] by metis
    with x Some show ?thesis by (simp add: isInviting_def)
  qed (auto simp: isInviting_def x)
qed

lemma playerJoinParty_keeps:
  assumes inv: "party_inv w"
  shows "\<exists>w'. playerJoinParty env p l w = Some w' \<and> kept w w'"
proof (cases "w_players w p = None \<or> w_players w l = None")
  case True
  then show ?thesis using kept_refl [OF inv] by (auto simp: playerJoinParty_def split: option.split)
next
  case False
  then obtain x y where x: "w_players w p = Some x" and y: "w_players w l = Some y" by auto
  obtain b where b: "isInviting l p w = Some b" using isInviting_defined [OF inv player_party(3) [OF y]] by blast
  show ?thesis
  proof (cases "b \<and> pp_party y \<noteq> None")
    case True
    then obtain q where q: "pp_party y = Some q" by auto
    obtain P where P: "w_parties w q = Some P" by (rule player_has_party [OF inv y q])
    have join: "pp_party x = None \<Longrightarrow> \<exists>b w'. joinParty env q p w = Some (b, w') \<and> kept w w'"
      by (rule joinParty_keeps [OF inv P]) (simp_all add: player_party [OF x])
    show ?thesis
      using kept_refl [OF inv] kept_pair [OF join] True x y b q P by (auto simp: playerJoinParty_def)
  next
    case False
    then show ?thesis using kept_refl [OF inv] x y b by (auto simp: playerJoinParty_def split: option.split)
  qed
qed

lemma playerRevoke_keeps:
  assumes inv: "party_inv w" and db: "\<forall>q. onDisband env q"
  shows "\<exists>w'. playerRevokePartyInvitation env p i w = Some w' \<and> kept w w'"
proof (cases "w_players w p")
  case None
  then show ?thesis using kept_refl [OF inv] by (simp add: playerRevokePartyInvitation_def)
next
  case x: (Some x)
  obtain b where b: "isInviting p i w = Some b" using isInviting_defined [OF inv player_party(3) [OF x]] by blast
  show ?thesis
  proof (cases "pp_party x")
    case None
    then show ?thesis using kept_refl [OF inv] x by (simp add: playerRevokePartyInvitation_def)
  next
    case (Some q)
    obtain P where P: "w_parties w q = Some P" by (rule player_has_party [OF inv x Some])
    show ?thesis
      using kept_refl [OF inv] revokeInvitation_keeps [OF inv P _ db, of i] player_party(3) [of w i] x b Some P
      by (auto simp: playerRevokePartyInvitation_def split: option.split)
  qed
qed

lemma playerPass_keeps:
  assumes inv: "party_inv w"
  shows "\<exists>w'. playerPassPartyLeadership env p i w = Some w' \<and> kept w w'"
proof (cases "w_players w p")
  case None
  then show ?thesis using kept_refl [OF inv] by (simp add: playerPassPartyLeadership_def)
next
  case x: (Some x)
  show ?thesis
  proof (cases "pp_party x")
    case None
    then show ?thesis using kept_refl [OF inv] x by (simp add: playerPassPartyLeadership_def)
  next
    case q: (Some q)
    obtain P where P: "w_parties w q = Some P" by (rule player_has_party [OF inv x q])
    show ?thesis
    proof (cases "w_players w i")
      case None
      then show ?thesis using kept_refl [OF inv] x q P by (simp add: playerPassPartyLeadership_def)
    next
      case y: (Some y)
      show ?thesis
        using kept_refl [OF inv] kept_pair [OF passPartyLeadership_keeps [OF inv P player_party(3) [OF y], of env False]] x q P y
        by (auto simp: playerPassPartyLeadership_def isPartner_def)
    qed
  qed
qed

lemma playerLeave_keeps:
  assumes inv: "party_inv w" and db: "\<forall>q. onDisband env q"
  shows "\<exists>w'. playerLeaveParty env p w = Some w' \<and> kept w w'"
proof (cases "w_players w p")
  case None
  then show ?thesis using kept_refl [OF inv] by (simp add: playerLeaveParty_def)
next
  case x: (Some x)
  show ?thesis
  proof (cases "pp_party x")
    case None
    then show ?thesis using kept_refl [OF inv] x by (simp add: playerLeaveParty_def)
  next
    case q: (Some q)
    have "\<exists>b w'. leaveParty env q p False w = Some (b, w') \<and> kept w w'"
      using leaveParty_leaves [OF inv _ db, of p q False] player_party(1) [OF x] q by (auto simp: kept_def)
    then show ?thesis using kept_refl [OF inv] kept_pair [of "leaveParty env q p False w" w] x q
      by (auto simp: playerLeaveParty_def)
  qed
qed

lemma playerShare_keeps:
  assumes inv: "party_inv w"
  shows "\<exists>w'. playerEnableSharedPartyExperience env p a w = Some w' \<and> kept w w'"
proof (cases "w_players w p")
  case None
  then show ?thesis using kept_refl [OF inv] by (simp add: playerEnableSharedPartyExperience_def)
next
  case x: (Some x)
  show ?thesis
  proof (cases "pp_party x")
    case None
    then show ?thesis using kept_refl [OF inv] x by (simp add: playerEnableSharedPartyExperience_def)
  next
    case q: (Some q)
    obtain P where P: "w_parties w q = Some P" by (rule player_has_party [OF inv x q])
    show ?thesis using kept_refl [OF inv] kept_pair [OF setSharedExperience_keeps [OF inv P, of env p a]] x q
      by (auto simp: playerEnableSharedPartyExperience_def)
  qed
qed

lemma playerInvite_keeps:
  assumes inv: "party_inv w" and fresh: "w_parties w f = None"
  shows "\<exists>w'. playerInviteToParty env f p i w = Some w' \<and> kept w w'"
proof (cases "p = i \<or> w_players w p = None \<or> w_players w i = None")
  case True
  then show ?thesis using kept_refl [OF inv] by (auto simp: playerInviteToParty_def split: option.split)
next
  case False
  then obtain x y where ne: "p \<noteq> i" and x: "w_players w p = Some x" and y: "w_players w i = Some y" by auto
  note linked = party_inv_linked [OF inv]
  obtain b where b: "isInviting i p w = Some b" using isInviting_defined [OF inv player_party(3) [OF y]] by blast
  show ?thesis
  proof (cases "b \<or> pp_party y \<noteq> None")
    case True
    then show ?thesis using kept_refl [OF inv] ne x y b by (auto simp: playerInviteToParty_def)
  next
    case False
    then have b': "isInviting i p w = Some False" and py: "pp_party y = None" using b by auto
    have poi: "party_of w i = None" using player_party(1) [OF y] py by simp
    show ?thesis
    proof (cases "pp_party x")
      case None
      have pop: "party_of w p = None" using player_party(1) [OF x] None by simp
      obtain w1 where w1: "set_player p (setParty (Some f)) (set_party f (new_party p) w) = Some w1"
        "party_of w1 = (party_of w)(p := Some f)" "invited_by w1 = invited_by w" "present w1 = present w"
        "core w1 = (core w)(f \<mapsto> (Some p, [], []))" "w_parties w1 f = Some (new_party p)"
        using set_player_party [of p "set_party f (new_party p) w" "Some f"] player_party(3) [OF x]
        by (auto simp: view_simps new_party_def core_of_def)
      have cf: "core w f = None" using fresh by (simp add: core_def)
      have ok1: "view_ok (party_of w1) (invited_by w1) (core w1)"
        unfolding w1(2,3,5) using view_create [OF linked [unfolded linked_def] cf pop] .
      have run: "playerInviteToParty env f p i w =
          (if \<not> onInvite env f i then do { w \<leftarrow> set_player p (setParty None) w1; Some (w\<lparr>w_parties := (w_parties w)(f := None)\<rparr>) }
           else do { (_, w) \<leftarrow> invitePlayer f i w1; Some w })"
        using ne x y b' py None w1(1,6) by (auto simp: playerInviteToParty_def party_empty_def new_party_def)
      show ?thesis
      proof (cases "onInvite env f i")
        case True
        obtain w2 where w2: "invitePlayer f i w1 = Some (True, w2)" "present w2 = present w1"
          "party_of w2 = party_of w1" "invited_by w2 = (invited_by w1)(i := insert f (invited_by w1 i))"
          "core w2 = (core w1)(f \<mapsto> (Some p, [], [] @ [i]))"
          using invitePlayer_view [OF w1(6), of p i] player_party(3) [OF x] player_party(3) [OF y] w1(4)
          by (auto simp: new_party_def)
        have "nonempty_parties ((core w1)(f := None))"
          unfolding w1(5) using inv by (simp add: party_inv_def nonempty_update)
        moreover have "core w1 f = Some (Some p, [], [])" "party_of w1 i = None" using w1(2,5) poi ne by simp_all
        ultimately have "party_inv w2"
          using view_invited [OF ok1, of f p "[]" "[]" i w2] w2(3-5) by simp
        then show ?thesis using True run w2(1,2) w1(4) by (simp add: kept_def)
      next
        case False
        obtain w2 where w2: "set_player p (setParty None) w1 = Some w2" "party_of w2 = (party_of w1)(p := None)"
          "invited_by w2 = invited_by w1" "core w2 = core w1" "present w2 = present w1"
          using set_player_party [of p w1 None] player_party(3) [OF x] w1(4) by auto
        let ?w = "w2\<lparr>w_parties := (w_parties w2)(f := None)\<rparr>"
        have "party_of ?w = party_of w2" "invited_by ?w = invited_by w2" "core ?w = (core w2)(f := None)"
          "present ?w = present w2"
          by (auto simp: party_of_def invited_by_def core_def fun_eq_iff)
        then have "same_view w ?w"
          using w2(2-5) w1(2-5) pop cf by (auto simp: same_view_def fun_eq_iff)
        then have "kept w ?w" by (rule same_view_kept [OF inv])
        then show ?thesis using False run w2(1) by simp
      qed
    next
      case q: (Some q)
      obtain P where P: "w_parties w q = Some P" by (rule player_has_party [OF inv x q])
      obtain l where l: "leader P = Some l" "core w q = Some (Some l, memberList P, inviteList P)"
        "insert l (set (memberList P) \<union> set (inviteList P)) \<subseteq> present w"
        by (rule linked_party [OF linked P]) (rule that)
      have ne_q: "\<not> party_empty P"
        using inv l(2) by (fastforce simp: party_inv_def nonempty_parties_def party_empty_def)
      have run: "playerInviteToParty env f p i w =
          (if l \<noteq> p then Some w else if \<not> onInvite env q i then Some w
           else do { (_, w) \<leftarrow> invitePlayer q i w; Some w })"
        using ne x y b' py q P l(1) ne_q by (simp add: playerInviteToParty_def)
      show ?thesis
      proof (cases "l = p \<and> onInvite env q i \<and> i \<notin> set (inviteList P)")
        case True
        have lp: "l \<in> present w" using l(3) by blast
        obtain w2 where w2: "invitePlayer q i w = Some (True, w2)" "present w2 = present w"
          "party_of w2 = party_of w" "invited_by w2 = (invited_by w)(i := insert q (invited_by w i))"
          "core w2 = (core w)(q \<mapsto> (Some l, memberList P, inviteList P @ [i]))"
          using invitePlayer_view [OF P l(1) lp player_party(3) [OF y]] True by auto
        have "nonempty_parties ((core w)(q := None))" using inv by (simp add: party_inv_def nonempty_update)
        from view_invited [OF linked [unfolded linked_def] this l(2) _ poi w2(3-5)] True
        have "party_inv w2" by simp
        then show ?thesis using True run w2(1,2) by (simp add: kept_def)
      next
        case False
        moreover have "invitePlayer q i w = Some (False, w)" if "i \<in> set (inviteList P)"
          using that P by (simp add: invitePlayer_def isPlayerInvited_def)
        ultimately show ?thesis using run kept_refl [OF inv] by auto
      qed
    qed
  qed
qed

text \<open>The invitation list of a player has no duplicates: the one fact the view does not show.\<close>

definition distinct_invites :: "world \<Rightarrow> bool" where
  "distinct_invites w \<longleftrightarrow> (\<forall>p x. w_players w p = Some x \<longrightarrow> distinct (pp_invitePartyList x))"

lemma playerLogout_leaves:
  assumes inv: "party_inv w" and db: "\<forall>q. onDisband env q" and p: "p \<in> present w" and d: "distinct_invites w"
  shows "\<exists>w'. playerLogout env p w = Some w' \<and> party_inv w' \<and> present w' = present w - {p}"
proof -
  obtain x where x: "w_players w p = Some x" using p by blast
  have qs: "(invited_by w)(p := set (pp_invitePartyList x)) = invited_by w"
    using player_party(2) [OF x] by (simp add: fun_upd_idem)
  have view: "view_ok (party_of w) ((invited_by w)(p := set (pp_invitePartyList x))) (core w)"
    "nonempty_parties (core w)" "distinct (pp_invitePartyList x)"
    unfolding qs using inv d x by (simp_all add: party_inv_def linked_def distinct_invites_def)
  obtain w1 where w1: "remove_invites env p (pp_invitePartyList x) w = Some w1" "present w1 = present w"
    "view_ok (party_of w1) ((invited_by w1)(p := {})) (core w1)" "nonempty_parties (core w1)"
    using remove_invites_view [OF view(1,2) p view(3) db] by blast
  obtain x1 where x1: "w_players w1 p = Some x1" using p w1(2) by blast
  let ?w2 = "w1\<lparr>w_players := (w_players w1)(p \<mapsto> x1\<lparr>pp_invitePartyList := []\<rparr>)\<rparr>"
  have v2: "party_of ?w2 = party_of w1" "invited_by ?w2 = (invited_by w1)(p := {})" "core ?w2 = core w1"
    "present ?w2 = present w1"
    using x1 by (auto simp: party_of_def invited_by_def core_def fun_eq_iff)
  have inv2: "party_inv ?w2"
    unfolding party_inv_def linked_def v2 using w1(3,4) by blast
  have clear: "clearPartyInvitations env p w = Some ?w2"
    using x w1(1) x1 by (simp add: clearPartyInvitations_def set_player_def)
  have "\<exists>w3. (case party_of ?w2 p of None \<Rightarrow> Some ?w2 | Some q \<Rightarrow>
      do { (_, w) \<leftarrow> leaveParty env q p True ?w2; Some w }) = Some w3 \<and> left_party ?w2 p w3"
  proof (cases "party_of ?w2 p")
    case None
    then show ?thesis using inv2 by (simp add: left_party_def)
  next
    case (Some q)
    then show ?thesis using leaveParty_leaves [OF inv2 Some db, of True] by auto
  qed
  then obtain w3 where w3: "(case party_of ?w2 p of None \<Rightarrow> Some ?w2 | Some q \<Rightarrow>
      do { (_, w) \<leftarrow> leaveParty env q p True ?w2; Some w }) = Some w3" "left_party ?w2 p w3" by blast
  let ?w4 = "w3\<lparr>w_players := (w_players w3)(p := None)\<rparr>"
  have v4: "party_of ?w4 = party_of w3" "invited_by ?w4 = invited_by w3" "core ?w4 = core w3"
    "present ?w4 = present w3 - {p}"
    using w3(2) v2(2) by (auto simp: left_party_def party_of_def invited_by_def core_def fun_eq_iff split: option.splits)
  have "party_inv ?w4"
    using w3(2) unfolding party_inv_def linked_def v4 left_party_def by blast
  moreover have "present ?w4 = present w - {p}"
    unfolding v4(4) using w3(2) v2(4) w1(2) by (simp add: left_party_def)
  moreover have "playerLogout env p w = Some ?w4"
    using clear w3(1) by (simp add: playerLogout_def party_of_def)
  ultimately show ?thesis by blast
qed

text \<open>Every operation that succeeds keeps the lists of invitations free of duplicates.\<close>

lemma distinct_set_player:
  "set_player p f w = Some w' \<Longrightarrow> distinct_invites w \<Longrightarrow>
    (\<And>x. distinct (pp_invitePartyList x) \<Longrightarrow> distinct (pp_invitePartyList (f x))) \<Longrightarrow> distinct_invites w'"
  by (auto simp: set_player_def distinct_invites_def bind_eq_Some_conv split: if_splits)

lemma distinct_fields [simp]:
  "distinct (pp_invitePartyList x) \<Longrightarrow> distinct (pp_invitePartyList (setParty v x))"
  "distinct (pp_invitePartyList x) \<Longrightarrow> distinct (pp_invitePartyList (removePartyInvitation q x))"
  "distinct (pp_invitePartyList x) \<Longrightarrow> distinct (pp_invitePartyList (addPartyInvitation q x))"
  by (simp_all add: setParty_def removePartyInvitation_def addPartyInvitation_def distinct_removeAll)

lemma distinct_for_players:
  "for_players ps f w = Some w' \<Longrightarrow> distinct_invites w \<Longrightarrow>
    (\<And>x. distinct (pp_invitePartyList x) \<Longrightarrow> distinct (pp_invitePartyList (f x))) \<Longrightarrow> distinct_invites w'"
  by (induction ps arbitrary: w) (auto simp: bind_eq_Some_conv dest: distinct_set_player)

lemma distinct_set_party [simp]:
  "distinct_invites (set_party q P w) = distinct_invites w"
  "distinct_invites (w\<lparr>w_parties := m\<rparr>) = distinct_invites w"
  by (simp_all add: distinct_invites_def set_party_def)

lemma touch_same: "touch ps w = Some w' \<Longrightarrow> w' = w"
  by (simp add: touch_def split: if_splits)

lemma broadcast_same: "broadcastPartyMessage P b w = Some w' \<Longrightarrow> w' = w"
  by (auto simp: broadcastPartyMessage_def bind_eq_Some_conv dest: touch_same split: if_splits)

lemma distinct_shared: "updateSharedExperience env q w = Some w' \<Longrightarrow> distinct_invites w' = distinct_invites w"
  by (auto simp: updateSharedExperience_def updateAllPartyIcons_def bind_eq_Some_conv Let_def
      dest!: touch_same split: if_splits)

lemma distinct_clear: "clearPlayerPoints env q p w = Some w' \<Longrightarrow> distinct_invites w' = distinct_invites w"
  by (auto simp: clearPlayerPoints_def bind_eq_Some_conv Let_def dest!: distinct_shared split: if_splits)

lemma distinct_disband: "disband env q w = Some w' \<Longrightarrow> distinct_invites w \<Longrightarrow> distinct_invites w'"
  by (auto simp: disband_def bind_eq_Some_conv split: if_splits
      dest!: distinct_set_player distinct_for_players)

lemma distinct_pass: "passPartyLeadership env q p force w = Some (b, w') \<Longrightarrow> distinct_invites w' = distinct_invites w"
  by (auto simp: passPartyLeadership_def bind_eq_Some_conv Let_def split: if_splits
      dest!: touch_same broadcast_same distinct_shared)

lemma distinct_removeInvite:
  "removeInvite env q p b w = Some (c, w') \<Longrightarrow> distinct_invites w \<Longrightarrow> distinct_invites w'"
  by (auto simp: removeInvite_def bind_eq_Some_conv Let_def split: if_splits
      dest!: touch_same distinct_set_player distinct_disband)

lemma distinct_rest:
  "leaveParty_rest env q p ml w = Some (b, w') \<Longrightarrow> distinct_invites w \<Longrightarrow> distinct_invites w'"
  by (auto simp: leaveParty_rest_def bind_eq_Some_conv Let_def split: if_splits
      dest!: touch_same broadcast_same distinct_shared distinct_clear distinct_set_player distinct_disband)

lemma distinct_leave:
  "leaveParty env q p force w = Some (b, w') \<Longrightarrow> distinct_invites w \<Longrightarrow> distinct_invites w'"
  by (auto simp: leaveParty_def bind_eq_Some_conv Let_def split: if_splits
      dest!: distinct_pass distinct_rest)

lemma distinct_join:
  "joinParty env q p w = Some (b, w') \<Longrightarrow> distinct_invites w \<Longrightarrow> distinct_invites w'"
  by (auto simp: joinParty_def bind_eq_Some_conv Let_def split: if_splits
      dest!: touch_same broadcast_same distinct_shared distinct_set_player)

lemma distinct_invite:
  "invitePlayer q p w = Some (b, w') \<Longrightarrow> distinct_invites w \<Longrightarrow> distinct_invites w'"
  by (auto simp: invitePlayer_def bind_eq_Some_conv Let_def split: if_splits
      dest!: touch_same distinct_set_player)

lemma distinct_revoke:
  "revokeInvitation env q p w = Some w' \<Longrightarrow> distinct_invites w \<Longrightarrow> distinct_invites w'"
  by (auto simp: revokeInvitation_def bind_eq_Some_conv split: if_splits
      dest!: touch_same distinct_removeInvite)

lemma distinct_remove_invites:
  "remove_invites env p qs w = Some w' \<Longrightarrow> distinct_invites w \<Longrightarrow> distinct_invites w'"
  by (induction qs arbitrary: w) (auto simp: bind_eq_Some_conv dest: distinct_removeInvite)

lemma distinct_share:
  "setSharedExperience env q p a w = Some (b, w') \<Longrightarrow> distinct_invites w \<Longrightarrow> distinct_invites w'"
  by (auto simp: setSharedExperience_def updateAllPartyIcons_def bind_eq_Some_conv Let_def split: if_splits
      dest!: touch_same)

lemma distinct_ticks:
  "updatePlayerTicks env q p n w = Some w' \<Longrightarrow> distinct_invites w \<Longrightarrow> distinct_invites w'"
  by (auto simp: updatePlayerTicks_def bind_eq_Some_conv Let_def split: if_splits dest!: distinct_shared)

lemma distinct_setParty:
  "set_player p (setParty v) w = Some w' \<Longrightarrow> distinct_invites w \<Longrightarrow> distinct_invites w'"
  by (erule distinct_set_player) simp_all

lemma distinct_playerInvite:
  assumes r: "playerInviteToParty env f p i w = Some w'" and d: "distinct_invites w"
  shows "distinct_invites w'"
proof (cases "p = i \<or> w_players w p = None \<or> w_players w i = None")
  case True
  then show ?thesis using r d by (auto simp: playerInviteToParty_def split: option.splits)
next
  case False
  then obtain x y where xy: "p \<noteq> i" "w_players w p = Some x" "w_players w i = Some y" by auto
  with r obtain b where b: "isInviting i p w = Some b" by (auto simp: playerInviteToParty_def bind_eq_Some_conv)
  show ?thesis
  proof (cases "b \<or> pp_party y \<noteq> None")
    case True
    then have "playerInviteToParty env f p i w = Some w" using xy b by (auto simp: playerInviteToParty_def)
    then show ?thesis using r d by simp
  next
    case no: False
    show ?thesis
    proof (cases "pp_party x")
      case None
      then show ?thesis using r d xy b no
        by (auto simp: playerInviteToParty_def bind_eq_Some_conv split: if_splits
            dest!: distinct_setParty distinct_invite)
    next
      case (Some q)
      then show ?thesis using r d xy b no
        by (auto simp: playerInviteToParty_def bind_eq_Some_conv split: if_splits
            dest!: distinct_setParty distinct_invite)
    qed
  qed
qed

lemmas distinct_ops = distinct_leave distinct_join distinct_invite distinct_revoke distinct_remove_invites
  distinct_share distinct_pass distinct_set_player

lemma distinct_handlers:
  "playerInviteToParty env f p i w = Some w' \<Longrightarrow> distinct_invites w \<Longrightarrow> distinct_invites w'"
  "playerJoinParty env p l w = Some w' \<Longrightarrow> distinct_invites w \<Longrightarrow> distinct_invites w'"
  "playerRevokePartyInvitation env p i w = Some w' \<Longrightarrow> distinct_invites w \<Longrightarrow> distinct_invites w'"
  "playerPassPartyLeadership env p i w = Some w' \<Longrightarrow> distinct_invites w \<Longrightarrow> distinct_invites w'"
  "playerLeaveParty env p w = Some w' \<Longrightarrow> distinct_invites w \<Longrightarrow> distinct_invites w'"
  "playerEnableSharedPartyExperience env p a w = Some w' \<Longrightarrow> distinct_invites w \<Longrightarrow> distinct_invites w'"
  "playerLogout env p w = Some w' \<Longrightarrow> distinct_invites w \<Longrightarrow> distinct_invites w'"
proof -
  show "playerInviteToParty env f p i w = Some w' \<Longrightarrow> distinct_invites w \<Longrightarrow> distinct_invites w'"
    by (rule distinct_playerInvite)
  show "playerJoinParty env p l w = Some w' \<Longrightarrow> distinct_invites w \<Longrightarrow> distinct_invites w'"
    by (auto simp: playerJoinParty_def bind_eq_Some_conv split: option.splits if_splits dest!: distinct_join)
  show "playerRevokePartyInvitation env p i w = Some w' \<Longrightarrow> distinct_invites w \<Longrightarrow> distinct_invites w'"
    by (auto simp: playerRevokePartyInvitation_def bind_eq_Some_conv split: option.splits if_splits
        dest!: distinct_revoke)
  show "playerPassPartyLeadership env p i w = Some w' \<Longrightarrow> distinct_invites w \<Longrightarrow> distinct_invites w'"
    by (auto simp: playerPassPartyLeadership_def bind_eq_Some_conv split: option.splits if_splits
        dest!: distinct_pass)
  show "playerLeaveParty env p w = Some w' \<Longrightarrow> distinct_invites w \<Longrightarrow> distinct_invites w'"
    by (auto simp: playerLeaveParty_def bind_eq_Some_conv split: option.splits if_splits dest!: distinct_leave)
  show "playerEnableSharedPartyExperience env p a w = Some w' \<Longrightarrow> distinct_invites w \<Longrightarrow> distinct_invites w'"
    by (auto simp: playerEnableSharedPartyExperience_def bind_eq_Some_conv split: option.splits if_splits
        dest!: distinct_share)
  assume out: "playerLogout env p w = Some w'" and d: "distinct_invites w"
  from out obtain w1 x w2 where 1: "clearPartyInvitations env p w = Some w1" "w_players w1 p = Some x"
    "(case pp_party x of None \<Rightarrow> Some w1 | Some q \<Rightarrow> do { (_, w) \<leftarrow> leaveParty env q p True w1; Some w }) = Some w2"
    "w' = w2\<lparr>w_players := (w_players w2)(p := None)\<rparr>"
    by (auto simp: playerLogout_def bind_eq_Some_conv)
  from 1(1) d have "distinct_invites w1"
    by (auto simp: clearPartyInvitations_def bind_eq_Some_conv dest!: distinct_remove_invites distinct_set_player)
  with 1(3) have "distinct_invites w2"
    by (auto simp: bind_eq_Some_conv split: option.splits dest!: distinct_leave)
  then show "distinct_invites w'" unfolding 1(4) by (auto simp: distinct_invites_def split: if_splits)
qed

subsection \<open>Reachable states\<close>

definition new_player :: "u32 \<Rightarrow> Position \<Rightarrow> party_player" where
  "new_player level pos = \<lparr>pp_party = None, pp_invitePartyList = [], pp_level = level, pp_position = pos,
     pp_notGainInFight = False, pp_infight = False, pp_protectionZone = False\<rparr>"

text \<open>
  A player changes in ways that are no business of the party: level, position, flags and conditions.
\<close>

definition same_party_fields :: "party_player \<Rightarrow> party_player \<Rightarrow> bool" where
  "same_party_fields x y \<longleftrightarrow> pp_party x = pp_party y \<and> pp_invitePartyList x = pp_invitePartyList y"

inductive party_step :: "world \<Rightarrow> world \<Rightarrow> bool" where
  step_login: "w_players w p = None \<Longrightarrow>
    party_step w (w\<lparr>w_players := (w_players w)(p \<mapsto> new_player level pos)\<rparr>)"
| step_change: "w_players w p = Some x \<Longrightarrow> same_party_fields x y \<Longrightarrow>
    party_step w (w\<lparr>w_players := (w_players w)(p \<mapsto> y)\<rparr>)"
| step_ticks: "w_players w p = Some x \<Longrightarrow> pp_party x = Some q \<Longrightarrow>
    updatePlayerTicks env q p points w = Some w' \<Longrightarrow> party_step w w'"
| step_invite: "w_parties w fresh = None \<Longrightarrow> playerInviteToParty env fresh p i w = Some w' \<Longrightarrow> party_step w w'"
| step_join: "playerJoinParty env p l w = Some w' \<Longrightarrow> party_step w w'"
| step_revoke: "\<forall>q. onDisband env q \<Longrightarrow> playerRevokePartyInvitation env p i w = Some w' \<Longrightarrow> party_step w w'"
| step_pass: "playerPassPartyLeadership env p i w = Some w' \<Longrightarrow> party_step w w'"
| step_leave: "\<forall>q. onDisband env q \<Longrightarrow> playerLeaveParty env p w = Some w' \<Longrightarrow> party_step w w'"
| step_share: "playerEnableSharedPartyExperience env p a w = Some w' \<Longrightarrow> party_step w w'"
| step_logout: "\<forall>q. onDisband env q \<Longrightarrow> p \<in> present w \<Longrightarrow> playerLogout env p w = Some w' \<Longrightarrow> party_step w w'"

definition empty_world :: world where
  "empty_world = \<lparr>w_players = Map.empty, w_parties = Map.empty\<rparr>"

inductive party_reachable :: "world \<Rightarrow> bool" where
  reach_start: "party_reachable empty_world"
| reach_step: "party_reachable w \<Longrightarrow> party_step w w' \<Longrightarrow> party_reachable w'"

definition world_ok :: "world \<Rightarrow> bool" where
  "world_ok w \<longleftrightarrow> party_inv w \<and> distinct_invites w"

lemma world_okI: "\<exists>w'. f = Some w' \<and> kept w w' \<Longrightarrow> f = Some w' \<Longrightarrow> distinct_invites w' \<Longrightarrow> world_ok w'"
  by (auto simp: world_ok_def kept_def)

lemma world_ok_players:
  assumes "world_ok w" and "party_of w' = party_of w" and "invited_by w' = invited_by w"
    and "w_parties w' = w_parties w" and "distinct_invites w'"
  shows "world_ok w'"
proof -
  have "core w' = core w" using assms(4) by (simp add: core_def fun_eq_iff)
  with assms show ?thesis by (simp add: world_ok_def party_inv_def linked_def)
qed

lemma party_step_ok: "party_step w w' \<Longrightarrow> world_ok w \<Longrightarrow> world_ok w'"
proof (induction rule: party_step.induct)
  case (step_login w p level pos)
  then show ?case
    by (intro world_ok_players [OF step_login(2)])
      (auto simp: party_of_def invited_by_def new_player_def distinct_invites_def world_ok_def fun_eq_iff)
next
  case (step_change w p x y)
  then show ?case
    by (intro world_ok_players [OF step_change(3)])
      (auto simp: party_of_def invited_by_def same_party_fields_def distinct_invites_def world_ok_def fun_eq_iff
        dest: sym)
next
  case (step_ticks w p x q env points w')
  then show ?case
    using updatePlayerTicks_keeps [of w p q env points] player_party(1) [of w p x] distinct_ticks
    by (intro world_okI [OF _ step_ticks(3)]) (auto simp: world_ok_def)
next
  case (step_logout env p w w')
  then show ?case
    using playerLogout_leaves [of w env p] distinct_handlers(7) [OF step_logout(3)] by (auto simp: world_ok_def)
next
  case (step_invite w fresh env p i w')
  then have "party_inv w" "distinct_invites w'"
    using distinct_handlers(1) [OF step_invite(2)] by (simp_all add: world_ok_def)
  then show ?case
    using playerInvite_keeps [OF _ step_invite(1), of env p i] by (intro world_okI [OF _ step_invite(2)])
next
  case (step_join env p l w w')
  then have "party_inv w" "distinct_invites w'"
    using distinct_handlers(2) [OF step_join(1)] by (simp_all add: world_ok_def)
  then show ?case
    using playerJoinParty_keeps [of w env p l] by (intro world_okI [OF _ step_join(1)])
next
  case (step_revoke env p i w w')
  then have "party_inv w" "distinct_invites w'"
    using distinct_handlers(3) [OF step_revoke(2)] by (simp_all add: world_ok_def)
  then show ?case
    using playerRevoke_keeps [OF _ step_revoke(1), of _ p i] by (intro world_okI [OF _ step_revoke(2)])
next
  case (step_pass env p i w w')
  then have "party_inv w" "distinct_invites w'"
    using distinct_handlers(4) [OF step_pass(1)] by (simp_all add: world_ok_def)
  then show ?case
    using playerPass_keeps [of w env p i] by (intro world_okI [OF _ step_pass(1)])
next
  case (step_leave env p w w')
  then have "party_inv w" "distinct_invites w'"
    using distinct_handlers(5) [OF step_leave(2)] by (simp_all add: world_ok_def)
  then show ?case
    using playerLeave_keeps [OF _ step_leave(1), of _ p] by (intro world_okI [OF _ step_leave(2)])
next
  case (step_share env p a w w')
  then have "party_inv w" "distinct_invites w'"
    using distinct_handlers(6) [OF step_share(1)] by (simp_all add: world_ok_def)
  then show ?case
    using playerShare_keeps [of w env p a] by (intro world_okI [OF _ step_share(1)])
qed

lemma reachable_ok: "party_reachable w \<Longrightarrow> world_ok w"
proof (induction rule: party_reachable.induct)
  case reach_start
  then show ?case
    by (simp add: world_ok_def party_inv_def linked_def view_ok_def nonempty_parties_def distinct_invites_def
        empty_world_def party_of_def invited_by_def core_def)
qed (rule party_step_ok)

text \<open>
  C12: in every reachable state, whatever the scripts answer (short of vetoing a disbanding), membership and
  invitations agree at both ends: the party of a player is alive and has it as leader or member, a party's
  leader and members are distinct players online whose party it is, the players it invites are exactly
  those whose list names it and are not in it, and no party is empty.
\<close>

theorem party_links_agree:
  assumes "party_reachable w"
  shows "(\<forall>p x q. w_players w p = Some x \<and> pp_party x = Some q \<longrightarrow>
      (\<exists>P. w_parties w q = Some P \<and> (leader P = Some p \<or> p \<in> set (memberList P)))) \<and>
    (\<forall>q P. w_parties w q = Some P \<longrightarrow>
      (\<exists>l. leader P = Some l \<and> distinct (l # memberList P) \<and> distinct (inviteList P) \<and>
        (\<forall>p \<in> set (l # memberList P). \<exists>x. w_players w p = Some x \<and> pp_party x = Some q \<and> p \<notin> set (inviteList P)) \<and>
        (\<forall>p. p \<in> set (inviteList P) \<longleftrightarrow> (\<exists>x. w_players w p = Some x \<and> q \<in> set (pp_invitePartyList x))) \<and>
        \<not> party_empty P))"
proof (intro conjI allI impI)
  have inv: "party_inv w" using reachable_ok [OF assms] by (simp add: world_ok_def)
  note linked = party_inv_linked [OF inv]
  fix p x q assume "w_players w p = Some x \<and> pp_party x = Some q"
  then have q: "party_of w p = Some q" by (simp add: party_of_def)
  obtain P where P: "w_parties w q = Some P" using linked_party_exists(1) [OF linked q] by blast
  then show "\<exists>P. w_parties w q = Some P \<and> (leader P = Some p \<or> p \<in> set (memberList P))"
    using q by (rule_tac linked_party [OF linked P]) auto
next
  have inv: "party_inv w" using reachable_ok [OF assms] by (simp add: world_ok_def)
  fix q P assume P: "w_parties w q = Some P"
  obtain l where l: "leader P = Some l" "core w q = Some (Some l, memberList P, inviteList P)"
    "distinct (l # memberList P)" "distinct (inviteList P)"
    "\<And>p. party_of w p = Some q \<longleftrightarrow> p = l \<or> p \<in> set (memberList P)"
    "\<And>p. q \<in> invited_by w p \<longleftrightarrow> p \<in> set (inviteList P)"
    "\<And>p. p \<in> set (inviteList P) \<Longrightarrow> p \<noteq> l \<and> p \<notin> set (memberList P)"
    by (rule linked_party [OF party_inv_linked [OF inv] P]) (rule that)
  have members: "\<forall>p \<in> set (l # memberList P). \<exists>x. w_players w p = Some x \<and> pp_party x = Some q \<and> p \<notin> set (inviteList P)"
  proof
    fix p assume p: "p \<in> set (l # memberList P)"
    then have "party_of w p = Some q" using l(5) by simp
    moreover have "p \<notin> set (inviteList P)" using l(7) p by auto
    ultimately show "\<exists>x. w_players w p = Some x \<and> pp_party x = Some q \<and> p \<notin> set (inviteList P)"
      by (auto simp: party_of_def split: option.splits)
  qed
  have invites: "p \<in> set (inviteList P) \<longleftrightarrow> (\<exists>x. w_players w p = Some x \<and> q \<in> set (pp_invitePartyList x))" for p
    using l(6) [of p] by (auto simp: invited_by_def split: option.splits)
  have "\<not> party_empty P"
    using inv l(2) by (fastforce simp: party_inv_def nonempty_parties_def party_empty_def)
  with l(1,3,4) members invites show "\<exists>l. leader P = Some l \<and> distinct (l # memberList P) \<and> distinct (inviteList P) \<and>
      (\<forall>p \<in> set (l # memberList P). \<exists>x. w_players w p = Some x \<and> pp_party x = Some q \<and> p \<notin> set (inviteList P)) \<and>
      (\<forall>p. p \<in> set (inviteList P) \<longleftrightarrow> (\<exists>x. w_players w p = Some x \<and> q \<in> set (pp_invitePartyList x))) \<and>
      \<not> party_empty P"
    by (intro exI [of _ l] conjI allI) assumption+
qed

text \<open>
  C13: in every reachable state every handler runs to its end without touching a null pointer, a freed party or
  a player who has left, whatever its arguments and the scripts' answers (short of vetoing a disbanding).
\<close>

theorem party_handlers_safe:
  assumes "party_reachable w" and "\<forall>q. onDisband env q" and "w_parties w fresh = None" and "p \<in> dom (w_players w)"
  shows "playerInviteToParty env fresh p i w \<noteq> None \<and> playerJoinParty env p i w \<noteq> None \<and>
    playerRevokePartyInvitation env p i w \<noteq> None \<and> playerPassPartyLeadership env p i w \<noteq> None \<and>
    playerLeaveParty env p w \<noteq> None \<and> playerEnableSharedPartyExperience env p active w \<noteq> None \<and>
    playerLogout env p w \<noteq> None"
proof -
  have inv: "party_inv w" and d: "distinct_invites w"
    using reachable_ok [OF assms(1)] by (simp_all add: world_ok_def)
  show ?thesis
    using playerInvite_keeps [OF inv assms(3), of env p i] playerJoinParty_keeps [OF inv, of env p i]
      playerRevoke_keeps [OF inv assms(2), of p i] playerPass_keeps [OF inv, of env p i]
      playerLeave_keeps [OF inv assms(2), of p] playerShare_keeps [OF inv, of env p active]
      playerLogout_leaves [OF inv assms(2,4) d] by fastforce
qed

subsection \<open>Examples\<close>

definition script_env :: "bool \<Rightarrow> party_env" where
  "script_env disbanding = \<lparr>onInvite = \<lambda>_ _. True, onJoin = \<lambda>_ _. True, onLeave = \<lambda>_ _. True,
     onPassLeadership = \<lambda>_ _. True, onRevokeInvitation = \<lambda>_ _. True, onDisband = \<lambda>_. disbanding,
     now = 0, pzLocked = 60000\<rparr>"

definition two_players :: world where
  "two_players = \<lparr>w_players = [1 \<mapsto> new_player 8 (Position 100 100 7), 2 \<mapsto> new_player 9 (Position 101 100 7)],
     w_parties = Map.empty\<rparr>"

definition one_invited :: world where
  "one_invited = \<lparr>w_players =
       [1 \<mapsto> setParty (Some 7) (new_player 8 (Position 100 100 7)),
        2 \<mapsto> addPartyInvitation 7 (new_player 9 (Position 101 100 7))],
     w_parties = [7 \<mapsto> (new_party 1)\<lparr>inviteList := [2]\<rparr>]\<rparr>"

lemma one_invited_reached: "playerInviteToParty (script_env True) 7 1 2 two_players = Some one_invited"
  by (simp add: playerInviteToParty_def two_players_def one_invited_def script_env_def isInviting_def
      new_player_def new_party_def set_player_def set_party_def setParty_def invitePlayer_def isPlayerInvited_def
      touch_def addPartyInvitation_def fun_upd_twist)

lemma one_invited_reachable: "party_reachable one_invited"
proof -
  have 1: "party_reachable (empty_world\<lparr>w_players := (w_players empty_world)(1 \<mapsto> new_player 8 (Position 100 100 7))\<rparr>)"
    (is "party_reachable ?w1")
    by (rule reach_step [OF reach_start step_login]) (simp add: empty_world_def)
  have "party_reachable (?w1\<lparr>w_players := (w_players ?w1)(2 \<mapsto> new_player 9 (Position 101 100 7))\<rparr>)"
    by (rule reach_step [OF 1 step_login]) (simp add: empty_world_def)
  then have 2: "party_reachable two_players" by (simp add: two_players_def empty_world_def)
  show ?thesis
    by (rule reach_step [OF 2 step_invite [OF _ one_invited_reached]]) (simp add: two_players_def)
qed

theorem party_links_agree_witness:
  "\<exists>P x. w_parties one_invited 7 = Some P \<and> leader P = Some 1 \<and> inviteList P = [2] \<and> \<not> party_empty P \<and>
    w_players one_invited 2 = Some x \<and> 7 \<in> set (pp_invitePartyList x)"
proof -
  let ?P = "(new_party 1)\<lparr>inviteList := [2]\<rparr>"
  have P: "w_parties one_invited 7 = Some ?P" "leader ?P = Some 1" "inviteList ?P = [2]"
    by (simp_all add: one_invited_def new_party_def)
  note agree = conjunct2 [OF party_links_agree [OF one_invited_reachable], rule_format, OF P(1)]
  from P(3) agree obtain x where "w_players one_invited 2 = Some x" "7 \<in> set (pp_invitePartyList x)"
    by fastforce
  with P agree show ?thesis by blast
qed

theorem party_handlers_safe_witness:
  "playerInviteToParty (script_env True) 8 2 1 one_invited \<noteq> None \<and> playerJoinParty (script_env True) 2 1 one_invited \<noteq> None \<and>
    playerRevokePartyInvitation (script_env True) 2 1 one_invited \<noteq> None \<and>
    playerPassPartyLeadership (script_env True) 2 1 one_invited \<noteq> None \<and>
    playerLeaveParty (script_env True) 2 one_invited \<noteq> None \<and>
    playerEnableSharedPartyExperience (script_env True) 2 True one_invited \<noteq> None \<and>
    playerLogout (script_env True) 2 one_invited \<noteq> None"
  by (rule party_handlers_safe [OF one_invited_reachable]) (simp_all add: script_env_def one_invited_def)

subsection \<open>A vetoed disbanding\<close>

text \<open>Only the answer about the party itself decides whether a refused invitation disbands it.\<close>

definition without_vetoes :: "party_env \<Rightarrow> party_env" where
  "without_vetoes env = env\<lparr>onDisband := \<lambda>_. True\<rparr>"

lemma disband_unvetoed: "onDisband env q \<Longrightarrow> disband (without_vetoes env) q = disband env q"
  by (rule ext) (simp add: disband_def without_vetoes_def)

lemma removeInvite_unvetoed:
  "onDisband env q \<Longrightarrow> removeInvite (without_vetoes env) q p b w = removeInvite env q p b w"
  by (simp only: removeInvite_def disband_unvetoed)

lemma remove_invites_unvetoed:
  "\<forall>q \<in> set qs. onDisband env q \<Longrightarrow> remove_invites (without_vetoes env) p qs w = remove_invites env p qs w"
proof (induction qs arbitrary: w)
  case (Cons q qs)
  then have "remove_invites (without_vetoes env) p qs = remove_invites env p qs" by (intro ext) simp
  with Cons.prems show ?case by (simp add: removeInvite_unvetoed)
qed simp

text \<open>What a player's invitations to other parties leave alone: who is online, and this party.\<close>

lemma set_player_frame:
  "set_player p f w = Some w' \<Longrightarrow> w_parties w' = w_parties w \<and> dom (w_players w') = dom (w_players w)"
  by (auto simp: set_player_def split: Option.bind_splits if_splits)

lemma for_players_frame:
  "for_players ps f w = Some w' \<Longrightarrow> w_parties w' = w_parties w \<and> dom (w_players w') = dom (w_players w)"
proof (induction ps arbitrary: w)
  case (Cons p ps)
  then obtain w1 where "set_player p f w = Some w1" "for_players ps f w1 = Some w'"
    by (auto split: Option.bind_splits)
  with Cons.IH [of w1] set_player_frame [of p f w w1] show ?case by simp
qed simp

lemma disband_frame:
  assumes "disband env q w = Some w'"
  shows "w_parties w' = w_parties w \<or> w_parties w' = (w_parties w)(q := None)"
    and "dom (w_players w') = dom (w_players w)"
proof -
  obtain P where P: "w_parties w q = Some P" using assms by (auto simp: disband_def split: Option.bind_splits)
  have "(w_parties w' = w_parties w \<or> w_parties w' = (w_parties w)(q := None))
    \<and> dom (w_players w') = dom (w_players w)"
  proof (cases "onDisband env q")
    case True
    then obtain l w1 w2 w3 where "set_player l (setParty None) w = Some w1"
      "for_players (inviteList P) (removePartyInvitation q) w1 = Some w2"
      "for_players (memberList P) (setParty None) w2 = Some w3" "w' = w3\<lparr>w_parties := (w_parties w3)(q := None)\<rparr>"
      using assms P by (auto simp: disband_def split: Option.bind_splits)
    with set_player_frame [of l _ w w1] for_players_frame [of _ _ w1 w2] for_players_frame [of _ _ w2 w3]
    show ?thesis by simp
  next
    case False
    with assms P show ?thesis by (simp add: disband_def)
  qed
  then show "w_parties w' = w_parties w \<or> w_parties w' = (w_parties w)(q := None)"
    "dom (w_players w') = dom (w_players w)" by blast+
qed

lemma touch_Some: "touch ps w = Some w' \<Longrightarrow> w' = w \<and> set ps \<subseteq> present w"
  by (auto simp: touch_def list_all_iff split: if_splits)

lemma removeInvite_frame:
  assumes "removeInvite env q p False w = Some (b, w')" and "r \<noteq> q"
  shows "w_parties w' r = w_parties w r" and "dom (w_players w') = dom (w_players w)"
proof -
  have "w' = w \<or> (\<exists>P. w' = set_party q P w \<or> disband env q (set_party q P w) = Some w')"
    using assms(1)
    by (auto simp: removeInvite_def Let_def split: Option.bind_splits if_splits dest!: touch_Some)
  then have "w_parties w' r = w_parties w r \<and> dom (w_players w') = dom (w_players w)"
    using assms(2) disband_frame [of env q _ w'] by (fastforce simp: set_party_def)
  then show "w_parties w' r = w_parties w r" "dom (w_players w') = dom (w_players w)" by blast+
qed

lemma remove_invites_frame:
  "remove_invites env p qs w = Some w' \<Longrightarrow> r \<notin> set qs \<Longrightarrow> w_parties w' r = w_parties w r"
proof (induction qs arbitrary: w)
  case (Cons q qs)
  then obtain b w1 where "removeInvite env q p False w = Some (b, w1)" "remove_invites env p qs w1 = Some w'"
    by (auto split: Option.bind_splits)
  with Cons removeInvite_frame(1) [of env q p w b w1 r] show ?case by simp
qed simp

text \<open>Turning down the invitation of a party whose leader is gone follows the leader.\<close>

lemma remove_invites_dangling:
  assumes "w_parties w q = Some P" and "leader P = Some l" and "w_players w l = None"
    and "p \<in> set (inviteList P)" and "q \<in> set qs"
  shows "remove_invites env p qs w = None"
  using assms
proof (induction qs arbitrary: w)
  case (Cons r qs)
  show ?case
  proof (cases "r = q")
    case True
    with Cons.prems show ?thesis
      by (simp add: removeInvite_def touch_def set_party_def Let_def)
  next
    case False
    show ?thesis
    proof (cases "removeInvite env r p False w")
      case (Some bw)
      obtain b w1 where r: "removeInvite env r p False w = Some (b, w1)" using Some by (cases bw) simp
      have "w_parties w1 q = Some P" "w_players w1 l = None" "q \<in> set qs"
        using removeInvite_frame [OF r, of q] Cons.prems False by auto
      with Cons.IH [of w1] Cons.prems r show ?thesis by simp
    qed simp
  qed
qed simp

lemma clear_own_invitations:
  assumes inv: "party_inv w" and d: "distinct_invites w" and x: "w_players w p = Some x"
    and db: "\<forall>q \<in> set (pp_invitePartyList x). onDisband env q"
  shows "\<exists>w'. clearPartyInvitations env p w = Some w' \<and> party_inv w' \<and> present w' = present w \<and>
    (\<forall>q. q \<notin> set (pp_invitePartyList x) \<longrightarrow> w_parties w' q = w_parties w q)"
proof -
  have p: "p \<in> present w" using x by blast
  have qs: "(invited_by w)(p := set (pp_invitePartyList x)) = invited_by w"
    using player_party(2) [OF x] by (simp add: fun_upd_idem)
  have view: "view_ok (party_of w) ((invited_by w)(p := set (pp_invitePartyList x))) (core w)"
    "nonempty_parties (core w)" "distinct (pp_invitePartyList x)"
    unfolding qs using inv d x by (simp_all add: party_inv_def linked_def distinct_invites_def)
  have "\<forall>q. onDisband (without_vetoes env) q" by (simp add: without_vetoes_def)
  from remove_invites_view [OF view(1,2) p view(3) this]
  obtain w1 where w1: "remove_invites env p (pp_invitePartyList x) w = Some w1" "present w1 = present w"
    "view_ok (party_of w1) ((invited_by w1)(p := {})) (core w1)" "nonempty_parties (core w1)"
    unfolding remove_invites_unvetoed [OF db] by blast
  obtain x1 where x1: "w_players w1 p = Some x1" using p w1(2) by blast
  let ?w2 = "w1\<lparr>w_players := (w_players w1)(p \<mapsto> x1\<lparr>pp_invitePartyList := []\<rparr>)\<rparr>"
  have v2: "party_of ?w2 = party_of w1" "invited_by ?w2 = (invited_by w1)(p := {})" "core ?w2 = core w1"
    "present ?w2 = present w1"
    using x1 by (auto simp: party_of_def invited_by_def core_def fun_eq_iff)
  have "party_inv ?w2"
    unfolding party_inv_def linked_def v2 using w1(3,4) by blast
  moreover have "clearPartyInvitations env p w = Some ?w2"
    using x w1(1) x1 by (simp add: clearPartyInvitations_def set_player_def)
  moreover have "\<forall>q. q \<notin> set (pp_invitePartyList x) \<longrightarrow> w_parties ?w2 q = w_parties w q"
    using remove_invites_frame [OF w1(1)] by simp
  ultimately show ?thesis using v2(4) w1(2) by metis
qed

text \<open>
  C14: a script that vetoes the disbanding of a party leaves it with a leader who has left.  In any
  reachable world, when the leader of a party without members logs out and the script vetoes the disbanding
  of that party, the party keeps its pointer to the player who is gone and the invitations it has sent; the
  logout of any player it has invited, whatever the scripts answer then, follows that pointer.
\<close>

theorem disband_veto_dangles:
  assumes "party_reachable w" and P: "w_parties w q = Some P" and l: "leader P = Some l"
    and alone: "memberList P = []" and veto: "\<forall>r. onDisband env r \<longleftrightarrow> r \<noteq> q"
  shows "\<exists>w' P'. playerLogout env l w = Some w' \<and> w_players w' l = None \<and> w_parties w' q = Some P' \<and>
    leader P' = Some l \<and> inviteList P' = inviteList P \<and> inviteList P \<noteq> [] \<and>
    (\<forall>p \<in> set (inviteList P). p \<in> dom (w_players w') \<and> (\<forall>env'. playerLogout env' p w' = None))"
proof -
  have inv: "party_inv w" and d: "distinct_invites w"
    using reachable_ok [OF assms(1)] by (simp_all add: world_ok_def)
  obtain l' where l': "leader P = Some l'" "core w q = Some (Some l', memberList P, inviteList P)"
    "\<And>p. q \<in> invited_by w p \<longleftrightarrow> p \<in> set (inviteList P)"
    "\<And>p. p \<in> set (inviteList P) \<Longrightarrow> p \<noteq> l' \<and> p \<notin> set (memberList P)"
    "insert l' (set (memberList P) \<union> set (inviteList P)) \<subseteq> present w"
    by (rule linked_party [OF party_inv_linked [OF inv] P]) (rule that)
  have ne: "inviteList P \<noteq> []"
    using inv l'(2) alone by (fastforce simp: party_inv_def nonempty_parties_def)
  obtain x where x: "w_players w l = Some x" using l l' by auto
  have nq: "q \<notin> set (pp_invitePartyList x)"
    using l'(3) [of l] l'(4) [of l] l l'(1) player_party(2) [OF x] by auto
  then have "\<forall>r \<in> set (pp_invitePartyList x). onDisband env r" using veto by auto
  from clear_own_invitations [OF inv d x this] nq P
  obtain w1 where w1: "clearPartyInvitations env l w = Some w1" "party_inv w1" "present w1 = present w"
    "w_parties w1 q = Some P" by auto
  have po: "party_of w1 l = Some q"
    by (rule linked_party [OF party_inv_linked [OF w1(2)] w1(4)]) (use l in auto)
  then obtain x1 where x1: "w_players w1 l = Some x1" "pp_party x1 = Some q"
    by (auto simp: party_of_def split: option.splits)
  have inside: "insert l (set (memberList P) \<union> set (inviteList P)) \<subseteq> present w1"
    using l'(5) l l'(1) w1(3) by simp
  obtain w2 P2 where w2: "leaveParty_rest env q l True w1 = do { w3 \<leftarrow> disband env q w2; Some (True, w3) }"
    "present w2 = present w1" "invited_by w2 = invited_by w1" "w_parties w2 q = Some P2"
    "leader P2 = Some l" "inviteList P2 = inviteList P"
    using leaveParty_rest_view [OF w1(4) l inside, of l env True] inside alone by auto
  have "leaveParty env q l True w1 = Some (True, w2)"
    using w1(4) x1 l alone veto w2(1,4) by (simp add: leaveParty_def disband_def)
  then have out: "playerLogout env l w = Some (w2\<lparr>w_players := (w_players w2)(l := None)\<rparr>)" (is "_ = Some ?w'")
    using w1(1) x1 by (simp add: playerLogout_def)
  have "p \<in> dom (w_players ?w') \<and> playerLogout env' p ?w' = None" if p: "p \<in> set (inviteList P)" for p env'
  proof -
    have pl: "p \<noteq> l" and pin: "p \<in> present w2" using l'(1,4) l p inside w2(2) by auto
    have "q \<in> invited_by w2 p"
      unfolding w2(3) by (rule linked_party [OF party_inv_linked [OF w1(2)] w1(4)]) (use p in auto)
    then obtain y where y: "w_players w2 p = Some y" "q \<in> set (pp_invitePartyList y)"
      by (auto simp: invited_by_def split: option.splits)
    have "remove_invites env' p (pp_invitePartyList y) ?w' = None"
      by (rule remove_invites_dangling [of _ q P2 l]) (use w2(4-6) p y(2) in auto)
    then show ?thesis using y(1) pl pin by (simp add: playerLogout_def clearPartyInvitations_def)
  qed
  then show ?thesis
    using out ne w2(4-6) by (intro exI [of _ ?w'] exI [of _ P2]) simp
qed

theorem disband_veto_dangles_witness:
  "\<exists>w' P'. playerLogout (script_env False\<lparr>onDisband := \<lambda>r. r \<noteq> 7\<rparr>) 1 one_invited = Some w' \<and>
    w_players w' 1 = None \<and> w_parties w' 7 = Some P' \<and> leader P' = Some 1 \<and>
    playerLogout (script_env True) 2 w' = None"
  using disband_veto_dangles [OF one_invited_reachable, of 7 "(new_party 1)\<lparr>inviteList := [2]\<rparr>" 1
      "script_env False\<lparr>onDisband := \<lambda>r. r \<noteq> 7\<rparr>"]
  by (simp add: one_invited_def new_party_def script_env_def) blast
end
