(* ===== verification/Player_Progress.thy ===== *)
theory Player_Progress
  imports Prelude
begin

text \<open>
  What a player gains and loses: levels (\<open>Player::addExperience\<close>, \<open>removeExperience\<close>), skills
  (\<open>addSkillAdvance\<close>, \<open>removeSkillTries\<close>), the magic level (\<open>addManaSpent\<close>, \<open>removeManaSpent\<close>), the
  losses of \<open>Player::death\<close>, and the health, mana, soul and capacity that go with them (player.cpp,
  player.h, \<open>Creature::changeHealth\<close> of creature.cpp).  Every field has the width of the C++ member; a
  signed member is a word read with \<open>sint\<close>.  The tables of a vocation are computed with \<open>std::pow\<close> on
  doubles, so they are functions of the vocation record; \<open>share\<close> stands for the quotient of doubles in
  \<open>getBasisPointLevel\<close>, and the event scripts, which may replace the amount that is gained or lost,
  are functions too.  The calls that leave the player are logged in \<open>pl_calls\<close>, newest first.
\<close>

subsection \<open>Signed maximum and minimum\<close>

definition max_i32 :: "i32 \<Rightarrow> i32 \<Rightarrow> i32" where
  "max_i32 a b = (if a <s b then b else a)"

definition min_i32 :: "i32 \<Rightarrow> i32 \<Rightarrow> i32" where
  "min_i32 a b = (if b <s a then b else a)"

definition max_i64 :: "i64 \<Rightarrow> i64 \<Rightarrow> i64" where
  "max_i64 a b = (if a <s b then b else a)"

lemma sint_max_i32: "sint (max_i32 a b) = max (sint a) (sint b)"
  by (simp add: max_i32_def word_sless_alt)

lemma sint_min_i32: "sint (min_i32 a b) = min (sint a) (sint b)"
  by (simp add: min_i32_def word_sless_alt)

lemma sint_i32_lower: "- 2147483648 \<le> sint (a :: i32)"
  using sint_greater_eq [of a] by simp

lemma sint_i32_upper: "sint (a :: i32) < 2147483648"
  using sint_less [of a] by simp

lemma sint_add_i32:
  assumes "- 2147483648 \<le> sint (a :: i32) + sint b" and "sint a + sint b < 2147483648"
  shows "sint (a + b) = sint a + sint b"
  by (subst sint_word_ariths(1)) (use assms in \<open>simp add: signed_take_bit_int_eq_self\<close>)

lemma sint_sub_i32:
  assumes "- 2147483648 \<le> sint (a :: i32) - sint b" and "sint a - sint b < 2147483648"
  shows "sint (a - b) = sint a - sint b"
  by (subst sint_word_ariths(2)) (use assms in \<open>simp add: signed_take_bit_int_eq_self\<close>)

lemma sint_uint_i32: "0 \<le> sint (a :: i32) \<Longrightarrow> uint a = sint a"
  by (simp add: uint_sint take_bit_int_eq_self sint_i32_upper [THEN less_trans])

lemma sint_small_i32: "uint (a :: i32) < 2147483648 \<Longrightarrow> sint a = uint a"
  by (simp add: sint_uint signed_take_bit_int_eq_self order_less_le_trans [of _ 0]
      order_trans [of "- 2147483648" 0])

subsection \<open>Vocations\<close>

record vocation =
  voc_id :: u16
  gainHP :: u32
  gainMana :: u32
  gainCap :: u32
  voc_baseSpeed :: u32
  soulMax :: u8
  skill_curve :: "nat \<Rightarrow> u16 \<Rightarrow> u64"
  mana_curve :: "u32 \<Rightarrow> u64"

definition SKILL_LAST :: nat where "SKILL_LAST = 6"
definition SKILL_MAGLEVEL :: nat where "SKILL_MAGLEVEL = 7"
definition SKILL_LEVEL :: nat where "SKILL_LEVEL = 8"
definition MINIMUM_SKILL_LEVEL :: u16 where "MINIMUM_SKILL_LEVEL = 10"
definition VOCATION_NONE :: u16 where "VOCATION_NONE = 0"
definition PLAYER_MAX_SPEED :: u32 where "PLAYER_MAX_SPEED = 1500"

definition getReqSkillTries :: "vocation \<Rightarrow> nat \<Rightarrow> u16 \<Rightarrow> u64" where
  "getReqSkillTries v skill level = (if SKILL_LAST < skill then 0 else skill_curve v skill level)"

definition getReqMana :: "vocation \<Rightarrow> u32 \<Rightarrow> u64" where
  "getReqMana v magLevel = (if magLevel = 0 then 0 else mana_curve v magLevel)"

subsection \<open>The player's state\<close>

record skill =
  sk_tries :: u64
  sk_level :: u16
  sk_percent :: u8

datatype call =
    SendStats
  | SendSkills
  | ChangeSpeed
  | AddCreatureHealth
  | UpdateCreatureWalkthrough
  | UpdateSharedExperience
  | PlayerAdvance nat u32 u32
  | AdvanceText nat u32
  | DowngradeText nat u32
  | ExecuteDeath

datatype stats_t = STAT_MAXHITPOINTS | STAT_MAXMANAPOINTS | STAT_SOULPOINTS | STAT_MAGICPOINTS

record player =
  pl_level :: u32
  pl_levelPercent :: u8
  pl_experience :: u64
  pl_health :: i32
  pl_healthMax :: i32
  pl_mana :: u32
  pl_manaMax :: u32
  pl_capacity :: u32
  pl_inventoryWeight :: u32
  pl_baseSpeed :: u32
  pl_magLevel :: u32
  pl_magLevelPercent :: u8
  pl_manaSpent :: u64
  pl_soul :: u8
  pl_skills :: "skill list"
  pl_varStats :: "stats_t \<Rightarrow> i32"
  pl_blessings :: "6 word"
  pl_inParty :: bool
  flag_NotGainMana :: bool
  flag_HasInfiniteMana :: bool
  flag_SetMaxSpeed :: bool
  flag_CannotPickupItem :: bool
  flag_HasInfiniteCapacity :: bool
  pl_calls :: "call list"

definition emit :: "call \<Rightarrow> player \<Rightarrow> player" where
  "emit c p = p\<lparr>pl_calls := c # pl_calls p\<rparr>"

record script_env =
  share :: "u64 \<Rightarrow> u64 \<Rightarrow> u16"
  onGainExperience :: "u64 \<Rightarrow> u64"
  onLoseExperience :: "u64 \<Rightarrow> u64"
  onGainSkillTries :: "nat \<Rightarrow> u64 \<Rightarrow> u64"
  protectionLevel :: u64

definition getBasisPointLevel :: "script_env \<Rightarrow> u64 \<Rightarrow> u64 \<Rightarrow> u16" where
  "getBasisPointLevel e count nextLevelCount =
     (if nextLevelCount = 0 then 0
      else let result = share e count nextLevelCount in if 10000 < result then 0 else result)"

definition percent_of :: "script_env \<Rightarrow> u64 \<Rightarrow> u64 \<Rightarrow> u8" where
  "percent_of e count nextLevelCount = ucast (getBasisPointLevel e count nextLevelCount div 100)"

definition getMaxHealth :: "player \<Rightarrow> i32" where
  "getMaxHealth p = max_i32 1 (pl_healthMax p + pl_varStats p STAT_MAXHITPOINTS)"

definition getMaxMana :: "player \<Rightarrow> u32" where
  "getMaxMana p = max_i32 0 (pl_manaMax p + pl_varStats p STAT_MAXMANAPOINTS)"

definition getCapacity :: "player \<Rightarrow> u32" where
  "getCapacity p = (if flag_CannotPickupItem p then 0 else if flag_HasInfiniteCapacity p then -1 else pl_capacity p)"

definition getFreeCapacity :: "player \<Rightarrow> u32" where
  "getFreeCapacity p =
     (if flag_CannotPickupItem p then 0 else if flag_HasInfiniteCapacity p then -1
      else max_i32 0 (pl_capacity p - pl_inventoryWeight p))"

definition updateInventoryWeight :: "u32 option list \<Rightarrow> player \<Rightarrow> player" where
  "updateInventoryWeight weights p =
     (if flag_HasInfiniteCapacity p then p
      else p\<lparr>pl_inventoryWeight :=
        fold (\<lambda>item sum. case item of None \<Rightarrow> sum | Some w \<Rightarrow> sum + w) weights 0\<rparr>)"

definition updateBaseSpeed :: "vocation \<Rightarrow> player \<Rightarrow> player" where
  "updateBaseSpeed v p =
     p\<lparr>pl_baseSpeed := (if flag_SetMaxSpeed p then PLAYER_MAX_SPEED else voc_baseSpeed v + 2 * (pl_level p - 1))\<rparr>"

subsection \<open>Health, mana and soul\<close>

definition isDead :: "player \<Rightarrow> bool" where
  "isDead p \<longleftrightarrow> \<not> 0 <s pl_health p"

definition creature_changeHealth :: "i32 \<Rightarrow> bool \<Rightarrow> player \<Rightarrow> player" where
  "creature_changeHealth healthChange sendHealthChange p =
     (let health' = (if 0 <s healthChange
                     then pl_health p + min_i32 healthChange (getMaxHealth p - pl_health p)
                     else max_i32 0 (pl_health p + healthChange));
          p1 = p\<lparr>pl_health := health'\<rparr>;
          p2 = (if sendHealthChange \<and> pl_health p \<noteq> health' then emit AddCreatureHealth p1 else p1)
      in if isDead p2 then emit ExecuteDeath p2 else p2)"

definition changeHealth :: "i32 \<Rightarrow> bool \<Rightarrow> player \<Rightarrow> player" where
  "changeHealth healthChange sendHealthChange p =
     emit SendStats (creature_changeHealth healthChange sendHealthChange p)"

definition changeMana :: "i32 \<Rightarrow> player \<Rightarrow> player" where
  "changeMana manaChange p =
     emit SendStats
       (if flag_HasInfiniteMana p then p
        else if 0 <s manaChange
        then p\<lparr>pl_mana := pl_mana p + min_i32 manaChange (getMaxMana p - pl_mana p)\<rparr>
        else p\<lparr>pl_mana := max_i32 0 (pl_mana p + manaChange)\<rparr>)"

definition changeSoul :: "vocation \<Rightarrow> i32 \<Rightarrow> player \<Rightarrow> player" where
  "changeSoul v soulChange p =
     emit SendStats
       (if 0 <s soulChange
        then p\<lparr>pl_soul := pl_soul p + ucast (min_i32 soulChange (ucast (soulMax v) - ucast (pl_soul p)))\<rparr>
        else p\<lparr>pl_soul := ucast (max_i32 0 (ucast (pl_soul p) + soulChange))\<rparr>)"

definition setVarStats :: "stats_t \<Rightarrow> i32 \<Rightarrow> player \<Rightarrow> player" where
  "setVarStats stat modifier p0 =
     (let p = p0\<lparr>pl_varStats := (pl_varStats p0)(stat := pl_varStats p0 stat + modifier)\<rparr>
      in case stat of
           STAT_MAXHITPOINTS \<Rightarrow>
             (if getMaxHealth p <s pl_health p
              then creature_changeHealth (getMaxHealth p - pl_health p) True p
              else emit AddCreatureHealth p)
         | STAT_MAXMANAPOINTS \<Rightarrow>
             (if getMaxMana p < pl_mana p then changeMana (getMaxMana p - pl_mana p) p else p)
         | _ \<Rightarrow> p)"

definition getDefaultStats :: "stats_t \<Rightarrow> player \<Rightarrow> i32" where
  "getDefaultStats stat p =
     (case stat of
        STAT_MAXHITPOINTS \<Rightarrow> pl_healthMax p
      | STAT_MAXMANAPOINTS \<Rightarrow> pl_manaMax p
      | STAT_MAGICPOINTS \<Rightarrow> pl_magLevel p
      | _ \<Rightarrow> 0)"

definition getMagicLevel :: "player \<Rightarrow> u32" where
  "getMagicLevel p = max_i32 0 (pl_magLevel p + pl_varStats p STAT_MAGICPOINTS)"

subsection \<open>Experience and levels\<close>

definition getExpForLevel :: "u64 \<Rightarrow> u64" where
  "getExpForLevel lv = (((lv - 6) * lv + 17) * lv - 12) div 6 * 100"

definition gain_level :: "vocation \<Rightarrow> player \<Rightarrow> player" where
  "gain_level v p =
     p\<lparr>pl_level := pl_level p + 1,
       pl_healthMax := pl_healthMax p + gainHP v, pl_health := pl_health p + gainHP v,
       pl_manaMax := pl_manaMax p + gainMana v, pl_mana := pl_mana p + gainMana v,
       pl_capacity := pl_capacity p + gainCap v\<rparr>"

function level_up_loop :: "vocation \<Rightarrow> player \<Rightarrow> u64 \<Rightarrow> u64 \<Rightarrow> player \<times> u64 \<times> u64" where
  "level_up_loop v p currLevelExp nextLevelExp =
     (if nextLevelExp \<le> pl_experience p
      then let p' = gain_level v p; next' = getExpForLevel (ucast (pl_level p' + 1))
           in if next' \<le> nextLevelExp then (p', nextLevelExp, next') else level_up_loop v p' nextLevelExp next'
      else (p, currLevelExp, nextLevelExp))"
  by pat_completeness auto

termination
  by (relation "measure (\<lambda>(v, p, curr, next). 2 ^ 64 - unat next)")
    (auto simp: word_le_nat_alt not_le intro!: diff_less_mono2 unsigned_less [THEN less_le_trans])

definition level_changed :: "vocation \<Rightarrow> player \<Rightarrow> player" where
  "level_changed v p =
     emit AddCreatureHealth (emit ChangeSpeed
       (updateBaseSpeed v (p\<lparr>pl_health := getMaxHealth p, pl_mana := getMaxMana p\<rparr>)))"

definition after_level_up :: "script_env \<Rightarrow> vocation \<Rightarrow> u32 \<Rightarrow> player \<Rightarrow> player" where
  "after_level_up e v prevLevel p1 =
     (if prevLevel = pl_level p1 then p1
      else let p = level_changed v p1;
               p = (if ucast prevLevel < protectionLevel e \<and> protectionLevel e \<le> ucast (pl_level p)
                    then emit UpdateCreatureWalkthrough p else p);
               p = (if pl_inParty p then emit UpdateSharedExperience p else p)
           in emit (AdvanceText SKILL_LEVEL (pl_level p))
                (emit (PlayerAdvance SKILL_LEVEL prevLevel (pl_level p)) p))"

definition addExperience :: "script_env \<Rightarrow> vocation \<Rightarrow> u64 \<Rightarrow> player \<Rightarrow> player" where
  "addExperience e v exp0 p0 =
     (let currLevelExp = getExpForLevel (ucast (pl_level p0));
          nextLevelExp = getExpForLevel (ucast (pl_level p0 + 1))
      in if nextLevelExp \<le> currLevelExp then emit SendStats (p0\<lparr>pl_levelPercent := 0\<rparr>)
      else let exp = onGainExperience e exp0
      in if exp = 0 then p0
      else let prevLevel = pl_level p0;
          (p1, curr, next) =
            level_up_loop v (p0\<lparr>pl_experience := pl_experience p0 + exp\<rparr>) currLevelExp nextLevelExp;
          p2 = after_level_up e v prevLevel p1;
          percent = (if curr < next then percent_of e (pl_experience p2 - curr) (next - curr) else 0)
      in emit SendStats (p2\<lparr>pl_levelPercent := percent\<rparr>))"

definition lose_level :: "vocation \<Rightarrow> player \<Rightarrow> player" where
  "lose_level v p =
     p\<lparr>pl_level := pl_level p - 1,
       pl_healthMax := max_i32 0 (pl_healthMax p - gainHP v),
       pl_manaMax := max_i32 0 (pl_manaMax p - gainMana v),
       pl_capacity := max_i32 0 (pl_capacity p - gainCap v)\<rparr>"

function level_down_loop :: "vocation \<Rightarrow> player \<Rightarrow> u64 \<Rightarrow> player \<times> u64" where
  "level_down_loop v p currLevelExp =
     (if 1 < pl_level p \<and> pl_experience p < currLevelExp
      then let p' = lose_level v p in level_down_loop v p' (getExpForLevel (ucast (pl_level p')))
      else (p, currLevelExp))"
  by pat_completeness auto

termination
  by (relation "measure (\<lambda>(v, p, curr). unat (pl_level p))")
    (auto simp: lose_level_def intro!: measure_unat)

definition after_level_down :: "script_env \<Rightarrow> vocation \<Rightarrow> u32 \<Rightarrow> player \<Rightarrow> player" where
  "after_level_down e v oldLevel p1 =
     (if oldLevel = pl_level p1 then p1
      else let p = level_changed v p1;
               p = (if protectionLevel e \<le> ucast oldLevel \<and> ucast (pl_level p) < protectionLevel e
                    then emit UpdateCreatureWalkthrough p else p);
               p = (if pl_inParty p then emit UpdateSharedExperience p else p)
           in emit (DowngradeText SKILL_LEVEL (pl_level p)) p)"

definition removeExperience :: "script_env \<Rightarrow> vocation \<Rightarrow> u64 \<Rightarrow> player \<Rightarrow> player" where
  "removeExperience e v exp0 p0 =
     (if pl_experience p0 = 0 \<or> exp0 = 0 then p0
      else let exp = onLoseExperience e exp0
      in if exp = 0 then p0
      else let oldLevel = pl_level p0;
          (p1, curr) = level_down_loop v (p0\<lparr>pl_experience := max_i64 0 (pl_experience p0 - exp)\<rparr>)
            (getExpForLevel (ucast oldLevel));
          p2 = after_level_down e v oldLevel p1;
          nextLevelExp = getExpForLevel (ucast (pl_level p2 + 1));
          percent = (if curr < nextLevelExp
                     then percent_of e (pl_experience p2 - curr) (nextLevelExp - curr) else 0)
      in emit SendStats (p2\<lparr>pl_levelPercent := percent\<rparr>))"

subsection \<open>Skills\<close>

function skill_up_loop ::
  "(u16 \<Rightarrow> u64) \<Rightarrow> nat \<Rightarrow> skill \<times> call list \<Rightarrow> u64 \<Rightarrow> u64 \<Rightarrow> u64 \<Rightarrow> (skill \<times> call list) \<times> u64 \<times> u64 \<times> u64"
where
  "skill_up_loop req skill (s, calls) count currReqTries nextReqTries =
     (if nextReqTries \<le> sk_tries s + count
      then let count' = count - (nextReqTries - sk_tries s);
               s' = s\<lparr>sk_level := sk_level s + 1, sk_tries := 0, sk_percent := 0\<rparr>;
               calls' = PlayerAdvance skill (ucast (sk_level s' - 1)) (ucast (sk_level s')) #
                        AdvanceText skill (ucast (sk_level s')) # calls;
               next' = req (sk_level s' + 1)
           in if next' \<le> nextReqTries then ((s', calls'), 0, nextReqTries, next')
              else skill_up_loop req skill (s', calls') count' nextReqTries next'
      else ((s, calls), count, currReqTries, nextReqTries))"
  by pat_completeness auto

termination
  by (relation "measure (\<lambda>(req, skill, sc, count, curr, next). 2 ^ 64 - unat next)")
    (auto simp: word_le_nat_alt not_le intro!: diff_less_mono2 unsigned_less [THEN less_le_trans])

definition addSkillAdvance :: "script_env \<Rightarrow> vocation \<Rightarrow> nat \<Rightarrow> u64 \<Rightarrow> player \<Rightarrow> player option" where
  "addSkillAdvance e v skill count0 p =
     (if length (pl_skills p) \<le> skill then None
      else let s = pl_skills p ! skill;
               currReqTries = getReqSkillTries v skill (sk_level s);
               nextReqTries = getReqSkillTries v skill (sk_level s + 1)
      in if nextReqTries \<le> currReqTries then Some p
      else let count = onGainSkillTries e skill count0
      in if count = 0 then Some p
      else let ((s1, calls), count', curr, next) =
                 skill_up_loop (getReqSkillTries v skill) skill (s, pl_calls p) count currReqTries nextReqTries;
               s2 = s1\<lparr>sk_tries := sk_tries s1 + count'\<rparr>;
               newPercent = (if curr < next then percent_of e (sk_tries s2) next else 0);
               sendUpdateSkills = (calls \<noteq> pl_calls p \<or> sk_percent s2 \<noteq> newPercent);
               p' = p\<lparr>pl_skills := (pl_skills p)[skill := s2\<lparr>sk_percent := newPercent\<rparr>], pl_calls := calls\<rparr>
      in Some (if sendUpdateSkills then emit SendSkills p' else p'))"

function skill_down_loop :: "(u16 \<Rightarrow> u64) \<Rightarrow> skill \<Rightarrow> u64 \<Rightarrow> skill \<times> u64" where
  "skill_down_loop req s count =
     (if sk_tries s < count
      then let count' = count - sk_tries s
           in if sk_level s \<le> MINIMUM_SKILL_LEVEL
              then (s\<lparr>sk_level := MINIMUM_SKILL_LEVEL, sk_tries := 0\<rparr>, 0)
              else skill_down_loop req (s\<lparr>sk_tries := req (sk_level s), sk_level := sk_level s - 1\<rparr>) count'
      else (s, count))"
  by pat_completeness auto

termination
  by (relation "measure (\<lambda>(req, s, count). unat (sk_level s))")
    (auto simp: MINIMUM_SKILL_LEVEL_def not_le intro!: measure_unat)

definition removeSkillTries ::
  "script_env \<Rightarrow> vocation \<Rightarrow> nat \<Rightarrow> u64 \<Rightarrow> bool \<Rightarrow> player \<Rightarrow> player option" where
  "removeSkillTries e v skill count notify p =
     (if length (pl_skills p) \<le> skill then None
      else let s = pl_skills p ! skill;
               (s1, count') = skill_down_loop (getReqSkillTries v skill) s count;
               tries' = ucast (max_i32 0 (ucast (sk_tries s1 - count')));
               percent = percent_of e tries' (getReqSkillTries v skill (sk_level s1));
               p1 = p\<lparr>pl_skills := (pl_skills p)[skill := s1\<lparr>sk_tries := tries', sk_percent := percent\<rparr>]\<rparr>
      in Some (if \<not> notify then p1
               else let p2 = (if sk_level s \<noteq> sk_level s1
                              then emit (DowngradeText skill (ucast (sk_level s1))) p1 else p1)
                    in if sk_level s \<noteq> sk_level s1 \<or> sk_percent s \<noteq> percent then emit SendSkills p2 else p2))"

subsection \<open>The magic level\<close>

definition gain_magLevel :: "player \<Rightarrow> player" where
  "gain_magLevel p =
     (let p' = p\<lparr>pl_magLevel := pl_magLevel p + 1, pl_manaSpent := 0\<rparr>
      in emit (PlayerAdvance SKILL_MAGLEVEL (pl_magLevel p' - 1) (pl_magLevel p'))
           (emit (AdvanceText SKILL_MAGLEVEL (pl_magLevel p')) p'))"

function magLevel_up_loop :: "(u32 \<Rightarrow> u64) \<Rightarrow> player \<Rightarrow> u64 \<Rightarrow> u64 \<Rightarrow> u64 \<Rightarrow> player \<times> u64 \<times> u64 \<times> u64" where
  "magLevel_up_loop req p amount currReqMana nextReqMana =
     (if nextReqMana \<le> pl_manaSpent p + amount
      then let amount' = amount - (nextReqMana - pl_manaSpent p);
               p' = gain_magLevel p;
               next' = req (pl_magLevel p' + 1)
           in if next' \<le> nextReqMana then (p', amount', nextReqMana, next')
              else magLevel_up_loop req p' amount' nextReqMana next'
      else (p, amount, currReqMana, nextReqMana))"
  by pat_completeness auto

termination
  by (relation "measure (\<lambda>(req, p, amount, curr, next). 2 ^ 64 - unat next)")
    (auto simp: word_le_nat_alt not_le intro!: diff_less_mono2 unsigned_less [THEN less_le_trans])

text \<open>The second early return is the one inside the loop: at the top the percentage is left as it was.\<close>

definition addManaSpent :: "script_env \<Rightarrow> vocation \<Rightarrow> u64 \<Rightarrow> player \<Rightarrow> player" where
  "addManaSpent e v amount0 p =
     (if flag_NotGainMana p then p
      else let currReqMana = getReqMana v (pl_magLevel p); nextReqMana = getReqMana v (pl_magLevel p + 1)
      in if nextReqMana \<le> currReqMana then p
      else let amount = onGainSkillTries e SKILL_MAGLEVEL amount0
      in if amount = 0 then p
      else let (p1, amount', curr, next) = magLevel_up_loop (getReqMana v) p amount currReqMana nextReqMana
      in if next \<le> curr then p1
      else let p2 = p1\<lparr>pl_manaSpent := pl_manaSpent p1 + amount'\<rparr>;
               percent = percent_of e (pl_manaSpent p2) next;
               sendUpdateStats = (pl_calls p1 \<noteq> pl_calls p \<or> pl_magLevelPercent p2 \<noteq> percent);
               p3 = p2\<lparr>pl_magLevelPercent := percent\<rparr>
      in if sendUpdateStats then emit SendStats p3 else p3)"

function magLevel_down_loop :: "(u32 \<Rightarrow> u64) \<Rightarrow> u32 \<Rightarrow> u64 \<Rightarrow> u64 \<Rightarrow> u32 \<times> u64 \<times> u64" where
  "magLevel_down_loop req magLevel manaSpent amount =
     (if manaSpent < amount \<and> 0 < magLevel
      then magLevel_down_loop req (magLevel - 1) (req magLevel) (amount - manaSpent)
      else (magLevel, manaSpent, amount))"
  by pat_completeness auto

termination
  by (relation "measure (\<lambda>(req, magLevel, manaSpent, amount). unat magLevel)")
    (auto intro!: measure_unat)

definition removeManaSpent :: "script_env \<Rightarrow> vocation \<Rightarrow> u64 \<Rightarrow> bool \<Rightarrow> player \<Rightarrow> player" where
  "removeManaSpent e v amount0 notify p =
     (if amount0 = 0 then p
      else let (magLevel', manaSpent', amount') =
                 magLevel_down_loop (getReqMana v) (pl_magLevel p) (pl_manaSpent p) amount0;
               spent = manaSpent' - amount';
               nextReqMana = getReqMana v (magLevel' + 1);
               percent = (if getReqMana v magLevel' < nextReqMana then percent_of e spent nextReqMana else 0);
               p1 = p\<lparr>pl_magLevel := magLevel', pl_manaSpent := spent, pl_magLevelPercent := percent\<rparr>
      in if \<not> notify then p1
         else let p2 = (if pl_magLevel p \<noteq> magLevel' then emit (DowngradeText SKILL_MAGLEVEL magLevel') p1 else p1)
              in if pl_magLevel p \<noteq> magLevel' \<or> pl_magLevelPercent p \<noteq> percent then emit SendStats p2 else p2)"

subsection \<open>The losses of a death\<close>

text \<open>
  \<open>portion x\<close> is the part of \<open>x\<close> that the loss percentage takes, a product with a double that is
  truncated.  The sums run over the levels as the loops of the code do, in 64 bits.
\<close>

definition sum_mana :: "vocation \<Rightarrow> u32 \<Rightarrow> u64" where
  "sum_mana v magLevel = fold (\<lambda>i sum. sum + getReqMana v (of_nat i)) [1..<unat magLevel + 1] 0"

definition sum_tries :: "vocation \<Rightarrow> nat \<Rightarrow> u16 \<Rightarrow> u64" where
  "sum_tries v skill level =
     fold (\<lambda>c sum. sum + getReqSkillTries v skill (of_nat c)) [unat MINIMUM_SKILL_LEVEL + 1..<unat level + 1] 0"

definition skill_loss :: "script_env \<Rightarrow> vocation \<Rightarrow> (u64 \<Rightarrow> u64) \<Rightarrow> nat \<Rightarrow> player \<Rightarrow> player option" where
  "skill_loss e v portion i p =
     (if length (pl_skills p) \<le> i then None
      else removeSkillTries e v i
        (portion (sum_tries v i (sk_level (pl_skills p ! i)) + sk_tries (pl_skills p ! i))) False p)"

fun skill_losses :: "script_env \<Rightarrow> vocation \<Rightarrow> (u64 \<Rightarrow> u64) \<Rightarrow> nat list \<Rightarrow> player \<Rightarrow> player option" where
  "skill_losses e v portion [] p = Some p"
| "skill_losses e v portion (i # is) p =
     (case skill_loss e v portion i p of None \<Rightarrow> None | Some p' \<Rightarrow> skill_losses e v portion is p')"

function death_level_loop :: "vocation \<Rightarrow> player \<Rightarrow> player" where
  "death_level_loop v p =
     (if 1 < pl_level p \<and> pl_experience p < getExpForLevel (ucast (pl_level p))
      then death_level_loop v (lose_level v p) else p)"
  by pat_completeness auto

termination
  by (relation "measure (\<lambda>(v, p). unat (pl_level p))") (auto simp: lose_level_def intro!: measure_unat)

definition level_loss :: "script_env \<Rightarrow> vocation \<Rightarrow> (u64 \<Rightarrow> u64) \<Rightarrow> player \<Rightarrow> player" where
  "level_loss e v portion p =
     (let expLoss = onLoseExperience e (portion (pl_experience p))
      in if expLoss = 0 then p
      else let p1 = (if voc_id v = VOCATION_NONE \<or> 7 < pl_level p
                     then p\<lparr>pl_experience := pl_experience p - expLoss\<rparr> else p);
               p2 = death_level_loop v p1;
               p3 = (if pl_level p2 = pl_level p then p2 else emit (DowngradeText SKILL_LEVEL (pl_level p2)) p2);
               curr = getExpForLevel (ucast (pl_level p3));
               next = getExpForLevel (ucast (pl_level p3 + 1));
               percent = (if curr < next then percent_of e (pl_experience p3 - curr) (next - curr) else 0)
      in p3\<lparr>pl_levelPercent := percent\<rparr>)"

definition lose_blessings :: "bool \<Rightarrow> 6 word \<Rightarrow> 6 word" where
  "lose_blessings lastHitPlayer blessings =
     (if bit blessings 5 then if lastHitPlayer then unset_bit 5 blessings else set_bit 5 0 else 0)"

definition death_losses ::
  "script_env \<Rightarrow> vocation \<Rightarrow> (u64 \<Rightarrow> u64) \<Rightarrow> bool \<Rightarrow> bool \<Rightarrow> player \<Rightarrow> player option" where
  "death_losses e v portion lastHitPlayer black_skull p =
     (let p1 = removeManaSpent e v (portion (sum_mana v (pl_magLevel p) + pl_manaSpent p)) False p
      in case skill_losses e v portion [0..<SKILL_LAST + 1] p1 of
           None \<Rightarrow> None
         | Some p2 \<Rightarrow>
             (let p3 = level_loss e v portion p2;
                  p4 = p3\<lparr>pl_blessings := lose_blessings lastHitPlayer (pl_blessings p3)\<rparr>;
                  p5 = emit SendSkills (emit SendStats p4)
              in Some (if black_skull then p5\<lparr>pl_health := 40, pl_mana := 0\<rparr>
                       else p5\<lparr>pl_health := pl_healthMax p5, pl_mana := pl_manaMax p5\<rparr>)))"

end
