(* ===== verification/Level_Laws.thy ===== *)
theory Level_Laws
  imports Player_Progress
begin

text \<open>
  The laws of \<open>Player_Progress\<close> about levels and vitals: the experience table against the sum of the
  points of the levels, the two loops that move a player to the level of its experience
  (\<open>level_up_loop_correct\<close>, \<open>level_down_loop_correct\<close>), what a gain followed by the same loss leaves, and the
  clamping of health, mana and soul.
\<close>

subsection \<open>The experience table\<close>

text \<open>
  The points a level takes, \<open>50 k\<^sup>2 - 150 k + 200\<close> to leave level \<open>k\<close>, summed up: \<open>exp_total m\<close> is what a
  player of level \<open>m + 1\<close> needs.
\<close>

primrec exp_total :: "nat \<Rightarrow> nat" where
  "exp_total 0 = 0"
| "exp_total (Suc m) = exp_total m + (50 * (m * (m - 1)) + 100)"

definition MAX_LEVEL :: nat where "MAX_LEVEL = 1000000"

lemma exp_total_closed: "6 * int (exp_total m) = 100 * (int m * (int m * int m - 3 * int m + 8))"
proof (induction m)
  case (Suc m)
  have "int (m * (m - 1)) = int m * int m - int m" by (cases m) (simp_all add: algebra_simps)
  then have "int (exp_total (Suc m)) = int (exp_total m) + (50 * (int m * int m - int m) + 100)" by simp
  moreover have "int (Suc m) = int m + 1" by simp
  ultimately show ?case using Suc by (simp only:) (simp add: algebra_simps)
qed simp

lemma exp_total_mono: "m \<le> n \<Longrightarrow> exp_total m \<le> exp_total n"
  by (induction n) (auto simp: le_Suc_eq)

lemma exp_total_strict: "m < n \<Longrightarrow> exp_total m < exp_total n"
proof -
  assume "m < n"
  then have "exp_total (Suc m) \<le> exp_total n" by (intro exp_total_mono) simp
  then show ?thesis by simp
qed

lemma exp_total_less_iff: "exp_total m < exp_total n \<longleftrightarrow> m < n"
  by (metis exp_total_mono exp_total_strict leD leI)

lemma exp_total_bound: "m \<le> 1000000 \<Longrightarrow> exp_total m < 18446744073709551616"
proof -
  assume "m \<le> 1000000"
  then have "exp_total m \<le> exp_total 1000000" by (rule exp_total_mono)
  moreover have "int (exp_total 1000000) < 18446744073709551616"
    using exp_total_closed [of 1000000] by simp
  ultimately show ?thesis by linarith
qed

lemma exp_total_hundreds: "\<exists>s. exp_total m = 100 * s"
proof (induction m)
  case (Suc m)
  have "even (m * (m - 1))" by (cases m) simp_all
  then obtain k where "m * (m - 1) = 2 * k" by blast
  moreover from Suc obtain s where "exp_total m = 100 * s" by blast
  ultimately have "exp_total (Suc m) = 100 * (s + k + 1)" by simp
  then show ?case by blast
qed simp

lemma len64: "LENGTH(64) = 64" by simp

lemma getExpForLevel_total:
  assumes "1 \<le> unat lv" and "unat lv \<le> MAX_LEVEL"
  shows "unat (getExpForLevel lv) = exp_total (unat lv - 1)"
proof -
  define m where "m = unat lv - 1"
  have m: "unat lv = m + 1" "m < 1000000" using assms by (simp_all add: m_def MAX_LEVEL_def)
  have lv: "lv = of_int (int m + 1)"
  proof -
    have "lv = of_nat (unat lv)" by simp
    then show ?thesis by (simp only: m(1)) simp
  qed
  define s where "s = int (exp_total m) div 100"
  have "6 * int (exp_total m) = 100 * (int m * (int m * int m - 3 * int m + 8))" by (rule exp_total_closed)
  moreover have s: "int (exp_total m) = 100 * s" using exp_total_hundreds [of m] by (auto simp: s_def)
  ultimately have poly: "6 * s = int m * (int m * int m - 3 * int m + 8)" by simp
  have "((lv - 6) * lv + 17) * lv - 12 = of_int (int m * (int m * int m - 3 * int m + 8))"
    unfolding lv by (simp add: algebra_simps)
  also have "\<dots> = of_int (6 * s)" by (simp only: poly)
  finally have num: "((lv - 6) * lv + 17) * lv - 12 = of_int (6 * s)" .
  have bound: "exp_total m < 18446744073709551616" using m(2) by (intro exp_total_bound) simp
  have "0 \<le> s" "100 * s < 18446744073709551616" using s bound by linarith+
  then have "(6 * s) mod 2 ^ 64 = 6 * s" by (intro mod_pos_pos_trivial) simp_all
  then have "uint (of_int (6 * s) :: u64) = 6 * s"
    using uint_word_of_int [of "6 * s", where ?'a = 64] by (metis len64)
  then have d6: "uint (of_int (6 * s) div 6 :: u64) = s" by (simp add: uint_div)
  have m100: "uint ((x :: u64) * 100) = (uint x * 100) mod 2 ^ 64" for x
    by (subst uint_word_ariths(3)) simp
  have "uint (of_int (6 * s) div 6 * 100 :: u64) = (s * 100) mod 2 ^ 64" by (simp only: m100 d6)
  also have "\<dots> = 100 * s" using \<open>0 \<le> s\<close> \<open>100 * s < _\<close> by (simp add: mod_pos_pos_trivial)
  finally have "uint (getExpForLevel lv) = int (exp_total m)" by (simp only: getExpForLevel_def num s)
  then have "unat (getExpForLevel lv) = exp_total m" by (simp only: unat_eq_nat_uint nat_int)
  then show ?thesis by (simp only: m_def)
qed

lemma unat_inc_u32: "unat (w :: u32) < 4294967295 \<Longrightarrow> unat (w + 1) = unat w + 1"
  by (simp add: unat_word_ariths)

text \<open>A player whose experience is the one of its level, below the last level of the table.\<close>

definition progress_ok :: "player \<Rightarrow> bool" where
  "progress_ok p \<longleftrightarrow> 1 \<le> unat (pl_level p) \<and> unat (pl_level p) < MAX_LEVEL \<and>
     exp_total (unat (pl_level p) - 1) \<le> unat (pl_experience p) \<and>
     unat (pl_experience p) < exp_total (unat (pl_level p))"

lemma getExp_level:
  "1 \<le> unat (l :: u32) \<Longrightarrow> unat l \<le> MAX_LEVEL \<Longrightarrow> unat (getExpForLevel (ucast l)) = exp_total (unat l - 1)"
  by (subst getExpForLevel_total) (simp_all add: unat_ucast_widen)

lemma getExp_next_level:
  "unat (l :: u32) < MAX_LEVEL \<Longrightarrow> unat (getExpForLevel (ucast (l + 1))) = exp_total (unat l)"
  by (subst getExp_level) (simp_all add: unat_inc_u32 MAX_LEVEL_def)

lemma gain_levels_fields:
  "pl_level ((gain_level v ^^ k) p) = pl_level p + of_nat k \<and>
   pl_experience ((gain_level v ^^ k) p) = pl_experience p \<and>
   pl_healthMax ((gain_level v ^^ k) p) = pl_healthMax p + of_nat k * gainHP v \<and>
   pl_manaMax ((gain_level v ^^ k) p) = pl_manaMax p + of_nat k * gainMana v \<and>
   pl_capacity ((gain_level v ^^ k) p) = pl_capacity p + of_nat k * gainCap v"
  by (induction k) (simp_all add: gain_level_def algebra_simps)

lemma level_up_loop_correct:
  assumes "1 \<le> unat (pl_level p)" and "unat (pl_level p) < MAX_LEVEL"
    and "exp_total (unat (pl_level p) - 1) \<le> unat (pl_experience p)"
    and "unat (pl_experience p) < exp_total (MAX_LEVEL - 1)"
    and "c = getExpForLevel (ucast (pl_level p))" and "n = getExpForLevel (ucast (pl_level p + 1))"
  shows "\<exists>k. level_up_loop v p c n =
      ((gain_level v ^^ k) p, getExpForLevel (ucast (pl_level p + of_nat k)), getExpForLevel (ucast (pl_level p + of_nat k + 1)))
    \<and> unat (pl_level p + of_nat k) = unat (pl_level p) + k \<and> progress_ok ((gain_level v ^^ k) p)"
  using assms
proof (induction v p c n rule: level_up_loop.induct)
  case (1 v p c n)
  let ?l = "unat (pl_level p)"
  have nxt: "unat n = exp_total ?l" using 1(3) by (simp add: getExp_next_level 1(7))
  show ?case
  proof (cases "n \<le> pl_experience p")
    case False
    then have "unat (pl_experience p) < exp_total ?l" by (simp add: word_le_nat_alt nxt not_le)
    with False 1(2-) show ?thesis
      by (intro exI [of _ 0]) (simp add: progress_ok_def)
  next
    case True
    let ?p = "gain_level v p"
    have "exp_total ?l \<le> unat (pl_experience p)" using True by (simp add: word_le_nat_alt nxt)
    with 1(5) have l: "?l < MAX_LEVEL - 1"
      by (meson exp_total_less_iff le_less_trans)
    then have l': "unat (pl_level p + 1) = ?l + 1" by (simp add: unat_inc_u32 MAX_LEVEL_def)
    have nxt': "unat (getExpForLevel (ucast (pl_level p + 1 + 1))) = exp_total (?l + 1)"
      using l by (subst getExp_next_level) (simp_all add: l')
    then have less: "\<not> getExpForLevel (ucast (pl_level p + 1 + 1)) \<le> n"
      by (simp add: word_le_nat_alt nxt)
    have p: "pl_level ?p = pl_level p + 1" "pl_experience ?p = pl_experience p"
      by (simp_all add: gain_level_def)
    obtain k where k: "level_up_loop v ?p n (getExpForLevel (ucast (pl_level ?p + 1))) =
        ((gain_level v ^^ k) ?p, getExpForLevel (ucast (pl_level ?p + of_nat k)), getExpForLevel (ucast (pl_level ?p + of_nat k + 1)))"
      "unat (pl_level ?p + of_nat k) = unat (pl_level ?p) + k" "progress_ok ((gain_level v ^^ k) ?p)"
      using 1(1) [OF True refl refl] less l l' \<open>exp_total ?l \<le> _\<close> 1(5,7) p by (auto simp: MAX_LEVEL_def)
    show ?thesis
      using k True less p l' by (intro exI [of _ "Suc k"]) (simp add: Let_def funpow_swap1 algebra_simps)
  qed
qed

declare level_up_loop.simps [simp del] level_down_loop.simps [simp del]

lemma lose_levels_fields:
  "pl_level ((lose_level v ^^ k) p) = pl_level p - of_nat k \<and>
   pl_experience ((lose_level v ^^ k) p) = pl_experience p \<and>
   pl_healthMax ((lose_level v ^^ k) p) = ((\<lambda>x. max_i32 0 (x - gainHP v)) ^^ k) (pl_healthMax p) \<and>
   pl_manaMax ((lose_level v ^^ k) p) = ((\<lambda>x. max_i32 0 (x - gainMana v)) ^^ k) (pl_manaMax p) \<and>
   pl_capacity ((lose_level v ^^ k) p) = ((\<lambda>x. max_i32 0 (x - gainCap v)) ^^ k) (pl_capacity p)"
  by (induction k) (simp_all add: lose_level_def algebra_simps)

lemma unat_dec_u32: "1 \<le> unat (w :: u32) \<Longrightarrow> unat (w - 1) = unat w - 1"
  by (simp add: unat_sub word_le_nat_alt)

lemma level_down_loop_correct:
  assumes "1 \<le> unat (pl_level p)" and "unat (pl_level p) < MAX_LEVEL"
    and "unat (pl_experience p) < exp_total (unat (pl_level p))"
    and "c = getExpForLevel (ucast (pl_level p))"
  shows "\<exists>k < unat (pl_level p). level_down_loop v p c =
      ((lose_level v ^^ k) p, getExpForLevel (ucast (pl_level p - of_nat k)))
    \<and> unat (pl_level p - of_nat k) = unat (pl_level p) - k \<and> progress_ok ((lose_level v ^^ k) p)"
  using assms
proof (induction v p c rule: level_down_loop.induct)
  case (1 v p c)
  let ?l = "unat (pl_level p)"
  have c: "unat c = exp_total (?l - 1)" using 1(2,3,5) by (simp add: getExp_level)
  show ?case
  proof (cases "1 < pl_level p \<and> pl_experience p < c")
    case False
    then have "exp_total (?l - 1) \<le> unat (pl_experience p)"
      using 1(2) c by (auto simp: word_less_nat_alt not_less)
    with False 1(2-) show ?thesis
      by (intro exI [of _ 0]) (auto simp: progress_ok_def level_down_loop.simps [of v p])
  next
    case True
    let ?p = "lose_level v p"
    have l: "1 < ?l" using True by (simp add: word_less_nat_alt)
    have p: "pl_level ?p = pl_level p - 1" "pl_experience ?p = pl_experience p"
      by (simp_all add: lose_level_def)
    have l': "unat (pl_level p - 1) = ?l - 1" using l by (simp add: unat_dec_u32)
    have less: "unat (pl_experience p) < exp_total (?l - 1)" using True c by (simp add: word_less_nat_alt)
    obtain k where k: "k < unat (pl_level ?p)"
      "level_down_loop v ?p (getExpForLevel (ucast (pl_level ?p))) =
        ((lose_level v ^^ k) ?p, getExpForLevel (ucast (pl_level ?p - of_nat k)))"
      "unat (pl_level ?p - of_nat k) = unat (pl_level ?p) - k" "progress_ok ((lose_level v ^^ k) ?p)"
      using 1(1) [OF True refl _ _ _ refl] l less 1(3) unfolding p l' by force
    have e: "level_down_loop v p c = level_down_loop v ?p (getExpForLevel (ucast (pl_level ?p)))"
      using True by (simp add: level_down_loop.simps [of v p c] Let_def)
    have lk: "pl_level p - of_nat (Suc k) = pl_level ?p - of_nat k" by (simp add: p algebra_simps)
    have fk: "(lose_level v ^^ Suc k) p = (lose_level v ^^ k) ?p" by (simp only: funpow_Suc_right o_apply)
    have "Suc k < ?l" "unat (pl_level ?p - of_nat k) = ?l - Suc k"
      using k(1,3) l l' unfolding p by simp_all
    then show ?thesis
      using k(4) by (intro exI [of _ "Suc k"] conjI) (simp_all only: e k(2) lk fk)
  qed
qed

lemma sint_eq_unat_u32:
  assumes "unat (w :: u32) < 2147483648"
  shows "sint w = int (unat w)"
proof -
  have u: "uint w = int (unat w)" by simp
  have "signed_take_bit 31 (int (unat w)) = int (unat w)"
    using assms by (intro signed_take_bit_int_eq_self) (simp_all del: of_nat_unat)
  then show ?thesis by (simp add: sint_uint u del: of_nat_unat)
qed

lemma max_i32_pos: "0 \<le> sint x \<Longrightarrow> max_i32 0 x = x"
  by (rule signed_word_eqI [where ?'a = int]) (simp add: sint_max_i32)

lemma max_i64_pos: "0 \<le> sint x \<Longrightarrow> max_i64 0 x = x"
  by (rule signed_word_eqI [where ?'a = int]) (simp add: max_i64_def word_sless_alt)

lemma sint_eq_unat_u64:
  assumes "unat (w :: u64) < 9223372036854775808"
  shows "sint w = int (unat w)"
proof -
  have u: "uint w = int (unat w)" by simp
  have "signed_take_bit 63 (int (unat w)) = int (unat w)"
    using assms by (intro signed_take_bit_int_eq_self) (simp_all del: of_nat_unat)
  then show ?thesis by (simp add: sint_uint u del: of_nat_unat)
qed

lemma saturating_loss:
  assumes "unat (h :: u32) + k * unat g < 2147483648"
  shows "((\<lambda>x. max_i32 0 (x - g)) ^^ k) (h + of_nat k * g) = h"
  using assms
proof (induction k)
  case 0
  then show ?case by simp
next
  case (Suc k)
  have "unat (h + of_nat k * g) = unat h + k * unat g"
  proof -
    have "h + of_nat k * g = of_nat (unat h + k * unat g)" by simp
    also have "unat \<dots> = unat h + k * unat g" using Suc.prems by (intro unat_of_nat_u32) simp
    finally show ?thesis .
  qed
  then have "0 \<le> sint (h + of_nat k * g)" using Suc.prems by (subst sint_eq_unat_u32) simp_all
  then have "max_i32 0 (h + of_nat k * g) = h + of_nat k * g"
    by (rule max_i32_pos)
  moreover have "h + of_nat (Suc k) * g - g = h + of_nat k * g" by (simp add: algebra_simps)
  ultimately show ?case using Suc by (simp only: funpow_Suc_right o_apply) simp
qed

lemma unat_max_i64_sub:
  assumes "unat (a :: u64) < 9223372036854775808" and "unat b < 9223372036854775808"
  shows "unat (max_i64 0 (a - b)) = unat a - unat b"
proof -
  have "signed_take_bit 63 (sint a - sint b) = int (unat a) - int (unat b)"
    using assms by (simp only: sint_eq_unat_u64) (intro signed_take_bit_int_eq_self, simp_all del: of_nat_unat)
  then have *: "sint (a - b) = int (unat a) - int (unat b)"
    using sint_word_ariths(2) [of a b] by (simp only: len64) simp
  show ?thesis
  proof (cases "unat b \<le> unat a")
    case True
    then have "max_i64 0 (a - b) = a - b"
      using * by (intro max_i64_pos) (simp del: of_nat_unat)
    with True show ?thesis by (simp add: unat_sub word_le_nat_alt)
  next
    case False
    then show ?thesis using * by (simp add: max_i64_def word_sless_alt del: of_nat_unat)
  qed
qed

lemma level_changed_fields [simp]:
  "pl_level (level_changed v p) = pl_level p" "pl_experience (level_changed v p) = pl_experience p"
  "pl_healthMax (level_changed v p) = pl_healthMax p" "pl_manaMax (level_changed v p) = pl_manaMax p"
  "pl_capacity (level_changed v p) = pl_capacity p" "pl_varStats (level_changed v p) = pl_varStats p"
  "pl_health (level_changed v p) = getMaxHealth p" "pl_mana (level_changed v p) = getMaxMana p"
  by (simp_all add: level_changed_def emit_def updateBaseSpeed_def)

lemma emit_fields [simp]:
  "pl_level (emit c p) = pl_level p" "pl_experience (emit c p) = pl_experience p"
  "pl_healthMax (emit c p) = pl_healthMax p" "pl_manaMax (emit c p) = pl_manaMax p"
  "pl_capacity (emit c p) = pl_capacity p" "pl_varStats (emit c p) = pl_varStats p"
  "pl_health (emit c p) = pl_health p" "pl_mana (emit c p) = pl_mana p" "pl_inParty (emit c p) = pl_inParty p"
  "pl_skills (emit c p) = pl_skills p" "pl_magLevel (emit c p) = pl_magLevel p"
  "pl_manaSpent (emit c p) = pl_manaSpent p" "flag_HasInfiniteMana (emit c p) = flag_HasInfiniteMana p"
  "pl_blessings (emit c p) = pl_blessings p" "pl_soul (emit c p) = pl_soul p"
  by (simp_all add: emit_def)

lemma after_level_up_fields [simp]:
  "pl_level (after_level_up e v l p) = pl_level p" "pl_experience (after_level_up e v l p) = pl_experience p"
  "pl_healthMax (after_level_up e v l p) = pl_healthMax p" "pl_manaMax (after_level_up e v l p) = pl_manaMax p"
  "pl_capacity (after_level_up e v l p) = pl_capacity p" "pl_varStats (after_level_up e v l p) = pl_varStats p"
  "pl_health (after_level_up e v l p) = (if l = pl_level p then pl_health p else getMaxHealth p)"
  "pl_mana (after_level_up e v l p) = (if l = pl_level p then pl_mana p else getMaxMana p)"
  by (simp_all add: after_level_up_def Let_def)

lemma after_level_down_fields [simp]:
  "pl_level (after_level_down e v l p) = pl_level p" "pl_experience (after_level_down e v l p) = pl_experience p"
  "pl_healthMax (after_level_down e v l p) = pl_healthMax p" "pl_manaMax (after_level_down e v l p) = pl_manaMax p"
  "pl_capacity (after_level_down e v l p) = pl_capacity p" "pl_varStats (after_level_down e v l p) = pl_varStats p"
  "pl_health (after_level_down e v l p) = (if l = pl_level p then pl_health p else getMaxHealth p)"
  "pl_mana (after_level_down e v l p) = (if l = pl_level p then pl_mana p else getMaxMana p)"
  by (simp_all add: after_level_down_def Let_def)

definition same_growth :: "player \<Rightarrow> player \<Rightarrow> bool" where
  "same_growth p q \<longleftrightarrow> pl_level p = pl_level q \<and> pl_experience p = pl_experience q \<and>
     pl_healthMax p = pl_healthMax q \<and> pl_manaMax p = pl_manaMax q \<and> pl_capacity p = pl_capacity q"

lemma same_growth_ok: "same_growth p q \<Longrightarrow> progress_ok q \<Longrightarrow> progress_ok p"
  by (simp add: same_growth_def progress_ok_def)

lemma addExperience_growth:
  assumes ok: "progress_ok p" and e: "onGainExperience e x = g"
    and g: "unat (pl_experience p) + unat g < exp_total (MAX_LEVEL - 1)"
  shows "\<exists>k. same_growth (addExperience e v x p) ((gain_level v ^^ k) (p\<lparr>pl_experience := pl_experience p + g\<rparr>)) \<and>
    unat (pl_level p + of_nat k) = unat (pl_level p) + k \<and> progress_ok (addExperience e v x p) \<and>
    unat (pl_experience p + g) = unat (pl_experience p) + unat g"
proof -
  let ?l = "unat (pl_level p)" and ?p = "p\<lparr>pl_experience := pl_experience p + g\<rparr>"
  let ?c = "getExpForLevel (ucast (pl_level p))" and ?n = "getExpForLevel (ucast (pl_level p + 1))"
  have l: "1 \<le> ?l" "?l < MAX_LEVEL" using ok by (simp_all add: progress_ok_def)
  have "unat ?c < unat ?n"
    using l by (simp add: getExp_level getExp_next_level exp_total_less_iff)
  then have up: "\<not> ?n \<le> ?c" by (simp add: word_le_nat_alt)
  have E: "unat (pl_experience p + g) = unat (pl_experience p) + unat g"
    using g exp_total_bound [of "MAX_LEVEL - 1"] by (simp add: unat_word_ariths MAX_LEVEL_def)
  show ?thesis
  proof (cases "g = 0")
    case True
    with up ok e show ?thesis
      by (intro exI [of _ 0]) (simp add: addExperience_def Let_def same_growth_def)
  next
    case False
    have low: "exp_total (?l - Suc 0) \<le> unat (pl_experience p + g)" using ok E by (simp add: progress_ok_def)
    have top: "unat (pl_experience p + g) < exp_total (MAX_LEVEL - Suc 0)" using g E by simp
    obtain k where k: "level_up_loop v ?p ?c ?n =
        ((gain_level v ^^ k) ?p, getExpForLevel (ucast (pl_level p + of_nat k)), getExpForLevel (ucast (pl_level p + of_nat k + 1)))"
      "unat (pl_level p + of_nat k) = ?l + k" "progress_ok ((gain_level v ^^ k) ?p)"
      using level_up_loop_correct [of ?p ?c ?n v, simplified, OF l(1) [simplified] l(2) low top]
      by (elim exE conjE) (rule that)
    have "same_growth (addExperience e v x p) ((gain_level v ^^ k) ?p)"
      using up False e by (simp add: addExperience_def Let_def k(1) same_growth_def)
    moreover have "progress_ok (addExperience e v x p)"
      by (rule same_growth_ok [OF calculation k(3)])
    ultimately show ?thesis using k(2) E by blast
  qed
qed

lemma removeExperience_growth:
  assumes ok: "progress_ok p" and e: "onLoseExperience e x = g"
    and g: "unat g < 9223372036854775808" and big: "unat (pl_experience p) < 9223372036854775808"
    and x: "x = 0 \<Longrightarrow> g = 0"
  shows "\<exists>k < unat (pl_level p).
    same_growth (removeExperience e v x p) ((lose_level v ^^ k) (p\<lparr>pl_experience := max_i64 0 (pl_experience p - g)\<rparr>)) \<and>
    unat (pl_level p - of_nat k) = unat (pl_level p) - k \<and> progress_ok (removeExperience e v x p)"
proof -
  let ?p = "p\<lparr>pl_experience := max_i64 0 (pl_experience p - g)\<rparr>"
  let ?c = "getExpForLevel (ucast (pl_level p))"
  have l: "1 \<le> unat (pl_level p)" "unat (pl_level p) < MAX_LEVEL" using ok by (simp_all add: progress_ok_def)
  have E: "unat (max_i64 0 (pl_experience p - g)) = unat (pl_experience p) - unat g"
    using big g by (rule unat_max_i64_sub)
  show ?thesis
  proof (cases "pl_experience p = 0 \<or> g = 0 \<or> x = 0")
    case True
    then have "max_i64 0 (pl_experience p - g) = pl_experience p"
      using E x by (intro word_unat_eq_iff [THEN iffD2]) auto
    with True ok e x l show ?thesis
      by (intro exI [of _ 0]) (auto simp: removeExperience_def Let_def same_growth_def)
  next
    case False
    have less: "unat (max_i64 0 (pl_experience p - g)) < exp_total (unat (pl_level p))"
      using ok E by (auto simp: progress_ok_def intro: le_less_trans [OF diff_le_self])
    obtain k where k: "k < unat (pl_level p)" "level_down_loop v ?p ?c =
        ((lose_level v ^^ k) ?p, getExpForLevel (ucast (pl_level p - of_nat k)))"
      "unat (pl_level p - of_nat k) = unat (pl_level p) - k" "progress_ok ((lose_level v ^^ k) ?p)"
      using level_down_loop_correct [of ?p ?c v, simplified, OF l(1) [simplified] l(2) less]
      by (elim exE conjE) (rule that)
    have "same_growth (removeExperience e v x p) ((lose_level v ^^ k) ?p)"
      using False e by (simp add: removeExperience_def Let_def k(2) same_growth_def)
    moreover have "progress_ok (removeExperience e v x p)"
      by (rule same_growth_ok [OF calculation k(4)])
    ultimately show ?thesis using k(1,3) by blast
  qed
qed

lemma same_level:
  assumes "progress_ok p" and "progress_ok q" and "pl_experience p = pl_experience q"
  shows "pl_level p = pl_level q"
proof -
  have "exp_total (unat (pl_level p) - 1) < exp_total (unat (pl_level q))"
    "exp_total (unat (pl_level q) - 1) < exp_total (unat (pl_level p))"
    "1 \<le> unat (pl_level p)" "1 \<le> unat (pl_level q)"
    using assms by (auto simp: progress_ok_def)
  then have "unat (pl_level p) = unat (pl_level q)" by (simp add: exp_total_less_iff)
  then show ?thesis by (simp add: word_unat_eq_iff)
qed

lemma experience_roundtrip_growth:
  assumes ok: "progress_ok p"
    and events: "onGainExperience e x = g" "onLoseExperience e y = g" "y = 0 \<Longrightarrow> g = 0"
    and top: "unat (pl_experience p) + unat g < exp_total N" "N < MAX_LEVEL"
    and signed: "unat (pl_experience p) + unat g < 9223372036854775808"
    and room: "unat (pl_healthMax p) + (N - unat (pl_level p)) * unat (gainHP v) < 2147483648"
      "unat (pl_manaMax p) + (N - unat (pl_level p)) * unat (gainMana v) < 2147483648"
      "unat (pl_capacity p) + (N - unat (pl_level p)) * unat (gainCap v) < 2147483648"
  shows "same_growth (removeExperience e v y (addExperience e v x p)) p"
proof -
  let ?p1 = "addExperience e v x p" and ?E = "pl_experience p"
  have "exp_total N \<le> exp_total (MAX_LEVEL - 1)"
    using top(2) exp_total_less_iff [of "MAX_LEVEL - 1" N] by linarith
  with top(1) have top': "unat ?E + unat g < exp_total (MAX_LEVEL - 1)" by linarith
  let ?p2 = "removeExperience e v y ?p1"
  obtain k where k: "same_growth ?p1 ((gain_level v ^^ k) (p\<lparr>pl_experience := ?E + g\<rparr>))"
    "unat (pl_level p + of_nat k) = unat (pl_level p) + k" "progress_ok ?p1"
    "unat (?E + g) = unat ?E + unat g"
    using addExperience_growth [OF ok events(1) top', of v] by blast
  have p1: "pl_level ?p1 = pl_level p + of_nat k" "pl_experience ?p1 = ?E + g"
    "pl_healthMax ?p1 = pl_healthMax p + of_nat k * gainHP v"
    "pl_manaMax ?p1 = pl_manaMax p + of_nat k * gainMana v"
    "pl_capacity ?p1 = pl_capacity p + of_nat k * gainCap v"
    using k(1) by (simp_all add: same_growth_def gain_levels_fields)
  have g: "unat g < 9223372036854775808" "unat (pl_experience ?p1) < 9223372036854775808"
    using signed k(4) by (simp_all add: p1)
  obtain j where j: "same_growth ?p2 ((lose_level v ^^ j) (?p1\<lparr>pl_experience := max_i64 0 (pl_experience ?p1 - g)\<rparr>))"
    "unat (pl_level ?p1 - of_nat j) = unat (pl_level ?p1) - j" "j < unat (pl_level ?p1)" "progress_ok ?p2"
    using removeExperience_growth [OF k(3) events(2) g events(3), of v] by blast
  have "max_i64 0 (?E + g - g) = ?E"
    using signed by (simp add: max_i64_pos sint_eq_unat_u64)
  then have E: "pl_experience ?p2 = ?E" using j(1) by (simp add: same_growth_def lose_levels_fields p1)
  have l: "pl_level ?p2 = pl_level p" using same_level [OF j(4) ok E] .
  moreover have "pl_level ?p2 = pl_level ?p1 - of_nat j" using j(1) by (simp add: same_growth_def lose_levels_fields)
  ultimately have "unat (pl_level p) = unat (pl_level p) + k - j" using j(2) k(2) p1(1) by simp
  then have "j = k" using j(3) k(2) p1(1) by simp
  have "exp_total (unat (pl_level p) + k - 1) < exp_total N"
    using k(2,3,4) p1(1,2) top(1) by (auto simp: progress_ok_def)
  then have "unat (pl_level p) + k - 1 < N" by (simp add: exp_total_less_iff)
  then have "k \<le> N - unat (pl_level p)" by linarith
  then have r: "k * n \<le> (N - unat (pl_level p)) * n" for n by simp
  have "pl_healthMax ?p2 = pl_healthMax p" "pl_manaMax ?p2 = pl_manaMax p" "pl_capacity ?p2 = pl_capacity p"
    using j(1) saturating_loss le_less_trans [OF add_left_mono [OF r] room(1)]
      le_less_trans [OF add_left_mono [OF r] room(2)] le_less_trans [OF add_left_mono [OF r] room(3)]
    by (simp_all add: same_growth_def lose_levels_fields p1 \<open>j = k\<close>)
  with E l show ?thesis by (simp add: same_growth_def)
qed

subsection \<open>Clamped changes\<close>

lemma getMaxHealth_pos: "1 \<le> sint (getMaxHealth p)"
  by (simp add: getMaxHealth_def sint_max_i32)

lemma getMaxHealth_cong: "pl_healthMax p = pl_healthMax q \<Longrightarrow> pl_varStats p = pl_varStats q \<Longrightarrow> getMaxHealth p = getMaxHealth q"
  by (simp add: getMaxHealth_def)

lemma creature_changeHealth_health:
  assumes "0 \<le> sint (pl_health p)" and "sint (pl_health p) \<le> sint (getMaxHealth p)"
  shows "sint (pl_health (creature_changeHealth d s p)) = max 0 (min (sint (getMaxHealth p)) (sint (pl_health p) + sint d))"
proof -
  let ?h = "sint (pl_health p)" and ?M = "sint (getMaxHealth p)"
  have M: "?M < 2147483648" by (rule sint_i32_upper)
  have diff: "sint (getMaxHealth p - pl_health p) = ?M - ?h"
    using assms M by (intro sint_sub_i32) simp_all
  show ?thesis
  proof (cases "0 <s d")
    case True
    then have d: "0 < sint d" by (simp add: word_sless_alt)
    have m: "sint (min_i32 d (getMaxHealth p - pl_health p)) = min (sint d) (?M - ?h)"
      by (simp add: sint_min_i32 diff)
    have "sint (pl_health p + min_i32 d (getMaxHealth p - pl_health p)) = ?h + min (sint d) (?M - ?h)"
      using assms M d by (subst sint_add_i32) (simp_all add: m)
    with True d assms show ?thesis
      by (simp add: creature_changeHealth_def Let_def min_def max_def split: if_splits)
  next
    case False
    then have d: "sint d \<le> 0" by (simp add: word_sless_alt)
    have "sint (pl_health p + d) = ?h + sint d"
      using assms M d sint_i32_lower [of d] by (intro sint_add_i32) simp_all
    with False d assms show ?thesis
      by (simp add: creature_changeHealth_def Let_def sint_max_i32)
  qed
qed


lemma changeMana_mana:
  assumes "unat (pl_mana p) \<le> unat (getMaxMana p)" and "\<not> flag_HasInfiniteMana p"
  shows "int (unat (pl_mana (changeMana d p))) = max 0 (min (int (unat (getMaxMana p))) (int (unat (pl_mana p)) + sint d))"
proof -
  have "0 \<le> sint (getMaxMana p)" by (simp add: getMaxMana_def sint_max_i32)
  then have M: "sint (getMaxMana p) = int (unat (getMaxMana p))" "unat (getMaxMana p) < 2147483648"
    using sint_uint_i32 [of "getMaxMana p"] sint_i32_upper [of "getMaxMana p"] by (simp_all add: nat_less_iff unat_eq_nat_uint)
  then have m: "sint (pl_mana p) = int (unat (pl_mana p))" using assms(1) by (intro sint_eq_unat_u32) simp
  have up: "int (unat w) = sint w" if "0 \<le> sint w" for w :: u32
    using sint_uint_i32 [OF that] by simp
  let ?h = "sint (pl_mana p)" and ?M = "sint (getMaxMana p)"
  have b: "0 \<le> ?h" "?h \<le> ?M" using assms(1) by (simp_all only: m M)
  have T: "?M < 2147483648" by (rule sint_i32_upper)
  have diff: "sint (getMaxMana p - pl_mana p) = ?M - ?h" using b T by (intro sint_sub_i32) simp_all
  have "int (unat (pl_mana (changeMana d p))) = max 0 (min ?M (?h + sint d))"
  proof (cases "0 <s d")
    case True
    then have d: "0 < sint d" by (simp add: word_sless_alt)
    have "sint (min_i32 d (getMaxMana p - pl_mana p)) = min (sint d) (?M - ?h)"
      by (simp add: sint_min_i32 diff)
    then have "sint (pl_mana p + min_i32 d (getMaxMana p - pl_mana p)) = ?h + min (sint d) (?M - ?h)"
      using b T d by (subst sint_add_i32) simp_all
    then show ?thesis using True d b assms(2) by (simp add: changeMana_def up del: of_nat_unat)
  next
    case False
    then have d: "sint d \<le> 0" by (simp add: word_sless_alt)
    have "sint (pl_mana p + d) = ?h + sint d"
      using b T d sint_i32_lower [of d] by (intro sint_add_i32) simp_all
    then show ?thesis using False d b assms(2) by (simp add: changeMana_def up sint_max_i32 del: of_nat_unat)
  qed
  then show ?thesis by (simp only: m M)
qed

lemma unat_ucast_small: "0 \<le> sint (x :: i32) \<Longrightarrow> sint x < 256 \<Longrightarrow> int (unat (ucast x :: u8)) = sint x"
  using sint_uint_i32 [of x] by (simp add: unsigned_ucast_eq of_nat_take_bit take_bit_int_eq_self)

lemma changeSoul_soul:
  assumes "unat (pl_soul p) \<le> unat (soulMax v)" and "- 2147483648 < sint d"
  shows "int (unat (pl_soul (changeSoul v d p))) = max 0 (min (int (unat (soulMax v))) (int (unat (pl_soul p)) + sint d))"
proof -
  have u: "sint (ucast b :: i32) = int (unat b)" for b :: u8
    by (subst sint_eq_unat_u32) (use unat_u8_less [of b] in simp_all)
  let ?s = "int (unat (pl_soul p))" and ?M = "int (unat (soulMax v))"
  have b: "?s \<le> ?M" "?M < 256" "0 \<le> ?s" using assms(1) unat_u8_less [of "soulMax v"] by (simp_all del: of_nat_unat)
  have diff: "sint (ucast (soulMax v) - ucast (pl_soul p) :: i32) = ?M - ?s"
    using b by (subst sint_sub_i32) (simp_all add: u del: of_nat_unat)
  show ?thesis
  proof (cases "0 <s d")
    case True
    then have d: "0 < sint d" by (simp add: word_sless_alt)
    let ?m = "min_i32 d (ucast (soulMax v) - ucast (pl_soul p))"
    have m: "sint ?m = min (sint d) (?M - ?s)" by (simp add: sint_min_i32 diff)
    then have c: "int (unat (ucast ?m :: u8)) = min (sint d) (?M - ?s)"
      using b d by (subst unat_ucast_small) (simp_all del: of_nat_unat)
    then have "unat (pl_soul p) + unat (ucast ?m :: u8) < 256" using b d by (simp del: of_nat_unat)
    then have "unat (pl_soul p + ucast ?m) = unat (pl_soul p) + unat (ucast ?m :: u8)"
      by (simp add: unat_word_ariths)
    then show ?thesis using True c b d by (simp add: changeSoul_def del: of_nat_unat)
  next
    case False
    then have d: "sint d \<le> 0" by (simp add: word_sless_alt)
    have "sint (ucast (pl_soul p) + d) = ?s + sint d"
      using b d assms(2) by (subst sint_add_i32) (simp_all add: u del: of_nat_unat)
    then have "int (unat (ucast (max_i32 0 (ucast (pl_soul p) + d)) :: u8)) = max 0 (?s + sint d)"
      using b d by (subst unat_ucast_small) (simp_all add: sint_max_i32 del: of_nat_unat)
    then show ?thesis using False d b by (simp add: changeSoul_def del: of_nat_unat)
  qed
qed

definition vitals_ok :: "player \<Rightarrow> bool" where
  "vitals_ok p \<longleftrightarrow> 0 \<le> sint (pl_health p) \<and> sint (pl_health p) \<le> sint (getMaxHealth p) \<and>
     unat (pl_mana p) \<le> unat (getMaxMana p)"

lemma creature_changeHealth_keeps [simp]:
  "pl_mana (creature_changeHealth d s p) = pl_mana p" "getMaxMana (creature_changeHealth d s p) = getMaxMana p"
  "getMaxHealth (creature_changeHealth d s p) = getMaxHealth p"
  by (simp_all add: creature_changeHealth_def Let_def emit_def getMaxMana_def getMaxHealth_def)

lemma changeMana_keeps [simp]:
  "pl_health (changeMana d p) = pl_health p" "getMaxMana (changeMana d p) = getMaxMana p"
  "getMaxHealth (changeMana d p) = getMaxHealth p"
  by (simp_all add: changeMana_def Let_def emit_def getMaxMana_def getMaxHealth_def)

lemma emit_max [simp]: "getMaxMana (emit c p) = getMaxMana p" "getMaxHealth (emit c p) = getMaxHealth p"
  by (simp_all add: emit_def getMaxMana_def getMaxHealth_def)

lemma lower_to_max:
  assumes "0 \<le> sint (m :: i32)" and "m <s h"
  shows "\<not> 0 <s m - h" and "max_i32 0 (h + (m - h)) = m"
proof -
  have "sint (m - h) = sint m - sint h"
    using assms sint_i32_upper [of h] by (intro sint_sub_i32) (simp_all add: word_sless_alt)
  then show "\<not> 0 <s m - h" using assms(2) by (simp add: word_sless_alt)
  show "max_i32 0 (h + (m - h)) = m" using assms(1) by (simp add: max_i32_pos)
qed

lemma getMaxMana_sint: "0 \<le> sint (getMaxMana p)"
  by (simp add: getMaxMana_def sint_max_i32)

lemma unat_less_sless:
  assumes "0 \<le> sint (a :: u32)" and "0 \<le> sint b"
  shows "unat a < unat b \<longleftrightarrow> a <s b"
  using sint_uint_i32 [OF assms(1)] sint_uint_i32 [OF assms(2)]
  using assms by (auto simp: word_sless_alt unat_eq_nat_uint nat_less_eq_zless)

lemma unat_small_if_signed: "0 \<le> sint (w :: u32) \<Longrightarrow> unat w < 2147483648"
  using sint_uint_i32 [of w] sint_i32_upper [of w] by (simp add: unat_eq_nat_uint nat_less_iff)

lemma setVarStats_vitals:
  assumes ok: "vitals_ok p" and inf: "\<not> flag_HasInfiniteMana p"
  shows "vitals_ok (setVarStats stat d p)"
proof -
  define q where "q = p\<lparr>pl_varStats := (pl_varStats p)(stat := pl_varStats p stat + d)\<rparr>"
  have q: "pl_health q = pl_health p" "pl_mana q = pl_mana p" "flag_HasInfiniteMana q = flag_HasInfiniteMana p"
    by (simp_all add: q_def)
  have h: "0 \<le> sint (pl_health p)" using ok by (simp add: vitals_ok_def)
  have oldmax: "unat (pl_mana p) \<le> unat (getMaxMana p)" using ok by (simp add: vitals_ok_def)
  have mana: "0 \<le> sint (pl_mana p)"
    using oldmax unat_small_if_signed [OF getMaxMana_sint [of p]] by (subst sint_eq_unat_u32) simp_all
  have M: "1 \<le> sint (getMaxHealth q)" by (rule getMaxHealth_pos)
  show ?thesis
  proof (cases stat)
    case STAT_MAXHITPOINTS
    then have mm: "getMaxMana q = getMaxMana p" by (simp add: q_def getMaxMana_def)
    have s: "setVarStats stat d p = (if getMaxHealth q <s pl_health q
        then creature_changeHealth (getMaxHealth q - pl_health q) True q else emit AddCreatureHealth q)"
      by (simp add: setVarStats_def STAT_MAXHITPOINTS q_def Let_def)
    show ?thesis
    proof (cases "getMaxHealth q <s pl_health q")
      case True
      have pos: "0 \<le> sint (getMaxHealth q)" using M by simp
      note lower = lower_to_max [OF pos True]
      have "pl_health (creature_changeHealth (getMaxHealth q - pl_health q) True q) = getMaxHealth q"
        by (simp add: creature_changeHealth_def Let_def lower max_i32_pos [OF pos])
      with True s mm oldmax q M show ?thesis by (simp add: vitals_ok_def)
    next
      case False
      with s mm oldmax q h show ?thesis by (simp add: vitals_ok_def word_sless_alt)
    qed
  next
    case STAT_MAXMANAPOINTS
    then have mh: "getMaxHealth q = getMaxHealth p" by (simp add: q_def getMaxHealth_def)
    have s: "setVarStats stat d p = (if getMaxMana q < pl_mana q
        then changeMana (getMaxMana q - pl_mana q) q else q)"
      by (simp add: setVarStats_def STAT_MAXMANAPOINTS q_def Let_def)
    show ?thesis
    proof (cases "getMaxMana q < pl_mana q")
      case True
      have "getMaxMana q <s pl_mana q"
        using True unat_less_sless [OF getMaxMana_sint] mana q(2) by (simp add: word_less_nat_alt)
      note lower = lower_to_max [OF getMaxMana_sint this]
      have "pl_mana (changeMana (getMaxMana q - pl_mana q) q) = getMaxMana q"
        using inf q(3) by (simp add: changeMana_def lower max_i32_pos [OF getMaxMana_sint])
      with True s mh ok q show ?thesis by (simp add: vitals_ok_def)
    next
      case False
      with s mh ok q show ?thesis by (simp add: vitals_ok_def word_less_nat_alt)
    qed
  qed (use ok in \<open>simp_all add: setVarStats_def vitals_ok_def getMaxHealth_def getMaxMana_def\<close>)
qed

text \<open>
  Health, mana and soul never leave their range: a change of health or mana adds the signed amount and
  clamps the sum between zero and the current maximum, death is scheduled exactly when health reaches zero,
  soul is clamped by the vocation's maximum, and a change of the bonuses of equipment or conditions
  lowers health and mana to the new maxima, whatever the 32-bit bonus adds up to.
\<close>

theorem vitals_clamped:
  assumes "vitals_ok p" and "\<not> flag_HasInfiniteMana p"
  shows "sint (pl_health (changeHealth d s p)) = max 0 (min (sint (getMaxHealth p)) (sint (pl_health p) + sint d)) \<and>
    (ExecuteDeath \<in> set (pl_calls (changeHealth d s p)) \<longleftrightarrow>
       ExecuteDeath \<in> set (pl_calls p) \<or> pl_health (changeHealth d s p) = 0) \<and>
    int (unat (pl_mana (changeMana d p))) = max 0 (min (int (unat (getMaxMana p))) (int (unat (pl_mana p)) + sint d)) \<and>
    (unat (pl_soul p) \<le> unat (soulMax v) \<and> - 2147483648 < sint d \<longrightarrow>
       int (unat (pl_soul (changeSoul v d p))) = max 0 (min (int (unat (soulMax v))) (int (unat (pl_soul p)) + sint d))) \<and>
    vitals_ok (setVarStats stat d p)"
proof (intro conjI impI)
  have h: "0 \<le> sint (pl_health p)" "sint (pl_health p) \<le> sint (getMaxHealth p)"
    using assms(1) by (simp_all add: vitals_ok_def)
  show c: "sint (pl_health (changeHealth d s p)) = max 0 (min (sint (getMaxHealth p)) (sint (pl_health p) + sint d))"
    using creature_changeHealth_health [OF h] by (simp add: changeHealth_def)
  have "0 \<le> sint (pl_health (changeHealth d s p))" unfolding c by simp
  then have z: "\<not> 0 <s pl_health (changeHealth d s p) \<longleftrightarrow> pl_health (changeHealth d s p) = 0"
    by (auto simp: word_sless_alt intro: signed_word_eqI [where ?'a = int])
  show "ExecuteDeath \<in> set (pl_calls (changeHealth d s p)) \<longleftrightarrow>
      ExecuteDeath \<in> set (pl_calls p) \<or> pl_health (changeHealth d s p) = 0"
    unfolding z [symmetric]
    by (simp add: changeHealth_def creature_changeHealth_def Let_def emit_def isDead_def)
  show "int (unat (pl_mana (changeMana d p))) = max 0 (min (int (unat (getMaxMana p))) (int (unat (pl_mana p)) + sint d))"
    using assms by (intro changeMana_mana) (simp_all add: vitals_ok_def)
  show "int (unat (pl_soul (changeSoul v d p))) = max 0 (min (int (unat (soulMax v))) (int (unat (pl_soul p)) + sint d))"
    if "unat (pl_soul p) \<le> unat (soulMax v) \<and> - 2147483648 < sint d"
    using that by (intro changeSoul_soul) simp_all
  show "vitals_ok (setVarStats stat d p)" using assms by (rule setVarStats_vitals)
qed

end
