(* ===== verification/Training_Laws.thy ===== *)
theory Training_Laws
  imports Level_Laws
begin

text \<open>
  The laws of \<open>Player_Progress\<close> about skills, the magic level and death: both training loops preserve
  the points spent in all (\<open>points\<close>, shared by the two), a death takes exactly its portion of them, and the
  properties of the component with a sample vocation and player.
\<close>

subsection \<open>Points spent on a skill\<close>

text \<open>
  What a player has trained in all: the requirements of the levels above \<open>base\<close> that were passed, and
  the tries made towards the next one.  The code never computes it while training, but both loops
  preserve it, and a pair of a level and tries below the next requirement is determined by it.
\<close>

definition points :: "(nat \<Rightarrow> nat) \<Rightarrow> nat \<Rightarrow> nat \<Rightarrow> nat \<Rightarrow> nat" where
  "points req base l t = (\<Sum>c \<in> {base<..l}. req c) + t"

lemma points_base [simp]: "points req base base t = t"
  by (simp add: points_def)

lemma points_Suc: "base \<le> l \<Longrightarrow> points req base (Suc l) t = points req base l (req (Suc l) + t)"
proof -
  assume "base \<le> l"
  then have "{base<..Suc l} = insert (Suc l) {base<..l}" by auto
  then show ?thesis by (simp add: points_def)
qed

lemma points_add: "points req base l (t + u) = points req base l t + u"
  by (simp add: points_def)

lemma points_mono: "l \<le> m \<Longrightarrow> points req base l t \<le> points req base m t"
  unfolding points_def by (intro add_right_mono sum_mono2) auto

lemma points_next_le:
  assumes "base \<le> l" and "l < m" and "t < req (Suc l)"
  shows "points req base l t < points req base m 0"
proof -
  have "points req base l t < points req base (Suc l) 0"
    unfolding points_Suc [OF assms(1)] using assms(3) by (simp add: points_def)
  also have "\<dots> \<le> points req base m 0" using assms by (intro points_mono) simp
  finally show ?thesis .
qed

lemma points_inj:
  assumes "base \<le> l" and "base \<le> m" and "t < req (Suc l)" and "u < req (Suc m)"
    and "points req base l t = points req base m u"
  shows "l = m \<and> t = u"
proof -
  have ge: "points req base m 0 \<le> points req base m u" for m u by (simp add: points_def)
  have "\<not> l < m" using points_next_le [of base l m t req] ge [of m u] assms by auto
  moreover have "\<not> m < l" using points_next_le [of base m l u req] ge [of l t] assms by auto
  ultimately show ?thesis using assms(5) by (simp add: points_def)
qed

definition table :: "('l::len word \<Rightarrow> u64) \<Rightarrow> nat \<Rightarrow> nat" where
  "table req c = unat (req (of_nat c))"

definition growing :: "(nat \<Rightarrow> nat) \<Rightarrow> nat \<Rightarrow> nat \<Rightarrow> bool" where
  "growing req base cap \<longleftrightarrow> (\<forall>c \<in> {base..<cap}. req c < req (Suc c))"

lemma table_unat [simp]: "table req (unat l) = unat (req l)"
  by (simp add: table_def)

lemma unat_add_less: "unat (a :: 'a::len word) + unat b < 2 ^ LENGTH('a) \<Longrightarrow> unat (a + b) = unat a + unat b"
  by (simp add: unat_word_ariths)

lemma unat_diff_le: "unat (b :: 'a::len word) \<le> unat a \<Longrightarrow> unat (a - b) = unat a - unat b"
  by (simp add: unat_sub word_le_nat_alt)

definition skill_points :: "(u16 \<Rightarrow> u64) \<Rightarrow> skill \<Rightarrow> nat" where
  "skill_points req s = points (table req) 10 (unat (sk_level s)) (unat (sk_tries s))"

definition skill_ok :: "(u16 \<Rightarrow> u64) \<Rightarrow> nat \<Rightarrow> skill \<Rightarrow> bool" where
  "skill_ok req cap s \<longleftrightarrow> 10 \<le> unat (sk_level s) \<and> unat (sk_level s) < cap \<and> cap < 65535 \<and>
     growing (table req) 10 cap \<and> sk_tries s < req (sk_level s + 1)"

lemma skill_ok_next:
  assumes "skill_ok req cap s"
  shows "unat (sk_level s + 1) = Suc (unat (sk_level s))" and "req (sk_level s) < req (sk_level s + 1)"
    and "unat (req (sk_level s + 1)) = table req (Suc (unat (sk_level s)))"
proof -
  show l: "unat (sk_level s + 1) = Suc (unat (sk_level s))"
    using assms by (subst unat_add_less) (simp_all add: skill_ok_def)
  then show t: "unat (req (sk_level s + 1)) = table req (Suc (unat (sk_level s)))"
    by (metis table_unat)
  have "table req (unat (sk_level s)) < table req (Suc (unat (sk_level s)))"
    using assms unfolding skill_ok_def growing_def by (simp del: table_unat)
  then show "req (sk_level s) < req (sk_level s + 1)" by (simp add: word_less_nat_alt t)
qed

declare skill_up_loop.simps [simp del] skill_down_loop.simps [simp del]

lemma skill_up_loop_correct:
  assumes "skill_ok req cap s" and "skill_points req s + unat count < points (table req) 10 cap 0"
    and "points (table req) 10 cap 0 < 18446744073709551616"
    and "c < n" and "n = req (sk_level s + 1)"
  shows "\<exists>s' calls' count' c'. skill_up_loop req sk (s, calls) count c n = ((s', calls'), count', c', req (sk_level s' + 1)) \<and>
    c' < req (sk_level s' + 1) \<and> skill_ok req cap (s'\<lparr>sk_tries := sk_tries s' + count'\<rparr>) \<and>
    skill_points req (s'\<lparr>sk_tries := sk_tries s' + count'\<rparr>) = skill_points req s + unat count"
  using assms
proof (induction req sk "(s, calls)" count c n arbitrary: s calls rule: skill_up_loop.induct)
  case (1 req sk s calls count c n)
  let ?l = "unat (sk_level s)"
  note ok = "1.prems"(1) and nx = skill_ok_next [OF "1.prems"(1)]
  have "unat (sk_tries s) + unat count \<le> skill_points req s + unat count"
    by (simp add: skill_points_def points_def)
  then have sum: "unat (sk_tries s + count) = unat (sk_tries s) + unat count"
    using "1.prems"(2,3) by (intro unat_add_less) simp
  have tn: "unat (sk_tries s) < unat n" using ok "1.prems"(5) by (simp add: skill_ok_def word_less_nat_alt)
  show ?case
  proof (cases "n \<le> sk_tries s + count")
    case False
    then have "sk_tries s + count < n" by simp
    with ok False "1.prems"(4,5) sum show ?thesis
      by - (rule exI [of _ s], rule exI [of _ calls], rule exI [of _ count], rule exI [of _ c],
        simp add: skill_ok_def skill_points_def points_def skill_up_loop.simps [of req sk s calls count c "req (sk_level s + 1)"])
  next
    case True
    let ?count = "count - (n - sk_tries s)"
    let ?s = "s\<lparr>sk_level := sk_level s + 1, sk_tries := 0, sk_percent := 0\<rparr>"
    have "unat n \<le> unat (sk_tries s) + unat count" using True sum by (simp add: word_le_nat_alt)
    then have count: "unat ?count + unat n = unat (sk_tries s) + unat count"
      using tn by (simp add: unat_diff_le)
    have pts: "skill_points req ?s + unat ?count = skill_points req s + unat count"
      using nx ok count "1.prems"(5) by (simp add: skill_points_def points_Suc skill_ok_def) (simp add: points_def)
    have "Suc ?l < cap"
    proof (rule ccontr)
      assume "\<not> Suc ?l < cap"
      then have "points (table req) 10 cap 0 \<le> skill_points req ?s"
        using nx ok by (auto simp: skill_points_def skill_ok_def intro!: points_mono)
      with pts "1.prems"(2) show False by simp
    qed
    have l2: "unat (sk_level s + 1 + 1) = Suc (Suc ?l)"
      using \<open>Suc ?l < cap\<close> ok nx(1) by (subst unat_add_less) (simp_all add: skill_ok_def)
    have "table req (Suc ?l) < table req (Suc (Suc ?l))"
      using \<open>Suc ?l < cap\<close> ok unfolding skill_ok_def growing_def by (simp del: table_unat)
    then have grow: "n < req (sk_level s + 1 + 1)"
      using l2 nx(3) "1.prems"(5) table_unat [of req "sk_level s + 1 + 1"] by (simp add: word_less_nat_alt)
    have ok': "skill_ok req cap ?s"
      using ok grow \<open>Suc ?l < cap\<close> nx(1) by (auto simp: skill_ok_def word_less_nat_alt)
    have bound: "skill_points req ?s + unat ?count < points (table req) 10 cap 0"
      using pts "1.prems"(2) by simp
    let ?calls = "PlayerAdvance sk (ucast (sk_level ?s - 1)) (ucast (sk_level ?s)) #
                    AdvanceText sk (ucast (sk_level ?s)) # calls"
    have grow': "\<not> req (sk_level ?s + 1) \<le> n" using grow by (simp add: not_le)
    have "skill_up_loop req sk (s, calls) count c n = skill_up_loop req sk (?s, ?calls) ?count n (req (sk_level ?s + 1))"
      by (subst skill_up_loop.simps) (simp only: Let_def if_P [OF True] if_not_P [OF grow'])
    moreover have "\<exists>s' calls' count' c'. skill_up_loop req sk (?s, ?calls) ?count n (req (sk_level ?s + 1)) =
        ((s', calls'), count', c', req (sk_level s' + 1)) \<and>
      c' < req (sk_level s' + 1) \<and> skill_ok req cap (s'\<lparr>sk_tries := sk_tries s' + count'\<rparr>) \<and>
      skill_points req (s'\<lparr>sk_tries := sk_tries s' + count'\<rparr>) = skill_points req ?s + unat ?count"
      by (rule "1.hyps" [OF True refl refl refl refl grow' ok' bound "1.prems"(3)]) (use grow' in simp_all)
    ultimately show ?thesis by (simp only: pts)
  qed
qed

lemma growing_le:
  assumes "growing req base cap" and "base \<le> l" and "l \<le> m" and "m \<le> cap"
  shows "req l \<le> req m"
  using assms(3,4)
proof (induction m rule: dec_induct)
  case (step k)
  then have "req k < req (Suc k)" using assms(1,2) by (simp add: growing_def)
  with step show ?case by simp
qed simp

lemma skill_down_loop_correct:
  assumes "10 \<le> unat (sk_level s)" and "unat (sk_level s) < cap" and "cap < 65535"
    and "growing (table req) 10 cap"
    and "sk_tries s \<le> req (sk_level s + 1)" and "sk_tries s < req (sk_level s + 1) \<or> 0 < count"
  shows "\<exists>s' count'. skill_down_loop req s count = (s', count') \<and> count' \<le> sk_tries s' \<and>
    sk_tries s' \<le> req (sk_level s' + 1) \<and> skill_ok req cap (s'\<lparr>sk_tries := sk_tries s' - count'\<rparr>) \<and>
    skill_points req (s'\<lparr>sk_tries := sk_tries s' - count'\<rparr>) = skill_points req s - unat count"
  using assms
proof (induction req s count rule: skill_down_loop.induct)
  case (1 req s count)
  let ?l = "unat (sk_level s)"
  show ?case
  proof (cases "sk_tries s < count")
    case False
    then have "unat (sk_tries s - count) = unat (sk_tries s) - unat count"
      by (intro unat_diff_le) (simp add: word_le_nat_alt not_less)
    moreover have "sk_tries s - count < req (sk_level s + 1)"
      using False "1.prems"(5,6) calculation unfolding word_le_nat_alt word_less_nat_alt by auto
    moreover have "skill_down_loop req s count = (s, count)"
      by (subst skill_down_loop.simps) (simp only: if_not_P [OF False])
    ultimately show ?thesis
      using False "1.prems"(1-5)
      by (intro exI [of _ s] exI [of _ count])
        (simp add: skill_ok_def skill_points_def points_def not_less word_le_nat_alt)
  next
    case True
    have count: "unat (count - sk_tries s) = unat count - unat (sk_tries s)"
      using True by (intro unat_diff_le) (simp add: word_less_nat_alt)
    show ?thesis
    proof (cases "sk_level s \<le> MINIMUM_SKILL_LEVEL")
      case bottom: True
      then have l: "?l = 10" using "1.prems"(1) by (simp add: MINIMUM_SKILL_LEVEL_def word_le_nat_alt)
      then have s10: "sk_level s = MINIMUM_SKILL_LEVEL" by (simp add: MINIMUM_SKILL_LEVEL_def word_unat_eq_iff)
      have "table req 10 < table req 11" 
        using bspec [OF "1.prems"(4) [unfolded growing_def], of 10] "1.prems"(2) l by simp
      then have "0 < req 11" by (simp add: table_def word_less_nat_alt)
      moreover have "skill_points req s - unat count = 0"
        using True l by (simp add: skill_points_def word_less_nat_alt)
      moreover have "skill_down_loop req s count = (s\<lparr>sk_level := MINIMUM_SKILL_LEVEL, sk_tries := 0\<rparr>, 0)"
        by (subst skill_down_loop.simps) (simp only: Let_def if_P [OF True] if_P [OF bottom])
      ultimately show ?thesis
        using "1.prems"(2-4) l
        by - (rule exI, rule exI, rule conjI, assumption,
          simp add: skill_ok_def skill_points_def MINIMUM_SKILL_LEVEL_def)
    next
      case False
      let ?s = "s\<lparr>sk_tries := req (sk_level s), sk_level := sk_level s - 1\<rparr>"
      have l: "10 < ?l" using False by (simp add: MINIMUM_SKILL_LEVEL_def word_le_nat_alt)
      have l': "unat (sk_level s - 1) = ?l - 1" using l by (subst unat_diff_le) simp_all
      have pos: "0 < count - sk_tries s" using True count by (simp add: word_less_nat_alt)
      have "skill_points req ?s = points (table req) 10 ?l 0"
        using l l' points_Suc [of 10 "?l - 1" "table req" 0] by (simp add: skill_points_def)
      then have pts: "skill_points req ?s - unat (count - sk_tries s) = skill_points req s - unat count"
        using count True by (simp add: skill_points_def points_def word_less_nat_alt)
      have "skill_down_loop req s count = skill_down_loop req ?s (count - sk_tries s)"
        by (subst skill_down_loop.simps) (simp only: Let_def if_P [OF True] if_not_P [OF False])
      moreover have "\<exists>s' count'. skill_down_loop req ?s (count - sk_tries s) = (s', count') \<and> count' \<le> sk_tries s' \<and>
          sk_tries s' \<le> req (sk_level s' + 1) \<and> skill_ok req cap (s'\<lparr>sk_tries := sk_tries s' - count'\<rparr>) \<and>
          skill_points req (s'\<lparr>sk_tries := sk_tries s' - count'\<rparr>) = skill_points req ?s - unat (count - sk_tries s)"
        by (rule "1.IH" [OF True refl False]) (use l l' pos "1.prems"(2,3,4) in simp_all)
      ultimately show ?thesis by (simp only: pts)
    qed
  qed
qed


lemma skill_ok_percent [simp]: "skill_ok req cap (s\<lparr>sk_percent := x\<rparr>) = skill_ok req cap s"
  by (simp add: skill_ok_def)

lemma skill_points_percent [simp]: "skill_points req (s\<lparr>sk_percent := x\<rparr>) = skill_points req s"
  by (simp add: skill_points_def)

lemma pl_skills_emit_if [simp]: "pl_skills (if b then emit c p else p) = pl_skills p"
  by simp

lemma ucast_max_small:
  assumes "unat (t :: u64) < 2147483648"
  shows "(ucast (max_i32 0 (ucast t)) :: u64) = t"
proof -
  have u: "unat (ucast t :: u32) = unat t"
    using assms by (simp add: unsigned_ucast_eq take_bit_nat_eq_self)
  then have "0 \<le> sint (ucast t :: u32)" using assms by (subst sint_eq_unat_u32) simp_all
  then have "max_i32 0 (ucast t) = (ucast t :: u32)" by (rule max_i32_pos)
  then have "unat (ucast (max_i32 0 (ucast t)) :: u64) = unat t" by (simp add: unat_ucast_widen u)
  then show ?thesis by (simp add: word_unat_eq_iff)
qed

lemma removeSkillTries_skill:
  assumes skill: "sk < length (pl_skills p)" and ok: "skill_ok (getReqSkillTries v sk) cap (pl_skills p ! sk)"
    and small: "table (getReqSkillTries v sk) cap < 2147483648"
  shows "\<exists>p' s'. removeSkillTries e v sk m notify p = Some p' \<and> pl_skills p' = (pl_skills p)[sk := s'] \<and>
    skill_ok (getReqSkillTries v sk) cap s' \<and>
    skill_points (getReqSkillTries v sk) s' = skill_points (getReqSkillTries v sk) (pl_skills p ! sk) - unat m \<and>
    (\<not> notify \<longrightarrow> p' = p\<lparr>pl_skills := (pl_skills p)[sk := s']\<rparr>)"
proof -
  let ?req = "getReqSkillTries v sk" and ?s = "pl_skills p ! sk"
  obtain s' count' where loop: "skill_down_loop ?req ?s m = (s', count')"
    and r: "count' \<le> sk_tries s'" "sk_tries s' \<le> ?req (sk_level s' + 1)"
      "skill_ok ?req cap (s'\<lparr>sk_tries := sk_tries s' - count'\<rparr>)"
      "skill_points ?req (s'\<lparr>sk_tries := sk_tries s' - count'\<rparr>) = skill_points ?req ?s - unat m"
  proof -
    have pre: "10 \<le> unat (sk_level ?s)" "unat (sk_level ?s) < cap" "cap < 65535" "growing (table ?req) 10 cap"
      "sk_tries ?s \<le> ?req (sk_level ?s + 1)" "sk_tries ?s < ?req (sk_level ?s + 1) \<or> 0 < m"
      using ok by (simp_all add: skill_ok_def order_less_imp_le)
    show ?thesis
      using skill_down_loop_correct [OF pre] by (elim exE conjE) (rule that)
  qed
  have "unat (sk_tries s' - count') < 2147483648"
  proof -
    let ?t = "s'\<lparr>sk_tries := sk_tries s' - count'\<rparr>"
    have "table ?req (Suc (unat (sk_level ?t))) \<le> table ?req cap"
      by (rule growing_le [of _ 10 cap]) (use r(3) in \<open>simp_all add: skill_ok_def\<close>)
    moreover have "unat (sk_tries s' - count') < table ?req (Suc (unat (sk_level ?t)))"
      using r(3) unfolding skill_ok_next(3) [OF r(3), symmetric] by (simp add: skill_ok_def word_less_nat_alt)
    ultimately show ?thesis using small by simp
  qed
  then have t: "(ucast (max_i32 0 (ucast (sk_tries s' - count'))) :: u64) = sk_tries s' - count'"
    by (rule ucast_max_small)
  let ?r = "s'\<lparr>sk_tries := sk_tries s' - count',
    sk_percent := percent_of e (sk_tries s' - count') (?req (sk_level s'))\<rparr>"
  have "\<exists>p'. removeSkillTries e v sk m notify p = Some p' \<and> pl_skills p' = (pl_skills p)[sk := ?r] \<and>
      (\<not> notify \<longrightarrow> p' = p\<lparr>pl_skills := (pl_skills p)[sk := ?r]\<rparr>)"
    using skill by (cases notify) (simp_all add: removeSkillTries_def Let_def loop t)
  then obtain p' where p': "removeSkillTries e v sk m notify p = Some p'"
    "pl_skills p' = (pl_skills p)[sk := ?r]" "\<not> notify \<longrightarrow> p' = p\<lparr>pl_skills := (pl_skills p)[sk := ?r]\<rparr>"
    by blast
  show ?thesis
    by (rule exI [of _ p'], rule exI [of _ ?r]) (intro conjI p' skill_ok_percent [THEN iffD2, OF r(3)]
      trans [OF skill_points_percent r(4)])
qed

text \<open>
  C18: training and forgetting are exact: however many levels a gain of tries or a loss of tries runs
  through, the points the player has spent on the skill grow by the gain the scripts allow or shrink by the
  loss (to nothing at the lowest level), no intermediate sum overflows, and the tries left stay below
  the requirement of the next level.  A loss is exact while the requirements fit 31 bits.
\<close>

theorem skill_points_exact:
  assumes skill: "sk < length (pl_skills p)" and ok: "skill_ok (getReqSkillTries v sk) cap (pl_skills p ! sk)"
    and total: "points (table (getReqSkillTries v sk)) 10 cap 0 < 18446744073709551616"
  shows "(skill_points (getReqSkillTries v sk) (pl_skills p ! sk) + unat (onGainSkillTries e sk n)
            < points (table (getReqSkillTries v sk)) 10 cap 0 \<longrightarrow>
          (\<exists>p'. addSkillAdvance e v sk n p = Some p' \<and> skill_ok (getReqSkillTries v sk) cap (pl_skills p' ! sk) \<and>
             skill_points (getReqSkillTries v sk) (pl_skills p' ! sk) =
             skill_points (getReqSkillTries v sk) (pl_skills p ! sk) + unat (onGainSkillTries e sk n))) \<and>
    (table (getReqSkillTries v sk) cap < 2147483648 \<longrightarrow>
          (\<exists>p'. removeSkillTries e v sk m notify p = Some p' \<and> skill_ok (getReqSkillTries v sk) cap (pl_skills p' ! sk) \<and>
             skill_points (getReqSkillTries v sk) (pl_skills p' ! sk) =
             skill_points (getReqSkillTries v sk) (pl_skills p ! sk) - unat m))"
proof (intro conjI impI)
  let ?req = "getReqSkillTries v sk" and ?s = "pl_skills p ! sk"
  assume small: "skill_points ?req ?s + unat (onGainSkillTries e sk n) < points (table ?req) 10 cap 0"
  note nx = skill_ok_next [OF ok]
  have nmax: "\<not> ?req (sk_level ?s + 1) \<le> ?req (sk_level ?s)" using nx(2) by (simp add: not_le)
  show "\<exists>p'. addSkillAdvance e v sk n p = Some p' \<and> skill_ok ?req cap (pl_skills p' ! sk) \<and>
      skill_points ?req (pl_skills p' ! sk) = skill_points ?req ?s + unat (onGainSkillTries e sk n)"
  proof (cases "onGainSkillTries e sk n = 0")
    case True
    with skill ok nmax show ?thesis by (simp add: addSkillAdvance_def Let_def)
  next
    case False
    obtain s' calls' count' c' where loop:
      "skill_up_loop ?req sk (?s, pl_calls p) (onGainSkillTries e sk n) (?req (sk_level ?s)) (?req (sk_level ?s + 1)) =
         ((s', calls'), count', c', ?req (sk_level s' + 1))"
      and r: "c' < ?req (sk_level s' + 1)" "skill_ok ?req cap (s'\<lparr>sk_tries := sk_tries s' + count'\<rparr>)"
        "skill_points ?req (s'\<lparr>sk_tries := sk_tries s' + count'\<rparr>) = skill_points ?req ?s + unat (onGainSkillTries e sk n)"
      using skill_up_loop_correct [OF ok small total nx(2) refl, of sk "pl_calls p"] by (elim exE conjE) (rule that)
    show ?thesis
      using skill nmax False r by (simp add: addSkillAdvance_def Let_def loop)
  qed
next
  let ?req = "getReqSkillTries v sk" and ?s = "pl_skills p ! sk"
  assume small: "table ?req cap < 2147483648"
  show "\<exists>p'. removeSkillTries e v sk m notify p = Some p' \<and> skill_ok ?req cap (pl_skills p' ! sk) \<and>
      skill_points ?req (pl_skills p' ! sk) = skill_points ?req ?s - unat m"
    using removeSkillTries_skill [OF skill ok small, of e m notify] skill by auto
qed

subsection \<open>Points spent on the magic level\<close>

declare magLevel_up_loop.simps [simp del] magLevel_down_loop.simps [simp del] death_level_loop.simps [simp del]

definition mana_points :: "(u32 \<Rightarrow> u64) \<Rightarrow> player \<Rightarrow> nat" where
  "mana_points req p = points (table req) 0 (unat (pl_magLevel p)) (unat (pl_manaSpent p))"

definition magic_ok :: "(u32 \<Rightarrow> u64) \<Rightarrow> nat \<Rightarrow> player \<Rightarrow> bool" where
  "magic_ok req cap p \<longleftrightarrow> unat (pl_magLevel p) < cap \<and> cap < 4294967295 \<and>
     growing (table req) 0 cap \<and> pl_manaSpent p < req (pl_magLevel p + 1)"

lemma magic_ok_next:
  assumes "magic_ok req cap p"
  shows "unat (pl_magLevel p + 1) = Suc (unat (pl_magLevel p))" and "req (pl_magLevel p) < req (pl_magLevel p + 1)"
    and "unat (req (pl_magLevel p + 1)) = table req (Suc (unat (pl_magLevel p)))"
proof -
  show l: "unat (pl_magLevel p + 1) = Suc (unat (pl_magLevel p))"
    using assms by (subst unat_add_less) (simp_all add: magic_ok_def)
  then show t: "unat (req (pl_magLevel p + 1)) = table req (Suc (unat (pl_magLevel p)))"
    by (metis table_unat)
  have "table req (unat (pl_magLevel p)) < table req (Suc (unat (pl_magLevel p)))"
    using assms unfolding magic_ok_def growing_def by (simp del: table_unat)
  then show "req (pl_magLevel p) < req (pl_magLevel p + 1)" by (simp add: word_less_nat_alt t)
qed

lemma magLevel_up_loop_correct:
  assumes "magic_ok req cap p" and "mana_points req p + unat amount < points (table req) 0 cap 0"
    and "points (table req) 0 cap 0 < 18446744073709551616"
    and "c < n" and "n = req (pl_magLevel p + 1)"
  shows "\<exists>p' amount' c'. magLevel_up_loop req p amount c n = (p', amount', c', req (pl_magLevel p' + 1)) \<and>
    c' < req (pl_magLevel p' + 1) \<and> magic_ok req cap (p'\<lparr>pl_manaSpent := pl_manaSpent p' + amount'\<rparr>) \<and>
    mana_points req (p'\<lparr>pl_manaSpent := pl_manaSpent p' + amount'\<rparr>) = mana_points req p + unat amount"
  using assms
proof (induction req p amount c n rule: magLevel_up_loop.induct)
  case (1 req p amount c n)
  let ?l = "unat (pl_magLevel p)"
  note ok = "1.prems"(1) and nx = magic_ok_next [OF "1.prems"(1)]
  have "unat (pl_manaSpent p) + unat amount \<le> mana_points req p + unat amount"
    by (simp add: mana_points_def points_def)
  then have sum: "unat (pl_manaSpent p + amount) = unat (pl_manaSpent p) + unat amount"
    using "1.prems"(2,3) by (intro unat_add_less) simp
  have tn: "unat (pl_manaSpent p) < unat n" using ok "1.prems"(5) by (simp add: magic_ok_def word_less_nat_alt)
  show ?case
  proof (cases "n \<le> pl_manaSpent p + amount")
    case False
    then have "pl_manaSpent p + amount < n" by simp
    moreover have "magLevel_up_loop req p amount c n = (p, amount, c, n)"
      by (subst magLevel_up_loop.simps) (simp only: if_not_P [OF False])
    ultimately show ?thesis
      using ok "1.prems"(4,5) sum
      by - (rule exI [of _ p], rule exI [of _ amount], rule exI [of _ c],
        simp add: magic_ok_def mana_points_def points_def)
  next
    case True
    let ?amount = "amount - (n - pl_manaSpent p)" and ?p = "gain_magLevel p"
    have p: "pl_magLevel ?p = pl_magLevel p + 1" "pl_manaSpent ?p = 0"
      by (simp_all add: gain_magLevel_def Let_def)
    have "unat n \<le> unat (pl_manaSpent p) + unat amount" using True sum by (simp add: word_le_nat_alt)
    then have amount: "unat ?amount + unat n = unat (pl_manaSpent p) + unat amount"
      using tn by (simp add: unat_diff_le)
    have pts: "mana_points req ?p + unat ?amount = mana_points req p + unat amount"
      using nx amount "1.prems"(5) by (simp add: mana_points_def points_Suc p) (simp add: points_def)
    have cap: "Suc ?l < cap"
    proof (rule ccontr)
      assume "\<not> Suc ?l < cap"
      then have "points (table req) 0 cap 0 \<le> mana_points req ?p"
        using nx ok by (auto simp: mana_points_def magic_ok_def p intro!: points_mono)
      with pts "1.prems"(2) show False by simp
    qed
    have l2: "unat (pl_magLevel p + 1 + 1) = Suc (Suc ?l)"
      using cap ok nx(1) by (subst unat_add_less) (simp_all add: magic_ok_def)
    have "table req (Suc ?l) < table req (Suc (Suc ?l))"
      using cap ok unfolding magic_ok_def growing_def by (simp del: table_unat)
    then have grow: "n < req (pl_magLevel ?p + 1)"
      using l2 nx(3) "1.prems"(5) table_unat [of req "pl_magLevel p + 1 + 1"] by (simp add: word_less_nat_alt p)
    have ok': "magic_ok req cap ?p"
      using ok grow cap nx(1) unfolding magic_ok_def p by (auto simp: word_less_nat_alt)
    have bound: "mana_points req ?p + unat ?amount < points (table req) 0 cap 0"
      using pts "1.prems"(2) by simp
    have grow': "\<not> req (pl_magLevel ?p + 1) \<le> n" using grow by (simp add: not_le)
    have "magLevel_up_loop req p amount c n = magLevel_up_loop req ?p ?amount n (req (pl_magLevel ?p + 1))"
      by (subst magLevel_up_loop.simps) (simp only: Let_def if_P [OF True] if_not_P [OF grow'])
    moreover have "\<exists>p' amount' c'. magLevel_up_loop req ?p ?amount n (req (pl_magLevel ?p + 1)) =
        (p', amount', c', req (pl_magLevel p' + 1)) \<and>
      c' < req (pl_magLevel p' + 1) \<and> magic_ok req cap (p'\<lparr>pl_manaSpent := pl_manaSpent p' + amount'\<rparr>) \<and>
      mana_points req (p'\<lparr>pl_manaSpent := pl_manaSpent p' + amount'\<rparr>) = mana_points req ?p + unat ?amount"
      by (rule "1.IH" [OF True refl refl refl grow' ok' bound "1.prems"(3)]) (use grow in simp_all)
    ultimately show ?thesis by (simp only: pts)
  qed
qed

lemma magLevel_down_loop_correct:
  assumes "unat l < cap" and "cap < 4294967295" and "growing (table req) 0 cap"
    and "spent \<le> req (l + 1)" and "spent < req (l + 1) \<or> 0 < amount"
    and "unat amount \<le> points (table req) 0 (unat l) (unat spent)"
  shows "\<exists>l' spent' amount'. magLevel_down_loop req l spent amount = (l', spent', amount') \<and> amount' \<le> spent' \<and>
    unat l' < cap \<and> spent' - amount' < req (l' + 1) \<and>
    points (table req) 0 (unat l') (unat (spent' - amount')) = points (table req) 0 (unat l) (unat spent) - unat amount"
  using assms
proof (induction req l spent amount rule: magLevel_down_loop.induct)
  case (1 req l spent amount)
  show ?case
  proof (cases "spent < amount \<and> 0 < l")
    case False
    then have le: "amount \<le> spent"
      using "1.prems"(6) by (auto simp: not_less word_le_nat_alt)
    then have "unat (spent - amount) = unat spent - unat amount"
      by (intro unat_diff_le) (simp add: word_le_nat_alt)
    moreover have "spent - amount < req (l + 1)"
      using le "1.prems"(4,5) calculation unfolding word_le_nat_alt word_less_nat_alt by auto
    moreover have "magLevel_down_loop req l spent amount = (l, spent, amount)"
      by (subst magLevel_down_loop.simps) (simp only: if_not_P [OF False])
    ultimately show ?thesis using le "1.prems"(1)
      by (intro exI [of _ l] exI [of _ spent] exI [of _ amount]) (simp add: points_def word_le_nat_alt)
  next
    case True
    have l': "unat (l - 1) = unat l - 1" using True by (intro unat_dec_u32) (simp add: word_less_nat_alt)
    have amount: "unat (amount - spent) = unat amount - unat spent"
      using True by (intro unat_diff_le) (simp add: word_less_nat_alt)
    have pos: "0 < amount - spent" using True amount by (simp add: word_less_nat_alt)
    have l: "unat l = Suc (unat (l - 1))" using l' True by (simp add: word_less_nat_alt)
    have p: "points (table req) 0 (unat (l - 1)) (unat (req l)) = points (table req) 0 (unat l) 0"
      using points_Suc [of 0 "unat (l - 1)" "table req" 0] l [symmetric] by simp
    then have pts: "points (table req) 0 (unat (l - 1)) (unat (req l)) - unat (amount - spent) =
        points (table req) 0 (unat l) (unat spent) - unat amount"
      using amount True by (simp add: points_def word_less_nat_alt)
    have le: "unat (amount - spent) \<le> points (table req) 0 (unat (l - 1)) (unat (req l))"
      using "1.prems"(6) amount unfolding p by (simp add: points_def)
    have "magLevel_down_loop req l spent amount = magLevel_down_loop req (l - 1) (req l) (amount - spent)"
      by (subst magLevel_down_loop.simps) (simp only: if_P [OF True])
    moreover have "\<exists>l' spent' amount'. magLevel_down_loop req (l - 1) (req l) (amount - spent) = (l', spent', amount') \<and>
      amount' \<le> spent' \<and> unat l' < cap \<and> spent' - amount' < req (l' + 1) \<and>
      points (table req) 0 (unat l') (unat (spent' - amount')) =
        points (table req) 0 (unat (l - 1)) (unat (req l)) - unat (amount - spent)"
      by (rule "1.IH" [OF True _ "1.prems"(2,3) _ _ le]) (use l' pos "1.prems"(1) in simp_all)
    ultimately show ?thesis by (simp only: pts)
  qed
qed

lemma mana_points_cong [simp]:
  "mana_points req (emit c p) = mana_points req p"
  "mana_points req (p\<lparr>pl_magLevelPercent := x\<rparr>) = mana_points req p"
  "mana_points req (p\<lparr>pl_skills := y\<rparr>) = mana_points req p"
  by (simp_all add: mana_points_def)

lemma magic_ok_cong [simp]:
  "magic_ok req cap (emit c p) = magic_ok req cap p"
  "magic_ok req cap (p\<lparr>pl_magLevelPercent := x\<rparr>) = magic_ok req cap p"
  "magic_ok req cap (p\<lparr>pl_skills := y\<rparr>) = magic_ok req cap p"
  by (simp_all add: magic_ok_def)

lemma removeManaSpent_points:
  assumes ok: "magic_ok (getReqMana v) cap p" and le: "unat m \<le> mana_points (getReqMana v) p"
  shows "magic_ok (getReqMana v) cap (removeManaSpent e v m notify p) \<and>
    mana_points (getReqMana v) (removeManaSpent e v m notify p) = mana_points (getReqMana v) p - unat m \<and>
    (\<not> notify \<longrightarrow> (\<exists>l s x. removeManaSpent e v m notify p = p\<lparr>pl_magLevel := l, pl_manaSpent := s, pl_magLevelPercent := x\<rparr>))"
proof (cases "m = 0")
  case True
  have "p = p\<lparr>pl_magLevel := pl_magLevel p, pl_manaSpent := pl_manaSpent p, pl_magLevelPercent := pl_magLevelPercent p\<rparr>"
    by simp
  then have "\<exists>l s x. p = p\<lparr>pl_magLevel := l, pl_manaSpent := s, pl_magLevelPercent := x\<rparr>" by blast
  with True ok show ?thesis by (simp add: removeManaSpent_def)
next
  case False
  let ?req = "getReqMana v"
  obtain l' spent' m' where loop: "magLevel_down_loop ?req (pl_magLevel p) (pl_manaSpent p) m = (l', spent', m')"
    and r: "m' \<le> spent'" "unat l' < cap" "spent' - m' < ?req (l' + 1)"
      "points (table ?req) 0 (unat l') (unat (spent' - m')) = mana_points ?req p - unat m"
  proof -
    have pre: "unat (pl_magLevel p) < cap" "cap < 4294967295" "growing (table ?req) 0 cap"
      "pl_manaSpent p \<le> ?req (pl_magLevel p + 1)" "pl_manaSpent p < ?req (pl_magLevel p + 1) \<or> 0 < m"
      "unat m \<le> points (table ?req) 0 (unat (pl_magLevel p)) (unat (pl_manaSpent p))"
      using ok le by (simp_all add: magic_ok_def mana_points_def order_less_imp_le)
    show ?thesis
      using magLevel_down_loop_correct [OF pre, folded mana_points_def] by (elim exE conjE) (rule that)
  qed
  define q where "q = p\<lparr>pl_magLevel := l', pl_manaSpent := spent' - m',
    pl_magLevelPercent := (if ?req l' < ?req (l' + 1) then percent_of e (spent' - m') (?req (l' + 1)) else 0)\<rparr>"
  have "magic_ok ?req cap q" "mana_points ?req q = mana_points ?req p - unat m"
    using ok r by (simp_all add: q_def magic_ok_def mana_points_def)
  moreover have "removeManaSpent e v m notify p = (if \<not> notify then q
         else let p2 = (if pl_magLevel p \<noteq> l' then emit (DowngradeText SKILL_MAGLEVEL l') q else q)
              in if pl_magLevel p \<noteq> l' \<or> pl_magLevelPercent p \<noteq> pl_magLevelPercent q then emit SendStats p2 else p2)"
    using False by (simp add: removeManaSpent_def Let_def loop q_def)
  moreover have "\<exists>l s x. q = p\<lparr>pl_magLevel := l, pl_manaSpent := s, pl_magLevelPercent := x\<rparr>"
    unfolding q_def by blast
  ultimately show ?thesis by (cases notify) (simp_all add: Let_def)
qed

text \<open>
  Mana spent on the magic level is counted exactly, too: the points grow by what the scripts allow, and
  shrink by what is taken while there is that much to take; the mana left stays below the next level's.
\<close>

theorem mana_points_exact:
  assumes ok: "magic_ok (getReqMana v) cap p" and gains: "\<not> flag_NotGainMana p"
    and total: "points (table (getReqMana v)) 0 cap 0 < 18446744073709551616"
  shows "(mana_points (getReqMana v) p + unat (onGainSkillTries e SKILL_MAGLEVEL n) < points (table (getReqMana v)) 0 cap 0 \<longrightarrow>
      magic_ok (getReqMana v) cap (addManaSpent e v n p) \<and>
      mana_points (getReqMana v) (addManaSpent e v n p) =
        mana_points (getReqMana v) p + unat (onGainSkillTries e SKILL_MAGLEVEL n)) \<and>
    (unat m \<le> mana_points (getReqMana v) p \<longrightarrow>
      magic_ok (getReqMana v) cap (removeManaSpent e v m notify p) \<and>
      mana_points (getReqMana v) (removeManaSpent e v m notify p) = mana_points (getReqMana v) p - unat m)"
proof (rule conjI)
  let ?req = "getReqMana v" and ?n = "onGainSkillTries e SKILL_MAGLEVEL n"
  have nx: "?req (pl_magLevel p) < ?req (pl_magLevel p + 1)" using magic_ok_next [OF ok] by blast
  then have nx': "\<not> ?req (pl_magLevel p + 1) \<le> ?req (pl_magLevel p)" by (simp add: not_le)
  show "mana_points ?req p + unat ?n < points (table ?req) 0 cap 0 \<longrightarrow>
      magic_ok ?req cap (addManaSpent e v n p) \<and> mana_points ?req (addManaSpent e v n p) = mana_points ?req p + unat ?n"
  proof (cases "?n = 0")
    case True
    with ok gains nx' show ?thesis by (simp add: addManaSpent_def Let_def)
  next
    case False
    show ?thesis
    proof
      assume small: "mana_points ?req p + unat ?n < points (table ?req) 0 cap 0"
      obtain p' amount' c' where loop:
        "magLevel_up_loop ?req p ?n (?req (pl_magLevel p)) (?req (pl_magLevel p + 1)) = (p', amount', c', ?req (pl_magLevel p' + 1))"
        and r: "c' < ?req (pl_magLevel p' + 1)" "magic_ok ?req cap (p'\<lparr>pl_manaSpent := pl_manaSpent p' + amount'\<rparr>)"
          "mana_points ?req (p'\<lparr>pl_manaSpent := pl_manaSpent p' + amount'\<rparr>) = mana_points ?req p + unat ?n"
        using magLevel_up_loop_correct [OF ok small total nx refl] by (elim exE conjE) (rule that)
      have r1: "\<not> ?req (pl_magLevel p' + 1) \<le> c'" using r(1) by (simp add: not_le)
      show "magic_ok ?req cap (addManaSpent e v n p) \<and> mana_points ?req (addManaSpent e v n p) = mana_points ?req p + unat ?n"
        using gains nx' False r1 r(2,3) by (simp add: addManaSpent_def Let_def loop)
    qed
  qed
  show "unat m \<le> mana_points ?req p \<longrightarrow> magic_ok ?req cap (removeManaSpent e v m notify p) \<and>
      mana_points ?req (removeManaSpent e v m notify p) = mana_points ?req p - unat m"
    using removeManaSpent_points [OF ok] by blast
qed

subsection \<open>A death\<close>

lemma fold_sum_words:
  assumes "s + sum_list (map (\<lambda>i. unat (f i)) xs) < 18446744073709551616"
  shows "unat (fold (\<lambda>i sum. sum + f i) xs (of_nat s :: u64)) = s + sum_list (map (\<lambda>i. unat (f i)) xs)"
  using assms
proof (induction xs arbitrary: s)
  case Nil
  then show ?case by (simp add: unat_of_nat_u64)
next
  case (Cons x xs)
  have "fold (\<lambda>i sum. sum + f i) (x # xs) (of_nat s :: u64) = fold (\<lambda>i sum. sum + f i) xs (of_nat (s + unat (f x)))"
    by simp
  moreover have "s + unat (f x) + sum_list (map (\<lambda>i. unat (f i)) xs) = s + sum_list (map (\<lambda>i. unat (f i)) (x # xs))"
    by simp
  ultimately show ?case using Cons.IH [of "s + unat (f x)"] Cons.prems by (simp only:)
qed

lemma points_sum_list:
  "points req base l t = sum_list (map req [base + 1..<l + 1]) + t"
proof -
  have "{base<..l} = set [base + 1..<l + 1]" by auto
  then show ?thesis
    by (simp add: points_def sum_list_distinct_conv_sum_set del: upt_Suc)
qed

lemma points_le_cap:
  "base \<le> l \<Longrightarrow> l < cap \<Longrightarrow> t < req (Suc l) \<Longrightarrow> points req base l t < points req base cap 0"
  by (rule points_next_le)

lemma sum_mana_points:
  assumes ok: "magic_ok (getReqMana v) cap p" and total: "points (table (getReqMana v)) 0 cap 0 < 18446744073709551616"
  shows "unat (sum_mana v (pl_magLevel p) + pl_manaSpent p) = mana_points (getReqMana v) p"
proof -
  let ?l = "unat (pl_magLevel p)" and ?req = "getReqMana v"
  have "mana_points ?req p < points (table ?req) 0 cap 0"
    unfolding mana_points_def using ok magic_ok_next(3) [OF ok]
    by (intro points_next_le) (simp_all add: magic_ok_def word_less_nat_alt)
  with total have less: "mana_points ?req p < 18446744073709551616" by simp
  have pts: "mana_points ?req p = sum_list (map (\<lambda>i. unat (?req (of_nat i))) [1..<?l + 1]) + unat (pl_manaSpent p)"
    by (simp add: mana_points_def points_sum_list table_def [abs_def])
  have "unat (sum_mana v (pl_magLevel p)) = sum_list (map (\<lambda>i. unat (?req (of_nat i))) [1..<?l + 1])"
    using fold_sum_words [of 0 "\<lambda>i. ?req (of_nat i)" "[1..<?l + 1]"] less pts by (simp add: sum_mana_def)
  then show ?thesis using less pts by (subst unat_add_less) simp_all
qed

lemma sum_tries_points:
  assumes ok: "skill_ok (getReqSkillTries v i) cap s"
    and total: "points (table (getReqSkillTries v i)) 10 cap 0 < 18446744073709551616"
  shows "unat (sum_tries v i (sk_level s) + sk_tries s) = skill_points (getReqSkillTries v i) s"
proof -
  let ?l = "unat (sk_level s)" and ?req = "getReqSkillTries v i"
  have "skill_points ?req s < points (table ?req) 10 cap 0"
    unfolding skill_points_def using ok skill_ok_next(3) [OF ok]
    by (intro points_next_le) (simp_all add: skill_ok_def word_less_nat_alt)
  with total have less: "skill_points ?req s < 18446744073709551616" by simp
  have pts: "skill_points ?req s = sum_list (map (\<lambda>i. unat (?req (of_nat i))) [11..<?l + 1]) + unat (sk_tries s)"
    by (simp add: skill_points_def points_sum_list table_def [abs_def])
  have "unat (sum_tries v i (sk_level s)) = sum_list (map (\<lambda>i. unat (?req (of_nat i))) [11..<?l + 1])"
    using fold_sum_words [of 0 "\<lambda>i. ?req (of_nat i)" "[11..<?l + 1]"] less pts
    by (simp add: sum_tries_def MINIMUM_SKILL_LEVEL_def)
  then show ?thesis using less pts by (subst unat_add_less) simp_all
qed

lemma skill_loss_exact:
  assumes i: "i < length (pl_skills p)" and ok: "skill_ok (getReqSkillTries v i) cap (pl_skills p ! i)"
    and small: "table (getReqSkillTries v i) cap < 2147483648"
    and total: "points (table (getReqSkillTries v i)) 10 cap 0 < 18446744073709551616"
  shows "\<exists>s'. skill_loss e v portion i p = Some (p\<lparr>pl_skills := (pl_skills p)[i := s']\<rparr>) \<and>
    skill_ok (getReqSkillTries v i) cap s' \<and>
    skill_points (getReqSkillTries v i) s' = skill_points (getReqSkillTries v i) (pl_skills p ! i) -
      unat (portion (of_nat (skill_points (getReqSkillTries v i) (pl_skills p ! i))))"
proof -
  let ?s = "pl_skills p ! i"
  have "of_nat (unat (sum_tries v i (sk_level ?s) + sk_tries ?s)) = sum_tries v i (sk_level ?s) + sk_tries ?s"
    by simp
  then have "sum_tries v i (sk_level ?s) + sk_tries ?s = of_nat (skill_points (getReqSkillTries v i) ?s)"
    by (simp only: sum_tries_points [OF ok total])
  then show ?thesis
    using removeSkillTries_skill [OF i ok small, of e _ False] i by (auto simp: skill_loss_def)
qed

text \<open>A table below \<open>2 ^ 31\<close> cannot sum up to \<open>2 ^ 64\<close> over the levels of a skill.\<close>

lemma skill_total:
  assumes ok: "skill_ok req cap s" and small: "table req cap < 2147483648"
  shows "points (table req) 10 cap 0 < 18446744073709551616"
proof -
  have grow: "growing (table req) 10 cap" and cap: "cap < 65535" using ok by (simp_all add: skill_ok_def)
  have "table req c \<le> 2147483648" if "c \<in> {10<..cap}" for c
    using growing_le [OF grow, of c cap] that small by simp
  then have "points (table req) 10 cap 0 \<le> card {10<..cap} * 2147483648"
    using sum_bounded_above [of "{10<..cap}" "table req" 2147483648] by (simp add: points_def)
  also have "\<dots> < 18446744073709551616" using cap by simp
  finally show ?thesis .
qed

lemma skill_losses_exact:
  assumes "distinct is" and "\<forall>i \<in> set is. i < length (pl_skills p)"
    and "\<forall>i \<in> set is. skill_ok (getReqSkillTries v i) (cap i) (pl_skills p ! i) \<and>
      table (getReqSkillTries v i) (cap i) < 2147483648"
  shows "\<exists>ss. skill_losses e v portion is p = Some (p\<lparr>pl_skills := ss\<rparr>) \<and> length ss = length (pl_skills p) \<and>
    (\<forall>i. i \<notin> set is \<longrightarrow> ss ! i = pl_skills p ! i) \<and>
    (\<forall>i \<in> set is. skill_ok (getReqSkillTries v i) (cap i) (ss ! i) \<and>
      skill_points (getReqSkillTries v i) (ss ! i) = skill_points (getReqSkillTries v i) (pl_skills p ! i) -
        unat (portion (of_nat (skill_points (getReqSkillTries v i) (pl_skills p ! i)))))"
  using assms
proof (induction "is" arbitrary: p)
  case Nil
  then show ?case by (intro exI [of _ "pl_skills p"]) simp
next
  case (Cons i "is")
  let ?lost = "\<lambda>s i. skill_points (getReqSkillTries v i) s -
        unat (portion (of_nat (skill_points (getReqSkillTries v i) s)))"
  obtain s' where s': "skill_loss e v portion i p = Some (p\<lparr>pl_skills := (pl_skills p)[i := s']\<rparr>)"
    "skill_ok (getReqSkillTries v i) (cap i) s'" "skill_points (getReqSkillTries v i) s' = ?lost (pl_skills p ! i) i"
    using skill_loss_exact [of i p v "cap i" e portion] skill_total [of _ "cap i"] Cons.prems by auto
  let ?p = "p\<lparr>pl_skills := (pl_skills p)[i := s']\<rparr>"
  have same: "pl_skills ?p ! j = pl_skills p ! j" if "j \<in> set is" for j
    using that Cons.prems(1) by (cases "i = j") auto
  have "\<exists>ss. skill_losses e v portion is ?p = Some (?p\<lparr>pl_skills := ss\<rparr>) \<and> length ss = length (pl_skills ?p) \<and>
    (\<forall>j. j \<notin> set is \<longrightarrow> ss ! j = pl_skills ?p ! j) \<and>
    (\<forall>j \<in> set is. skill_ok (getReqSkillTries v j) (cap j) (ss ! j) \<and>
      skill_points (getReqSkillTries v j) (ss ! j) = ?lost (pl_skills ?p ! j) j)"
    using Cons.prems same by (intro Cons.IH) auto
  then obtain ss where ss: "skill_losses e v portion is ?p = Some (p\<lparr>pl_skills := ss\<rparr>)"
    "length ss = length (pl_skills p)" "\<forall>j. j \<notin> set is \<longrightarrow> ss ! j = pl_skills ?p ! j"
    "\<forall>j \<in> set is. skill_ok (getReqSkillTries v j) (cap j) (ss ! j) \<and>
      skill_points (getReqSkillTries v j) (ss ! j) = ?lost (pl_skills ?p ! j) j"
    by auto
  have "ss ! i = s'" using ss(3) Cons.prems(1,2) by simp
  moreover have "ss ! j = pl_skills p ! j" if "j \<notin> set (i # is)" for j using ss(3) that by auto
  moreover have "skill_ok (getReqSkillTries v j) (cap j) (ss ! j) \<and>
      skill_points (getReqSkillTries v j) (ss ! j) = ?lost (pl_skills p ! j) j" if "j \<in> set is" for j
    using ss(4) same [OF that] that by auto
  ultimately show ?case
    using s' ss(1,2) by (intro exI [of _ ss]) auto
qed

lemma death_level_loop_eq: "death_level_loop v p = fst (level_down_loop v p (getExpForLevel (ucast (pl_level p))))"
proof (induction v p rule: death_level_loop.induct)
  case (1 v p)
  then show ?case
    by (subst death_level_loop.simps, subst level_down_loop.simps) (simp add: Let_def)
qed

lemma lose_levels_others:
  "pl_skills ((lose_level v ^^ k) p) = pl_skills p \<and> pl_magLevel ((lose_level v ^^ k) p) = pl_magLevel p \<and>
   pl_manaSpent ((lose_level v ^^ k) p) = pl_manaSpent p \<and> pl_blessings ((lose_level v ^^ k) p) = pl_blessings p"
  by (induction k) (simp_all add: lose_level_def)

lemma level_loss_progress:
  assumes ok: "progress_ok p" and g: "unat (onLoseExperience e (portion (pl_experience p))) \<le> unat (pl_experience p)"
  shows "progress_ok (level_loss e v portion p) \<and> unat (pl_level (level_loss e v portion p)) \<le> unat (pl_level p) \<and>
    pl_experience (level_loss e v portion p) = pl_experience p -
      (if voc_id v = VOCATION_NONE \<or> 7 < pl_level p then onLoseExperience e (portion (pl_experience p)) else 0) \<and>
    pl_skills (level_loss e v portion p) = pl_skills p \<and> pl_magLevel (level_loss e v portion p) = pl_magLevel p \<and>
    pl_manaSpent (level_loss e v portion p) = pl_manaSpent p \<and> pl_blessings (level_loss e v portion p) = pl_blessings p"
proof (cases "onLoseExperience e (portion (pl_experience p)) = 0")
  case True
  with ok show ?thesis by (simp add: level_loss_def Let_def)
next
  case False
  let ?g = "onLoseExperience e (portion (pl_experience p))"
  define p1 where "p1 = (if voc_id v = VOCATION_NONE \<or> 7 < pl_level p then p\<lparr>pl_experience := pl_experience p - ?g\<rparr> else p)"
  have p1: "pl_level p1 = pl_level p" "pl_skills p1 = pl_skills p" "pl_magLevel p1 = pl_magLevel p"
    "pl_manaSpent p1 = pl_manaSpent p" "pl_blessings p1 = pl_blessings p"
    "pl_experience p1 = pl_experience p - (if voc_id v = VOCATION_NONE \<or> 7 < pl_level p then ?g else 0)"
    by (simp_all add: p1_def)
  have "unat (pl_experience p1) \<le> unat (pl_experience p)" using g by (simp add: p1 unat_diff_le)
  then have pre: "1 \<le> unat (pl_level p1)" "unat (pl_level p1) < MAX_LEVEL"
    "unat (pl_experience p1) < exp_total (unat (pl_level p1))"
    using ok by (auto simp: progress_ok_def p1)
  obtain k where k: "k < unat (pl_level p1)"
    "level_down_loop v p1 (getExpForLevel (ucast (pl_level p1))) =
      ((lose_level v ^^ k) p1, getExpForLevel (ucast (pl_level p1 - of_nat k)))"
    "unat (pl_level p1 - of_nat k) = unat (pl_level p1) - k" "progress_ok ((lose_level v ^^ k) p1)"
    using level_down_loop_correct [OF pre refl, of v] by (elim exE conjE) (rule that)
  have d: "death_level_loop v p1 = (lose_level v ^^ k) p1" by (simp add: death_level_loop_eq k(2))
  have "\<exists>c x. level_loss e v portion p = (if c then (lose_level v ^^ k) p1
      else emit (DowngradeText SKILL_LEVEL (pl_level ((lose_level v ^^ k) p1))) ((lose_level v ^^ k) p1))\<lparr>pl_levelPercent := x\<rparr>"
    using False by (intro exI) (simp only: level_loss_def Let_def if_False p1_def [symmetric] d)
  then obtain c x where l: "level_loss e v portion p = (if c then (lose_level v ^^ k) p1
      else emit (DowngradeText SKILL_LEVEL (pl_level ((lose_level v ^^ k) p1))) ((lose_level v ^^ k) p1))\<lparr>pl_levelPercent := x\<rparr>"
    by blast
  show ?thesis
    using k(3,4) p1 by (cases c) (simp_all add: l lose_levels_fields lose_levels_others progress_ok_def)
qed

text \<open>
  C19: a death takes from the magic level, from every skill and from the experience exactly the portion the
  loss percentage says: each loss is at most what there is, the levels fit what is left, players of level
  seven and below with a vocation keep their experience, and the blessings are spent.  Nothing wraps
  around as long as the tables grow, each skill has a level above its own (its own cap) up to which the
  tries required stay below \<open>2 ^ 31\<close> -- for a melee skill with multiplier 1.1 that is around level 190 -- and the mana
  required up to some level above the magic level sums up below \<open>2 ^ 64\<close>; beyond these bounds
  \<open>losses_wrap\<close> shows what happens.
\<close>

theorem death_losses_exact:
  assumes progress: "progress_ok p" and magic: "magic_ok (getReqMana v) mcap p"
    and len: "length (pl_skills p) = 7"
    and skills: "\<forall>i < 7. skill_ok (getReqSkillTries v i) (cap i) (pl_skills p ! i)"
    and small: "\<forall>i < 7. table (getReqSkillTries v i) (cap i) < 2147483648"
    and total: "points (table (getReqMana v)) 0 mcap 0 < 18446744073709551616"
    and portion: "\<forall>x. unat (portion x) \<le> unat x" and script: "\<forall>x. unat (onLoseExperience e x) \<le> unat x"
  shows "\<exists>p'. death_losses e v portion lastHitPlayer skull p = Some p' \<and>
    progress_ok p' \<and> unat (pl_level p') \<le> unat (pl_level p) \<and>
    unat (pl_experience p') = unat (pl_experience p) -
      (if voc_id v = VOCATION_NONE \<or> 7 < pl_level p then unat (onLoseExperience e (portion (pl_experience p))) else 0) \<and>
    magic_ok (getReqMana v) mcap p' \<and>
    mana_points (getReqMana v) p' = mana_points (getReqMana v) p - unat (portion (of_nat (mana_points (getReqMana v) p))) \<and>
    (\<forall>i < 7. skill_ok (getReqSkillTries v i) (cap i) (pl_skills p' ! i) \<and>
      skill_points (getReqSkillTries v i) (pl_skills p' ! i) = skill_points (getReqSkillTries v i) (pl_skills p ! i) -
        unat (portion (of_nat (skill_points (getReqSkillTries v i) (pl_skills p ! i))))) \<and>
    (\<forall>b < 5. \<not> (bit (pl_blessings p) 5 \<and> lastHitPlayer) \<longrightarrow> \<not> bit (pl_blessings p') b)"
proof -
  let ?M = "getReqMana v" and ?S = "getReqSkillTries v"
  define lost where "lost = portion (sum_mana v (pl_magLevel p) + pl_manaSpent p)"
  have "of_nat (unat (sum_mana v (pl_magLevel p) + pl_manaSpent p)) = sum_mana v (pl_magLevel p) + pl_manaSpent p"
    by simp
  then have w: "sum_mana v (pl_magLevel p) + pl_manaSpent p = of_nat (mana_points ?M p)"
    by (simp only: sum_mana_points [OF magic total])
  have "unat lost \<le> mana_points ?M p"
    unfolding lost_def using portion sum_mana_points [OF magic total] by metis
  note mana = removeManaSpent_points [OF magic this, of e False]
  define p1 where "p1 = removeManaSpent e v lost False p"
  obtain l s x where p1: "p1 = p\<lparr>pl_magLevel := l, pl_manaSpent := s, pl_magLevelPercent := x\<rparr>"
    using mana unfolding p1_def by blast
  have m1: "magic_ok ?M mcap p1" "mana_points ?M p1 = mana_points ?M p - unat lost"
    using mana unfolding p1_def by simp_all
  have ids: "set [0..<SKILL_LAST + 1] = {..<7}" by (auto simp: SKILL_LAST_def)
  obtain ss where ss: "skill_losses e v portion [0..<SKILL_LAST + 1] p1 = Some (p1\<lparr>pl_skills := ss\<rparr>)"
    "\<forall>i < 7. skill_ok (?S i) (cap i) (ss ! i) \<and>
      skill_points (?S i) (ss ! i) = skill_points (?S i) (pl_skills p ! i) - unat (portion (of_nat (skill_points (?S i) (pl_skills p ! i))))"
    using skill_losses_exact [of "[0..<SKILL_LAST + 1]" p1 v cap e portion] len skills small
    unfolding ids by (auto simp: p1)
  define p2 where "p2 = p1\<lparr>pl_skills := ss\<rparr>"
  have p2: "progress_ok p2" "pl_level p2 = pl_level p" "pl_experience p2 = pl_experience p" "pl_skills p2 = ss"
    "pl_blessings p2 = pl_blessings p" "magic_ok ?M mcap p2" "mana_points ?M p2 = mana_points ?M p - unat lost"
    using progress m1 by (simp_all add: p2_def p1 progress_ok_def)
  have g: "unat (onLoseExperience e (portion (pl_experience p2))) \<le> unat (pl_experience p2)"
    using script portion by (meson order_trans)
  note level = level_loss_progress [of p2 e portion v, OF p2(1) g]
  define p3 where "p3 = level_loss e v portion p2"
  have "\<exists>h m calls. death_losses e v portion lastHitPlayer skull p =
      Some (p3\<lparr>pl_blessings := lose_blessings lastHitPlayer (pl_blessings p), pl_calls := calls, pl_health := h, pl_mana := m\<rparr>)"
  proof -
    have ss1: "skill_losses e v portion [0..<Suc SKILL_LAST] p1 = Some p2"
      using ss(1) by (simp add: p2_def del: upt_Suc)
    have b: "pl_blessings p3 = pl_blessings p" using level p2(5) by (simp add: p3_def)
    show ?thesis
      by (rule exI [of _ "if skull then 40 else pl_healthMax p3"], rule exI [of _ "if skull then 0 else pl_manaMax p3"],
        rule exI [of _ "SendSkills # SendStats # pl_calls p3"])
        (simp add: death_losses_def Let_def lost_def [symmetric] p1_def [symmetric] ss1
          p3_def [symmetric] emit_def b del: upt_Suc)
  qed
  then obtain h m calls where r: "death_losses e v portion lastHitPlayer skull p =
      Some (p3\<lparr>pl_blessings := lose_blessings lastHitPlayer (pl_blessings p), pl_calls := calls, pl_health := h, pl_mana := m\<rparr>)"
    by blast
  have b: "\<not> bit (lose_blessings lastHitPlayer (pl_blessings p)) n"
    if "n < 5" "\<not> (bit (pl_blessings p) 5 \<and> lastHitPlayer)" for n
  proof -
    have "n = 0 \<or> n = 1 \<or> n = 2 \<or> n = 3 \<or> n = 4" using that(1) by arith
    then show ?thesis using that(2) by (auto simp: lose_blessings_def)
  qed
  let ?p' = "p3\<lparr>pl_blessings := lose_blessings lastHitPlayer (pl_blessings p), pl_calls := calls, pl_health := h, pl_mana := m\<rparr>"
  have cong: "progress_ok ?p' = progress_ok p3" "magic_ok ?M mcap ?p' = magic_ok ?M mcap p2"
    "mana_points ?M ?p' = mana_points ?M p2"
    using level by (simp_all add: p3_def progress_ok_def magic_ok_def mana_points_def)
  have "unat (pl_experience p3) = unat (pl_experience p) -
      (if voc_id v = VOCATION_NONE \<or> 7 < pl_level p then unat (onLoseExperience e (portion (pl_experience p))) else 0)"
    using level g p2(2,3) by (auto simp: p3_def unat_diff_le)
  moreover have "progress_ok p3" "unat (pl_level p3) \<le> unat (pl_level p)" "pl_skills p3 = ss"
    using level p2 by (auto simp: p3_def)
  moreover have "mana_points ?M p2 = mana_points ?M p - unat (portion (of_nat (mana_points ?M p)))"
    using p2(7) w by (simp add: lost_def)
  ultimately show ?thesis
    unfolding r option.inject using ss(2) b p2(6)
    by (intro exI [of _ ?p'] conjI) (simp_all only: cong, simp_all)
qed

subsection \<open>The promises of the component\<close>

text \<open>
  C15: the 64-bit table of experience is the sum of the points of the levels, for every level up to one
  million: the subtractions that wrap around below level six cancel, nothing overflows, and the table is
  strictly increasing.
\<close>

theorem experience_table:
  assumes "1 \<le> unat a" and "unat a < unat b" and "unat b \<le> MAX_LEVEL"
  shows "unat (getExpForLevel a) = exp_total (unat a - 1) \<and> getExpForLevel a < getExpForLevel b \<and>
    3 * int (unat (getExpForLevel a)) = 50 * (int (unat a) - 1) * (int (unat a) * int (unat a) - 5 * int (unat a) + 12)"
proof (intro conjI)
  show t: "unat (getExpForLevel a) = exp_total (unat a - 1)"
    using assms by (intro getExpForLevel_total) simp_all
  have "unat (getExpForLevel b) = exp_total (unat b - 1)"
    using assms by (intro getExpForLevel_total) simp_all
  then show "getExpForLevel a < getExpForLevel b"
    using assms by (simp add: word_less_nat_alt t exp_total_less_iff)
  obtain m where m: "unat a = m + 1" using assms(1) by (metis add.commute le_Suc_ex)
  have "3 * int (exp_total m) = 50 * (int m * (int m * int m - 3 * int m + 8))"
    using exp_total_closed [of m] by simp
  also have "\<dots> = 50 * (int (unat a) - 1) * (int (unat a) * int (unat a) - 5 * int (unat a) + 12)"
    unfolding m by (simp add: algebra_simps)
  finally show "3 * int (unat (getExpForLevel a)) =
      50 * (int (unat a) - 1) * (int (unat a) * int (unat a) - 5 * int (unat a) + 12)"
    by (simp add: t m)
qed

lemma exp_total_samples: "exp_total 1 = 100" "exp_total 7 = 4200" "exp_total 8 = 6400"
  by (simp_all add: eval_nat_numeral)

theorem experience_table_witness:
  "unat (getExpForLevel 2) = 100 \<and> getExpForLevel 2 < getExpForLevel 8"
  using experience_table [of 2 8] by (simp add: MAX_LEVEL_def)

text \<open>
  C16: gaining and losing experience keep a player at the level of its experience: the loops end at the
  level whose interval of the table holds the new sum, the sum is exact, a loss stops at zero, and
  every level gained adds the vocation's gains once to the maximum of health and mana and to the capacity.
\<close>

theorem experience_keeps_level:
  assumes "progress_ok p"
  shows "(unat (pl_experience p) + unat (onGainExperience e x) < exp_total (MAX_LEVEL - 1) \<longrightarrow>
      progress_ok (addExperience e v x p) \<and>
      unat (pl_experience (addExperience e v x p)) = unat (pl_experience p) + unat (onGainExperience e x) \<and>
      (\<exists>k. unat (pl_level (addExperience e v x p)) = unat (pl_level p) + k \<and>
        pl_healthMax (addExperience e v x p) = pl_healthMax p + of_nat k * gainHP v \<and>
        pl_manaMax (addExperience e v x p) = pl_manaMax p + of_nat k * gainMana v \<and>
        pl_capacity (addExperience e v x p) = pl_capacity p + of_nat k * gainCap v)) \<and>
    (unat (pl_experience p) < 9223372036854775808 \<and> unat (onLoseExperience e y) < 9223372036854775808 \<and> y \<noteq> 0 \<longrightarrow>
      progress_ok (removeExperience e v y p) \<and>
      unat (pl_experience (removeExperience e v y p)) = unat (pl_experience p) - unat (onLoseExperience e y) \<and>
      unat (pl_level (removeExperience e v y p)) \<le> unat (pl_level p))"
proof (intro conjI impI)
  assume "unat (pl_experience p) + unat (onGainExperience e x) < exp_total (MAX_LEVEL - 1)"
  from addExperience_growth [OF assms refl this, of v] obtain k where
    k: "same_growth (addExperience e v x p) ((gain_level v ^^ k) (p\<lparr>pl_experience := pl_experience p + onGainExperience e x\<rparr>))"
    "unat (pl_level p + of_nat k) = unat (pl_level p) + k" "progress_ok (addExperience e v x p)"
    "unat (pl_experience p + onGainExperience e x) = unat (pl_experience p) + unat (onGainExperience e x)" by blast
  show "progress_ok (addExperience e v x p)" by (rule k(3))
  show "unat (pl_experience (addExperience e v x p)) = unat (pl_experience p) + unat (onGainExperience e x)"
    using k(1,4) by (simp add: same_growth_def gain_levels_fields)
  show "\<exists>k. unat (pl_level (addExperience e v x p)) = unat (pl_level p) + k \<and>
        pl_healthMax (addExperience e v x p) = pl_healthMax p + of_nat k * gainHP v \<and>
        pl_manaMax (addExperience e v x p) = pl_manaMax p + of_nat k * gainMana v \<and>
        pl_capacity (addExperience e v x p) = pl_capacity p + of_nat k * gainCap v"
    using k(1,2) by (intro exI [of _ k]) (simp add: same_growth_def gain_levels_fields)
next
  assume a: "unat (pl_experience p) < 9223372036854775808 \<and> unat (onLoseExperience e y) < 9223372036854775808 \<and> y \<noteq> 0"
  obtain k where k: "k < unat (pl_level p)" "same_growth (removeExperience e v y p)
      ((lose_level v ^^ k) (p\<lparr>pl_experience := max_i64 0 (pl_experience p - onLoseExperience e y)\<rparr>))"
    "unat (pl_level p - of_nat k) = unat (pl_level p) - k" "progress_ok (removeExperience e v y p)"
    using removeExperience_growth [OF assms refl, of e y v] a by blast
  show "progress_ok (removeExperience e v y p)" by (rule k(4))
  show "unat (pl_experience (removeExperience e v y p)) = unat (pl_experience p) - unat (onLoseExperience e y)"
    using k(2) a by (simp add: same_growth_def lose_levels_fields unat_max_i64_sub)
  show "unat (pl_level (removeExperience e v y p)) \<le> unat (pl_level p)"
    using k(2,3) by (simp add: same_growth_def lose_levels_fields)
qed

definition sample_env :: script_env where
  "sample_env = \<lparr>share = (\<lambda>_ _. 0), onGainExperience = (\<lambda>x. x), onLoseExperience = (\<lambda>x. x),
     onGainSkillTries = (\<lambda>_ x. x), protectionLevel = 1\<rparr>"

definition sample_vocation :: vocation where
  "sample_vocation = \<lparr>voc_id = 4, gainHP = 15, gainMana = 5, gainCap = 2500, voc_baseSpeed = 220, soulMax = 100,
     skill_curve = (\<lambda>_ l. 50 * ucast l), mana_curve = (\<lambda>l. 1600 * ucast l)\<rparr>"

definition sample_player :: player where
  "sample_player = \<lparr>pl_level = 8, pl_levelPercent = 0, pl_experience = 4200, pl_health = 185, pl_healthMax = 185,
     pl_mana = 35, pl_manaMax = 35, pl_capacity = 47000, pl_inventoryWeight = 0, pl_baseSpeed = 234,
     pl_magLevel = 1, pl_magLevelPercent = 0, pl_manaSpent = 100, pl_soul = 100,
     pl_skills = replicate 7 \<lparr>sk_tries = 20, sk_level = 11, sk_percent = 0\<rparr>, pl_varStats = (\<lambda>_. 0),
     pl_blessings = 5, pl_inParty = False, flag_NotGainMana = False, flag_HasInfiniteMana = False,
     flag_SetMaxSpeed = False, flag_CannotPickupItem = False, flag_HasInfiniteCapacity = False, pl_calls = []\<rparr>"

lemma sample_progress: "progress_ok sample_player"
  by (simp add: progress_ok_def sample_player_def MAX_LEVEL_def exp_total_samples)

lemma exp_total_top: "10000 < exp_total (MAX_LEVEL - 1)"
proof -
  have "6 * int (exp_total 999999) = 100 * (999999 * (999999 * 999999 - 3 * 999999 + 8))"
    using exp_total_closed [of 999999] by simp
  then show ?thesis by (simp add: MAX_LEVEL_def)
qed

theorem experience_keeps_level_witness:
  "progress_ok (addExperience sample_env sample_vocation 5000 sample_player) \<and>
   unat (pl_experience (addExperience sample_env sample_vocation 5000 sample_player)) = 9200 \<and>
   progress_ok (removeExperience sample_env sample_vocation 5000 sample_player) \<and>
   unat (pl_experience (removeExperience sample_env sample_vocation 5000 sample_player)) = 0"
proof -
  have "unat (pl_experience sample_player) + unat (onGainExperience sample_env 5000) < exp_total (MAX_LEVEL - 1)"
    using exp_total_top by (simp add: sample_player_def sample_env_def)
  moreover have "unat (pl_experience sample_player) < 9223372036854775808 \<and>
      unat (onLoseExperience sample_env 5000) < 9223372036854775808 \<and> (5000 :: u64) \<noteq> 0"
    by (simp add: sample_player_def sample_env_def)
  ultimately show ?thesis
    using experience_keeps_level [OF sample_progress, of sample_env 5000 sample_vocation 5000]
    by (simp add: sample_player_def sample_env_def)
qed

text \<open>
  C17: losing what was gained gives back the same player: level, experience, maxima and capacity return to
  what they were, through any number of levels.  The bounds are those of the types: the experience stays
  below \<open>2 ^ 63\<close> and below what a level above \<open>N\<close> takes (\<open>N\<close> below one million), and health, mana and
  capacity as they grow up to level \<open>N\<close> stay below \<open>2 ^ 31\<close>, where the loss clamps them in a signed type.  A
  vocation with the usual gain in capacity of 2500 a level may reach every level up to 800000.
\<close>

theorem experience_roundtrip:
  assumes "progress_ok p"
    and "onGainExperience e x = g" "onLoseExperience e y = g" "y = 0 \<Longrightarrow> g = 0"
    and "unat (pl_experience p) + unat g < exp_total N" "N < MAX_LEVEL"
    and "unat (pl_experience p) + unat g < 9223372036854775808"
    and "unat (pl_healthMax p) + (N - unat (pl_level p)) * unat (gainHP v) < 2147483648"
      "unat (pl_manaMax p) + (N - unat (pl_level p)) * unat (gainMana v) < 2147483648"
      "unat (pl_capacity p) + (N - unat (pl_level p)) * unat (gainCap v) < 2147483648"
  shows "pl_level (removeExperience e v y (addExperience e v x p)) = pl_level p \<and>
    pl_experience (removeExperience e v y (addExperience e v x p)) = pl_experience p \<and>
    pl_healthMax (removeExperience e v y (addExperience e v x p)) = pl_healthMax p \<and>
    pl_manaMax (removeExperience e v y (addExperience e v x p)) = pl_manaMax p \<and>
    pl_capacity (removeExperience e v y (addExperience e v x p)) = pl_capacity p"
  using experience_roundtrip_growth [OF assms] by (simp add: same_growth_def)

theorem experience_roundtrip_witness:
  "pl_level (removeExperience sample_env sample_vocation 5000
     (addExperience sample_env sample_vocation 5000 sample_player)) = 8 \<and>
   pl_capacity (removeExperience sample_env sample_vocation 5000
     (addExperience sample_env sample_vocation 5000 sample_player)) = 47000"
proof -
  have "unat (pl_experience sample_player) + unat (5000 :: u64) < exp_total 800000"
    using exp_total_closed [of 800000] by (simp add: sample_player_def)
  then show ?thesis
    using experience_roundtrip [OF sample_progress, of sample_env 5000 5000 5000 800000 sample_vocation]
    by (simp add: sample_player_def sample_env_def sample_vocation_def MAX_LEVEL_def)
qed

theorem vitals_clamped_witness:
  "sint (pl_health (changeHealth (- 200) True sample_player)) = 0 \<and>
   ExecuteDeath \<in> set (pl_calls (changeHealth (- 200) True sample_player))"
proof -
  have "vitals_ok sample_player" by (simp add: vitals_ok_def sample_player_def getMaxHealth_def getMaxMana_def max_i32_def word_sless_alt)
  moreover have "\<not> flag_HasInfiniteMana sample_player" by (simp add: sample_player_def)
  ultimately have r: "sint (pl_health (changeHealth (- 200) True sample_player)) =
      max 0 (min (sint (getMaxHealth sample_player)) (sint (pl_health sample_player) + sint (- 200 :: i32)))"
    "ExecuteDeath \<in> set (pl_calls (changeHealth (- 200) True sample_player)) \<longleftrightarrow>
       ExecuteDeath \<in> set (pl_calls sample_player) \<or> pl_health (changeHealth (- 200) True sample_player) = 0"
    using vitals_clamped by blast+
  then have "sint (pl_health (changeHealth (- 200) True sample_player)) = 0"
    by (simp add: sample_player_def)
  moreover from this have "pl_health (changeHealth (- 200) True sample_player) = 0"
    by (simp add: signed_eq_0_iff)
  ultimately show ?thesis using r(2) by simp
qed

lemma sample_tables:
  "getReqSkillTries sample_vocation 0 = (\<lambda>l. 50 * ucast l)"
  "i < 7 \<Longrightarrow> getReqSkillTries sample_vocation i = (\<lambda>l. 50 * ucast l)"
  by (rule ext, simp add: getReqSkillTries_def sample_vocation_def SKILL_LAST_def)+

lemma sample_table_values:
  "growing (table (\<lambda>l :: u16. 50 * ucast l :: u64)) 10 13"
  "points (table (\<lambda>l :: u16. 50 * ucast l :: u64)) 10 13 0 = 1800"
  "table (\<lambda>l :: u16. 50 * ucast l :: u64) 13 = 650"
  by (simp_all add: growing_def table_def points_sum_list atLeastLessThan_upt upt_rec)

lemma sample_mana_values:
  "growing (table (getReqMana sample_vocation)) 0 3"
  "points (table (getReqMana sample_vocation)) 0 3 0 = 9600"
  by (simp_all add: growing_def table_def points_sum_list atLeastLessThan_upt upt_rec getReqMana_def sample_vocation_def)

lemma sample_skill_ok: "i < 7 \<Longrightarrow> skill_ok (getReqSkillTries sample_vocation i) 13 (pl_skills sample_player ! i)"
  by (simp add: sample_tables skill_ok_def sample_player_def sample_table_values)

lemma sample_skill_points:
  "i < 7 \<Longrightarrow> skill_points (getReqSkillTries sample_vocation i) (pl_skills sample_player ! i) = 570"
  by (simp add: sample_tables skill_points_def sample_player_def points_sum_list table_def upt_rec)

lemma sample_magic_ok: "magic_ok (getReqMana sample_vocation) 3 sample_player"
  by (simp add: magic_ok_def sample_mana_values) (simp add: getReqMana_def sample_vocation_def sample_player_def)

lemma sample_mana_points: "mana_points (getReqMana sample_vocation) sample_player = 1700"
  by (simp add: mana_points_def sample_player_def points_sum_list table_def getReqMana_def sample_vocation_def)

theorem skill_points_exact_witness:
  "(\<exists>p'. addSkillAdvance sample_env sample_vocation 0 600 sample_player = Some p' \<and>
      skill_points (getReqSkillTries sample_vocation 0) (pl_skills p' ! 0) = 1170) \<and>
   (\<exists>p'. removeSkillTries sample_env sample_vocation 0 100 False sample_player = Some p' \<and>
      skill_points (getReqSkillTries sample_vocation 0) (pl_skills p' ! 0) = 470)"
proof -
  have len: "0 < length (pl_skills sample_player)" by (simp add: sample_player_def)
  have ok: "skill_ok (getReqSkillTries sample_vocation 0) 13 (pl_skills sample_player ! 0)"
    by (rule sample_skill_ok) simp
  have pts: "skill_points (getReqSkillTries sample_vocation 0) (pl_skills sample_player ! 0) = 570"
    by (rule sample_skill_points) simp
  have total: "points (table (getReqSkillTries sample_vocation 0)) 10 13 0 < 18446744073709551616"
    by (simp add: sample_tables sample_table_values)
  note exact = skill_points_exact [OF len ok total, of sample_env 600 100 False]
  show ?thesis
    using exact by (simp add: pts) (auto simp: sample_tables sample_table_values sample_env_def)
qed

theorem mana_points_exact_witness:
  "mana_points (getReqMana sample_vocation) (addManaSpent sample_env sample_vocation 4000 sample_player) = 5700 \<and>
   mana_points (getReqMana sample_vocation) (removeManaSpent sample_env sample_vocation 300 False sample_player) = 1400"
proof -
  have "\<not> flag_NotGainMana sample_player" by (simp add: sample_player_def)
  note exact = mana_points_exact [OF sample_magic_ok this, of sample_env 4000 300 False]
  show ?thesis using exact by (simp add: sample_mana_values sample_mana_points sample_env_def)
qed

theorem death_losses_exact_witness:
  "\<exists>p'. death_losses sample_env sample_vocation (\<lambda>x. x div 10) False False sample_player = Some p' \<and>
     unat (pl_experience p') = 3780 \<and> mana_points (getReqMana sample_vocation) p' = 1530"
proof -
  have portion: "\<forall>x :: u64. unat (x div 10) \<le> unat x" by (simp add: unat_div)
  define cap :: "nat \<Rightarrow> nat" where "cap i = 13" for i
  have skills: "\<forall>i < 7. skill_ok (getReqSkillTries sample_vocation i) (cap i) (pl_skills sample_player ! i)"
    by (simp add: sample_skill_ok cap_def)
  have small: "\<forall>i < 7. table (getReqSkillTries sample_vocation i) (cap i) < 2147483648"
    by (simp add: sample_tables sample_table_values cap_def)
  have len: "length (pl_skills sample_player) = 7" by (simp add: sample_player_def)
  have script: "\<forall>x. unat (onLoseExperience sample_env x) \<le> unat x" by (simp add: sample_env_def)
  have mtotal: "points (table (getReqMana sample_vocation)) 0 3 0 < 18446744073709551616"
    by (simp add: sample_mana_values)
  have level: "7 < pl_level sample_player" "pl_experience sample_player = 4200"
    by (simp_all add: sample_player_def)
  show ?thesis
    using death_losses_exact [OF sample_progress sample_magic_ok len skills small mtotal portion script, of False False]
    by (elim exE conjE) (rule exI, rule conjI, assumption, simp add: sample_mana_points level sample_env_def)
qed

text \<open>
  Outside those bounds the losses wrap.  Taking one point of mana from a player of magic level zero with
  none spent leaves almost \<open>2 ^ 64\<close> spent, because the loop stops at level zero with an amount left; and
  losing one of three thousand million tries leaves none, because the difference passes through a 32-bit
  signed maximum.
\<close>

theorem losses_wrap:
  "pl_manaSpent (removeManaSpent sample_env sample_vocation 1 False (sample_player\<lparr>pl_magLevel := 0, pl_manaSpent := 0\<rparr>)) =
     18446744073709551615 \<and>
   (\<exists>p'. removeSkillTries sample_env (sample_vocation\<lparr>skill_curve := \<lambda>_ _. 4000000000\<rparr>) 0 1 False
      (sample_player\<lparr>pl_skills := [\<lparr>sk_tries = 3000000000, sk_level = 60, sk_percent = 0\<rparr>]\<rparr>) = Some p' \<and>
    sk_tries (pl_skills p' ! 0) = 0)"
proof (rule conjI)
  show "pl_manaSpent (removeManaSpent sample_env sample_vocation 1 False (sample_player\<lparr>pl_magLevel := 0, pl_manaSpent := 0\<rparr>)) =
     18446744073709551615"
    by (simp add: removeManaSpent_def magLevel_down_loop.simps Let_def)
  show "\<exists>p'. removeSkillTries sample_env (sample_vocation\<lparr>skill_curve := \<lambda>_ _. 4000000000\<rparr>) 0 1 False
      (sample_player\<lparr>pl_skills := [\<lparr>sk_tries = 3000000000, sk_level = 60, sk_percent = 0\<rparr>]\<rparr>) = Some p' \<and>
    sk_tries (pl_skills p' ! 0) = 0"
    by (simp add: removeSkillTries_def skill_down_loop.simps Let_def max_i32_def word_sless_alt)
qed

end
