(* ===== verification/Ordered_Map.thy ===== *)
theory Ordered_Map
  imports Main
begin

text \<open>
  \<open>std::map\<close> as the list of its entries in the order of the keys, which is the order in which a loop over
  the map visits them.  \<open>om_emplace\<close> keeps an entry that is there, \<open>om_put\<close> is the assignment through
  \<open>operator[]\<close>, \<open>om_erase\<close> the removal by key and \<open>map_of\<close> the look-up.  The locale \<open>dictionary\<close> is what
  the components rely on: they look entries up after a change, and keep a property of all entries.
\<close>

type_synonym ('k, 'v) omap = "('k \<times> 'v) list"

definition om_emplace :: "'k::linorder \<Rightarrow> 'v \<Rightarrow> ('k, 'v) omap \<Rightarrow> ('k, 'v) omap" where
  "om_emplace k v m = (if k \<in> fst ` set m then m else insort_key fst (k, v) m)"

definition om_put :: "'k::linorder \<Rightarrow> 'v \<Rightarrow> ('k, 'v) omap \<Rightarrow> ('k, 'v) omap" where
  "om_put k v m =
     (if k \<in> fst ` set m then map (\<lambda>x. (fst x, if fst x = k then v else snd x)) m else insort_key fst (k, v) m)"

definition om_erase :: "'k \<Rightarrow> ('k, 'v) omap \<Rightarrow> ('k, 'v) omap" where
  "om_erase k m = filter (\<lambda>(k', _). k' \<noteq> k) m"

definition ordered :: "('k::linorder, 'v) omap \<Rightarrow> bool" where
  "ordered m \<longleftrightarrow> sorted_wrt (<) (map fst m)"

lemma map_of_insort:
  "k \<notin> fst ` set m \<Longrightarrow> map_of (insort_key fst (k, v) m) j = (if j = k then Some v else map_of m j)"
  by (cases "j = k"; induction m) (simp_all add: split_beta)

lemma map_of_assign:
  "map_of (map (\<lambda>x. (fst x, if fst x = k then v else snd x)) m) j =
   (if j = k \<and> k \<in> fst ` set m then Some v else map_of m j)"
  by (cases "j = k"; induction m) (simp_all add: split_beta)

lemma ordered_insort: "ordered m \<Longrightarrow> k \<notin> fst ` set m \<Longrightarrow> ordered (insort_key fst (k, v) m)"
proof (induction m)
  case (Cons x m)
  have keys: "fst ` set (insort_key fst (k, v) m) = insert k (fst ` set m)" by (simp add: set_insort_key)
  show ?case
  proof (cases "k \<le> fst x")
    case True
    with Cons.prems show ?thesis by (auto simp: ordered_def)
  next
    case False
    then have "\<forall>k' \<in> fst ` set (insort_key fst (k, v) m). fst x < k'"
      using Cons.prems unfolding keys by (auto simp: ordered_def)
    with False Cons show ?thesis by (simp add: ordered_def)
  qed
qed (simp add: ordered_def)

lemma ordered_erase: "ordered m \<Longrightarrow> ordered (om_erase k m)"
  by (induction m) (auto simp: ordered_def om_erase_def)

locale dictionary =
  fixes lookup :: "'m \<Rightarrow> 'k \<Rightarrow> 'v option"
    and empty :: 'm
    and emplace put :: "'k \<Rightarrow> 'v \<Rightarrow> 'm \<Rightarrow> 'm"
    and erase :: "'k \<Rightarrow> 'm \<Rightarrow> 'm"
  assumes lookup_empty: "lookup empty k = None"
    and lookup_emplace: "lookup (emplace k v m) k' =
      (if k' = k then (case lookup m k of None \<Rightarrow> Some v | Some v' \<Rightarrow> Some v') else lookup m k')"
    and lookup_put: "lookup (put k v m) k' = (if k' = k then Some v else lookup m k')"
    and lookup_erase: "lookup (erase k m) k' = (if k' = k then None else lookup m k')"
begin

definition holds_of :: "('k \<Rightarrow> 'v \<Rightarrow> bool) \<Rightarrow> 'm \<Rightarrow> bool" where
  "holds_of P m \<longleftrightarrow> (\<forall>k v. lookup m k = Some v \<longrightarrow> P k v)"

lemma holds_ofD: "holds_of P m \<Longrightarrow> lookup m k = Some v \<Longrightarrow> P k v"
  by (simp add: holds_of_def)

lemma holds_of_empty: "holds_of P empty"
  by (simp add: holds_of_def lookup_empty)

lemma holds_of_emplace: "holds_of P m \<Longrightarrow> P k v \<Longrightarrow> holds_of P (emplace k v m)"
  by (auto simp: holds_of_def lookup_emplace split: if_splits option.splits)

lemma holds_of_put: "holds_of P m \<Longrightarrow> P k v \<Longrightarrow> holds_of P (put k v m)"
  by (auto simp: holds_of_def lookup_put split: if_splits)

lemma holds_of_erase: "holds_of P m \<Longrightarrow> holds_of (\<lambda>k' v. k' \<noteq> k \<and> P k' v) (erase k m)"
  by (auto simp: holds_of_def lookup_erase split: if_splits)

lemma holds_of_mono: "holds_of P m \<Longrightarrow> (\<And>k v. lookup m k = Some v \<Longrightarrow> P k v \<Longrightarrow> Q k v) \<Longrightarrow> holds_of Q m"
  by (auto simp: holds_of_def)

end

interpretation om: dictionary map_of "[]" om_emplace om_put om_erase
proof
  show "map_of (om_emplace k v m) k' =
      (if k' = k then (case map_of m k of None \<Rightarrow> Some v | Some v' \<Rightarrow> Some v') else map_of m k')"
    for k k' :: "'a::linorder" and v :: 'b and m
  proof (cases "k \<in> fst ` set m")
    case True
    then obtain v' where "map_of m k = Some v'" by (metis map_of_eq_None_iff not_None_eq)
    with True show ?thesis by (simp add: om_emplace_def)
  next
    case False
    then have "map_of m k = None" by (simp add: map_of_eq_None_iff)
    with False show ?thesis by (simp add: om_emplace_def map_of_insort)
  qed
  show "map_of (om_put k v m) k' = (if k' = k then Some v else map_of m k')" for k k' :: "'a::linorder" and v :: 'b and m
    by (auto simp: om_put_def map_of_insort map_of_assign)
  show "map_of (om_erase k m) k' = (if k' = k then None else map_of m k')" for k k' :: "'a::linorder" and m :: "('a \<times> 'b) list"
    by (induction m) (auto simp: om_erase_def)
qed simp

lemma ordered_emplace: "ordered m \<Longrightarrow> ordered (om_emplace k v m)"
  by (simp add: om_emplace_def ordered_insort)

lemma ordered_put:
  assumes "ordered m"
  shows "ordered (om_put k v m)"
proof (cases "k \<in> fst ` set m")
  case True
  have "map fst (map (\<lambda>x. (fst x, if fst x = k then v else snd x)) m) = map fst m" by (induction m) auto
  with assms show ?thesis by (simp only: om_put_def if_P [OF True] ordered_def)
next
  case False
  with assms show ?thesis by (simp add: om_put_def ordered_insort)
qed

lemma in_om_erase: "x \<in> set (om_erase k m) \<longleftrightarrow> x \<in> set m \<and> fst x \<noteq> k"
  by (cases x) (auto simp: om_erase_def)

lemma in_om_emplace: "x \<in> set (om_emplace k v m) \<Longrightarrow> x = (k, v) \<or> x \<in> set m"
  by (auto simp: om_emplace_def set_insort_key split: if_splits)

lemma om_erase_absent: "map_of m k = None \<Longrightarrow> om_erase k m = m"
  by (induction m) (auto simp: om_erase_def split: if_splits)

lemma om_erase_idem [simp]: "om_erase k (om_erase k m) = om_erase k m"
  by (induction m) (auto simp: om_erase_def)

lemma ordered_entry: "ordered m \<Longrightarrow> (k, v) \<in> set m \<longleftrightarrow> map_of m k = Some v"
  by (rule map_of_eq_Some_iff [symmetric]) (simp add: ordered_def strict_sorted_iff)

end
