(* ===== verification/Chat_System.thy ===== *)
theory Chat_System
  imports Ordered_Map Prelude "HOL-Library.Monad_Syntax"
begin

text \<open>
  Chat channels (chat.cpp, chat.h) and the handlers of game.cpp that use them.  A \<open>Player*\<close> is a reference
  (\<open>nat\<close>) into the players that exist; a channel keeps such references in its maps of users and invited
  players, so sending to a user whose player was deleted is the result \<open>None\<close>.  A \<open>ChatChannel*\<close> is the
  place the channel has in one of the four maps of \<open>Chat\<close>.  The channel scripts are parameters: whether
  \<open>canJoin\<close> answers true, and what \<open>onSpeak\<close> makes of the type of a message.  What the players are sent is
  logged in \<open>outbox\<close>, newest first.
\<close>

definition CHANNEL_GUILD :: u16 where "CHANNEL_GUILD = 0"
definition CHANNEL_PARTY :: u16 where "CHANNEL_PARTY = 1"
definition CHANNEL_PRIVATE :: u16 where "CHANNEL_PRIVATE = 0xFFFF"

definition TALKTYPE_CHANNEL_Y :: u8 where "TALKTYPE_CHANNEL_Y = 7"
definition TALKTYPE_CHANNEL_O :: u8 where "TALKTYPE_CHANNEL_O = 15"

record guild_info =
  gi_id :: u32
  gi_name :: string
  gi_motd :: string

record chatter =
  ct_id :: u32
  ct_guid :: u32
  ct_name :: string
  ct_guild :: "guild_info option"
  ct_rank :: "u8 option"
  ct_party :: "nat option"
  ct_premium :: bool

record channel =
  ch_id :: u16
  ch_name :: string
  ch_users :: "(u32, nat) omap"
  ch_invites :: "(u32, nat) omap"
  ch_owner :: u32
  canJoinEvent :: int
  onJoinEvent :: int
  onLeaveEvent :: int
  onSpeakEvent :: int

definition new_channel :: "u16 \<Rightarrow> string \<Rightarrow> channel" where
  "new_channel channelId name = \<lparr>ch_id = channelId, ch_name = name, ch_users = [], ch_invites = [], ch_owner = 0,
     canJoinEvent = -1, onJoinEvent = -1, onLeaveEvent = -1, onSpeakEvent = -1\<rparr>"

datatype channel_ref = NormalRef u16 | PrivateRef u16 | PartyRef nat | GuildRef u32 | DummyRef

datatype chat_out =
    ToChannel nat nat u8 string u16
  | ChannelMessage nat string u8 u16
  | SendClosePrivate nat u16
  | InvitedText nat nat
  | ExcludedText nat nat
  | GuildMotd u32
  | OpenedChannel nat u16 string
  | CreatedPrivate nat u16 string
  | JoinEvent int nat
  | LeaveEvent int nat

record chat =
  normalChannels :: "(u16, channel) omap"
  privateChannels :: "(u16, channel) omap"
  partyChannels :: "(nat, channel) omap"
  guildChannels :: "(u32, channel) omap"
  online :: "nat \<rightharpoonup> chatter"
  outbox :: "chat_out list"

record chat_scripts =
  script_canJoin :: "int \<Rightarrow> chatter \<Rightarrow> bool"
  script_onSpeak :: "int \<Rightarrow> chatter \<Rightarrow> u8 \<Rightarrow> string \<Rightarrow> bool \<times> u8"

definition post :: "chat_out \<Rightarrow> chat \<Rightarrow> chat" where
  "post x w = w\<lparr>outbox := x # outbox w\<rparr>"

text \<open>A call through a \<open>Player*\<close>: the player it points to has to exist.\<close>

definition send_to :: "nat \<Rightarrow> chat_out \<Rightarrow> chat \<Rightarrow> chat option" where
  "send_to r x w = (case online w r of None \<Rightarrow> None | Some _ \<Rightarrow> Some (post x w))"

fun send_users :: "(nat \<Rightarrow> chat_out) \<Rightarrow> (u32, nat) omap \<Rightarrow> chat \<Rightarrow> chat option" where
  "send_users x [] w = Some w"
| "send_users x ((_, r) # us) w = do { w \<leftarrow> send_to r (x r) w; send_users x us w }"

definition channel_at :: "channel_ref \<Rightarrow> chat \<Rightarrow> channel option" where
  "channel_at c w =
     (case c of
        NormalRef i \<Rightarrow> map_of (normalChannels w) i
      | PrivateRef i \<Rightarrow> map_of (privateChannels w) i
      | PartyRef q \<Rightarrow> map_of (partyChannels w) q
      | GuildRef g \<Rightarrow> map_of (guildChannels w) g
      | DummyRef \<Rightarrow> None)"

definition set_channel :: "channel_ref \<Rightarrow> channel \<Rightarrow> chat \<Rightarrow> chat" where
  "set_channel c ch w =
     (case c of
        NormalRef i \<Rightarrow> w\<lparr>normalChannels := om_put i ch (normalChannels w)\<rparr>
      | PrivateRef i \<Rightarrow> w\<lparr>privateChannels := om_put i ch (privateChannels w)\<rparr>
      | PartyRef q \<Rightarrow> w\<lparr>partyChannels := om_put q ch (partyChannels w)\<rparr>
      | GuildRef g \<Rightarrow> w\<lparr>guildChannels := om_put g ch (guildChannels w)\<rparr>
      | DummyRef \<Rightarrow> w)"

subsection \<open>One channel\<close>

definition isInvited :: "u32 \<Rightarrow> channel \<Rightarrow> bool" where
  "isInvited guid ch \<longleftrightarrow> guid = ch_owner ch \<or> map_of (ch_invites ch) guid \<noteq> None"

definition channel_removeInvite :: "u32 \<Rightarrow> channel \<Rightarrow> bool \<times> channel" where
  "channel_removeInvite guid ch =
     (map_of (ch_invites ch) guid \<noteq> None, ch\<lparr>ch_invites := om_erase guid (ch_invites ch)\<rparr>)"

definition executeCanJoinEvent :: "chat_scripts \<Rightarrow> chatter \<Rightarrow> channel \<Rightarrow> bool" where
  "executeCanJoinEvent e p ch \<longleftrightarrow> canJoinEvent ch = -1 \<or> script_canJoin e (canJoinEvent ch) p"

definition executeOnJoinEvent :: "nat \<Rightarrow> channel \<Rightarrow> chat \<Rightarrow> chat" where
  "executeOnJoinEvent r ch w = (if onJoinEvent ch = -1 then w else post (JoinEvent (onJoinEvent ch) r) w)"

definition executeOnLeaveEvent :: "nat \<Rightarrow> channel \<Rightarrow> chat \<Rightarrow> chat" where
  "executeOnLeaveEvent r ch w = (if onLeaveEvent ch = -1 then w else post (LeaveEvent (onLeaveEvent ch) r) w)"

definition executeOnSpeakEvent :: "chat_scripts \<Rightarrow> chatter \<Rightarrow> channel \<Rightarrow> u8 \<Rightarrow> string \<Rightarrow> bool \<times> u8" where
  "executeOnSpeakEvent e p ch type message =
     (if onSpeakEvent ch = -1 then (True, type) else script_onSpeak e (onSpeakEvent ch) p type message)"

definition hasUser :: "chatter \<Rightarrow> channel \<Rightarrow> bool" where
  "hasUser p ch \<longleftrightarrow> map_of (ch_users ch) (ct_id p) \<noteq> None"

definition addUser :: "chat_scripts \<Rightarrow> nat \<Rightarrow> chatter \<Rightarrow> channel_ref \<Rightarrow> channel \<Rightarrow> chat \<Rightarrow> bool \<times> chat" where
  "addUser e r p c ch w =
     (if hasUser p ch then (False, w)
      else if \<not> executeCanJoinEvent e p ch then (False, w)
      else let w = (if ch_id ch = CHANNEL_GUILD
                    then (case ct_guild p of
                            Some g \<Rightarrow> if gi_motd g \<noteq> [] then post (GuildMotd (ct_id p)) w else w
                          | None \<Rightarrow> w)
                    else w)
           in (True, set_channel c (ch\<lparr>ch_users := om_put (ct_id p) r (ch_users ch)\<rparr>) w))"

definition removeUser :: "nat \<Rightarrow> chatter \<Rightarrow> channel_ref \<Rightarrow> channel \<Rightarrow> chat \<Rightarrow> bool \<times> chat" where
  "removeUser r p c ch w =
     (if \<not> hasUser p ch then (False, w)
      else (True, executeOnLeaveEvent r ch
                    (set_channel c (ch\<lparr>ch_users := om_erase (ct_id p) (ch_users ch)\<rparr>) w)))"

definition sendToAll :: "string \<Rightarrow> u8 \<Rightarrow> channel \<Rightarrow> chat \<Rightarrow> chat option" where
  "sendToAll message type ch w = send_users (\<lambda>r. ChannelMessage r message type (ch_id ch)) (ch_users ch) w"

definition talk :: "nat \<Rightarrow> chatter \<Rightarrow> u8 \<Rightarrow> string \<Rightarrow> channel \<Rightarrow> chat \<Rightarrow> (bool \<times> chat) option" where
  "talk r p type text ch w =
     (if \<not> hasUser p ch then Some (False, w)
      else do { w \<leftarrow> send_users (\<lambda>u. ToChannel u r type text (ch_id ch)) (ch_users ch) w; Some (True, w) })"

definition closeChannel :: "channel \<Rightarrow> chat \<Rightarrow> chat option" where
  "closeChannel ch w = send_users (\<lambda>r. SendClosePrivate r (ch_id ch)) (ch_users ch) w"

definition channel_invitePlayer ::
  "nat \<Rightarrow> nat \<Rightarrow> chatter \<Rightarrow> channel_ref \<Rightarrow> channel \<Rightarrow> chat \<Rightarrow> chat" where
  "channel_invitePlayer r ir ip c ch w =
     (if map_of (ch_invites ch) (ct_guid ip) \<noteq> None then w
      else post (InvitedText r ir)
        (set_channel c (ch\<lparr>ch_invites := om_emplace (ct_guid ip) ir (ch_invites ch)\<rparr>) w))"

definition channel_excludePlayer ::
  "nat \<Rightarrow> nat \<Rightarrow> chatter \<Rightarrow> channel_ref \<Rightarrow> channel \<Rightarrow> chat \<Rightarrow> chat" where
  "channel_excludePlayer r xr xp c ch w =
     (let (removed, ch') = channel_removeInvite (ct_guid xp) ch
      in if \<not> removed then w
         else let (_, w) = removeUser xr xp c ch' (set_channel c ch' w)
              in post (SendClosePrivate xr (ch_id ch)) (post (ExcludedText r xr) w))"

subsection \<open>All channels\<close>

definition getPrivateChannel :: "chatter \<Rightarrow> chat \<Rightarrow> channel_ref option" where
  "getPrivateChannel p w =
     map_option (\<lambda>(i, _). PrivateRef i) (find (\<lambda>(_, ch). ch_owner ch = ct_guid p) (privateChannels w))"

definition getGuildChannelById :: "u32 \<Rightarrow> chat \<Rightarrow> channel_ref option" where
  "getGuildChannelById guildId w = map_option (\<lambda>_. GuildRef guildId) (map_of (guildChannels w) guildId)"

definition getChannelById :: "u16 \<Rightarrow> chat \<Rightarrow> channel_ref option" where
  "getChannelById channelId w = map_option (\<lambda>_. NormalRef channelId) (map_of (normalChannels w) channelId)"

definition getChannel :: "chat_scripts \<Rightarrow> chatter \<Rightarrow> u16 \<Rightarrow> chat \<Rightarrow> channel_ref option" where
  "getChannel e p channelId w =
     (if channelId = CHANNEL_GUILD then
        (case ct_guild p of
           Some g \<Rightarrow> if map_of (guildChannels w) (gi_id g) \<noteq> None then Some (GuildRef (gi_id g)) else None
         | None \<Rightarrow> None)
      else if channelId = CHANNEL_PARTY then
        (case ct_party p of
           Some q \<Rightarrow> if map_of (partyChannels w) q \<noteq> None then Some (PartyRef q) else None
         | None \<Rightarrow> None)
      else
        (case map_of (normalChannels w) channelId of
           Some ch \<Rightarrow> if executeCanJoinEvent e p ch then Some (NormalRef channelId) else None
         | None \<Rightarrow>
             (case map_of (privateChannels w) channelId of
                Some ch \<Rightarrow> if isInvited (ct_guid p) ch then Some (PrivateRef channelId) else None
              | None \<Rightarrow> None)))"

function free_slot :: "(u16, channel) omap \<Rightarrow> u16 \<Rightarrow> u16 option" where
  "free_slot m i =
     (if i < 10000 then if map_of m i = None then Some i else free_slot m (i + 1) else None)"
  by pat_completeness auto

termination
proof (relation "measure (\<lambda>(m, i). 10000 - unat i)")
  fix m :: "(u16, channel) omap" and i :: u16
  assume i: "i < 10000"
  then have "unat i < 10000" by (simp add: word_less_nat_alt)
  moreover from this have "unat (i + 1) = unat i + 1" by (simp add: unat_word_ariths)
  ultimately show "((m, i + 1), m, i) \<in> measure (\<lambda>(m, i). 10000 - unat i)" by simp
qed simp

definition createChannel :: "chatter \<Rightarrow> chat_scripts \<Rightarrow> u16 \<Rightarrow> chat \<Rightarrow> channel_ref option \<times> chat" where
  "createChannel p e channelId w =
     (if getChannel e p channelId w \<noteq> None then (None, w)
      else if channelId = CHANNEL_GUILD then
        (case ct_guild p of
           Some g \<Rightarrow> (Some (GuildRef (gi_id g)),
             w\<lparr>guildChannels := om_emplace (gi_id g) (new_channel channelId (gi_name g)) (guildChannels w)\<rparr>)
         | None \<Rightarrow> (None, w))
      else if channelId = CHANNEL_PARTY then
        (case ct_party p of
           Some q \<Rightarrow> (Some (PartyRef q),
             w\<lparr>partyChannels := om_emplace q (new_channel channelId ''Party'') (partyChannels w)\<rparr>)
         | None \<Rightarrow> (None, w))
      else if channelId = CHANNEL_PRIVATE then
        (if \<not> ct_premium p \<or> getPrivateChannel p w \<noteq> None then (None, w)
         else (case free_slot (privateChannels w) 100 of
                 Some i \<Rightarrow> (Some (PrivateRef i),
                   w\<lparr>privateChannels := om_emplace i
                     ((new_channel i (ct_name p @ '''s Channel''))\<lparr>ch_owner := ct_guid p\<rparr>) (privateChannels w)\<rparr>)
               | None \<Rightarrow> (None, w)))
      else (None, w))"

definition deleteChannel :: "chatter \<Rightarrow> u16 \<Rightarrow> chat \<Rightarrow> (bool \<times> chat) option" where
  "deleteChannel p channelId w =
     (if channelId = CHANNEL_GUILD then
        (case ct_guild p of
           None \<Rightarrow> Some (False, w)
         | Some g \<Rightarrow>
             if map_of (guildChannels w) (gi_id g) = None then Some (False, w)
             else Some (True, w\<lparr>guildChannels := om_erase (gi_id g) (guildChannels w)\<rparr>))
      else if channelId = CHANNEL_PARTY then
        (case ct_party p of
           None \<Rightarrow> Some (False, w)
         | Some q \<Rightarrow>
             if map_of (partyChannels w) q = None then Some (False, w)
             else Some (True, w\<lparr>partyChannels := om_erase q (partyChannels w)\<rparr>))
      else
        (case map_of (privateChannels w) channelId of
           None \<Rightarrow> Some (False, w)
         | Some ch \<Rightarrow> do {
             w \<leftarrow> closeChannel ch w;
             Some (True, w\<lparr>privateChannels := om_erase channelId (privateChannels w)\<rparr>) }))"

definition addUserToChannel ::
  "chat_scripts \<Rightarrow> nat \<Rightarrow> chatter \<Rightarrow> u16 \<Rightarrow> chat \<Rightarrow> channel_ref option \<times> chat" where
  "addUserToChannel e r p channelId w =
     (case getChannel e p channelId w of
        None \<Rightarrow> (None, w)
      | Some c \<Rightarrow>
          (case channel_at c w of
             None \<Rightarrow> (None, w)
           | Some ch \<Rightarrow> let (added, w) = addUser e r p c ch w in (if added then Some c else None, w)))"

definition removeUserFromChannel ::
  "chat_scripts \<Rightarrow> nat \<Rightarrow> chatter \<Rightarrow> u16 \<Rightarrow> chat \<Rightarrow> (bool \<times> chat) option" where
  "removeUserFromChannel e r p channelId w =
     (case getChannel e p channelId w of
        None \<Rightarrow> Some (False, w)
      | Some c \<Rightarrow>
          (case channel_at c w of
             None \<Rightarrow> Some (False, w)
           | Some ch \<Rightarrow>
               let (removed, w) = removeUser r p c ch w
               in if \<not> removed then Some (False, w)
                  else if ch_owner ch = ct_guid p
                  then do { (_, w) \<leftarrow> deleteChannel p channelId w; Some (True, w) }
                  else Some (True, w)))"

text \<open>The loops of \<open>removeUserFromAllChannels\<close>, over the entries a map had when the loop began.\<close>

fun leave_all :: "nat \<Rightarrow> chatter \<Rightarrow> channel_ref list \<Rightarrow> chat \<Rightarrow> chat" where
  "leave_all r p [] w = w"
| "leave_all r p (c # cs) w =
     leave_all r p cs (case channel_at c w of None \<Rightarrow> w | Some ch \<Rightarrow> snd (removeUser r p c ch w))"

fun leave_private :: "nat \<Rightarrow> chatter \<Rightarrow> u16 list \<Rightarrow> chat \<Rightarrow> chat option" where
  "leave_private r p [] w = Some w"
| "leave_private r p (i # is) w =
     (case map_of (privateChannels w) i of
        None \<Rightarrow> leave_private r p is w
      | Some ch \<Rightarrow>
          let ch = snd (channel_removeInvite (ct_guid p) ch);
              (_, w) = removeUser r p (PrivateRef i) ch (set_channel (PrivateRef i) ch w)
          in if ch_owner ch = ct_guid p
             then do {
               w \<leftarrow> closeChannel (the (map_of (privateChannels w) i)) w;
               leave_private r p is (w\<lparr>privateChannels := om_erase i (privateChannels w)\<rparr>) }
             else leave_private r p is w)"

definition removeUserFromAllChannels :: "nat \<Rightarrow> chatter \<Rightarrow> chat \<Rightarrow> chat option" where
  "removeUserFromAllChannels r p w =
     (let w = leave_all r p (map (NormalRef \<circ> fst) (normalChannels w)) w;
          w = leave_all r p (map (PartyRef \<circ> fst) (partyChannels w)) w;
          w = leave_all r p (map (GuildRef \<circ> fst) (guildChannels w)) w
      in leave_private r p (map fst (privateChannels w)) w)"

definition channel_talk_type :: "chatter \<Rightarrow> u16 \<Rightarrow> u8 \<Rightarrow> u8" where
  "channel_talk_type p channelId type =
     (if channelId = CHANNEL_GUILD then
        (case ct_rank p of
           Some level \<Rightarrow> if 1 < level then TALKTYPE_CHANNEL_O else TALKTYPE_CHANNEL_Y
         | None \<Rightarrow> TALKTYPE_CHANNEL_Y)
      else if channelId = CHANNEL_PRIVATE \<or> channelId = CHANNEL_PARTY then TALKTYPE_CHANNEL_Y
      else type)"

definition talkToChannel ::
  "chat_scripts \<Rightarrow> nat \<Rightarrow> chatter \<Rightarrow> u8 \<Rightarrow> string \<Rightarrow> u16 \<Rightarrow> chat \<Rightarrow> (bool \<times> chat) option" where
  "talkToChannel e r p type text channelId w =
     (case getChannel e p channelId w of
        None \<Rightarrow> Some (False, w)
      | Some c \<Rightarrow>
          (case channel_at c w of
             None \<Rightarrow> Some (False, w)
           | Some ch \<Rightarrow>
               let (answer, type) = executeOnSpeakEvent e p ch (channel_talk_type p channelId type) text
               in if \<not> answer then Some (False, w) else talk r p type text ch w))"

definition list_or_create :: "chat_scripts \<Rightarrow> chatter \<Rightarrow> u16 \<Rightarrow> chat \<Rightarrow> channel_ref list \<times> chat" where
  "list_or_create e p channelId w =
     (case getChannel e p channelId w of
        Some c \<Rightarrow> ([c], w)
      | None \<Rightarrow>
          let (c, w) = createChannel p e channelId w
          in (case c of Some c \<Rightarrow> [c] | None \<Rightarrow> [], w))"

definition getChannelList :: "chat_scripts \<Rightarrow> chatter \<Rightarrow> chat \<Rightarrow> channel_ref list \<times> chat" where
  "getChannelList e p w =
     (let (guild, w) = (if ct_guild p \<noteq> None then list_or_create e p CHANNEL_GUILD w else ([], w));
          (party, w) = (if ct_party p \<noteq> None then list_or_create e p CHANNEL_PARTY w else ([], w));
          normal = List.map_filter (\<lambda>(i, _). getChannel e p i w) (normalChannels w);
          private = map (PrivateRef \<circ> fst) (filter (\<lambda>(_, ch). isInvited (ct_guid p) ch) (privateChannels w));
          hasPrivate = list_ex (\<lambda>(_, ch). ch_owner ch = ct_guid p) (privateChannels w);
          list = guild @ party @ normal @ private
      in (if \<not> hasPrivate \<and> ct_premium p then DummyRef # list else list, w))"

subsection \<open>The handlers of the game\<close>

definition playerCreatePrivateChannel :: "chat_scripts \<Rightarrow> nat \<Rightarrow> chat \<Rightarrow> chat" where
  "playerCreatePrivateChannel e r w =
     (case online w r of
        None \<Rightarrow> w
      | Some p \<Rightarrow>
          if \<not> ct_premium p then w
          else let (c, w) = createChannel p e CHANNEL_PRIVATE w
               in (case c of
                     None \<Rightarrow> w
                   | Some c \<Rightarrow>
                       (case channel_at c w of
                          None \<Rightarrow> w
                        | Some ch \<Rightarrow>
                            let (added, w) = addUser e r p c ch w
                            in if \<not> added then w
                               else executeOnJoinEvent r ch (post (CreatedPrivate r (ch_id ch) (ch_name ch)) w))))"

definition playerChannelInvite :: "nat \<Rightarrow> nat option \<Rightarrow> chat \<Rightarrow> chat" where
  "playerChannelInvite r named w =
     (case online w r of
        None \<Rightarrow> w
      | Some p \<Rightarrow>
          (case getPrivateChannel p w of
             None \<Rightarrow> w
           | Some c \<Rightarrow>
               (case (channel_at c w, named) of
                  (Some ch, Some ir) \<Rightarrow>
                    (case online w ir of
                       None \<Rightarrow> w
                     | Some ip \<Rightarrow> if r = ir then w else channel_invitePlayer r ir ip c ch w)
                | _ \<Rightarrow> w)))"

definition playerChannelExclude :: "nat \<Rightarrow> nat option \<Rightarrow> chat \<Rightarrow> chat" where
  "playerChannelExclude r named w =
     (case online w r of
        None \<Rightarrow> w
      | Some p \<Rightarrow>
          (case getPrivateChannel p w of
             None \<Rightarrow> w
           | Some c \<Rightarrow>
               (case (channel_at c w, named) of
                  (Some ch, Some xr) \<Rightarrow>
                    (case online w xr of
                       None \<Rightarrow> w
                     | Some xp \<Rightarrow> if r = xr then w else channel_excludePlayer r xr xp c ch w)
                | _ \<Rightarrow> w)))"

definition playerOpenChannel :: "chat_scripts \<Rightarrow> nat \<Rightarrow> u16 \<Rightarrow> chat \<Rightarrow> chat" where
  "playerOpenChannel e r channelId w =
     (case online w r of
        None \<Rightarrow> w
      | Some p \<Rightarrow>
          let (c, w) = addUserToChannel e r p channelId w
          in (case c of
                None \<Rightarrow> w
              | Some c \<Rightarrow>
                  (case channel_at c w of
                     None \<Rightarrow> w
                   | Some ch \<Rightarrow> executeOnJoinEvent r ch (post (OpenedChannel r (ch_id ch) (ch_name ch)) w))))"

definition playerCloseChannel :: "chat_scripts \<Rightarrow> nat \<Rightarrow> u16 \<Rightarrow> chat \<Rightarrow> chat option" where
  "playerCloseChannel e r channelId w =
     (case online w r of
        None \<Rightarrow> Some w
      | Some p \<Rightarrow> do { (_, w) \<leftarrow> removeUserFromChannel e r p channelId w; Some w })"

definition player_sendClosePrivate :: "chat_scripts \<Rightarrow> nat \<Rightarrow> chatter \<Rightarrow> u16 \<Rightarrow> chat \<Rightarrow> chat option" where
  "player_sendClosePrivate e r p channelId w =
     do {
       w \<leftarrow> (if channelId = CHANNEL_GUILD \<or> channelId = CHANNEL_PARTY
             then do { (_, w) \<leftarrow> removeUserFromChannel e r p channelId w; Some w } else Some w);
       Some (post (SendClosePrivate r channelId) w) }"

definition player_leaves :: "nat \<Rightarrow> chat \<Rightarrow> chat option" where
  "player_leaves r w =
     (case online w r of
        None \<Rightarrow> Some w
      | Some p \<Rightarrow> do {
          w \<leftarrow> removeUserFromAllChannels r p w;
          Some (w\<lparr>online := (online w)(r := None)\<rparr>) })"

end
