(* ===== verification/Chat_Safety.thy ===== *)
theory Chat_Safety
  imports Chat_System
begin

text \<open>
  The laws of \<open>Chat_System\<close>: the invariant \<open>chat_ok\<close> (channels point to players online, private channels are
  owned, invitations cover their users), that every operation runs and keeps it, the reachable chats
  (\<open>chat_step\<close>, \<open>chat_reachable\<close>), and the properties of the component with a chat of two players.
\<close>

subsection \<open>Channels after a change\<close>

lemma channel_at_set: "channel_at c' (set_channel c ch w) = (if c' = c \<and> c \<noteq> DummyRef then Some ch else channel_at c' w)"
  by (cases c; cases c') (simp_all add: channel_at_def set_channel_def om.lookup_put)

lemma set_channel_online [simp]: "online (set_channel c ch w) = online w"
  by (cases c) (simp_all add: set_channel_def)

lemma post_fields [simp]: "channel_at c (post x w) = channel_at c w" "online (post x w) = online w"
  "privateChannels (post x w) = privateChannels w" "normalChannels (post x w) = normalChannels w"
  "partyChannels (post x w) = partyChannels w" "guildChannels (post x w) = guildChannels w"
  by (simp_all add: post_def channel_at_def split: channel_ref.split)

lemma events_fields [simp]:
  "channel_at c (executeOnLeaveEvent r ch w) = channel_at c w" "online (executeOnLeaveEvent r ch w) = online w"
  "privateChannels (executeOnLeaveEvent r ch w) = privateChannels w"
  "channel_at c (executeOnJoinEvent r ch w) = channel_at c w" "online (executeOnJoinEvent r ch w) = online w"
  "privateChannels (executeOnJoinEvent r ch w) = privateChannels w"
  by (simp_all add: executeOnLeaveEvent_def executeOnJoinEvent_def)

lemma channel_at_private: "map_of (privateChannels w) i = channel_at (PrivateRef i) w"
  by (simp add: channel_at_def)

lemma channel_at_Dummy [simp]: "channel_at DummyRef w = None"
  by (simp add: channel_at_def)

lemma send_users_defined:
  "(\<And>k r. (k, r) \<in> set us \<Longrightarrow> online w r \<noteq> None) \<Longrightarrow>
   send_users x us w = Some (w\<lparr>outbox := rev (map (x \<circ> snd) us) @ outbox w\<rparr>)"
proof (induction us arbitrary: w)
  case (Cons u us)
  obtain k r where u: "u = (k, r)" by (cases u)
  have "online w r \<noteq> None" using Cons.prems [of k r] by (simp add: u)
  then have step: "send_to r (x r) w = Some (post (x r) w)" by (auto simp: send_to_def)
  have "send_users x us (post (x r) w) = Some ((post (x r) w)\<lparr>outbox := rev (map (x \<circ> snd) us) @ outbox (post (x r) w)\<rparr>)"
    using Cons.prems by (intro Cons.IH) auto
  then show ?case by (simp add: u step post_def)
qed simp

definition erase_user :: "u32 \<Rightarrow> channel \<Rightarrow> channel" where
  "erase_user i ch = ch\<lparr>ch_users := om_erase i (ch_users ch)\<rparr>"

definition erase_guest :: "u32 \<Rightarrow> channel \<Rightarrow> channel" where
  "erase_guest g ch = ch\<lparr>ch_invites := om_erase g (ch_invites ch)\<rparr>"

lemma erase_fields [simp]:
  "ch_users (erase_user i ch) = om_erase i (ch_users ch)" "ch_invites (erase_user i ch) = ch_invites ch"
  "ch_owner (erase_user i ch) = ch_owner ch" "ch_id (erase_user i ch) = ch_id ch"
  "ch_users (erase_guest g ch) = ch_users ch" "ch_invites (erase_guest g ch) = om_erase g (ch_invites ch)"
  "ch_owner (erase_guest g ch) = ch_owner ch" "ch_id (erase_guest g ch) = ch_id ch"
  "erase_user i (erase_user i ch) = erase_user i ch"
  by (simp_all add: erase_user_def erase_guest_def)

lemma removeUser_at:
  assumes "channel_at c w = Some ch"
  shows "channel_at c' (snd (removeUser r p c ch w)) = (if c' = c then Some (erase_user (ct_id p) ch) else channel_at c' w)"
    and "online (snd (removeUser r p c ch w)) = online w"
  using assms by (auto simp: removeUser_def hasUser_def channel_at_set erase_user_def om_erase_absent)

lemma leave_all_at:
  "channel_at c (leave_all r p cs w) =
     (if c \<in> set cs then map_option (erase_user (ct_id p)) (channel_at c w) else channel_at c w)"
  and leave_all_online: "online (leave_all r p cs w) = online w"
proof (induction cs arbitrary: w)
  case (Cons d cs)
  case 1
  show ?case
    by (cases "channel_at d w"; cases "channel_at c w")
      (auto simp: Cons.IH removeUser_at split: if_splits)
next
  case (Cons d cs)
  case 2
  show ?case by (cases "channel_at d w") (simp_all add: Cons.IH removeUser_at)
qed simp_all


subsection \<open>The invariant\<close>

definition user_alive :: "(nat \<rightharpoonup> chatter) \<Rightarrow> u32 \<Rightarrow> nat \<Rightarrow> bool" where
  "user_alive on i r \<longleftrightarrow> (\<exists>p. on r = Some p \<and> ct_id p = i)"

definition guest_alive :: "(nat \<rightharpoonup> chatter) \<Rightarrow> u32 \<Rightarrow> nat \<Rightarrow> bool" where
  "guest_alive on g r \<longleftrightarrow> (\<exists>p. on r = Some p \<and> ct_guid p = g)"

definition channel_ok :: "(nat \<rightharpoonup> chatter) \<Rightarrow> channel \<Rightarrow> bool" where
  "channel_ok on ch \<longleftrightarrow> ordered (ch_users ch) \<and> om.holds_of (user_alive on) (ch_users ch) \<and>
     om.holds_of (guest_alive on) (ch_invites ch)"

definition private_ok :: "(nat \<rightharpoonup> chatter) \<Rightarrow> u16 \<Rightarrow> channel \<Rightarrow> bool" where
  "private_ok on i ch \<longleftrightarrow> 100 \<le> i \<and> i < 10000 \<and> ch_id ch = i \<and>
     (\<exists>r p. on r = Some p \<and> ct_guid p = ch_owner ch) \<and>
     (\<forall>k r p. map_of (ch_users ch) k = Some r \<longrightarrow> on r = Some p \<longrightarrow> isInvited (ct_guid p) ch)"

definition distinct_online :: "(nat \<rightharpoonup> chatter) \<Rightarrow> bool" where
  "distinct_online on \<longleftrightarrow> (\<forall>r s p q. on r = Some p \<and> on s = Some q \<and> (ct_id p = ct_id q \<or> ct_guid p = ct_guid q) \<longrightarrow> r = s)"

definition chat_ok :: "chat \<Rightarrow> bool" where
  "chat_ok w \<longleftrightarrow> distinct_online (online w) \<and> ordered (privateChannels w) \<and>
     (\<forall>c ch. channel_at c w = Some ch \<longrightarrow> channel_ok (online w) ch) \<and>
     (\<forall>c ch. channel_at c w = Some ch \<longrightarrow> (\<forall>i. c \<noteq> PrivateRef i) \<longrightarrow> ch_invites ch = []) \<and>
     (\<forall>i ch. channel_at (PrivateRef i) w = Some ch \<longrightarrow> private_ok (online w) i ch) \<and>
     (\<forall>i j ch ch'. channel_at (PrivateRef i) w = Some ch \<longrightarrow> channel_at (PrivateRef j) w = Some ch' \<longrightarrow>
        ch_owner ch = ch_owner ch' \<longrightarrow> i = j)"

lemma chat_okD:
  assumes "chat_ok w"
  shows "distinct_online (online w)" and "ordered (privateChannels w)"
    and "channel_at c w = Some ch \<Longrightarrow> channel_ok (online w) ch"
    and "channel_at c w = Some ch \<Longrightarrow> (\<And>i. c \<noteq> PrivateRef i) \<Longrightarrow> ch_invites ch = []"
    and "channel_at (PrivateRef i) w = Some ch \<Longrightarrow> private_ok (online w) i ch"
    and "channel_at (PrivateRef i) w = Some ch \<Longrightarrow> channel_at (PrivateRef j) w = Some ch' \<Longrightarrow>
      ch_owner ch = ch_owner ch' \<Longrightarrow> i = j"
  using assms unfolding chat_ok_def by blast+

lemma users_online: "channel_ok on ch \<Longrightarrow> (k, r) \<in> set (ch_users ch) \<Longrightarrow> on r \<noteq> None"
  using om.holds_ofD [of "user_alive on" "ch_users ch" k r] by (auto simp: channel_ok_def user_alive_def ordered_entry)

text \<open>A change of one channel keeps the invariant when the new channel fits.\<close>

lemma set_channel_private_ordered: "ordered (privateChannels w) \<Longrightarrow> ordered (privateChannels (set_channel c ch w))"
  by (cases c) (simp_all add: set_channel_def ordered_put)

lemma chat_ok_set:
  assumes ok: "chat_ok w" and old: "channel_at c w = Some ch"
    and new: "channel_ok (online w) ch'" "ch_owner ch' = ch_owner ch"
    and priv: "\<And>i. c = PrivateRef i \<Longrightarrow> private_ok (online w) i ch'"
    and invites: "(\<And>i. c \<noteq> PrivateRef i) \<Longrightarrow> ch_invites ch' = []"
  shows "chat_ok (set_channel c ch' w)"
proof -
  note D = chat_okD [OF ok]
  have at: "channel_at d (set_channel c ch' w) = (if d = c then Some ch' else channel_at d w)" for d
    using old by (auto simp: channel_at_set)
  have owner: "\<exists>ch1. channel_at (PrivateRef i) w = Some ch1 \<and> ch_owner ch1 = ch_owner x"
    if "channel_at (PrivateRef i) (set_channel c ch' w) = Some x" for i x
    using that old new(2) by (auto simp: at split: if_splits)
  show ?thesis
    unfolding chat_ok_def set_channel_online
  proof (intro conjI allI impI)
    show "i = j" if "channel_at (PrivateRef i) (set_channel c ch' w) = Some x"
      "channel_at (PrivateRef j) (set_channel c ch' w) = Some y" "ch_owner x = ch_owner y" for i j x y
      using owner [OF that(1)] owner [OF that(2)] that(3) D(6) by metis
  qed (use D new(1) priv invites in \<open>auto simp: at set_channel_private_ordered split: if_splits\<close>)
qed

lemma chat_ok_post [simp]: "chat_ok (post x w) = chat_ok w"
  by (simp add: chat_ok_def)

lemma chat_ok_outbox [simp]: "chat_ok (w\<lparr>outbox := x\<rparr>) = chat_ok w"
  by (simp add: chat_ok_def channel_at_def split: channel_ref.split)

lemma chat_ok_events [simp]: "chat_ok (executeOnLeaveEvent r ch w) = chat_ok w" "chat_ok (executeOnJoinEvent r ch w) = chat_ok w"
  by (simp_all add: executeOnLeaveEvent_def executeOnJoinEvent_def)


subsection \<open>The operations keep it\<close>

lemma chat_ok_sub:
  assumes ok: "chat_ok w" and at: "\<And>c ch. channel_at c w' = Some ch \<Longrightarrow> channel_at c w = Some ch"
    and on: "online w' = online w" and ord: "ordered (privateChannels w')"
  shows "chat_ok w'"
  unfolding chat_ok_def on
proof (intro conjI allI impI)
  note D = chat_okD [OF ok]
  show "distinct_online (online w)" by (rule D(1))
  show "ordered (privateChannels w')" by (rule ord)
  show "channel_ok (online w) ch" if "channel_at c w' = Some ch" for c ch by (rule D(3) [OF at [OF that]])
  show "ch_invites ch = []" if "channel_at c w' = Some ch" "\<forall>i. c \<noteq> PrivateRef i" for c ch
    using D(4) [OF at [OF that(1)]] that(2) by blast
  show "private_ok (online w) i ch" if "channel_at (PrivateRef i) w' = Some ch" for i ch
    by (rule D(5) [OF at [OF that]])
  show "i = j" if "channel_at (PrivateRef i) w' = Some x" "channel_at (PrivateRef j) w' = Some y"
    "ch_owner x = ch_owner y" for i j x y
    by (rule D(6) [OF at [OF that(1)] at [OF that(2)] that(3)])
qed

lemma chat_ok_cong:
  assumes "chat_ok w" and "\<And>c. channel_at c w' = channel_at c w" and "online w' = online w"
    and "ordered (privateChannels w')"
  shows "chat_ok w'"
  by (rule chat_ok_sub [OF assms(1) _ assms(3,4)]) (simp add: assms(2))

lemma channel_ok_add_user:
  assumes "channel_ok on ch" and "on r = Some p"
  shows "channel_ok on (ch\<lparr>ch_users := om_put (ct_id p) r (ch_users ch)\<rparr>)"
  using assms by (auto simp: channel_ok_def ordered_put user_alive_def intro!: om.holds_of_put)

lemma channel_ok_erase: "channel_ok on ch \<Longrightarrow> channel_ok on (erase_user i ch)"
  "channel_ok on ch \<Longrightarrow> channel_ok on (erase_guest g ch)"
  by (auto simp: channel_ok_def ordered_erase intro: om.holds_of_mono [OF om.holds_of_erase])

lemma private_ok_add_user:
  assumes "private_ok on i ch" and "on r = Some p" and "isInvited (ct_guid p) ch"
  shows "private_ok on i (ch\<lparr>ch_users := om_put (ct_id p) r (ch_users ch)\<rparr>)"
  using assms by (auto simp: private_ok_def om.lookup_put isInvited_def)

lemma private_ok_erase_user: "private_ok on i ch \<Longrightarrow> private_ok on i (erase_user k ch)"
  by (auto simp: private_ok_def om.lookup_erase isInvited_def)

lemma addUser_ok:
  assumes ok: "chat_ok w" and c: "channel_at c w = Some ch" and r: "online w r = Some p"
    and inv: "\<And>i. c = PrivateRef i \<Longrightarrow> isInvited (ct_guid p) ch"
  shows "chat_ok (snd (addUser e r p c ch w))"
proof -
  note D = chat_okD [OF ok]
  let ?ch = "ch\<lparr>ch_users := om_put (ct_id p) r (ch_users ch)\<rparr>"
  have set: "chat_ok (set_channel c ?ch w')" if "chat_ok w'" "channel_at c w' = Some ch" "online w' = online w" for w'
  proof (rule chat_ok_set [OF that(1,2)])
    show "channel_ok (online w') ?ch" unfolding that(3) by (rule channel_ok_add_user [OF D(3) [OF c] r])
    show "private_ok (online w') i ?ch" if "c = PrivateRef i" for i
      using private_ok_add_user [OF D(5) r inv] c that \<open>online w' = online w\<close> by simp
    show "ch_invites ?ch = []" if "\<And>i. c \<noteq> PrivateRef i" using D(4) [OF c that] by simp
  qed simp
  show ?thesis
    using set [of w] set [of "post (GuildMotd (ct_id p)) w"] ok c
    by (auto simp: addUser_def Let_def split: option.splits)
qed

lemma removeUser_ok:
  assumes ok: "chat_ok w" and c: "channel_at c w = Some ch"
  shows "chat_ok (snd (removeUser r p c ch w))"
proof -
  note D = chat_okD [OF ok]
  have "chat_ok (set_channel c (erase_user (ct_id p) ch) w)"
  proof (rule chat_ok_set [OF ok c])
    show "channel_ok (online w) (erase_user (ct_id p) ch)" by (rule channel_ok_erase [OF D(3) [OF c]])
    show "private_ok (online w) i (erase_user (ct_id p) ch)" if "c = PrivateRef i" for i
      using private_ok_erase_user D(5) c that by simp
    show "ch_invites (erase_user (ct_id p) ch) = []" if "\<And>i. c \<noteq> PrivateRef i" using D(4) [OF c that] by simp
  qed simp
  with ok show ?thesis by (simp add: removeUser_def erase_user_def)
qed

lemma getPrivateChannel_at:
  assumes "ordered (privateChannels w)" and "getPrivateChannel p w = Some c"
  shows "\<exists>i ch. c = PrivateRef i \<and> channel_at c w = Some ch \<and> ch_owner ch = ct_guid p"
proof -
  obtain x where x: "find (\<lambda>(_, ch). ch_owner ch = ct_guid p) (privateChannels w) = Some x" "c = PrivateRef (fst x)"
    using assms(2) by (auto simp: getPrivateChannel_def split_beta)
  then have "x \<in> set (privateChannels w)" "ch_owner (snd x) = ct_guid p"
    by (auto simp: find_Some_iff split_beta)
  then have "map_of (privateChannels w) (fst x) = Some (snd x)"
    using ordered_entry [OF assms(1), of "fst x" "snd x"] by simp
  with x(2) \<open>ch_owner _ = _\<close> show ?thesis by (simp add: channel_at_def)
qed

lemma getPrivateChannel_none:
  "getPrivateChannel p w = None \<Longrightarrow> channel_at (PrivateRef i) w = Some ch \<Longrightarrow> ch_owner ch \<noteq> ct_guid p"
  by (auto simp: getPrivateChannel_def channel_at_def find_None_iff dest: map_of_SomeD)

lemma invite_ok:
  assumes ok: "chat_ok w" and c: "getPrivateChannel p w = Some c" "channel_at c w = Some ch" and ir: "online w ir = Some ip"
  shows "chat_ok (channel_invitePlayer r ir ip c ch w)"
proof -
  note D = chat_okD [OF ok]
  obtain i where i: "c = PrivateRef i" using getPrivateChannel_at [OF D(2) c(1)] by blast
  let ?ch = "ch\<lparr>ch_invites := om_emplace (ct_guid ip) ir (ch_invites ch)\<rparr>"
  have ch: "channel_ok (online w) ch" "private_ok (online w) i ch" using D(3) [OF c(2)] D(5) c(2) i by simp_all
  have "chat_ok (set_channel c ?ch w)"
  proof (rule chat_ok_set [OF ok c(2)])
    show "channel_ok (online w) ?ch"
      using ch(1) ir by (auto simp: channel_ok_def guest_alive_def intro!: om.holds_of_emplace)
    show "private_ok (online w) j ?ch" if "c = PrivateRef j" for j
      using ch(2) that i by (auto simp: private_ok_def isInvited_def om.lookup_emplace split: option.splits)
    show "ch_invites ?ch = []" if "\<And>i. c \<noteq> PrivateRef i" using that i by blast
  qed simp
  with ok show ?thesis by (simp add: channel_invitePlayer_def)
qed

lemma exclude_ok:
  assumes ok: "chat_ok w" and c: "getPrivateChannel p w = Some c" "channel_at c w = Some ch"
    and r: "online w r = Some p" and xr: "online w xr = Some xp" and ne: "r \<noteq> xr"
  shows "chat_ok (channel_excludePlayer r xr xp c ch w)"
proof -
  note D = chat_okD [OF ok]
  obtain i where i: "c = PrivateRef i" and owner: "ch_owner ch = ct_guid p"
    using getPrivateChannel_at [OF D(2) c(1)] c(2) by auto
  have other: "ct_guid xp \<noteq> ct_guid p" using D(1) r xr ne unfolding distinct_online_def by blast
  let ?ch = "erase_user (ct_id xp) (erase_guest (ct_guid xp) ch)"
  have ch: "channel_ok (online w) ch" "private_ok (online w) i ch" using D(3) [OF c(2)] D(5) c(2) i by simp_all
  have left: "ct_guid q \<noteq> ct_guid xp" if "map_of (ch_users ch) k = Some s" "k \<noteq> ct_id xp" "online w s = Some q" for k s q
  proof
    assume "ct_guid q = ct_guid xp"
    then have "s = xr" using D(1) that(3) xr unfolding distinct_online_def by blast
    moreover have "ct_id q = k" using ch(1) that(1,3) om.holds_ofD [of "user_alive (online w)" "ch_users ch" k s]
      by (auto simp: channel_ok_def user_alive_def)
    ultimately show False using that(2,3) xr by simp
  qed
  have new: "chat_ok (set_channel c ?ch w)"
  proof (rule chat_ok_set [OF ok c(2)])
    show "channel_ok (online w) ?ch" using ch(1) by (intro channel_ok_erase)
    show "private_ok (online w) j ?ch" if "c = PrivateRef j" for j
      using ch(2) that i left by (auto simp: private_ok_def isInvited_def om.lookup_erase)
    show "ch_invites ?ch = []" if "\<And>i. c \<noteq> PrivateRef i" using that i by blast
  qed simp
  let ?w1 = "set_channel c (erase_guest (ct_guid xp) ch) w"
  let ?w2 = "snd (removeUser xr xp c (erase_guest (ct_guid xp) ch) ?w1)"
  have c1: "channel_at c ?w1 = Some (erase_guest (ct_guid xp) ch)" using i by (simp add: channel_at_set)
  have "chat_ok ?w2"
  proof (rule chat_ok_cong [OF new])
    show "channel_at d ?w2 = channel_at d (set_channel c ?ch w)" for d
      using removeUser_at(1) [OF c1, of d xr xp] i by (simp add: channel_at_set)
    show "ordered (privateChannels ?w2)"
      using D(2) by (simp add: removeUser_def set_channel_private_ordered)
  qed (simp add: removeUser_at [OF c1])
  with ok show ?thesis
    by (simp add: channel_excludePlayer_def channel_removeInvite_def erase_guest_def [symmetric] split_beta)
qed


lemma getChannel_at:
  assumes "getChannel e p channelId w = Some c"
  shows "\<exists>ch. channel_at c w = Some ch \<and> (\<forall>i. c = PrivateRef i \<longrightarrow> i = channelId \<and> isInvited (ct_guid p) ch)"
  using assms by (auto simp: getChannel_def channel_at_def split: if_splits option.splits)

lemma getChannel_not_Dummy: "getChannel e p channelId w \<noteq> Some DummyRef"
  by (auto simp: getChannel_def split: option.splits)

lemma closeChannel_defined:
  assumes "channel_ok (online w) ch"
  shows "closeChannel ch w = Some (w\<lparr>outbox := rev (map (\<lambda>u. SendClosePrivate (snd u) (ch_id ch)) (ch_users ch)) @ outbox w\<rparr>)"
  unfolding closeChannel_def using users_online [OF assms]
  by (subst send_users_defined) (auto simp: comp_def)

lemma deleteChannel_ok:
  assumes ok: "chat_ok w"
  shows "\<exists>b w'. deleteChannel p channelId w = Some (b, w') \<and> chat_ok w' \<and> online w' = online w"
proof -
  note D = chat_okD [OF ok]
  have other: "chat_ok (w\<lparr>guildChannels := om_erase g (guildChannels w)\<rparr>)"
    "chat_ok (w\<lparr>partyChannels := om_erase q (partyChannels w)\<rparr>)" for g q
    by (rule chat_ok_sub [OF ok], use D(2) in \<open>auto simp: channel_at_def om.lookup_erase split: channel_ref.splits if_splits\<close>)+
  show ?thesis
  proof (cases "channelId = CHANNEL_GUILD \<or> channelId = CHANNEL_PARTY")
    case True
    with ok other show ?thesis by (auto simp: deleteChannel_def split: option.splits)
  next
    case False
    show ?thesis
    proof (cases "map_of (privateChannels w) channelId")
      case None
      with False ok show ?thesis by (auto simp: deleteChannel_def)
    next
      case (Some ch)
      then have "channel_ok (online w) ch" using D(3) [of "PrivateRef channelId"] by (simp add: channel_at_def)
      then obtain w1 x where w1: "closeChannel ch w = Some w1" "w1 = w\<lparr>outbox := x\<rparr>"
        using closeChannel_defined by blast
      then have "chat_ok (w1\<lparr>privateChannels := om_erase channelId (privateChannels w1)\<rparr>)"
        using D(2) by (intro chat_ok_sub [OF ok])
          (auto simp: channel_at_def ordered_erase om.lookup_erase split: channel_ref.splits if_splits)
      with False Some w1 show ?thesis by (auto simp: deleteChannel_def)
    qed
  qed
qed

lemma removeUserFromChannel_ok:
  assumes ok: "chat_ok w"
  shows "\<exists>b w'. removeUserFromChannel e r p channelId w = Some (b, w') \<and> chat_ok w' \<and> online w' = online w"
proof (cases "getChannel e p channelId w")
  case None
  with ok show ?thesis by (auto simp: removeUserFromChannel_def)
next
  case (Some c)
  then obtain ch where c: "channel_at c w = Some ch" using getChannel_at by blast
  obtain b w1 where w1: "removeUser r p c ch w = (b, w1)" by (cases "removeUser r p c ch w")
  then have "chat_ok w1" "online w1 = online w" using removeUser_ok [OF ok c, of r p] removeUser_at(2) [OF c, of r p] by simp_all
  with deleteChannel_ok [of w1 p channelId] Some c w1 show ?thesis
    by (auto simp: removeUserFromChannel_def split_beta)
qed


lemma addUserToChannel_ok:
  assumes ok: "chat_ok w" and r: "online w r = Some p"
  shows "chat_ok (snd (addUserToChannel e r p channelId w))"
proof (cases "getChannel e p channelId w")
  case None
  with ok show ?thesis by (simp add: addUserToChannel_def)
next
  case (Some c)
  from getChannel_at [OF this] obtain ch where c: "channel_at c w = Some ch"
    "\<forall>i. c = PrivateRef i \<longrightarrow> i = channelId \<and> isInvited (ct_guid p) ch" by blast
  have "chat_ok (snd (addUser e r p c ch w))" by (rule addUser_ok [OF ok c(1) r]) (use c(2) in blast)
  with Some c show ?thesis by (simp add: addUserToChannel_def split_beta)
qed

declare free_slot.simps [simp del]

lemma free_slot_free:
  "free_slot m i = Some j \<Longrightarrow> i \<le> j \<and> j < 10000 \<and> map_of m j = None"
proof (induction m i rule: free_slot.induct)
  case (1 m i)
  show ?case
  proof (cases "i < 10000 \<and> map_of m i \<noteq> None")
    case False
    with "1.prems" show ?thesis by (auto simp: free_slot.simps [of m i] split: if_splits)
  next
    case True
    then have "free_slot m (i + 1) = Some j" using "1.prems" by (auto simp: free_slot.simps [of m i])
    then have j: "i + 1 \<le> j \<and> j < 10000 \<and> map_of m j = None" using "1.IH" True by blast
    have "unat (i + 1) = unat i + 1" using True by (simp add: word_less_nat_alt unat_word_ariths)
    then have "i \<le> j" using j by (simp add: word_le_nat_alt)
    with j show ?thesis by simp
  qed
qed

lemma new_channel_fields: "ch_invites (new_channel i name) = []" "ch_id (new_channel i name) = i"
  "ch_users (new_channel i name) = []"
  by (simp_all add: new_channel_def)

lemma channel_ok_new: "channel_ok on (new_channel i name)" "channel_ok on ((new_channel i name)\<lparr>ch_owner := g\<rparr>)"
  by (simp_all add: channel_ok_def new_channel_def ordered_def om.holds_of_empty)

lemma createChannel_ok:
  assumes ok: "chat_ok w" and r: "online w r = Some p"
    and res: "createChannel p e channelId w = (c, w')"
  shows "chat_ok w' \<and> online w' = online w \<and>
    (\<forall>d. c = Some d \<longrightarrow> (\<exists>ch. channel_at d w' = Some ch \<and> (\<forall>i. d = PrivateRef i \<longrightarrow> isInvited (ct_guid p) ch)))"
proof -
  note D = chat_okD [OF ok]
  have emplace: "chat_ok w1"
    if at: "\<And>d. channel_at d w1 = (if d = c1 \<and> channel_at c1 w = None then Some ch1 else channel_at d w)"
      and on: "online w1 = online w" and ord: "ordered (privateChannels w1)"
      and fresh: "channel_ok (online w) ch1" "ch_invites ch1 = []"
      and priv: "\<And>i. c1 = PrivateRef i \<Longrightarrow> private_ok (online w) i ch1 \<and>
        (\<forall>j ch. channel_at (PrivateRef j) w = Some ch \<longrightarrow> ch_owner ch \<noteq> ch_owner ch1)" for w1 c1 ch1
    unfolding chat_ok_def on
  proof (intro conjI allI impI)
    show "i = j" if "channel_at (PrivateRef i) w1 = Some x" "channel_at (PrivateRef j) w1 = Some y" "ch_owner x = ch_owner y" for i j x y
      using that priv D(6) [of i x j y] by (auto simp: at split: if_splits)
  qed (use D ord fresh priv in \<open>auto simp: at split: if_splits\<close>)
  consider (G) g :: guild_info where "channelId = CHANNEL_GUILD" "c = Some (GuildRef (gi_id g))"
      "w' = w\<lparr>guildChannels := om_emplace (gi_id g) (new_channel channelId (gi_name g)) (guildChannels w)\<rparr>"
    | (P) q where "c = Some (PartyRef q)"
      "w' = w\<lparr>partyChannels := om_emplace q (new_channel channelId ''Party'') (partyChannels w)\<rparr>"
    | (V) i where "getPrivateChannel p w = None" "free_slot (privateChannels w) 100 = Some i" "c = Some (PrivateRef i)"
      "w' = w\<lparr>privateChannels := om_emplace i
        ((new_channel i (ct_name p @ '''s Channel''))\<lparr>ch_owner := ct_guid p\<rparr>) (privateChannels w)\<rparr>"
    | (N) "c = None" "w' = w"
  proof (cases "getChannel e p channelId w = None")
    case False
    with res N show ?thesis by (simp add: createChannel_def)
  next
    case none: True
    consider "channelId = CHANNEL_GUILD" | "channelId \<noteq> CHANNEL_GUILD" "channelId = CHANNEL_PARTY"
      | "channelId \<noteq> CHANNEL_GUILD" "channelId \<noteq> CHANNEL_PARTY" by blast
    then show ?thesis
    proof cases
      case 1
      show ?thesis
      proof (cases "ct_guild p")
        case None
        show ?thesis by (rule N) (use res none 1 None in \<open>simp_all add: createChannel_def\<close>)
      next
        case (Some g)
        show ?thesis by (rule G [of g]) (use res none 1 Some in \<open>auto simp: createChannel_def\<close>)
      qed
    next
      case 2
      show ?thesis
      proof (cases "ct_party p")
        case None
        show ?thesis by (rule N) (use res none 2 None in \<open>simp_all add: createChannel_def\<close>)
      next
        case (Some q)
        show ?thesis by (rule P [of q]) (use res none 2 Some in \<open>auto simp: createChannel_def\<close>)
      qed
    next
      case 3
      show ?thesis
      proof (cases "channelId = CHANNEL_PRIVATE \<and> ct_premium p \<and> getPrivateChannel p w = None \<and>
          free_slot (privateChannels w) 100 \<noteq> None")
        case False
        show ?thesis by (rule N) (use res none 3 False in \<open>auto simp: createChannel_def split: if_splits option.splits\<close>)
      next
        case True
        then obtain i where "free_slot (privateChannels w) 100 = Some i" by blast
        with True res none 3 show ?thesis by (intro V [of i]) (auto simp: createChannel_def)
      qed
    qed
  qed
  then show ?thesis
  proof cases
    case G
    have "chat_ok w'"
      by (rule emplace [of w' "GuildRef (gi_id g)" "new_channel channelId (gi_name g)"])
        (use D(2) in \<open>auto simp: G(3) channel_at_def om.lookup_emplace channel_ok_new new_channel_fields
          split: channel_ref.splits option.splits\<close>)
    with G show ?thesis by (auto simp: channel_at_def om.lookup_emplace split: option.splits)
  next
    case P
    have "chat_ok w'"
      by (rule emplace [of w' "PartyRef q" "new_channel channelId ''Party''"])
        (use D(2) in \<open>auto simp: P(2) channel_at_def om.lookup_emplace channel_ok_new new_channel_fields
          split: channel_ref.splits option.splits\<close>)
    with P show ?thesis by (auto simp: channel_at_def om.lookup_emplace split: option.splits)
  next
    case V
    note slot = free_slot_free [OF V(2)]
    let ?ch = "(new_channel i (ct_name p @ '''s Channel''))\<lparr>ch_owner := ct_guid p\<rparr>"
    have "chat_ok w'"
    proof (rule emplace [of w' "PrivateRef i" ?ch])
      show "private_ok (online w) j ?ch \<and> (\<forall>j ch. channel_at (PrivateRef j) w = Some ch \<longrightarrow> ch_owner ch \<noteq> ch_owner ?ch)"
        if "PrivateRef i = PrivateRef j" for j
        using that slot r getPrivateChannel_none [OF V(1)] by (auto simp: private_ok_def new_channel_def)
    qed (use D(2) slot in \<open>auto simp: V(4) channel_at_def om.lookup_emplace channel_ok_new new_channel_fields ordered_emplace
          split: channel_ref.splits option.splits\<close>)
    with V slot show ?thesis by (auto simp: channel_at_def om.lookup_emplace isInvited_def)
  next
    case N
    with ok show ?thesis by simp
  qed
qed

subsection \<open>Leaving every channel\<close>

lemma removeUser_ordered:
  "ordered (privateChannels w) \<Longrightarrow> ordered (privateChannels (snd (removeUser r p c ch w)))"
  by (simp add: removeUser_def set_channel_private_ordered)

lemma leave_all_ordered:
  "ordered (privateChannels w) \<Longrightarrow> ordered (privateChannels (leave_all r p cs w))"
  by (induction cs arbitrary: w) (auto simp: removeUser_ordered split: option.split)

definition left_private :: "chatter \<Rightarrow> channel \<Rightarrow> channel option" where
  "left_private p ch =
     (if ch_owner ch = ct_guid p then None else Some (erase_user (ct_id p) (erase_guest (ct_guid p) ch)))"

lemma channel_at_drop:
  "channel_at d (w\<lparr>outbox := x, privateChannels := om_erase i (privateChannels w)\<rparr>) =
    (if d = PrivateRef i then None else channel_at d w)"
  by (simp add: channel_at_def om.lookup_erase split: channel_ref.split)

lemma leave_private_at:
  assumes "\<And>i ch. channel_at (PrivateRef i) w = Some ch \<Longrightarrow> channel_ok (online w) ch"
    and "ordered (privateChannels w)" and "distinct is"
  shows "\<exists>w'. leave_private r p is w = Some w' \<and> online w' = online w \<and> ordered (privateChannels w') \<and>
    (\<forall>c. channel_at c w' = (case c of
       PrivateRef i \<Rightarrow> if i \<in> set is then Option.bind (channel_at c w) (left_private p) else channel_at c w
     | _ \<Rightarrow> channel_at c w))"
  using assms
proof (induction "is" arbitrary: w)
  case Nil
  then show ?case by (auto split: channel_ref.split)
next
  case (Cons i "is")
  show ?case
  proof (cases "channel_at (PrivateRef i) w")
    case None
    obtain w' where w': "leave_private r p is w = Some w'" "online w' = online w" "ordered (privateChannels w')"
      "\<forall>c. channel_at c w' = (case c of
         PrivateRef j \<Rightarrow> if j \<in> set is then Option.bind (channel_at c w) (left_private p) else channel_at c w
       | _ \<Rightarrow> channel_at c w)"
      using Cons.IH [of w] Cons.prems by auto
    with None show ?thesis by (auto simp: channel_at_private split: channel_ref.split)
  next
    case (Some ch)
    let ?g = "erase_guest (ct_guid p) ch" and ?c = "PrivateRef i"
    let ?w1 = "set_channel ?c ?g w"
    have c1: "channel_at ?c ?w1 = Some ?g" by (simp add: channel_at_set)
    define w2 where "w2 = snd (removeUser r p ?c ?g ?w1)"
    have at2: "channel_at d w2 = (if d = ?c then Some (erase_user (ct_id p) ?g) else channel_at d w)" for d
      unfolding w2_def using removeUser_at(1) [OF c1, of d r p] by (simp add: channel_at_set)
    have on2: "online w2 = online w" unfolding w2_def using removeUser_at(2) [OF c1, of r p] by simp
    have ord2: "ordered (privateChannels w2)"
      unfolding w2_def by (intro removeUser_ordered set_channel_private_ordered Cons.prems(2))
    have ok2: "channel_ok (online w2) (erase_user (ct_id p) ?g)"
      unfolding on2 by (intro channel_ok_erase Cons.prems(1) [OF Some])
    define w3 where "w3 = (if ch_owner ch = ct_guid p
      then w2\<lparr>outbox := rev (map (\<lambda>u. SendClosePrivate (snd u) (ch_id ch)) (om_erase (ct_id p) (ch_users ch))) @ outbox w2,
              privateChannels := om_erase i (privateChannels w2)\<rparr> else w2)"
    have step: "leave_private r p (i # is) w = leave_private r p is w3"
      using Some at2 [of ?c] closeChannel_defined [OF ok2]
      by (simp add: channel_at_private channel_removeInvite_def erase_guest_def [symmetric] split_beta w2_def [symmetric] w3_def Let_def)
    have at3: "channel_at d w3 = (if d = ?c then left_private p ch else channel_at d w)" for d
      by (simp add: w3_def left_private_def at2 channel_at_drop)
    have on3: "online w3 = online w" by (simp add: w3_def on2)
    have "\<exists>w'. leave_private r p is w3 = Some w' \<and> online w' = online w3 \<and> ordered (privateChannels w') \<and>
      (\<forall>c. channel_at c w' = (case c of
         PrivateRef j \<Rightarrow> if j \<in> set is then Option.bind (channel_at c w3) (left_private p) else channel_at c w3
       | _ \<Rightarrow> channel_at c w3))"
    proof (rule Cons.IH)
      show "channel_ok (online w3) x" if "channel_at (PrivateRef j) w3 = Some x" for j x
        using that Cons.prems(1) [OF Some] Cons.prems(1) [of j x]
        by (auto simp: at3 on3 left_private_def intro!: channel_ok_erase split: if_splits)
      show "ordered (privateChannels w3)" using ord2 by (simp add: w3_def ordered_erase)
      show "distinct is" using Cons.prems(3) by simp
    qed
    moreover note on3
    moreover have "i \<notin> set is" using Cons.prems(3) by simp
    ultimately show ?thesis
      unfolding step using Some by (elim exE conjE) (rule exI, intro conjI, assumption, auto simp: at3 split: channel_ref.split)
  qed
qed

lemma fst_map_of: "map_of m k = Some v \<Longrightarrow> k \<in> fst ` set m"
  by (metis map_of_eq_None_iff option.distinct(1))

lemma listed_channels:
  "NormalRef i \<in> set (map (NormalRef \<circ> fst) (normalChannels w)) \<longleftrightarrow> channel_at (NormalRef i) w \<noteq> None"
  "PartyRef q \<in> set (map (PartyRef \<circ> fst) (partyChannels w)) \<longleftrightarrow> channel_at (PartyRef q) w \<noteq> None"
  "GuildRef g \<in> set (map (GuildRef \<circ> fst) (guildChannels w)) \<longleftrightarrow> channel_at (GuildRef g) w \<noteq> None"
  "c \<in> set (map (NormalRef \<circ> fst) m) \<Longrightarrow> \<exists>i. c = NormalRef i"
  "c \<in> set (map (PartyRef \<circ> fst) m') \<Longrightarrow> \<exists>q. c = PartyRef q"
  "c \<in> set (map (GuildRef \<circ> fst) m'') \<Longrightarrow> \<exists>g. c = GuildRef g"
  by (auto simp: channel_at_def map_of_eq_None_iff simp del: not_None_eq)

lemma removeUserFromAllChannels_at:
  assumes ok: "chat_ok w"
  shows "\<exists>w'. removeUserFromAllChannels r p w = Some w' \<and> online w' = online w \<and> ordered (privateChannels w') \<and>
    (\<forall>c. channel_at c w' = (case c of
       PrivateRef i \<Rightarrow> Option.bind (channel_at c w) (left_private p)
     | _ \<Rightarrow> map_option (erase_user (ct_id p)) (channel_at c w)))"
proof -
  note D = chat_okD [OF ok]
  define w1 where "w1 = leave_all r p (map (NormalRef \<circ> fst) (normalChannels w)) w"
  define w2 where "w2 = leave_all r p (map (PartyRef \<circ> fst) (partyChannels w1)) w1"
  define w3 where "w3 = leave_all r p (map (GuildRef \<circ> fst) (guildChannels w2)) w2"
  have at1: "channel_at c w1 = (case c of NormalRef _ \<Rightarrow> map_option (erase_user (ct_id p)) (channel_at c w) | _ \<Rightarrow> channel_at c w)" for c
    by (cases "channel_at c w"; cases c)
      (simp_all add: w1_def leave_all_at listed_channels del: set_map, auto)
  have at2: "channel_at c w2 = (case c of PartyRef _ \<Rightarrow> map_option (erase_user (ct_id p)) (channel_at c w1) | _ \<Rightarrow> channel_at c w1)" for c
    by (cases "channel_at c w1"; cases c)
      (simp_all add: w2_def leave_all_at listed_channels del: set_map, auto)
  have at3: "channel_at c w3 = (case c of GuildRef _ \<Rightarrow> map_option (erase_user (ct_id p)) (channel_at c w2) | _ \<Rightarrow> channel_at c w2)" for c
    by (cases "channel_at c w2"; cases c)
      (simp_all add: w3_def leave_all_at listed_channels del: set_map, auto)
  have at: "channel_at c w3 = (case c of PrivateRef _ \<Rightarrow> channel_at c w | _ \<Rightarrow> map_option (erase_user (ct_id p)) (channel_at c w))" for c
    by (cases c) (simp_all add: at1 at2 at3)
  have on: "online w3 = online w" by (simp add: w1_def w2_def w3_def leave_all_online)
  have ord: "ordered (privateChannels w3)"
    unfolding w1_def w2_def w3_def by (intro leave_all_ordered D(2))
  have "distinct (map fst (privateChannels w3))" using ord by (simp add: ordered_def strict_sorted_iff)
  moreover have "channel_ok (online w3) ch" if "channel_at (PrivateRef i) w3 = Some ch" for i ch
    using that D(3) by (simp add: at on)
  ultimately obtain w' where w': "leave_private r p (map fst (privateChannels w3)) w3 = Some w'"
    "online w' = online w3" "ordered (privateChannels w')"
    "\<forall>c. channel_at c w' = (case c of
       PrivateRef i \<Rightarrow> if i \<in> set (map fst (privateChannels w3)) then Option.bind (channel_at c w3) (left_private p) else channel_at c w3
     | _ \<Rightarrow> channel_at c w3)"
    using leave_private_at [of w3 "map fst (privateChannels w3)" r p] ord by blast
  have "removeUserFromAllChannels r p w = Some w'"
    unfolding removeUserFromAllChannels_def Let_def w1_def [symmetric] w2_def [symmetric] w3_def [symmetric] by (rule w'(1))
  moreover have "channel_at (PrivateRef i) w' = Option.bind (channel_at (PrivateRef i) w) (left_private p)" for i
    using w'(4) at [of "PrivateRef i"] fst_map_of [of "privateChannels w3" i]
    by (cases "channel_at (PrivateRef i) w") (auto simp: channel_at_private)
  ultimately show ?thesis
    using w' at on by (auto split: channel_ref.split)
qed

lemma left_ok:
  assumes ok: "chat_ok w" and r: "online w r = Some p"
    and on: "on = online w \<or> on = (online w)(r := None)"
  shows "\<exists>w'. removeUserFromAllChannels r p w = Some w' \<and> online w' = online w \<and> chat_ok (w'\<lparr>online := on\<rparr>)"
proof -
  note D = chat_okD [OF ok]
  obtain w1 where w1: "removeUserFromAllChannels r p w = Some w1" "online w1 = online w" "ordered (privateChannels w1)"
    and at: "\<And>c. channel_at c w1 = (case c of
       PrivateRef i \<Rightarrow> Option.bind (channel_at c w) (left_private p)
     | _ \<Rightarrow> map_option (erase_user (ct_id p)) (channel_at c w))"
    using removeUserFromAllChannels_at [OF ok, of r p] by auto
  let ?w2 = "w1\<lparr>online := on\<rparr>"
  have at2: "channel_at c ?w2 = channel_at c w1" for c
    by (simp add: channel_at_def split: channel_ref.split)
  have id: "ct_id q \<noteq> ct_id p \<and> ct_guid q \<noteq> ct_guid p" if "online w s = Some q" "s \<noteq> r" for s q
    using D(1) r that unfolding distinct_online_def by blast
  have user: "k \<noteq> ct_id p \<Longrightarrow> user_alive (online w) k s \<Longrightarrow> user_alive on k s" for k s
    using r on by (auto simp: user_alive_def)
  have guest: "g \<noteq> ct_guid p \<Longrightarrow> guest_alive (online w) g s \<Longrightarrow> guest_alive on g s" for g s
    using r on by (auto simp: guest_alive_def)
  have erased: "ordered (om_erase (ct_id p) (ch_users ch))" "om.holds_of (user_alive on) (om_erase (ct_id p) (ch_users ch))"
    "om.holds_of (guest_alive on) (om_erase (ct_guid p) (ch_invites ch))"
    if "channel_ok (online w) ch" for ch
    using that user guest
    by (auto simp: channel_ok_def ordered_erase intro: om.holds_of_mono [OF om.holds_of_erase])
  have priv: "\<exists>ch. channel_at (PrivateRef i) w = Some ch \<and> ch_owner ch \<noteq> ct_guid p \<and> x = erase_user (ct_id p) (erase_guest (ct_guid p) ch)"
    if "channel_at (PrivateRef i) w1 = Some x" for i x
    using that by (auto simp: at left_private_def bind_eq_Some_conv split: if_splits)
  have "chat_ok ?w2"
    unfolding chat_ok_def at2
  proof (intro conjI allI impI)
    show "distinct_online (online ?w2)" using D(1) on by (auto simp: distinct_online_def split: if_splits)
    show "ordered (privateChannels ?w2)" using w1(3) by simp
    show "channel_ok (online ?w2) x" if x: "channel_at c w1 = Some x" for c x
    proof (cases "\<exists>i. c = PrivateRef i")
      case True
      then obtain i ch where "channel_at (PrivateRef i) w = Some ch" "x = erase_user (ct_id p) (erase_guest (ct_guid p) ch)"
        using priv x by blast
      with erased [OF D(3)] w1(2) show ?thesis by (simp add: channel_ok_def)
    next
      case False
      then obtain ch where ch: "channel_at c w = Some ch" "x = erase_user (ct_id p) ch"
        using x by (auto simp: at split: channel_ref.splits)
      with False D(4) have "ch_invites ch = []" by blast
      with ch erased(1,2) [OF D(3) [OF ch(1)]] w1(2) show ?thesis by (simp add: channel_ok_def om.holds_of_empty)
    qed
    show "ch_invites x = []" if "channel_at c w1 = Some x" "\<forall>i. c \<noteq> PrivateRef i" for c x
      using that D(4) by (auto simp: at split: channel_ref.splits)
    show "private_ok (online ?w2) i x" if x: "channel_at (PrivateRef i) w1 = Some x" for i x
    proof -
      obtain ch where ch: "channel_at (PrivateRef i) w = Some ch" "ch_owner ch \<noteq> ct_guid p"
        "x = erase_user (ct_id p) (erase_guest (ct_guid p) ch)" using priv [OF x] by blast
      then obtain s q where owner: "online w s = Some q" "ct_guid q = ch_owner ch"
        using D(5) by (force simp: private_ok_def)
      then have "s \<noteq> r" using r ch(2) by auto
      with owner on have "on s = Some q" by auto
      with owner(2) have own: "\<exists>s q. on s = Some q \<and> ct_guid q = ch_owner ch" by blast
      have "isInvited (ct_guid q) x" if "map_of (ch_users x) k = Some s" "on s = Some q" for k s q
      proof -
        have k: "map_of (ch_users ch) k = Some s" "k \<noteq> ct_id p"
          using that(1) ch(3) by (simp_all add: om.lookup_erase split: if_splits)
        then have "user_alive (online w) k s"
          using om.holds_ofD [of "user_alive (online w)"] D(3) [OF ch(1)] by (auto simp: channel_ok_def)
        with r k(2) that(2) on have s: "s \<noteq> r" "online w s = Some q"
          by (auto simp: user_alive_def split: if_splits)
        note k(1)
        with D(5) [OF ch(1)] s(2) have "isInvited (ct_guid q) ch" using D(5) [OF ch(1)] s(2) by (auto simp: private_ok_def)
        with id [OF s(2,1)] ch(3) show ?thesis by (auto simp: isInvited_def om.lookup_erase)
      qed
      with own D(5) [OF ch(1)] ch(3) w1(2) show ?thesis by (simp add: private_ok_def)
    qed
    show "i = j" if "channel_at (PrivateRef i) w1 = Some x" "channel_at (PrivateRef j) w1 = Some y" "ch_owner x = ch_owner y" for i j x y
      using priv [OF that(1)] priv [OF that(2)] that(3) D(6) by auto
  qed
  with w1 show ?thesis by simp
qed

lemma player_leaves_ok:
  assumes "chat_ok w" and "online w r = Some p"
  shows "\<exists>w'. player_leaves r w = Some w' \<and> chat_ok w' \<and> online w' = (online w)(r := None)"
  using left_ok [OF assms, of "(online w)(r := None)"] assms(2) by (auto simp: player_leaves_def)

lemma removeUserFromAllChannels_ok:
  assumes "chat_ok w" and "online w r = Some p"
  shows "\<exists>w'. removeUserFromAllChannels r p w = Some w' \<and> chat_ok w'"
proof -
  obtain w' where w': "removeUserFromAllChannels r p w = Some w'" "online w' = online w" "chat_ok (w'\<lparr>online := online w\<rparr>)"
    using left_ok [OF assms, of "online w"] by blast
  have "w'\<lparr>online := online w\<rparr> = w'" using w'(2) by (cases w') simp
  with w' show ?thesis by simp
qed

lemma chat_ok_online:
  assumes ok: "chat_ok w" and d: "distinct_online on"
    and sup: "\<And>r p. online w r = Some p \<Longrightarrow> \<exists>q. on r = Some q \<and> ct_id q = ct_id p \<and> ct_guid q = ct_guid p"
  shows "chat_ok (w\<lparr>online := on\<rparr>)"
proof -
  note D = chat_okD [OF ok]
  have at: "channel_at c (w\<lparr>online := on\<rparr>) = channel_at c w" for c
    by (simp add: channel_at_def split: channel_ref.split)
  have user: "user_alive (online w) k s \<Longrightarrow> user_alive on k s" for k s using sup by (force simp: user_alive_def)
  have guest: "guest_alive (online w) k s \<Longrightarrow> guest_alive on k s" for k s using sup by (force simp: guest_alive_def)
  have ch: "channel_ok on x" if "channel_at c w = Some x" for c x
    using D(3) [OF that] user guest by (auto simp: channel_ok_def intro: om.holds_of_mono)
  have priv: "private_ok on i x" if x: "channel_at (PrivateRef i) w = Some x" for i x
  proof -
    note P = D(5) [OF x]
    have "isInvited (ct_guid q) x" if u: "map_of (ch_users x) k = Some s" "on s = Some q" for k s q
    proof -
      obtain p where p: "online w s = Some p"
        using om.holds_ofD [of "user_alive (online w)" "ch_users x" k s] D(3) [OF x] u(1)
        by (auto simp: channel_ok_def user_alive_def)
      with sup [OF p] u(2) have "ct_guid q = ct_guid p" by auto
      with P u(1) p show ?thesis by (auto simp: private_ok_def)
    qed
    with P sup show ?thesis unfolding private_ok_def by metis
  qed
  show ?thesis
    unfolding chat_ok_def at
  proof (intro conjI allI impI)
    show "ordered (privateChannels (w\<lparr>online := on\<rparr>))" using D(2) by simp
    show "ch_invites x = []" if "channel_at c w = Some x" "\<forall>i. c \<noteq> PrivateRef i" for c x
      using D(4) [OF that(1)] that(2) by blast
    show "i = j" if "channel_at (PrivateRef i) w = Some x" "channel_at (PrivateRef j) w = Some y" "ch_owner x = ch_owner y" for i j x y
      by (rule D(6) [OF that])
  qed (simp_all add: d ch priv)
qed


subsection \<open>Reachable chats\<close>

text \<open>
  Players log in with an id and a guid nobody online has (ids are given out once, and a second login of
  a character takes over the first), leave, and change guild, rank, party and premium status between the
  calls; every operation runs with any scripts.
\<close>

inductive chat_step :: "chat \<Rightarrow> chat \<Rightarrow> bool" where
  step_login: "online w r = None \<Longrightarrow> \<forall>s q. online w s = Some q \<longrightarrow> ct_id q \<noteq> ct_id p \<and> ct_guid q \<noteq> ct_guid p \<Longrightarrow>
    chat_step w (w\<lparr>online := (online w)(r \<mapsto> p)\<rparr>)"
| step_leave: "player_leaves r w = Some w' \<Longrightarrow> chat_step w w'"
| step_change: "online w r = Some p \<Longrightarrow> ct_id q = ct_id p \<Longrightarrow> ct_guid q = ct_guid p \<Longrightarrow>
    chat_step w (w\<lparr>online := (online w)(r \<mapsto> q)\<rparr>)"
| step_create: "chat_step w (playerCreatePrivateChannel e r w)"
| step_invite: "chat_step w (playerChannelInvite r named w)"
| step_exclude: "chat_step w (playerChannelExclude r named w)"
| step_open: "chat_step w (playerOpenChannel e r channelId w)"
| step_close: "playerCloseChannel e r channelId w = Some w' \<Longrightarrow> chat_step w w'"
| step_close_private: "online w r = Some p \<Longrightarrow> player_sendClosePrivate e r p channelId w = Some w' \<Longrightarrow> chat_step w w'"
| step_talk: "online w r = Some p \<Longrightarrow> talkToChannel e r p type text channelId w = Some (b, w') \<Longrightarrow> chat_step w w'"
| step_list: "online w r = Some p \<Longrightarrow> getChannelList e p w = (cs, w') \<Longrightarrow> chat_step w w'"
| step_takeover: "online w r = Some p \<Longrightarrow> removeUserFromAllChannels r p w = Some w' \<Longrightarrow> chat_step w w'"

inductive chat_reachable :: "chat \<Rightarrow> bool" where
  chat_start: "\<forall>(i, ch) \<in> set m. ch_users ch = [] \<and> ch_invites ch = [] \<Longrightarrow>
    chat_reachable \<lparr>normalChannels = m, privateChannels = [], partyChannels = [], guildChannels = [],
      online = Map.empty, outbox = []\<rparr>"
| chat_next: "chat_reachable w \<Longrightarrow> chat_step w w' \<Longrightarrow> chat_reachable w'"

lemma talk_defined:
  assumes ok: "chat_ok w" and c: "channel_at c w = Some ch"
  shows "talk r p type text ch w = (if hasUser p ch
    then Some (True, w\<lparr>outbox := rev (map (\<lambda>u. ToChannel (snd u) r type text (ch_id ch)) (ch_users ch)) @ outbox w\<rparr>)
    else Some (False, w))"
  using users_online [OF chat_okD(3) [OF ok c]] by (auto simp: talk_def send_users_defined comp_def)

lemma talkToChannel_ok:
  assumes ok: "chat_ok w"
  shows "\<exists>b x. talkToChannel e r p type text channelId w = Some (b, w\<lparr>outbox := x\<rparr>)"
proof (cases "getChannel e p channelId w")
  case None
  have "w = w\<lparr>outbox := outbox w\<rparr>" by simp
  with None show ?thesis unfolding talkToChannel_def by (metis option.simps(4))
next
  case (Some c)
  then obtain ch where c: "channel_at c w = Some ch" using getChannel_at by blast
  have same: "\<exists>x. w = w\<lparr>outbox := x\<rparr>" by (rule exI [of _ "outbox w"]) simp
  from Some c show ?thesis
    by (auto simp: talkToChannel_def split_beta talk_defined [OF ok c] intro!: same)
qed

lemma list_or_create_ok:
  assumes "chat_ok w" and "online w r = Some p"
  shows "chat_ok (snd (list_or_create e p channelId w)) \<and> online (snd (list_or_create e p channelId w)) = online w"
proof (cases "getChannel e p channelId w")
  case None
  obtain c w' where res: "createChannel p e channelId w = (c, w')" by (cases "createChannel p e channelId w")
  from createChannel_ok [OF assms res] None res show ?thesis by (simp add: list_or_create_def)
next
  case (Some c)
  with assms show ?thesis by (simp add: list_or_create_def)
qed

lemma removeUserFromChannel_keeps:
  "chat_ok w \<Longrightarrow> removeUserFromChannel e r p channelId w = Some (b, w') \<Longrightarrow> chat_ok w'"
  using removeUserFromChannel_ok [of w e r p channelId] by auto

lemma chat_step_ok:
  assumes "chat_step w w'" and "chat_ok w"
  shows "chat_ok w'"
  using assms
proof (cases rule: chat_step.cases)
  case (step_login r p)
  have "distinct_online ((online w)(r \<mapsto> p))"
    using chat_okD(1) [OF assms(2)] step_login(3) unfolding distinct_online_def by (auto split: if_splits) metis+
  then show ?thesis
    unfolding step_login(1) by (rule chat_ok_online [OF assms(2)]) (use step_login(2) in auto)
next
  case (step_leave r)
  then show ?thesis using player_leaves_ok [OF assms(2), of r] assms(2) by (cases "online w r") (auto simp: player_leaves_def)
next
  case (step_change r p q)
  have "distinct_online ((online w)(r \<mapsto> q))"
    using chat_okD(1) [OF assms(2)] step_change(2-4) unfolding distinct_online_def by (auto split: if_splits)
  then show ?thesis
    unfolding step_change(1) by (rule chat_ok_online [OF assms(2)]) (use step_change(2-4) in auto)
next
  case (step_create e r)
  show ?thesis
  proof (cases "online w r")
    case None
    with step_create assms(2) show ?thesis by (simp add: playerCreatePrivateChannel_def)
  next
    case (Some p)
    obtain c w1 where res: "createChannel p e CHANNEL_PRIVATE w = (c, w1)"
      by (cases "createChannel p e CHANNEL_PRIVATE w")
    note made = createChannel_ok [OF assms(2) Some res]
    have "chat_ok (snd (addUser e r p d ch w1))" if "c = Some d" "channel_at d w1 = Some ch" for d ch
      by (rule addUser_ok) (use made that Some in auto)
    with made step_create Some res assms(2) show ?thesis
      by (auto simp: playerCreatePrivateChannel_def split_beta split: option.splits)
  qed
next
  case (step_invite r named)
  then show ?thesis using assms(2)
    by (auto simp: playerChannelInvite_def intro!: invite_ok split: option.splits)
next
  case (step_exclude r named)
  then show ?thesis using assms(2)
    by (auto simp: playerChannelExclude_def intro!: exclude_ok split: option.splits)
next
  case (step_open e r channelId)
  then show ?thesis using assms(2) addUserToChannel_ok [OF assms(2)]
    by (auto simp: playerOpenChannel_def split_beta split: option.splits)
next
  case (step_close e r channelId)
  then show ?thesis using assms(2)
    by (auto simp: playerCloseChannel_def bind_eq_Some_conv split: option.splits
        dest: removeUserFromChannel_keeps [OF assms(2)])
next
  case (step_close_private r p e channelId)
  then show ?thesis using assms(2) removeUserFromChannel_ok [OF assms(2), of e r p channelId]
    by (auto simp: player_sendClosePrivate_def bind_eq_Some_conv split: if_splits)
next
  case (step_talk r p e ty msg channelId b)
  then show ?thesis using talkToChannel_ok [OF assms(2), of e r p ty msg channelId] assms(2) by auto
next
  case (step_list r p e cs)
  define w1 where "w1 = (if ct_guild p \<noteq> None then snd (list_or_create e p CHANNEL_GUILD w) else w)"
  have 1: "chat_ok w1" "online w1 r = Some p"
    using list_or_create_ok [OF assms(2) step_list(1)] assms(2) step_list(1) by (simp_all add: w1_def)
  define w2 where "w2 = (if ct_party p \<noteq> None then snd (list_or_create e p CHANNEL_PARTY w1) else w1)"
  have "chat_ok w2" using list_or_create_ok [OF 1] 1(1) by (simp add: w2_def)
  moreover have "w' = w2"
    using step_list(2) by (simp add: getChannelList_def Let_def split_beta w1_def w2_def split: if_splits)
  ultimately show ?thesis by simp
next
  case (step_takeover r p)
  then show ?thesis using removeUserFromAllChannels_ok [OF assms(2), of r p] by auto
qed

lemma chat_reachable_ok: "chat_reachable w \<Longrightarrow> chat_ok w"
proof (induction rule: chat_reachable.induct)
  case (chat_start m)
  have "ch_users ch = [] \<and> ch_invites ch = []" if "map_of m i = Some ch" for i ch
    using chat_start map_of_SomeD [OF that] by auto
  then show ?case
    by (auto simp: chat_ok_def channel_at_def distinct_online_def ordered_def channel_ok_def om.holds_of_def
        split: channel_ref.splits)
next
  case (chat_next w w')
  then show ?case using chat_step_ok by blast
qed

subsection \<open>The promises of the component\<close>

text \<open>
  C20: no channel ever keeps a pointer to a player who is gone: in every reachable state the users and the
  invited players of every channel are players online, under their own id and guid, and talking, closing a
  channel, having it closed, leaving and a take-over of the character all run without following a dangling pointer.
\<close>

theorem chat_pointers_safe:
  assumes "chat_reachable w"
  shows "(\<forall>c ch. channel_at c w = Some ch \<longrightarrow>
      (\<forall>k r. map_of (ch_users ch) k = Some r \<longrightarrow> (\<exists>p. online w r = Some p \<and> ct_id p = k)) \<and>
      (\<forall>g r. map_of (ch_invites ch) g = Some r \<longrightarrow> (\<exists>p. online w r = Some p \<and> ct_guid p = g))) \<and>
    (\<forall>e r p ty tx i. online w r = Some p \<longrightarrow>
      talkToChannel e r p ty tx i w \<noteq> None \<and> playerCloseChannel e r i w \<noteq> None \<and>
      player_sendClosePrivate e r p i w \<noteq> None \<and> player_leaves r w \<noteq> None \<and> removeUserFromAllChannels r p w \<noteq> None)"
proof -
  have ok: "chat_ok w" using assms by (rule chat_reachable_ok)
  have "\<exists>p. online w r = Some p \<and> ct_id p = k" if "channel_at c w = Some ch" "map_of (ch_users ch) k = Some r" for c ch k r
    using om.holds_ofD [of "user_alive (online w)", OF _ that(2)] chat_okD(3) [OF ok that(1)]
    by (auto simp: channel_ok_def user_alive_def)
  moreover have "\<exists>p. online w r = Some p \<and> ct_guid p = g" if "channel_at c w = Some ch" "map_of (ch_invites ch) g = Some r" for c ch g r
    using om.holds_ofD [of "guest_alive (online w)", OF _ that(2)] chat_okD(3) [OF ok that(1)]
    by (auto simp: channel_ok_def guest_alive_def)
  moreover have "talkToChannel e r p ty tx i w \<noteq> None \<and> playerCloseChannel e r i w \<noteq> None \<and>
      player_sendClosePrivate e r p i w \<noteq> None \<and> player_leaves r w \<noteq> None \<and> removeUserFromAllChannels r p w \<noteq> None"
    if "online w r = Some p" for e r p ty tx i
    using talkToChannel_ok [OF ok, of e r p ty tx i] removeUserFromChannel_ok [OF ok, of e r p i]
      player_leaves_ok [OF ok that] removeUserFromAllChannels_ok [OF ok that] that
    by (auto simp: playerCloseChannel_def player_sendClosePrivate_def)
  ultimately show ?thesis by blast
qed


text \<open>
  C22: talking reaches the members and nobody else: when a player has access to a channel, is a user of it
  and the channel's script agrees, every user gets the message exactly once, in the order of their ids;
  otherwise nobody gets anything.
\<close>

theorem talk_reaches_members:
  assumes "chat_reachable w" and "online w r = Some p"
    and "getChannel e p i w = Some c" and "channel_at c w = Some ch"
  shows "distinct (map snd (ch_users ch)) \<and> sorted_wrt (<) (map fst (ch_users ch)) \<and>
    talkToChannel e r p ty tx i w =
     (let (answer, ty') = executeOnSpeakEvent e p ch (channel_talk_type p i ty) tx
      in if answer \<and> hasUser p ch
         then Some (True, w\<lparr>outbox := rev (map (\<lambda>u. ToChannel (snd u) r ty' tx (ch_id ch)) (ch_users ch)) @ outbox w\<rparr>)
         else Some (False, w))"
proof (intro conjI)
  have ok: "chat_ok w" using assms(1) by (rule chat_reachable_ok)
  have ch: "channel_ok (online w) ch" by (rule chat_okD(3) [OF ok assms(4)])
  then show "sorted_wrt (<) (map fst (ch_users ch))" by (simp add: channel_ok_def ordered_def)
  then have keys: "distinct (map fst (ch_users ch))" by (simp add: strict_sorted_iff)
  have "inj_on snd (set (ch_users ch))"
  proof (rule inj_onI)
    fix x y
    assume xy: "x \<in> set (ch_users ch)" "y \<in> set (ch_users ch)" "snd x = snd y"
    obtain k s where x: "x = (k, s)" by (cases x)
    obtain j where y: "y = (j, s)" using xy(3) x by (cases y) simp
    have "user_alive (online w) k s" "user_alive (online w) j s"
      using xy(1,2) ch om.holds_ofD [of "user_alive (online w)" "ch_users ch"] unfolding x y
      by (auto simp: channel_ok_def ordered_entry)
    then show "x = y" by (auto simp: user_alive_def x y)
  qed
  moreover have "distinct (ch_users ch)" using keys by (simp add: distinct_map)
  ultimately show "distinct (map snd (ch_users ch))" by (simp add: distinct_map)
  show "talkToChannel e r p ty tx i w = (let (answer, ty') = executeOnSpeakEvent e p ch (channel_talk_type p i ty) tx
      in if answer \<and> hasUser p ch
         then Some (True, w\<lparr>outbox := rev (map (\<lambda>u. ToChannel (snd u) r ty' tx (ch_id ch)) (ch_users ch)) @ outbox w\<rparr>)
         else Some (False, w))"
    using assms(3,4) by (auto simp: talkToChannel_def talk_defined [OF ok assms(4)] split_beta)
qed

subsection \<open>Two players in a chat\<close>

definition no_scripts :: chat_scripts where
  "no_scripts = \<lparr>script_canJoin = (\<lambda>_ _. True), script_onSpeak = (\<lambda>_ _ ty _. (True, ty))\<rparr>"

definition ann :: chatter where
  "ann = \<lparr>ct_id = 268435457, ct_guid = 10, ct_name = ''Ann'', ct_guild = None, ct_rank = None, ct_party = Some 7, ct_premium = True\<rparr>"

definition bob :: chatter where
  "bob = \<lparr>ct_id = 268435458, ct_guid = 11, ct_name = ''Bob'', ct_guild = None, ct_rank = None, ct_party = Some 7, ct_premium = False\<rparr>"

definition ann_and_bob :: chat where
  "ann_and_bob = \<lparr>normalChannels = [], privateChannels = [], partyChannels = [], guildChannels = [],
     online = [1 \<mapsto> ann, 2 \<mapsto> bob], outbox = []\<rparr>"

lemma ann_and_bob_reachable: "chat_reachable ann_and_bob"
proof -
  define w0 where "w0 = \<lparr>normalChannels = [], privateChannels = [], partyChannels = [], guildChannels = [],
      online = Map.empty, outbox = []\<rparr>"
  have 0: "chat_reachable w0" unfolding w0_def by (rule chat_start) simp
  have 1: "chat_reachable (w0\<lparr>online := (online w0)(1 \<mapsto> ann)\<rparr>)"
    by (rule chat_next [OF 0], rule step_login) (simp_all add: w0_def)
  have "chat_reachable (w0\<lparr>online := (online w0)(1 \<mapsto> ann)\<rparr>\<lparr>online := (online (w0\<lparr>online := (online w0)(1 \<mapsto> ann)\<rparr>))(2 \<mapsto> bob)\<rparr>)"
    by (rule chat_next [OF 1], rule step_login) (simp_all add: w0_def ann_def bob_def)
  then show ?thesis by (simp add: w0_def ann_and_bob_def)
qed

definition private_chat :: chat where
  "private_chat = playerOpenChannel no_scripts 2 100 (playerChannelInvite 1 (Some 2)
     (playerCreatePrivateChannel no_scripts 1 ann_and_bob))"

lemma private_chat_reachable: "chat_reachable private_chat"
  unfolding private_chat_def
  by (intro chat_next [OF chat_next [OF chat_next [OF ann_and_bob_reachable step_create] step_invite] step_open])

lemmas chat_eval = playerCreatePrivateChannel_def createChannel_def getChannel_def getPrivateChannel_def
  free_slot.simps channel_at_def set_channel_def addUser_def hasUser_def executeCanJoinEvent_def new_channel_def
  executeOnJoinEvent_def executeOnLeaveEvent_def om_put_def om_emplace_def om_erase_def post_def playerChannelInvite_def channel_invitePlayer_def
  playerOpenChannel_def addUserToChannel_def isInvited_def CHANNEL_GUILD_def CHANNEL_PARTY_def CHANNEL_PRIVATE_def

lemma private_chat_channel:
  "map_of (privateChannels private_chat) 100 = Some \<lparr>ch_id = 100, ch_name = ''Ann's Channel'',
     ch_users = [(268435457, 1), (268435458, 2)], ch_invites = [(11, 2)], ch_owner = 10,
     canJoinEvent = -1, onJoinEvent = -1, onLeaveEvent = -1, onSpeakEvent = -1\<rparr>"
  "online private_chat = [1 \<mapsto> ann, 2 \<mapsto> bob]"
  by (simp_all add: private_chat_def ann_and_bob_def ann_def bob_def no_scripts_def chat_eval)

theorem chat_pointers_safe_witness:
  "(\<exists>p. online private_chat 2 = Some p \<and> ct_guid p = 11) \<and> player_leaves 2 private_chat \<noteq> None"
proof -
  have "channel_at (PrivateRef 100) private_chat = map_of (privateChannels private_chat) 100"
    by (simp add: channel_at_def)
  then have c: "channel_at (PrivateRef 100) private_chat = Some \<lparr>ch_id = 100, ch_name = ''Ann's Channel'',
     ch_users = [(268435457, 1), (268435458, 2)], ch_invites = [(11, 2)], ch_owner = 10,
     canJoinEvent = -1, onJoinEvent = -1, onLeaveEvent = -1, onSpeakEvent = -1\<rparr>" by (simp add: private_chat_channel)
  note safe = chat_pointers_safe [OF private_chat_reachable]
  have "\<exists>p. online private_chat 2 = Some p \<and> ct_guid p = 11"
    by (rule safe [THEN conjunct1, rule_format, OF c, THEN conjunct2, rule_format]) simp
  moreover have "online private_chat 2 = Some bob" by (simp add: private_chat_channel)
  ultimately show ?thesis using safe by blast
qed



theorem talk_reaches_members_witness:
  "\<exists>w'. talkToChannel no_scripts 2 bob 7 ''hi'' 100 private_chat = Some (True, w') \<and>
     ToChannel 1 2 7 ''hi'' 100 \<in> set (outbox w')"
proof -
  have on: "online private_chat 2 = Some bob" by (simp add: private_chat_channel)
  have get: "getChannel no_scripts bob 100 private_chat = Some (PrivateRef 100)"
  proof -
    have "normalChannels private_chat = []" by (simp add: private_chat_def ann_and_bob_def ann_def bob_def no_scripts_def chat_eval)
    then show ?thesis
      by (simp add: getChannel_def private_chat_channel CHANNEL_GUILD_def CHANNEL_PARTY_def isInvited_def bob_def)
  qed
  have at: "channel_at (PrivateRef 100) private_chat = Some \<lparr>ch_id = 100, ch_name = ''Ann's Channel'',
     ch_users = [(268435457, 1), (268435458, 2)], ch_invites = [(11, 2)], ch_owner = 10,
     canJoinEvent = -1, onJoinEvent = -1, onLeaveEvent = -1, onSpeakEvent = -1\<rparr>"
    by (simp only: channel_at_private [symmetric] private_chat_channel)
  from talk_reaches_members [OF private_chat_reachable on get at, of 7 "''hi''"] show ?thesis
    by (simp add: executeOnSpeakEvent_def channel_talk_type_def CHANNEL_GUILD_def CHANNEL_PARTY_def CHANNEL_PRIVATE_def
        hasUser_def bob_def)
qed


end
