(* ===== verification/Condition_Data.thy ===== *)
theory Condition_Data
  imports Otb_File Player_Progress
begin

text \<open>
  The conditions of creatures (condition.h, condition.cpp): the enumerations, the class hierarchy and its
  constructors, \<open>Condition::createCondition\<close>, the clock of a condition, \<open>getIcons\<close>, \<open>setParam\<close> and
  \<open>getParam\<close>.  The common members are the record \<open>condition\<close>; its field \<open>co_class\<close> holds the members of
  the derived class, so a virtual call is a case distinction on it and an inherited method is the
  fall-through branch.  Enumerations that the sources cast from integers read off a stream are words.
\<close>

subsection \<open>The enumerations\<close>

definition CONDITION_NONE :: u32 where "CONDITION_NONE = 0"
definition CONDITION_POISON :: u32 where "CONDITION_POISON = 0x1"
definition CONDITION_FIRE :: u32 where "CONDITION_FIRE = 0x2"
definition CONDITION_ENERGY :: u32 where "CONDITION_ENERGY = 0x4"
definition CONDITION_BLEEDING :: u32 where "CONDITION_BLEEDING = 0x8"
definition CONDITION_HASTE :: u32 where "CONDITION_HASTE = 0x10"
definition CONDITION_PARALYZE :: u32 where "CONDITION_PARALYZE = 0x20"
definition CONDITION_OUTFIT :: u32 where "CONDITION_OUTFIT = 0x40"
definition CONDITION_INVISIBLE :: u32 where "CONDITION_INVISIBLE = 0x80"
definition CONDITION_LIGHT :: u32 where "CONDITION_LIGHT = 0x100"
definition CONDITION_MANASHIELD :: u32 where "CONDITION_MANASHIELD = 0x200"
definition CONDITION_INFIGHT :: u32 where "CONDITION_INFIGHT = 0x400"
definition CONDITION_DRUNK :: u32 where "CONDITION_DRUNK = 0x800"
definition CONDITION_EXHAUST_WEAPON :: u32 where "CONDITION_EXHAUST_WEAPON = 0x1000"
definition CONDITION_REGENERATION :: u32 where "CONDITION_REGENERATION = 0x2000"
definition CONDITION_SOUL :: u32 where "CONDITION_SOUL = 0x4000"
definition CONDITION_DROWN :: u32 where "CONDITION_DROWN = 0x8000"
definition CONDITION_MUTED :: u32 where "CONDITION_MUTED = 0x10000"
definition CONDITION_CHANNELMUTEDTICKS :: u32 where "CONDITION_CHANNELMUTEDTICKS = 0x20000"
definition CONDITION_YELLTICKS :: u32 where "CONDITION_YELLTICKS = 0x40000"
definition CONDITION_ATTRIBUTES :: u32 where "CONDITION_ATTRIBUTES = 0x80000"
definition CONDITION_FREEZING :: u32 where "CONDITION_FREEZING = 0x100000"
definition CONDITION_DAZZLED :: u32 where "CONDITION_DAZZLED = 0x200000"
definition CONDITION_CURSED :: u32 where "CONDITION_CURSED = 0x400000"
definition CONDITION_EXHAUST_COMBAT :: u32 where "CONDITION_EXHAUST_COMBAT = 0x800000"
definition CONDITION_EXHAUST_HEAL :: u32 where "CONDITION_EXHAUST_HEAL = 0x1000000"
definition CONDITION_PACIFIED :: u32 where "CONDITION_PACIFIED = 0x2000000"
definition CONDITION_CLIPORT :: u32 where "CONDITION_CLIPORT = 0x4000000"

lemmas condition_types =
  CONDITION_NONE_def CONDITION_POISON_def CONDITION_FIRE_def
  CONDITION_ENERGY_def CONDITION_BLEEDING_def CONDITION_HASTE_def
  CONDITION_PARALYZE_def CONDITION_OUTFIT_def CONDITION_INVISIBLE_def
  CONDITION_LIGHT_def CONDITION_MANASHIELD_def CONDITION_INFIGHT_def
  CONDITION_DRUNK_def CONDITION_EXHAUST_WEAPON_def CONDITION_REGENERATION_def
  CONDITION_SOUL_def CONDITION_DROWN_def CONDITION_MUTED_def
  CONDITION_CHANNELMUTEDTICKS_def CONDITION_YELLTICKS_def CONDITION_ATTRIBUTES_def
  CONDITION_FREEZING_def CONDITION_DAZZLED_def CONDITION_CURSED_def
  CONDITION_EXHAUST_COMBAT_def CONDITION_EXHAUST_HEAL_def CONDITION_PACIFIED_def
  CONDITION_CLIPORT_def

text \<open>The marks of the serialized attributes.\<close>

definition CONDITIONATTR_TYPE :: u8 where "CONDITIONATTR_TYPE = 1"
definition CONDITIONATTR_ID :: u8 where "CONDITIONATTR_ID = 2"
definition CONDITIONATTR_TICKS :: u8 where "CONDITIONATTR_TICKS = 3"
definition CONDITIONATTR_HEALTHTICKS :: u8 where "CONDITIONATTR_HEALTHTICKS = 4"
definition CONDITIONATTR_HEALTHGAIN :: u8 where "CONDITIONATTR_HEALTHGAIN = 5"
definition CONDITIONATTR_MANATICKS :: u8 where "CONDITIONATTR_MANATICKS = 6"
definition CONDITIONATTR_MANAGAIN :: u8 where "CONDITIONATTR_MANAGAIN = 7"
definition CONDITIONATTR_DELAYED :: u8 where "CONDITIONATTR_DELAYED = 8"
definition CONDITIONATTR_OWNER :: u8 where "CONDITIONATTR_OWNER = 9"
definition CONDITIONATTR_INTERVALDATA :: u8 where "CONDITIONATTR_INTERVALDATA = 10"
definition CONDITIONATTR_SPEEDDELTA :: u8 where "CONDITIONATTR_SPEEDDELTA = 11"
definition CONDITIONATTR_FORMULA_MINA :: u8 where "CONDITIONATTR_FORMULA_MINA = 12"
definition CONDITIONATTR_FORMULA_MINB :: u8 where "CONDITIONATTR_FORMULA_MINB = 13"
definition CONDITIONATTR_FORMULA_MAXA :: u8 where "CONDITIONATTR_FORMULA_MAXA = 14"
definition CONDITIONATTR_FORMULA_MAXB :: u8 where "CONDITIONATTR_FORMULA_MAXB = 15"
definition CONDITIONATTR_LIGHTCOLOR :: u8 where "CONDITIONATTR_LIGHTCOLOR = 16"
definition CONDITIONATTR_LIGHTLEVEL :: u8 where "CONDITIONATTR_LIGHTLEVEL = 17"
definition CONDITIONATTR_LIGHTTICKS :: u8 where "CONDITIONATTR_LIGHTTICKS = 18"
definition CONDITIONATTR_LIGHTINTERVAL :: u8 where "CONDITIONATTR_LIGHTINTERVAL = 19"
definition CONDITIONATTR_SOULTICKS :: u8 where "CONDITIONATTR_SOULTICKS = 20"
definition CONDITIONATTR_SOULGAIN :: u8 where "CONDITIONATTR_SOULGAIN = 21"
definition CONDITIONATTR_SKILLS :: u8 where "CONDITIONATTR_SKILLS = 22"
definition CONDITIONATTR_STATS :: u8 where "CONDITIONATTR_STATS = 23"
definition CONDITIONATTR_OUTFIT :: u8 where "CONDITIONATTR_OUTFIT = 24"
definition CONDITIONATTR_PERIODDAMAGE :: u8 where "CONDITIONATTR_PERIODDAMAGE = 25"
definition CONDITIONATTR_ISBUFF :: u8 where "CONDITIONATTR_ISBUFF = 26"
definition CONDITIONATTR_SUBID :: u8 where "CONDITIONATTR_SUBID = 27"
definition CONDITIONATTR_ISAGGRESSIVE :: u8 where "CONDITIONATTR_ISAGGRESSIVE = 28"
definition CONDITIONATTR_DISABLEDEFENSE :: u8 where "CONDITIONATTR_DISABLEDEFENSE = 29"
definition CONDITIONATTR_SPECIALSKILLS :: u8 where "CONDITIONATTR_SPECIALSKILLS = 30"
definition CONDITIONATTR_EXPERIENCERATE :: u8 where "CONDITIONATTR_EXPERIENCERATE = 31"
definition CONDITIONATTR_HEALTHGAINPERCENT :: u8 where "CONDITIONATTR_HEALTHGAINPERCENT = 32"
definition CONDITIONATTR_MANAGAINPERCENT :: u8 where "CONDITIONATTR_MANAGAINPERCENT = 33"
definition CONDITIONATTR_CONSTANT :: u8 where "CONDITIONATTR_CONSTANT = 34"
definition CONDITIONATTR_ENDTIME :: u8 where "CONDITIONATTR_ENDTIME = 35"
definition CONDITIONATTR_END :: u8 where "CONDITIONATTR_END = 254"

lemmas condition_attrs =
  CONDITIONATTR_TYPE_def CONDITIONATTR_ID_def CONDITIONATTR_TICKS_def
  CONDITIONATTR_HEALTHTICKS_def CONDITIONATTR_HEALTHGAIN_def CONDITIONATTR_MANATICKS_def
  CONDITIONATTR_MANAGAIN_def CONDITIONATTR_DELAYED_def CONDITIONATTR_OWNER_def
  CONDITIONATTR_INTERVALDATA_def CONDITIONATTR_SPEEDDELTA_def CONDITIONATTR_FORMULA_MINA_def
  CONDITIONATTR_FORMULA_MINB_def CONDITIONATTR_FORMULA_MAXA_def CONDITIONATTR_FORMULA_MAXB_def
  CONDITIONATTR_LIGHTCOLOR_def CONDITIONATTR_LIGHTLEVEL_def CONDITIONATTR_LIGHTTICKS_def
  CONDITIONATTR_LIGHTINTERVAL_def CONDITIONATTR_SOULTICKS_def CONDITIONATTR_SOULGAIN_def
  CONDITIONATTR_SKILLS_def CONDITIONATTR_STATS_def CONDITIONATTR_OUTFIT_def
  CONDITIONATTR_PERIODDAMAGE_def CONDITIONATTR_ISBUFF_def CONDITIONATTR_SUBID_def
  CONDITIONATTR_ISAGGRESSIVE_def CONDITIONATTR_DISABLEDEFENSE_def CONDITIONATTR_SPECIALSKILLS_def
  CONDITIONATTR_EXPERIENCERATE_def CONDITIONATTR_HEALTHGAINPERCENT_def CONDITIONATTR_MANAGAINPERCENT_def
  CONDITIONATTR_CONSTANT_def CONDITIONATTR_ENDTIME_def CONDITIONATTR_END_def

definition ICON_POISON :: u32 where "ICON_POISON = 0x1"
definition ICON_BURN :: u32 where "ICON_BURN = 0x2"
definition ICON_ENERGY :: u32 where "ICON_ENERGY = 0x4"
definition ICON_DRUNK :: u32 where "ICON_DRUNK = 0x8"
definition ICON_MANASHIELD :: u32 where "ICON_MANASHIELD = 0x10"
definition ICON_PARALYZE :: u32 where "ICON_PARALYZE = 0x20"
definition ICON_HASTE :: u32 where "ICON_HASTE = 0x40"
definition ICON_SWORDS :: u32 where "ICON_SWORDS = 0x80"
definition ICON_DROWNING :: u32 where "ICON_DROWNING = 0x100"
definition ICON_FREEZING :: u32 where "ICON_FREEZING = 0x200"
definition ICON_DAZZLED :: u32 where "ICON_DAZZLED = 0x400"
definition ICON_CURSED :: u32 where "ICON_CURSED = 0x800"
definition ICON_PARTY_BUFF :: u32 where "ICON_PARTY_BUFF = 0x1000"

definition CONDITIONID_DEFAULT :: i8 where "CONDITIONID_DEFAULT = -1"
definition CONDITIONID_COMBAT :: i8 where "CONDITIONID_COMBAT = 0"

datatype ConditionParam_t =
    CONDITION_PARAM_OWNER
  | CONDITION_PARAM_TICKS
  | CONDITION_PARAM_HEALTHGAIN
  | CONDITION_PARAM_HEALTHTICKS
  | CONDITION_PARAM_MANAGAIN
  | CONDITION_PARAM_MANATICKS
  | CONDITION_PARAM_DELAYED
  | CONDITION_PARAM_SPEED
  | CONDITION_PARAM_LIGHT_LEVEL
  | CONDITION_PARAM_LIGHT_COLOR
  | CONDITION_PARAM_SOULGAIN
  | CONDITION_PARAM_SOULTICKS
  | CONDITION_PARAM_MINVALUE
  | CONDITION_PARAM_MAXVALUE
  | CONDITION_PARAM_STARTVALUE
  | CONDITION_PARAM_TICKINTERVAL
  | CONDITION_PARAM_FORCEUPDATE
  | CONDITION_PARAM_SKILL_MELEE
  | CONDITION_PARAM_SKILL_FIST
  | CONDITION_PARAM_SKILL_CLUB
  | CONDITION_PARAM_SKILL_SWORD
  | CONDITION_PARAM_SKILL_AXE
  | CONDITION_PARAM_SKILL_DISTANCE
  | CONDITION_PARAM_SKILL_SHIELD
  | CONDITION_PARAM_SKILL_FISHING
  | CONDITION_PARAM_STAT_MAXHITPOINTS
  | CONDITION_PARAM_STAT_MAXMANAPOINTS
  | CONDITION_PARAM_STAT_MAGICPOINTS
  | CONDITION_PARAM_STAT_MAXHITPOINTSPERCENT
  | CONDITION_PARAM_STAT_MAXMANAPOINTSPERCENT
  | CONDITION_PARAM_STAT_MAGICPOINTSPERCENT
  | CONDITION_PARAM_PERIODICDAMAGE
  | CONDITION_PARAM_SKILL_MELEEPERCENT
  | CONDITION_PARAM_SKILL_FISTPERCENT
  | CONDITION_PARAM_SKILL_CLUBPERCENT
  | CONDITION_PARAM_SKILL_SWORDPERCENT
  | CONDITION_PARAM_SKILL_AXEPERCENT
  | CONDITION_PARAM_SKILL_DISTANCEPERCENT
  | CONDITION_PARAM_SKILL_SHIELDPERCENT
  | CONDITION_PARAM_SKILL_FISHINGPERCENT
  | CONDITION_PARAM_BUFF_SPELL
  | CONDITION_PARAM_SUBID
  | CONDITION_PARAM_FIELD
  | CONDITION_PARAM_DISABLE_DEFENSE
  | CONDITION_PARAM_SPECIALSKILL_CRITICALHITCHANCE
  | CONDITION_PARAM_SPECIALSKILL_CRITICALHITAMOUNT
  | CONDITION_PARAM_SPECIALSKILL_LIFELEECHCHANCE
  | CONDITION_PARAM_SPECIALSKILL_LIFELEECHAMOUNT
  | CONDITION_PARAM_SPECIALSKILL_MANALEECHCHANCE
  | CONDITION_PARAM_SPECIALSKILL_MANALEECHAMOUNT
  | CONDITION_PARAM_AGGRESSIVE
  | CONDITION_PARAM_DRUNKENNESS
  | CONDITION_PARAM_EXPERIENCERATE_BASE
  | CONDITION_PARAM_EXPERIENCERATE_LOW_LEVEL
  | CONDITION_PARAM_EXPERIENCERATE_BONUS
  | CONDITION_PARAM_EXPERIENCERATE_STAMINA
  | CONDITION_PARAM_HEALTHGAINPERCENT
  | CONDITION_PARAM_MANAGAINPERCENT

subsection \<open>The classes\<close>

record interval_info =
  ii_timeLeft :: i32
  ii_value :: i32
  ii_interval :: i32

text \<open>The object representation of \<open>Outfit_t\<close> has one byte of padding at its end.\<close>

record outfit =
  lookType :: u16
  lookTypeEx :: u16
  lookMount :: u16
  lookHead :: u8
  lookBody :: u8
  lookLegs :: u8
  lookFeet :: u8
  lookAddons :: u8
  look_padding :: u8

record light_info =
  li_level :: u8
  li_color :: u8

record attributes =
  at_skills :: "i32 list"
  at_skillsPercent :: "i32 list"
  at_specialSkills :: "i32 list"
  at_stats :: "i32 list"
  at_statsPercent :: "i32 list"
  at_experienceRate :: "i32 list"
  at_currentSkill :: nat
  at_currentSpecialSkill :: nat
  at_currentStat :: nat
  at_currentExperienceRate :: nat
  at_disableDefense :: bool

record regeneration =
  rg_internalHealthTicks :: u32
  rg_internalManaTicks :: u32
  rg_healthTicks :: u32
  rg_manaTicks :: u32
  rg_healthGain :: u32
  rg_healthGainPercent :: u32
  rg_manaGain :: u32
  rg_manaGainPercent :: u32

record soul =
  so_internalSoulTicks :: u32
  so_soulTicks :: u32
  so_soulGain :: u32

record damage =
  da_maxDamage :: i32
  da_minDamage :: i32
  da_startDamage :: i32
  da_periodDamage :: i32
  da_periodDamageTick :: i32
  da_tickInterval :: i32
  da_initDamage :: i32
  da_forceUpdate :: bool
  da_delayed :: bool
  da_field :: bool
  da_owner :: u32
  da_damageList :: "interval_info list"

text \<open>The four factors of the speed formula are floats; only their bytes are used here.\<close>

record speed =
  sp_speedDelta :: i32
  sp_mina :: u32
  sp_minb :: u32
  sp_maxa :: u32
  sp_maxb :: u32

record light =
  lg_lightInfo :: light_info
  lg_internalLightTicks :: u32
  lg_lightChangeInterval :: u32

datatype condition_class =
    ConditionGeneric
  | ConditionAttributes attributes
  | ConditionRegeneration regeneration
  | ConditionSoul soul
  | ConditionInvisible
  | ConditionDamage damage
  | ConditionSpeed speed
  | ConditionOutfit outfit
  | ConditionLight light
  | ConditionDrunk u8

record condition =
  co_id :: i8
  co_type :: u32
  co_subId :: u32
  co_ticks :: i32
  co_endTime :: i64
  co_isBuff :: bool
  co_aggressive :: bool
  co_constant :: bool
  co_class :: condition_class

definition new_condition :: "i8 \<Rightarrow> u32 \<Rightarrow> i32 \<Rightarrow> bool \<Rightarrow> u32 \<Rightarrow> bool \<Rightarrow> condition_class \<Rightarrow> condition" where
  "new_condition cid type ticks buff subId aggressive cls =
     \<lparr>co_id = cid, co_type = type, co_subId = subId, co_ticks = ticks,
      co_endTime = (if ticks = -1 then 0x7FFFFFFFFFFFFFFF else 0),
      co_isBuff = buff, co_aggressive = aggressive, co_constant = False, co_class = cls\<rparr>"

definition new_attributes :: attributes where
  "new_attributes =
     \<lparr>at_skills = replicate 7 0, at_skillsPercent = replicate 7 0, at_specialSkills = replicate 6 0,
      at_stats = replicate 4 0, at_statsPercent = replicate 4 0, at_experienceRate = replicate 5 0,
      at_currentSkill = 0, at_currentSpecialSkill = 0, at_currentStat = 0, at_currentExperienceRate = 0,
      at_disableDefense = False\<rparr>"

definition new_regeneration :: regeneration where
  "new_regeneration =
     \<lparr>rg_internalHealthTicks = 0, rg_internalManaTicks = 0, rg_healthTicks = 1000, rg_manaTicks = 1000,
      rg_healthGain = 0, rg_healthGainPercent = 0, rg_manaGain = 0, rg_manaGainPercent = 0\<rparr>"

definition new_soul :: soul where
  "new_soul = \<lparr>so_internalSoulTicks = 0, so_soulTicks = 0, so_soulGain = 0\<rparr>"

definition new_damage :: damage where
  "new_damage =
     \<lparr>da_maxDamage = 0, da_minDamage = 0, da_startDamage = 0, da_periodDamage = 0, da_periodDamageTick = 0,
      da_tickInterval = 2000, da_initDamage = 0, da_forceUpdate = False, da_delayed = False,
      da_field = False, da_owner = 0, da_damageList = []\<rparr>"

definition new_speed :: "i32 \<Rightarrow> speed" where
  "new_speed changeSpeed = \<lparr>sp_speedDelta = changeSpeed, sp_mina = 0, sp_minb = 0, sp_maxa = 0, sp_maxb = 0\<rparr>"

definition new_outfit :: outfit where
  "new_outfit =
     \<lparr>lookType = 0, lookTypeEx = 0, lookMount = 0, lookHead = 0, lookBody = 0, lookLegs = 0, lookFeet = 0,
      lookAddons = 0, look_padding = 0\<rparr>"

definition new_light :: "u8 \<Rightarrow> u8 \<Rightarrow> light" where
  "new_light level color =
     \<lparr>lg_lightInfo = \<lparr>li_level = level, li_color = color\<rparr>, lg_internalLightTicks = 0,
      lg_lightChangeInterval = 0\<rparr>"

definition new_drunk :: "u8 \<Rightarrow> u8" where
  "new_drunk drunkenness = (if drunkenness \<noteq> 0 then drunkenness else 25)"

definition createCondition ::
  "i8 \<Rightarrow> u32 \<Rightarrow> i32 \<Rightarrow> i32 \<Rightarrow> bool \<Rightarrow> u32 \<Rightarrow> bool \<Rightarrow> condition option" where
  "createCondition cid type ticks param buff subId aggressive =
     (if type \<in> {CONDITION_POISON, CONDITION_FIRE, CONDITION_ENERGY, CONDITION_DROWN, CONDITION_FREEZING,
                CONDITION_DAZZLED, CONDITION_CURSED, CONDITION_BLEEDING}
      then Some (new_condition cid type 0 buff subId aggressive (ConditionDamage new_damage))
      else if type \<in> {CONDITION_HASTE, CONDITION_PARALYZE}
      then Some (new_condition cid type ticks buff subId aggressive (ConditionSpeed (new_speed param)))
      else if type = CONDITION_INVISIBLE
      then Some (new_condition cid type ticks buff subId aggressive ConditionInvisible)
      else if type = CONDITION_OUTFIT
      then Some (new_condition cid type ticks buff subId aggressive (ConditionOutfit new_outfit))
      else if type = CONDITION_LIGHT
      then Some (new_condition cid type ticks buff subId aggressive
             (ConditionLight (new_light (ucast (param AND 0xFF)) (ucast (drop_bit 8 (param AND 0xFF00))))))
      else if type = CONDITION_REGENERATION
      then Some (new_condition cid type ticks buff subId aggressive (ConditionRegeneration new_regeneration))
      else if type = CONDITION_SOUL
      then Some (new_condition cid type ticks buff subId aggressive (ConditionSoul new_soul))
      else if type = CONDITION_ATTRIBUTES
      then Some (new_condition cid type ticks buff subId aggressive (ConditionAttributes new_attributes))
      else if type = CONDITION_DRUNK
      then Some (new_condition cid type ticks buff subId aggressive (ConditionDrunk (new_drunk (ucast param))))
      else if type \<in> {CONDITION_INFIGHT, CONDITION_EXHAUST_WEAPON, CONDITION_EXHAUST_COMBAT,
                CONDITION_EXHAUST_HEAL, CONDITION_MUTED, CONDITION_CHANNELMUTEDTICKS, CONDITION_YELLTICKS,
                CONDITION_PACIFIED, CONDITION_MANASHIELD, CONDITION_CLIPORT}
      then Some (new_condition cid type ticks buff subId aggressive ConditionGeneric)
      else None)"

subsection \<open>Time\<close>

text \<open>\<open>now\<close> is the value of \<open>OTSYS_TIME()\<close>.\<close>

definition setEndTime :: "i64 \<Rightarrow> condition \<Rightarrow> condition" where
  "setEndTime newEndTime c = c\<lparr>co_endTime := newEndTime\<rparr>"

definition setTicks :: "i64 \<Rightarrow> i32 \<Rightarrow> condition \<Rightarrow> condition" where
  "setTicks now newTicks c = setEndTime (scast newTicks + now) (c\<lparr>co_ticks := newTicks\<rparr>)"

definition base_startCondition :: "i64 \<Rightarrow> condition \<Rightarrow> bool \<times> condition" where
  "base_startCondition now c =
     (True, if 0 <s co_ticks c \<and> co_endTime c = 0 then setEndTime (scast (co_ticks c) + now) c else c)"

definition base_executeCondition :: "i64 \<Rightarrow> i32 \<Rightarrow> condition \<Rightarrow> bool \<times> condition" where
  "base_executeCondition now interval c =
     (if co_ticks c = -1 then (True, c)
      else (now \<le>s co_endTime c, c\<lparr>co_ticks := max_i32 0 (co_ticks c - interval)\<rparr>))"

definition isPersistent :: "condition \<Rightarrow> bool" where
  "isPersistent c \<longleftrightarrow>
     co_ticks c \<noteq> -1 \<and>
     (co_id c = CONDITIONID_DEFAULT \<or> co_id c = CONDITIONID_COMBAT \<or> co_type c = CONDITION_MUTED)"

definition base_updateCondition :: "i64 \<Rightarrow> condition \<Rightarrow> condition \<Rightarrow> bool" where
  "base_updateCondition now addCondition c \<longleftrightarrow>
     \<not> (co_type c \<noteq> co_type addCondition) \<and>
     \<not> (co_ticks c = -1 \<and> 0 <s co_ticks addCondition) \<and>
     \<not> (0 \<le>s co_ticks addCondition \<and> now + scast (co_ticks addCondition) <s co_endTime c)"

definition base_getIcons :: "condition \<Rightarrow> u32" where
  "base_getIcons c = (if co_isBuff c then ICON_PARTY_BUFF else 0)"

definition getIcons :: "condition \<Rightarrow> u32" where
  "getIcons c =
     (let icons = base_getIcons c; type = co_type c in
      case co_class c of
        ConditionDamage _ \<Rightarrow>
          (if type = CONDITION_FIRE then icons OR ICON_BURN
           else if type = CONDITION_ENERGY then icons OR ICON_ENERGY
           else if type = CONDITION_DROWN then icons OR ICON_DROWNING
           else if type = CONDITION_POISON then icons OR ICON_POISON
           else if type = CONDITION_FREEZING then icons OR ICON_FREEZING
           else if type = CONDITION_DAZZLED then icons OR ICON_DAZZLED
           else if type = CONDITION_CURSED then icons OR ICON_CURSED
           else icons)
      | ConditionSpeed _ \<Rightarrow>
          (if type = CONDITION_HASTE then icons OR ICON_HASTE
           else if type = CONDITION_PARALYZE then icons OR ICON_PARALYZE
           else icons)
      | ConditionOutfit _ \<Rightarrow> icons
      | ConditionLight _ \<Rightarrow> icons
      | ConditionDrunk _ \<Rightarrow> ICON_DRUNK
      | _ \<Rightarrow>
          (if type = CONDITION_MANASHIELD then icons OR ICON_MANASHIELD
           else if type = CONDITION_INFIGHT then icons OR ICON_SWORDS
           else icons))"

subsection \<open>Parameters\<close>

definition SKILL_FIST :: nat where "SKILL_FIST = 0"
definition SKILL_CLUB :: nat where "SKILL_CLUB = 1"
definition SKILL_SWORD :: nat where "SKILL_SWORD = 2"
definition SKILL_AXE :: nat where "SKILL_AXE = 3"
definition SKILL_DISTANCE :: nat where "SKILL_DISTANCE = 4"
definition SKILL_SHIELD :: nat where "SKILL_SHIELD = 5"
definition SKILL_FISHING :: nat where "SKILL_FISHING = 6"
definition SPECIALSKILL_CRITICALHITCHANCE :: nat where "SPECIALSKILL_CRITICALHITCHANCE = 0"
definition SPECIALSKILL_CRITICALHITAMOUNT :: nat where "SPECIALSKILL_CRITICALHITAMOUNT = 1"
definition SPECIALSKILL_LIFELEECHCHANCE :: nat where "SPECIALSKILL_LIFELEECHCHANCE = 2"
definition SPECIALSKILL_LIFELEECHAMOUNT :: nat where "SPECIALSKILL_LIFELEECHAMOUNT = 3"
definition SPECIALSKILL_MANALEECHCHANCE :: nat where "SPECIALSKILL_MANALEECHCHANCE = 4"
definition SPECIALSKILL_MANALEECHAMOUNT :: nat where "SPECIALSKILL_MANALEECHAMOUNT = 5"
definition EXPERIENCERATE_BASE :: nat where "EXPERIENCERATE_BASE = 1"
definition EXPERIENCERATE_LOW_LEVEL :: nat where "EXPERIENCERATE_LOW_LEVEL = 2"
definition EXPERIENCERATE_BONUS :: nat where "EXPERIENCERATE_BONUS = 3"
definition EXPERIENCERATE_STAMINA :: nat where "EXPERIENCERATE_STAMINA = 4"

lemmas skill_indices =
  SKILL_FIST_def SKILL_CLUB_def SKILL_SWORD_def
  SKILL_AXE_def SKILL_DISTANCE_def SKILL_SHIELD_def
  SKILL_FISHING_def SPECIALSKILL_CRITICALHITCHANCE_def SPECIALSKILL_CRITICALHITAMOUNT_def
  SPECIALSKILL_LIFELEECHCHANCE_def SPECIALSKILL_LIFELEECHAMOUNT_def SPECIALSKILL_MANALEECHCHANCE_def
  SPECIALSKILL_MANALEECHAMOUNT_def EXPERIENCERATE_BASE_def EXPERIENCERATE_LOW_LEVEL_def
  EXPERIENCERATE_BONUS_def EXPERIENCERATE_STAMINA_def

primrec stat_index :: "stats_t \<Rightarrow> nat" where
  "stat_index STAT_MAXHITPOINTS = 0"
| "stat_index STAT_MAXMANAPOINTS = 1"
| "stat_index STAT_SOULPOINTS = 2"
| "stat_index STAT_MAGICPOINTS = 3"

text \<open>\<open>std::abs\<close> on \<open>int32_t\<close>, and the answer \<open>getParam\<close> gives for a parameter it does not know.\<close>

definition abs_i32 :: "i32 \<Rightarrow> i32" where
  "abs_i32 v = (if v <s 0 then - v else v)"

definition param_unknown :: i32 where
  "param_unknown = 0x7FFFFFFF"

definition base_setParam :: "ConditionParam_t \<Rightarrow> i32 \<Rightarrow> condition \<Rightarrow> bool \<times> condition" where
  "base_setParam param value c =
     (case param of
        CONDITION_PARAM_TICKS \<Rightarrow> (True, c\<lparr>co_ticks := value\<rparr>)
      | CONDITION_PARAM_BUFF_SPELL \<Rightarrow> (True, c\<lparr>co_isBuff := (value \<noteq> 0)\<rparr>)
      | CONDITION_PARAM_SUBID \<Rightarrow> (True, c\<lparr>co_subId := value\<rparr>)
      | CONDITION_PARAM_AGGRESSIVE \<Rightarrow> (True, c\<lparr>co_aggressive := (value \<noteq> 0)\<rparr>)
      | _ \<Rightarrow> (False, c))"

definition base_getParam :: "ConditionParam_t \<Rightarrow> condition \<Rightarrow> i32" where
  "base_getParam param c =
     (case param of
        CONDITION_PARAM_TICKS \<Rightarrow> co_ticks c
      | CONDITION_PARAM_BUFF_SPELL \<Rightarrow> (if co_isBuff c then 1 else 0)
      | CONDITION_PARAM_SUBID \<Rightarrow> co_subId c
      | _ \<Rightarrow> param_unknown)"

abbreviation set_skills :: "nat \<Rightarrow> i32 \<Rightarrow> attributes \<Rightarrow> attributes" where
  "set_skills i v a \<equiv> a\<lparr>at_skills := (at_skills a)[i := v]\<rparr>"

abbreviation set_skillsPercent :: "nat \<Rightarrow> i32 \<Rightarrow> attributes \<Rightarrow> attributes" where
  "set_skillsPercent i v a \<equiv> a\<lparr>at_skillsPercent := (at_skillsPercent a)[i := v]\<rparr>"

abbreviation set_specialSkills :: "nat \<Rightarrow> i32 \<Rightarrow> attributes \<Rightarrow> attributes" where
  "set_specialSkills i v a \<equiv> a\<lparr>at_specialSkills := (at_specialSkills a)[i := v]\<rparr>"

abbreviation set_stats :: "nat \<Rightarrow> i32 \<Rightarrow> attributes \<Rightarrow> attributes" where
  "set_stats i v a \<equiv> a\<lparr>at_stats := (at_stats a)[i := v]\<rparr>"

abbreviation set_statsPercent :: "nat \<Rightarrow> i32 \<Rightarrow> attributes \<Rightarrow> attributes" where
  "set_statsPercent i v a \<equiv> a\<lparr>at_statsPercent := (at_statsPercent a)[i := v]\<rparr>"

abbreviation set_experienceRate :: "nat \<Rightarrow> i32 \<Rightarrow> attributes \<Rightarrow> attributes" where
  "set_experienceRate i v a \<equiv> a\<lparr>at_experienceRate := (at_experienceRate a)[i := v]\<rparr>"

definition attributes_setParam ::
  "ConditionParam_t \<Rightarrow> i32 \<Rightarrow> condition \<Rightarrow> attributes \<Rightarrow> bool \<times> condition \<times> attributes" where
  "attributes_setParam param value c a =
     (let (ret, c) = base_setParam param value c in
      case param of
        CONDITION_PARAM_SKILL_MELEE \<Rightarrow> (True, c, set_skills SKILL_SWORD value (set_skills SKILL_AXE value (set_skills SKILL_CLUB value a)))
      | CONDITION_PARAM_SKILL_MELEEPERCENT \<Rightarrow> (True, c, set_skillsPercent SKILL_SWORD value (set_skillsPercent SKILL_AXE value (set_skillsPercent SKILL_CLUB value a)))
      | CONDITION_PARAM_SKILL_FIST \<Rightarrow> (True, c, set_skills SKILL_FIST value a)
      | CONDITION_PARAM_SKILL_FISTPERCENT \<Rightarrow> (True, c, set_skillsPercent SKILL_FIST value a)
      | CONDITION_PARAM_SKILL_CLUB \<Rightarrow> (True, c, set_skills SKILL_CLUB value a)
      | CONDITION_PARAM_SKILL_CLUBPERCENT \<Rightarrow> (True, c, set_skillsPercent SKILL_CLUB value a)
      | CONDITION_PARAM_SKILL_SWORD \<Rightarrow> (True, c, set_skills SKILL_SWORD value a)
      | CONDITION_PARAM_SKILL_SWORDPERCENT \<Rightarrow> (True, c, set_skillsPercent SKILL_SWORD value a)
      | CONDITION_PARAM_SKILL_AXE \<Rightarrow> (True, c, set_skills SKILL_AXE value a)
      | CONDITION_PARAM_SKILL_AXEPERCENT \<Rightarrow> (True, c, set_skillsPercent SKILL_AXE value a)
      | CONDITION_PARAM_SKILL_DISTANCE \<Rightarrow> (True, c, set_skills SKILL_DISTANCE value a)
      | CONDITION_PARAM_SKILL_DISTANCEPERCENT \<Rightarrow> (True, c, set_skillsPercent SKILL_DISTANCE value a)
      | CONDITION_PARAM_SKILL_SHIELD \<Rightarrow> (True, c, set_skills SKILL_SHIELD value a)
      | CONDITION_PARAM_SKILL_SHIELDPERCENT \<Rightarrow> (True, c, set_skillsPercent SKILL_SHIELD value a)
      | CONDITION_PARAM_SKILL_FISHING \<Rightarrow> (True, c, set_skills SKILL_FISHING value a)
      | CONDITION_PARAM_SKILL_FISHINGPERCENT \<Rightarrow> (True, c, set_skillsPercent SKILL_FISHING value a)
      | CONDITION_PARAM_SPECIALSKILL_CRITICALHITCHANCE \<Rightarrow> (True, c, set_specialSkills SPECIALSKILL_CRITICALHITCHANCE value a)
      | CONDITION_PARAM_SPECIALSKILL_CRITICALHITAMOUNT \<Rightarrow> (True, c, set_specialSkills SPECIALSKILL_CRITICALHITAMOUNT value a)
      | CONDITION_PARAM_SPECIALSKILL_LIFELEECHCHANCE \<Rightarrow> (True, c, set_specialSkills SPECIALSKILL_LIFELEECHCHANCE value a)
      | CONDITION_PARAM_SPECIALSKILL_LIFELEECHAMOUNT \<Rightarrow> (True, c, set_specialSkills SPECIALSKILL_LIFELEECHAMOUNT value a)
      | CONDITION_PARAM_SPECIALSKILL_MANALEECHCHANCE \<Rightarrow> (True, c, set_specialSkills SPECIALSKILL_MANALEECHCHANCE value a)
      | CONDITION_PARAM_SPECIALSKILL_MANALEECHAMOUNT \<Rightarrow> (True, c, set_specialSkills SPECIALSKILL_MANALEECHAMOUNT value a)
      | CONDITION_PARAM_STAT_MAXHITPOINTS \<Rightarrow> (True, c, set_stats (stat_index STAT_MAXHITPOINTS) value a)
      | CONDITION_PARAM_STAT_MAXMANAPOINTS \<Rightarrow> (True, c, set_stats (stat_index STAT_MAXMANAPOINTS) value a)
      | CONDITION_PARAM_STAT_MAGICPOINTS \<Rightarrow> (True, c, set_stats (stat_index STAT_MAGICPOINTS) value a)
      | CONDITION_PARAM_STAT_MAXHITPOINTSPERCENT \<Rightarrow> (True, c, set_statsPercent (stat_index STAT_MAXHITPOINTS) (max_i32 0 value) a)
      | CONDITION_PARAM_STAT_MAXMANAPOINTSPERCENT \<Rightarrow> (True, c, set_statsPercent (stat_index STAT_MAXMANAPOINTS) (max_i32 0 value) a)
      | CONDITION_PARAM_STAT_MAGICPOINTSPERCENT \<Rightarrow> (True, c, set_statsPercent (stat_index STAT_MAGICPOINTS) (max_i32 0 value) a)
      | CONDITION_PARAM_EXPERIENCERATE_BASE \<Rightarrow> (True, c, set_experienceRate EXPERIENCERATE_BASE value a)
      | CONDITION_PARAM_EXPERIENCERATE_LOW_LEVEL \<Rightarrow> (True, c, set_experienceRate EXPERIENCERATE_LOW_LEVEL value a)
      | CONDITION_PARAM_EXPERIENCERATE_BONUS \<Rightarrow> (True, c, set_experienceRate EXPERIENCERATE_BONUS value a)
      | CONDITION_PARAM_EXPERIENCERATE_STAMINA \<Rightarrow> (True, c, set_experienceRate EXPERIENCERATE_STAMINA value a)
      | CONDITION_PARAM_DISABLE_DEFENSE \<Rightarrow> (True, c, a\<lparr>at_disableDefense := (value \<noteq> 0)\<rparr>)
      | CONDITION_PARAM_AGGRESSIVE \<Rightarrow> (True, c\<lparr>co_aggressive := (value \<noteq> 0)\<rparr>, a)
      | _ \<Rightarrow> (ret, c, a))"

definition attributes_getParam :: "ConditionParam_t \<Rightarrow> condition \<Rightarrow> attributes \<Rightarrow> i32" where
  "attributes_getParam param c a =
     (case param of
        CONDITION_PARAM_SKILL_FIST \<Rightarrow> at_skills a ! SKILL_FIST
      | CONDITION_PARAM_SKILL_FISTPERCENT \<Rightarrow> at_skillsPercent a ! SKILL_FIST
      | CONDITION_PARAM_SKILL_CLUB \<Rightarrow> at_skills a ! SKILL_CLUB
      | CONDITION_PARAM_SKILL_CLUBPERCENT \<Rightarrow> at_skillsPercent a ! SKILL_CLUB
      | CONDITION_PARAM_SKILL_SWORD \<Rightarrow> at_skills a ! SKILL_SWORD
      | CONDITION_PARAM_SKILL_SWORDPERCENT \<Rightarrow> at_skillsPercent a ! SKILL_SWORD
      | CONDITION_PARAM_SKILL_AXE \<Rightarrow> at_skills a ! SKILL_AXE
      | CONDITION_PARAM_SKILL_AXEPERCENT \<Rightarrow> at_skillsPercent a ! SKILL_AXE
      | CONDITION_PARAM_SKILL_DISTANCE \<Rightarrow> at_skills a ! SKILL_DISTANCE
      | CONDITION_PARAM_SKILL_DISTANCEPERCENT \<Rightarrow> at_skillsPercent a ! SKILL_DISTANCE
      | CONDITION_PARAM_SKILL_SHIELD \<Rightarrow> at_skills a ! SKILL_SHIELD
      | CONDITION_PARAM_SKILL_SHIELDPERCENT \<Rightarrow> at_skillsPercent a ! SKILL_SHIELD
      | CONDITION_PARAM_SKILL_FISHING \<Rightarrow> at_skills a ! SKILL_FISHING
      | CONDITION_PARAM_SKILL_FISHINGPERCENT \<Rightarrow> at_skillsPercent a ! SKILL_FISHING
      | CONDITION_PARAM_STAT_MAXHITPOINTS \<Rightarrow> at_stats a ! (stat_index STAT_MAXHITPOINTS)
      | CONDITION_PARAM_STAT_MAXMANAPOINTS \<Rightarrow> at_stats a ! (stat_index STAT_MAXMANAPOINTS)
      | CONDITION_PARAM_STAT_MAGICPOINTS \<Rightarrow> at_stats a ! (stat_index STAT_MAGICPOINTS)
      | CONDITION_PARAM_STAT_MAXHITPOINTSPERCENT \<Rightarrow> at_statsPercent a ! (stat_index STAT_MAXHITPOINTS)
      | CONDITION_PARAM_STAT_MAXMANAPOINTSPERCENT \<Rightarrow> at_statsPercent a ! (stat_index STAT_MAXMANAPOINTS)
      | CONDITION_PARAM_STAT_MAGICPOINTSPERCENT \<Rightarrow> at_statsPercent a ! (stat_index STAT_MAGICPOINTS)
      | CONDITION_PARAM_DISABLE_DEFENSE \<Rightarrow> (if at_disableDefense a then 1 else 0)
      | CONDITION_PARAM_SPECIALSKILL_CRITICALHITCHANCE \<Rightarrow> at_specialSkills a ! SPECIALSKILL_CRITICALHITCHANCE
      | CONDITION_PARAM_SPECIALSKILL_CRITICALHITAMOUNT \<Rightarrow> at_specialSkills a ! SPECIALSKILL_CRITICALHITAMOUNT
      | CONDITION_PARAM_SPECIALSKILL_LIFELEECHCHANCE \<Rightarrow> at_specialSkills a ! SPECIALSKILL_LIFELEECHCHANCE
      | CONDITION_PARAM_SPECIALSKILL_LIFELEECHAMOUNT \<Rightarrow> at_specialSkills a ! SPECIALSKILL_LIFELEECHAMOUNT
      | CONDITION_PARAM_SPECIALSKILL_MANALEECHCHANCE \<Rightarrow> at_specialSkills a ! SPECIALSKILL_MANALEECHCHANCE
      | CONDITION_PARAM_SPECIALSKILL_MANALEECHAMOUNT \<Rightarrow> at_specialSkills a ! SPECIALSKILL_MANALEECHAMOUNT
      | CONDITION_PARAM_EXPERIENCERATE_BASE \<Rightarrow> at_experienceRate a ! EXPERIENCERATE_BASE
      | CONDITION_PARAM_EXPERIENCERATE_LOW_LEVEL \<Rightarrow> at_experienceRate a ! EXPERIENCERATE_LOW_LEVEL
      | CONDITION_PARAM_EXPERIENCERATE_BONUS \<Rightarrow> at_experienceRate a ! EXPERIENCERATE_BONUS
      | CONDITION_PARAM_EXPERIENCERATE_STAMINA \<Rightarrow> at_experienceRate a ! EXPERIENCERATE_STAMINA
      | _ \<Rightarrow> base_getParam param c)"

definition regeneration_setParam ::
  "ConditionParam_t \<Rightarrow> i32 \<Rightarrow> condition \<Rightarrow> regeneration \<Rightarrow> bool \<times> condition \<times> regeneration" where
  "regeneration_setParam param value c r =
     (let (ret, c) = base_setParam param value c in
      case param of
        CONDITION_PARAM_HEALTHGAIN \<Rightarrow> (True, c, r\<lparr>rg_healthGain := value\<rparr>)
      | CONDITION_PARAM_HEALTHGAINPERCENT \<Rightarrow> (True, c, r\<lparr>rg_healthGainPercent := value\<rparr>)
      | CONDITION_PARAM_HEALTHTICKS \<Rightarrow> (True, c, r\<lparr>rg_healthTicks := value\<rparr>)
      | CONDITION_PARAM_MANAGAIN \<Rightarrow> (True, c, r\<lparr>rg_manaGain := value\<rparr>)
      | CONDITION_PARAM_MANAGAINPERCENT \<Rightarrow> (True, c, r\<lparr>rg_manaGainPercent := value\<rparr>)
      | CONDITION_PARAM_MANATICKS \<Rightarrow> (True, c, r\<lparr>rg_manaTicks := value\<rparr>)
      | _ \<Rightarrow> (ret, c, r))"

definition regeneration_getParam :: "ConditionParam_t \<Rightarrow> condition \<Rightarrow> regeneration \<Rightarrow> i32" where
  "regeneration_getParam param c r =
     (case param of
        CONDITION_PARAM_HEALTHGAIN \<Rightarrow> rg_healthGain r
      | CONDITION_PARAM_HEALTHTICKS \<Rightarrow> rg_healthTicks r
      | CONDITION_PARAM_MANAGAIN \<Rightarrow> rg_manaGain r
      | CONDITION_PARAM_MANATICKS \<Rightarrow> rg_manaTicks r
      | _ \<Rightarrow> base_getParam param c)"

definition soul_setParam :: "ConditionParam_t \<Rightarrow> i32 \<Rightarrow> condition \<Rightarrow> soul \<Rightarrow> bool \<times> condition \<times> soul" where
  "soul_setParam param value c s =
     (let (ret, c) = base_setParam param value c in
      case param of
        CONDITION_PARAM_SOULGAIN \<Rightarrow> (True, c, s\<lparr>so_soulGain := value\<rparr>)
      | CONDITION_PARAM_SOULTICKS \<Rightarrow> (True, c, s\<lparr>so_soulTicks := value\<rparr>)
      | _ \<Rightarrow> (ret, c, s))"

definition soul_getParam :: "ConditionParam_t \<Rightarrow> condition \<Rightarrow> soul \<Rightarrow> i32" where
  "soul_getParam param c s =
     (case param of
        CONDITION_PARAM_SOULGAIN \<Rightarrow> so_soulGain s
      | CONDITION_PARAM_SOULTICKS \<Rightarrow> so_soulTicks s
      | _ \<Rightarrow> base_getParam param c)"

definition damage_setParam ::
  "ConditionParam_t \<Rightarrow> i32 \<Rightarrow> condition \<Rightarrow> damage \<Rightarrow> bool \<times> condition \<times> damage" where
  "damage_setParam param value c d =
     (let (ret, c) = base_setParam param value c in
      case param of
        CONDITION_PARAM_OWNER \<Rightarrow> (True, c, d\<lparr>da_owner := value\<rparr>)
      | CONDITION_PARAM_FORCEUPDATE \<Rightarrow> (True, c, d\<lparr>da_forceUpdate := (value \<noteq> 0)\<rparr>)
      | CONDITION_PARAM_DELAYED \<Rightarrow> (True, c, d\<lparr>da_delayed := (value \<noteq> 0)\<rparr>)
      | CONDITION_PARAM_MAXVALUE \<Rightarrow> (ret, c, d\<lparr>da_maxDamage := abs_i32 value\<rparr>)
      | CONDITION_PARAM_MINVALUE \<Rightarrow> (ret, c, d\<lparr>da_minDamage := abs_i32 value\<rparr>)
      | CONDITION_PARAM_STARTVALUE \<Rightarrow> (ret, c, d\<lparr>da_startDamage := abs_i32 value\<rparr>)
      | CONDITION_PARAM_TICKINTERVAL \<Rightarrow> (ret, c, d\<lparr>da_tickInterval := abs_i32 value\<rparr>)
      | CONDITION_PARAM_PERIODICDAMAGE \<Rightarrow> (ret, c, d\<lparr>da_periodDamage := value\<rparr>)
      | CONDITION_PARAM_FIELD \<Rightarrow> (ret, c, d\<lparr>da_field := (value \<noteq> 0)\<rparr>)
      | _ \<Rightarrow> (False, c, d))"

definition damage_getParam :: "ConditionParam_t \<Rightarrow> condition \<Rightarrow> damage \<Rightarrow> i32" where
  "damage_getParam param c d =
     (case param of
        CONDITION_PARAM_OWNER \<Rightarrow> da_owner d
      | CONDITION_PARAM_FORCEUPDATE \<Rightarrow> (if da_forceUpdate d then 1 else 0)
      | CONDITION_PARAM_DELAYED \<Rightarrow> (if da_delayed d then 1 else 0)
      | CONDITION_PARAM_MAXVALUE \<Rightarrow> da_maxDamage d
      | CONDITION_PARAM_MINVALUE \<Rightarrow> da_minDamage d
      | CONDITION_PARAM_STARTVALUE \<Rightarrow> da_startDamage d
      | CONDITION_PARAM_TICKINTERVAL \<Rightarrow> da_tickInterval d
      | CONDITION_PARAM_PERIODICDAMAGE \<Rightarrow> da_periodDamage d
      | CONDITION_PARAM_FIELD \<Rightarrow> (if da_field d then 1 else 0)
      | _ \<Rightarrow> base_getParam param c)"

definition speed_setParam ::
  "ConditionParam_t \<Rightarrow> i32 \<Rightarrow> condition \<Rightarrow> speed \<Rightarrow> bool \<times> condition \<times> speed" where
  "speed_setParam param value c s =
     (let (_, c) = base_setParam param value c in
      if param \<noteq> CONDITION_PARAM_SPEED then (False, c, s)
      else (True, c\<lparr>co_type := (if 0 <s value then CONDITION_HASTE else CONDITION_PARALYZE)\<rparr>,
            s\<lparr>sp_speedDelta := value\<rparr>))"

definition speed_getParam :: "ConditionParam_t \<Rightarrow> condition \<Rightarrow> speed \<Rightarrow> i32" where
  "speed_getParam param c s =
     (case param of CONDITION_PARAM_SPEED \<Rightarrow> sp_speedDelta s | _ \<Rightarrow> base_getParam param c)"

definition setFormulaVars :: "u32 \<Rightarrow> u32 \<Rightarrow> u32 \<Rightarrow> u32 \<Rightarrow> speed \<Rightarrow> speed" where
  "setFormulaVars mina minb maxa maxb s = s\<lparr>sp_mina := mina, sp_minb := minb, sp_maxa := maxa, sp_maxb := maxb\<rparr>"

definition light_setParam ::
  "ConditionParam_t \<Rightarrow> i32 \<Rightarrow> condition \<Rightarrow> light \<Rightarrow> bool \<times> condition \<times> light" where
  "light_setParam param value c l =
     (let (ret, c) = base_setParam param value c in
      if ret then (False, c, l)
      else case param of
        CONDITION_PARAM_LIGHT_LEVEL \<Rightarrow> (True, c, l\<lparr>lg_lightInfo := (lg_lightInfo l)\<lparr>li_level := ucast value\<rparr>\<rparr>)
      | CONDITION_PARAM_LIGHT_COLOR \<Rightarrow> (True, c, l\<lparr>lg_lightInfo := (lg_lightInfo l)\<lparr>li_color := ucast value\<rparr>\<rparr>)
      | _ \<Rightarrow> (False, c, l))"

definition light_getParam :: "ConditionParam_t \<Rightarrow> condition \<Rightarrow> light \<Rightarrow> i32" where
  "light_getParam param c l =
     (case param of
        CONDITION_PARAM_LIGHT_LEVEL \<Rightarrow> ucast (li_level (lg_lightInfo l))
      | CONDITION_PARAM_LIGHT_COLOR \<Rightarrow> ucast (li_color (lg_lightInfo l))
      | _ \<Rightarrow> base_getParam param c)"

definition drunk_setParam :: "ConditionParam_t \<Rightarrow> i32 \<Rightarrow> condition \<Rightarrow> u8 \<Rightarrow> bool \<times> condition \<times> u8" where
  "drunk_setParam param value c drunkenness =
     (let (ret, c) = base_setParam param value c in
      case param of
        CONDITION_PARAM_DRUNKENNESS \<Rightarrow> (True, c, ucast value)
      | _ \<Rightarrow> (ret, c, drunkenness))"

text \<open>The virtual calls.\<close>

definition with_class :: "('a \<Rightarrow> condition_class) \<Rightarrow> bool \<times> condition \<times> 'a \<Rightarrow> bool \<times> condition" where
  "with_class f r = (case r of (ret, c, a) \<Rightarrow> (ret, c\<lparr>co_class := f a\<rparr>))"

definition setParam :: "ConditionParam_t \<Rightarrow> i32 \<Rightarrow> condition \<Rightarrow> bool \<times> condition" where
  "setParam param value c =
     (case co_class c of
        ConditionAttributes a \<Rightarrow> with_class ConditionAttributes (attributes_setParam param value c a)
      | ConditionRegeneration r \<Rightarrow> with_class ConditionRegeneration (regeneration_setParam param value c r)
      | ConditionSoul s \<Rightarrow> with_class ConditionSoul (soul_setParam param value c s)
      | ConditionDamage d \<Rightarrow> with_class ConditionDamage (damage_setParam param value c d)
      | ConditionSpeed s \<Rightarrow> with_class ConditionSpeed (speed_setParam param value c s)
      | ConditionLight l \<Rightarrow> with_class ConditionLight (light_setParam param value c l)
      | ConditionDrunk d \<Rightarrow> with_class ConditionDrunk (drunk_setParam param value c d)
      | _ \<Rightarrow> base_setParam param value c)"

definition getParam :: "ConditionParam_t \<Rightarrow> condition \<Rightarrow> i32" where
  "getParam param c =
     (case co_class c of
        ConditionAttributes a \<Rightarrow> attributes_getParam param c a
      | ConditionRegeneration r \<Rightarrow> regeneration_getParam param c r
      | ConditionSoul s \<Rightarrow> soul_getParam param c s
      | ConditionDamage d \<Rightarrow> damage_getParam param c d
      | ConditionSpeed s \<Rightarrow> speed_getParam param c s
      | ConditionLight l \<Rightarrow> light_getParam param c l
      | _ \<Rightarrow> base_getParam param c)"

end
