(* ===== verification/Condition_Storage.thy ===== *)
theory Condition_Storage
  imports Condition_Data "HOL-Library.Monad_Syntax"
begin

text \<open>
  How conditions are stored (condition.cpp: \<open>serialize\<close>, \<open>unserialize\<close>, \<open>unserializeProp\<close> of every class and
  \<open>Condition::createCondition(PropStream&)\<close>; iologindata.cpp: the loops of \<open>savePlayer\<close> and \<open>loadPlayer\<close>).
  Each writer is shown to append a representation, and each reader to invert it, attribute by attribute;
  the properties are the round trip of a list of conditions and the two classes that storage loses.
\<close>

subsection \<open>Writing\<close>

definition base_serialize :: "condition \<Rightarrow> prop_buffer \<Rightarrow> prop_buffer" where
  "base_serialize c w =
     (let w = prop_write 1 CONDITIONATTR_TYPE w; w = prop_write 4 (co_type c) w;
          w = prop_write 1 CONDITIONATTR_ID w; w = prop_write 4 (scast (co_id c) :: u32) w;
          w = prop_write 1 CONDITIONATTR_TICKS w; w = prop_write 4 (co_ticks c) w;
          w = prop_write 1 CONDITIONATTR_ISBUFF w; w = prop_write 1 (of_bool (co_isBuff c) :: u8) w;
          w = prop_write 1 CONDITIONATTR_SUBID w; w = prop_write 4 (co_subId c) w;
          w = prop_write 1 CONDITIONATTR_ISAGGRESSIVE w; w = prop_write 1 (of_bool (co_aggressive c) :: u8) w;
          w = prop_write 1 CONDITIONATTR_CONSTANT w; w = prop_write 1 (of_bool (co_constant c) :: u8) w
      in if co_constant c
         then let w = prop_write 1 CONDITIONATTR_ENDTIME w in prop_write 8 (co_endTime c) w
         else w)"

text \<open>\<open>write_each attr xs\<close> is the loop that writes the mark and the value of each element of an array.\<close>

definition write_each :: "u8 \<Rightarrow> i32 list \<Rightarrow> prop_buffer \<Rightarrow> prop_buffer" where
  "write_each attr xs w = fold (\<lambda>x w. prop_write 4 x (prop_write 1 attr w)) xs w"

definition attributes_serialize :: "condition \<Rightarrow> attributes \<Rightarrow> prop_buffer \<Rightarrow> prop_buffer" where
  "attributes_serialize c a w =
     (let w = base_serialize c w;
          w = write_each CONDITIONATTR_SKILLS (at_skills a) w;
          w = write_each CONDITIONATTR_STATS (at_stats a) w;
          w = prop_write 1 CONDITIONATTR_DISABLEDEFENSE w; w = prop_write 1 (of_bool (at_disableDefense a) :: u8) w;
          w = write_each CONDITIONATTR_SPECIALSKILLS (at_specialSkills a) w
      in write_each CONDITIONATTR_SPECIALSKILLS (drop EXPERIENCERATE_BASE (at_experienceRate a)) w)"

definition regeneration_serialize :: "condition \<Rightarrow> regeneration \<Rightarrow> prop_buffer \<Rightarrow> prop_buffer" where
  "regeneration_serialize c r w =
     (let w = base_serialize c w;
          w = prop_write 1 CONDITIONATTR_HEALTHTICKS w; w = prop_write 4 (rg_healthTicks r) w;
          w = prop_write 1 CONDITIONATTR_HEALTHGAIN w; w = prop_write 4 (rg_healthGain r) w;
          w = prop_write 1 CONDITIONATTR_HEALTHGAINPERCENT w; w = prop_write 4 (rg_healthGainPercent r) w;
          w = prop_write 1 CONDITIONATTR_MANATICKS w; w = prop_write 4 (rg_manaTicks r) w;
          w = prop_write 1 CONDITIONATTR_MANAGAIN w; w = prop_write 4 (rg_manaGain r) w;
          w = prop_write 1 CONDITIONATTR_MANAGAINPERCENT w
      in prop_write 4 (rg_manaGainPercent r) w)"

definition soul_serialize :: "condition \<Rightarrow> soul \<Rightarrow> prop_buffer \<Rightarrow> prop_buffer" where
  "soul_serialize c s w =
     (let w = base_serialize c w;
          w = prop_write 1 CONDITIONATTR_SOULGAIN w; w = prop_write 4 (so_soulGain s) w;
          w = prop_write 1 CONDITIONATTR_SOULTICKS w
      in prop_write 4 (so_soulTicks s) w)"

definition write_interval :: "interval_info \<Rightarrow> prop_buffer \<Rightarrow> prop_buffer" where
  "write_interval i w = prop_write 4 (ii_interval i) (prop_write 4 (ii_value i) (prop_write 4 (ii_timeLeft i) w))"

definition damage_serialize :: "condition \<Rightarrow> damage \<Rightarrow> prop_buffer \<Rightarrow> prop_buffer" where
  "damage_serialize c d w =
     (let w = base_serialize c w;
          w = prop_write 1 CONDITIONATTR_DELAYED w; w = prop_write 1 (of_bool (da_delayed d) :: u8) w;
          w = prop_write 1 CONDITIONATTR_PERIODDAMAGE w; w = prop_write 4 (da_periodDamage d) w
      in fold (\<lambda>i w. write_interval i (prop_write 1 CONDITIONATTR_INTERVALDATA w)) (da_damageList d) w)"

definition speed_serialize :: "condition \<Rightarrow> speed \<Rightarrow> prop_buffer \<Rightarrow> prop_buffer" where
  "speed_serialize c s w =
     (let w = base_serialize c w;
          w = prop_write 1 CONDITIONATTR_SPEEDDELTA w; w = prop_write 4 (sp_speedDelta s) w;
          w = prop_write 1 CONDITIONATTR_FORMULA_MINA w; w = prop_write 4 (sp_mina s) w;
          w = prop_write 1 CONDITIONATTR_FORMULA_MINB w; w = prop_write 4 (sp_minb s) w;
          w = prop_write 1 CONDITIONATTR_FORMULA_MAXA w; w = prop_write 4 (sp_maxa s) w;
          w = prop_write 1 CONDITIONATTR_FORMULA_MAXB w
      in prop_write 4 (sp_maxb s) w)"

definition write_outfit :: "outfit \<Rightarrow> prop_buffer \<Rightarrow> prop_buffer" where
  "write_outfit f w =
     w @ le_bytes 2 (lookType f) @ le_bytes 2 (lookTypeEx f) @ le_bytes 2 (lookMount f) @
       [lookHead f, lookBody f, lookLegs f, lookFeet f, lookAddons f, look_padding f]"

definition outfit_serialize :: "condition \<Rightarrow> outfit \<Rightarrow> prop_buffer \<Rightarrow> prop_buffer" where
  "outfit_serialize c f w =
     (let w = base_serialize c w; w = prop_write 1 CONDITIONATTR_OUTFIT w in write_outfit f w)"

definition light_serialize :: "condition \<Rightarrow> light \<Rightarrow> prop_buffer \<Rightarrow> prop_buffer" where
  "light_serialize c l w =
     (let w = base_serialize c w;
          w = prop_write 1 CONDITIONATTR_LIGHTCOLOR w; w = prop_write 4 (ucast (li_color (lg_lightInfo l)) :: u32) w;
          w = prop_write 1 CONDITIONATTR_LIGHTLEVEL w; w = prop_write 4 (ucast (li_level (lg_lightInfo l)) :: u32) w;
          w = prop_write 1 CONDITIONATTR_LIGHTTICKS w; w = prop_write 4 (lg_internalLightTicks l) w;
          w = prop_write 1 CONDITIONATTR_LIGHTINTERVAL w
      in prop_write 4 (lg_lightChangeInterval l) w)"

definition serialize :: "condition \<Rightarrow> prop_buffer \<Rightarrow> prop_buffer" where
  "serialize c w =
     (case co_class c of
        ConditionAttributes a \<Rightarrow> attributes_serialize c a w
      | ConditionRegeneration r \<Rightarrow> regeneration_serialize c r w
      | ConditionSoul s \<Rightarrow> soul_serialize c s w
      | ConditionDamage d \<Rightarrow> damage_serialize c d w
      | ConditionSpeed s \<Rightarrow> speed_serialize c s w
      | ConditionOutfit f \<Rightarrow> outfit_serialize c f w
      | ConditionLight l \<Rightarrow> light_serialize c l w
      | _ \<Rightarrow> base_serialize c w)"

subsection \<open>Reading\<close>

text \<open>
  A reader returns whether it succeeded, the condition afterwards and the rest of the stream; \<open>None\<close> is
  a write outside an array.
\<close>

type_synonym reader = "bool \<times> condition \<times> prop_stream"

definition read_into :: "nat \<Rightarrow> ('a::len word \<Rightarrow> condition) \<Rightarrow> condition \<Rightarrow> prop_stream \<Rightarrow> reader" where
  "read_into n f c p = (case prop_read n p of (None, p) \<Rightarrow> (False, c, p) | (Some v, p) \<Rightarrow> (True, f v, p))"

definition base_unserializeProp :: "u8 \<Rightarrow> condition \<Rightarrow> prop_stream \<Rightarrow> reader" where
  "base_unserializeProp attr c p =
     (if attr = CONDITIONATTR_TYPE then read_into 4 (\<lambda>value. c\<lparr>co_type := value\<rparr>) c p
      else if attr = CONDITIONATTR_ID then read_into 4 (\<lambda>value :: i32. c\<lparr>co_id := ucast value\<rparr>) c p
      else if attr = CONDITIONATTR_TICKS then read_into 4 (\<lambda>value. c\<lparr>co_ticks := value\<rparr>) c p
      else if attr = CONDITIONATTR_ISBUFF then read_into 1 (\<lambda>value :: u8. c\<lparr>co_isBuff := (value \<noteq> 0)\<rparr>) c p
      else if attr = CONDITIONATTR_SUBID then read_into 4 (\<lambda>value. c\<lparr>co_subId := value\<rparr>) c p
      else if attr = CONDITIONATTR_ISAGGRESSIVE
      then read_into 1 (\<lambda>value :: u8. c\<lparr>co_aggressive := (value \<noteq> 0)\<rparr>) c p
      else if attr = CONDITIONATTR_CONSTANT
      then read_into 1 (\<lambda>value :: u8. c\<lparr>co_constant := (value \<noteq> 0)\<rparr>) c p
      else if attr = CONDITIONATTR_ENDTIME then read_into 8 (\<lambda>value. c\<lparr>co_endTime := value\<rparr>) c p
      else if attr = CONDITIONATTR_END then (True, c, p)
      else (False, c, p))"

text \<open>Element \<open>i\<close> of an array of \<open>n\<close> elements is read; the counter has already been advanced.\<close>

definition read_element :: "nat \<Rightarrow> nat \<Rightarrow> (i32 \<Rightarrow> condition) \<Rightarrow> condition \<Rightarrow> prop_stream \<Rightarrow> reader option" where
  "read_element n i f c p = (if i < n then Some (read_into 4 f c p) else None)"

abbreviation set_attributes :: "attributes \<Rightarrow> condition \<Rightarrow> condition" where
  "set_attributes a c \<equiv> c\<lparr>co_class := ConditionAttributes a\<rparr>"

definition attributes_unserializeProp ::
  "u8 \<Rightarrow> condition \<Rightarrow> attributes \<Rightarrow> prop_stream \<Rightarrow> reader option" where
  "attributes_unserializeProp attr c a p =
     (if attr = CONDITIONATTR_SKILLS then
        let i = at_currentSkill a; a = a\<lparr>at_currentSkill := i + 1\<rparr>
        in read_element 7 i (\<lambda>v. set_attributes (set_skills i v a) c) (set_attributes a c) p
      else if attr = CONDITIONATTR_SPECIALSKILLS then
        let i = at_currentSpecialSkill a; a = a\<lparr>at_currentSpecialSkill := i + 1\<rparr>
        in read_element 6 i (\<lambda>v. set_attributes (set_specialSkills i v a) c) (set_attributes a c) p
      else if attr = CONDITIONATTR_STATS then
        let i = at_currentStat a; a = a\<lparr>at_currentStat := i + 1\<rparr>
        in read_element 4 i (\<lambda>v. set_attributes (set_stats i v a) c) (set_attributes a c) p
      else if attr = CONDITIONATTR_EXPERIENCERATE then
        let i = at_currentExperienceRate a; a = a\<lparr>at_currentExperienceRate := i + 1\<rparr>
        in read_element 5 i (\<lambda>v. set_attributes (set_experienceRate i v a) c) (set_attributes a c) p
      else if attr = CONDITIONATTR_DISABLEDEFENSE then
        Some (read_into 1 (\<lambda>v :: u8. set_attributes (a\<lparr>at_disableDefense := (v \<noteq> 0)\<rparr>) c) c p)
      else Some (base_unserializeProp attr c p))"

definition regeneration_unserializeProp :: "u8 \<Rightarrow> condition \<Rightarrow> regeneration \<Rightarrow> prop_stream \<Rightarrow> reader" where
  "regeneration_unserializeProp attr c r p =
     (let put = \<lambda>r. c\<lparr>co_class := ConditionRegeneration r\<rparr> in
      if attr = CONDITIONATTR_HEALTHTICKS then read_into 4 (\<lambda>v. put (r\<lparr>rg_healthTicks := v\<rparr>)) c p
      else if attr = CONDITIONATTR_HEALTHGAIN then read_into 4 (\<lambda>v. put (r\<lparr>rg_healthGain := v\<rparr>)) c p
      else if attr = CONDITIONATTR_HEALTHGAINPERCENT then read_into 4 (\<lambda>v. put (r\<lparr>rg_healthGainPercent := v\<rparr>)) c p
      else if attr = CONDITIONATTR_MANATICKS then read_into 4 (\<lambda>v. put (r\<lparr>rg_manaTicks := v\<rparr>)) c p
      else if attr = CONDITIONATTR_MANAGAIN then read_into 4 (\<lambda>v. put (r\<lparr>rg_manaGain := v\<rparr>)) c p
      else if attr = CONDITIONATTR_MANAGAINPERCENT then read_into 4 (\<lambda>v. put (r\<lparr>rg_manaGainPercent := v\<rparr>)) c p
      else base_unserializeProp attr c p)"

definition soul_unserializeProp :: "u8 \<Rightarrow> condition \<Rightarrow> soul \<Rightarrow> prop_stream \<Rightarrow> reader" where
  "soul_unserializeProp attr c s p =
     (let put = \<lambda>s. c\<lparr>co_class := ConditionSoul s\<rparr> in
      if attr = CONDITIONATTR_SOULGAIN then read_into 4 (\<lambda>v. put (s\<lparr>so_soulGain := v\<rparr>)) c p
      else if attr = CONDITIONATTR_SOULTICKS then read_into 4 (\<lambda>v. put (s\<lparr>so_soulTicks := v\<rparr>)) c p
      else base_unserializeProp attr c p)"

definition read_interval :: "prop_stream \<Rightarrow> interval_info option \<times> prop_stream" where
  "read_interval p =
     (if length p < 12 then (None, p)
      else (Some \<lparr>ii_timeLeft = le_word (take 4 p), ii_value = le_word (take 4 (drop 4 p)),
                  ii_interval = le_word (take 4 (drop 8 p))\<rparr>, drop 12 p))"

definition damage_unserializeProp :: "i64 \<Rightarrow> u8 \<Rightarrow> condition \<Rightarrow> damage \<Rightarrow> prop_stream \<Rightarrow> reader" where
  "damage_unserializeProp now attr c d p =
     (let put = \<lambda>d. c\<lparr>co_class := ConditionDamage d\<rparr> in
      if attr = CONDITIONATTR_DELAYED then read_into 1 (\<lambda>value :: u8. put (d\<lparr>da_delayed := (value \<noteq> 0)\<rparr>)) c p
      else if attr = CONDITIONATTR_PERIODDAMAGE then read_into 4 (\<lambda>v. put (d\<lparr>da_periodDamage := v\<rparr>)) c p
      else if attr = CONDITIONATTR_OWNER then (let (ok, p) = prop_skip 4 p in (ok, c, p))
      else if attr = CONDITIONATTR_INTERVALDATA then
        (case read_interval p of
           (None, p) \<Rightarrow> (False, c, p)
         | (Some damageInfo, p) \<Rightarrow>
             let c = put (d\<lparr>da_damageList := da_damageList d @ [damageInfo]\<rparr>)
             in (True, if co_ticks c \<noteq> -1 then setTicks now (co_ticks c + ii_interval damageInfo) c else c, p))
      else base_unserializeProp attr c p)"

definition speed_unserializeProp :: "u8 \<Rightarrow> condition \<Rightarrow> speed \<Rightarrow> prop_stream \<Rightarrow> reader" where
  "speed_unserializeProp attr c s p =
     (let put = \<lambda>s. c\<lparr>co_class := ConditionSpeed s\<rparr> in
      if attr = CONDITIONATTR_SPEEDDELTA then read_into 4 (\<lambda>v. put (s\<lparr>sp_speedDelta := v\<rparr>)) c p
      else if attr = CONDITIONATTR_FORMULA_MINA then read_into 4 (\<lambda>v. put (s\<lparr>sp_mina := v\<rparr>)) c p
      else if attr = CONDITIONATTR_FORMULA_MINB then read_into 4 (\<lambda>v. put (s\<lparr>sp_minb := v\<rparr>)) c p
      else if attr = CONDITIONATTR_FORMULA_MAXA then read_into 4 (\<lambda>v. put (s\<lparr>sp_maxa := v\<rparr>)) c p
      else if attr = CONDITIONATTR_FORMULA_MAXB then read_into 4 (\<lambda>v. put (s\<lparr>sp_maxb := v\<rparr>)) c p
      else base_unserializeProp attr c p)"

definition read_outfit :: "prop_stream \<Rightarrow> outfit option \<times> prop_stream" where
  "read_outfit p =
     (if length p < 12 then (None, p)
      else (Some \<lparr>lookType = le_word (take 2 p), lookTypeEx = le_word (take 2 (drop 2 p)),
                  lookMount = le_word (take 2 (drop 4 p)), lookHead = p ! 6, lookBody = p ! 7, lookLegs = p ! 8,
                  lookFeet = p ! 9, lookAddons = p ! 10, look_padding = p ! 11\<rparr>, drop 12 p))"

definition outfit_unserializeProp :: "u8 \<Rightarrow> condition \<Rightarrow> prop_stream \<Rightarrow> reader" where
  "outfit_unserializeProp attr c p =
     (if attr = CONDITIONATTR_OUTFIT then
        (case read_outfit p of
           (None, p) \<Rightarrow> (False, c, p)
         | (Some f, p) \<Rightarrow> (True, c\<lparr>co_class := ConditionOutfit f\<rparr>, p))
      else base_unserializeProp attr c p)"

definition light_unserializeProp :: "u8 \<Rightarrow> condition \<Rightarrow> light \<Rightarrow> prop_stream \<Rightarrow> reader" where
  "light_unserializeProp attr c l p =
     (let put = \<lambda>l. c\<lparr>co_class := ConditionLight l\<rparr> in
      if attr = CONDITIONATTR_LIGHTCOLOR
      then read_into 1 (\<lambda>v. put (l\<lparr>lg_lightInfo := (lg_lightInfo l)\<lparr>li_color := v\<rparr>\<rparr>)) c p
      else if attr = CONDITIONATTR_LIGHTLEVEL
      then read_into 1 (\<lambda>v. put (l\<lparr>lg_lightInfo := (lg_lightInfo l)\<lparr>li_level := v\<rparr>\<rparr>)) c p
      else if attr = CONDITIONATTR_LIGHTTICKS then read_into 4 (\<lambda>v. put (l\<lparr>lg_internalLightTicks := v\<rparr>)) c p
      else if attr = CONDITIONATTR_LIGHTINTERVAL then read_into 4 (\<lambda>v. put (l\<lparr>lg_lightChangeInterval := v\<rparr>)) c p
      else base_unserializeProp attr c p)"

definition unserializeProp :: "i64 \<Rightarrow> u8 \<Rightarrow> condition \<Rightarrow> prop_stream \<Rightarrow> reader option" where
  "unserializeProp now attr c p =
     (case co_class c of
        ConditionAttributes a \<Rightarrow> attributes_unserializeProp attr c a p
      | ConditionRegeneration r \<Rightarrow> Some (regeneration_unserializeProp attr c r p)
      | ConditionSoul s \<Rightarrow> Some (soul_unserializeProp attr c s p)
      | ConditionDamage d \<Rightarrow> Some (damage_unserializeProp now attr c d p)
      | ConditionSpeed s \<Rightarrow> Some (speed_unserializeProp attr c s p)
      | ConditionOutfit _ \<Rightarrow> Some (outfit_unserializeProp attr c p)
      | ConditionLight l \<Rightarrow> Some (light_unserializeProp attr c l p)
      | _ \<Rightarrow> Some (base_unserializeProp attr c p))"

subsection \<open>Readers consume the stream\<close>

lemma prop_read_mark [simp]:
  "prop_read 1 [] = (None :: u8 option, [])" "prop_read 1 (b # p) = (Some b, p)"
  "prop_read (Suc 0) [] = (None :: u8 option, [])" "prop_read (Suc 0) (b # p) = (Some b, p)"
  by (simp_all add: prop_read_def)

lemma prop_read_length: "length (snd (prop_read n p)) \<le> length p"
  by (simp add: prop_read_def)

lemma read_into_length: "length (snd (snd (read_into n f c p))) \<le> length p"
  by (simp add: read_into_def prop_read_def)

lemma base_unserializeProp_length: "length (snd (snd (base_unserializeProp attr c p))) \<le> length p"
  by (simp add: base_unserializeProp_def read_into_length)

lemma read_element_length: "read_element n i f c p = Some (ok, c', p') \<Longrightarrow> length p' \<le> length p"
  using read_into_length [of 4 f c p] by (simp add: read_element_def split: if_splits)

lemma reader_lengthD:
  "read_into n f c p = (ok, c', p') \<Longrightarrow> length p' \<le> length p"
  "base_unserializeProp attr c p = (ok, c', p') \<Longrightarrow> length p' \<le> length p"
  using read_into_length [of n f c p] base_unserializeProp_length [of attr c p] by simp_all

lemma attributes_unserializeProp_length:
  "attributes_unserializeProp attr c a p = Some (ok, c', p') \<Longrightarrow> length p' \<le> length p"
  unfolding attributes_unserializeProp_def Let_def
  by (auto dest: read_element_length reader_lengthD split: if_splits)

lemma unserializeProp_length:
  assumes "unserializeProp now attr c p = Some (ok, c', p')"
  shows "length p' \<le> length p"
proof (cases "co_class c")
  case (ConditionAttributes a)
  then show ?thesis
    using assms attributes_unserializeProp_length by (simp add: unserializeProp_def)
next
  case (ConditionDamage d)
  then have "p' = snd (snd (damage_unserializeProp now attr c d p))"
    using assms by (simp add: unserializeProp_def)
  then show ?thesis
    by (simp add: damage_unserializeProp_def read_into_length base_unserializeProp_length Let_def prop_skip_def
        read_interval_def)
next
  case (ConditionOutfit f)
  then have "p' = snd (snd (outfit_unserializeProp attr c p))"
    using assms by (simp add: unserializeProp_def)
  then show ?thesis
    by (simp add: outfit_unserializeProp_def base_unserializeProp_length read_outfit_def)
qed (use assms in \<open>auto simp: unserializeProp_def Let_def regeneration_unserializeProp_def
      soul_unserializeProp_def speed_unserializeProp_def light_unserializeProp_def
      dest: reader_lengthD split: if_splits\<close>)

subsection \<open>Whole conditions\<close>

function unserialize :: "i64 \<Rightarrow> condition \<Rightarrow> prop_stream \<Rightarrow> reader option" where
  "unserialize now c p =
     (case prop_read 1 p of
        (None, p) \<Rightarrow> Some (True, c, p)
      | (Some attr_type, p) \<Rightarrow>
          if attr_type = CONDITIONATTR_END then Some (True, c, p)
          else (case unserializeProp now attr_type c p of
                  None \<Rightarrow> None
                | Some (ok, c, p) \<Rightarrow> if \<not> ok then Some (False, c, p) else unserialize now c p))"
  by pat_completeness auto

termination
proof (relation "measure (\<lambda>(now, c, p). length p)")
  fix now :: i64 and c c' :: condition and p p' p'' :: prop_stream and a b mark ok cp
  assume "(a, p') = prop_read 1 p" "a = Some mark" "unserializeProp now mark c p' = Some b"
    "(ok, cp) = b" "(c', p'') = cp"
  then show "((now, c', p''), now, c, p) \<in> measure (\<lambda>(now, c, p). length p)"
    by (cases p) (auto dest: unserializeProp_length)
qed simp

declare unserialize.simps [simp del]

lemma unserialize_Nil [simp]: "unserialize now c [] = Some (True, c, [])"
  by (simp add: unserialize.simps)

lemma unserialize_Cons:
  "unserialize now c (b # p) =
     (if b = CONDITIONATTR_END then Some (True, c, p)
      else (case unserializeProp now b c p of
              None \<Rightarrow> None
            | Some (ok, c, p) \<Rightarrow> if \<not> ok then Some (False, c, p) else unserialize now c p))"
  by (subst unserialize.simps) simp

text \<open>The factory reads the members that every condition has; \<open>None\<close> is the null pointer.\<close>

definition read_attr :: "u8 \<Rightarrow> nat \<Rightarrow> prop_stream \<Rightarrow> ('a::len word \<times> prop_stream) option" where
  "read_attr expected n p =
     (case prop_read 1 p of
        (None, _) \<Rightarrow> None
      | (Some attr, p) \<Rightarrow>
          if attr \<noteq> expected then None
          else (case prop_read n p of (None, _) \<Rightarrow> None | (Some v, p) \<Rightarrow> Some (v, p)))"

definition createCondition_from :: "prop_stream \<Rightarrow> (condition \<times> prop_stream) option" where
  "createCondition_from p =
     do {
       (type :: u32, p) \<leftarrow> read_attr CONDITIONATTR_TYPE 4 p;
       (cid :: u32, p) \<leftarrow> read_attr CONDITIONATTR_ID 4 p;
       (ticks :: u32, p) \<leftarrow> read_attr CONDITIONATTR_TICKS 4 p;
       (buff :: u8, p) \<leftarrow> read_attr CONDITIONATTR_ISBUFF 1 p;
       (subId :: u32, p) \<leftarrow> read_attr CONDITIONATTR_SUBID 4 p;
       (aggressive :: u8, p) \<leftarrow> read_attr CONDITIONATTR_ISAGGRESSIVE 1 p;
       (constant :: u8, p) \<leftarrow> read_attr CONDITIONATTR_CONSTANT 1 p;
       c \<leftarrow> createCondition (ucast cid) type ticks 0 (buff \<noteq> 0) subId (aggressive \<noteq> 0);
       let c = c\<lparr>co_constant := (constant \<noteq> 0)\<rparr>;
       if co_constant c
       then do {
         (endTime :: i64, p) \<leftarrow> read_attr CONDITIONATTR_ENDTIME 8 p;
         Some (setEndTime endTime c, p) }
       else Some (c, p) }"

lemma read_attr_length: "read_attr a n p = Some (v, p') \<Longrightarrow> length p' < length p"
  by (auto simp: read_attr_def prop_read_def split: if_splits prod.splits option.splits)

lemma createCondition_from_length: "createCondition_from p = Some (c, p') \<Longrightarrow> length p' < length p"
  unfolding createCondition_from_def Let_def
  by (auto simp: Option.bind_eq_Some_conv split: if_splits dest!: read_attr_length)

text \<open>The stored conditions of a player: \<open>IOLoginData::savePlayer\<close> and \<open>loadPlayer\<close>.\<close>

definition save_conditions :: "condition list \<Rightarrow> prop_buffer" where
  "save_conditions cs =
     fold (\<lambda>c w. if isPersistent c \<or> co_constant c then prop_write 1 CONDITIONATTR_END (serialize c w) else w) cs []"

lemma unserialize_length: "unserialize now c p = Some (ok, c', p') \<Longrightarrow> length p' \<le> length p"
proof (induction "length p" arbitrary: c p rule: less_induct)
  case less
  show ?case
  proof (cases p)
    case (Cons b q)
    show ?thesis
    proof (cases "b = CONDITIONATTR_END")
      case False
      with less.prems Cons obtain ok1 c1 p1 where step: "unserializeProp now b c q = Some (ok1, c1, p1)"
        and cont: "if \<not> ok1 then (ok, c', p') = (False, c1, p1) else unserialize now c1 p1 = Some (ok, c', p')"
        by (auto simp: unserialize_Cons split: option.splits if_splits)
      have "length p1 < length p" using unserializeProp_length [OF step] Cons by simp
      then show ?thesis using cont less.hyps [of p1 c1] by (auto split: if_splits)
    qed (use less.prems Cons in \<open>simp add: unserialize_Cons\<close>)
  qed (use less.prems in simp)
qed

function load_conditions :: "i64 \<Rightarrow> prop_stream \<Rightarrow> condition list \<Rightarrow> condition list option" where
  "load_conditions now p storedConditionList =
     (case createCondition_from p of
        None \<Rightarrow> Some storedConditionList
      | Some (c, p) \<Rightarrow>
          (case unserialize now c p of
             None \<Rightarrow> None
           | Some (ok, c, p) \<Rightarrow>
               load_conditions now p (if ok then c # storedConditionList else storedConditionList)))"
  by pat_completeness auto

termination
  by (relation "measure (\<lambda>(now, p, cs). length p)")
    (auto dest: createCondition_from_length unserialize_length order.strict_trans1)

declare load_conditions.simps [simp del]

subsection \<open>What is written\<close>

lemma prop_write_append [simp]: "prop_write n v w = w @ le_bytes n v"
  by (simp add: prop_write_def)

lemma le_bytes_mark [simp]: "le_bytes 1 (b :: u8) = [b]" "le_bytes (Suc 0) (b :: u8) = [b]"
  by simp_all

definition base_rep :: "condition \<Rightarrow> u8 list" where
  "base_rep c =
     CONDITIONATTR_TYPE # le_bytes 4 (co_type c) @
     CONDITIONATTR_ID # le_bytes 4 (scast (co_id c) :: u32) @
     CONDITIONATTR_TICKS # le_bytes 4 (co_ticks c) @
     CONDITIONATTR_ISBUFF # of_bool (co_isBuff c) #
     CONDITIONATTR_SUBID # le_bytes 4 (co_subId c) @
     CONDITIONATTR_ISAGGRESSIVE # of_bool (co_aggressive c) #
     CONDITIONATTR_CONSTANT # of_bool (co_constant c) #
     (if co_constant c then CONDITIONATTR_ENDTIME # le_bytes 8 (co_endTime c) else [])"

lemma base_serialize_rep: "base_serialize c w = w @ base_rep c"
  by (simp add: base_serialize_def base_rep_def Let_def del: le_bytes.simps)

definition each_rep :: "u8 \<Rightarrow> i32 list \<Rightarrow> u8 list" where
  "each_rep attr xs = concat (map (\<lambda>x. attr # le_bytes 4 x) xs)"

lemma write_each_rep: "write_each attr xs w = w @ each_rep attr xs"
  by (induction xs arbitrary: w) (simp_all add: write_each_def each_rep_def del: le_bytes.simps)

definition interval_rep :: "interval_info \<Rightarrow> u8 list" where
  "interval_rep i = le_bytes 4 (ii_timeLeft i) @ le_bytes 4 (ii_value i) @ le_bytes 4 (ii_interval i)"

definition outfit_rep :: "outfit \<Rightarrow> u8 list" where
  "outfit_rep f = le_bytes 2 (lookType f) @ le_bytes 2 (lookTypeEx f) @ le_bytes 2 (lookMount f) @
     [lookHead f, lookBody f, lookLegs f, lookFeet f, lookAddons f, look_padding f]"

primrec class_rep :: "condition_class \<Rightarrow> u8 list" where
  "class_rep ConditionGeneric = []"
| "class_rep ConditionInvisible = []"
| "class_rep (ConditionDrunk _) = []"
| "class_rep (ConditionAttributes a) =
     each_rep CONDITIONATTR_SKILLS (at_skills a) @ each_rep CONDITIONATTR_STATS (at_stats a) @
     CONDITIONATTR_DISABLEDEFENSE # of_bool (at_disableDefense a) #
     each_rep CONDITIONATTR_SPECIALSKILLS (at_specialSkills a) @
     each_rep CONDITIONATTR_SPECIALSKILLS (drop EXPERIENCERATE_BASE (at_experienceRate a))"
| "class_rep (ConditionRegeneration r) =
     CONDITIONATTR_HEALTHTICKS # le_bytes 4 (rg_healthTicks r) @
     CONDITIONATTR_HEALTHGAIN # le_bytes 4 (rg_healthGain r) @
     CONDITIONATTR_HEALTHGAINPERCENT # le_bytes 4 (rg_healthGainPercent r) @
     CONDITIONATTR_MANATICKS # le_bytes 4 (rg_manaTicks r) @
     CONDITIONATTR_MANAGAIN # le_bytes 4 (rg_manaGain r) @
     CONDITIONATTR_MANAGAINPERCENT # le_bytes 4 (rg_manaGainPercent r)"
| "class_rep (ConditionSoul s) =
     CONDITIONATTR_SOULGAIN # le_bytes 4 (so_soulGain s) @ CONDITIONATTR_SOULTICKS # le_bytes 4 (so_soulTicks s)"
| "class_rep (ConditionDamage d) =
     CONDITIONATTR_DELAYED # of_bool (da_delayed d) #
     CONDITIONATTR_PERIODDAMAGE # le_bytes 4 (da_periodDamage d) @
     concat (map (\<lambda>i. CONDITIONATTR_INTERVALDATA # interval_rep i) (da_damageList d))"
| "class_rep (ConditionSpeed s) =
     CONDITIONATTR_SPEEDDELTA # le_bytes 4 (sp_speedDelta s) @
     CONDITIONATTR_FORMULA_MINA # le_bytes 4 (sp_mina s) @ CONDITIONATTR_FORMULA_MINB # le_bytes 4 (sp_minb s) @
     CONDITIONATTR_FORMULA_MAXA # le_bytes 4 (sp_maxa s) @ CONDITIONATTR_FORMULA_MAXB # le_bytes 4 (sp_maxb s)"
| "class_rep (ConditionOutfit f) = CONDITIONATTR_OUTFIT # outfit_rep f"
| "class_rep (ConditionLight l) =
     CONDITIONATTR_LIGHTCOLOR # le_bytes 4 (ucast (li_color (lg_lightInfo l)) :: u32) @
     CONDITIONATTR_LIGHTLEVEL # le_bytes 4 (ucast (li_level (lg_lightInfo l)) :: u32) @
     CONDITIONATTR_LIGHTTICKS # le_bytes 4 (lg_internalLightTicks l) @
     CONDITIONATTR_LIGHTINTERVAL # le_bytes 4 (lg_lightChangeInterval l)"

lemma write_intervals_rep:
  "fold (\<lambda>i w. write_interval i (prop_write 1 CONDITIONATTR_INTERVALDATA w)) is w =
     w @ concat (map (\<lambda>i. CONDITIONATTR_INTERVALDATA # interval_rep i) is)"
  by (induction "is" arbitrary: w) (simp_all add: write_interval_def interval_rep_def del: le_bytes.simps)

lemma serialize_rep: "serialize c w = w @ base_rep c @ class_rep (co_class c)"
  by (cases "co_class c")
    (simp_all add: serialize_def base_serialize_rep attributes_serialize_def regeneration_serialize_def
      soul_serialize_def damage_serialize_def speed_serialize_def outfit_serialize_def light_serialize_def
      write_each_rep write_intervals_rep [simplified] write_outfit_def outfit_rep_def Let_def
      del: le_bytes.simps)

definition condition_rep :: "condition \<Rightarrow> u8 list" where
  "condition_rep c = base_rep c @ class_rep (co_class c) @ [CONDITIONATTR_END]"

definition stored :: "condition \<Rightarrow> bool" where
  "stored c \<longleftrightarrow> isPersistent c \<or> co_constant c"

lemma save_conditions_fold:
  "fold (\<lambda>c w. if isPersistent c \<or> co_constant c then prop_write 1 CONDITIONATTR_END (serialize c w) else w) cs w =
     w @ concat (map condition_rep (filter stored cs))"
  by (induction cs arbitrary: w) (auto simp: serialize_rep condition_rep_def stored_def)

lemma save_conditions_rep: "save_conditions cs = concat (map condition_rep (filter stored cs))"
  using save_conditions_fold [of cs "[]"] by (simp add: save_conditions_def)

subsection \<open>Reading the common members\<close>

lemma read_attr_rep:
  "LENGTH('a) \<le> 8 * n \<Longrightarrow> read_attr attr n (attr # le_bytes n v @ p) = Some (v :: 'a::len word, p)"
  by (simp add: read_attr_def prop_read_rep del: le_bytes.simps)

lemma read_attr_flag [simp]:
  "read_attr attr 1 (attr # b # p) = Some (b :: u8, p)"
  "read_attr attr (Suc 0) (attr # b # p) = Some (b :: u8, p)"
  by (simp_all add: read_attr_def)

lemma read_attr_32 [simp]: "read_attr attr 4 (attr # le_bytes 4 v @ p) = Some (v :: u32, p)"
  by (rule read_attr_rep) simp

lemma read_attr_64 [simp]: "read_attr attr 8 (attr # le_bytes 8 v @ p) = Some (v :: u64, p)"
  by (rule read_attr_rep) simp

lemma ucast_scast_id [simp]: "(ucast (scast (i :: i8) :: u32) :: i8) = i"
  by (rule bit_word_eqI) (auto simp: bit_ucast_iff bit_signed_iff)

lemma of_bool_u8 [simp]: "(of_bool b :: u8) = 0 \<longleftrightarrow> \<not> b"
  by simp

definition same_class :: "condition_class \<Rightarrow> condition_class \<Rightarrow> bool" where
  "same_class a b \<longleftrightarrow>
     (case (a, b) of
        (ConditionGeneric, ConditionGeneric) \<Rightarrow> True
      | (ConditionAttributes _, ConditionAttributes _) \<Rightarrow> True
      | (ConditionRegeneration _, ConditionRegeneration _) \<Rightarrow> True
      | (ConditionSoul _, ConditionSoul _) \<Rightarrow> True
      | (ConditionInvisible, ConditionInvisible) \<Rightarrow> True
      | (ConditionDamage _, ConditionDamage _) \<Rightarrow> True
      | (ConditionSpeed _, ConditionSpeed _) \<Rightarrow> True
      | (ConditionOutfit _, ConditionOutfit _) \<Rightarrow> True
      | (ConditionLight _, ConditionLight _) \<Rightarrow> True
      | (ConditionDrunk _, ConditionDrunk _) \<Rightarrow> True
      | _ \<Rightarrow> False)"

text \<open>The class of a condition is the one the factory chooses for its type.\<close>

definition well_typed :: "condition \<Rightarrow> bool" where
  "well_typed c \<longleftrightarrow>
     (case createCondition 0 (co_type c) 0 0 False 0 False of
        None \<Rightarrow> False
      | Some c' \<Rightarrow> same_class (co_class c') (co_class c))"

primrec blank_class :: "condition_class \<Rightarrow> condition_class" where
  "blank_class ConditionGeneric = ConditionGeneric"
| "blank_class ConditionInvisible = ConditionInvisible"
| "blank_class (ConditionDrunk _) = ConditionDrunk 25"
| "blank_class (ConditionAttributes _) = ConditionAttributes new_attributes"
| "blank_class (ConditionRegeneration _) = ConditionRegeneration new_regeneration"
| "blank_class (ConditionSoul _) = ConditionSoul new_soul"
| "blank_class (ConditionDamage _) = ConditionDamage new_damage"
| "blank_class (ConditionSpeed _) = ConditionSpeed (new_speed 0)"
| "blank_class (ConditionOutfit _) = ConditionOutfit new_outfit"
| "blank_class (ConditionLight _) = ConditionLight (new_light 0 0)"

definition first_ticks :: "condition \<Rightarrow> i32" where
  "first_ticks c = (case co_class c of ConditionDamage _ \<Rightarrow> 0 | _ \<Rightarrow> co_ticks c)"

text \<open>What the factory makes of the common members, and the payload of the class still blank.\<close>

definition fresh :: "condition \<Rightarrow> condition" where
  "fresh c =
     c\<lparr>co_ticks := first_ticks c,
       co_endTime := (if co_constant c then co_endTime c else if first_ticks c = -1 then 0x7FFFFFFFFFFFFFFF else 0),
       co_class := blank_class (co_class c)\<rparr>"

lemma createCondition_class:
  "map_option co_class (createCondition cid type ticks 0 buff subId aggressive) =
   map_option co_class (createCondition 0 type 0 0 False 0 False)"
  unfolding createCondition_def
  by (simp only: if_distrib [of "map_option co_class"] option.map new_condition_def condition.simps)

lemma either_branch: "P a \<Longrightarrow> P b \<Longrightarrow> P (if x then a else b)"
  by simp

lemma createCondition_shape:
  "pred_option (\<lambda>c. c = new_condition cid type (case co_class c of ConditionDamage _ \<Rightarrow> 0 | _ \<Rightarrow> ticks)
       buff subId aggressive (blank_class (co_class c)))
     (createCondition cid type ticks 0 buff subId aggressive)"
  unfolding createCondition_def
  by (intro either_branch [where P = "pred_option _"]) (simp_all add: new_condition_def new_drunk_def)

lemma same_class_blank: "same_class a b \<Longrightarrow> blank_class a = blank_class b"
  by (cases a; cases b) (simp_all add: same_class_def)

lemma same_class_damage:
  "same_class a b \<Longrightarrow> (case a of ConditionDamage _ \<Rightarrow> x | _ \<Rightarrow> y) = (case b of ConditionDamage _ \<Rightarrow> x | _ \<Rightarrow> y)"
  by (cases a; cases b) (simp_all add: same_class_def)

lemma createCondition_blank:
  assumes "well_typed c"
  shows "createCondition cid (co_type c) (co_ticks c) 0 buff subId aggressive =
    Some (new_condition cid (co_type c) (first_ticks c) buff subId aggressive (blank_class (co_class c)))"
proof -
  from assms obtain c0 where "createCondition 0 (co_type c) 0 0 False 0 False = Some c0"
    and same: "same_class (co_class c0) (co_class c)"
    by (auto simp: well_typed_def split: option.splits)
  with createCondition_class [of cid "co_type c" "co_ticks c" buff subId aggressive] obtain c1
    where c1: "createCondition cid (co_type c) (co_ticks c) 0 buff subId aggressive = Some c1"
      and "co_class c1 = co_class c0"
    by auto
  with createCondition_shape [of cid "co_type c" "co_ticks c" buff subId aggressive] same show ?thesis
    by (simp add: c1 first_ticks_def same_class_blank [OF same] same_class_damage [OF same])
qed

lemma createCondition_from_rep:
  assumes "well_typed c"
  shows "createCondition_from (base_rep c @ p) = Some (fresh c, p)"
proof -
  have "createCondition (ucast (scast (co_id c) :: u32)) (co_type c) (co_ticks c) 0 (co_isBuff c) (co_subId c) (co_aggressive c) =
    Some (new_condition (co_id c) (co_type c) (first_ticks c) (co_isBuff c) (co_subId c) (co_aggressive c)
      (blank_class (co_class c)))"
    using createCondition_blank [OF assms] by simp
  then show ?thesis
    by (cases "co_constant c")
      (simp_all add: createCondition_from_def base_rep_def fresh_def new_condition_def setEndTime_def Let_def
        del: le_bytes.simps)
qed

subsection \<open>Reading the members of a class\<close>

lemma read_into_rep:
  "LENGTH('a) \<le> 8 * n \<Longrightarrow> read_into n f c (le_bytes n v @ p) = (True, f (v :: 'a::len word), p)"
  by (simp add: read_into_def prop_read_rep del: le_bytes.simps)

lemma read_into_32 [simp]: "read_into 4 f c (le_bytes 4 v @ p) = (True, f (v :: u32), p)"
  by (rule read_into_rep) simp

lemma read_into_flag [simp]:
  "read_into 1 f c (b # p) = (True, f (b :: u8), p)" "read_into (Suc 0) f c (b # p) = (True, f (b :: u8), p)"
  by (simp_all add: read_into_def)

lemma take_le_bytes [simp]: "take n (le_bytes n v @ p) = le_bytes n v" "drop n (le_bytes n v @ p) = p"
  by simp_all

lemma read_interval_rep [simp]: "read_interval (interval_rep i @ p) = (Some i, p)"
  by (simp add: read_interval_def interval_rep_def codec_simps del: le_bytes.simps)

lemma read_outfit_rep [simp]: "read_outfit (outfit_rep f @ p) = (Some f, p)"
  by (simp add: read_outfit_def outfit_rep_def codec_simps nth_append del: le_bytes.simps)

lemma unserialize_END [simp]: "unserialize now c (CONDITIONATTR_END # p) = Some (True, c, p)"
  by (simp add: unserialize_Cons)

text \<open>One attribute is read and the loop goes on.\<close>

lemma unserialize_step:
  assumes "unserializeProp now b c p = Some (True, c', p')" and "b \<noteq> CONDITIONATTR_END"
  shows "unserialize now c (b # p) = unserialize now c' p'"
  using assms by (simp add: unserialize_Cons)

lemmas unserialize_props = unserializeProp_def attributes_unserializeProp_def regeneration_unserializeProp_def
  soul_unserializeProp_def damage_unserializeProp_def speed_unserializeProp_def outfit_unserializeProp_def
  light_unserializeProp_def Let_def

lemma unserialize_regeneration:
  assumes "co_class c = ConditionRegeneration r"
  shows "unserialize now c (class_rep (ConditionRegeneration r') @ CONDITIONATTR_END # p) =
    Some (True, c\<lparr>co_class := ConditionRegeneration (r'\<lparr>rg_internalHealthTicks := rg_internalHealthTicks r,
      rg_internalManaTicks := rg_internalManaTicks r\<rparr>)\<rparr>, p)"
  using assms
  by (simp add: unserialize_Cons unserialize_props condition_attrs del: le_bytes.simps)

lemma unserialize_soul:
  assumes "co_class c = ConditionSoul s"
  shows "unserialize now c (class_rep (ConditionSoul s') @ CONDITIONATTR_END # p) =
    Some (True, c\<lparr>co_class := ConditionSoul (s'\<lparr>so_internalSoulTicks := so_internalSoulTicks s\<rparr>)\<rparr>, p)"
  using assms
  by (simp add: unserialize_Cons unserialize_props condition_attrs del: le_bytes.simps)

lemma unserialize_speed:
  assumes "co_class c = ConditionSpeed s"
  shows "unserialize now c (class_rep (ConditionSpeed s') @ CONDITIONATTR_END # p) =
    Some (True, c\<lparr>co_class := ConditionSpeed s'\<rparr>, p)"
  using assms
  by (simp add: unserialize_Cons unserialize_props condition_attrs del: le_bytes.simps)

lemma unserialize_outfit:
  assumes "co_class c = ConditionOutfit f"
  shows "unserialize now c (class_rep (ConditionOutfit f') @ CONDITIONATTR_END # p) =
    Some (True, c\<lparr>co_class := ConditionOutfit f'\<rparr>, p)"
  using assms
  by (simp add: unserialize_Cons unserialize_props condition_attrs del: le_bytes.simps)

definition total_interval :: "interval_info list \<Rightarrow> i32" where
  "total_interval is = sum_list (map ii_interval is)"

definition intervals_fit :: "interval_info list \<Rightarrow> bool" where
  "intervals_fit is \<longleftrightarrow>
     (\<forall>i \<in> set is. 0 \<le>s ii_interval i) \<and> (\<Sum>i \<leftarrow> is. sint (ii_interval i)) < 2147483648"

lemma total_interval_simps [simp]:
  "total_interval [] = 0" "total_interval (i # is) = ii_interval i + total_interval is"
  by (simp_all add: total_interval_def)

lemma unserialize_intervals:
  assumes "co_class c = ConditionDamage d" and "\<forall>i \<in> set is. 0 \<le>s ii_interval i"
    and "0 \<le> sint (co_ticks c)" and "sint (co_ticks c) + (\<Sum>i \<leftarrow> is. sint (ii_interval i)) < 2147483648"
  shows "unserialize now c
      (concat (map (\<lambda>i. CONDITIONATTR_INTERVALDATA # interval_rep i) is) @ CONDITIONATTR_END # p) =
    Some (True, c\<lparr>co_class := ConditionDamage (d\<lparr>da_damageList := da_damageList d @ is\<rparr>),
      co_ticks := co_ticks c + total_interval is,
      co_endTime := (if is = [] then co_endTime c else scast (co_ticks c + total_interval is) + now)\<rparr>, p)"
  using assms
proof (induction "is" arbitrary: c d)
  case (Cons i "is")
  let ?c = "setTicks now (co_ticks c + ii_interval i)
    (c\<lparr>co_class := ConditionDamage (d\<lparr>da_damageList := da_damageList d @ [i]\<rparr>)\<rparr>)"
  have "0 \<le> (\<Sum>i \<leftarrow> is. sint (ii_interval i))"
    using Cons.prems(2) by (intro sum_list_nonneg) (auto simp: word_sle_eq)
  moreover have "0 \<le> sint (ii_interval i)" using Cons.prems(2) by (simp add: word_sle_eq)
  ultimately have sint: "sint (co_ticks c + ii_interval i) = sint (co_ticks c) + sint (ii_interval i)"
    using Cons.prems(3,4) by (intro sint_add_i32) auto
  have alive: "co_ticks c \<noteq> -1" using Cons.prems(3) by auto
  have "unserialize now c
      (concat (map (\<lambda>i. CONDITIONATTR_INTERVALDATA # interval_rep i) (i # is)) @ CONDITIONATTR_END # p) =
    unserialize now ?c
      (concat (map (\<lambda>i. CONDITIONATTR_INTERVALDATA # interval_rep i) is) @ CONDITIONATTR_END # p)"
    using Cons.prems(1) alive
    by (simp add: unserialize_Cons unserializeProp_def damage_unserializeProp_def condition_attrs)
  also have "\<dots> = Some (True, c\<lparr>co_class := ConditionDamage (d\<lparr>da_damageList := da_damageList d @ i # is\<rparr>),
      co_ticks := co_ticks c + total_interval (i # is),
      co_endTime := scast (co_ticks c + total_interval (i # is)) + now\<rparr>, p)"
    using Cons.prems Cons.IH [of ?c "d\<lparr>da_damageList := da_damageList d @ [i]\<rparr>"] sint
      \<open>0 \<le> sint (ii_interval i)\<close>
    by (simp add: setTicks_def setEndTime_def add.assoc)
  finally show ?case by simp
qed simp

lemma unserialize_damage:
  assumes "co_class c = ConditionDamage d" and "da_damageList d = []" and "co_ticks c = 0"
    and fit: "intervals_fit (da_damageList d')"
  shows "unserialize now c (class_rep (ConditionDamage d') @ CONDITIONATTR_END # p) =
    Some (True, c\<lparr>co_class := ConditionDamage (d\<lparr>da_delayed := da_delayed d', da_periodDamage := da_periodDamage d',
        da_damageList := da_damageList d'\<rparr>),
      co_ticks := total_interval (da_damageList d'),
      co_endTime := (if da_damageList d' = [] then co_endTime c
                     else scast (total_interval (da_damageList d')) + now)\<rparr>, p)"
proof -
  let ?d = "d\<lparr>da_delayed := da_delayed d', da_periodDamage := da_periodDamage d'\<rparr>"
  let ?rest = "concat (map (\<lambda>i. CONDITIONATTR_INTERVALDATA # interval_rep i) (da_damageList d')) @ CONDITIONATTR_END # p"
  have "unserialize now c (class_rep (ConditionDamage d') @ CONDITIONATTR_END # p) =
    unserialize now (c\<lparr>co_class := ConditionDamage ?d\<rparr>) ?rest"
    using assms(1) by (simp add: unserialize_Cons unserialize_props condition_attrs del: le_bytes.simps)
  also have "\<dots> = Some (True, c\<lparr>co_class := ConditionDamage (?d\<lparr>da_damageList := da_damageList d'\<rparr>),
      co_ticks := total_interval (da_damageList d'),
      co_endTime := (if da_damageList d' = [] then co_endTime c
                     else scast (total_interval (da_damageList d')) + now)\<rparr>, p)"
    using assms(2,3) fit
      unserialize_intervals [of "c\<lparr>co_class := ConditionDamage ?d\<rparr>" ?d "da_damageList d'" now p]
    by (simp add: intervals_fit_def)
  finally show ?thesis by simp
qed

subsection \<open>What comes back\<close>

text \<open>
  A condition read back has lost what is not written: the tick counters of regeneration, the limits, the
  owner and the flags of a damage condition, whose time is the sum of the intervals still to come, and the
  strength of drunkenness; only a constant condition keeps the moment at which it ends.
\<close>

primrec reloaded_class :: "condition_class \<Rightarrow> condition_class" where
  "reloaded_class ConditionGeneric = ConditionGeneric"
| "reloaded_class ConditionInvisible = ConditionInvisible"
| "reloaded_class (ConditionDrunk _) = ConditionDrunk 25"
| "reloaded_class (ConditionAttributes a) = ConditionAttributes a"
| "reloaded_class (ConditionRegeneration r) =
     ConditionRegeneration (r\<lparr>rg_internalHealthTicks := 0, rg_internalManaTicks := 0\<rparr>)"
| "reloaded_class (ConditionSoul s) = ConditionSoul (s\<lparr>so_internalSoulTicks := 0\<rparr>)"
| "reloaded_class (ConditionDamage d) =
     ConditionDamage (new_damage\<lparr>da_delayed := da_delayed d, da_periodDamage := da_periodDamage d,
       da_damageList := da_damageList d\<rparr>)"
| "reloaded_class (ConditionSpeed s) = ConditionSpeed s"
| "reloaded_class (ConditionOutfit f) = ConditionOutfit f"
| "reloaded_class (ConditionLight l) = ConditionLight l"

definition reloaded_ticks :: "condition \<Rightarrow> i32" where
  "reloaded_ticks c = (case co_class c of ConditionDamage d \<Rightarrow> total_interval (da_damageList d) | _ \<Rightarrow> co_ticks c)"

definition reloaded_endTime :: "i64 \<Rightarrow> condition \<Rightarrow> i64" where
  "reloaded_endTime now c =
     (case co_class c of
        ConditionDamage d \<Rightarrow>
          (if da_damageList d \<noteq> [] then scast (reloaded_ticks c) + now
           else if co_constant c then co_endTime c else 0)
      | _ \<Rightarrow> if co_constant c then co_endTime c else if co_ticks c = -1 then 0x7FFFFFFFFFFFFFFF else 0)"

definition reloaded :: "i64 \<Rightarrow> condition \<Rightarrow> condition" where
  "reloaded now c =
     c\<lparr>co_ticks := reloaded_ticks c, co_endTime := reloaded_endTime now c, co_class := reloaded_class (co_class c)\<rparr>"

definition storable :: "condition \<Rightarrow> bool" where
  "storable c \<longleftrightarrow> well_typed c \<and>
     (case co_class c of
        ConditionAttributes _ \<Rightarrow> False
      | ConditionLight _ \<Rightarrow> False
      | ConditionDamage d \<Rightarrow> intervals_fit (da_damageList d)
      | _ \<Rightarrow> True)"

lemma unserialize_rep:
  assumes "storable c"
  shows "unserialize now (fresh c) (class_rep (co_class c) @ CONDITIONATTR_END # p) = Some (True, reloaded now c, p)"
proof (cases "co_class c")
  case (ConditionRegeneration r)
  then show ?thesis
    by (subst ConditionRegeneration, subst unserialize_regeneration [where r = new_regeneration])
      (simp_all add: fresh_def reloaded_def reloaded_ticks_def reloaded_endTime_def first_ticks_def new_regeneration_def)
next
  case (ConditionSoul s)
  then show ?thesis
    by (subst ConditionSoul, subst unserialize_soul [where s = new_soul])
      (simp_all add: fresh_def reloaded_def reloaded_ticks_def reloaded_endTime_def first_ticks_def new_soul_def)
next
  case (ConditionDamage d)
  then show ?thesis
    using assms
    by (subst ConditionDamage, subst unserialize_damage [where d = new_damage])
      (simp_all add: fresh_def reloaded_def reloaded_ticks_def reloaded_endTime_def first_ticks_def new_damage_def
        storable_def)
next
  case (ConditionSpeed s)
  then show ?thesis
    by (subst ConditionSpeed, subst unserialize_speed [where s = "new_speed 0"])
      (simp_all add: fresh_def reloaded_def reloaded_ticks_def reloaded_endTime_def first_ticks_def)
next
  case (ConditionOutfit f)
  then show ?thesis
    by (subst ConditionOutfit, subst unserialize_outfit [where f = new_outfit])
      (simp_all add: fresh_def reloaded_def reloaded_ticks_def reloaded_endTime_def first_ticks_def)
qed (use assms in \<open>simp_all add: storable_def fresh_def reloaded_def reloaded_ticks_def reloaded_endTime_def
      first_ticks_def\<close>)

lemma load_storable:
  assumes "storable c"
  shows "load_conditions now (condition_rep c @ p) cs = load_conditions now p (reloaded now c # cs)"
  using createCondition_from_rep [of c] unserialize_rep [OF assms] assms
  by (subst load_conditions.simps) (simp add: condition_rep_def storable_def)

lemma load_all_storable:
  "\<forall>c \<in> set cs. storable c \<Longrightarrow>
   load_conditions now (concat (map condition_rep cs) @ p) acc =
   load_conditions now p (rev (map (reloaded now) cs) @ acc)"
  by (induction cs arbitrary: acc) (simp_all add: load_storable)

lemma load_nothing [simp]: "load_conditions now [] cs = Some cs"
  by (simp add: load_conditions.simps createCondition_from_def read_attr_def)

subsection \<open>What does not come back\<close>

lemma each_rep_append: "each_rep attr xs @ each_rep attr ys = each_rep attr (xs @ ys)"
  by (simp add: each_rep_def)

lemma each_rep_simps [simp]:
  "each_rep attr [] = []" "each_rep attr (x # xs) = attr # le_bytes 4 x @ each_rep attr xs"
  by (simp_all add: each_rep_def)

lemma read_each_skills:
  "at_currentSkill a + length xs \<le> 7 \<Longrightarrow>
   \<exists>a'. unserialize now (set_attributes a c) (each_rep CONDITIONATTR_SKILLS xs @ p) = unserialize now (set_attributes a' c) p
     \<and> at_currentStat a' = at_currentStat a \<and> at_currentSpecialSkill a' = at_currentSpecialSkill a"
proof (induction xs arbitrary: a)
  case (Cons x xs)
  let ?a = "set_skills (at_currentSkill a) x (a\<lparr>at_currentSkill := Suc (at_currentSkill a)\<rparr>)"
  have "unserialize now (set_attributes a c) (each_rep CONDITIONATTR_SKILLS (x # xs) @ p) =
    unserialize now (set_attributes ?a c) (each_rep CONDITIONATTR_SKILLS xs @ p)"
    using Cons.prems
    by (simp add: unserialize_Cons unserialize_props read_element_def condition_attrs del: le_bytes.simps)
  with Cons.IH [of ?a] Cons.prems show ?case by simp
qed auto

lemma read_each_stats:
  "at_currentStat a + length xs \<le> 4 \<Longrightarrow>
   \<exists>a'. unserialize now (set_attributes a c) (each_rep CONDITIONATTR_STATS xs @ p) = unserialize now (set_attributes a' c) p
     \<and> at_currentSpecialSkill a' = at_currentSpecialSkill a"
proof (induction xs arbitrary: a)
  case (Cons x xs)
  let ?a = "set_stats (at_currentStat a) x (a\<lparr>at_currentStat := Suc (at_currentStat a)\<rparr>)"
  have "unserialize now (set_attributes a c) (each_rep CONDITIONATTR_STATS (x # xs) @ p) =
    unserialize now (set_attributes ?a c) (each_rep CONDITIONATTR_STATS xs @ p)"
    using Cons.prems
    by (simp add: unserialize_Cons unserialize_props read_element_def condition_attrs del: le_bytes.simps)
  with Cons.IH [of ?a] Cons.prems show ?case by simp
qed auto

lemma too_many_special_skills:
  "6 < at_currentSpecialSkill a + length xs \<Longrightarrow>
   unserialize now (set_attributes a c) (each_rep CONDITIONATTR_SPECIALSKILLS xs @ p) = None \<or>
   6 < at_currentSpecialSkill a"
proof (induction xs arbitrary: a)
  case (Cons x xs)
  let ?a = "set_specialSkills (at_currentSpecialSkill a) x (a\<lparr>at_currentSpecialSkill := Suc (at_currentSpecialSkill a)\<rparr>)"
  show ?case
  proof (cases "at_currentSpecialSkill a < 6")
    case True
    then have "unserialize now (set_attributes a c) (each_rep CONDITIONATTR_SPECIALSKILLS (x # xs) @ p) =
      unserialize now (set_attributes ?a c) (each_rep CONDITIONATTR_SPECIALSKILLS xs @ p)"
      by (simp add: unserialize_Cons unserialize_props read_element_def condition_attrs del: le_bytes.simps)
    with Cons.IH [of ?a] Cons.prems True show ?thesis by auto
  next
    case False
    then show ?thesis
      by (simp add: unserialize_Cons unserialize_props read_element_def condition_attrs del: le_bytes.simps)
  qed
qed simp

definition sized :: "attributes \<Rightarrow> bool" where
  "sized a \<longleftrightarrow> length (at_skills a) = 7 \<and> length (at_specialSkills a) = 6 \<and> length (at_stats a) = 4 \<and>
     length (at_experienceRate a) = 5"

lemma unserialize_attributes:
  assumes "co_class c = ConditionAttributes a" and "sized a"
  shows "unserialize now (fresh c) (class_rep (co_class c) @ CONDITIONATTR_END # p) = None"
proof -
  let ?special = "each_rep CONDITIONATTR_SPECIALSKILLS
    (at_specialSkills a @ drop EXPERIENCERATE_BASE (at_experienceRate a)) @ CONDITIONATTR_END # p"
  let ?stats = "each_rep CONDITIONATTR_STATS (at_stats a) @
    CONDITIONATTR_DISABLEDEFENSE # of_bool (at_disableDefense a) # ?special"
  have fresh: "fresh c = set_attributes new_attributes (fresh c)"
    using assms(1) by (simp add: fresh_def)
  obtain a1 where skills: "unserialize now (fresh c) (each_rep CONDITIONATTR_SKILLS (at_skills a) @ ?stats) =
      unserialize now (set_attributes a1 (fresh c)) ?stats"
    and a1: "at_currentStat a1 = 0" "at_currentSpecialSkill a1 = 0"
    using read_each_skills [of new_attributes "at_skills a" now "fresh c" ?stats] assms(2) fresh
    by (auto simp: sized_def new_attributes_def)
  obtain a2 where stats: "unserialize now (set_attributes a1 (fresh c)) ?stats =
      unserialize now (set_attributes a2 (fresh c))
        (CONDITIONATTR_DISABLEDEFENSE # of_bool (at_disableDefense a) # ?special)"
    and a2: "at_currentSpecialSkill a2 = 0"
    using read_each_stats [of a1 "at_stats a" now "fresh c"] assms(2) a1 by (auto simp: sized_def)
  let ?a3 = "a2\<lparr>at_disableDefense := at_disableDefense a\<rparr>"
  have "unserialize now (set_attributes a2 (fresh c))
      (CONDITIONATTR_DISABLEDEFENSE # of_bool (at_disableDefense a) # ?special) =
    unserialize now (set_attributes ?a3 (fresh c)) ?special"
    by (simp add: unserialize_Cons unserialize_props condition_attrs)
  moreover have "unserialize now (set_attributes ?a3 (fresh c)) ?special = None"
    using too_many_special_skills [of ?a3 "at_specialSkills a @ drop EXPERIENCERATE_BASE (at_experienceRate a)" now]
      assms(2) a2
    by (simp add: sized_def EXPERIENCERATE_BASE_def)
  ultimately show ?thesis
    using skills stats assms(1) by (simp add: each_rep_append [symmetric])
qed

lemma le_bytes_small: "le_bytes 4 (ucast (b :: u8) :: u32) = [b, 0, 0, 0]"
proof -
  have "drop_bit 8 (ucast b :: u32) = 0"
    by (rule bit_word_eqI) (auto simp: bit_drop_bit_eq bit_ucast_iff dest: bit_imp_le_length)
  moreover have "(ucast (ucast b :: u32) :: u8) = b"
    by (rule bit_word_eqI) (auto simp: bit_ucast_iff)
  moreover have "(4 :: nat) = Suc (Suc (Suc (Suc 0)))" by simp
  ultimately show ?thesis by (simp only:) (simp add: \<open>drop_bit 8 (ucast b :: u32) = 0\<close>)
qed

lemma unserialize_light:
  assumes "co_class c = ConditionLight l"
  shows "\<exists>c' q. unserialize now c (class_rep (ConditionLight l') @ p) = Some (False, c', 0 # q)"
  using assms
  by (simp add: le_bytes_small unserialize_Cons unserialize_props base_unserializeProp_def condition_attrs
      del: le_bytes.simps)

lemma createCondition_from_zero: "createCondition_from (0 # p) = None"
  by (simp add: createCondition_from_def read_attr_def condition_attrs)

lemma load_light:
  assumes "well_typed c" and "co_class c = ConditionLight l"
  shows "load_conditions now (condition_rep c @ p) cs = Some cs"
proof -
  obtain c' q where "unserialize now (fresh c) (class_rep (co_class c) @ CONDITIONATTR_END # p) = Some (False, c', 0 # q)"
    using unserialize_light [of "fresh c" "new_light 0 0" now l "CONDITIONATTR_END # p"] assms(2)
    by (auto simp: fresh_def)
  then show ?thesis
    using createCondition_from_rep [OF assms(1)]
    by (subst load_conditions.simps)
      (simp add: condition_rep_def load_conditions.simps [of now "0 # q"] createCondition_from_zero)
qed

lemma load_attributes:
  assumes "well_typed c" and "co_class c = ConditionAttributes a" and "sized a"
  shows "load_conditions now (condition_rep c @ p) cs = None"
  using createCondition_from_rep [OF assms(1)] unserialize_attributes [OF assms(2,3)]
  by (subst load_conditions.simps) (simp add: condition_rep_def)

subsection \<open>Properties\<close>

text \<open>
  C24: every condition of a player that is written to the database, light and attribute conditions excepted,
  is loaded again, in reverse order, with its type, id, sub id and flags and with all that is written of
  its class: the whole of an outfit or speed condition, the gains and the lengths of regeneration, the
  list, the periodic damage and the delay of a damage condition.  What is not written is reset, and
  the theorem says to what: the counters of regeneration to 0, the strength of drunkenness to 25, the
  owner, limits, start, interval, field and update flags of a damage condition to those of a new one, whose
  time is the sum of the intervals left.  The intervals of a damage condition must not be negative and
  must sum up below \<open>2 ^ 31\<close> milliseconds.
\<close>

theorem conditions_roundtrip:
  assumes "\<forall>c \<in> set cs. stored c \<longrightarrow> well_typed c"
    and "\<forall>c \<in> set cs. stored c \<longrightarrow> (\<forall>a l. co_class c \<noteq> ConditionAttributes a \<and> co_class c \<noteq> ConditionLight l)"
    and "\<forall>c \<in> set cs. \<forall>d. stored c \<and> co_class c = ConditionDamage d \<longrightarrow>
      (\<forall>i \<in> set (da_damageList d). 0 \<le> sint (ii_interval i)) \<and>
      (\<Sum>i \<leftarrow> da_damageList d. sint (ii_interval i)) < 2147483648"
  shows "load_conditions now (save_conditions cs) [] = Some (rev (map (reloaded now) (filter stored cs))) \<and>
    (\<forall>c. let c' = reloaded now c in
      co_type c' = co_type c \<and> co_id c' = co_id c \<and> co_subId c' = co_subId c \<and> co_isBuff c' = co_isBuff c \<and>
      co_aggressive c' = co_aggressive c \<and> co_constant c' = co_constant c \<and>
      (case co_class c of
         ConditionRegeneration r \<Rightarrow> co_ticks c' = co_ticks c \<and>
           co_class c' = ConditionRegeneration (r\<lparr>rg_internalHealthTicks := 0, rg_internalManaTicks := 0\<rparr>)
       | ConditionSoul s \<Rightarrow> co_ticks c' = co_ticks c \<and> co_class c' = ConditionSoul (s\<lparr>so_internalSoulTicks := 0\<rparr>)
       | ConditionDrunk strength \<Rightarrow> co_ticks c' = co_ticks c \<and> co_class c' = ConditionDrunk 25
       | ConditionDamage d \<Rightarrow> co_ticks c' = sum_list (map ii_interval (da_damageList d)) \<and>
           co_class c' = ConditionDamage
             \<lparr>da_maxDamage = 0, da_minDamage = 0, da_startDamage = 0, da_periodDamage = da_periodDamage d,
              da_periodDamageTick = 0, da_tickInterval = 2000, da_initDamage = 0, da_forceUpdate = False, da_delayed = da_delayed d,
              da_field = False, da_owner = 0, da_damageList = da_damageList d\<rparr>
       | _ \<Rightarrow> co_ticks c' = co_ticks c \<and> co_class c' = co_class c))"
proof (intro conjI allI)
  have "\<forall>c \<in> set cs. stored c \<longrightarrow> storable c"
    using assms by (auto simp: storable_def intervals_fit_def word_sle_eq split: condition_class.split)
  then show "load_conditions now (save_conditions cs) [] = Some (rev (map (reloaded now) (filter stored cs)))"
    using load_all_storable [of "filter stored cs" now "[]" "[]"] by (simp add: save_conditions_rep)
qed (simp add: reloaded_def reloaded_ticks_def total_interval_def new_damage_def Let_def split: condition_class.split)

definition sample_burning :: condition where
  "sample_burning = new_condition CONDITIONID_COMBAT CONDITION_FIRE 0 False 0 True
     (ConditionDamage (new_damage\<lparr>da_delayed := True,
        da_damageList := [\<lparr>ii_timeLeft = 4000, ii_value = -20, ii_interval = 9000\<rparr>,
                          \<lparr>ii_timeLeft = 9000, ii_value = -10, ii_interval = 9000\<rparr>]\<rparr>))"

definition sample_haste :: condition where
  "sample_haste = new_condition CONDITIONID_COMBAT CONDITION_HASTE 30000 True 0 False (ConditionSpeed (new_speed 60))"

lemma sample_conditions_ok: "storable sample_burning" "storable sample_haste" "stored sample_burning" "stored sample_haste"
  by (simp_all add: sample_burning_def sample_haste_def storable_def well_typed_def createCondition_def new_condition_def
      same_class_def condition_types stored_def isPersistent_def CONDITIONID_COMBAT_def intervals_fit_def word_sle_eq)

theorem conditions_roundtrip_witness:
  "load_conditions 1000 (save_conditions [sample_burning, sample_haste]) [] =
     Some [sample_haste, sample_burning\<lparr>co_ticks := 18000, co_endTime := 19000\<rparr>]"
proof -
  have "load_conditions 1000 (save_conditions [sample_burning, sample_haste]) [] =
      Some (rev (map (reloaded 1000) (filter stored [sample_burning, sample_haste])))"
    by (rule conjunct1 [OF conditions_roundtrip])
      (use sample_conditions_ok in \<open>auto simp: storable_def intervals_fit_def word_sle_eq sample_burning_def
        sample_haste_def new_condition_def\<close>)
  then show ?thesis
    using sample_conditions_ok
    by (simp add: reloaded_def reloaded_ticks_def reloaded_endTime_def sample_burning_def sample_haste_def
        new_condition_def new_damage_def)
qed
text \<open>
  C25: storage loses conditions.  A stored light condition is written with 32-bit level and colour but read
  with 8 bits, so it fails to load and every condition saved after it is lost with it; a stored attribute
  condition writes its experience rates under the mark of the special skills, so loading it writes
  outside the array of special skills (\<open>None\<close>), whatever its values and whatever is saved after it.
\<close>
theorem storage_loses_conditions:
  assumes "\<forall>c \<in> set before. stored c \<longrightarrow> storable c" and "stored c" and "well_typed c"
  shows "(\<forall>l. co_class c = ConditionLight l \<longrightarrow>
      load_conditions now (save_conditions (before @ c # after)) [] = load_conditions now (save_conditions before) []) \<and>
    (\<forall>a. co_class c = ConditionAttributes a \<and> sized a \<longrightarrow>
      load_conditions now (save_conditions (before @ c # after)) [] = None)"
proof (intro conjI allI impI)
  have split: "load_conditions now (save_conditions (before @ c # after)) [] =
    load_conditions now (condition_rep c @ concat (map condition_rep (filter stored after)))
      (rev (map (reloaded now) (filter stored before)))"
    using load_all_storable [of "filter stored before" now] assms(1,2) by (simp add: save_conditions_rep)
  show "load_conditions now (save_conditions (before @ c # after)) [] = load_conditions now (save_conditions before) []"
    if "co_class c = ConditionLight l" for l
    using load_all_storable [of "filter stored before" now "[]" "[]"] load_light [OF assms(3) that] assms(1)
    by (simp add: split) (simp add: save_conditions_rep)
  show "load_conditions now (save_conditions (before @ c # after)) [] = None"
    if "co_class c = ConditionAttributes a \<and> sized a" for a
    using that by (simp add: split load_attributes [OF assms(3)])
qed

definition sample_light :: condition where
  "sample_light = new_condition CONDITIONID_COMBAT CONDITION_LIGHT 600000 False 0 False (ConditionLight (new_light 7 215))"

definition sample_bonus :: condition where
  "sample_bonus = new_condition CONDITIONID_COMBAT CONDITION_ATTRIBUTES 60000 False 0 False
     (ConditionAttributes new_attributes)"

theorem storage_loses_conditions_witness:
  "load_conditions 1000 (save_conditions [sample_light, sample_haste]) [] = Some [] \<and>
   load_conditions 1000 (save_conditions [sample_bonus, sample_haste]) [] = None"
proof -
  have "stored sample_light" "well_typed sample_light" "stored sample_bonus" "well_typed sample_bonus"
    by (simp_all add: sample_light_def sample_bonus_def well_typed_def createCondition_def new_condition_def
        same_class_def condition_types stored_def isPersistent_def CONDITIONID_COMBAT_def)
  then show ?thesis
    using storage_loses_conditions [of "[]" sample_light 1000 "[sample_haste]"]
      storage_loses_conditions [of "[]" sample_bonus 1000 "[sample_haste]"]
    by (simp_all add: sample_light_def sample_bonus_def new_condition_def sized_def new_attributes_def save_conditions_def)
qed

end
