(* ===== verification/Condition_Parameters.thy ===== *)
theory Condition_Parameters
  imports Condition_Storage
begin

text \<open>
  \<open>setParam\<close> and \<open>getParam\<close> of every condition class (condition.cpp): a value is read back as it is stored,
  and a parameter never touches another.  One lemma per class and direction, then the virtual calls.
\<close>

subsection \<open>Parameters are read back as they were set\<close>

text \<open>What \<open>setParam\<close> stores of a value, and the parameters each class both sets and reads.\<close>

definition stored_value :: "ConditionParam_t \<Rightarrow> i32 \<Rightarrow> i32" where
  "stored_value param v =
     (case param of
        CONDITION_PARAM_BUFF_SPELL \<Rightarrow> (if v \<noteq> 0 then 1 else 0)
      | CONDITION_PARAM_FORCEUPDATE \<Rightarrow> (if v \<noteq> 0 then 1 else 0)
      | CONDITION_PARAM_DELAYED \<Rightarrow> (if v \<noteq> 0 then 1 else 0)
      | CONDITION_PARAM_FIELD \<Rightarrow> (if v \<noteq> 0 then 1 else 0)
      | CONDITION_PARAM_DISABLE_DEFENSE \<Rightarrow> (if v \<noteq> 0 then 1 else 0)
      | CONDITION_PARAM_MAXVALUE \<Rightarrow> abs_i32 v
      | CONDITION_PARAM_MINVALUE \<Rightarrow> abs_i32 v
      | CONDITION_PARAM_STARTVALUE \<Rightarrow> abs_i32 v
      | CONDITION_PARAM_TICKINTERVAL \<Rightarrow> abs_i32 v
      | CONDITION_PARAM_STAT_MAXHITPOINTSPERCENT \<Rightarrow> max_i32 0 v
      | CONDITION_PARAM_STAT_MAXMANAPOINTSPERCENT \<Rightarrow> max_i32 0 v
      | CONDITION_PARAM_STAT_MAGICPOINTSPERCENT \<Rightarrow> max_i32 0 v
      | CONDITION_PARAM_LIGHT_LEVEL \<Rightarrow> ucast (ucast v :: u8)
      | CONDITION_PARAM_LIGHT_COLOR \<Rightarrow> ucast (ucast v :: u8)
      | _ \<Rightarrow> v)"

definition base_params :: "ConditionParam_t set" where
  "base_params = {CONDITION_PARAM_TICKS, CONDITION_PARAM_BUFF_SPELL, CONDITION_PARAM_SUBID}"

primrec class_params :: "condition_class \<Rightarrow> ConditionParam_t set" where
  "class_params ConditionGeneric = base_params"
| "class_params ConditionInvisible = base_params"
| "class_params (ConditionOutfit _) = base_params"
| "class_params (ConditionDrunk _) = base_params"
| "class_params (ConditionLight _) = base_params \<union> {CONDITION_PARAM_LIGHT_LEVEL, CONDITION_PARAM_LIGHT_COLOR}"
| "class_params (ConditionSpeed _) = base_params \<union> {CONDITION_PARAM_SPEED}"
| "class_params (ConditionSoul _) = base_params \<union> {CONDITION_PARAM_SOULGAIN, CONDITION_PARAM_SOULTICKS}"
| "class_params (ConditionRegeneration _) = base_params \<union>
     {CONDITION_PARAM_HEALTHGAIN, CONDITION_PARAM_HEALTHTICKS, CONDITION_PARAM_MANAGAIN, CONDITION_PARAM_MANATICKS}"
| "class_params (ConditionDamage _) = base_params \<union>
     {CONDITION_PARAM_OWNER, CONDITION_PARAM_FORCEUPDATE, CONDITION_PARAM_DELAYED, CONDITION_PARAM_MAXVALUE,
      CONDITION_PARAM_MINVALUE, CONDITION_PARAM_STARTVALUE, CONDITION_PARAM_TICKINTERVAL,
      CONDITION_PARAM_PERIODICDAMAGE, CONDITION_PARAM_FIELD}"
| "class_params (ConditionAttributes _) = base_params \<union>
     {CONDITION_PARAM_SKILL_FIST, CONDITION_PARAM_SKILL_FISTPERCENT, CONDITION_PARAM_SKILL_CLUB,
      CONDITION_PARAM_SKILL_CLUBPERCENT, CONDITION_PARAM_SKILL_SWORD, CONDITION_PARAM_SKILL_SWORDPERCENT,
      CONDITION_PARAM_SKILL_AXE, CONDITION_PARAM_SKILL_AXEPERCENT, CONDITION_PARAM_SKILL_DISTANCE,
      CONDITION_PARAM_SKILL_DISTANCEPERCENT, CONDITION_PARAM_SKILL_SHIELD, CONDITION_PARAM_SKILL_SHIELDPERCENT,
      CONDITION_PARAM_SKILL_FISHING, CONDITION_PARAM_SKILL_FISHINGPERCENT,
      CONDITION_PARAM_SPECIALSKILL_CRITICALHITCHANCE, CONDITION_PARAM_SPECIALSKILL_CRITICALHITAMOUNT,
      CONDITION_PARAM_SPECIALSKILL_LIFELEECHCHANCE, CONDITION_PARAM_SPECIALSKILL_LIFELEECHAMOUNT,
      CONDITION_PARAM_SPECIALSKILL_MANALEECHCHANCE, CONDITION_PARAM_SPECIALSKILL_MANALEECHAMOUNT,
      CONDITION_PARAM_STAT_MAXHITPOINTS, CONDITION_PARAM_STAT_MAXMANAPOINTS, CONDITION_PARAM_STAT_MAGICPOINTS,
      CONDITION_PARAM_STAT_MAXHITPOINTSPERCENT, CONDITION_PARAM_STAT_MAXMANAPOINTSPERCENT,
      CONDITION_PARAM_STAT_MAGICPOINTSPERCENT, CONDITION_PARAM_EXPERIENCERATE_BASE,
      CONDITION_PARAM_EXPERIENCERATE_LOW_LEVEL, CONDITION_PARAM_EXPERIENCERATE_BONUS,
      CONDITION_PARAM_EXPERIENCERATE_STAMINA, CONDITION_PARAM_DISABLE_DEFENSE}"

text \<open>The arrays of an attribute condition have the sizes of the declaration.\<close>

definition arrays_sized :: "attributes \<Rightarrow> bool" where
  "arrays_sized a \<longleftrightarrow> sized a \<and> length (at_skillsPercent a) = 7 \<and> length (at_statsPercent a) = 4"

definition class_sized :: "condition \<Rightarrow> bool" where
  "class_sized c \<longleftrightarrow> (case co_class c of ConditionAttributes a \<Rightarrow> arrays_sized a | _ \<Rightarrow> True)"

lemmas param_defs = base_setParam_def base_getParam_def attributes_setParam_def attributes_getParam_def
  regeneration_setParam_def regeneration_getParam_def soul_setParam_def soul_getParam_def
  damage_setParam_def damage_getParam_def speed_setParam_def speed_getParam_def
  light_setParam_def light_getParam_def drunk_setParam_def with_class_def

lemma attributes_set_get:
  assumes "arrays_sized a" and "(ret, c', a') = attributes_setParam param v c a"
    and "param \<in> class_params (ConditionAttributes a)"
  shows "attributes_getParam param c' a' = stored_value param v"
  using assms(2,3)
  by (cases param)
    (use assms(1) in \<open>simp_all add: param_defs stored_value_def base_params_def arrays_sized_def sized_def skill_indices\<close>)

lemma attributes_set_frame:
  assumes "arrays_sized a" and "(ret, c', a') = attributes_setParam param v c a"
    and "param \<in> class_params (ConditionAttributes a)" and "q \<noteq> param"
  shows "attributes_getParam q c' a' = attributes_getParam q c a"
  using assms(2,3,4)
  apply (cases param)
    apply (use assms(1) in \<open>simp_all add: attributes_setParam_def base_setParam_def base_params_def arrays_sized_def sized_def skill_indices\<close>)
  apply (cases q; simp add: attributes_getParam_def base_getParam_def skill_indices)+
  done

lemma base_getParam_class [simp]: "base_getParam q (c\<lparr>co_class := k\<rparr>) = base_getParam q c"
  by (cases q) (simp_all add: base_getParam_def)

lemma attributes_getParam_class [simp]: "attributes_getParam q (c\<lparr>co_class := k\<rparr>) a = attributes_getParam q c a"
  unfolding attributes_getParam_def base_getParam_class ..

lemma regeneration_getParam_class [simp]: "regeneration_getParam q (c\<lparr>co_class := k\<rparr>) r = regeneration_getParam q c r"
  unfolding regeneration_getParam_def base_getParam_class ..

lemma regeneration_set_read:
  assumes "(ret, c', r') = regeneration_setParam param v c r" and "param \<in> class_params (ConditionRegeneration r)"
  shows "regeneration_getParam param c' r' = stored_value param v"
  using assms
  by (cases param)
    (simp_all add: regeneration_setParam_def regeneration_getParam_def base_setParam_def base_getParam_def base_params_def stored_value_def)

lemma regeneration_set_frame:
  assumes "(ret, c', r') = regeneration_setParam param v c r" and "param \<in> class_params (ConditionRegeneration r)" and "q \<noteq> param"
  shows "regeneration_getParam q c' r' = regeneration_getParam q c r"
  using assms
  apply (cases param)
    apply (simp_all add: regeneration_setParam_def base_setParam_def base_params_def)
  apply (cases q; simp add: regeneration_getParam_def base_getParam_def)+
  done

lemma soul_getParam_class [simp]: "soul_getParam q (c\<lparr>co_class := k\<rparr>) s = soul_getParam q c s"
  unfolding soul_getParam_def base_getParam_class ..

lemma soul_set_read:
  assumes "(ret, c', s') = soul_setParam param v c s" and "param \<in> class_params (ConditionSoul s)"
  shows "soul_getParam param c' s' = stored_value param v"
  using assms
  by (cases param)
    (simp_all add: soul_setParam_def soul_getParam_def base_setParam_def base_getParam_def base_params_def stored_value_def)

lemma soul_set_frame:
  assumes "(ret, c', s') = soul_setParam param v c s" and "param \<in> class_params (ConditionSoul s)" and "q \<noteq> param"
  shows "soul_getParam q c' s' = soul_getParam q c s"
  using assms
  apply (cases param)
    apply (simp_all add: soul_setParam_def base_setParam_def base_params_def)
  apply (cases q; simp add: soul_getParam_def base_getParam_def)+
  done

lemma damage_getParam_class [simp]: "damage_getParam q (c\<lparr>co_class := k\<rparr>) d = damage_getParam q c d"
  unfolding damage_getParam_def base_getParam_class ..

lemma damage_set_read:
  assumes "(ret, c', d') = damage_setParam param v c d" and "param \<in> class_params (ConditionDamage d)"
  shows "damage_getParam param c' d' = stored_value param v"
  using assms
  by (cases param)
    (simp_all add: damage_setParam_def damage_getParam_def base_setParam_def base_getParam_def base_params_def stored_value_def)

lemma damage_set_frame:
  assumes "(ret, c', d') = damage_setParam param v c d" and "param \<in> class_params (ConditionDamage d)" and "q \<noteq> param"
  shows "damage_getParam q c' d' = damage_getParam q c d"
  using assms
  apply (cases param)
    apply (simp_all add: damage_setParam_def base_setParam_def base_params_def)
  apply (cases q; simp add: damage_getParam_def base_getParam_def)+
  done

lemma speed_getParam_class [simp]: "speed_getParam q (c\<lparr>co_class := k\<rparr>) s = speed_getParam q c s"
  unfolding speed_getParam_def base_getParam_class ..

lemma speed_set_read:
  assumes "(ret, c', s') = speed_setParam param v c s" and "param \<in> class_params (ConditionSpeed s)"
  shows "speed_getParam param c' s' = stored_value param v"
  using assms
  by (cases param)
    (simp_all add: speed_setParam_def speed_getParam_def base_setParam_def base_getParam_def base_params_def stored_value_def)

lemma speed_set_frame:
  assumes "(ret, c', s') = speed_setParam param v c s" and "param \<in> class_params (ConditionSpeed s)" and "q \<noteq> param"
  shows "speed_getParam q c' s' = speed_getParam q c s"
  using assms
  apply (cases param)
    apply (simp_all add: speed_setParam_def base_setParam_def base_params_def)
  apply (cases q; simp add: speed_getParam_def base_getParam_def)+
  done

lemma light_getParam_class [simp]: "light_getParam q (c\<lparr>co_class := k\<rparr>) l = light_getParam q c l"
  unfolding light_getParam_def base_getParam_class ..

lemma light_set_read:
  assumes "(ret, c', l') = light_setParam param v c l" and "param \<in> class_params (ConditionLight l)"
  shows "light_getParam param c' l' = stored_value param v"
  using assms
  by (cases param)
    (simp_all add: light_setParam_def light_getParam_def base_setParam_def base_getParam_def base_params_def stored_value_def)

lemma light_set_frame:
  assumes "(ret, c', l') = light_setParam param v c l" and "param \<in> class_params (ConditionLight l)" and "q \<noteq> param"
  shows "light_getParam q c' l' = light_getParam q c l"
  using assms
  apply (cases param)
    apply (simp_all add: light_setParam_def base_setParam_def base_params_def)
  apply (cases q; simp add: light_getParam_def base_getParam_def)+
  done

lemma base_set_read:
  assumes "(ret, c') = base_setParam param v c" and "param \<in> base_params"
  shows "base_getParam param c' = stored_value param v"
  using assms
  by (cases param) (simp_all add: base_setParam_def base_getParam_def base_params_def stored_value_def)

lemma base_set_frame:
  assumes "(ret, c') = base_setParam param v c" and "param \<in> base_params" and "q \<noteq> param"
  shows "base_getParam q c' = base_getParam q c"
  using assms
  apply (cases param)
    apply (simp_all add: base_setParam_def base_params_def)
  apply (cases q; simp add: base_getParam_def)+
  done

lemma drunk_set_read:
  assumes "(ret, c', d') = drunk_setParam param v c d" and "param \<in> base_params"
  shows "base_getParam param c' = stored_value param v"
  using assms
  by (cases param) (simp_all add: drunk_setParam_def base_setParam_def base_getParam_def base_params_def stored_value_def)

lemma drunk_set_frame:
  assumes "(ret, c', d') = drunk_setParam param v c d" and "param \<in> base_params" and "q \<noteq> param"
  shows "base_getParam q c' = base_getParam q c"
  using assms
  apply (cases param)
    apply (simp_all add: drunk_setParam_def base_setParam_def base_params_def)
  apply (cases q; simp add: base_getParam_def)+
  done

text \<open>
  C26: a parameter that the class of a condition both sets and reads is read back as the value that was
  set (clamped, made absolute, reduced to a flag or to a byte where the class says so), and setting it
  leaves every other parameter of the condition as it was.
\<close>
theorem parameters_set_and_read:
  assumes "class_sized c" and "param \<in> class_params (co_class c)"
  shows "getParam param (snd (setParam param v c)) = stored_value param v \<and>
    (\<forall>q. q \<noteq> param \<longrightarrow> getParam q (snd (setParam param v c)) = getParam q c)"
proof (cases "co_class c")
  case (ConditionAttributes a)
  obtain ret c' a' where set: "attributes_setParam param v c a = (ret, c', a')"
    by (cases "attributes_setParam param v c a")
  have "getParam q c = attributes_getParam q c a"
    and "getParam q (snd (setParam param v c)) = attributes_getParam q c' a'" for q
    using ConditionAttributes by (simp_all add: getParam_def setParam_def with_class_def set)
  moreover have "arrays_sized a" and "param \<in> class_params (ConditionAttributes a)"
    using assms ConditionAttributes by (simp_all add: class_sized_def)
  ultimately show ?thesis
    using attributes_set_get [OF _ set [symmetric]] attributes_set_frame [OF _ set [symmetric]] by simp
next
  case (ConditionRegeneration r)
  obtain ret c' r' where set: "regeneration_setParam param v c r = (ret, c', r')"
    by (cases "regeneration_setParam param v c r")
  show ?thesis
    using assms(2) ConditionRegeneration regeneration_set_read [OF set [symmetric]] regeneration_set_frame [OF set [symmetric]]
    by (simp add: getParam_def setParam_def with_class_def set)
next
  case (ConditionSoul s)
  obtain ret c' s' where set: "soul_setParam param v c s = (ret, c', s')"
    by (cases "soul_setParam param v c s")
  show ?thesis
    using assms(2) ConditionSoul soul_set_read [OF set [symmetric]] soul_set_frame [OF set [symmetric]]
    by (simp add: getParam_def setParam_def with_class_def set)
next
  case (ConditionDamage d)
  obtain ret c' d' where set: "damage_setParam param v c d = (ret, c', d')"
    by (cases "damage_setParam param v c d")
  show ?thesis
    using assms(2) ConditionDamage damage_set_read [OF set [symmetric]] damage_set_frame [OF set [symmetric]]
    by (simp add: getParam_def setParam_def with_class_def set)
next
  case (ConditionSpeed s)
  obtain ret c' s' where set: "speed_setParam param v c s = (ret, c', s')"
    by (cases "speed_setParam param v c s")
  show ?thesis
    using assms(2) ConditionSpeed speed_set_read [OF set [symmetric]] speed_set_frame [OF set [symmetric]]
    by (simp add: getParam_def setParam_def with_class_def set)
next
  case (ConditionLight l)
  obtain ret c' l' where set: "light_setParam param v c l = (ret, c', l')"
    by (cases "light_setParam param v c l")
  show ?thesis
    using assms(2) ConditionLight light_set_read [OF set [symmetric]] light_set_frame [OF set [symmetric]]
    by (simp add: getParam_def setParam_def with_class_def set)
next
  case (ConditionDrunk d)
  obtain ret c' d' where set: "drunk_setParam param v c d = (ret, c', d')"
    by (cases "drunk_setParam param v c d")
  show ?thesis
    using assms(2) ConditionDrunk drunk_set_read [OF set [symmetric]] drunk_set_frame [OF set [symmetric]]
    by (simp add: getParam_def setParam_def with_class_def set)
next
  case ConditionGeneric
  obtain ret c' where set: "base_setParam param v c = (ret, c')" by (cases "base_setParam param v c")
  then have "co_class c' = co_class c" by (cases param) (auto simp: base_setParam_def)
  then show ?thesis
    using assms(2) ConditionGeneric base_set_read [OF set [symmetric]] base_set_frame [OF set [symmetric]] by (simp add: getParam_def setParam_def set)
next
  case ConditionInvisible
  obtain ret c' where set: "base_setParam param v c = (ret, c')" by (cases "base_setParam param v c")
  then have "co_class c' = co_class c" by (cases param) (auto simp: base_setParam_def)
  then show ?thesis
    using assms(2) ConditionInvisible base_set_read [OF set [symmetric]] base_set_frame [OF set [symmetric]] by (simp add: getParam_def setParam_def set)
next
  case (ConditionOutfit f)
  obtain ret c' where set: "base_setParam param v c = (ret, c')" by (cases "base_setParam param v c")
  then have "co_class c' = co_class c" by (cases param) (auto simp: base_setParam_def)
  then show ?thesis
    using assms(2) ConditionOutfit base_set_read [OF set [symmetric]] base_set_frame [OF set [symmetric]] by (simp add: getParam_def setParam_def set)
qed

theorem parameters_set_and_read_witness:
  "getParam CONDITION_PARAM_STAT_MAGICPOINTS
     (snd (setParam CONDITION_PARAM_STAT_MAGICPOINTS 3 sample_bonus)) = 3 \<and>
   getParam CONDITION_PARAM_SKILL_CLUB (snd (setParam CONDITION_PARAM_STAT_MAGICPOINTS 3 sample_bonus)) =
     getParam CONDITION_PARAM_SKILL_CLUB sample_bonus"
  using parameters_set_and_read [of sample_bonus CONDITION_PARAM_STAT_MAGICPOINTS 3]
  by (simp add: sample_bonus_def new_condition_def class_sized_def arrays_sized_def sized_def new_attributes_def
      stored_value_def)

end
