(* ===== verification/Condition_Damage.thy ===== *)
theory Condition_Damage
  imports Condition_Storage
begin

text \<open>
  Damage over time (condition.cpp: \<open>generateDamageList\<close>, \<open>addDamage\<close>, \<open>init\<close>, \<open>getTotalDamage\<close>,
  \<open>updateCondition\<close> and \<open>getNextDamage\<close> of \<open>ConditionDamage\<close>).  The loop that splits an amount into
  entries compares float quotients; it is written over the comparison, whose only assumed behaviour is
  correct rounding of small integers, and is shown to end and to hand out exactly the amount.
\<close>

subsection \<open>The list of damages\<close>

text \<open>
  \<open>closer tot i med\<close> is the comparison of floats at the end of the inner loop of \<open>generateDamageList\<close>:
  adding \<open>i\<close> once more brings \<open>tot / med\<close> nearer to one.  The integers are \<open>int32_t\<close>; \<open>None\<close> is an
  overflow of one of them, or a loop that does not end.
\<close>

definition int32_ok :: "int \<Rightarrow> bool" where
  "int32_ok x \<longleftrightarrow> - 2147483648 \<le> x \<and> x < 2147483648"

partial_function (option) damage_steps ::
  "(int \<Rightarrow> int \<Rightarrow> int \<Rightarrow> bool) \<Rightarrow> int \<Rightarrow> int \<Rightarrow> int \<Rightarrow> int list \<Rightarrow> (int \<times> int list) option" where
  "damage_steps closer i med tot xs =
     (if \<not> int32_ok (tot + i) then None
      else let tot = tot + i; xs = xs @ [i]
           in if closer tot i med then damage_steps closer i med tot xs else Some (tot, xs))"

primrec damage_loop ::
  "(int \<Rightarrow> int \<Rightarrow> int \<Rightarrow> bool) \<Rightarrow> int \<Rightarrow> int \<Rightarrow> nat \<Rightarrow> int \<Rightarrow> int list \<Rightarrow> int list option" where
  "damage_loop closer amount start 0 tot xs = Some xs"
| "damage_loop closer amount start (Suc k) tot xs =
     (let i = int (Suc k); n = start + 1 - i in
      if \<not> int32_ok (n * amount) then None
      else let med = n * amount div start in
        (case damage_steps closer i med tot xs of
           None \<Rightarrow> None
         | Some (tot, xs) \<Rightarrow> damage_loop closer amount start k tot xs))"

definition generateDamageList :: "(int \<Rightarrow> int \<Rightarrow> int \<Rightarrow> bool) \<Rightarrow> int \<Rightarrow> int \<Rightarrow> int list option" where
  "generateDamageList closer amount start = damage_loop closer \<bar>amount\<bar> start (nat start) 0 []"

text \<open>
  What float arithmetic gives for values of at most 20 bits: the comparison is that of the exact quotients
  except in a tie, which rounding may decide either way.
\<close>

definition rounds_faithfully :: "(int \<Rightarrow> int \<Rightarrow> int \<Rightarrow> bool) \<Rightarrow> bool" where
  "rounds_faithfully closer \<longleftrightarrow>
     (\<forall>tot i med. 0 < tot \<and> 0 < i \<and> 0 \<le> med \<and> tot + i < 1048576 \<and> med < 1048576 \<longrightarrow>
       (closer tot i med \<longrightarrow> 2 * tot + i \<le> 2 * med) \<and> (2 * tot + i < 2 * med \<longrightarrow> closer tot i med))"

lemma damage_steps_end:
  assumes "rounds_faithfully closer" and "0 < i" "0 \<le> tot" "0 \<le> med" "tot + i < 524288" "med + i < 524288"
  shows "\<exists>tot' m. damage_steps closer i med tot xs = Some (tot', xs @ replicate (Suc m) i) \<and>
    tot' = tot + int (Suc m) * i \<and> 2 * med \<le> 2 * tot' + i \<and> (tot' = tot + i \<or> 2 * tot' \<le> 2 * med + i)"
  using assms(2-)
proof (induction "nat (med - tot)" arbitrary: tot xs rule: less_induct)
  case less
  have ok: "int32_ok (tot + i)" using less.prems by (simp add: int32_ok_def)
  have rf: "(closer (tot + i) i med \<longrightarrow> 2 * (tot + i) + i \<le> 2 * med) \<and>
      (2 * (tot + i) + i < 2 * med \<longrightarrow> closer (tot + i) i med)"
    using assms(1) [unfolded rounds_faithfully_def, rule_format, of "tot + i" i med] less.prems by linarith
  show ?case
  proof (cases "closer (tot + i) i med")
    case True
    then have near: "2 * (tot + i) + i \<le> 2 * med" using rf by blast
    then have "tot + i < med" using less.prems(1) by presburger
    with less.prems obtain tot' m where step: "damage_steps closer i med (tot + i) (xs @ [i]) = Some (tot', (xs @ [i]) @ replicate (Suc m) i)"
      and tot': "tot' = tot + i + int (Suc m) * i" "2 * med \<le> 2 * tot' + i" "tot' = tot + i + i \<or> 2 * tot' \<le> 2 * med + i"
      using less.hyps [of "tot + i" "xs @ [i]"] by auto
    show ?thesis
    proof (intro exI conjI)
      show "damage_steps closer i med tot xs = Some (tot', xs @ replicate (Suc (Suc m)) i)"
        using step ok True by (subst damage_steps.simps) simp
      show "tot' = tot + int (Suc (Suc m)) * i" using tot'(1) by (simp add: algebra_simps)
      show "2 * med \<le> 2 * tot' + i" by fact
      show "tot' = tot + i \<or> 2 * tot' \<le> 2 * med + i" using tot'(3) near by auto
    qed
  next
    case False
    then have "damage_steps closer i med tot xs = Some (tot + i, xs @ replicate (Suc 0) i)"
      using ok by (subst damage_steps.simps) simp
    moreover have "2 * med \<le> 2 * (tot + i) + i" using rf False by linarith
    ultimately show ?thesis by (intro exI [of _ "tot + i"] exI [of _ 0]) (auto intro: exI)
  qed
qed

lemma sorted_wrt_replicate: "sorted_wrt (\<ge>) (replicate n (x :: int))"
  by (induction n) auto

text \<open>There are at most as many entries as the amount and the first damage together.\<close>

lemma length_times_le: "\<forall>x \<in> set xs. (c :: int) \<le> x \<Longrightarrow> int (length xs) * c \<le> sum_list xs"
  by (induction xs) (auto simp: algebra_simps)

lemma entries_le_amount:
  assumes "(0 :: int) < i" and "0 \<le> a" and "n * i \<le> t" and "2 * t \<le> 2 * a + i"
  shows "n \<le> a"
proof (rule ccontr)
  assume "\<not> n \<le> a"
  then have "(a + 1) * i \<le> n * i" using assms(1) by (intro mult_right_mono) auto
  moreover have "a * 1 \<le> a * i" using assms(1,2) by (intro mult_left_mono) auto
  ultimately show False using assms by (simp add: algebra_simps)
qed

lemma damage_loop_end:
  assumes rounds: "rounds_faithfully closer" and a: "0 \<le> a" "a \<le> 131072" and s: "0 < s" "s \<le> 500"
  shows "int k \<le> s \<Longrightarrow> 0 \<le> tot \<Longrightarrow> tot \<le> a + s * (s - int k) \<Longrightarrow> tot = sum_list xs \<Longrightarrow>
    2 * ((s - int k) * a div s) \<le> 2 * tot + int k + 1 \<Longrightarrow>
    sorted_wrt (\<ge>) xs \<Longrightarrow> \<forall>x \<in> set xs. int k < x \<and> x \<le> s \<Longrightarrow> (int k = s \<longrightarrow> tot = 0) \<Longrightarrow>
    int (length xs) \<le> a + (s - int k) \<Longrightarrow>
    \<exists>ys. damage_loop closer a s k tot xs = Some ys \<and> a \<le> sum_list ys \<and> sum_list ys \<le> a + s * s \<and>
      sorted_wrt (\<ge>) ys \<and> (\<forall>y \<in> set ys. 0 < y \<and> y \<le> s) \<and> int (length ys) \<le> a + s \<and>
      (s * s \<le> a \<and> 2 * tot \<le> 2 * ((s - int k) * a div s) + int k + 1 \<longrightarrow> sum_list ys = a)"
proof (induction k arbitrary: tot xs)
  case 0
  then show ?case using s by auto
next
  case (Suc k)
  let ?i = "int (Suc k)" and ?n = "s - int k" and ?prev = "(s - int (Suc k)) * a div s"
  let ?med = "?n * a div s"
  have "0 \<le> ?n" "?n \<le> s" "s * ?n \<le> 250000" "s * (s - ?i) \<le> s * ?n"
    using Suc.prems(1) s by (auto intro: mult_mono [of s 500 _ 500, simplified] mult_left_mono)
  have "?n * a \<le> s * a" using \<open>?n \<le> s\<close> a by (intro mult_right_mono) auto
  then have med: "0 \<le> ?med" "?med \<le> a"
    using \<open>0 \<le> ?n\<close> a s zdiv_mono1 [of "?n * a" "s * a" s] by (simp_all add: pos_imp_zdiv_nonneg_iff)
  have "?n * a \<le> 500 * 131072" using \<open>0 \<le> ?n\<close> \<open>?n \<le> s\<close> s a by (intro mult_mono) auto
  then have ok: "int32_ok (?n * a)" using \<open>0 \<le> ?n\<close> a by (auto simp: int32_ok_def intro: order_trans [of _ 0])
  have "?i \<le> 500" using Suc.prems(1) s by simp
  have step_small: "tot + ?i < 524288" "?med + ?i < 524288"
    using Suc.prems(3) \<open>s * (s - ?i) \<le> s * ?n\<close> \<open>s * ?n \<le> 250000\<close> a med \<open>?i \<le> 500\<close> by linarith+
  have "0 < ?i" by simp
  obtain tot' m where run: "damage_steps closer ?i ?med tot xs = Some (tot', xs @ replicate (Suc m) ?i)"
    and tot': "tot' = tot + int (Suc m) * ?i" and low: "2 * ?med \<le> 2 * tot' + ?i"
    and up: "tot' = tot + ?i \<or> 2 * tot' \<le> 2 * ?med + ?i"
    using damage_steps_end [OF rounds \<open>0 < ?i\<close> Suc.prems(2) med(1) step_small, of xs]
    by (elim exE conjE) (rule that)
  have "s * ?n = s * (s - ?i) + s" by (simp add: algebra_simps)
  moreover have "0 \<le> s * (s - ?i)" using Suc.prems(1) s by (intro mult_nonneg_nonneg) auto
  ultimately have bound: "tot' \<le> a + s * ?n"
    using up Suc.prems(1,3) med(2) by linarith
  have close: "2 * tot' \<le> 2 * ?med + ?i" if "s * s \<le> a" "2 * tot \<le> 2 * ?prev + ?i + 1"
  proof -
    have "(s - ?i) * a + s * s \<le> ?n * a" using that(1) by (simp add: algebra_simps)
    then have "?prev + s \<le> ?med"
      using zdiv_mono1 [of "(s - ?i) * a + s * s" "?n * a" s] s by simp
    then show ?thesis using up that(2) Suc.prems(1,8) by (cases "?i = s") auto
  qed
  note Suc_above = Suc.prems(7)
  have ge: "0 \<le> s - int k" using Suc.prems(1) by simp
  have sum: "sum_list (xs @ replicate (Suc m) ?i) = tot'"
    using Suc.prems(4) tot' by (simp add: sum_list_replicate algebra_simps)
  have "\<exists>ys. damage_loop closer a s k tot' (xs @ replicate (Suc m) ?i) = Some ys \<and> a \<le> sum_list ys \<and> sum_list ys \<le> a + s * s \<and>
      sorted_wrt (\<ge>) ys \<and> (\<forall>y \<in> set ys. 0 < y \<and> y \<le> s) \<and> int (length ys) \<le> a + s \<and>
      (s * s \<le> a \<and> 2 * tot' \<le> 2 * ?med + int k + 1 \<longrightarrow> sum_list ys = a)"
  proof (rule Suc.IH)
    show "tot' = sum_list (xs @ replicate (Suc m) ?i)" using Suc.prems(4) tot'
      by (simp add: sum_list_replicate algebra_simps)
    show "sorted_wrt (\<ge>) (xs @ replicate (Suc m) ?i)"
      using Suc.prems(6,7) by (auto simp: sorted_wrt_append sorted_wrt_replicate simp del: replicate.simps)
    show "int (length (xs @ replicate (Suc m) ?i)) \<le> a + (s - int k)"
    proof (cases m)
      case 0
      then show ?thesis using Suc.prems(9) by simp
    next
      case (Suc m')
      then have "0 < int m * ?i" by simp
      moreover have "tot' = tot + ?i + int m * ?i" using tot' by (simp add: algebra_simps)
      ultimately have "tot' \<noteq> tot + ?i" by linarith
      then have "2 * tot' \<le> 2 * a + ?i" using up med(2) by linarith
      moreover have "\<forall>x \<in> set (xs @ replicate (Suc m) ?i). ?i \<le> x"
        using Suc_above by auto
      from length_times_le [OF this] have "int (length (xs @ replicate (Suc m) ?i)) * ?i \<le> tot'"
        by (simp only: sum)
      ultimately have "int (length (xs @ replicate (Suc m) ?i)) \<le> a"
        by (rule_tac entries_le_amount [OF \<open>0 < ?i\<close> a(1)])
      then show ?thesis using ge by linarith
    qed
    show "\<forall>x \<in> set (xs @ replicate (Suc m) ?i). int k < x \<and> x \<le> s"
      using Suc.prems(1,7) by auto
  qed (use Suc.prems(1,2) tot' bound low in auto)
  moreover have "damage_loop closer a s (Suc k) tot xs = damage_loop closer a s k tot' (xs @ replicate (Suc m) ?i)"
  proof -
    have n: "s + 1 - int (Suc k) = ?n" by simp
    show ?thesis by (simp only: damage_loop.simps Let_def n run ok not_True_eq_False if_False option.case prod.case)
  qed
  ultimately show ?case using close by (auto simp: algebra_simps)
qed


lemma generateDamageList_total:
  assumes "rounds_faithfully closer" and "\<bar>amount\<bar> \<le> 131072" and "0 < start" "start \<le> 500"
  shows "\<exists>ys. generateDamageList closer amount start = Some ys \<and> \<bar>amount\<bar> \<le> sum_list ys \<and>
    sum_list ys \<le> \<bar>amount\<bar> + start * start \<and> sorted_wrt (\<ge>) ys \<and> (\<forall>y \<in> set ys. 0 < y \<and> y \<le> start) \<and>
    int (length ys) \<le> \<bar>amount\<bar> + start \<and> (start * start \<le> \<bar>amount\<bar> \<longrightarrow> sum_list ys = \<bar>amount\<bar>)"
  using damage_loop_end [of closer "\<bar>amount\<bar>" start "nat start" 0 "[]"] assms
  by (simp add: generateDamageList_def)

subsection \<open>Filling the list\<close>

text \<open>The methods of \<open>ConditionDamage\<close> work on the common members \<open>c\<close> and the members \<open>d\<close> of the class.\<close>

definition EVENT_CREATURE_THINK_INTERVAL :: i32 where "EVENT_CREATURE_THINK_INTERVAL = 250"

definition push_damage :: "i64 \<Rightarrow> i32 \<Rightarrow> i32 \<Rightarrow> condition \<times> damage \<Rightarrow> condition \<times> damage" where
  "push_damage now time value this =
     (case this of (c, d) \<Rightarrow>
        (if co_ticks c \<noteq> -1 then setTicks now (co_ticks c + time) c else c,
         d\<lparr>da_damageList := da_damageList d @ [\<lparr>ii_timeLeft = time, ii_value = value, ii_interval = time\<rparr>]\<rparr>))"

definition addDamage :: "i64 \<Rightarrow> i32 \<Rightarrow> i32 \<Rightarrow> i32 \<Rightarrow> condition \<times> damage \<Rightarrow> bool \<times> condition \<times> damage" where
  "addDamage now rounds time value this =
     (case this of (c, d) \<Rightarrow>
        let time = max_i32 time EVENT_CREATURE_THINK_INTERVAL in
        if rounds = -1 then
          let d = d\<lparr>da_periodDamage := value\<rparr>;
              (_, c, d) = damage_setParam CONDITION_PARAM_TICKINTERVAL time c d;
              (_, c, d) = damage_setParam CONDITION_PARAM_TICKS (-1) c d
          in (True, c, d)
        else if 0 <s da_periodDamage d then (False, c, d)
        else (True, (push_damage now time value ^^ nat (sint rounds)) (c, d)))"

text \<open>\<open>std::ceil(amount / 20.0)\<close> is exact for 32-bit integers.\<close>

definition first_damage :: "i32 \<Rightarrow> damage \<Rightarrow> i32" where
  "first_damage amount d =
     (if da_maxDamage d <s da_startDamage d then da_maxDamage d
      else if da_startDamage d = 0 then max_i32 1 (word_of_int (- (- sint amount div 20)))
      else da_startDamage d)"

text \<open>\<open>random lo hi\<close> is the value of \<open>uniform_random(lo, hi)\<close>.\<close>

definition damage_init ::
  "(int \<Rightarrow> int \<Rightarrow> int \<Rightarrow> bool) \<Rightarrow> (i32 \<Rightarrow> i32 \<Rightarrow> i32) \<Rightarrow> i64 \<Rightarrow> condition \<times> damage \<Rightarrow> (bool \<times> condition \<times> damage) option" where
  "damage_init closer random now this =
     (case this of (c, d) \<Rightarrow>
        if da_periodDamage d \<noteq> 0 then Some (True, c, d)
        else if da_damageList d \<noteq> [] then Some (True, c, d)
        else
          let c = setTicks now 0 c;
              amount = random (da_minDamage d) (da_maxDamage d)
          in if amount = 0 then Some (False, c, d)
             else
               let start = first_damage amount d;
                   d = d\<lparr>da_startDamage := start\<rparr>
               in (case generateDamageList closer (sint amount) (sint start) of
                     None \<Rightarrow> None
                   | Some vs \<Rightarrow>
                       let (c, d) = fold (\<lambda>v (c, d). snd (addDamage now 1 (da_tickInterval d) (- word_of_int v) (c, d)))
                         vs (c, d)
                       in Some (da_damageList d \<noteq> [], c, d)))"

definition half :: "i32 \<Rightarrow> i32" where
  "half v = word_of_int (if 0 \<le> sint v then sint v div 2 else - (- sint v div 2))"

definition getTotalDamage :: "damage \<Rightarrow> i32" where
  "getTotalDamage d =
     abs_i32 (if da_damageList d \<noteq> [] then fold (\<lambda>i result. result + ii_value i) (da_damageList d) 0
              else da_minDamage d + half (da_maxDamage d - da_minDamage d))"

definition damage_updateCondition :: "condition \<Rightarrow> damage \<Rightarrow> condition \<Rightarrow> damage \<Rightarrow> bool" where
  "damage_updateCondition addCondition conditionDamage c d =
     (if da_forceUpdate conditionDamage then True
      else if co_ticks c = -1 \<and> 0 <s co_ticks addCondition then False
      else getTotalDamage d <s getTotalDamage conditionDamage)"

definition getNextDamage :: "condition \<Rightarrow> damage \<Rightarrow> i32 option \<times> damage" where
  "getNextDamage c d =
     (if da_periodDamage d \<noteq> 0 then (Some (da_periodDamage d), d)
      else (case da_damageList d of
              [] \<Rightarrow> (None, d)
            | i # is \<Rightarrow> (Some (ii_value i), if co_ticks c \<noteq> -1 then d\<lparr>da_damageList := is\<rparr> else d)))"

subsection \<open>What \<open>init\<close> fills in\<close>

definition entry :: "i32 \<Rightarrow> int \<Rightarrow> interval_info" where
  "entry time v = \<lparr>ii_timeLeft = time, ii_value = - word_of_int v, ii_interval = time\<rparr>"

lemma addDamage_one:
  assumes "da_periodDamage d = 0"
  shows "addDamage now 1 time (- word_of_int v) (c, d) =
    (True, push_damage now (max_i32 time EVENT_CREATURE_THINK_INTERVAL) (- word_of_int v) (c, d))"
  using assms by (simp add: addDamage_def)

lemma fill_list:
  assumes "da_periodDamage d = 0" and time: "time = max_i32 (da_tickInterval d) EVENT_CREATURE_THINK_INTERVAL"
    and "0 \<le> sint (co_ticks c)" "sint (co_ticks c) + int (length vs) * sint time < 2147483648"
  shows "\<exists>c'. fold (\<lambda>v (c, d). snd (addDamage now 1 (da_tickInterval d) (- word_of_int v) (c, d))) vs (c, d) =
      (c', d\<lparr>da_damageList := da_damageList d @ map (entry time) vs\<rparr>) \<and>
      sint (co_ticks c') = sint (co_ticks c) + int (length vs) * sint time \<and>
      co_class c' = co_class c \<and> co_type c' = co_type c \<and> co_id c' = co_id c \<and>
      (vs \<noteq> [] \<longrightarrow> co_endTime c' = scast (co_ticks c') + now)"
  using assms
proof (induction vs arbitrary: c d)
  case (Cons v vs)
  let ?c = "setTicks now (co_ticks c + time) c"
  let ?d = "d\<lparr>da_damageList := da_damageList d @ [entry time v]\<rparr>"
  have "250 \<le> sint time"
    using Cons.prems(2) by (simp add: sint_max_i32 EVENT_CREATURE_THINK_INTERVAL_def)
  then have "0 \<le> int (length vs) * sint time" by simp
  moreover have "sint (co_ticks c) + sint time + int (length vs) * sint time < 2147483648"
    using Cons.prems(4) by (simp add: algebra_simps)
  ultimately have ticks: "sint (co_ticks c + time) = sint (co_ticks c) + sint time"
    using Cons.prems(3) \<open>250 \<le> sint time\<close> by (intro sint_add_i32) linarith+
  have "co_ticks c \<noteq> -1" using Cons.prems(3) by auto
  then have one: "snd (addDamage now 1 (da_tickInterval d) (- word_of_int v) (c, d)) = (?c, ?d)"
    using Cons.prems(1,2) by (simp add: addDamage_one push_damage_def entry_def)
  obtain c' where "fold (\<lambda>v (c, d). snd (addDamage now 1 (da_tickInterval d) (- word_of_int v) (c, d))) vs (?c, ?d) =
      (c', ?d\<lparr>da_damageList := da_damageList ?d @ map (entry time) vs\<rparr>)"
    and "sint (co_ticks c') = sint (co_ticks ?c) + int (length vs) * sint time"
    and "co_class c' = co_class ?c" "co_type c' = co_type ?c" "co_id c' = co_id ?c"
    and "vs \<noteq> [] \<longrightarrow> co_endTime c' = scast (co_ticks c') + now" "vs = [] \<longrightarrow> c' = ?c"
    using Cons.IH [of ?d ?c] Cons.prems ticks \<open>250 \<le> sint time\<close>
    by (cases "vs = []") (auto simp: setTicks_def setEndTime_def algebra_simps)
  then show ?case
    using one ticks by (cases "vs = []") (auto simp: setTicks_def setEndTime_def algebra_simps)
qed simp

lemma sint_word_of_int_i32: "int32_ok x \<Longrightarrow> sint (word_of_int x :: i32) = x"
  by (simp add: int32_ok_def sint_sbintrunc' signed_take_bit_int_eq_self)

lemma fold_values:
  "fold (\<lambda>i r. r + ii_value i) (map (entry time) vs) (word_of_int a :: i32) = word_of_int (a - sum_list vs)"
proof (induction vs arbitrary: a)
  case (Cons v vs)
  then show ?case using Cons.IH [of "a - v"] by (simp add: entry_def algebra_simps)
qed simp

lemma total_of_entries:
  assumes "vs \<noteq> []" and "\<forall>v \<in> set vs. 0 < v" and "sum_list vs < 2147483648"
  shows "sint (getTotalDamage (d\<lparr>da_damageList := map (entry time) vs\<rparr>)) = sum_list vs"
proof -
  define t where "t = sum_list vs"
  have pos: "0 < t"
    using assms(1,2) by (cases vs) (auto simp: t_def intro!: add_pos_nonneg sum_list_nonneg)
  have total: "getTotalDamage (d\<lparr>da_damageList := map (entry time) vs\<rparr>) = abs_i32 (word_of_int (- t))"
    using assms(1) fold_values [of time vs 0] by (simp add: getTotalDamage_def t_def)
  have neg: "sint (word_of_int (- t) :: i32) = - t" and up: "sint (word_of_int t :: i32) = t"
    using pos assms(3) by (simp_all only: t_def [symmetric]) (rule sint_word_of_int_i32; simp add: int32_ok_def)+
  then have "abs_i32 (word_of_int (- t)) = word_of_int t"
    using pos by (simp add: abs_i32_def word_sless_alt del: of_int_minus) simp
  then show ?thesis using up by (simp add: total t_def)
qed

text \<open>
  C27: the list of a damage condition is built in finite time and hands out at least the damage drawn.  If
  the limits are at most 10000, the first damage at most 500 and the interval at most 200 seconds (the
  conditions of monsters and spells wait 2 to 10 seconds), the loops end; every entry takes damage, never more than
  the one before it; all wait the same interval, at least one thinking step; they add up to at least the
  amount drawn and at most the square of the first damage more, to exactly the amount when that square does
  not exceed it; the remaining time is the sum of the intervals.  The excess is real: an amount of 1000 that
  starts with 50 takes one entry of every damage from 50 down to 1, which is 1275.
\<close>

theorem damage_list_complete:
  assumes "rounds_faithfully closer" and "da_periodDamage d = 0" and "da_damageList d = []"
    and limits: "0 < sint (da_minDamage d)" "sint (da_maxDamage d) \<le> 10000"
    and start: "0 \<le> sint (da_startDamage d)" "sint (da_startDamage d) \<le> 500"
    and drawn: "amount = sint (random (da_minDamage d) (da_maxDamage d))"
      "sint (da_minDamage d) \<le> amount" "amount \<le> sint (da_maxDamage d)"
    and time: "sint (da_tickInterval d) \<le> 200000"
  shows "\<exists>c' d' vs. damage_init closer random now (c, d) = Some (True, c', d') \<and>
    da_damageList d' = map (entry (max_i32 (da_tickInterval d) EVENT_CREATURE_THINK_INTERVAL)) vs \<and>
    sorted_wrt (\<ge>) vs \<and> (\<forall>v \<in> set vs. 0 < v \<and> v \<le> sint (da_startDamage d')) \<and>
    amount \<le> sum_list vs \<and> sum_list vs \<le> amount + sint (da_startDamage d') * sint (da_startDamage d') \<and>
    int (length vs) \<le> amount + sint (da_startDamage d') \<and> sint (getTotalDamage d') = sum_list vs \<and>
    (sint (da_startDamage d') * sint (da_startDamage d') \<le> amount \<longrightarrow> sum_list vs = amount) \<and>
    (da_startDamage d \<noteq> 0 \<and> da_startDamage d \<le>s da_maxDamage d \<longrightarrow> da_startDamage d' = da_startDamage d) \<and>
    sint (co_ticks c') = int (length vs) * max (sint (da_tickInterval d)) 250 \<and>
    co_endTime c' = scast (co_ticks c') + now"
proof -
  define start where "start = first_damage (random (da_minDamage d) (da_maxDamage d)) d"
  let ?time = "max_i32 (da_tickInterval d) EVENT_CREATURE_THINK_INTERVAL"
  let ?c = "setTicks now 0 c" and ?d = "d\<lparr>da_startDamage := start\<rparr>"
  have amount: "0 < amount" "amount \<le> 10000" using limits drawn by linarith+
  have "sint (word_of_int (- (- amount div 20)) :: i32) = - (- amount div 20)"
    using amount by (intro sint_word_of_int_i32) (auto simp: int32_ok_def)
  moreover have "sint (da_startDamage d) \<noteq> 0" if "da_startDamage d \<noteq> 0"
    using that sint_0 by (metis signed_word_eqI)
  ultimately have s: "0 < sint start" "sint start \<le> 500"
    using amount limits start drawn
    by (auto simp: start_def first_damage_def word_sless_alt sint_max_i32 max_def)
  have time': "sint ?time = max (sint (da_tickInterval d)) 250"
    by (simp add: sint_max_i32 EVENT_CREATURE_THINK_INTERVAL_def)
  obtain vs where vs: "generateDamageList closer amount (sint start) = Some vs" "amount \<le> sum_list vs"
    "sum_list vs \<le> amount + sint start * sint start" "sorted_wrt (\<ge>) vs" "\<forall>v \<in> set vs. 0 < v \<and> v \<le> sint start"
    "int (length vs) \<le> amount + sint start" "sint start * sint start \<le> amount \<longrightarrow> sum_list vs = amount"
    using generateDamageList_total [OF assms(1), of amount "sint start"] amount s by auto
  have "sint start * sint start \<le> 500 * 500" using s by (intro mult_mono) auto
  then have total: "sum_list vs \<le> 260000" using vs(3) amount by simp
  have "int (length vs) * sint ?time \<le> 10500 * 200000"
    using vs(6) amount s time time' by (intro mult_mono) auto
  then obtain c' where fill: "fold (\<lambda>v (c, d). snd (addDamage now 1 (da_tickInterval d) (- word_of_int v) (c, d))) vs (?c, ?d) =
      (c', ?d\<lparr>da_damageList := map (entry ?time) vs\<rparr>)"
    and ticks: "sint (co_ticks c') = int (length vs) * sint ?time" "vs \<noteq> [] \<longrightarrow> co_endTime c' = scast (co_ticks c') + now"
    using fill_list [of ?d ?time ?c vs now] assms(2,3) by (auto simp: setTicks_def setEndTime_def)
  have nonempty: "vs \<noteq> []" using vs(2) amount by auto
  have "random (da_minDamage d) (da_maxDamage d) \<noteq> 0" using drawn(1) amount by auto
  then have init: "damage_init closer random now (c, d) = Some (True, c', ?d\<lparr>da_damageList := map (entry ?time) vs\<rparr>)"
    using assms(2,3) drawn(1) vs(1) fill nonempty
    by (simp add: damage_init_def Let_def start_def [symmetric])
  show ?thesis
    using init vs ticks nonempty time' total total_of_entries [OF nonempty, where d = ?d and time = ?time]
    by (intro exI [of _ c'] exI [of _ "?d\<lparr>da_damageList := map (entry ?time) vs\<rparr>"] exI [of _ vs])
      (simp add: start_def first_damage_def word_sless_alt word_sle_eq)
qed

definition exact_quotients :: "int \<Rightarrow> int \<Rightarrow> int \<Rightarrow> bool" where
  "exact_quotients tot i med \<longleftrightarrow> 2 * tot + i < 2 * med"

lemma exact_quotients_faithful: "rounds_faithfully exact_quotients"
  by (simp add: rounds_faithfully_def exact_quotients_def)

definition sample_poison :: damage where
  "sample_poison = new_damage\<lparr>da_minDamage := 20, da_maxDamage := 40, da_startDamage := 4\<rparr>"

theorem damage_list_complete_witness:
  "\<exists>c' d' vs. damage_init exact_quotients (\<lambda>lo hi. lo + 5) 100 (sample_burning, sample_poison) = Some (True, c', d') \<and>
     da_damageList d' = map (entry 2000) vs \<and> sorted_wrt (\<ge>) vs \<and> sum_list vs = 25 \<and>
     sint (co_ticks c') = int (length vs) * 2000"
proof -
  have small: "sint (20 :: i32) = 20" "sint (40 :: i32) = 40" "sint (4 :: i32) = 4" "sint (25 :: i32) = 25"
    "sint (2000 :: i32) = 2000" "max_i32 2000 EVENT_CREATURE_THINK_INTERVAL = 2000"
    by (simp_all add: max_i32_def EVENT_CREATURE_THINK_INTERVAL_def word_sless_alt)
  obtain c' d' vs where init: "damage_init exact_quotients (\<lambda>lo hi. lo + 5) 100 (sample_burning, sample_poison) = Some (True, c', d')"
    and list: "da_damageList d' = map (entry 2000) vs" "sorted_wrt (\<ge>) vs"
      "sum_list vs = 25"
      "sint (co_ticks c') = int (length vs) * 2000"
    using damage_list_complete [OF exact_quotients_faithful, of sample_poison 25 "\<lambda>lo hi. lo + 5" 100 sample_burning] small
    by (auto simp: sample_poison_def new_damage_def word_sle_eq)
  with init list small show ?thesis by auto
qed

text \<open>The excess, on the numbers of the text.\<close>

lemma damage_list_excess: "map_option sum_list (generateDamageList exact_quotients 1000 50) = Some 1275"
  by (simp add: generateDamageList_def damage_steps.simps int32_ok_def exact_quotients_def Let_def eval_nat_numeral)

end
