(* ===== verification/Condition_System.thy ===== *)
theory Condition_System
  imports Condition_Damage "HOL-Library.Monad_Syntax"
begin

text \<open>
  The conditions on a creature (condition.cpp: \<open>startCondition\<close>, \<open>executeCondition\<close>, \<open>endCondition\<close> and
  \<open>addCondition\<close> of every class; creature.cpp: \<open>addCondition\<close>, the \<open>removeCondition\<close> methods,
  \<open>getCondition\<close>, \<open>hasCondition\<close>, \<open>executeConditions\<close>; the hooks \<open>onAddCondition\<close> and \<open>onEndCondition\<close> of
  player.cpp).  The record \<open>bearer\<close> is the creature as far as conditions reach it, with the player of
  \<open>Player_Progress\<close> inside; \<open>condition_env\<close> is what they read of the world.
\<close>

subsection \<open>The bearer of conditions\<close>

definition COMBAT_PHYSICALDAMAGE :: u16 where "COMBAT_PHYSICALDAMAGE = 0x1"
definition COMBAT_ENERGYDAMAGE :: u16 where "COMBAT_ENERGYDAMAGE = 0x2"
definition COMBAT_EARTHDAMAGE :: u16 where "COMBAT_EARTHDAMAGE = 0x4"
definition COMBAT_FIREDAMAGE :: u16 where "COMBAT_FIREDAMAGE = 0x8"
definition COMBAT_DROWNDAMAGE :: u16 where "COMBAT_DROWNDAMAGE = 0x100"
definition COMBAT_ICEDAMAGE :: u16 where "COMBAT_ICEDAMAGE = 0x200"
definition COMBAT_HOLYDAMAGE :: u16 where "COMBAT_HOLYDAMAGE = 0x400"
definition COMBAT_DEATHDAMAGE :: u16 where "COMBAT_DEATHDAMAGE = 0x800"

text \<open>
  What conditions change in a creature.  \<open>be_player\<close> is \<open>getPlayer()\<close> with the vitals of the player; the
  health of any other creature is in \<open>be_health\<close>.  The list \<open>conditions\<close> holds pointers, so each
  condition comes with its address.  Tasks handed to the scheduler and client effects are logged.
\<close>

datatype condition_event =
    ForceAddCondition condition
  | ForceRemoveCondition u32
  | IdleStatus
  | CreatureSkullUpdated
  | ItemDestroyed i8
  | StatusMessage string
  | ChangeVisible bool
  | StopEventWalk
  | AddEventWalk
  | SendChangeSpeed
  | SendChangeOutfit
  | ChangeLight
  | HealthChanged
  | DeathScheduled
  | HealedByBuff i32
  | ManaByBuff i32
  | SendIcons

record bearer =
  be_player :: "player option"
  be_vocation :: vocation
  be_health :: i32
  be_healthMax :: i32
  be_varSkills :: "nat \<Rightarrow> i32"
  be_varSpecialSkills :: "nat \<Rightarrow> i32"
  be_experienceRate :: "nat \<Rightarrow> i32"
  be_baseSpeed :: u32
  be_varSpeed :: i32
  be_walkPending :: bool
  be_canUseDefense :: bool
  be_drunkenness :: u8
  be_nextAction :: i64
  be_pzLocked :: bool
  be_attackedSet :: "u32 set"
  be_skull :: u8
  be_notGainInFight :: bool
  be_cannotBeAttacked :: bool
  be_currentOutfit :: outfit
  be_defaultOutfit :: outfit
  be_internalLight :: light_info
  be_itemsLight :: light_info
  be_normalLight :: light_info
  be_conditions :: "(nat \<times> condition) list"
  be_events :: "condition_event list"

text \<open>
  The surroundings: the clock, the tile, the immunities, the kind of world, the slots with an item, the delay of the walk, the float computations, the
  random numbers, the outfit script and the combat code, which answers whether the damage was done and
  with the health and mana that are left.
\<close>

record condition_env =
  en_now :: i64
  en_protection :: bool
  en_field :: "u16 option"
  en_suppressions :: u32
  en_immunities :: u32
  en_walkDelay :: i64
  en_pvpEnforced :: bool
  en_inventoryItem :: "i8 \<Rightarrow> bool"
  en_portion :: "int \<Rightarrow> i32 \<Rightarrow> i32"
  en_gainPortion :: "int \<Rightarrow> u32 \<Rightarrow> i32"
  en_random :: "i32 \<Rightarrow> i32 \<Rightarrow> i32"
  en_closer :: "int \<Rightarrow> int \<Rightarrow> int \<Rightarrow> bool"
  en_formula :: "u32 \<Rightarrow> u32 \<Rightarrow> u32 \<Rightarrow> u32 \<Rightarrow> u32 \<Rightarrow> i32 \<times> i32"
  en_harm :: "condition \<Rightarrow> i32 \<Rightarrow> bearer \<Rightarrow> bool \<times> i32 \<times> u32"
  en_outfitAllowed :: "outfit \<Rightarrow> bool"

definition log_event :: "condition_event \<Rightarrow> bearer \<Rightarrow> bearer" where
  "log_event e b = b\<lparr>be_events := e # be_events b\<rparr>"

definition on_player :: "(player \<Rightarrow> player) \<Rightarrow> bearer \<Rightarrow> bearer" where
  "on_player f b = b\<lparr>be_player := map_option f (be_player b)\<rparr>"

definition setVarSkill :: "nat \<Rightarrow> i32 \<Rightarrow> bearer \<Rightarrow> bearer" where
  "setVarSkill skill modifier b =
     b\<lparr>be_varSkills := (be_varSkills b)(skill := be_varSkills b skill + modifier)\<rparr>"

definition setVarSpecialSkill :: "nat \<Rightarrow> i32 \<Rightarrow> bearer \<Rightarrow> bearer" where
  "setVarSpecialSkill skill modifier b =
     b\<lparr>be_varSpecialSkills := (be_varSpecialSkills b)(skill := be_varSpecialSkills b skill + modifier)\<rparr>"

definition setExperienceRate :: "nat \<Rightarrow> i32 \<Rightarrow> bearer \<Rightarrow> bearer" where
  "setExperienceRate type rate b = b\<lparr>be_experienceRate := (be_experienceRate b)(type := rate)\<rparr>"

text \<open>\<open>Game::changeSpeed\<close> with \<open>Creature::setSpeed\<close>; \<open>be_walkPending\<close> is a non-empty \<open>listWalkDir\<close>.\<close>

definition getSpeed :: "bearer \<Rightarrow> i32" where
  "getSpeed b = be_baseSpeed b + be_varSpeed b"

definition setSpeed :: "i32 \<Rightarrow> bearer \<Rightarrow> bearer" where
  "setSpeed varSpeedDelta b =
     (let oldSpeed = getSpeed b;
          b = b\<lparr>be_varSpeed := varSpeedDelta\<rparr>
      in if \<not> 0 <s getSpeed b then log_event StopEventWalk b
         else if \<not> 0 <s oldSpeed \<and> be_walkPending b then log_event AddEventWalk b
         else b)"

definition changeSpeed :: "i32 \<Rightarrow> bearer \<Rightarrow> bearer" where
  "changeSpeed varSpeedDelta b =
     (let varSpeed = getSpeed b - be_baseSpeed b
      in log_event SendChangeSpeed (setSpeed (varSpeed + varSpeedDelta) b))"

definition hasBitSet :: "u32 \<Rightarrow> u32 \<Rightarrow> bool" where
  "hasBitSet flag flags \<longleftrightarrow> flags AND flag \<noteq> 0"

definition isSuppress :: "condition_env \<Rightarrow> u32 \<Rightarrow> bool" where
  "isSuppress e type \<longleftrightarrow> hasBitSet type (en_suppressions e)"

definition isImmune :: "condition_env \<Rightarrow> u32 \<Rightarrow> bearer \<Rightarrow> bool" where
  "isImmune e type b \<longleftrightarrow>
     (if be_player b \<noteq> None \<and> be_cannotBeAttacked b then True else hasBitSet type (en_immunities e))"

definition isInvisible :: "bearer \<Rightarrow> bool" where
  "isInvisible b \<longleftrightarrow> list_ex (\<lambda>(_, c). co_type c = CONDITION_INVISIBLE) (be_conditions b)"

definition internalCreatureChangeOutfit :: "condition_env \<Rightarrow> outfit \<Rightarrow> bearer \<Rightarrow> bearer" where
  "internalCreatureChangeOutfit e f b =
     (if \<not> en_outfitAllowed e f then b
      else let b = b\<lparr>be_currentOutfit := f\<rparr> in if isInvisible b then b else log_event SendChangeOutfit b)"

definition getCreatureLight :: "bearer \<Rightarrow> light_info" where
  "getCreatureLight b =
     (if be_player b = None then be_internalLight b
      else if li_level (be_itemsLight b) < li_level (be_internalLight b) then be_internalLight b
      else be_itemsLight b)"

definition setCreatureLight :: "light_info \<Rightarrow> bearer \<Rightarrow> bearer" where
  "setCreatureLight l b = b\<lparr>be_internalLight := l\<rparr>"

definition bearer_getMaxHealth :: "bearer \<Rightarrow> i32" where
  "bearer_getMaxHealth b = (case be_player b of Some p \<Rightarrow> getMaxHealth p | None \<Rightarrow> be_healthMax b)"

definition bearer_getHealth :: "bearer \<Rightarrow> i32" where
  "bearer_getHealth b = (case be_player b of Some p \<Rightarrow> pl_health p | None \<Rightarrow> be_health b)"

definition bearer_changeHealth :: "i32 \<Rightarrow> bearer \<Rightarrow> bearer" where
  "bearer_changeHealth healthChange b =
     (case be_player b of
        Some p \<Rightarrow> on_player (changeHealth healthChange True) b
      | None \<Rightarrow>
          let health = (if 0 <s healthChange
                        then be_health b + min_i32 healthChange (be_healthMax b - be_health b)
                        else max_i32 0 (be_health b + healthChange));
              b = (if be_health b \<noteq> health then log_event HealthChanged (b\<lparr>be_health := health\<rparr>)
                   else b\<lparr>be_health := health\<rparr>)
          in if \<not> 0 <s health then log_event DeathScheduled b else b)"

definition onTickCondition :: "condition_env \<Rightarrow> u32 \<Rightarrow> bool \<Rightarrow> bool" where
  "onTickCondition e type bRemove =
     (case en_field e of
        None \<Rightarrow> bRemove
      | Some combatType \<Rightarrow>
          if type = CONDITION_FIRE then combatType \<noteq> COMBAT_FIREDAMAGE
          else if type = CONDITION_ENERGY then combatType \<noteq> COMBAT_ENERGYDAMAGE
          else if type = CONDITION_POISON then combatType \<noteq> COMBAT_EARTHDAMAGE
          else if type = CONDITION_FREEZING then combatType \<noteq> COMBAT_ICEDAMAGE
          else if type = CONDITION_DAZZLED then combatType \<noteq> COMBAT_HOLYDAMAGE
          else if type = CONDITION_CURSED then combatType \<noteq> COMBAT_DEATHDAMAGE
          else if type = CONDITION_DROWN then combatType \<noteq> COMBAT_DROWNDAMAGE
          else if type = CONDITION_BLEEDING then combatType \<noteq> COMBAT_PHYSICALDAMAGE
          else bRemove)"

subsection \<open>Attribute conditions\<close>

text \<open>
  The loops run over the skills, special skills, stats and experience rates in the order of their
  indices; \<open>stat_list\<close> is the range \<open>STAT_FIRST..STAT_LAST\<close>.
\<close>

definition stat_list :: "stats_t list" where
  "stat_list = [STAT_MAXHITPOINTS, STAT_MAXMANAPOINTS, STAT_SOULPOINTS, STAT_MAGICPOINTS]"

definition stat_portion :: "condition_env \<Rightarrow> player \<Rightarrow> stats_t \<Rightarrow> i32 \<Rightarrow> attributes \<Rightarrow> attributes" where
  "stat_portion e p stat percent a =
     (case stat of
        STAT_MAXHITPOINTS \<Rightarrow> set_stats 0 (en_portion e (sint (getMaxHealth p)) percent) a
      | STAT_MAXMANAPOINTS \<Rightarrow> set_stats 1 (en_portion e (uint (getMaxMana p)) percent) a
      | STAT_SOULPOINTS \<Rightarrow> a
      | STAT_MAGICPOINTS \<Rightarrow> set_stats 3 (en_portion e (uint (pl_magLevel p)) percent) a)"

definition updatePercentStats :: "condition_env \<Rightarrow> player \<Rightarrow> attributes \<Rightarrow> attributes" where
  "updatePercentStats e p a =
     fold (\<lambda>stat a. let percent = at_statsPercent a ! stat_index stat
                    in if percent = 0 then a else stat_portion e p stat percent a) stat_list a"

definition updatePercentSkills :: "condition_env \<Rightarrow> player \<Rightarrow> attributes \<Rightarrow> attributes" where
  "updatePercentSkills e p a =
     fold (\<lambda>i a. let percent = at_skillsPercent a ! i
                 in if percent = 0 then a
                    else set_skills i (en_portion e (uint (sk_level (pl_skills p ! i))) percent) a) [0..<7] a"

definition updateStats :: "attributes \<Rightarrow> bearer \<Rightarrow> bearer" where
  "updateStats a b =
     (let b = fold (\<lambda>stat b. let v = at_stats a ! stat_index stat
                             in if v \<noteq> 0 then on_player (setVarStats stat v) b else b) stat_list b
      in if list_ex (\<lambda>stat. at_stats a ! stat_index stat \<noteq> 0) stat_list
         then on_player (emit SendSkills \<circ> emit SendStats) b else b)"

definition updateSkills :: "attributes \<Rightarrow> bearer \<Rightarrow> bearer" where
  "updateSkills a b =
     (let b = fold (\<lambda>i b. let v = at_skills a ! i in if v \<noteq> 0 then setVarSkill i v b else b) [0..<7] b;
          b = fold (\<lambda>i b. let v = at_specialSkills a ! i in if v \<noteq> 0 then setVarSpecialSkill i v b else b) [0..<6] b
      in if list_ex (\<lambda>i. at_skills a ! i \<noteq> 0) [0..<7] \<or> list_ex (\<lambda>i. at_specialSkills a ! i \<noteq> 0) [0..<6]
         then on_player (emit SendSkills) b else b)"

definition updateExperienceRate :: "attributes \<Rightarrow> bearer \<Rightarrow> bearer" where
  "updateExperienceRate a b =
     fold (\<lambda>i b. let v = at_experienceRate a ! i in if v \<noteq> 1 then setExperienceRate i v b else b) [1..<5] b"

definition attributes_startCondition ::
  "condition_env \<Rightarrow> condition \<Rightarrow> attributes \<Rightarrow> bearer \<Rightarrow> bool \<times> condition \<times> bearer" where
  "attributes_startCondition e c a b =
     (let (ok, c) = base_startCondition (en_now e) c in
      if \<not> ok then (False, c, b)
      else
        let b = b\<lparr>be_canUseDefense := \<not> at_disableDefense a\<rparr> in
        case be_player b of
          None \<Rightarrow> (True, c, b)
        | Some p \<Rightarrow>
            let a = updatePercentSkills e p a;
                b = updateSkills a b;
                a = updatePercentStats e p a;
                b = updateStats a b;
                b = updateExperienceRate a b
            in (True, set_attributes a c, b))"

definition attributes_endCondition :: "attributes \<Rightarrow> bearer \<Rightarrow> bearer" where
  "attributes_endCondition a b0 =
     (let b = b0;
          b = (case be_player b of
             None \<Rightarrow> b
           | Some _ \<Rightarrow>
               let b = fold (\<lambda>i b. let v = at_skills a ! i
                                   in if v \<noteq> 0 \<or> at_skillsPercent a ! i \<noteq> 0 then setVarSkill i (- v) b else b)
                         [0..<7] b;
                   b = fold (\<lambda>i b. let v = at_specialSkills a ! i
                                   in if v \<noteq> 0 then setVarSpecialSkill i (- v) b else b) [0..<6] b;
                   b = (if list_ex (\<lambda>i. at_skills a ! i \<noteq> 0 \<or> at_skillsPercent a ! i \<noteq> 0) [0..<7] \<or>
                           list_ex (\<lambda>i. at_specialSkills a ! i \<noteq> 0) [0..<6]
                        then on_player (emit SendSkills) b else b);
                   b = fold (\<lambda>stat b. let v = at_stats a ! stat_index stat
                                      in if v \<noteq> 0 then on_player (setVarStats stat (- v)) b else b) stat_list b;
                   b = (if list_ex (\<lambda>stat. at_stats a ! stat_index stat \<noteq> 0) stat_list
                        then on_player (emit SendSkills \<circ> emit SendStats) b else b)
               in fold (\<lambda>i b. let v = at_experienceRate a ! i
                              in if v \<noteq> 1 then setExperienceRate i (- v) b else b) [1..<5] b)
      in if at_disableDefense a then b\<lparr>be_canUseDefense := True\<rparr> else b)"

definition copy_attributes :: "attributes \<Rightarrow> attributes \<Rightarrow> attributes" where
  "copy_attributes from_a a =
     a\<lparr>at_skills := at_skills from_a, at_specialSkills := at_specialSkills from_a,
       at_skillsPercent := at_skillsPercent from_a, at_stats := at_stats from_a,
       at_statsPercent := at_statsPercent from_a, at_experienceRate := at_experienceRate from_a,
       at_disableDefense := at_disableDefense from_a\<rparr>"

definition attributes_addCondition ::
  "condition_env \<Rightarrow> condition \<Rightarrow> attributes \<Rightarrow> condition \<Rightarrow> attributes \<Rightarrow> bearer \<Rightarrow> condition \<times> bearer" where
  "attributes_addCondition e new conditionAttrs c a b =
     (if \<not> base_updateCondition (en_now e) new c then (c, b)
      else
        let c = setTicks (en_now e) (co_ticks new) c;
            b = attributes_endCondition a b;
            a = copy_attributes conditionAttrs a
        in case be_player b of
             None \<Rightarrow> (set_attributes a c, b)
           | Some p \<Rightarrow>
               let a = updatePercentSkills e p a;
                   b = updateSkills a b;
                   a = updatePercentStats e p a;
                   b = updateStats a b
               in (set_attributes a c, b))"

subsection \<open>Regeneration and soul\<close>

definition heal_amount :: "condition_env \<Rightarrow> regeneration \<Rightarrow> bearer \<Rightarrow> u32" where
  "heal_amount e r b =
     (if rg_healthGainPercent r \<noteq> 0
      then rg_healthGain r + en_gainPortion e (sint (bearer_getMaxHealth b)) (rg_healthGainPercent r - 100)
      else rg_healthGain r)"

definition mana_amount :: "condition_env \<Rightarrow> regeneration \<Rightarrow> player \<Rightarrow> u32" where
  "mana_amount e r p =
     (if rg_manaGainPercent r \<noteq> 0
      then rg_manaGain r + en_gainPortion e (uint (getMaxMana p)) (rg_manaGainPercent r - 100)
      else rg_manaGain r)"

text \<open>
  A gain from a party buff is told to the player and to those who see it; the events carry the amount.
\<close>

definition regenerate_health :: "condition_env \<Rightarrow> bool \<Rightarrow> regeneration \<Rightarrow> bearer \<Rightarrow> bearer" where
  "regenerate_health e isBuff r b0 =
     (let b = bearer_changeHealth (heal_amount e r b0) b0;
          realHealthGain = bearer_getHealth b - bearer_getHealth b0
      in if isBuff \<and> 0 <s realHealthGain \<and> be_player b \<noteq> None then log_event (HealedByBuff realHealthGain) b else b)"

definition regenerate_mana :: "condition_env \<Rightarrow> bool \<Rightarrow> regeneration \<Rightarrow> bearer \<Rightarrow> bearer" where
  "regenerate_mana e isBuff r b =
     (case be_player b of
        None \<Rightarrow> b
      | Some p \<Rightarrow>
          let p' = changeMana (mana_amount e r p) p;
              realManaGain = pl_mana p' - pl_mana p;
              b = on_player (\<lambda>_. p') b
          in if isBuff \<and> 0 <s realManaGain then log_event (ManaByBuff realManaGain) b else b)"

definition regeneration_executeCondition ::
  "condition_env \<Rightarrow> i32 \<Rightarrow> condition \<Rightarrow> regeneration \<Rightarrow> bearer \<Rightarrow> bool \<times> condition \<times> bearer" where
  "regeneration_executeCondition e interval c r b =
     (let r = r\<lparr>rg_internalHealthTicks := rg_internalHealthTicks r + interval,
                rg_internalManaTicks := rg_internalManaTicks r + interval\<rparr>;
          health_due = (\<not> en_protection e \<and> rg_healthTicks r \<le> rg_internalHealthTicks r);
          mana_due = (\<not> en_protection e \<and> rg_manaTicks r \<le> rg_internalManaTicks r);
          b = (if health_due then regenerate_health e (co_isBuff c) r b else b);
          r = (if health_due then r\<lparr>rg_internalHealthTicks := 0\<rparr> else r);
          b = (if mana_due then regenerate_mana e (co_isBuff c) r b else b);
          r = (if mana_due then r\<lparr>rg_internalManaTicks := 0\<rparr> else r);
          (alive, c) = base_executeCondition (en_now e) interval c
      in (alive, c\<lparr>co_class := ConditionRegeneration r\<rparr>, b))"

definition regeneration_addCondition ::
  "condition_env \<Rightarrow> condition \<Rightarrow> regeneration \<Rightarrow> condition \<Rightarrow> regeneration \<Rightarrow> condition" where
  "regeneration_addCondition e new conditionRegen c r =
     (if \<not> base_updateCondition (en_now e) new c then c
      else (setTicks (en_now e) (co_ticks new) c)\<lparr>co_class := ConditionRegeneration
        (r\<lparr>rg_healthTicks := rg_healthTicks conditionRegen, rg_manaTicks := rg_manaTicks conditionRegen,
           rg_healthGain := rg_healthGain conditionRegen, rg_manaGain := rg_manaGain conditionRegen,
           rg_healthGainPercent := rg_healthGainPercent conditionRegen,
           rg_manaGainPercent := rg_manaGainPercent conditionRegen\<rparr>)\<rparr>)"

definition soul_executeCondition ::
  "condition_env \<Rightarrow> i32 \<Rightarrow> condition \<Rightarrow> soul \<Rightarrow> bearer \<Rightarrow> bool \<times> condition \<times> bearer" where
  "soul_executeCondition e interval c s b =
     (let s = s\<lparr>so_internalSoulTicks := so_internalSoulTicks s + interval\<rparr>;
          due = (be_player b \<noteq> None \<and> \<not> en_protection e \<and> so_soulTicks s \<le> so_internalSoulTicks s);
          b = (if due then on_player (changeSoul (be_vocation b) (so_soulGain s)) b else b);
          s = (if due then s\<lparr>so_internalSoulTicks := 0\<rparr> else s);
          (alive, c) = base_executeCondition (en_now e) interval c
      in (alive, c\<lparr>co_class := ConditionSoul s\<rparr>, b))"

definition soul_addCondition :: "condition_env \<Rightarrow> condition \<Rightarrow> soul \<Rightarrow> condition \<Rightarrow> soul \<Rightarrow> condition" where
  "soul_addCondition e new conditionSoul c s =
     (if \<not> base_updateCondition (en_now e) new c then c
      else (setTicks (en_now e) (co_ticks new) c)\<lparr>co_class := ConditionSoul
        (s\<lparr>so_soulTicks := so_soulTicks conditionSoul, so_soulGain := so_soulGain conditionSoul\<rparr>)\<rparr>)"

subsection \<open>Damage, speed, outfit, light and drunkenness\<close>

text \<open>
  The harm itself is an argument of the model, with the new health and mana as its answer.  It leaves the list of
  conditions alone: that a hit may also put its victim in a fight (creature.cpp \<open>blockHit\<close>, player.cpp
  \<open>onAttacked\<close>, which adds CONDITION_INFIGHT) while the tick runs is not modelled.
\<close>

definition doDamage :: "condition_env \<Rightarrow> condition \<Rightarrow> i32 \<Rightarrow> bearer \<Rightarrow> bool \<times> bearer" where
  "doDamage e c healthChange b =
     (if isSuppress e (co_type c) \<or> isImmune e (co_type c) b then (False, b)
      else (case en_harm e c healthChange b of
              (done, health, mana) \<Rightarrow>
                (done, case be_player b of
                         Some p \<Rightarrow> b\<lparr>be_player := Some (p\<lparr>pl_health := health, pl_mana := mana\<rparr>)\<rparr>
                       | None \<Rightarrow> b\<lparr>be_health := health\<rparr>)))"

abbreviation set_damage :: "damage \<Rightarrow> condition \<Rightarrow> condition" where
  "set_damage d c \<equiv> c\<lparr>co_class := ConditionDamage d\<rparr>"

definition damage_startCondition ::
  "condition_env \<Rightarrow> condition \<Rightarrow> damage \<Rightarrow> bearer \<Rightarrow> (bool \<times> condition \<times> bearer) option" where
  "damage_startCondition e c d b =
     (let (ok, c) = base_startCondition (en_now e) c in
      if \<not> ok then Some (False, c, b)
      else
        let (ok, b) = (if \<not> da_delayed d then doDamage e c (da_initDamage d) b else (True, b)) in
        if \<not> ok then Some (False, c, b)
        else (case damage_init (en_closer e) (en_random e) (en_now e) (c, d) of
                None \<Rightarrow> None
              | Some (ok, c, d) \<Rightarrow> Some (ok, set_damage d c, b)))"

definition damage_executeCondition ::
  "condition_env \<Rightarrow> i32 \<Rightarrow> condition \<Rightarrow> damage \<Rightarrow> bearer \<Rightarrow> bool \<times> condition \<times> bearer" where
  "damage_executeCondition e interval c d b =
     (if da_periodDamage d \<noteq> 0 then
        let tick = da_periodDamageTick d + interval;
            due = (da_tickInterval d \<le>s tick);
            b = (if due then snd (doDamage e c (da_periodDamage d) b) else b);
            (alive, c) = base_executeCondition (en_now e) interval c
        in (alive, set_damage (d\<lparr>da_periodDamageTick := (if due then 0 else tick)\<rparr>) c, b)
      else (case da_damageList d of
        [] \<Rightarrow> (let (alive, c) = base_executeCondition (en_now e) interval c in (alive, set_damage d c, b))
      | damageInfo # rest \<Rightarrow>
          let bRemove = onTickCondition e (co_type c) (co_ticks c \<noteq> -1);
              timeLeft = ii_timeLeft damageInfo - interval;
              due = (timeLeft \<le>s 0);
              list = (if due then if bRemove then rest
                                  else damageInfo\<lparr>ii_timeLeft := ii_interval damageInfo\<rparr> # rest
                      else damageInfo\<lparr>ii_timeLeft := timeLeft\<rparr> # rest);
              b = (if due then snd (doDamage e c (ii_value damageInfo) b) else b);
              c = (if \<not> bRemove \<and> 0 <s co_ticks c then c\<lparr>co_endTime := co_endTime c + scast interval\<rparr> else c);
              (alive, c) = base_executeCondition (en_now e) (if bRemove then interval else 0) c
          in (alive, set_damage (d\<lparr>da_damageList := list\<rparr>) c, b)))"

definition restore_timeLeft :: "i32 \<Rightarrow> damage \<Rightarrow> damage" where
  "restore_timeLeft nextTimeLeft d =
     (case da_damageList d of
        [] \<Rightarrow> d
      | damageInfo # rest \<Rightarrow> d\<lparr>da_damageList := damageInfo\<lparr>ii_timeLeft := nextTimeLeft\<rparr> # rest\<rparr>)"

definition damage_addCondition ::
  "condition_env \<Rightarrow> condition \<Rightarrow> damage \<Rightarrow> condition \<Rightarrow> damage \<Rightarrow> bearer \<Rightarrow> (condition \<times> bearer) option" where
  "damage_addCondition e new conditionDamage c d b =
     (if co_type new \<noteq> co_type c then Some (c, b)
      else if \<not> damage_updateCondition new conditionDamage c d then Some (c, b)
      else
        let c = setTicks (en_now e) (co_ticks new) c;
            nextTimeLeft = (case da_damageList d of [] \<Rightarrow> da_tickInterval conditionDamage | i # _ \<Rightarrow> ii_timeLeft i);
            d = d\<lparr>da_owner := da_owner conditionDamage, da_maxDamage := da_maxDamage conditionDamage,
                  da_minDamage := da_minDamage conditionDamage, da_startDamage := da_startDamage conditionDamage,
                  da_tickInterval := da_tickInterval conditionDamage,
                  da_periodDamage := da_periodDamage conditionDamage,
                  da_damageList := da_damageList conditionDamage\<rparr>
        in (case damage_init (en_closer e) (en_random e) (en_now e) (c, d) of
              None \<Rightarrow> None
            | Some (ok, c, d) \<Rightarrow>
                if \<not> ok then Some (set_damage d c, b)
                else
                  let d = restore_timeLeft nextTimeLeft d in
                  if da_delayed d then Some (set_damage d c, b)
                  else (case getNextDamage c d of
                          (None, d) \<Rightarrow> Some (set_damage d c, b)
                        | (Some value, d) \<Rightarrow> Some (set_damage d c, snd (doDamage e (set_damage d c) value b)))))"

abbreviation set_speed :: "speed \<Rightarrow> condition \<Rightarrow> condition" where
  "set_speed s c \<equiv> c\<lparr>co_class := ConditionSpeed s\<rparr>"

definition drawn_speed :: "condition_env \<Rightarrow> speed \<Rightarrow> bearer \<Rightarrow> speed" where
  "drawn_speed e s b =
     (if sp_speedDelta s = 0
      then let (lo, hi) = en_formula e (be_baseSpeed b) (sp_mina s) (sp_minb s) (sp_maxa s) (sp_maxb s)
           in s\<lparr>sp_speedDelta := en_random e lo hi\<rparr>
      else s)"

definition speed_startCondition ::
  "condition_env \<Rightarrow> condition \<Rightarrow> speed \<Rightarrow> bearer \<Rightarrow> bool \<times> condition \<times> bearer" where
  "speed_startCondition e c s b =
     (let (ok, c) = base_startCondition (en_now e) c in
      if \<not> ok then (False, c, b)
      else let s = drawn_speed e s b in (True, set_speed s c, changeSpeed (sp_speedDelta s) b))"

definition speed_addCondition ::
  "condition_env \<Rightarrow> condition \<Rightarrow> speed \<Rightarrow> condition \<Rightarrow> speed \<Rightarrow> bearer \<Rightarrow> condition \<times> bearer" where
  "speed_addCondition e new conditionSpeed c s b =
     (if co_type c \<noteq> co_type new then (c, b)
      else if co_ticks c = -1 \<and> 0 <s co_ticks new then (c, b)
      else
        let c = setTicks (en_now e) (co_ticks new) c;
            s' = drawn_speed e conditionSpeed b;
            newSpeedChange = sp_speedDelta s' - sp_speedDelta s
        in (set_speed s' c, if newSpeedChange \<noteq> 0 then changeSpeed newSpeedChange b else b))"

text \<open>\<open>None\<close> is the division by a light level of zero.\<close>

definition light_change_interval :: "i32 \<Rightarrow> light_info \<Rightarrow> u32 option" where
  "light_change_interval ticks l =
     (if li_level l = 0 then None
      else let t = sint ticks; n = uint (li_level l)
           in Some (word_of_int (if 0 \<le> t then t div n else - (- t div n))))"

definition light_startCondition ::
  "condition_env \<Rightarrow> condition \<Rightarrow> light \<Rightarrow> bearer \<Rightarrow> (bool \<times> condition \<times> bearer) option" where
  "light_startCondition e c l b =
     (let (ok, c) = base_startCondition (en_now e) c in
      if \<not> ok then Some (False, c, b)
      else (case light_change_interval (co_ticks c) (lg_lightInfo l) of
              None \<Rightarrow> None
            | Some n \<Rightarrow> Some (True,
                c\<lparr>co_class := ConditionLight (l\<lparr>lg_internalLightTicks := 0, lg_lightChangeInterval := n\<rparr>)\<rparr>,
                log_event ChangeLight (setCreatureLight (lg_lightInfo l) b))))"

definition light_executeCondition ::
  "condition_env \<Rightarrow> i32 \<Rightarrow> condition \<Rightarrow> light \<Rightarrow> bearer \<Rightarrow> bool \<times> condition \<times> bearer" where
  "light_executeCondition e interval c l b =
     (let ticks = lg_internalLightTicks l + interval;
          due = (lg_lightChangeInterval l \<le> ticks);
          lightInfo = getCreatureLight b;
          b = (if due \<and> 0 < li_level lightInfo
               then log_event ChangeLight (setCreatureLight (lightInfo\<lparr>li_level := li_level lightInfo - 1\<rparr>) b)
               else b);
          l = l\<lparr>lg_internalLightTicks := (if due then 0 else ticks)\<rparr>;
          (alive, c) = base_executeCondition (en_now e) interval c
      in (alive, c\<lparr>co_class := ConditionLight l\<rparr>, b))"

definition light_addCondition ::
  "condition_env \<Rightarrow> condition \<Rightarrow> light \<Rightarrow> condition \<Rightarrow> light \<Rightarrow> bearer \<Rightarrow> (condition \<times> bearer) option" where
  "light_addCondition e new conditionLight c l b =
     (if \<not> base_updateCondition (en_now e) new c then Some (c, b)
      else
        let c = setTicks (en_now e) (co_ticks new) c in
        (case light_change_interval (co_ticks c) (lg_lightInfo conditionLight) of
           None \<Rightarrow> None
         | Some n \<Rightarrow> Some
             (c\<lparr>co_class := ConditionLight (l\<lparr>lg_lightInfo := lg_lightInfo conditionLight,
                 lg_lightChangeInterval := n, lg_internalLightTicks := 0\<rparr>)\<rparr>,
              log_event ChangeLight (setCreatureLight (lg_lightInfo conditionLight) b))))"

subsection \<open>The virtual calls\<close>

definition startCondition :: "condition_env \<Rightarrow> condition \<Rightarrow> bearer \<Rightarrow> (bool \<times> condition \<times> bearer) option" where
  "startCondition e c b =
     (case co_class c of
        ConditionAttributes a \<Rightarrow> Some (attributes_startCondition e c a b)
      | ConditionDamage d \<Rightarrow> damage_startCondition e c d b
      | ConditionSpeed s \<Rightarrow> Some (speed_startCondition e c s b)
      | ConditionInvisible \<Rightarrow>
          (let (ok, c) = base_startCondition (en_now e) c
           in Some (if \<not> ok then (False, c, b) else (True, c, log_event (ChangeVisible False) b)))
      | ConditionOutfit f \<Rightarrow>
          (let (ok, c) = base_startCondition (en_now e) c
           in Some (if \<not> ok then (False, c, b) else (True, c, internalCreatureChangeOutfit e f b)))
      | ConditionLight l \<Rightarrow> light_startCondition e c l b
      | ConditionDrunk drunkenness \<Rightarrow>
          (let (ok, c) = base_startCondition (en_now e) c
           in Some (if \<not> ok then (False, c, b) else (True, c, b\<lparr>be_drunkenness := drunkenness\<rparr>)))
      | _ \<Rightarrow> (let (ok, c) = base_startCondition (en_now e) c in Some (ok, c, b)))"

definition executeCondition :: "condition_env \<Rightarrow> i32 \<Rightarrow> condition \<Rightarrow> bearer \<Rightarrow> bool \<times> condition \<times> bearer" where
  "executeCondition e interval c b =
     (case co_class c of
        ConditionRegeneration r \<Rightarrow> regeneration_executeCondition e interval c r b
      | ConditionSoul s \<Rightarrow> soul_executeCondition e interval c s b
      | ConditionDamage d \<Rightarrow> damage_executeCondition e interval c d b
      | ConditionLight l \<Rightarrow> light_executeCondition e interval c l b
      | _ \<Rightarrow> (let (alive, c) = base_executeCondition (en_now e) interval c in (alive, c, b)))"

definition endCondition :: "condition_env \<Rightarrow> condition \<Rightarrow> bearer \<Rightarrow> bearer" where
  "endCondition e c b =
     (case co_class c of
        ConditionAttributes a \<Rightarrow> attributes_endCondition a b
      | ConditionSpeed s \<Rightarrow> changeSpeed (- sp_speedDelta s) b
      | ConditionInvisible \<Rightarrow> if \<not> isInvisible b then log_event (ChangeVisible True) b else b
      | ConditionOutfit _ \<Rightarrow> internalCreatureChangeOutfit e (be_defaultOutfit b) b
      | ConditionLight _ \<Rightarrow> log_event ChangeLight (b\<lparr>be_internalLight := be_normalLight b\<rparr>)
      | ConditionDrunk _ \<Rightarrow> b\<lparr>be_drunkenness := 0\<rparr>
      | _ \<Rightarrow> b)"

text \<open>
  \<open>c->addCondition(creature, new)\<close>.  Every class but \<open>ConditionDrunk\<close> compares the types and leaves when
  they differ; then it casts \<open>new\<close> to its own class.  \<open>None\<close> is a cast to a class that \<open>new\<close> does not
  have, or a failure of the method.
\<close>

definition merge_condition ::
  "condition_env \<Rightarrow> condition \<Rightarrow> condition \<Rightarrow> bearer \<Rightarrow> (condition \<times> bearer) option" where
  "merge_condition e new c b =
     (if co_type new \<noteq> co_type c \<and> (case co_class c of ConditionDrunk _ \<Rightarrow> False | _ \<Rightarrow> True) then Some (c, b)
      else case (co_class c, co_class new) of
        (ConditionAttributes a, ConditionAttributes a') \<Rightarrow> Some (attributes_addCondition e new a' c a b)
      | (ConditionRegeneration r, ConditionRegeneration r') \<Rightarrow> Some (regeneration_addCondition e new r' c r, b)
      | (ConditionSoul s, ConditionSoul s') \<Rightarrow> Some (soul_addCondition e new s' c s, b)
      | (ConditionDamage d, ConditionDamage d') \<Rightarrow> damage_addCondition e new d' c d b
      | (ConditionSpeed s, ConditionSpeed s') \<Rightarrow> Some (speed_addCondition e new s' c s b)
      | (ConditionOutfit f, ConditionOutfit f') \<Rightarrow>
          Some (if \<not> base_updateCondition (en_now e) new c then (c, b)
                else ((setTicks (en_now e) (co_ticks new) c)\<lparr>co_class := ConditionOutfit f'\<rparr>,
                      internalCreatureChangeOutfit e f' b))
      | (ConditionLight l, ConditionLight l') \<Rightarrow> light_addCondition e new l' c l b
      | (ConditionDrunk k, ConditionDrunk k') \<Rightarrow>
          Some (if \<not> k < k' then (c, b)
                else (setTicks (en_now e) (co_ticks new) c, b\<lparr>be_drunkenness := k'\<rparr>))
      | (ConditionGeneric, _) \<Rightarrow>
          Some (if base_updateCondition (en_now e) new c then setTicks (en_now e) (co_ticks new) c else c, b)
      | (ConditionInvisible, _) \<Rightarrow>
          Some (if base_updateCondition (en_now e) new c then setTicks (en_now e) (co_ticks new) c else c, b)
      | _ \<Rightarrow> None)"

subsection \<open>The conditions of a creature\<close>

definition getCondition :: "u32 \<Rightarrow> i8 \<Rightarrow> u32 \<Rightarrow> bearer \<Rightarrow> (nat \<times> condition) option" where
  "getCondition type conditionId subId b =
     List.find (\<lambda>(_, c). co_type c = type \<and> co_id c = conditionId \<and> co_subId c = subId) (be_conditions b)"

definition hasCondition :: "condition_env \<Rightarrow> u32 \<Rightarrow> u32 \<Rightarrow> bearer \<Rightarrow> bool" where
  "hasCondition e type subId b \<longleftrightarrow>
     \<not> isSuppress e type \<and>
     list_ex (\<lambda>(_, c). co_type c = type \<and> co_subId c = subId \<and> (en_now e \<le>s co_endTime c \<or> co_ticks c = -1))
       (be_conditions b)"

text \<open>\<open>erase\<close>, \<open>endCondition\<close> and \<open>onEndCondition\<close> of one condition.\<close>

definition SKULL_NONE :: u8 where "SKULL_NONE = 0"
definition SKULL_RED :: u8 where "SKULL_RED = 4"
definition SKULL_BLACK :: u8 where "SKULL_BLACK = 5"

definition getSkull :: "bearer \<Rightarrow> u8" where
  "getSkull b = (if be_player b \<noteq> None \<and> be_notGainInFight b then SKULL_NONE else be_skull b)"

definition setSkull :: "u8 \<Rightarrow> bearer \<Rightarrow> bearer" where
  "setSkull newSkull b = log_event CreatureSkullUpdated (b\<lparr>be_skull := newSkull\<rparr>)"

definition onEndCondition :: "u32 \<Rightarrow> bearer \<Rightarrow> bearer" where
  "onEndCondition type b =
     (if be_player b = None then b
      else
        let b = (if type = CONDITION_INFIGHT
                 then let b = (log_event IdleStatus b)\<lparr>be_pzLocked := False, be_attackedSet := {}\<rparr>
                      in if getSkull b \<noteq> SKULL_RED \<and> getSkull b \<noteq> SKULL_BLACK then setSkull SKULL_NONE b else b
                 else b)
        in log_event SendIcons b)"

definition drop_condition :: "condition_env \<Rightarrow> nat \<Rightarrow> condition \<Rightarrow> bearer \<Rightarrow> bearer" where
  "drop_condition e r c b =
     onEndCondition (co_type c)
       (endCondition e c (b\<lparr>be_conditions := filter (\<lambda>(r', _). r' \<noteq> r) (be_conditions b)\<rparr>))"

text \<open>
  The loops of the two \<open>removeCondition\<close> methods by type, over the conditions that match, in order.
\<close>

fun remove_each :: "condition_env \<Rightarrow> u32 \<Rightarrow> bool \<Rightarrow> (nat \<times> condition) list \<Rightarrow> bearer \<Rightarrow> bearer" where
  "remove_each e type force [] b = b"
| "remove_each e type force ((r, c) # rest) b =
     (if \<not> force \<and> type = CONDITION_PARALYZE \<and> 0 <s en_walkDelay e
      then log_event (ForceRemoveCondition type) b
      else remove_each e type force rest (drop_condition e r c b))"

definition removeCondition_type :: "condition_env \<Rightarrow> u32 \<Rightarrow> bool \<Rightarrow> bearer \<Rightarrow> bearer" where
  "removeCondition_type e type force b =
     remove_each e type force (filter (\<lambda>(_, c). co_type c = type) (be_conditions b)) b"

definition removeCondition_id :: "condition_env \<Rightarrow> u32 \<Rightarrow> i8 \<Rightarrow> bool \<Rightarrow> bearer \<Rightarrow> bearer" where
  "removeCondition_id e type conditionId force b =
     remove_each e type force
       (filter (\<lambda>(_, c). co_type c = type \<and> co_id c = conditionId) (be_conditions b)) b"

definition removeCondition :: "condition_env \<Rightarrow> nat \<Rightarrow> bool \<Rightarrow> bearer \<Rightarrow> bearer" where
  "removeCondition e r force b =
     (case map_of (be_conditions b) r of
        None \<Rightarrow> b
      | Some c \<Rightarrow>
          if \<not> force \<and> co_type c = CONDITION_PARALYZE \<and> 0 <s en_walkDelay e
          then log_event (ForceRemoveCondition (co_type c)) b
          else drop_condition e r c b)"

definition set_condition :: "nat \<Rightarrow> condition \<Rightarrow> bearer \<Rightarrow> bearer" where
  "set_condition r c b = b\<lparr>be_conditions := map (\<lambda>(r', c'). if r' = r then (r, c) else (r', c')) (be_conditions b)\<rparr>"

definition SCHEDULER_MINTICKS :: i64 where "SCHEDULER_MINTICKS = 50"

definition canDoAction :: "condition_env \<Rightarrow> bearer \<Rightarrow> bool" where
  "canDoAction e b \<longleftrightarrow> be_nextAction b \<le>s en_now e"

definition getNextActionTime :: "condition_env \<Rightarrow> bearer \<Rightarrow> u32" where
  "getNextActionTime e b =
     (let delay = be_nextAction b - en_now e
      in ucast (if SCHEDULER_MINTICKS <s delay then delay else SCHEDULER_MINTICKS))"

text \<open>
  \<open>Creature::onCombatRemoveCondition\<close> removes the condition; the override of \<open>Player\<close> may destroy the item it
  comes from, and prolongs it while the player is exhausted.
\<close>

definition onCombatRemoveCondition :: "condition_env \<Rightarrow> nat \<Rightarrow> condition \<Rightarrow> bearer \<Rightarrow> bearer" where
  "onCombatRemoveCondition e r c b =
     (if be_player b = None then removeCondition e r False b
      else if 0 <s co_id c then
        if en_pvpEnforced e \<and> en_inventoryItem e (co_id c) \<and> en_random e 1 100 \<le>s 25
        then log_event (ItemDestroyed (co_id c)) b else b
      else if \<not> canDoAction e b then
        let delay = getNextActionTime e b;
            ticks = delay - delay mod EVENT_CREATURE_THINK_INTERVAL
        in if ticks <s 0 then removeCondition e r False b
           else set_condition r (setTicks (en_now e) ticks c) b
      else removeCondition e r False b)"

definition removeCombatCondition :: "condition_env \<Rightarrow> u32 \<Rightarrow> bearer \<Rightarrow> bearer" where
  "removeCombatCondition e type b =
     fold (\<lambda>(r, _) b. case map_of (be_conditions b) r of None \<Rightarrow> b | Some c \<Rightarrow> onCombatRemoveCondition e r c b)
       (filter (\<lambda>(_, c). co_type c = type) (be_conditions b)) b"

definition onAddCondition :: "condition_env \<Rightarrow> u32 \<Rightarrow> bearer \<Rightarrow> bearer" where
  "onAddCondition e type b0 =
     (let b = (if type = CONDITION_PARALYZE \<and> hasCondition e CONDITION_HASTE 0 b0
               then removeCondition_type e CONDITION_HASTE False b0
               else if type = CONDITION_HASTE \<and> hasCondition e CONDITION_PARALYZE 0 b0
               then removeCondition_type e CONDITION_PARALYZE False b0
               else b0)
      in if be_player b = None then b else log_event SendIcons b)"

text \<open>\<open>r\<close> is the address of the new condition; the caller allocated it.\<close>

definition addCondition :: "condition_env \<Rightarrow> nat \<Rightarrow> condition \<Rightarrow> bool \<Rightarrow> bearer \<Rightarrow> (bool \<times> bearer) option" where
  "addCondition e r c force b =
     (if \<not> force \<and> co_type c = CONDITION_HASTE \<and> hasCondition e CONDITION_PARALYZE 0 b \<and> 0 <s en_walkDelay e
      then Some (False, log_event (ForceAddCondition c) b)
      else (case getCondition (co_type c) (co_id c) (co_subId c) b of
              Some (r', prevCond) \<Rightarrow> do {
                (prevCond, b) \<leftarrow> merge_condition e c prevCond b;
                Some (True, set_condition r' prevCond b) }
            | None \<Rightarrow> do {
                (ok, c, b) \<leftarrow> startCondition e c b;
                Some (if ok
                      then (True, onAddCondition e (co_type c) (b\<lparr>be_conditions := be_conditions b @ [(r, c)]\<rparr>))
                      else (False, b)) }))"

definition onAddCombatCondition :: "u32 \<Rightarrow> bearer \<Rightarrow> bearer" where
  "onAddCombatCondition type b =
     (if be_player b = None then b
      else if type = CONDITION_POISON then log_event (StatusMessage ''You are poisoned.'') b
      else if type = CONDITION_DROWN then log_event (StatusMessage ''You are drowning.'') b
      else if type = CONDITION_PARALYZE then log_event (StatusMessage ''You are paralyzed.'') b
      else if type = CONDITION_DRUNK then log_event (StatusMessage ''You are drunk.'') b
      else if type = CONDITION_CURSED then log_event (StatusMessage ''You are cursed.'') b
      else if type = CONDITION_FREEZING then log_event (StatusMessage ''You are freezing.'') b
      else if type = CONDITION_DAZZLED then log_event (StatusMessage ''You are dazzled.'') b
      else if type = CONDITION_BLEEDING then log_event (StatusMessage ''You are bleeding.'') b
      else b)"

definition addCombatCondition :: "condition_env \<Rightarrow> nat \<Rightarrow> condition \<Rightarrow> bearer \<Rightarrow> (bool \<times> bearer) option" where
  "addCombatCondition e r c b =
     do { (ok, b) \<leftarrow> addCondition e r c False b;
          Some (if \<not> ok then (False, b) else (True, onAddCombatCondition (co_type c) b)) }"

definition execute_one :: "condition_env \<Rightarrow> i32 \<Rightarrow> nat \<Rightarrow> bearer \<Rightarrow> bearer" where
  "execute_one e interval r b =
     (case map_of (be_conditions b) r of
        None \<Rightarrow> b
      | Some c \<Rightarrow>
          let (alive, c, b) = executeCondition e interval c b;
              b = set_condition r c b
          in if alive then b else drop_condition e r c b)"

definition executeConditions :: "condition_env \<Rightarrow> i32 \<Rightarrow> bearer \<Rightarrow> bearer" where
  "executeConditions e interval b = fold (execute_one e interval) (map fst (be_conditions b)) b"

end
