(* ===== verification/Condition_Bonuses.thy ===== *)
theory Condition_Bonuses
  imports Condition_System Training_Laws
begin

text \<open>
  What conditions do to the bonuses of a player.  \<open>granted\<close> is what a condition adds to a skill, special
  skill, statistic or the speed; every operation of \<open>Condition_System\<close> is shown to change a bonus by what
  the conditions it starts and ends grant, so the bonuses are accounted for in every reachable creature.
  The last section shows where this fails: experience rates and defence.
\<close>

subsection \<open>Bonuses\<close>

datatype bonus = BSkill nat | BSpecial nat | BStat stats_t | BSpeed

fun bonus_ok :: "bonus \<Rightarrow> bool" where
  "bonus_ok (BSkill i) \<longleftrightarrow> i < 7"
| "bonus_ok (BSpecial i) \<longleftrightarrow> i < 6"
| "bonus_ok _ \<longleftrightarrow> True"

text \<open>What a creature has of a bonus, and what a condition grants.\<close>

fun bonus_value :: "bonus \<Rightarrow> bearer \<Rightarrow> i32" where
  "bonus_value (BSkill i) b = be_varSkills b i"
| "bonus_value (BSpecial i) b = be_varSpecialSkills b i"
| "bonus_value (BStat s) b = (case be_player b of Some p \<Rightarrow> pl_varStats p s | None \<Rightarrow> 0)"
| "bonus_value BSpeed b = be_varSpeed b"

fun attributes_bonus :: "bonus \<Rightarrow> attributes \<Rightarrow> i32" where
  "attributes_bonus (BSkill i) a = at_skills a ! i"
| "attributes_bonus (BSpecial i) a = at_specialSkills a ! i"
| "attributes_bonus (BStat s) a = at_stats a ! stat_index s"
| "attributes_bonus BSpeed a = 0"

definition granted :: "bonus \<Rightarrow> condition \<Rightarrow> i32" where
  "granted k c =
     (case co_class c of
        ConditionAttributes a \<Rightarrow> attributes_bonus k a
      | ConditionSpeed s \<Rightarrow> if k = BSpeed then sp_speedDelta s else 0
      | _ \<Rightarrow> 0)"

text \<open>Calls that leave every bonus, the list of conditions and the kind of creature alone.\<close>

definition same_bonuses :: "bearer \<Rightarrow> bearer \<Rightarrow> bool" where
  "same_bonuses b b' \<longleftrightarrow>
     (\<forall>k. bonus_value k b' = bonus_value k b) \<and> be_conditions b' = be_conditions b \<and>
     (be_player b' = None \<longleftrightarrow> be_player b = None)"

lemma same_bonuses_refl [simp]: "same_bonuses b b"
  by (simp add: same_bonuses_def)

lemma same_bonusesI:
  assumes "be_varSkills b' = be_varSkills b" "be_varSpecialSkills b' = be_varSpecialSkills b"
    "be_varSpeed b' = be_varSpeed b" "be_conditions b' = be_conditions b"
    "map_option pl_varStats (be_player b') = map_option pl_varStats (be_player b)"
  shows "same_bonuses b b'"
proof -
  have "bonus_value k b' = bonus_value k b" for k
    using assms by (cases k) (auto split: option.splits)
  then show ?thesis
    using assms(4,5) by (auto simp: same_bonuses_def split: option.splits)
qed

lemma log_event_sel [simp]:
  "be_varSkills (log_event x b) = be_varSkills b" "be_varSpecialSkills (log_event x b) = be_varSpecialSkills b"
  "be_varSpeed (log_event x b) = be_varSpeed b" "be_conditions (log_event x b) = be_conditions b"
  "be_player (log_event x b) = be_player b" "be_experienceRate (log_event x b) = be_experienceRate b"
  "be_canUseDefense (log_event x b) = be_canUseDefense b" "be_baseSpeed (log_event x b) = be_baseSpeed b"
  by (simp_all add: log_event_def)

lemma on_player_sel [simp]:
  "be_varSkills (on_player f b) = be_varSkills b" "be_varSpecialSkills (on_player f b) = be_varSpecialSkills b"
  "be_varSpeed (on_player f b) = be_varSpeed b" "be_conditions (on_player f b) = be_conditions b"
  "be_player (on_player f b) = map_option f (be_player b)" "be_experienceRate (on_player f b) = be_experienceRate b"
  "be_canUseDefense (on_player f b) = be_canUseDefense b"
  by (simp_all add: on_player_def)

lemma pl_varStats_calls [simp]:
  "pl_varStats (emit x p) = pl_varStats p" "pl_varStats (creature_changeHealth v s p) = pl_varStats p"
  "pl_varStats (changeHealth v s p) = pl_varStats p" "pl_varStats (changeMana m p) = pl_varStats p"
  "pl_varStats (changeSoul voc m p) = pl_varStats p"
  by (simp_all add: emit_def creature_changeHealth_def changeHealth_def changeMana_def changeSoul_def Let_def)

lemma pl_varStats_setVarStats [simp]:
  "pl_varStats (setVarStats s m p) = (pl_varStats p)(s := pl_varStats p s + m)"
  by (cases s) (simp_all add: setVarStats_def Let_def)

lemma map_varStats_on_player:
  assumes "\<And>p. pl_varStats (f p) = pl_varStats p"
  shows "map_option pl_varStats (map_option f x) = map_option pl_varStats x"
  using assms by (cases x) simp_all

lemma bearer_changeHealth_same: "same_bonuses b (bearer_changeHealth v b)"
  by (rule same_bonusesI)
    (auto simp: bearer_changeHealth_def Let_def on_player_def split: option.splits)

lemma doDamage_same: "same_bonuses b (snd (doDamage e c v b))"
  by (rule same_bonusesI) (auto simp: doDamage_def split: prod.splits option.splits)

lemma internalCreatureChangeOutfit_same: "same_bonuses b (internalCreatureChangeOutfit e f b)"
  by (rule same_bonusesI) (auto simp: internalCreatureChangeOutfit_def Let_def)

lemma same_bonuses_trans [trans]: "same_bonuses a b \<Longrightarrow> same_bonuses b c \<Longrightarrow> same_bonuses a c"
  by (simp add: same_bonuses_def)

lemma same_bonuses_update [simp]:
  "same_bonuses b (b\<lparr>be_drunkenness := d\<rparr>)" "same_bonuses b (b\<lparr>be_internalLight := l\<rparr>)"
  "same_bonuses b (b\<lparr>be_canUseDefense := u\<rparr>)" "same_bonuses b (log_event x b)"
  "same_bonuses b (log_event x (setCreatureLight l b))" "same_bonuses b (log_event x (b\<lparr>be_internalLight := l\<rparr>))"
  by (auto intro!: same_bonusesI simp: setCreatureLight_def)

subsection \<open>The loops over an array of bonuses\<close>

lemma fold_setVarSkill:
  assumes "distinct is"
  shows "be_varSkills (fold (\<lambda>i b. if P i then setVarSkill i (v i) b else b) is b) =
      (\<lambda>i. if i \<in> set is \<and> P i then be_varSkills b i + v i else be_varSkills b i)"
  using assms by (induction "is" arbitrary: b) (auto simp: setVarSkill_def fun_eq_iff)

lemma fold_setVarSpecialSkill:
  assumes "distinct is"
  shows "be_varSpecialSkills (fold (\<lambda>i b. if P i then setVarSpecialSkill i (v i) b else b) is b) =
      (\<lambda>i. if i \<in> set is \<and> P i then be_varSpecialSkills b i + v i else be_varSpecialSkills b i)"
  using assms by (induction "is" arbitrary: b) (auto simp: setVarSpecialSkill_def fun_eq_iff)

lemma fold_setVarStats:
  assumes "distinct ss"
  shows "map_option pl_varStats (be_player (fold (\<lambda>s b. if P s then on_player (setVarStats s (v s)) b else b) ss b)) =
      map_option (\<lambda>p s. if s \<in> set ss \<and> P s then pl_varStats p s + v s else pl_varStats p s) (be_player b)"
  using assms
proof (induction ss arbitrary: b)
  case Nil
  then show ?case by (simp cong: map_option_cong)
next
  case (Cons s ss)
  then show ?case
    by (auto simp: option.map_comp comp_def fun_eq_iff intro!: map_option_cong)
qed

lemma fold_keeps: "(\<And>i b. f (g i b) = f b) \<Longrightarrow> f (fold g is b) = f b"
  by (induction "is" arbitrary: b) simp_all

lemma setVarSkill_sel [simp]:
  "be_varSpecialSkills (setVarSkill i v b) = be_varSpecialSkills b" "be_varSpeed (setVarSkill i v b) = be_varSpeed b"
  "be_conditions (setVarSkill i v b) = be_conditions b" "be_player (setVarSkill i v b) = be_player b"
  "be_varSkills (setVarSpecialSkill i v b) = be_varSkills b" "be_varSpeed (setVarSpecialSkill i v b) = be_varSpeed b"
  "be_conditions (setVarSpecialSkill i v b) = be_conditions b" "be_player (setVarSpecialSkill i v b) = be_player b"
  "be_varSkills (setExperienceRate i v b) = be_varSkills b"
  "be_varSpecialSkills (setExperienceRate i v b) = be_varSpecialSkills b"
  "be_varSpeed (setExperienceRate i v b) = be_varSpeed b" "be_conditions (setExperienceRate i v b) = be_conditions b"
  "be_player (setExperienceRate i v b) = be_player b"
  "be_canUseDefense (setVarSkill i v b) = be_canUseDefense b"
  "be_canUseDefense (setVarSpecialSkill i v b) = be_canUseDefense b"
  "be_canUseDefense (setExperienceRate i v b) = be_canUseDefense b"
  "be_experienceRate (setVarSkill i v b) = be_experienceRate b"
  "be_experienceRate (setVarSpecialSkill i v b) = be_experienceRate b"
  by (simp_all add: setVarSkill_def setVarSpecialSkill_def setExperienceRate_def)

definition keeps_frame :: "(bearer \<Rightarrow> bearer) \<Rightarrow> bool" where
  "keeps_frame f \<longleftrightarrow> (\<forall>b. be_conditions (f b) = be_conditions b \<and> be_varSpeed (f b) = be_varSpeed b \<and>
     (be_player (f b) = None \<longleftrightarrow> be_player b = None))"

lemma keeps_frame_if: "keeps_frame f \<Longrightarrow> keeps_frame (\<lambda>b. if P then f b else b)"
  by (simp add: keeps_frame_def)

lemma keeps_frame_fold:
  assumes "\<And>i. keeps_frame (g i)"
  shows "keeps_frame (fold g is)"
proof -
  have "be_conditions (fold g is b) = be_conditions b \<and> be_varSpeed (fold g is b) = be_varSpeed b \<and>
     (be_player (fold g is b) = None \<longleftrightarrow> be_player b = None)" for b
    using assms by (induction "is" arbitrary: b) (simp_all add: keeps_frame_def)
  then show ?thesis by (simp add: keeps_frame_def)
qed

lemma keeps_frame_calls [simp]:
  "keeps_frame (setVarSkill i v)" "keeps_frame (setVarSpecialSkill i v)" "keeps_frame (setExperienceRate i v)"
  "keeps_frame (on_player f)"
  by (simp_all add: keeps_frame_def)

subsection \<open>What the loops add\<close>

text \<open>The three loops of an attribute condition, with the sign \<open>s\<close> of the bonus (\<open>id\<close> or \<open>uminus\<close>).\<close>

definition skills_loop :: "(nat \<Rightarrow> bool) \<Rightarrow> (nat \<Rightarrow> i32) \<Rightarrow> bearer \<Rightarrow> bearer" where
  "skills_loop P v = fold (\<lambda>i b. if P i then setVarSkill i (v i) b else b) [0..<7]"

definition specials_loop :: "(nat \<Rightarrow> bool) \<Rightarrow> (nat \<Rightarrow> i32) \<Rightarrow> bearer \<Rightarrow> bearer" where
  "specials_loop P v = fold (\<lambda>i b. if P i then setVarSpecialSkill i (v i) b else b) [0..<6]"

definition stats_loop :: "(stats_t \<Rightarrow> bool) \<Rightarrow> (stats_t \<Rightarrow> i32) \<Rightarrow> bearer \<Rightarrow> bearer" where
  "stats_loop P v = fold (\<lambda>s b. if P s then on_player (setVarStats s (v s)) b else b) stat_list"

definition rates_loop :: "(nat \<Rightarrow> bool) \<Rightarrow> (nat \<Rightarrow> i32) \<Rightarrow> bearer \<Rightarrow> bearer" where
  "rates_loop P v = fold (\<lambda>i b. if P i then setExperienceRate i (v i) b else b) [1..<5]"

lemma loops_frame [simp]:
  "keeps_frame (skills_loop P v)" "keeps_frame (specials_loop P v)"
  "keeps_frame (stats_loop Q w)" "keeps_frame (rates_loop P v)"
  by (simp_all add: skills_loop_def specials_loop_def stats_loop_def rates_loop_def keeps_frame_fold keeps_frame_if
      del: upt_Suc)

lemma frame_sel:
  assumes "keeps_frame f"
  shows "be_conditions (f b) = be_conditions b" "be_varSpeed (f b) = be_varSpeed b"
    "be_player (f b) = None \<longleftrightarrow> be_player b = None"
  using assms by (simp_all add: keeps_frame_def)

lemmas loops_sel [simp] = loops_frame(1) [THEN frame_sel(1)] loops_frame(1) [THEN frame_sel(2)]
  loops_frame(1) [THEN frame_sel(3)] loops_frame(2) [THEN frame_sel(1)] loops_frame(2) [THEN frame_sel(2)]
  loops_frame(2) [THEN frame_sel(3)] loops_frame(3) [THEN frame_sel(1)] loops_frame(3) [THEN frame_sel(2)]
  loops_frame(3) [THEN frame_sel(3)] loops_frame(4) [THEN frame_sel(1)] loops_frame(4) [THEN frame_sel(2)]
  loops_frame(4) [THEN frame_sel(3)]

lemma skills_loop_other [simp]:
  "be_varSpecialSkills (skills_loop P v b) = be_varSpecialSkills b" "be_player (skills_loop P v b) = be_player b"
  "be_varSkills (specials_loop P v b) = be_varSkills b" "be_player (specials_loop P v b) = be_player b"
  "be_varSkills (stats_loop Q w b) = be_varSkills b" "be_varSpecialSkills (stats_loop Q w b) = be_varSpecialSkills b"
  "be_varSkills (rates_loop P v b) = be_varSkills b" "be_varSpecialSkills (rates_loop P v b) = be_varSpecialSkills b"
  "be_player (rates_loop P v b) = be_player b"
  "be_canUseDefense (skills_loop P v b) = be_canUseDefense b"
  "be_canUseDefense (specials_loop P v b) = be_canUseDefense b"
  "be_canUseDefense (stats_loop Q w b) = be_canUseDefense b"
  "be_canUseDefense (rates_loop P v b) = be_canUseDefense b"
  "be_experienceRate (skills_loop P v b) = be_experienceRate b"
  "be_experienceRate (specials_loop P v b) = be_experienceRate b"
  "be_experienceRate (stats_loop Q w b) = be_experienceRate b"
  by (simp_all add: skills_loop_def specials_loop_def stats_loop_def rates_loop_def fold_keeps del: upt_Suc)

lemma skills_loop_adds:
  assumes "\<And>i. i < 7 \<Longrightarrow> \<not> P i \<Longrightarrow> v i = 0" and "i < 7"
  shows "be_varSkills (skills_loop P v b) i = be_varSkills b i + v i"
  using assms by (simp add: skills_loop_def fold_setVarSkill del: upt_Suc)

lemma specials_loop_adds:
  assumes "\<And>i. i < 6 \<Longrightarrow> \<not> P i \<Longrightarrow> v i = 0" and "i < 6"
  shows "be_varSpecialSkills (specials_loop P v b) i = be_varSpecialSkills b i + v i"
  using assms by (simp add: specials_loop_def fold_setVarSpecialSkill del: upt_Suc)

lemma stat_in_list [simp]: "s \<in> set stat_list" "distinct stat_list"
  by (cases s) (simp_all add: stat_list_def)

lemma stats_loop_adds:
  assumes "\<And>s. \<not> P s \<Longrightarrow> v s = 0" and "be_player b \<noteq> None"
  shows "bonus_value (BStat s) (stats_loop P v b) = bonus_value (BStat s) b + v s"
proof -
  from assms(2) obtain p where p: "be_player b = Some p" by auto
  have "map_option pl_varStats (be_player (stats_loop P v b)) =
      Some (\<lambda>s. if s \<in> set stat_list \<and> P s then pl_varStats p s + v s else pl_varStats p s)"
    unfolding stats_loop_def by (subst fold_setVarStats) (simp_all add: p)
  then show ?thesis using assms(1) p by auto
qed

lemma bonus_value_stat_same:
  "map_option pl_varStats (be_player b') = map_option pl_varStats (be_player b) \<Longrightarrow>
   bonus_value (BStat s) b' = bonus_value (BStat s) b"
  by (auto split: option.splits)

lemma send_same: "same_bonuses b (if P then on_player (emit x) b else b)"
  "same_bonuses b (if P then on_player (emit x \<circ> emit y) b else b)"
  by (rule same_bonusesI; auto simp: option.map_comp comp_def)+

lemma same_bonusesD:
  "same_bonuses b b' \<Longrightarrow> bonus_value k b' = bonus_value k b"
  "same_bonuses b b' \<Longrightarrow> be_conditions b' = be_conditions b"
  "same_bonuses b b' \<Longrightarrow> be_player b' = None \<longleftrightarrow> be_player b = None"
  by (simp_all add: same_bonuses_def)

text \<open>The three loops together, each followed by messages to the client.\<close>

lemma all_loops_add:
  assumes "be_player b \<noteq> None" and "bonus_ok k"
    and "\<And>i. i < 7 \<Longrightarrow> \<not> P i \<Longrightarrow> v i = 0" "\<And>i. i < 6 \<Longrightarrow> \<not> Q i \<Longrightarrow> w i = 0" "\<And>s. \<not> R s \<Longrightarrow> x s = 0"
    and "same_bonuses (specials_loop Q w (skills_loop P v b)) b1" and "same_bonuses (stats_loop R x b1) b2"
  shows "bonus_value k b2 = bonus_value k b +
      (case k of BSkill i \<Rightarrow> v i | BSpecial i \<Rightarrow> w i | BStat s \<Rightarrow> x s | BSpeed \<Rightarrow> 0)"
proof -
  have "be_player b1 \<noteq> None" using assms(1) same_bonusesD(3) [OF assms(6)] by simp
  moreover have "bonus_value k b1 = bonus_value k (specials_loop Q w (skills_loop P v b))"
    and "bonus_value k b2 = bonus_value k (stats_loop R x b1)"
    using assms(6,7) by (simp_all add: same_bonusesD)
  ultimately show ?thesis
    using assms(2) skills_loop_adds [of P v, OF assms(3)] specials_loop_adds [of Q w, OF assms(4)]
      stats_loop_adds [of R x b1, OF assms(5)]
    by (cases k) (simp_all del: bonus_value.simps(3), simp_all)
qed

lemma updateSkills_loops:
  "same_bonuses (specials_loop (\<lambda>i. at_specialSkills a ! i \<noteq> 0) (\<lambda>i. at_specialSkills a ! i)
     (skills_loop (\<lambda>i. at_skills a ! i \<noteq> 0) (\<lambda>i. at_skills a ! i) b)) (updateSkills a b)"
  unfolding updateSkills_def specials_loop_def skills_loop_def Let_def by (rule send_same)

lemma updateStats_loops:
  "same_bonuses (stats_loop (\<lambda>s. at_stats a ! stat_index s \<noteq> 0) (\<lambda>s. at_stats a ! stat_index s) b) (updateStats a b)"
  unfolding updateStats_def stats_loop_def Let_def by (rule send_same)

lemma updateExperienceRate_loops:
  "updateExperienceRate a b = rates_loop (\<lambda>i. at_experienceRate a ! i \<noteq> 1) (\<lambda>i. at_experienceRate a ! i) b"
  by (simp add: updateExperienceRate_def rates_loop_def Let_def)

lemma rates_loop_same: "same_bonuses b (rates_loop P v b)"
  by (rule same_bonusesI) simp_all

lemma updatePercentStats_sel [simp]:
  "at_skills (updatePercentStats e p a) = at_skills a" "at_specialSkills (updatePercentStats e p a) = at_specialSkills a"
  "at_experienceRate (updatePercentStats e p a) = at_experienceRate a"
  "at_disableDefense (updatePercentStats e p a) = at_disableDefense a"
  by (simp_all add: updatePercentStats_def stat_list_def stat_portion_def Let_def)

lemma updatePercentSkills_sel [simp]:
  "at_specialSkills (updatePercentSkills e p a) = at_specialSkills a" "at_stats (updatePercentSkills e p a) = at_stats a"
  "at_experienceRate (updatePercentSkills e p a) = at_experienceRate a"
  "at_disableDefense (updatePercentSkills e p a) = at_disableDefense a"
  unfolding updatePercentSkills_def by (rule fold_keeps; simp add: Let_def)+

text \<open>The members an attribute condition has once its percentages are computed.\<close>

lemma attributes_applied:
  assumes "be_player b \<noteq> None" and "bonus_ok k"
    and "a1 = updatePercentSkills e p a" and "a2 = updatePercentStats e p a1"
  shows "bonus_value k (updateStats a2 (updateSkills a1 b)) = bonus_value k b + attributes_bonus k a2"
proof -
  have "bonus_value k (updateStats a2 (updateSkills a1 b)) = bonus_value k b +
      (case k of BSkill i \<Rightarrow> at_skills a1 ! i | BSpecial i \<Rightarrow> at_specialSkills a1 ! i
       | BStat s \<Rightarrow> at_stats a2 ! stat_index s | BSpeed \<Rightarrow> 0)"
    by (rule all_loops_add [OF assms(1,2) _ _ _ updateSkills_loops updateStats_loops]) auto
  then show ?thesis using assms(4) by (cases k) simp_all
qed

lemma updates_frame:
  "be_conditions (updateSkills a b) = be_conditions b" "be_player (updateSkills a b) = None \<longleftrightarrow> be_player b = None"
  "be_conditions (updateStats a b) = be_conditions b" "be_player (updateStats a b) = None \<longleftrightarrow> be_player b = None"
  using same_bonusesD(2,3) [OF updateSkills_loops [of a b]] same_bonusesD(2,3) [OF updateStats_loops [of a b]]
  by simp_all

lemma base_startCondition_result:
  "fst (base_startCondition t c)" "co_class (snd (base_startCondition t c)) = co_class c"
  "co_type (snd (base_startCondition t c)) = co_type c" "co_id (snd (base_startCondition t c)) = co_id c"
  "co_subId (snd (base_startCondition t c)) = co_subId c"
  by (simp_all add: base_startCondition_def setEndTime_def)

text \<open>The name of a condition: type, id and sub id.\<close>

definition key :: "condition \<Rightarrow> u32 \<times> i8 \<times> u32" where
  "key c = (co_type c, co_id c, co_subId c)"

text \<open>A call that turns condition \<open>c\<close> into \<open>c'\<close> and adds \<open>g k\<close> to every bonus \<open>k\<close>.\<close>

definition changes_bonuses ::
  "condition \<Rightarrow> bearer \<Rightarrow> condition \<Rightarrow> bearer \<Rightarrow> (bonus \<Rightarrow> i32) \<Rightarrow> bool" where
  "changes_bonuses c b c' b' g \<longleftrightarrow>
     key c' = key c \<and> same_class (co_class c) (co_class c') \<and> be_conditions b' = be_conditions b \<and>
     (be_player b' = None \<longleftrightarrow> be_player b = None) \<and>
     (\<forall>k. bonus_ok k \<longrightarrow> bonus_value k b' = bonus_value k b + g k)"

lemma same_class_refl [simp]: "same_class x x"
  by (cases x) (simp_all add: same_class_def)

lemma changes_none:
  assumes "key c' = key c" "same_class (co_class c) (co_class c')" "same_bonuses b b'"
    "\<And>k. bonus_ok k \<Longrightarrow> g k = 0"
  shows "changes_bonuses c b c' b' g"
  using assms by (simp add: changes_bonuses_def same_bonuses_def)

lemma attributes_start_adds:
  assumes "co_class c = ConditionAttributes a" and "be_player b \<noteq> None"
    and "attributes_startCondition e c a b = (ok, c', b')"
  shows "ok \<and> changes_bonuses c b c' b' (\<lambda>k. granted k c')"
proof -
  obtain p where p: "be_player b = Some p" using assms(2) by auto
  define c1 where "c1 = snd (base_startCondition (en_now e) c)"
  have start: "base_startCondition (en_now e) c = (True, c1)"
    using base_startCondition_result(1) [of "en_now e" c] by (simp add: c1_def prod_eq_iff)
  define b1 where "b1 = b\<lparr>be_canUseDefense := \<not> at_disableDefense a\<rparr>"
  define a1 where "a1 = updatePercentSkills e p a"
  define a2 where "a2 = updatePercentStats e p a1"
  have result: "ok" "c' = set_attributes a2 c1" "b' = updateExperienceRate a2 (updateStats a2 (updateSkills a1 b1))"
    using assms(3) p by (simp_all add: attributes_startCondition_def start Let_def a1_def a2_def b1_def)
  have b1: "same_bonuses b b1" by (simp add: b1_def)
  have "bonus_value k b' = bonus_value k b + attributes_bonus k a2" if "bonus_ok k" for k
  proof -
    have "bonus_value k b' = bonus_value k (updateStats a2 (updateSkills a1 b1))"
      unfolding result(3) updateExperienceRate_loops by (rule same_bonusesD(1) [OF rates_loop_same])
    also have "\<dots> = bonus_value k b1 + attributes_bonus k a2"
      by (rule attributes_applied [OF _ that]) (simp_all add: b1_def p a1_def a2_def)
    finally show ?thesis using same_bonusesD(1) [OF b1, of k] by simp
  qed
  moreover have "be_conditions b' = be_conditions b" "be_player b' = None \<longleftrightarrow> be_player b = None"
    unfolding result(3) updateExperienceRate_loops by (simp_all add: updates_frame b1_def)
  moreover have "key c' = key c" "same_class (co_class c) (co_class c')"
    using base_startCondition_result [of "en_now e" c] assms(1)
    by (simp_all add: result(2) c1_def key_def same_class_def)
  ultimately show ?thesis
    using result(1) by (simp add: changes_bonuses_def granted_def result(2))
qed

lemma attributes_end_removes:
  assumes "be_player b \<noteq> None"
  shows "(\<forall>k. bonus_ok k \<longrightarrow> bonus_value k (attributes_endCondition a b) = bonus_value k b - attributes_bonus k a) \<and>
    be_conditions (attributes_endCondition a b) = be_conditions b \<and> be_player (attributes_endCondition a b) \<noteq> None"
proof -
  obtain p where p: "be_player b = Some p" using assms by auto
  let ?P = "\<lambda>i. at_skills a ! i \<noteq> 0 \<or> at_skillsPercent a ! i \<noteq> 0" and ?v = "\<lambda>i. - (at_skills a ! i)"
  let ?Q = "\<lambda>i. at_specialSkills a ! i \<noteq> 0" and ?w = "\<lambda>i. - (at_specialSkills a ! i)"
  let ?R = "\<lambda>s. at_stats a ! stat_index s \<noteq> 0" and ?x = "\<lambda>s. - (at_stats a ! stat_index s)"
  let ?S = "\<lambda>i. at_experienceRate a ! i \<noteq> 1" and ?y = "\<lambda>i. - (at_experienceRate a ! i)"
  let ?loops = "specials_loop ?Q ?w (skills_loop ?P ?v b)"
  define b1 where "b1 = (if list_ex ?P [0..<7] \<or> list_ex ?Q [0..<6] then on_player (emit SendSkills) ?loops else ?loops)"
  define b2 where "b2 = (if list_ex ?R stat_list then on_player (emit SendSkills \<circ> emit SendStats) (stats_loop ?R ?x b1)
    else stats_loop ?R ?x b1)"
  have b1: "same_bonuses ?loops b1" and b2: "same_bonuses (stats_loop ?R ?x b1) b2"
    unfolding b1_def b2_def by (rule send_same)+
  define b3 where "b3 = rates_loop ?S ?y b2"
  have eq: "attributes_endCondition a b = (if at_disableDefense a then b3\<lparr>be_canUseDefense := True\<rparr> else b3)"
    unfolding attributes_endCondition_def Let_def p option.case b3_def b2_def b1_def rates_loop_def stats_loop_def
      specials_loop_def skills_loop_def ..
  have same: "same_bonuses b2 (attributes_endCondition a b)"
    unfolding eq b3_def by (rule same_bonusesI) simp_all
  have "bonus_value k (attributes_endCondition a b) = bonus_value k b - attributes_bonus k a" if "bonus_ok k" for k
  proof -
    have "bonus_value k b2 = bonus_value k b +
        (case k of BSkill i \<Rightarrow> ?v i | BSpecial i \<Rightarrow> ?w i | BStat s \<Rightarrow> ?x s | BSpeed \<Rightarrow> 0)"
      by (rule all_loops_add [OF assms that _ _ _ b1 b2]) auto
    then show ?thesis using same_bonusesD(1) [OF same, of k] by (cases k) simp_all
  qed
  moreover have "be_conditions b2 = be_conditions b" "be_player b2 \<noteq> None"
    using same_bonusesD(2,3) [OF b2] same_bonusesD(2,3) [OF b1] assms by simp_all
  ultimately show ?thesis using same_bonusesD(2,3) [OF same] by simp
qed

lemma setTicks_sel [simp]:
  "co_class (setTicks t n c) = co_class c" "co_type (setTicks t n c) = co_type c" "co_id (setTicks t n c) = co_id c"
  "co_subId (setTicks t n c) = co_subId c" "co_ticks (setTicks t n c) = n"
  "co_endTime (setTicks t n c) = scast n + t"
  by (simp_all add: setTicks_def setEndTime_def)

lemma attributes_merge_swaps:
  assumes "co_class c = ConditionAttributes a" and "be_player b \<noteq> None"
    and "attributes_addCondition e new a' c a b = (c', b')"
  shows "changes_bonuses c b c' b' (\<lambda>k. granted k c' - granted k c)"
proof (cases "base_updateCondition (en_now e) new c")
  case False
  then show ?thesis
    using assms by (simp add: attributes_addCondition_def changes_none)
next
  case True
  let ?a = "copy_attributes a' a" and ?b = "attributes_endCondition a b"
  note removed = attributes_end_removes [OF assms(2), of a]
  then obtain p where p: "be_player ?b = Some p" by auto
  define a1 where "a1 = updatePercentSkills e p ?a"
  define a2 where "a2 = updatePercentStats e p a1"
  have result: "c' = set_attributes a2 (setTicks (en_now e) (co_ticks new) c)" "b' = updateStats a2 (updateSkills a1 ?b)"
    using assms(3) True p by (simp_all add: attributes_addCondition_def Let_def a1_def a2_def)
  have "bonus_value k b' = bonus_value k b + (attributes_bonus k a2 - attributes_bonus k a)" if "bonus_ok k" for k
    using attributes_applied [of ?b k a1 e p ?a a2] removed that by (simp add: result(2) a1_def a2_def p)
  then show ?thesis
    using removed assms(1,2)
    by (auto simp: changes_bonuses_def granted_def result updates_frame key_def same_class_def)
qed

lemma changeSpeed_sel [simp]:
  "be_varSpeed (changeSpeed d b) = be_varSpeed b + d" "be_varSkills (changeSpeed d b) = be_varSkills b"
  "be_varSpecialSkills (changeSpeed d b) = be_varSpecialSkills b" "be_player (changeSpeed d b) = be_player b"
  "be_conditions (changeSpeed d b) = be_conditions b"
  by (simp_all add: changeSpeed_def setSpeed_def getSpeed_def Let_def)

lemma changeSpeed_bonus:
  "bonus_value k (changeSpeed d b) = bonus_value k b + (if k = BSpeed then d else 0)"
  by (cases k) simp_all

lemma speed_merge_swaps:
  assumes "co_class c = ConditionSpeed s" and "speed_addCondition e new s' c s b = (c', b')"
  shows "changes_bonuses c b c' b' (\<lambda>k. granted k c' - granted k c)"
  using assms
  by (auto simp: speed_addCondition_def changes_bonuses_def granted_def key_def same_class_def changeSpeed_bonus Let_def
      drawn_speed_def split: if_splits prod.splits)

lemma damage_init_key:
  "damage_init cl rn t (c, d) = Some (ok, c', d') \<Longrightarrow> key c' = key c"
proof -
  have fold: "key (fst (fold (\<lambda>v (c, d). snd (addDamage t 1 (da_tickInterval d) (- word_of_int v) (c, d))) vs (c, d))) = key c"
    for vs c d
    by (induction vs arbitrary: c d)
      (simp_all add: addDamage_def push_damage_def Let_def key_def split: prod.splits)
  assume "damage_init cl rn t (c, d) = Some (ok, c', d')"
  then show ?thesis
    using fold [where c = "setTicks t 0 c"]
    by (fastforce simp: damage_init_def Let_def key_def prod_eq_iff split: if_splits option.splits prod.splits)
qed

lemma doDamageD: "doDamage e c v b = (done, b') \<Longrightarrow> same_bonuses b b'"
  using doDamage_same [of b e c v] by simp

lemma damage_start_none:
  assumes "co_class c = ConditionDamage d" and "damage_startCondition e c d b = Some (ok, c', b')"
  shows "changes_bonuses c b c' b' (\<lambda>k. granted k c')"
proof -
  obtain c1 where start: "base_startCondition (en_now e) c = (True, c1)" and c1: "key c1 = key c" "co_class c1 = co_class c"
    using base_startCondition_result [of "en_now e" c] by (cases "base_startCondition (en_now e) c") (auto simp: key_def)
  show ?thesis
    using assms(2) c1 assms(1) unfolding damage_startCondition_def start Let_def prod.case
    by (auto intro!: changes_none dest!: damage_init_key dest: doDamageD
        simp: granted_def key_def same_class_def split: if_splits option.splits prod.splits)
qed

lemma damage_merge_none:
  assumes "co_class c = ConditionDamage d" and "damage_addCondition e new d' c d b = Some (c', b')"
  shows "changes_bonuses c b c' b' (\<lambda>k. granted k c' - granted k c)"
  using assms
  by (auto intro!: changes_none dest!: damage_init_key
      simp: damage_addCondition_def Let_def granted_def key_def same_class_def doDamage_same
      split: if_splits option.splits prod.splits)

lemma light_start_none:
  "co_class c = ConditionLight l \<Longrightarrow> light_startCondition e c l b = Some (ok, c', b') \<Longrightarrow>
   changes_bonuses c b c' b' (\<lambda>k. granted k c')"
  using base_startCondition_result [of "en_now e" c]
  by (auto intro!: changes_none simp: light_startCondition_def Let_def granted_def key_def same_class_def
      split: if_splits option.splits prod.splits)

lemma light_merge_none:
  "co_class c = ConditionLight l \<Longrightarrow> light_addCondition e new l' c l b = Some (c', b') \<Longrightarrow>
   changes_bonuses c b c' b' (\<lambda>k. granted k c' - granted k c)"
  by (auto intro!: changes_none simp: light_addCondition_def Let_def granted_def key_def same_class_def
      split: if_splits option.splits)

lemma speed_start_adds:
  assumes "co_class c = ConditionSpeed s" and "speed_startCondition e c s b = (ok, c', b')"
  shows "ok \<and> changes_bonuses c b c' b' (\<lambda>k. granted k c')"
  using assms base_startCondition_result [of "en_now e" c]
  by (auto simp: speed_startCondition_def changes_bonuses_def granted_def key_def same_class_def changeSpeed_bonus Let_def
      split: prod.splits)

lemma start_adds:
  assumes "startCondition e c b = Some (ok, c', b')" and "be_player b \<noteq> None"
  shows "changes_bonuses c b c' b' (\<lambda>k. granted k c') \<and> (ok \<or> (\<forall>k. granted k c' = 0))"
proof (cases "co_class c")
  case (ConditionAttributes a)
  then show ?thesis
    using assms attributes_start_adds [OF ConditionAttributes assms(2), of e ok c' b'] by (simp add: startCondition_def)
next
  case (ConditionSpeed s)
  then show ?thesis using assms speed_start_adds [OF ConditionSpeed, of e b ok c' b'] by (simp add: startCondition_def)
next
  case (ConditionDamage d)
  then have adds: "changes_bonuses c b c' b' (\<lambda>k. granted k c')"
    using assms damage_start_none by (simp add: startCondition_def)
  then have "same_class (ConditionDamage d) (co_class c')" by (simp add: changes_bonuses_def ConditionDamage)
  then show ?thesis using adds by (auto simp: granted_def same_class_def split: condition_class.splits)
next
  case (ConditionLight l)
  then have adds: "changes_bonuses c b c' b' (\<lambda>k. granted k c')"
    using assms light_start_none by (simp add: startCondition_def)
  then have "same_class (ConditionLight l) (co_class c')" by (simp add: changes_bonuses_def ConditionLight)
  then show ?thesis using adds by (auto simp: granted_def same_class_def split: condition_class.splits)
qed (use assms base_startCondition_result [of "en_now e" c] in
    \<open>auto intro!: changes_none simp: startCondition_def granted_def key_def internalCreatureChangeOutfit_same
      split: prod.splits if_splits\<close>)

lemma end_removes:
  assumes "be_player b \<noteq> None"
  shows "be_conditions (endCondition e c b) = be_conditions b \<and> be_player (endCondition e c b) \<noteq> None \<and>
    (\<forall>k. bonus_ok k \<longrightarrow> bonus_value k (endCondition e c b) = bonus_value k b - granted k c)"
proof (cases "co_class c")
  case (ConditionAttributes a)
  then show ?thesis using attributes_end_removes [OF assms, of a] by (simp add: endCondition_def granted_def)
next
  case (ConditionSpeed s)
  then show ?thesis using assms by (simp add: endCondition_def granted_def changeSpeed_bonus)
next
  case (ConditionOutfit f)
  then show ?thesis
    using assms same_bonusesD [OF internalCreatureChangeOutfit_same [of b e "be_defaultOutfit b"]]
    by (simp add: endCondition_def granted_def)
next
  case ConditionInvisible
  then show ?thesis
    using assms same_bonusesD [of b "log_event (ChangeVisible True) b"] by (simp add: endCondition_def granted_def)
next
  case (ConditionLight l)
  then show ?thesis
    using assms same_bonusesD [of b "log_event ChangeLight (b\<lparr>be_internalLight := be_normalLight b\<rparr>)"]
    by (simp add: endCondition_def granted_def)
next
  case (ConditionDrunk d)
  then show ?thesis
    using assms same_bonusesD [of b "b\<lparr>be_drunkenness := 0\<rparr>"] by (simp add: endCondition_def granted_def)
qed (use assms in \<open>simp_all add: endCondition_def granted_def\<close>)

lemma merge_swaps:
  assumes "merge_condition e new c b = Some (c', b')" and "be_player b \<noteq> None"
  shows "changes_bonuses c b c' b' (\<lambda>k. granted k c' - granted k c)"
proof -
  have unchanged: "changes_bonuses c b c b (\<lambda>k. granted k c - granted k c)" by (rule changes_none) simp_all
  show ?thesis
  proof (cases "co_type new \<noteq> co_type c \<and> (case co_class c of ConditionDrunk _ \<Rightarrow> False | _ \<Rightarrow> True)")
    case True
    then show ?thesis using assms(1) unchanged by (simp add: merge_condition_def)
  next
    case False
    note merged = assms(1) [unfolded merge_condition_def if_not_P [OF False]]
    show ?thesis
    proof (cases "co_class c")
      case (ConditionAttributes a)
      then show ?thesis
        using merged attributes_merge_swaps [OF ConditionAttributes assms(2)]
        by (auto split: condition_class.splits)
    next
      case (ConditionSpeed s)
      then show ?thesis
        using merged speed_merge_swaps [OF ConditionSpeed] by (auto split: condition_class.splits)
    next
      case (ConditionDamage d)
      then show ?thesis
        using merged damage_merge_none [OF ConditionDamage] by (auto split: condition_class.splits)
    next
      case (ConditionLight l)
      then show ?thesis
        using merged light_merge_none [OF ConditionLight] by (auto split: condition_class.splits)
    qed (use merged in \<open>auto intro!: changes_none simp: regeneration_addCondition_def soul_addCondition_def
          granted_def key_def same_class_def internalCreatureChangeOutfit_same split: condition_class.splits if_splits\<close>)
  qed
qed

lemma base_executeCondition_sel:
  "base_executeCondition t i c = (ok, c') \<Longrightarrow> co_class c' = co_class c \<and> key c' = key c"
  by (auto simp: base_executeCondition_def key_def split: if_splits)

lemma same_bonuses_if: "same_bonuses b b1 \<Longrightarrow> same_bonuses b (if P then b1 else b)"
  by simp

lemma on_player_same:
  assumes "\<And>p. pl_varStats (f p) = pl_varStats p"
  shows "same_bonuses b (on_player f b)"
  by (rule same_bonusesI) (simp_all add: map_varStats_on_player assms)

lemma log_event_if_same: "same_bonuses b b' \<Longrightarrow> same_bonuses b (if P then log_event x b' else b')"
  using same_bonuses_trans [of b b' "log_event x b'"] by simp

lemma regenerate_health_same: "same_bonuses b (regenerate_health e f r b)"
  unfolding regenerate_health_def Let_def by (rule log_event_if_same [OF bearer_changeHealth_same])

lemma regenerate_mana_same: "same_bonuses b (regenerate_mana e f r b)"
proof (cases "be_player b")
  case (Some p)
  have "same_bonuses b (on_player (\<lambda>_. changeMana m p) b)" for m
    by (rule same_bonusesI) (simp_all add: Some)
  then show ?thesis
    unfolding regenerate_mana_def Some option.case Let_def by (rule log_event_if_same)
qed (simp add: regenerate_mana_def)

lemma regeneration_executed:
  assumes "regeneration_executeCondition e i c r b = (ok, c', b')"
  shows "\<exists>c1 r'. base_executeCondition (en_now e) i c = (ok, c1) \<and> c' = c1\<lparr>co_class := ConditionRegeneration r'\<rparr> \<and>
    same_bonuses b b'"
proof -
  have both: "same_bonuses b (regenerate_mana e f r' (regenerate_health e f' r'' b))" for f f' r' r''
    by (rule same_bonuses_trans [OF regenerate_health_same regenerate_mana_same])
  obtain ok1 c1 where base: "base_executeCondition (en_now e) i c = (ok1, c1)" by fastforce
  show ?thesis
    using assms base by (auto simp: regeneration_executeCondition_def Let_def both regenerate_mana_same regenerate_health_same)
qed

lemma soul_executed:
  assumes "soul_executeCondition e i c s b = (ok, c', b')"
  shows "\<exists>c1 s'. base_executeCondition (en_now e) i c = (ok, c1) \<and> c' = c1\<lparr>co_class := ConditionSoul s'\<rparr> \<and>
    same_bonuses b b'"
proof -
  have soul: "same_bonuses b (on_player (changeSoul v x) b)" for v x
    by (rule on_player_same) simp
  obtain ok1 c1 where base: "base_executeCondition (en_now e) i c = (ok1, c1)" by fastforce
  show ?thesis
    using assms base soul by (auto simp: soul_executeCondition_def Let_def)
qed

lemma damage_executed:
  assumes "damage_executeCondition e i c d b = (ok, c', b')"
  shows "\<exists>d'. key c' = key c \<and> co_class c' = ConditionDamage d' \<and> same_bonuses b b'"
proof -
  have key: "key (c\<lparr>co_endTime := x\<rparr>) = key c" "key (c\<lparr>co_class := y\<rparr>) = key c" for c :: condition and x y
    by (simp_all add: key_def)
  show ?thesis
    using assms
    by (cases "da_damageList d")
      (auto simp: damage_executeCondition_def Let_def key doDamage_same split: prod.splits if_splits
        dest!: base_executeCondition_sel)
qed

lemma light_executed:
  assumes "light_executeCondition e i c l b = (ok, c', b')"
  shows "\<exists>c1 l'. base_executeCondition (en_now e) i c = (ok, c1) \<and> c' = c1\<lparr>co_class := ConditionLight l'\<rparr> \<and>
    same_bonuses b b'"
proof -
  obtain ok1 c1 where base: "base_executeCondition (en_now e) i c = (ok1, c1)" by fastforce
  show ?thesis
    using assms base by (auto simp: light_executeCondition_def Let_def)
qed

lemma key_class [simp]: "key (c\<lparr>co_class := k\<rparr>) = key c"
  by (simp add: key_def)

lemma execute_keeps:
  assumes "executeCondition e interval c b = (ok, c', b')"
  shows "changes_bonuses c b c' b' (\<lambda>_. 0) \<and> (\<forall>k. granted k c' = granted k c)"
proof (cases "co_class c")
  case (ConditionRegeneration r)
  then show ?thesis
    using assms regeneration_executed [of e interval c r b ok c' b']
    by (auto simp: executeCondition_def granted_def same_class_def dest!: base_executeCondition_sel intro!: changes_none)
next
  case (ConditionSoul s)
  then show ?thesis
    using assms soul_executed [of e interval c s b ok c' b']
    by (auto simp: executeCondition_def granted_def same_class_def dest!: base_executeCondition_sel intro!: changes_none)
next
  case (ConditionDamage d)
  then show ?thesis
    using assms damage_executed [of e interval c d b ok c' b']
    by (auto simp: executeCondition_def granted_def same_class_def intro!: changes_none)
next
  case (ConditionLight l)
  then show ?thesis
    using assms light_executed [of e interval c l b ok c' b']
    by (auto simp: executeCondition_def granted_def same_class_def dest!: base_executeCondition_sel intro!: changes_none)
qed (use assms in \<open>auto simp: executeCondition_def granted_def dest!: base_executeCondition_sel
      split: prod.splits intro!: changes_none\<close>)

subsection \<open>The list of conditions\<close>

definition granted_total :: "bonus \<Rightarrow> (nat \<times> condition) list \<Rightarrow> i32" where
  "granted_total k cs = sum_list (map (\<lambda>(_, c). granted k c) cs)"

text \<open>What a creature has of a bonus apart from its conditions.\<close>

definition own :: "bonus \<Rightarrow> bearer \<Rightarrow> i32" where
  "own k b = bonus_value k b - granted_total k (be_conditions b)"

definition conditions_ok :: "(nat \<times> condition) list \<Rightarrow> bool" where
  "conditions_ok cs \<longleftrightarrow>
     distinct (map fst cs) \<and> distinct (map (key \<circ> snd) cs) \<and> (\<forall>(_, c) \<in> set cs. well_typed c)"

definition bearer_ok :: "bearer \<Rightarrow> bool" where
  "bearer_ok b \<longleftrightarrow> be_player b \<noteq> None \<and> conditions_ok (be_conditions b)"

text \<open>The step keeps the list in order and every bonus that does not come from it.\<close>

definition keeps_own :: "bearer \<Rightarrow> bearer \<Rightarrow> bool" where
  "keeps_own b b' \<longleftrightarrow> bearer_ok b' \<and> (\<forall>k. bonus_ok k \<longrightarrow> own k b' = own k b)"

lemma keeps_own_refl: "bearer_ok b \<Longrightarrow> keeps_own b b"
  by (simp add: keeps_own_def)

lemma keeps_own_trans: "keeps_own a b \<Longrightarrow> (bearer_ok b \<Longrightarrow> keeps_own b c) \<Longrightarrow> keeps_own a c"
  by (simp add: keeps_own_def)

lemma same_keeps_own: "bearer_ok b \<Longrightarrow> same_bonuses b b' \<Longrightarrow> keeps_own b b'"
  by (auto simp: keeps_own_def bearer_ok_def own_def same_bonuses_def)

lemma same_class_trans: "same_class x y \<Longrightarrow> same_class y z \<Longrightarrow> same_class x z"
  by (cases x; cases y; cases z) (simp_all add: same_class_def)

lemma well_typed_class:
  assumes "well_typed c" and "co_type c' = co_type c" and "same_class (co_class c) (co_class c')"
  shows "well_typed c'"
  using assms by (auto simp: well_typed_def intro: same_class_trans split: option.splits)

lemma same_class_sym: "same_class x y \<Longrightarrow> same_class y x"
  by (cases x; cases y) (simp_all add: same_class_def)

lemma well_typed_same:
  "well_typed c \<Longrightarrow> well_typed c' \<Longrightarrow> co_type c' = co_type c \<Longrightarrow> same_class (co_class c) (co_class c')"
  by (auto simp: well_typed_def intro: same_class_trans same_class_sym split: option.splits)

abbreviation replace_condition :: "nat \<Rightarrow> condition \<Rightarrow> (nat \<times> condition) list \<Rightarrow> (nat \<times> condition) list" where
  "replace_condition r c \<equiv> map (\<lambda>(r', c'). if r' = r then (r, c) else (r', c'))"

abbreviation without :: "nat \<Rightarrow> (nat \<times> condition) list \<Rightarrow> (nat \<times> condition) list" where
  "without r \<equiv> filter (\<lambda>(r', _). r' \<noteq> r)"

lemma replace_absent: "r \<notin> fst ` set cs \<Longrightarrow> replace_condition r c cs = cs"
  by (induction cs) auto

lemma granted_total_replace:
  assumes "distinct (map fst cs)" and "map_of cs r = Some c0"
  shows "granted_total k (replace_condition r c cs) = granted_total k cs + granted k c - granted k c0"
  using assms
proof (induction cs)
  case (Cons x cs)
  show ?case
  proof (cases "fst x = r")
    case True
    then have "replace_condition r c (x # cs) = (r, c) # cs"
      using Cons.prems(1) replace_absent [of r cs c] by (cases x) simp
    then show ?thesis using True Cons.prems by (cases x) (simp add: granted_total_def)
  next
    case False
    then have "replace_condition r c (x # cs) = x # replace_condition r c cs" by (cases x) simp
    moreover have "granted_total k (replace_condition r c cs) = granted_total k cs + granted k c - granted k c0"
      using Cons False by (cases x) auto
    ultimately show ?thesis by (cases x) (simp add: granted_total_def algebra_simps)
  qed
qed simp

lemma without_absent: "r \<notin> fst ` set cs \<Longrightarrow> without r cs = cs"
  by (induction cs) auto

lemma granted_total_without:
  assumes "distinct (map fst cs)" and "map_of cs r = Some c0"
  shows "granted_total k (without r cs) = granted_total k cs - granted k c0"
  using assms by (induction cs) (auto simp: granted_total_def without_absent algebra_simps)

lemma map_fst_replace [simp]: "map fst (replace_condition r c cs) = map fst cs"
  by (induction cs) auto

lemma map_key_replace:
  "(\<And>c0. map_of cs r = Some c0 \<Longrightarrow> key c0 = key c) \<Longrightarrow> distinct (map fst cs) \<Longrightarrow>
   map (key \<circ> snd) (replace_condition r c cs) = map (key \<circ> snd) cs"
proof (induction cs)
  case (Cons x cs)
  show ?case
  proof (cases "fst x = r")
    case True
    then have "replace_condition r c (x # cs) = (r, c) # cs"
      using Cons.prems(2) replace_absent [of r cs c] by (cases x) simp
    then show ?thesis using True Cons.prems(1) [of "snd x"] by (cases x) simp
  next
    case False
    then have "replace_condition r c (x # cs) = x # replace_condition r c cs" by (cases x) simp
    moreover have "map (key \<circ> snd) (replace_condition r c cs) = map (key \<circ> snd) cs"
      using Cons.prems False by (intro Cons.IH) (cases x; auto)+
    ultimately show ?thesis by simp
  qed
qed simp

lemma conditions_ok_replace:
  assumes "conditions_ok cs" and "map_of cs r = Some c0" and "key c = key c0"
    and "same_class (co_class c0) (co_class c)"
  shows "conditions_ok (replace_condition r c cs)"
proof -
  have typed: "\<forall>(_, c) \<in> set cs. well_typed c" using assms(1) by (simp add: conditions_ok_def)
  have typed0: "well_typed c0" using bspec [OF typed map_of_SomeD [OF assms(2)]] by simp
  have "well_typed c" using assms(3) by (intro well_typed_class [OF typed0 _ assms(4)]) (simp add: key_def)
  then have "\<forall>(_, c) \<in> set (replace_condition r c cs). well_typed c"
    using typed by (auto simp: case_prod_beta)
  moreover have "map (key \<circ> snd) (replace_condition r c cs) = map (key \<circ> snd) cs"
    using assms(1-3) by (intro map_key_replace) (auto simp: conditions_ok_def)
  ultimately show ?thesis using assms(1) by (simp only: conditions_ok_def map_fst_replace)
qed

lemma conditions_ok_without: "conditions_ok cs \<Longrightarrow> conditions_ok (without r cs)"
  by (auto simp: conditions_ok_def intro: distinct_map_filter)

lemma onEndCondition_same: "same_bonuses b (onEndCondition type b)"
  by (rule same_bonusesI) (auto simp: onEndCondition_def setSkull_def Let_def)

lemma drop_keeps_own:
  assumes "bearer_ok b" and "map_of (be_conditions b) r = Some c"
  shows "keeps_own b (drop_condition e r c b)"
proof -
  let ?b = "b\<lparr>be_conditions := without r (be_conditions b)\<rparr>"
  have val_eq: "bonus_value k ?b = bonus_value k b" for k by (cases k) simp_all
  have removed: "be_conditions (endCondition e c ?b) = without r (be_conditions b)"
    "be_player (endCondition e c ?b) \<noteq> None"
    "bonus_ok k \<Longrightarrow> bonus_value k (endCondition e c ?b) = bonus_value k b - granted k c" for k
    using end_removes [of ?b e c] assms(1) val_eq by (simp_all add: bearer_ok_def)
  note same = onEndCondition_same [of "endCondition e c ?b" "co_type c"]
  have "own k (drop_condition e r c b) = own k b" if "bonus_ok k" for k
    using that assms granted_total_without [of "be_conditions b" r c k] same_bonusesD(1) [OF same, of k]
      same_bonusesD(2) [OF same]
    by (simp add: own_def drop_condition_def removed bearer_ok_def conditions_ok_def)
  moreover have "bearer_ok (drop_condition e r c b)"
    using assms(1) same_bonusesD(2,3) [OF same] removed(1,2)
    by (simp add: bearer_ok_def drop_condition_def conditions_ok_without)
  ultimately show ?thesis by (simp add: keeps_own_def)
qed

lemma drop_conditions: 
  assumes "be_player b \<noteq> None"
  shows "be_conditions (drop_condition e r c b) = without r (be_conditions b)"
proof -
  let ?b = "b\<lparr>be_conditions := without r (be_conditions b)\<rparr>"
  show ?thesis
    using end_removes [of ?b e c] assms same_bonusesD(2) [OF onEndCondition_same [of "endCondition e c ?b" "co_type c"]]
    by (simp add: drop_condition_def)
qed

lemma set_keeps_own:
  assumes "bearer_ok b" and "map_of (be_conditions b) r = Some c"
    and "changes_bonuses c b c' b' (\<lambda>k. granted k c' - granted k c)"
  shows "keeps_own b (set_condition r c' b')"
proof -
  have val_eq: "bonus_value k (b'\<lparr>be_conditions := cs\<rparr>) = bonus_value k b'" for k cs by (cases k) simp_all
  have list: "be_conditions b' = be_conditions b" using assms(3) by (simp add: changes_bonuses_def)
  have "own k (set_condition r c' b') = own k b" if "bonus_ok k" for k
    using that assms granted_total_replace [of "be_conditions b" r c k c'] val_eq
    by (simp add: own_def set_condition_def list bearer_ok_def conditions_ok_def changes_bonuses_def)
  moreover have "bearer_ok (set_condition r c' b')"
    using assms conditions_ok_replace [of "be_conditions b" r c c']
    by (simp add: bearer_ok_def set_condition_def list changes_bonuses_def)
  ultimately show ?thesis by (simp add: keeps_own_def)
qed

subsection \<open>The operations\<close>

lemma remove_each_keeps_own:
  assumes "bearer_ok b" and "distinct (map fst cs)" and "set cs \<subseteq> set (be_conditions b)"
  shows "keeps_own b (remove_each e type force cs b)"
  using assms
proof (induction e type force cs b rule: remove_each.induct)
  case (2 e type force r c rest b)
  show ?case
  proof (cases "\<not> force \<and> type = CONDITION_PARALYZE \<and> 0 <s en_walkDelay e")
    case True
    then show ?thesis using 2(2) by (simp add: same_keeps_own)
  next
    case False
    have "map_of (be_conditions b) r = Some c"
      using 2(2,4) by (intro map_of_is_SomeI) (auto simp: bearer_ok_def conditions_ok_def)
    note drop = drop_keeps_own [OF 2(2) this, of e]
    have "fst x \<noteq> r \<and> x \<in> set (be_conditions b)" if "x \<in> set rest" for x
      using that 2(3,4) by (auto dest: imageI [of x "set rest" fst])
    then have "set rest \<subseteq> set (without r (be_conditions b))" by fastforce
    then have "set rest \<subseteq> set (be_conditions (drop_condition e r c b))"
      using 2(2) by (simp add: drop_conditions bearer_ok_def)
    moreover have "bearer_ok (drop_condition e r c b)" using drop by (simp add: keeps_own_def)
    ultimately have "keeps_own (drop_condition e r c b) (remove_each e type force rest (drop_condition e r c b))"
      using 2(1) [OF False] 2(3) by simp
    then show ?thesis using False keeps_own_trans [OF drop] by (simp only: remove_each.simps if_False)
  qed
qed (simp add: keeps_own_refl)

lemma distinct_fst_filter: "distinct (map fst cs) \<Longrightarrow> distinct (map fst (filter P cs))"
  by (simp add: distinct_map_filter)

lemma removeCondition_type_keeps_own: "bearer_ok b \<Longrightarrow> keeps_own b (removeCondition_type e type force b)"
  unfolding removeCondition_type_def
  by (rule remove_each_keeps_own) (auto simp: bearer_ok_def conditions_ok_def intro: distinct_fst_filter)

lemma removeCondition_id_keeps_own: "bearer_ok b \<Longrightarrow> keeps_own b (removeCondition_id e type i force b)"
  unfolding removeCondition_id_def
  by (rule remove_each_keeps_own) (auto simp: bearer_ok_def conditions_ok_def intro: distinct_fst_filter)

lemma removeCondition_keeps_own: "bearer_ok b \<Longrightarrow> keeps_own b (removeCondition e r force b)"
  by (auto simp: removeCondition_def same_keeps_own keeps_own_refl intro: drop_keeps_own split: option.splits)

lemma fold_keeps_own:
  assumes "bearer_ok b" and "\<And>x b. bearer_ok b \<Longrightarrow> keeps_own b (f x b)"
  shows "keeps_own b (fold f xs b)"
  using assms(1)
proof (induction xs arbitrary: b)
  case (Cons x xs)
  have "keeps_own b (f x b)" by (rule assms(2) [OF Cons.prems])
  then show ?case using keeps_own_trans Cons.IH by simp
qed (simp add: keeps_own_refl)

lemma onCombatRemoveCondition_keeps_own:
  assumes "bearer_ok b" and "map_of (be_conditions b) r = Some c"
  shows "keeps_own b (onCombatRemoveCondition e r c b)"
proof -
  have "changes_bonuses c b (setTicks t n c) b (\<lambda>k. granted k (setTicks t n c) - granted k c)" for t n
    by (rule changes_none) (simp_all add: key_def granted_def)
  then have "keeps_own b (set_condition r (setTicks t n c) b)" for t n
    by (rule set_keeps_own [OF assms])
  then show ?thesis
    using assms by (auto simp: onCombatRemoveCondition_def Let_def removeCondition_keeps_own same_keeps_own keeps_own_refl)
qed

lemma removeCombatCondition_keeps_own: "bearer_ok b \<Longrightarrow> keeps_own b (removeCombatCondition e type b)"
  unfolding removeCombatCondition_def
  by (rule fold_keeps_own)
    (auto intro: onCombatRemoveCondition_keeps_own keeps_own_refl split: option.splits)

lemma onAddCondition_keeps_own:
  assumes "bearer_ok b"
  shows "keeps_own b (onAddCondition e type b)"
proof -
  define b1 where "b1 = (if type = CONDITION_PARALYZE \<and> hasCondition e CONDITION_HASTE 0 b
               then removeCondition_type e CONDITION_HASTE False b
               else if type = CONDITION_HASTE \<and> hasCondition e CONDITION_PARALYZE 0 b
               then removeCondition_type e CONDITION_PARALYZE False b
               else b)"
  have "keeps_own b b1" using assms by (simp add: b1_def removeCondition_type_keeps_own keeps_own_refl)
  moreover have "keeps_own b1 (if be_player b1 = None then b1 else log_event SendIcons b1)" if "bearer_ok b1"
    using that by (simp add: same_keeps_own)
  ultimately show ?thesis
    unfolding onAddCondition_def Let_def b1_def [symmetric] by (rule keeps_own_trans)
qed

lemma execute_one_keeps_own:
  assumes "bearer_ok b"
  shows "keeps_own b (execute_one e interval r b)"
proof (cases "map_of (be_conditions b) r")
  case (Some c)
  obtain alive c' b' where run: "executeCondition e interval c b = (alive, c', b')"
    by (cases "executeCondition e interval c b") auto
  have "changes_bonuses c b c' b' (\<lambda>k. granted k c' - granted k c)"
    using execute_keeps [OF run] by (simp add: changes_bonuses_def)
  note set = set_keeps_own [OF assms Some this]
  have ok: "bearer_ok (set_condition r c' b')" using set by (simp add: keeps_own_def)
  have list: "be_conditions b' = be_conditions b" using execute_keeps [OF run] by (simp add: changes_bonuses_def)
  have "map_of (replace_condition r c' cs) r = Some c'" if "map_of cs r = Some c" for cs
    using that by (induction cs) (auto split: if_splits)
  then have "map_of (be_conditions (set_condition r c' b')) r = Some c'"
    using Some by (simp add: set_condition_def list)
  then have "keeps_own b (drop_condition e r c' (set_condition r c' b'))"
    using keeps_own_trans [OF set drop_keeps_own [OF ok]] by blast
  then show ?thesis using set by (simp add: execute_one_def Some run Let_def)
qed (simp add: execute_one_def keeps_own_refl assms)

lemma executeConditions_keeps_own: "bearer_ok b \<Longrightarrow> keeps_own b (executeConditions e interval b)"
  unfolding executeConditions_def by (rule fold_keeps_own) (auto intro: execute_one_keeps_own)

lemma append_keeps_own:
  assumes "bearer_ok b" and "changes_bonuses c b c' b' (\<lambda>k. granted k c')" and "well_typed c"
    and "r \<notin> fst ` set (be_conditions b)" and "key c \<notin> (key \<circ> snd) ` set (be_conditions b)"
  shows "keeps_own b (b'\<lparr>be_conditions := be_conditions b' @ [(r, c')]\<rparr>)"
proof -
  have val_eq: "bonus_value k (b'\<lparr>be_conditions := cs\<rparr>) = bonus_value k b'" for k cs by (cases k) simp_all
  have typed: "well_typed c'"
    using assms(2,3) by (intro well_typed_class [of c c']) (simp_all add: changes_bonuses_def key_def)
  have list: "be_conditions b' = be_conditions b" and k: "key c' = key c"
    using assms(2) by (simp_all add: changes_bonuses_def)
  have "conditions_ok (be_conditions b @ [(r, c')])"
    using assms(1,4,5) typed k by (auto simp: bearer_ok_def conditions_ok_def)
  moreover have "be_player b' \<noteq> None" using assms(1,2) by (simp add: bearer_ok_def changes_bonuses_def)
  ultimately show ?thesis
    using assms(2) by (simp del: not_None_eq add: keeps_own_def bearer_ok_def list own_def val_eq granted_total_def changes_bonuses_def)
qed

lemma addCondition_keeps_own:
  assumes "addCondition e r c force b = Some (ok, b')" and "bearer_ok b" and "well_typed c"
    and "r \<notin> fst ` set (be_conditions b)"
  shows "keeps_own b b'"
proof (cases "\<not> force \<and> co_type c = CONDITION_HASTE \<and> hasCondition e CONDITION_PARALYZE 0 b \<and> 0 <s en_walkDelay e")
  case True
  then show ?thesis using assms(1,2) by (auto simp: addCondition_def same_keeps_own)
next
  case False
  note added = assms(1) [unfolded addCondition_def if_not_P [OF False]]
  have player: "be_player b \<noteq> None" using assms(2) by (simp add: bearer_ok_def)
  show ?thesis
  proof (cases "getCondition (co_type c) (co_id c) (co_subId c) b")
    case None
    have absent: "key c \<notin> (key \<circ> snd) ` set (be_conditions b)"
      using None by (fastforce simp: getCondition_def find_None_iff key_def)
    obtain ok1 c1 b1 where start: "startCondition e c b = Some (ok1, c1, b1)"
      and b': "b' = (if ok1 then onAddCondition e (co_type c1) (b1\<lparr>be_conditions := be_conditions b1 @ [(r, c1)]\<rparr>) else b1)"
      using added None by (auto split: bind_splits if_splits)
    note starts = start_adds [OF start player]
    show ?thesis
    proof (cases ok1)
      case True
      have "keeps_own b (b1\<lparr>be_conditions := be_conditions b1 @ [(r, c1)]\<rparr>)"
        using append_keeps_own [OF assms(2) _ assms(3,4) absent] starts by blast
      then show ?thesis using keeps_own_trans onAddCondition_keeps_own True b' by simp
    next
      case False
      then have "\<forall>k. bonus_ok k \<longrightarrow> bonus_value k b1 = bonus_value k b" and "be_conditions b1 = be_conditions b"
        and "be_player b1 \<noteq> None"
        using starts player by (auto simp: changes_bonuses_def)
      then show ?thesis using assms(2) False b' by (simp add: keeps_own_def own_def bearer_ok_def)
    qed
  next
    case (Some rc)
    obtain r' prev where rc: "rc = (r', prev)" by fastforce
    obtain c1 b1 where merge: "merge_condition e c prev b = Some (c1, b1)" and b': "b' = set_condition r' c1 b1"
      using added Some rc by (auto split: bind_splits)
    have "(r', prev) \<in> set (be_conditions b)"
      using Some rc by (auto simp: getCondition_def find_Some_iff in_set_conv_nth)
    then have "map_of (be_conditions b) r' = Some prev"
      using assms(2) by (intro map_of_is_SomeI) (simp_all add: bearer_ok_def conditions_ok_def)
    then show ?thesis using set_keeps_own [OF assms(2) _ merge_swaps [OF merge player]] b' by simp
  qed
qed

lemma onAddCombatCondition_same: "same_bonuses b (onAddCombatCondition type b)"
  by (simp add: onAddCombatCondition_def)

lemma addCombatCondition_keeps_own:
  assumes "addCombatCondition e r c b = Some (ok, b')" and "bearer_ok b" and "well_typed c"
    and "r \<notin> fst ` set (be_conditions b)"
  shows "keeps_own b b'"
proof -
  obtain ok1 b1 where add: "addCondition e r c False b = Some (ok1, b1)"
    and b': "b' = (if \<not> ok1 then b1 else onAddCombatCondition (co_type c) b1)"
    using assms(1) by (auto simp: addCombatCondition_def split: bind_splits if_splits)
  have "keeps_own b1 b'" if "bearer_ok b1"
    using that b' onAddCombatCondition_same [of b1 "co_type c"] by (simp add: same_keeps_own keeps_own_refl)
  then show ?thesis using keeps_own_trans [OF addCondition_keeps_own [OF add assms(2-4)]] by blast
qed

subsection \<open>Reachable creatures\<close>

text \<open>
  One call on the conditions of a creature, in any surroundings.  The scripts and the combat code hand over
  conditions that \<open>createCondition\<close> made, freshly allocated.
\<close>

inductive condition_step :: "bearer \<Rightarrow> bearer \<Rightarrow> bool" where
  add: "well_typed c \<Longrightarrow> r \<notin> fst ` set (be_conditions b) \<Longrightarrow> addCondition e r c force b = Some (ok, b') \<Longrightarrow>
        condition_step b b'"
| add_combat: "well_typed c \<Longrightarrow> r \<notin> fst ` set (be_conditions b) \<Longrightarrow>
        addCombatCondition e r c b = Some (ok, b') \<Longrightarrow> condition_step b b'"
| remove_type: "condition_step b (removeCondition_type e t force b)"
| remove_id: "condition_step b (removeCondition_id e t i force b)"
| remove_one: "condition_step b (removeCondition e r force b)"
| remove_combat: "condition_step b (removeCombatCondition e t b)"
| execute: "condition_step b (executeConditions e interval b)"

definition bare :: "bearer \<Rightarrow> bool" where
  "bare b \<longleftrightarrow> be_player b \<noteq> None \<and> be_conditions b = []"

lemma bare_ok: "bare b \<Longrightarrow> bearer_ok b"
  by (simp add: bare_def bearer_ok_def conditions_ok_def)

lemma step_keeps_own: "condition_step b b' \<Longrightarrow> bearer_ok b \<Longrightarrow> keeps_own b b'"
  by (induction rule: condition_step.induct)
    (blast intro: addCondition_keeps_own addCombatCondition_keeps_own removeCondition_type_keeps_own removeCondition_id_keeps_own
      removeCondition_keeps_own removeCombatCondition_keeps_own executeConditions_keeps_own)+

lemma steps_keep_own:
  assumes "condition_step\<^sup>*\<^sup>* b b'" and "bearer_ok b"
  shows "keeps_own b b'"
  using assms
proof (induction rule: rtranclp_induct)
  case (step y z)
  then show ?case using keeps_own_trans [of b y z] step_keeps_own by blast
qed (rule keeps_own_refl)

definition sample_surroundings :: condition_env where
  "sample_surroundings = \<lparr>en_now = 1000, en_protection = False, en_field = None, en_suppressions = 0,
     en_immunities = 0, en_walkDelay = 0, en_pvpEnforced = False,
     en_inventoryItem = (\<lambda>_. False), en_portion = (\<lambda>_ _. 0), en_gainPortion = (\<lambda>_ _. 0),
     en_random = (\<lambda>lo _. lo), en_closer = (\<lambda>_ _ _. False), en_formula = (\<lambda>_ _ _ _ _. (0, 0)),
     en_harm = (\<lambda>_ _ _. (True, 0, 0)), en_outfitAllowed = (\<lambda>_. True)\<rparr>"

definition sample_bearer :: bearer where
  "sample_bearer = \<lparr>be_player = Some sample_player, be_vocation = sample_vocation, be_health = 0, be_healthMax = 0,
     be_varSkills = (\<lambda>_. 0), be_varSpecialSkills = (\<lambda>_. 0), be_experienceRate = (\<lambda>_. 100), be_baseSpeed = 234,
     be_varSpeed = 0, be_walkPending = False, be_canUseDefense = True, be_drunkenness = 0, be_nextAction = 0, be_pzLocked = False, be_attackedSet = {}, be_skull = 0,
     be_notGainInFight = False, be_cannotBeAttacked = False, be_currentOutfit = new_outfit,
     be_defaultOutfit = new_outfit, be_internalLight = \<lparr>li_level = 0, li_color = 0\<rparr>,
     be_itemsLight = \<lparr>li_level = 0, li_color = 0\<rparr>, be_normalLight = \<lparr>li_level = 0, li_color = 0\<rparr>,
     be_conditions = [], be_events = []\<rparr>"

lemma sample_bearer_sel [simp]:
  "be_player sample_bearer = Some sample_player" "be_conditions sample_bearer = []" "be_events sample_bearer = []"
  "be_baseSpeed sample_bearer = 234" "be_varSpeed sample_bearer = 0" "be_walkPending sample_bearer = False"
  by (simp_all add: sample_bearer_def)

lemma sample_haste_sel [simp]:
  "co_type sample_haste = CONDITION_HASTE" "co_id sample_haste = CONDITIONID_COMBAT" "co_subId sample_haste = 0"
  "co_ticks sample_haste = 30000" "co_endTime sample_haste = 0" "co_class sample_haste = ConditionSpeed (new_speed 60)"
  by (simp_all add: sample_haste_def new_condition_def)

lemma sample_haste_started:
  "startCondition sample_surroundings sample_haste sample_bearer =
     Some (True, sample_haste\<lparr>co_endTime := 31000\<rparr>,
       sample_bearer\<lparr>be_varSpeed := 60, be_events := [SendChangeSpeed]\<rparr>)"
proof -
  have "base_startCondition 1000 sample_haste = (True, sample_haste\<lparr>co_endTime := 31000\<rparr>)"
    by (simp add: base_startCondition_def setEndTime_def word_sless_alt)
  moreover have "drawn_speed sample_surroundings (new_speed 60) sample_bearer = new_speed 60"
    by (simp add: drawn_speed_def new_speed_def)
  moreover have "(sample_haste\<lparr>co_endTime := 31000\<rparr>)\<lparr>co_class := ConditionSpeed (new_speed 60)\<rparr> =
      sample_haste\<lparr>co_endTime := 31000\<rparr>"
    by (simp add: sample_haste_def new_condition_def)
  moreover have "en_now sample_surroundings = 1000" by (simp add: sample_surroundings_def)
  ultimately show ?thesis
    by (simp add: startCondition_def speed_startCondition_def changeSpeed_def setSpeed_def getSpeed_def Let_def log_event_def)
      (simp add: new_speed_def word_sless_alt)
qed

lemma sample_haste_added:
  "addCondition sample_surroundings 1 sample_haste True sample_bearer =
     Some (True, sample_bearer\<lparr>be_varSpeed := 60,
       be_conditions := [(1, sample_haste\<lparr>co_endTime := 31000\<rparr>)],
       be_events := [SendIcons, SendChangeSpeed]\<rparr>)"
  by (simp add: addCondition_def getCondition_def sample_haste_started onAddCondition_def hasCondition_def
      condition_types log_event_def)

lemma sample_haste_step:
  "condition_step sample_bearer (sample_bearer\<lparr>be_varSpeed := 60,
       be_conditions := [(1, sample_haste\<lparr>co_endTime := 31000\<rparr>)], be_events := [SendIcons, SendChangeSpeed]\<rparr>)"
  by (rule condition_step.add [OF _ _ sample_haste_added])
    (simp_all add: sample_bearer_def sample_haste_def well_typed_def createCondition_def new_condition_def
      same_class_def condition_types)

lemmas sample_haste_steps = r_into_rtranclp [of condition_step, OF sample_haste_step]

lemma sample_bearer_bare: "bare sample_bearer"
  by (simp add: bare_def sample_bearer_def)

text \<open>
  C28: whatever conditions come, are refreshed, tick, expire or are removed, in any order, the conditions of a
  player account for its bonuses: a skill, special skill, statistic or the speed is always what it was without
  conditions plus the sum of what the present conditions grant.
\<close>
theorem bonuses_accounted:
  assumes "condition_step\<^sup>*\<^sup>* b b'" and "bare b" and "bonus_ok k"
  shows "bonus_value k b' = bonus_value k b + sum_list (map (\<lambda>(_, c). granted k c) (be_conditions b'))"
proof -
  have "own k b' = own k b" using steps_keep_own [OF assms(1) bare_ok [OF assms(2)]] assms(3) by (simp add: keeps_own_def)
  then show ?thesis using assms(2) by (auto simp: own_def granted_total_def bare_def diff_eq_eq)
qed

theorem bonuses_accounted_witness:
  "bonus_value BSpeed (sample_bearer\<lparr>be_varSpeed := 60,
       be_conditions := [(1, sample_haste\<lparr>co_endTime := 31000\<rparr>)], be_events := [SendIcons, SendChangeSpeed]\<rparr>) =
   bonus_value BSpeed sample_bearer + 60"
  using bonuses_accounted [OF sample_haste_steps sample_bearer_bare, of BSpeed]
  by (simp add: granted_def sample_haste_def new_condition_def new_speed_def)

definition refreshable :: "condition \<Rightarrow> bool" where
  "refreshable c \<longleftrightarrow>
     (case co_class c of ConditionDamage _ \<Rightarrow> False | ConditionLight l \<Rightarrow> li_level (lg_lightInfo l) \<noteq> 0 | _ \<Rightarrow> True)"

lemma merge_defined:
  assumes "well_typed c" and "well_typed new" and "co_type new = co_type c" and "refreshable new"
  shows "merge_condition e new c b \<noteq> None"
proof -
  have "same_class (co_class c) (co_class new)" by (rule well_typed_same [OF assms(1-3)])
  then show ?thesis
    using assms(3,4)
    by (cases "co_class c"; cases "co_class new")
      (simp_all add: same_class_def merge_condition_def refreshable_def light_addCondition_def light_change_interval_def Let_def)
qed

text \<open>
  C29: the conditions of a player keep their types.  In every creature that the calls can reach each condition
  has the class that \<open>createCondition\<close> makes for its type, no two share type, id and sub id, and no two share
  an address; so when a further condition of that kind finds the one to refresh, the two are of one class, and
  the downcast of the refresh is to the right class.
\<close>
theorem conditions_typed:
  assumes "condition_step\<^sup>*\<^sup>* b b'" and "bare b" and "well_typed new"
    and "getCondition (co_type new) (co_id new) (co_subId new) b' = Some (r, c)"
  shows "(\<forall>(_, c) \<in> set (be_conditions b'). well_typed c) \<and>
    distinct (map fst (be_conditions b')) \<and>
    distinct (map (\<lambda>(_, c). (co_type c, co_id c, co_subId c)) (be_conditions b')) \<and>
    same_class (co_class c) (co_class new) \<and>
    (refreshable new \<longrightarrow> merge_condition e new c b' \<noteq> None)"
proof -
  have ok: "conditions_ok (be_conditions b')"
    using steps_keep_own [OF assms(1) bare_ok [OF assms(2)]] by (simp add: keeps_own_def bearer_ok_def)
  have found: "(r, c) \<in> set (be_conditions b')" "co_type new = co_type c"
    using assms(4) by (auto simp: getCondition_def find_Some_iff in_set_conv_nth)
  have c: "well_typed c" using ok found(1) by (auto simp: conditions_ok_def)
  have "key \<circ> snd = (\<lambda>(_ :: nat, c). (co_type c, co_id c, co_subId c))"
    by (auto simp: key_def)
  then have "distinct (map (\<lambda>(_, c). (co_type c, co_id c, co_subId c)) (be_conditions b'))"
    using ok by (simp only: conditions_ok_def)
  then show ?thesis
    using ok well_typed_same [OF c assms(3) found(2)] merge_defined [OF c assms(3) found(2)]
    by (auto simp: conditions_ok_def)
qed

theorem conditions_typed_witness:
  "same_class (co_class (sample_haste\<lparr>co_endTime := 31000\<rparr>)) (co_class sample_haste)"
proof -
  have "well_typed sample_haste"
    by (simp add: sample_haste_def well_typed_def createCondition_def new_condition_def same_class_def condition_types)
  moreover have "getCondition (co_type sample_haste) (co_id sample_haste) (co_subId sample_haste)
      (sample_bearer\<lparr>be_varSpeed := 60, be_conditions := [(1, sample_haste\<lparr>co_endTime := 31000\<rparr>)],
         be_events := [SendIcons, SendChangeSpeed]\<rparr>) = Some (1, sample_haste\<lparr>co_endTime := 31000\<rparr>)"
    by (simp add: getCondition_def)
  ultimately show ?thesis
    using conditions_typed [OF sample_haste_steps sample_bearer_bare] by blast
qed

subsection \<open>Experience rates and defence\<close>

lemma rates_loop_sets:
  assumes "1 \<le> i" and "i < 5"
  shows "be_experienceRate (rates_loop P v b) i = (if P i then v i else be_experienceRate b i)"
proof -
  have "i \<in> {1, 2, 3, 4}" using assms by auto
  moreover have "[1..<5] = [1, 2, 3, 4 :: nat]" by (simp add: upt_rec)
  ultimately show ?thesis by (auto simp: rates_loop_def setExperienceRate_def)
qed

lemma on_player_rates [simp]:
  "be_experienceRate (updateSkills a b) = be_experienceRate b" "be_canUseDefense (updateSkills a b) = be_canUseDefense b"
  "be_experienceRate (updateStats a b) = be_experienceRate b" "be_canUseDefense (updateStats a b) = be_canUseDefense b"
proof -
  have skills: "updateSkills a b = (if list_ex (\<lambda>i. at_skills a ! i \<noteq> 0) [0..<7] \<or>
        list_ex (\<lambda>i. at_specialSkills a ! i \<noteq> 0) [0..<6] then on_player (emit SendSkills) x else x)"
    if "x = specials_loop (\<lambda>i. at_specialSkills a ! i \<noteq> 0) (\<lambda>i. at_specialSkills a ! i)
      (skills_loop (\<lambda>i. at_skills a ! i \<noteq> 0) (\<lambda>i. at_skills a ! i) b)" for x
    unfolding that updateSkills_def specials_loop_def skills_loop_def Let_def ..
  have stats: "updateStats a b = (if list_ex (\<lambda>stat. at_stats a ! stat_index stat \<noteq> 0) stat_list
        then on_player (emit SendSkills \<circ> emit SendStats) x else x)"
    if "x = stats_loop (\<lambda>s. at_stats a ! stat_index s \<noteq> 0) (\<lambda>s. at_stats a ! stat_index s) b" for x
    unfolding that updateStats_def stats_loop_def Let_def ..
  show "be_experienceRate (updateSkills a b) = be_experienceRate b" "be_canUseDefense (updateSkills a b) = be_canUseDefense b"
    by (simp_all add: skills [OF refl] specials_loop_def skills_loop_def fold_keeps del: upt_Suc)
  show "be_experienceRate (updateStats a b) = be_experienceRate b" "be_canUseDefense (updateStats a b) = be_canUseDefense b"
    by (simp_all add: stats [OF refl] stats_loop_def fold_keeps)
qed

lemma end_rates:
  assumes "be_player b \<noteq> None" and "1 \<le> i" and "i < 5"
  shows "be_experienceRate (attributes_endCondition a b) i =
      (if at_experienceRate a ! i \<noteq> 1 then - (at_experienceRate a ! i) else be_experienceRate b i)"
    and "be_canUseDefense (attributes_endCondition a b) = (at_disableDefense a \<or> be_canUseDefense b)"
proof -
  obtain p where p: "be_player b = Some p" using assms(1) by auto
  define rates where "rates = rates_loop (\<lambda>i. at_experienceRate a ! i \<noteq> 1) (\<lambda>i. - (at_experienceRate a ! i))"
  obtain x where x: "attributes_endCondition a b = (if at_disableDefense a then rates x\<lparr>be_canUseDefense := True\<rparr> else rates x)"
    and frame: "be_experienceRate x = be_experienceRate b" "be_canUseDefense x = be_canUseDefense b"
  proof
    let ?s = "skills_loop (\<lambda>i. at_skills a ! i \<noteq> 0 \<or> at_skillsPercent a ! i \<noteq> 0) (\<lambda>i. - (at_skills a ! i)) b"
    let ?t = "specials_loop (\<lambda>i. at_specialSkills a ! i \<noteq> 0) (\<lambda>i. - (at_specialSkills a ! i)) ?s"
    let ?u = "if list_ex (\<lambda>i. at_skills a ! i \<noteq> 0 \<or> at_skillsPercent a ! i \<noteq> 0) [0..<7] \<or>
                  list_ex (\<lambda>i. at_specialSkills a ! i \<noteq> 0) [0..<6] then on_player (emit SendSkills) ?t else ?t"
    let ?v = "stats_loop (\<lambda>s. at_stats a ! stat_index s \<noteq> 0) (\<lambda>s. - (at_stats a ! stat_index s)) ?u"
    let ?w = "if list_ex (\<lambda>stat. at_stats a ! stat_index stat \<noteq> 0) stat_list
              then on_player (emit SendSkills \<circ> emit SendStats) ?v else ?v"
    show "attributes_endCondition a b = (if at_disableDefense a then rates ?w\<lparr>be_canUseDefense := True\<rparr> else rates ?w)"
      unfolding attributes_endCondition_def p option.case Let_def rates_def rates_loop_def stats_loop_def
        specials_loop_def skills_loop_def ..
    show "be_experienceRate ?w = be_experienceRate b" "be_canUseDefense ?w = be_canUseDefense b"
      by (simp_all add: stats_loop_def specials_loop_def skills_loop_def fold_keeps del: upt_Suc)
  qed
  show "be_experienceRate (attributes_endCondition a b) i =
      (if at_experienceRate a ! i \<noteq> 1 then - (at_experienceRate a ! i) else be_experienceRate b i)"
    using assms(2,3) by (simp add: x rates_def rates_loop_sets frame)
  show "be_canUseDefense (attributes_endCondition a b) = (at_disableDefense a \<or> be_canUseDefense b)"
    by (simp add: x rates_def frame)
qed

lemma start_rates:
  assumes "attributes_startCondition e c a b = (ok, c', b')" and "be_player b \<noteq> None" and "1 \<le> i" and "i < 5"
  shows "be_experienceRate b' i =
      (if at_experienceRate a ! i \<noteq> 1 then at_experienceRate a ! i else be_experienceRate b i)"
    and "be_canUseDefense b' = (\<not> at_disableDefense a)"
    and "\<exists>a'. co_class c' = ConditionAttributes a' \<and> at_experienceRate a' = at_experienceRate a \<and>
      at_disableDefense a' = at_disableDefense a"
proof -
  obtain c1 where base: "base_startCondition (en_now e) c = (True, c1)"
    using base_startCondition_result(1) [of "en_now e" c] by (cases "base_startCondition (en_now e) c") auto
  obtain p where p: "be_player b = Some p" using assms(2) by auto
  show "be_experienceRate b' i =
      (if at_experienceRate a ! i \<noteq> 1 then at_experienceRate a ! i else be_experienceRate b i)"
    and "be_canUseDefense b' = (\<not> at_disableDefense a)"
    and "\<exists>a'. co_class c' = ConditionAttributes a' \<and> at_experienceRate a' = at_experienceRate a \<and>
      at_disableDefense a' = at_disableDefense a"
    using assms
    by (auto simp: attributes_startCondition_def base p Let_def updateExperienceRate_loops rates_loop_sets)
qed

lemma refresh_rates:
  assumes "co_class c = ConditionAttributes a" and "co_class new = ConditionAttributes a'"
    and "co_type new = co_type c" and "base_updateCondition (en_now e) new c"
    and "be_player b \<noteq> None" and "1 \<le> i" and "i < 5"
    and "merge_condition e new c b = Some (c', b')"
  shows "be_experienceRate b' i =
      (if at_experienceRate a ! i \<noteq> 1 then - (at_experienceRate a ! i) else be_experienceRate b i)"
    and "be_canUseDefense b' = (at_disableDefense a \<or> be_canUseDefense b)"
proof -
  have "be_player (attributes_endCondition a b) \<noteq> None" using attributes_end_removes [OF assms(5), of a] by blast
  then obtain p where p: "be_player (attributes_endCondition a b) = Some p" by auto
  have "attributes_addCondition e new a' c a b = (c', b')"
    using assms(8) by (simp add: merge_condition_def assms(1-3))
  then have "\<exists>x y. b' = updateStats x (updateSkills y (attributes_endCondition a b))"
    using assms(4) by (auto simp: attributes_addCondition_def p Let_def)
  then show "be_experienceRate b' i =
      (if at_experienceRate a ! i \<noteq> 1 then - (at_experienceRate a ! i) else be_experienceRate b i)"
    and "be_canUseDefense b' = (at_disableDefense a \<or> be_canUseDefense b)"
    using end_rates [OF assms(5-7), of a] by auto
qed

lemma sample_refresh: 
  "base_updateCondition (en_now sample_surroundings) sample_bonus sample_bonus"
  by (simp add: base_updateCondition_def sample_bonus_def new_condition_def sample_surroundings_def word_sless_alt)

lemma sample_bonus_class: "co_class sample_bonus = ConditionAttributes new_attributes"
  by (simp add: sample_bonus_def new_condition_def)

text \<open>
  C30: attribute conditions spoil experience rates and defence.  For a player, starting an attribute condition
  overwrites every rate for which the condition does not hold the value 1 (the default is 0), and ending or
  refreshing it leaves the negated value instead of the rate before; refreshing never disables defence, and
  enables it if the old condition had disabled it, whatever the new one says.
\<close>
theorem attribute_rates:
  assumes "co_class c = ConditionAttributes a" and "be_player b \<noteq> None" and "1 \<le> i" and "i < 5"
  shows "(\<forall>ok c' b'. startCondition e c b = Some (ok, c', b') \<longrightarrow>
      be_experienceRate b' i = (if at_experienceRate a ! i \<noteq> 1 then at_experienceRate a ! i else be_experienceRate b i) \<and>
      be_canUseDefense b' = (\<not> at_disableDefense a) \<and>
      be_experienceRate (endCondition e c' b') i =
        (if at_experienceRate a ! i \<noteq> 1 then - (at_experienceRate a ! i) else be_experienceRate b i)) \<and>
    (\<forall>new a' c' b'. co_class new = ConditionAttributes a' \<and> co_type new = co_type c \<and>
        base_updateCondition (en_now e) new c \<and> merge_condition e new c b = Some (c', b') \<longrightarrow>
      be_experienceRate b' i = (if at_experienceRate a ! i \<noteq> 1 then - (at_experienceRate a ! i) else be_experienceRate b i) \<and>
      be_canUseDefense b' = (at_disableDefense a \<or> be_canUseDefense b))"
proof (intro conjI allI impI)
  fix ok c' b' assume "startCondition e c b = Some (ok, c', b')"
  then have start: "attributes_startCondition e c a b = (ok, c', b')" by (simp add: startCondition_def assms(1))
  note started = start_rates [OF start assms(2-4)]
  show "be_experienceRate b' i = (if at_experienceRate a ! i \<noteq> 1 then at_experienceRate a ! i else be_experienceRate b i)"
    and "be_canUseDefense b' = (\<not> at_disableDefense a)" by (rule started)+
  obtain a' where a': "co_class c' = ConditionAttributes a'" "at_experienceRate a' = at_experienceRate a"
    using started(3) by auto
  have "be_player b' \<noteq> None"
    using attributes_start_adds [OF assms(1,2) start] assms(2) by (simp add: changes_bonuses_def)
  from end_rates(1) [OF this assms(3,4), of a']
  show "be_experienceRate (endCondition e c' b') i =
        (if at_experienceRate a ! i \<noteq> 1 then - (at_experienceRate a ! i) else be_experienceRate b i)"
    by (simp add: endCondition_def a' started(1))
qed (use refresh_rates [OF assms(1) _ _ _ assms(2-4)] in blast)+

theorem attribute_rates_witness:
  "be_experienceRate (snd (snd (the (startCondition sample_surroundings sample_bonus sample_bearer)))) 1 = 0"
proof -
  obtain ok c' b' where "startCondition sample_surroundings sample_bonus sample_bearer = Some (ok, c', b')"
    by (cases "attributes_startCondition sample_surroundings sample_bonus new_attributes sample_bearer")
      (auto simp: startCondition_def sample_bonus_class)
  then show ?thesis
    using attribute_rates [OF sample_bonus_class, of sample_bearer 1 sample_surroundings]
    by (simp add: new_attributes_def)
qed

end
