(* ===== verification/Map_Tree.thy ===== *)
theory Map_Tree
  imports Positions
begin

text \<open>
  The tile map (map.h, map.cpp: \<open>QTreeNode\<close>, \<open>QTreeLeafNode\<close>, \<open>Floor\<close>, \<open>Map::getTile\<close>, \<open>Map::setTile\<close>).  A
  quadtree finds the leaf of a block of 8 by 8 tiles; leaves link to their neighbours in the south and the
  east.  The invariant \<open>map_ok\<close> says that every leaf belongs to one block and that the links agree with the
  tree; the locale \<open>joining_store\<close> is the table that the map implements.
\<close>

subsection \<open>The quadtree\<close>

definition MAP_MAX_LAYERS :: u8 where "MAP_MAX_LAYERS = 16"
definition FLOOR_BITS :: nat where "FLOOR_BITS = 3"
definition FLOOR_SIZE :: u32 where "FLOOR_SIZE = push_bit FLOOR_BITS 1"
definition FLOOR_MASK :: u16 where "FLOOR_MASK = push_bit FLOOR_BITS 1 - 1"

text \<open>
  A pointer to a node is the node itself, \<open>QEmpty\<close> the null pointer.  Leaves are shared (neighbours link to
  them), so a leaf is its address in a store.
\<close>

datatype qtree = QEmpty | QNode qtree qtree qtree qtree | QLeaf nat

definition qindex :: "u32 \<Rightarrow> u32 \<Rightarrow> u32" where
  "qindex x y = drop_bit 15 (x AND 0x8000) OR drop_bit 14 (y AND 0x8000)"

text \<open>\<open>child[i]\<close>, read and written.\<close>

definition pick :: "u32 \<Rightarrow> 'a \<Rightarrow> 'a \<Rightarrow> 'a \<Rightarrow> 'a \<Rightarrow> 'a" where
  "pick i a b c d = (if i = 0 then a else if i = 1 then b else if i = 2 then c else d)"

definition put_child :: "u32 \<Rightarrow> qtree \<Rightarrow> qtree \<Rightarrow> qtree \<Rightarrow> qtree \<Rightarrow> qtree \<Rightarrow> qtree" where
  "put_child i t a b c d =
     (if i = 0 then QNode t b c d else if i = 1 then QNode a t c d else if i = 2 then QNode a b t d
      else QNode a b c t)"

lemma size_pick [termination_simp]: "size (pick i a b c d) < Suc (size a + size b + size c + size d)"
  by (simp add: pick_def)

lemma size_pick_node [termination_simp]:
  "size (pick i a b c d) < size (QNode a b c d)"
  by (simp add: pick_def)

fun getLeaf :: "qtree \<Rightarrow> u32 \<Rightarrow> u32 \<Rightarrow> nat option" where
  "getLeaf QEmpty x y = None"
| "getLeaf (QLeaf l) x y = Some l"
| "getLeaf (QNode a b c d) x y = getLeaf (pick (qindex x y) a b c d) (push_bit 1 x) (push_bit 1 y)"

text \<open>The loop of \<open>getLeafStatic\<close> reads a child before it asks whether the node is a leaf.\<close>

function getLeafStatic :: "qtree \<Rightarrow> u32 \<Rightarrow> u32 \<Rightarrow> nat option" where
  "getLeafStatic (QNode a b c d) x y =
     (case pick (qindex x y) a b c d of
        QEmpty \<Rightarrow> None
      | QLeaf l \<Rightarrow> Some l
      | QNode _ _ _ _ \<Rightarrow> getLeafStatic (pick (qindex x y) a b c d) (push_bit 1 x) (push_bit 1 y))"
| "getLeafStatic QEmpty x y = None"
| "getLeafStatic (QLeaf l) x y = None"
  by pat_completeness auto
termination
  by (relation "measure (\<lambda>(t, _, _). size t)") (simp, metis in_measure prod.case size_pick_node)

text \<open>
  \<open>fresh\<close> is the address a new leaf gets; the result is the tree, the leaf and the flag \<open>newLeaf\<close>.  The
  level falls from 15; leaves are made at level \<open>FLOOR_BITS\<close>, so level 0 is never reached.
\<close>

fun createLeaf :: "nat \<Rightarrow> nat \<Rightarrow> qtree \<Rightarrow> u32 \<Rightarrow> u32 \<Rightarrow> qtree \<times> nat \<times> bool" where
  "createLeaf fresh level (QLeaf l) x y = (QLeaf l, l, False)"
| "createLeaf fresh 0 t x y = (t, fresh, False)"
| "createLeaf fresh (Suc level) QEmpty x y = (QEmpty, fresh, False)"
| "createLeaf fresh (Suc level) (QNode a b c d) x y =
     (let i = qindex x y;
          child = pick i a b c d;
          child' = (if child = QEmpty
                    then if Suc level \<noteq> FLOOR_BITS then QNode QEmpty QEmpty QEmpty QEmpty else QLeaf fresh
                    else child);
          made = (child = QEmpty \<and> Suc level = FLOOR_BITS);
          (t, l, new) = createLeaf fresh level child' (push_bit 1 x) (push_bit 1 y)
      in (put_child i t a b c d, l, made \<or> new))"

subsection \<open>The laws of the tree\<close>

text \<open>All leaves lie at the same depth.\<close>

fun tree_ok :: "nat \<Rightarrow> qtree \<Rightarrow> bool" where
  "tree_ok k QEmpty \<longleftrightarrow> True"
| "tree_ok 0 (QLeaf l) \<longleftrightarrow> True"
| "tree_ok (Suc k) (QNode a b c d) \<longleftrightarrow> tree_ok k a \<and> tree_ok k b \<and> tree_ok k c \<and> tree_ok k d"
| "tree_ok _ _ \<longleftrightarrow> False"

fun same_path :: "nat \<Rightarrow> u32 \<Rightarrow> u32 \<Rightarrow> u32 \<Rightarrow> u32 \<Rightarrow> bool" where
  "same_path 0 x y x' y' \<longleftrightarrow> True"
| "same_path (Suc k) x y x' y' \<longleftrightarrow>
     qindex x y = qindex x' y' \<and> same_path k (push_bit 1 x) (push_bit 1 y) (push_bit 1 x') (push_bit 1 y')"

lemma bit_mask15: "bit (0x8000 :: u32) n \<longleftrightarrow> n = 15"
proof -
  have "(0x8000 :: u32) = 2 ^ 15" by simp
  then show ?thesis by (simp only: bit_exp_iff possible_bit_word) auto
qed

lemma qindex_bits:
  "qindex x y = (if bit x 15 then 1 else 0) + (if bit y 15 then 2 else 0)"
proof -
  have "x AND 0x8000 = (if bit x 15 then 0x8000 else 0)" for x :: u32
    by (cases "bit x 15"; rule bit_word_eqI) (simp_all only: bit_and_iff bit_mask15 if_True if_False bit_0_eq bot_apply, auto)
  then show ?thesis by (simp add: qindex_def)
qed

lemma qindex_less: "qindex x y \<in> {0, 1, 2, 3}"
  by (simp add: qindex_bits)

lemma qindex_eq: "qindex x y = qindex x' y' \<longleftrightarrow> bit x 15 = bit x' 15 \<and> bit y 15 = bit y' 15"
  by (simp add: qindex_bits)

lemma pick_put_child:
  assumes "i \<in> {0, 1, 2, 3}" and "j \<in> {0, 1, 2, 3}"
  shows "\<exists>a' b' c' d'. put_child i t a b c d = QNode a' b' c' d' \<and>
    pick j a' b' c' d' = (if j = i then t else pick j a b c d)"
  using assms by (auto simp: put_child_def pick_def)

lemma getLeaf_put_child:
  "getLeaf (put_child (qindex x y) t a b c d) x' y' =
     (if qindex x' y' = qindex x y then getLeaf t (push_bit 1 x') (push_bit 1 y')
      else getLeaf (QNode a b c d) x' y')"
proof -
  obtain a' b' c' d' where "put_child (qindex x y) t a b c d = QNode a' b' c' d'"
    and "pick (qindex x' y') a' b' c' d' = (if qindex x' y' = qindex x y then t else pick (qindex x' y') a b c d)"
    using pick_put_child [OF qindex_less qindex_less] by metis
  then show ?thesis by simp
qed

lemma tree_ok_pick: "tree_ok (Suc k) (QNode a b c d) \<Longrightarrow> tree_ok k (pick i a b c d)"
  by (simp add: pick_def)

lemma tree_ok_put_child: "tree_ok (Suc k) (QNode a b c d) \<Longrightarrow> tree_ok k t \<Longrightarrow> tree_ok (Suc k) (put_child i t a b c d)"
  by (simp add: put_child_def)

text \<open>\<open>createLeaf\<close> makes exactly the leaf of its path, and only when there was none.\<close>

lemma createLeaf_correct:
  assumes "tree_ok k t" and "t \<noteq> QEmpty" and "createLeaf fresh (k + 2) t x y = (t', l, new)"
  shows "tree_ok k t' \<and> t' \<noteq> QEmpty \<and>
    (new \<longleftrightarrow> getLeaf t x y = None) \<and> l = (case getLeaf t x y of None \<Rightarrow> fresh | Some l \<Rightarrow> l) \<and>
    (\<forall>x' y'. getLeaf t' x' y' = (if same_path k x' y' x y then Some l else getLeaf t x' y'))"
  using assms
proof (induction k arbitrary: t x y t' new)
  case 0
  then obtain l' where "t = QLeaf l'" by (cases t) auto
  then show ?case using 0 by (auto simp: numeral_2_eq_2)
next
  case (Suc k)
  then obtain a b c d where t: "t = QNode a b c d" by (cases t) auto
  define i where "i = qindex x y"
  define u where "u = pick i a b c d"
  define v where "v = (if u = QEmpty then if Suc (k + 2) \<noteq> FLOOR_BITS then QNode QEmpty QEmpty QEmpty QEmpty else QLeaf fresh else u)"
  obtain s l' new' where run': "createLeaf fresh (k + 2) v (push_bit 1 x) (push_bit 1 y) = (s, l', new')"
    by (cases "createLeaf fresh (k + 2) v (push_bit 1 x) (push_bit 1 y)") auto
  have level: "Suc k + 2 = Suc (k + 2)" by simp
  have "createLeaf fresh (Suc k + 2) t x y =
      (put_child i s a b c d, l', (u = QEmpty \<and> Suc (k + 2) = FLOOR_BITS) \<or> new')"
    unfolding level t createLeaf.simps Let_def i_def [symmetric] u_def [symmetric] v_def [symmetric] run' prod.case ..
  then have run: "createLeaf fresh (k + 2) v (push_bit 1 x) (push_bit 1 y) = (s, l, new')"
    and t': "t' = put_child i s a b c d" and new: "new \<longleftrightarrow> (u = QEmpty \<and> Suc (k + 2) = FLOOR_BITS) \<or> new'"
    using Suc.prems(3) run' by simp_all
  have "tree_ok k u" using Suc.prems(1) tree_ok_pick by (simp add: t u_def)
  moreover have base: "Suc (k + 2) = FLOOR_BITS \<longleftrightarrow> k = 0" by (simp add: FLOOR_BITS_def)
  ultimately have v: "tree_ok k v" "v \<noteq> QEmpty"
    by (cases k; auto simp: v_def)+
  note IH = Suc.IH [OF v run]
  have below: "getLeaf v x' y' = (if u = QEmpty \<and> k = 0 then Some fresh else getLeaf u x' y')" for x' y'
    by (simp add: v_def FLOOR_BITS_def pick_def)
  have "getLeaf t x y = getLeaf u (push_bit 1 x) (push_bit 1 y)" by (simp add: t u_def i_def)
  moreover have "getLeaf t' x' y' = (if same_path (Suc k) x' y' x y then Some l else getLeaf t x' y')" for x' y'
    using IH below [of "push_bit 1 x'" "push_bit 1 y'"]
    by (auto simp: t' getLeaf_put_child t i_def u_def [unfolded i_def])
  ultimately show ?case
    using IH below [of "push_bit 1 x" "push_bit 1 y"] tree_ok_put_child [of k a b c d s i] Suc.prems(1) t new base
    by (auto simp: t' put_child_def split: option.splits)
qed

lemma same_path_bits:
  "k \<le> 16 \<Longrightarrow> same_path k x y x' y' \<longleftrightarrow>
     (\<forall>i<k. bit x (15 - i) = bit x' (15 - i) \<and> bit y (15 - i) = bit y' (15 - i))"
proof (induction k arbitrary: x y x' y')
  case (Suc k)
  have shift: "bit (push_bit 1 w) (15 - i) = bit w (15 - Suc i)" if "i < k" for w :: u32 and i
    using that Suc.prems by (simp only: bit_push_bit_iff) (auto simp: Suc_le_eq)
  show ?case
    using Suc by (simp del: push_bit_Suc push_bit_of_1 add: All_less_Suc2 qindex_eq shift [simplified])
qed simp

text \<open>The square of 8 by 8 tiles that holds a tile.\<close>

definition block :: "u32 \<Rightarrow> u16" where
  "block x = drop_bit 3 (ucast x)"

lemma block_eq: "block x = block x' \<longleftrightarrow> (\<forall>i<13. bit x (15 - i) = bit x' (15 - i))"
proof
  assume eq: "block x = block x'"
  show "\<forall>i<13. bit x (15 - i) = bit x' (15 - i)"
  proof (intro allI impI)
    fix i :: nat assume "i < 13"
    then have bit_i: "bit (block w) (12 - i) = bit w (15 - i)" for w
      by (auto simp: block_def bit_drop_bit_eq bit_ucast_iff add.commute)
    show "bit x (15 - i) = bit x' (15 - i)" using eq bit_i [of x] bit_i [of x'] by simp
  qed
next
  assume eq: "\<forall>i<13. bit x (15 - i) = bit x' (15 - i)"
  show "block x = block x'"
  proof (rule bit_word_eqI)
    fix n assume "n < LENGTH(16)"
    have bit_n: "bit (block w) n = (n < 13 \<and> bit w (n + 3))" for w
      by (auto simp: block_def bit_drop_bit_eq bit_ucast_iff add.commute)
    show "bit (block x) n = bit (block x') n"
      using eq [rule_format, of "12 - n"] by (auto simp: bit_n add.commute)
  qed
qed

lemma same_path_block: "same_path 13 x y x' y' \<longleftrightarrow> block x = block x' \<and> block y = block y'"
  by (auto simp: same_path_bits block_eq)

lemma getLeafStatic_eq:
  "t \<noteq> QEmpty \<Longrightarrow> (\<forall>l. t \<noteq> QLeaf l) \<Longrightarrow> getLeafStatic t x y = getLeaf t x y"
proof (induction t x y rule: getLeafStatic.induct)
  case (1 a b c d x y)
  then show ?case by (cases "pick (qindex x y) a b c d") (auto simp: getLeafStatic.simps(1))
qed simp_all

text \<open>A path only depends on the block.\<close>

lemma getLeaf_block:
  assumes "tree_ok k t" and "same_path k x y x' y'"
  shows "getLeaf t x y = getLeaf t x' y'"
  using assms
proof (induction k t arbitrary: x y x' y' rule: tree_ok.induct)
  case (3 k a b c d)
  have "qindex x y = qindex x' y'" "same_path k (push_bit 1 x) (push_bit 1 y) (push_bit 1 x') (push_bit 1 y')"
    using 3(6) by simp_all
  moreover have "tree_ok k a" "tree_ok k b" "tree_ok k c" "tree_ok k d" using 3(5) by simp_all
  ultimately show ?case
    using 3(1-4) [of "push_bit 1 x" "push_bit 1 y" "push_bit 1 x'" "push_bit 1 y'"]
    by (simp del: push_bit_Suc push_bit_of_1 add: pick_def)
qed simp_all

subsection \<open>The map\<close>

text \<open>
  A floor is the array \<open>tiles\<close>; a leaf has its links to the south and the east, one floor for each
  layer, and the creatures in its square.  Tiles are whatever the caller stores; \<open>merge\<close> is the
  loop of \<open>setTile\<close> that hands the items and the ground of the new tile to the tile already there.
\<close>

type_synonym 'tile map_floor = "u16 \<times> u16 \<Rightarrow> 'tile option"

record 'tile map_leaf =
  leafS :: "nat option"
  leafE :: "nat option"
  array :: "u8 \<Rightarrow> 'tile map_floor option"
  creature_list :: "nat list"
  player_list :: "nat list"

record 'tile game_map =
  root :: qtree
  leaves :: "nat \<Rightarrow> 'tile map_leaf"
  next_leaf :: nat

definition new_leaf :: "'tile map_leaf" where
  "new_leaf = \<lparr>leafS = None, leafE = None, array = (\<lambda>_. None), creature_list = [], player_list = []\<rparr>"

definition empty_map :: "'tile game_map" where
  "empty_map = \<lparr>root = QNode QEmpty QEmpty QEmpty QEmpty, leaves = (\<lambda>_. new_leaf), next_leaf = 0\<rparr>"

definition set_leaf :: "nat \<Rightarrow> ('tile map_leaf \<Rightarrow> 'tile map_leaf) \<Rightarrow> 'tile game_map \<Rightarrow> 'tile game_map" where
  "set_leaf l f m = m\<lparr>leaves := (leaves m)(l := f (leaves m l))\<rparr>"

definition getQTNode :: "u16 \<Rightarrow> u16 \<Rightarrow> 'tile game_map \<Rightarrow> nat option" where
  "getQTNode x y m = getLeafStatic (root m) (ucast x) (ucast y)"

definition getTile :: "u16 \<Rightarrow> u16 \<Rightarrow> u8 \<Rightarrow> 'tile game_map \<Rightarrow> 'tile option" where
  "getTile x y z m =
     (if MAP_MAX_LAYERS \<le> z then None
      else case getLeafStatic (root m) (ucast x) (ucast y) of
        None \<Rightarrow> None
      | Some l \<Rightarrow>
          (case array (leaves m l) z of
             None \<Rightarrow> None
           | Some tiles \<Rightarrow> tiles (x AND FLOOR_MASK, y AND FLOOR_MASK)))"

definition createFloor :: "u8 \<Rightarrow> 'tile map_leaf \<Rightarrow> 'tile map_leaf" where
  "createFloor z leaf = (case array leaf z of None \<Rightarrow> leaf\<lparr>array := (array leaf)(z := Some (\<lambda>_. None))\<rparr> | Some _ \<Rightarrow> leaf)"

text \<open>\<open>if (leaf) f(leaf)\<close> for a pointer to a leaf.\<close>

definition on_leaf ::
  "nat option \<Rightarrow> ('tile map_leaf \<Rightarrow> 'tile map_leaf) \<Rightarrow> 'tile game_map \<Rightarrow> 'tile game_map" where
  "on_leaf leaf f m = (case leaf of None \<Rightarrow> m | Some l \<Rightarrow> set_leaf l f m)"

definition link_leaf :: "u16 \<Rightarrow> u16 \<Rightarrow> nat \<Rightarrow> 'tile game_map \<Rightarrow> 'tile game_map" where
  "link_leaf x y leaf m =
     (let northLeaf = getLeaf (root m) (ucast x) (ucast y - FLOOR_SIZE);
          m = on_leaf northLeaf (\<lambda>l. l\<lparr>leafS := Some leaf\<rparr>) m;
          westLeaf = getLeaf (root m) (ucast x - FLOOR_SIZE) (ucast y);
          m = on_leaf westLeaf (\<lambda>l. l\<lparr>leafE := Some leaf\<rparr>) m;
          southLeaf = getLeaf (root m) (ucast x) (ucast y + FLOOR_SIZE);
          m = (if southLeaf \<noteq> None then set_leaf leaf (\<lambda>l. l\<lparr>leafS := southLeaf\<rparr>) m else m);
          eastLeaf = getLeaf (root m) (ucast x + FLOOR_SIZE) (ucast y)
      in if eastLeaf \<noteq> None then set_leaf leaf (\<lambda>l. l\<lparr>leafE := eastLeaf\<rparr>) m else m)"

definition setTile ::
  "('tile \<Rightarrow> 'tile \<Rightarrow> 'tile) \<Rightarrow> u16 \<Rightarrow> u16 \<Rightarrow> u8 \<Rightarrow> 'tile \<Rightarrow> 'tile game_map \<Rightarrow> 'tile game_map" where
  "setTile merge x y z newTile m =
     (if MAP_MAX_LAYERS \<le> z then m
      else
        let (t, leaf, newLeaf) = createLeaf (next_leaf m) 15 (root m) (ucast x) (ucast y);
            m = (if newLeaf
                 then link_leaf x y leaf
                   (m\<lparr>root := t, leaves := (leaves m)(leaf := new_leaf), next_leaf := Suc (next_leaf m)\<rparr>)
                 else m\<lparr>root := t\<rparr>);
            offset = (x AND FLOOR_MASK, y AND FLOOR_MASK);
            put = (\<lambda>tiles. tiles(offset := Some (case tiles offset of Some tile \<Rightarrow> merge tile newTile | None \<Rightarrow> newTile)))
        in set_leaf leaf (\<lambda>l. let l = createFloor z l in l\<lparr>array := (array l)(z := map_option put (array l z))\<rparr>) m)"

text \<open>\<open>QTreeLeafNode::addCreature\<close> and \<open>removeCreature\<close>; removal puts the last pointer in the place of the removed one.\<close>

definition leaf_addCreature :: "(nat \<Rightarrow> bool) \<Rightarrow> nat \<Rightarrow> 'tile map_leaf \<Rightarrow> 'tile map_leaf" where
  "leaf_addCreature isPlayer c l =
     (let l = l\<lparr>creature_list := creature_list l @ [c]\<rparr>
      in if isPlayer c then l\<lparr>player_list := player_list l @ [c]\<rparr> else l)"

fun index_of :: "nat \<Rightarrow> nat list \<Rightarrow> nat" where
  "index_of c [] = 0"
| "index_of c (d # ds) = (if c = d then 0 else Suc (index_of c ds))"

definition swap_remove :: "nat \<Rightarrow> nat list \<Rightarrow> nat list option" where
  "swap_remove c cs = (if c \<in> set cs then Some (butlast (cs[index_of c cs := last cs])) else None)"

text \<open>\<open>None\<close> is a failed assertion: the creature is not there.\<close>

definition leaf_removeCreature :: "(nat \<Rightarrow> bool) \<Rightarrow> nat \<Rightarrow> 'tile map_leaf \<Rightarrow> 'tile map_leaf option" where
  "leaf_removeCreature isPlayer c l =
     (case swap_remove c (creature_list l) of
        None \<Rightarrow> None
      | Some cs \<Rightarrow>
          let l = l\<lparr>creature_list := cs\<rparr>
          in if isPlayer c then map_option (\<lambda>ps. l\<lparr>player_list := ps\<rparr>) (swap_remove c (player_list l)) else Some l)"

lemma FLOOR_SIZE_8: "FLOOR_SIZE = 8"
  by (simp add: FLOOR_SIZE_def FLOOR_BITS_def)

lemma mod_div: "a mod (8 * c) div 8 = a div 8 mod (c :: nat)"
  by (simp add: mod_mult2_eq)

lemma unat_block: "unat (block x) = unat x div 8 mod 8192"
proof -
  have "unat (block x) = unat x mod 65536 div 8"
    by (simp only: block_def unat_drop_bit_eq unsigned_ucast_eq) (simp add: take_bit_eq_mod drop_bit_eq_div)
  also have "\<dots> = unat x div 8 mod 8192" using mod_div [of "unat x" 8192] by simp
  finally show ?thesis .
qed

lemma unat_block_step: "unat (block (x + FLOOR_SIZE)) = (unat (block x) + 1) mod 8192"
proof -
  have "unat (x + FLOOR_SIZE) = (unat x + 8) mod 4294967296"
    by (simp add: FLOOR_SIZE_8 unat_word_ariths)
  then have "unat (block (x + FLOOR_SIZE)) = (unat x + 8) mod 4294967296 div 8 mod 8192"
    by (simp add: unat_block)
  also have "\<dots> = (unat x + 8) div 8 mod 536870912 mod 8192"
    using mod_div [of "unat x + 8" 536870912] by simp
  also have "\<dots> = (unat x + 8) div 8 mod 8192"
    by (subst mod_mod_cancel) simp_all
  also have "\<dots> = (unat x div 8 + 1) mod 8192"
    by (rule arg_cong [of _ _ "\<lambda>n. n mod 8192"]) simp
  also have "\<dots> = (unat x div 8 mod 8192 + 1) mod 8192" by (simp add: mod_simps)
  finally show ?thesis by (simp add: unat_block)
qed

lemma unat_block_less: "unat (block x) < 8192"
  by (simp add: unat_block)

lemma block_step: "block (x + FLOOR_SIZE) = block (y + FLOOR_SIZE) \<longleftrightarrow> block x = block y"
proof -
  have "(a + 1) mod 8192 = (b + 1) mod 8192 \<longleftrightarrow> a = b" if "a < 8192" "b < 8192" for a b :: nat
    using that by (auto simp: mod_Suc split: if_splits)
  from this [OF unat_block_less unat_block_less, of x y] show ?thesis
    by (simp only: word_unat_eq_iff unat_block_step)
qed

lemma block_step_back: "block x = block (y - FLOOR_SIZE) \<longleftrightarrow> block (x + FLOOR_SIZE) = block y"
  using block_step [of x "y - FLOOR_SIZE"] by simp

lemma block_step_other: "block (x + FLOOR_SIZE) \<noteq> block x" "block (x - FLOOR_SIZE) \<noteq> block x"
proof -
  have "(a + 1) mod 8192 \<noteq> a" if "a < 8192" for a :: nat
    using that by (auto simp: mod_Suc split: if_splits)
  from this [OF unat_block_less] have other: "block (x + FLOOR_SIZE) \<noteq> block x" for x
    by (simp only: word_unat_eq_iff unat_block_step) simp
  show "block (x + FLOOR_SIZE) \<noteq> block x" by (rule other)
  show "block (x - FLOOR_SIZE) \<noteq> block x" using other [of "x - FLOOR_SIZE"] by simp
qed

subsection \<open>The invariant of the map\<close>

definition leaf_at :: "'tile game_map \<Rightarrow> u32 \<Rightarrow> u32 \<Rightarrow> nat option" where
  "leaf_at m x y = getLeaf (root m) x y"

text \<open>
  Every leaf is the leaf of one block, and links to the leaves of the blocks to its south and east, around
  the edge of the map.
\<close>

definition map_ok :: "'tile game_map \<Rightarrow> bool" where
  "map_ok m \<longleftrightarrow>
     tree_ok 13 (root m) \<and> root m \<noteq> QEmpty \<and>
     (\<forall>x y l. leaf_at m x y = Some l \<longrightarrow>
        l < next_leaf m \<and>
        leafS (leaves m l) = leaf_at m x (y + FLOOR_SIZE) \<and> leafE (leaves m l) = leaf_at m (x + FLOOR_SIZE) y \<and>
        (\<forall>x' y'. leaf_at m x' y' = Some l \<longrightarrow> block x = block x' \<and> block y = block y'))"

lemma map_okD:
  assumes "map_ok m"
  shows "tree_ok 13 (root m)" "root m \<noteq> QEmpty"
    "leaf_at m x y = Some l \<Longrightarrow> l < next_leaf m"
    "leaf_at m x y = Some l \<Longrightarrow> leafS (leaves m l) = leaf_at m x (y + FLOOR_SIZE)"
    "leaf_at m x y = Some l \<Longrightarrow> leafE (leaves m l) = leaf_at m (x + FLOOR_SIZE) y"
    "leaf_at m x y = Some l \<Longrightarrow> leaf_at m x' y' = Some l \<Longrightarrow> block x = block x' \<and> block y = block y'"
  using assms unfolding map_ok_def by blast+

lemma map_okI:
  assumes "tree_ok 13 (root m)" "root m \<noteq> QEmpty"
    "\<And>x y l. leaf_at m x y = Some l \<Longrightarrow> l < next_leaf m"
    "\<And>x y l. leaf_at m x y = Some l \<Longrightarrow> leafS (leaves m l) = leaf_at m x (y + FLOOR_SIZE)"
    "\<And>x y l. leaf_at m x y = Some l \<Longrightarrow> leafE (leaves m l) = leaf_at m (x + FLOOR_SIZE) y"
    "\<And>x y x' y' l. leaf_at m x y = Some l \<Longrightarrow> leaf_at m x' y' = Some l \<Longrightarrow> block x = block x' \<and> block y = block y'"
  shows "map_ok m"
  unfolding map_ok_def using assms by blast

lemma leaf_at_block: "map_ok m \<Longrightarrow> block x = block x' \<Longrightarrow> block y = block y' \<Longrightarrow> leaf_at m x y = leaf_at m x' y'"
  unfolding leaf_at_def using map_okD(1) by (intro getLeaf_block [of 13]) (simp_all add: same_path_block)

lemma leaf_at_neighbour:
  assumes "map_ok m" and "leaf_at m x' y' = Some l"
  shows "leaf_at m x (y - FLOOR_SIZE) = Some l \<longleftrightarrow> block x' = block x \<and> block (y' + FLOOR_SIZE) = block y"
    and "leaf_at m (x - FLOOR_SIZE) y = Some l \<longleftrightarrow> block (x' + FLOOR_SIZE) = block x \<and> block y' = block y"
  using map_okD(6) [OF assms] leaf_at_block [OF assms(1), of x' _ y'] assms(2)
  by (metis block_step_back)+

lemma getLeafStatic_leaf_at: "map_ok m \<Longrightarrow> getLeafStatic (root m) x y = leaf_at m x y"
  using map_okD(1,2) [of m] unfolding leaf_at_def
  by (intro getLeafStatic_eq) (auto simp: numeral_eq_Suc)

lemma empty_map_ok: "map_ok empty_map" and empty_map_leaf: "leaf_at empty_map x y = None"
proof -
  have none: "leaf_at empty_map x y = None" for x y
    by (simp add: leaf_at_def empty_map_def pick_def)
  show "leaf_at empty_map x y = None" by (rule none)
  show "map_ok empty_map" unfolding map_ok_def by (simp only: none) (simp add: empty_map_def numeral_eq_Suc)
qed

lemma set_leaf_sel [simp]:
  "root (set_leaf l f m) = root m" "next_leaf (set_leaf l f m) = next_leaf m"
  "leaves (set_leaf l f m) l' = (if l' = l then f (leaves m l) else leaves m l')"
  "leaf_at (set_leaf l f m) x y = leaf_at m x y"
  by (simp_all add: set_leaf_def leaf_at_def)

lemma on_leaf_sel [simp]:
  "root (on_leaf leaf f m) = root m" "next_leaf (on_leaf leaf f m) = next_leaf m"
  "leaves (on_leaf leaf f m) l' = (if leaf = Some l' then f (leaves m l') else leaves m l')"
  by (cases leaf; simp add: on_leaf_def)+

lemma if_sel:
  "root (if P then m else m') = (if P then root m else root m')"
  "next_leaf (if P then m else m') = (if P then next_leaf m else next_leaf m')"
  "leaves (if P then m else m') = (if P then leaves m else leaves m')"
  by simp_all

lemma link_leaf_sel [simp]:
  "root (link_leaf x y l m) = root m" "next_leaf (link_leaf x y l m) = next_leaf m"
  "array (leaves (link_leaf x y l m) l') = array (leaves m l')"
  "creature_list (leaves (link_leaf x y l m) l') = creature_list (leaves m l')"
  "player_list (leaves (link_leaf x y l m) l') = player_list (leaves m l')"
  by (simp_all add: link_leaf_def Let_def if_sel)

lemma link_leaf_links:
  "leafS (leaves (link_leaf x y l m) l') =
     (if l' = l \<and> leaf_at m (ucast x) (ucast y + FLOOR_SIZE) \<noteq> None then leaf_at m (ucast x) (ucast y + FLOOR_SIZE)
      else if leaf_at m (ucast x) (ucast y - FLOOR_SIZE) = Some l' then Some l else leafS (leaves m l'))"
  "leafE (leaves (link_leaf x y l m) l') =
     (if l' = l \<and> leaf_at m (ucast x + FLOOR_SIZE) (ucast y) \<noteq> None then leaf_at m (ucast x + FLOOR_SIZE) (ucast y)
      else if leaf_at m (ucast x - FLOOR_SIZE) (ucast y) = Some l' then Some l else leafE (leaves m l'))"
  by (simp_all only: link_leaf_def Let_def leaf_at_def if_sel on_leaf_sel set_leaf_sel) auto

lemma set_leaf_ok:
  assumes "map_ok m" and "leafS (f (leaves m l)) = leafS (leaves m l)" "leafE (f (leaves m l)) = leafE (leaves m l)"
  shows "map_ok (set_leaf l f m)"
proof -
  have links: "leafS (leaves (set_leaf l f m) l') = leafS (leaves m l')" "leafE (leaves (set_leaf l f m) l') = leafE (leaves m l')" for l'
    using assms(2,3) by simp_all
  show ?thesis using assms(1) unfolding map_ok_def set_leaf_sel(1,2,4) links .
qed

lemma createFloor_sel [simp]:
  "leafS (createFloor z l) = leafS l" "leafE (createFloor z l) = leafE l"
  "creature_list (createFloor z l) = creature_list l" "player_list (createFloor z l) = player_list l"
  by (simp_all add: createFloor_def split: option.splits)

text \<open>The first half of \<open>setTile\<close>: the leaf of the tile exists and is linked to its neighbours.\<close>

definition ensure_leaf :: "u16 \<Rightarrow> u16 \<Rightarrow> 'tile game_map \<Rightarrow> nat \<times> 'tile game_map" where
  "ensure_leaf x y m =
     (let (t, leaf, newLeaf) = createLeaf (next_leaf m) 15 (root m) (ucast x) (ucast y)
      in (leaf, if newLeaf
                then link_leaf x y leaf
                   (m\<lparr>root := t, leaves := (leaves m)(leaf := new_leaf), next_leaf := Suc (next_leaf m)\<rparr>)
                else m\<lparr>root := t\<rparr>))"

lemma setTile_ensure:
  "setTile merge x y z newTile m =
     (if MAP_MAX_LAYERS \<le> z then m
      else
        let (leaf, m) = ensure_leaf x y m;
            offset = (x AND FLOOR_MASK, y AND FLOOR_MASK);
            put = (\<lambda>tiles. tiles(offset := Some (case tiles offset of Some tile \<Rightarrow> merge tile newTile | None \<Rightarrow> newTile)))
        in set_leaf leaf (\<lambda>l. let l = createFloor z l in l\<lparr>array := (array l)(z := map_option put (array l z))\<rparr>) m)"
  by (simp add: setTile_def ensure_leaf_def case_prod_beta Let_def)

lemma root_leaf_made:
  assumes "map_ok m" and "createLeaf (next_leaf m) 15 (root m) (ucast x) (ucast y) = (t, leaf, new)"
  shows "tree_ok 13 t" "t \<noteq> QEmpty" "new \<longleftrightarrow> leaf_at m (ucast x) (ucast y) = None"
    "leaf = (case leaf_at m (ucast x) (ucast y) of None \<Rightarrow> next_leaf m | Some l \<Rightarrow> l)"
    "getLeaf t x' y' = (if block x' = block (ucast x) \<and> block y' = block (ucast y) then Some leaf else leaf_at m x' y')"
  using createLeaf_correct [OF map_okD(1,2) [OF assms(1)], of "next_leaf m" "ucast x" "ucast y" t leaf new] assms(2)
  by (simp_all only: same_path_block leaf_at_def) simp_all

lemma ensure_leaf_sel:
  assumes "map_ok m" and "ensure_leaf x y m = (leaf, m')"
  shows "leaf = (case leaf_at m (ucast x) (ucast y) of None \<Rightarrow> next_leaf m | Some l \<Rightarrow> l)"
    "leaf_at m' x' y' = (if block x' = block (ucast x) \<and> block y' = block (ucast y) then Some leaf else leaf_at m x' y')"
    "leaf_at m (ucast x) (ucast y) = None \<Longrightarrow> l = leaf \<Longrightarrow> array (leaves m' l) = (\<lambda>_. None) \<and>
       creature_list (leaves m' l) = [] \<and> player_list (leaves m' l) = []"
    "leaf_at m (ucast x) (ucast y) \<noteq> None \<or> l \<noteq> leaf \<Longrightarrow> array (leaves m' l) = array (leaves m l) \<and>
       creature_list (leaves m' l) = creature_list (leaves m l) \<and> player_list (leaves m' l) = player_list (leaves m l)"
proof -
  obtain t new where run: "createLeaf (next_leaf m) 15 (root m) (ucast x) (ucast y) = (t, leaf, new)"
    and m': "m' = (if new then link_leaf x y leaf
        (m\<lparr>root := t, leaves := (leaves m)(leaf := new_leaf), next_leaf := Suc (next_leaf m)\<rparr>) else m\<lparr>root := t\<rparr>)"
    using assms(2) unfolding ensure_leaf_def Let_def
    by (cases "createLeaf (next_leaf m) 15 (root m) (ucast x) (ucast y)") auto
  note made = root_leaf_made [OF assms(1) run]
  show "leaf = (case leaf_at m (ucast x) (ucast y) of None \<Rightarrow> next_leaf m | Some l \<Rightarrow> l)" by (rule made(4))
  have "root m' = t" by (simp add: m')
  then show "leaf_at m' x' y' = (if block x' = block (ucast x) \<and> block y' = block (ucast y) then Some leaf else leaf_at m x' y')"
    using made(5) by (simp add: leaf_at_def)
  show "leaf_at m (ucast x) (ucast y) = None \<Longrightarrow> l = leaf \<Longrightarrow> array (leaves m' l) = (\<lambda>_. None) \<and>
       creature_list (leaves m' l) = [] \<and> player_list (leaves m' l) = []"
    by (simp add: m' made(3) new_leaf_def)
  show "leaf_at m (ucast x) (ucast y) \<noteq> None \<or> l \<noteq> leaf \<Longrightarrow> array (leaves m' l) = array (leaves m l) \<and>
       creature_list (leaves m' l) = creature_list (leaves m l) \<and> player_list (leaves m' l) = player_list (leaves m l)"
    using made(3) by (auto simp: m')
qed

lemma ensure_leaf_ok:
  assumes "map_ok m" and "ensure_leaf x y m = (leaf, m')"
  shows "map_ok m'"
proof -
  obtain t new where run: "createLeaf (next_leaf m) 15 (root m) (ucast x) (ucast y) = (t, leaf, new)"
    and m': "m' = (if new then link_leaf x y leaf
        (m\<lparr>root := t, leaves := (leaves m)(leaf := new_leaf), next_leaf := Suc (next_leaf m)\<rparr>) else m\<lparr>root := t\<rparr>)"
    using assms(2) unfolding ensure_leaf_def Let_def
    by (cases "createLeaf (next_leaf m) 15 (root m) (ucast x) (ucast y)") auto
  note made = root_leaf_made [OF assms(1) run]
  let ?X = "ucast x :: u32" and ?Y = "ucast y :: u32"
  have root': "root m' = t" by (simp add: m')
  note at' = ensure_leaf_sel(2) [OF assms]
  note ok = map_okD [OF assms(1)]
  show ?thesis
  proof (cases "leaf_at m ?X ?Y")
    case (Some l)
    then have "\<not> new" "leaf = l" using made(3,4) by simp_all
    then have same: "leaf_at m' x' y' = leaf_at m x' y'" for x' y'
      using at' leaf_at_block [OF assms(1), of x' ?X y' ?Y] Some by auto
    have "leaves m' = leaves m" "next_leaf m' = next_leaf m" using \<open>\<not> new\<close> by (simp_all add: m')
    then show ?thesis
      by (intro map_okI) (simp_all only: root' same made(1,2) ok(3-5) not_False_eq_True, use ok(6) in blast)
  next
    case None
    then have new: "new" and fresh: "leaf = next_leaf m" using made(3,4) by simp_all
    have fresh_no: "leaf_at m x' y' \<noteq> Some leaf" for x' y' using ok(3) [of x' y' leaf] fresh by auto
    define n where "n = m\<lparr>root := t, leaves := (leaves m)(leaf := new_leaf), next_leaf := Suc (next_leaf m)\<rparr>"
    have m'n: "m' = link_leaf x y leaf n" using m' new by (simp add: n_def)
    have atn: "leaf_at n = leaf_at m'" by (simp add: leaf_at_def m'n fun_eq_iff)
    have next_n: "next_leaf m' = Suc (next_leaf m)" by (simp add: m'n n_def)
    note links = link_leaf_links [of x y leaf n, folded m'n, unfolded atn]
    have other: "leaves n l = leaves m l" if "l \<noteq> leaf" for l using that by (simp add: n_def)
    have new_links: "leafS (leaves n leaf) = None" "leafE (leaves n leaf) = None" by (simp_all add: n_def new_leaf_def)
    have behind: "leaf_at m' ?X (?Y - FLOOR_SIZE) = leaf_at m ?X (?Y - FLOOR_SIZE)"
      "leaf_at m' (?X - FLOOR_SIZE) ?Y = leaf_at m (?X - FLOOR_SIZE) ?Y"
      using block_step_other(2) by (simp_all add: at')
    have old: "l \<noteq> leaf \<and> leaf_at m x' y' = Some l" if "leaf_at m' x' y' = Some l" "\<not> (block x' = block ?X \<and> block y' = block ?Y)" for x' y' l
      using that at' [of x' y'] fresh_no by auto
    have step: "leaf_at m' x' (y' + FLOOR_SIZE) = leaf_at m' ?X (?Y + FLOOR_SIZE)"
      "leaf_at m' (x' + FLOOR_SIZE) y' = leaf_at m' (?X + FLOOR_SIZE) ?Y" if "block x' = block ?X" "block y' = block ?Y" for x' y'
      using that leaf_at_block [OF assms(1), of x' ?X "y' + FLOOR_SIZE" "?Y + FLOOR_SIZE"]
        leaf_at_block [OF assms(1), of "x' + FLOOR_SIZE" "?X + FLOOR_SIZE" y' ?Y]
        block_step [of x' ?X] block_step [of y' ?Y]
      by (simp_all add: at')
    have linkS: "leafS (leaves m' l) = leaf_at m' x' (y' + FLOOR_SIZE)" if at: "leaf_at m' x' y' = Some l" for x' y' l
    proof (cases "block x' = block ?X \<and> block y' = block ?Y")
      case True
      then have "l = leaf" using at at' by simp
      then show ?thesis
        using True step(1) [of x' y'] behind(1) fresh_no new_links by (simp add: links)
    next
      case False
      then show ?thesis
        using old [OF at False] leaf_at_neighbour(1) [OF assms(1), of x' y' l ?X ?Y] ok(4) [of x' y' l] other behind(1)
        by (simp add: links) (simp add: at')
    qed
    have linkE: "leafE (leaves m' l) = leaf_at m' (x' + FLOOR_SIZE) y'" if at: "leaf_at m' x' y' = Some l" for x' y' l
    proof (cases "block x' = block ?X \<and> block y' = block ?Y")
      case True
      then have "l = leaf" using at at' by simp
      then show ?thesis
        using True step(2) [of x' y'] behind(2) fresh_no new_links by (simp add: links)
    next
      case False
      then show ?thesis
        using old [OF at False] leaf_at_neighbour(2) [OF assms(1), of x' y' l ?X ?Y] ok(5) [of x' y' l] other behind(2)
        by (simp add: links) (simp add: at')
    qed
    show ?thesis
    proof (rule map_okI)
      show "tree_ok 13 (root m')" "root m' \<noteq> QEmpty" by (simp_all add: root' made(1,2))
      show "l < next_leaf m'" if "leaf_at m' x' y' = Some l" for x' y' l
        using that ok(3) [of x' y' l] fresh next_n by (auto simp: at' split: if_splits)
      show "block x1 = block x2 \<and> block y1 = block y2" if "leaf_at m' x1 y1 = Some l" "leaf_at m' x2 y2 = Some l" for x1 y1 x2 y2 l
        using that ok(6) [of x1 y1 l x2 y2] fresh_no by (auto simp: at' split: if_splits)
    qed (fact linkS, fact linkE)
  qed
qed

subsection \<open>The map stores tiles\<close>

definition tile_in :: "'tile map_leaf \<Rightarrow> u8 \<Rightarrow> u16 \<times> u16 \<Rightarrow> 'tile option" where
  "tile_in l z off = Option.bind (array l z) (\<lambda>tiles. tiles off)"

lemma getTile_leaf_at:
  "map_ok m \<Longrightarrow> getTile x y z m =
     (if MAP_MAX_LAYERS \<le> z then None
      else Option.bind (leaf_at m (ucast x) (ucast y)) (\<lambda>l. tile_in (leaves m l) z (x AND FLOOR_MASK, y AND FLOOR_MASK)))"
  by (auto simp: getTile_def getLeafStatic_leaf_at tile_in_def split: option.splits)

definition store_tile :: "('tile \<Rightarrow> 'tile \<Rightarrow> 'tile) \<Rightarrow> u8 \<Rightarrow> u16 \<times> u16 \<Rightarrow> 'tile \<Rightarrow> 'tile map_leaf \<Rightarrow> 'tile map_leaf" where
  "store_tile merge z offset newTile l =
     (let l = createFloor z l;
          put = (\<lambda>tiles. tiles(offset := Some (case tiles offset of Some tile \<Rightarrow> merge tile newTile | None \<Rightarrow> newTile)))
      in l\<lparr>array := (array l)(z := map_option put (array l z))\<rparr>)"

lemma tile_in_store:
  "tile_in (store_tile merge z off t l) z' off' =
     (if z' = z \<and> off' = off then Some (case tile_in l z off of None \<Rightarrow> t | Some tile \<Rightarrow> merge tile t)
      else tile_in l z' off')"
  by (auto simp: store_tile_def createFloor_def tile_in_def Let_def split: option.splits)

lemma store_tile_sel [simp]:
  "leafS (store_tile merge z off t l) = leafS l" "leafE (store_tile merge z off t l) = leafE l"
  "creature_list (store_tile merge z off t l) = creature_list l" "player_list (store_tile merge z off t l) = player_list l"
  by (simp_all add: store_tile_def Let_def)

lemma setTile_store:
  assumes "z < MAP_MAX_LAYERS" and "ensure_leaf x y m = (leaf, m1)"
  shows "setTile merge x y z t m = set_leaf leaf (store_tile merge z (x AND FLOOR_MASK, y AND FLOOR_MASK) t) m1"
  using assms(1) by (simp add: setTile_ensure assms(2) store_tile_def [abs_def] Let_def not_less [symmetric])

lemma position_split:
  "x = x' \<longleftrightarrow> block (ucast x) = block (ucast x') \<and> x AND FLOOR_MASK = x' AND FLOOR_MASK" for x x' :: u16
proof -
  have narrow: "(ucast (ucast w :: u32) :: u16) = w" for w :: u16
    by (rule bit_word_eqI) (simp add: bit_ucast_iff)
  have mask: "FLOOR_MASK = mask 3" by (simp add: FLOOR_MASK_def FLOOR_BITS_def mask_eq_exp_minus_1)
  have "x = push_bit 3 (drop_bit 3 x) OR take_bit 3 x" for x :: u16
    by (rule bit_word_eqI) (auto simp: bit_or_iff bit_push_bit_iff bit_drop_bit_eq bit_take_bit_iff not_less)
  then show ?thesis unfolding block_def narrow mask take_bit_eq_mask [symmetric] by metis
qed

lemma setTile_ok: "map_ok m \<Longrightarrow> map_ok (setTile merge x y z t m)"
proof (cases "z < MAP_MAX_LAYERS")
  case True
  assume "map_ok m"
  then have "map_ok (snd (ensure_leaf x y m))" using ensure_leaf_ok by (metis surjective_pairing)
  then show ?thesis
    using setTile_store [OF True, of x y m "fst (ensure_leaf x y m)" "snd (ensure_leaf x y m)" merge t]
    by (simp add: set_leaf_ok)
qed (simp add: setTile_def not_less)

lemma getTile_setTile:
  assumes "map_ok m"
  shows "getTile x y z (setTile merge x' y' z' t m) =
     (if x = x' \<and> y = y' \<and> z = z' \<and> z < MAP_MAX_LAYERS
      then Some (case getTile x y z m of None \<Rightarrow> t | Some tile \<Rightarrow> merge tile t)
      else getTile x y z m)"
proof (cases "z' < MAP_MAX_LAYERS")
  case True
  obtain leaf m1 where run: "ensure_leaf x' y' m = (leaf, m1)" by fastforce
  note sel = ensure_leaf_sel [OF assms run]
  note set = setTile_store [OF True run, of merge t]
  note ok = setTile_ok [OF assms, of merge x' y' z' t, unfolded set]
  note tiles = getTile_leaf_at [OF ok] getTile_leaf_at [OF assms] sel(2) tile_in_store
  show ?thesis
  proof (cases "block (ucast x) = block (ucast x') \<and> block (ucast y) = block (ucast y')")
    case block: True
    then have here: "leaf_at m (ucast x) (ucast y) = leaf_at m (ucast x') (ucast y')"
      using leaf_at_block [OF assms] by blast
    have "x = x' \<and> y = y' \<longleftrightarrow> (x AND FLOOR_MASK, y AND FLOOR_MASK) = (x' AND FLOOR_MASK, y' AND FLOOR_MASK)"
      using block position_split [of x x'] position_split [of y y'] by simp
    moreover have "tile_in (leaves m1 leaf) z off =
        Option.bind (leaf_at m (ucast x') (ucast y')) (\<lambda>l. tile_in (leaves m l) z off)" for off
      using sel(1) sel(3) [of leaf] sel(4) [of leaf] by (auto simp: tile_in_def split: option.splits)
    ultimately show ?thesis
      using block True unfolding set by (auto simp: tiles here)
  next
    case False
    then have "x \<noteq> x' \<or> y \<noteq> y'" by auto
    moreover have "leaf_at m (ucast x) (ucast y) \<noteq> Some leaf"
    proof (cases "leaf_at m (ucast x') (ucast y')")
      case None
      then show ?thesis using sel(1) map_okD(3) [OF assms, of "ucast x" "ucast y" leaf] by auto
    next
      case (Some l)
      then show ?thesis using sel(1) map_okD(6) [OF assms, of "ucast x" "ucast y" l "ucast x'" "ucast y'"] False by auto
    qed
    moreover have "tile_in (leaves m1 l) z off = tile_in (leaves m l) z off" if "l \<noteq> leaf" for l off
      using that sel(4) [of l] by (simp add: tile_in_def)
    ultimately show ?thesis
      unfolding set by (cases "leaf_at m (ucast x) (ucast y)") (auto simp: tiles False)
  qed
qed (auto simp: setTile_def not_less)

lemma getTile_empty: "getTile x y z empty_map = None"
  by (simp add: getTile_leaf_at [OF empty_map_ok] empty_map_leaf)

subsection \<open>The map as a table\<close>

text \<open>
  What the rest of the server relies on: a store of values by key in which a value put on an occupied key is
  joined to the value there, and a value put on a key that is not valid is dropped.
\<close>

locale joining_store =
  fixes empty :: 'm
    and lookup :: "'m \<Rightarrow> 'k \<Rightarrow> 'v option"
    and store :: "'k \<Rightarrow> 'v \<Rightarrow> 'm \<Rightarrow> 'm"
    and inv :: "'m \<Rightarrow> bool"
    and valid :: "'k \<Rightarrow> bool"
    and join :: "'v \<Rightarrow> 'v \<Rightarrow> 'v"
  assumes inv_empty: "inv empty"
    and lookup_empty: "lookup empty k = None"
    and inv_store: "inv m \<Longrightarrow> inv (store k v m)"
    and lookup_store: "inv m \<Longrightarrow> lookup (store k v m) k' =
      (if k' = k \<and> valid k then Some (case lookup m k of None \<Rightarrow> v | Some w \<Rightarrow> join w v) else lookup m k')"
begin

definition table_store :: "'k \<Rightarrow> 'v \<Rightarrow> ('k \<rightharpoonup> 'v) \<Rightarrow> ('k \<rightharpoonup> 'v)" where
  "table_store k v f = (if valid k then f(k \<mapsto> (case f k of None \<Rightarrow> v | Some w \<Rightarrow> join w v)) else f)"

lemma store_refines: "inv m \<Longrightarrow> lookup (store k v m) = table_store k v (lookup m)"
  by (rule ext) (simp add: lookup_store table_store_def)

lemma run_inv: "inv m \<Longrightarrow> inv (fold (\<lambda>(k, v). store k v) ops m)"
  by (induction ops arbitrary: m) (auto simp: inv_store)

lemma run_refines:
  "inv m \<Longrightarrow> lookup (fold (\<lambda>(k, v). store k v) ops m) = fold (\<lambda>(k, v). table_store k v) ops (lookup m)"
  by (induction ops arbitrary: m) (auto simp: inv_store store_refines)

lemma empty_run_refines:
  "lookup (fold (\<lambda>(k, v). store k v) ops empty) = fold (\<lambda>(k, v). table_store k v) ops Map.empty"
  using run_refines [OF inv_empty, of ops] lookup_empty by presburger

end

definition map_lookup :: "'tile game_map \<Rightarrow> u16 \<times> u16 \<times> u8 \<Rightarrow> 'tile option" where
  "map_lookup m = (\<lambda>(x, y, z). getTile x y z m)"

definition map_store :: "('tile \<Rightarrow> 'tile \<Rightarrow> 'tile) \<Rightarrow> u16 \<times> u16 \<times> u8 \<Rightarrow> 'tile \<Rightarrow> 'tile game_map \<Rightarrow> 'tile game_map" where
  "map_store merge = (\<lambda>(x, y, z) t. setTile merge x y z t)"

interpretation tiles: joining_store empty_map map_lookup "map_store merge" map_ok "\<lambda>(_, _, z). z < MAP_MAX_LAYERS" merge
  for merge :: "'tile \<Rightarrow> 'tile \<Rightarrow> 'tile"
proof
  show "map_ok (empty_map :: 'tile game_map)" by (rule empty_map_ok)
  show "map_lookup empty_map k = None" for k :: "u16 \<times> u16 \<times> u8" by (cases k) (simp add: map_lookup_def getTile_empty)
  show "map_ok m \<Longrightarrow> map_ok (map_store merge k v m)" for k v m
    by (cases k) (simp add: map_store_def setTile_ok)
  show "map_lookup (map_store merge k v m) k' =
      (if k' = k \<and> (case k of (_, _, z) \<Rightarrow> z < MAP_MAX_LAYERS)
       then Some (case map_lookup m k of None \<Rightarrow> v | Some w \<Rightarrow> merge w v) else map_lookup m k')"
    if "map_ok m" for k v m k'
    by (cases k; cases k') (auto simp: map_lookup_def map_store_def getTile_setTile [OF that])
qed

text \<open>
  C31: the quadtree of leaves and floors implements a table from coordinates to tiles.  After any sequence of
  \<open>setTile\<close> calls on a new map, \<open>getTile\<close> answers at every coordinate what a table answers that ignores
  layers from 16 on and joins a tile set twice to the one already there.
\<close>
theorem map_refines_table:
  fixes merge :: "'tile \<Rightarrow> 'tile \<Rightarrow> 'tile"
  shows "(\<lambda>(x, y, z). getTile x y z (fold (\<lambda>((x, y, z), t). setTile merge x y z t) ops empty_map)) =
    fold (\<lambda>((x, y, z), t) table. if z < 16
            then table((x, y, z) \<mapsto> (case table (x, y, z) of None \<Rightarrow> t | Some tile \<Rightarrow> merge tile t)) else table)
      ops Map.empty"
proof -
  have "(\<lambda>(k, v). map_store merge k v) = (\<lambda>((x, y, z), t). setTile merge x y z t)"
    by (auto simp: map_store_def fun_eq_iff)
  moreover have "(\<lambda>(k, v). tiles.table_store merge k v) = (\<lambda>((x, y, z), t) table. if z < 16
            then table((x, y, z) \<mapsto> (case table (x, y, z) of None \<Rightarrow> t | Some tile \<Rightarrow> merge tile t)) else table)"
    by (auto simp: tiles.table_store_def fun_eq_iff) (simp_all add: MAP_MAX_LAYERS_def)
  ultimately show ?thesis using tiles.empty_run_refines [of merge ops] by (simp add: map_lookup_def)
qed

end
