(* ===== verification/Map_Spectators.thy ===== *)
theory Map_Spectators
  imports Map_Tree
begin

text \<open>
  Who sees a position (map.cpp: \<open>Map::getSpectators\<close>, \<open>getSpectatorsInternal\<close>, the leaf lists of creatures in
  \<open>placeCreature\<close> and \<open>moveCreature\<close>; tile.cpp: \<open>removeCreature\<close> and the calls that clear the caches; spectators.h).
  The scan along the links of the leaves is shown equal to a walk over a grid of blocks, the lists of the leaves
  to hold each creature of their block once, and the caches to hold what a scan would find.
\<close>

subsection \<open>Who sees a position\<close>

definition clamp16 :: "int \<Rightarrow> int" where
  "clamp16 v = min 0xFFFF (max 0 v)"

text \<open>
  The creatures a search looks for: on a layer between \<open>minRangeZ\<close> and \<open>maxRangeZ\<close>, and inside the rectangle
  shifted by one tile for every layer.  The bounds \<open>(minx, maxx, miny, maxy)\<close> are absolute.
\<close>

definition in_view :: "Position \<Rightarrow> int \<times> int \<times> int \<times> int \<Rightarrow> int \<Rightarrow> int \<Rightarrow> Position \<Rightarrow> bool" where
  "in_view centerPos bounds minRangeZ maxRangeZ cpos \<longleftrightarrow>
     (case bounds of (minx, maxx, miny, maxy) \<Rightarrow>
        if minRangeZ > getZ cpos \<or> maxRangeZ < getZ cpos then False
        else let offsetZ = getOffsetZ centerPos cpos
             in \<not> (miny + offsetZ > getY cpos \<or> maxy + offsetZ < getY cpos \<or>
                    minx + offsetZ > getX cpos \<or> maxx + offsetZ < getX cpos))"

text \<open>The inner loop: along a row of leaves, by the links to the east where there is a leaf.\<close>

function spectators_row ::
  "'tile game_map \<Rightarrow> (nat \<Rightarrow> bool) \<Rightarrow> bool \<Rightarrow> int \<Rightarrow> int \<Rightarrow> int \<Rightarrow> nat option \<Rightarrow> nat list" where
  "spectators_row m seen onlyPlayers ny endx nx leaf =
     (if nx \<le> endx then
        (case leaf of
           Some l \<Rightarrow>
             filter seen (if onlyPlayers then player_list (leaves m l) else creature_list (leaves m l)) @
             spectators_row m seen onlyPlayers ny endx (nx + 8) (leafE (leaves m l))
         | None \<Rightarrow>
             spectators_row m seen onlyPlayers ny endx (nx + 8)
               (getLeafStatic (root m) (word_of_int nx + FLOOR_SIZE) (word_of_int ny)))
      else [])"
  by pat_completeness auto
termination
  by (relation "measure (\<lambda>(m, seen, players, ny, endx, nx, leaf). nat (endx + 1 - nx))") auto

function spectators_rows ::
  "'tile game_map \<Rightarrow> (nat \<Rightarrow> bool) \<Rightarrow> bool \<Rightarrow> int \<Rightarrow> int \<Rightarrow> int \<Rightarrow> int \<Rightarrow> nat option \<Rightarrow> nat list" where
  "spectators_rows m seen onlyPlayers startx endx endy ny leaf =
     (if ny \<le> endy then
        spectators_row m seen onlyPlayers ny endx startx leaf @
        spectators_rows m seen onlyPlayers startx endx endy (ny + 8)
          (case leaf of
             Some l \<Rightarrow> leafS (leaves m l)
           | None \<Rightarrow> getLeafStatic (root m) (word_of_int startx) (word_of_int ny + FLOOR_SIZE))
      else [])"
  by pat_completeness auto
termination
  by (relation "measure (\<lambda>(m, seen, players, startx, endx, endy, ny, leaf). nat (endy + 1 - ny))") auto

declare spectators_row.simps [simp del] spectators_rows.simps [simp del]

definition getSpectatorsInternal ::
  "'tile game_map \<Rightarrow> (nat \<Rightarrow> Position) \<Rightarrow> Position \<Rightarrow> int \<Rightarrow> int \<Rightarrow> int \<Rightarrow> int \<Rightarrow> int \<Rightarrow> int \<Rightarrow> bool \<Rightarrow> nat list" where
  "getSpectatorsInternal m pos centerPos minRangeX maxRangeX minRangeY maxRangeY minRangeZ maxRangeZ onlyPlayers =
     (let miny = getY centerPos + minRangeY;
          minx = getX centerPos + minRangeX;
          maxy = getY centerPos + maxRangeY;
          maxx = getX centerPos + maxRangeX;
          minoffset = getZ centerPos - maxRangeZ;
          x1 = clamp16 (minx + minoffset);
          y1 = clamp16 (miny + minoffset);
          maxoffset = getZ centerPos - minRangeZ;
          x2 = clamp16 (maxx + maxoffset);
          y2 = clamp16 (maxy + maxoffset);
          startx1 = x1 - x1 mod 8;
          starty1 = y1 - y1 mod 8;
          endx2 = x2 - x2 mod 8;
          endy2 = y2 - y2 mod 8;
          startLeaf = getLeafStatic (root m) (word_of_int startx1) (word_of_int starty1);
          seen = (\<lambda>c. in_view centerPos (minx, maxx, miny, maxy) minRangeZ maxRangeZ (pos c))
      in spectators_rows m seen onlyPlayers startx1 endx2 endy2 starty1 startLeaf)"

text \<open>The reference: the lists of the blocks of a rectangle, one after the other.\<close>

definition leaf_list :: "'tile game_map \<Rightarrow> bool \<Rightarrow> int \<Rightarrow> int \<Rightarrow> nat list" where
  "leaf_list m onlyPlayers x y =
     (case leaf_at m (word_of_int x) (word_of_int y) of
        None \<Rightarrow> []
      | Some l \<Rightarrow> if onlyPlayers then player_list (leaves m l) else creature_list (leaves m l))"

function steps8 :: "int \<Rightarrow> int \<Rightarrow> int list" where
  "steps8 a b = (if a \<le> b then a # steps8 (a + 8) b else [])"
  by pat_completeness auto
termination
  by (relation "measure (\<lambda>(a, b). nat (b + 1 - a))") auto

declare steps8.simps [simp del]

lemma word_step8: "word_of_int (n + 8) = (word_of_int n + FLOOR_SIZE :: u32)"
  by (simp add: FLOOR_SIZE_8)

lemma spectators_row_reference:
  assumes "map_ok m" and "leaf = leaf_at m (word_of_int nx) (word_of_int ny)"
  shows "spectators_row m seen players ny endx nx leaf =
    concat (map (\<lambda>x. filter seen (leaf_list m players x ny)) (steps8 nx endx))"
  using assms(2)
proof (induction nx endx arbitrary: leaf rule: steps8.induct)
  case (1 nx endx)
  let ?next = "leaf_at m (word_of_int (nx + 8)) (word_of_int ny)"
  have "spectators_row m seen players ny endx nx leaf =
      filter seen (leaf_list m players nx ny) @ spectators_row m seen players ny endx (nx + 8) ?next" if "nx \<le> endx"
  proof (cases leaf)
    case None
    then show ?thesis
      using that 1(2) getLeafStatic_leaf_at [OF assms(1)]
      by (subst spectators_row.simps) (simp add: leaf_list_def word_step8 [symmetric])
  next
    case (Some l)
    then have "leafE (leaves m l) = ?next"
      using map_okD(5) [OF assms(1), of "word_of_int nx" "word_of_int ny" l] 1(2) by (simp add: FLOOR_SIZE_8)
    then show ?thesis
      using that 1(2) [symmetric] Some by (subst spectators_row.simps) (simp add: leaf_list_def)
  qed
  moreover have "spectators_row m seen players ny endx nx leaf = []" if "\<not> nx \<le> endx"
    using that by (subst spectators_row.simps) simp
  ultimately show ?case
    using 1(1) [of ?next] by (subst steps8.simps) auto
qed

lemma spectators_rows_reference:
  assumes "map_ok m" and "leaf = leaf_at m (word_of_int startx) (word_of_int ny)"
  shows "spectators_rows m seen players startx endx endy ny leaf =
    concat (map (\<lambda>y. concat (map (\<lambda>x. filter seen (leaf_list m players x y)) (steps8 startx endx))) (steps8 ny endy))"
  using assms(2)
proof (induction ny endy arbitrary: leaf rule: steps8.induct)
  case (1 ny endy)
  let ?next = "leaf_at m (word_of_int startx) (word_of_int (ny + 8))"
  have "(case leaf of Some l \<Rightarrow> leafS (leaves m l)
         | None \<Rightarrow> getLeafStatic (root m) (word_of_int startx) (word_of_int ny + FLOOR_SIZE)) = ?next"
  proof (cases leaf)
    case None
    then show ?thesis using getLeafStatic_leaf_at [OF assms(1)] by (simp add: word_step8 [symmetric])
  next
    case (Some l)
    then show ?thesis
      using map_okD(4) [OF assms(1), of "word_of_int startx" "word_of_int ny" l] 1(2) by (simp add: FLOOR_SIZE_8)
  qed
  then have "spectators_rows m seen players startx endx endy ny leaf =
      spectators_row m seen players ny endx startx leaf @ spectators_rows m seen players startx endx endy (ny + 8) ?next"
    if "ny \<le> endy"
    using that by (subst spectators_rows.simps) simp
  moreover have "spectators_rows m seen players startx endx endy ny leaf = []" if "\<not> ny \<le> endy"
    using that by (subst spectators_rows.simps) simp
  ultimately show ?case
    using 1(1) [of ?next] spectators_row_reference [OF assms(1) 1(2), of seen players endx]
    by (subst (2) steps8.simps) auto
qed

lemma steps8_set: "set (steps8 a b) = {n. a \<le> n \<and> n \<le> b \<and> 8 dvd n - a}"
proof (induction a b rule: steps8.induct)
  case (1 a b)
  show ?case
  proof (cases "a \<le> b")
    case True
    have "n = a \<or> a + 8 \<le> n \<and> 8 dvd n - (a + 8) \<longleftrightarrow> a \<le> n \<and> 8 dvd n - a" for n
      by presburger
    then show ?thesis using 1 True by (subst steps8.simps) auto
  qed (subst steps8.simps, simp)
qed

lemma steps8_distinct: "distinct (steps8 a b)"
proof (induction a b rule: steps8.induct)
  case (1 a b)
  then show ?case by (subst steps8.simps) (auto simp: steps8_set)
qed

subsection \<open>The creatures on the map\<close>

definition leaf_of :: "'tile game_map \<Rightarrow> Position \<Rightarrow> nat option" where
  "leaf_of m p = leaf_at m (ucast (pos_x p)) (ucast (pos_y p))"

text \<open>
  The lists of every leaf hold exactly the creatures in its block, once each; \<open>here\<close> are the creatures on the map.
\<close>

definition creatures_ok ::
  "(nat \<Rightarrow> bool) \<Rightarrow> nat set \<Rightarrow> (nat \<Rightarrow> Position) \<Rightarrow> 'tile game_map \<Rightarrow> bool" where
  "creatures_ok isPlayer here pos m \<longleftrightarrow>
     (\<forall>c \<in> here. leaf_of m (pos c) \<noteq> None) \<and>
     (\<forall>x y l. leaf_at m x y = Some l \<longrightarrow>
        distinct (creature_list (leaves m l)) \<and> set (creature_list (leaves m l)) = {c \<in> here. leaf_of m (pos c) = Some l} \<and>
        distinct (player_list (leaves m l)) \<and>
        set (player_list (leaves m l)) = {c \<in> here. isPlayer c \<and> leaf_of m (pos c) = Some l})"

lemma leaf_list_ok:
  assumes "creatures_ok isPlayer here pos m"
  shows "distinct (leaf_list m players x y)"
    "set (leaf_list m players x y) = {c \<in> here. (players \<longrightarrow> isPlayer c) \<and>
       leaf_at m (word_of_int x) (word_of_int y) = leaf_of m (pos c)}"
proof -
  have none: "leaf_of m (pos c) \<noteq> None" if "c \<in> here" for c
    using that assms by (simp add: creatures_ok_def)
  have lists: "distinct (creature_list (leaves m l)) \<and> set (creature_list (leaves m l)) = {c \<in> here. leaf_of m (pos c) = Some l} \<and>
        distinct (player_list (leaves m l)) \<and>
        set (player_list (leaves m l)) = {c \<in> here. isPlayer c \<and> leaf_of m (pos c) = Some l}"
    if "leaf_at m (word_of_int x) (word_of_int y) = Some l" for l
    using that assms unfolding creatures_ok_def by blast
  have "distinct (leaf_list m players x y) \<and> set (leaf_list m players x y) = {c \<in> here. (players \<longrightarrow> isPlayer c) \<and>
       leaf_at m (word_of_int x) (word_of_int y) = leaf_of m (pos c)}"
  proof (cases "leaf_at m (word_of_int x) (word_of_int y)")
    case None
    then show ?thesis using none by (auto simp: leaf_list_def eq_commute [of None])
  next
    case (Some l)
    then show ?thesis using lists [OF Some] by (simp add: leaf_list_def eq_commute [of "Some l"])
  qed
  then show "distinct (leaf_list m players x y)" and "set (leaf_list m players x y) = {c \<in> here.
      (players \<longrightarrow> isPlayer c) \<and> leaf_at m (word_of_int x) (word_of_int y) = leaf_of m (pos c)}"
    by (fact conjunct1, fact conjunct2)
qed

text \<open>Blocks of the grid that a search visits are blocks of the map, each visited once.\<close>

lemma unat_word_of_int_u32: "0 \<le> n \<Longrightarrow> n \<le> 65535 \<Longrightarrow> unat (word_of_int n :: u32) = nat n"
  by (simp add: unat_eq_nat_uint uint_word_of_int_eq take_bit_int_eq_self)

lemma block_of_int: "0 \<le> n \<Longrightarrow> n \<le> 65535 \<Longrightarrow> unat (block (word_of_int n)) = nat n div 8"
  by (simp add: unat_block unat_word_of_int_u32)

lemma block_of_u16: "unat (block (ucast (x :: u16))) = unat x div 8"
  using unat_u16_less [of x] by (simp add: unat_block unat_ucast_widen)

lemma leaf_at_grid:
  assumes "map_ok m" and "leaf_of m p = Some l"
    and "0 \<le> x" "x \<le> 65535" "0 \<le> y" "y \<le> 65535" "8 dvd x" "8 dvd y"
  shows "leaf_at m (word_of_int x) (word_of_int y) = leaf_of m p \<longleftrightarrow>
     x = getX p - getX p mod 8 \<and> y = getY p - getY p mod 8"
proof -
  have same: "block (word_of_int n) = block (ucast w) \<longleftrightarrow> n = uint w - uint w mod 8"
    if "0 \<le> n" "n \<le> 65535" "8 dvd n" for n and w :: u16
  proof -
    have "block (word_of_int n) = block (ucast w) \<longleftrightarrow> nat n div 8 = unat w div 8"
      by (simp add: word_unat_eq_iff block_of_int that block_of_u16)
    also have "\<dots> \<longleftrightarrow> n div 8 = uint w div 8"
    proof -
      have "nat n div 8 = nat (n div 8)" "unat w div 8 = nat (uint w div 8)"
        using that(1) unat_eq_nat_uint [of w] by (simp_all add: nat_div_distrib del: nat_uint_eq)
      moreover have "0 \<le> n div 8" "0 \<le> uint w div 8" using that(1) by (simp_all add: pos_imp_zdiv_nonneg_iff)
      ultimately show ?thesis by (simp only: eq_nat_nat_iff)
    qed
    also have "\<dots> \<longleftrightarrow> n = uint w - uint w mod 8" using that(3) by (auto simp: minus_mod_eq_mult_div)
    finally show ?thesis .
  qed
  have "leaf_at m (word_of_int x) (word_of_int y) = leaf_of m p \<longleftrightarrow>
      block (word_of_int x) = block (ucast (pos_x p)) \<and> block (word_of_int y) = block (ucast (pos_y p))"
  proof
    assume "leaf_at m (word_of_int x) (word_of_int y) = leaf_of m p"
    then show "block (word_of_int x) = block (ucast (pos_x p)) \<and> block (word_of_int y) = block (ucast (pos_y p))"
      using assms(2) by (intro map_okD(6) [OF assms(1), of _ _ l]) (simp_all add: leaf_of_def)
  next
    assume "block (word_of_int x) = block (ucast (pos_x p)) \<and> block (word_of_int y) = block (ucast (pos_y p))"
    then show "leaf_at m (word_of_int x) (word_of_int y) = leaf_of m p"
      unfolding leaf_of_def by (intro leaf_at_block [OF assms(1)]) simp_all
  qed
  then show ?thesis using same assms(3-8) by (simp add: getX_def getY_def)
qed

text \<open>What a search must find.\<close>

definition viewers ::
  "(nat \<Rightarrow> bool) \<Rightarrow> nat set \<Rightarrow> (nat \<Rightarrow> Position) \<Rightarrow> Position \<Rightarrow> int \<Rightarrow> int \<Rightarrow> int \<Rightarrow> int \<Rightarrow> int \<Rightarrow> int \<Rightarrow> bool \<Rightarrow> nat set" where
  "viewers isPlayer here pos p minRangeX maxRangeX minRangeY maxRangeY minRangeZ maxRangeZ onlyPlayers =
     {c \<in> here. (onlyPlayers \<longrightarrow> isPlayer c) \<and> minRangeZ \<le> getZ (pos c) \<and> getZ (pos c) \<le> maxRangeZ \<and>
        (let shift = getZ p - getZ (pos c)
         in getX p + minRangeX + shift \<le> getX (pos c) \<and> getX (pos c) \<le> getX p + maxRangeX + shift \<and>
            getY p + minRangeY + shift \<le> getY (pos c) \<and> getY (pos c) \<le> getY p + maxRangeY + shift)}"

lemma clamp16_bounds: "0 \<le> clamp16 v" "clamp16 v \<le> 65535"
  by (simp_all add: clamp16_def)

lemma clamp16_lower: "v \<le> n \<Longrightarrow> 0 \<le> n \<Longrightarrow> clamp16 v \<le> n"
  by (simp add: clamp16_def)

lemma clamp16_upper: "n \<le> v \<Longrightarrow> n \<le> 65535 \<Longrightarrow> n \<le> clamp16 v"
  by (simp add: clamp16_def)

lemma getX_bounds: "0 \<le> getX p" "getX p \<le> 65535" "0 \<le> getY p" "getY p \<le> 65535"
  using uint_lt2p [of "pos_x p"] uint_lt2p [of "pos_y p"] by (simp_all add: getX_def getY_def)

lemma grid_mono: "(a :: int) \<le> b \<Longrightarrow> a - a mod 8 \<le> b - b mod 8"
  by presburger

lemma grid_bounds: "0 \<le> a \<Longrightarrow> 0 \<le> a - a mod (8 :: int)" "a - a mod 8 \<le> (a :: int)"
  by presburger+

lemma grid_dvd: "8 dvd (a - a mod 8) - (b - b mod (8 :: int))" "8 dvd a - a mod (8 :: int)"
  by presburger+

lemma distinct_concat_map:
  "distinct xs \<Longrightarrow> (\<And>x. x \<in> set xs \<Longrightarrow> distinct (f x)) \<Longrightarrow>
   (\<And>x y. x \<in> set xs \<Longrightarrow> y \<in> set xs \<Longrightarrow> x \<noteq> y \<Longrightarrow> set (f x) \<inter> set (f y) = {}) \<Longrightarrow> distinct (concat (map f xs))"
  by (induction xs) (simp_all, blast)

lemma grid_list_exact:
  fixes players :: bool
  assumes "map_ok m" and "creatures_ok isPlayer here pos m"
    and "0 \<le> x1" "x2 \<le> 65535" "0 \<le> y1" "y2 \<le> 65535" "8 dvd x1" "8 dvd y1"
    and "\<And>c. c \<in> here \<Longrightarrow> seen c \<Longrightarrow> x1 \<le> getX (pos c) - getX (pos c) mod 8 \<and> getX (pos c) - getX (pos c) mod 8 \<le> x2 \<and>
           y1 \<le> getY (pos c) - getY (pos c) mod 8 \<and> getY (pos c) - getY (pos c) mod 8 \<le> y2"
  defines "found \<equiv> concat (map (\<lambda>y. concat (map (\<lambda>x. filter seen (leaf_list m players x y)) (steps8 x1 x2))) (steps8 y1 y2))"
  shows "distinct found \<and> set found = {c \<in> here. (players \<longrightarrow> isPlayer c) \<and> seen c}"
proof -
  have grid: "c \<in> set (leaf_list m players x y) \<longleftrightarrow> c \<in> here \<and> (players \<longrightarrow> isPlayer c) \<and>
      x = getX (pos c) - getX (pos c) mod 8 \<and> y = getY (pos c) - getY (pos c) mod 8"
    if "x \<in> set (steps8 x1 x2)" "y \<in> set (steps8 y1 y2)" for x y c
  proof (cases "c \<in> here")
    case True
    then obtain l where "leaf_of m (pos c) = Some l" using assms(2) by (auto simp: creatures_ok_def)
    moreover have "0 \<le> x" "x \<le> 65535" "0 \<le> y" "y \<le> 65535" "8 dvd x" "8 dvd y"
      using that assms(3-8) dvd_add [of 8 "x - x1" x1] dvd_add [of 8 "y - y1" y1] by (auto simp: steps8_set)
    ultimately show ?thesis
      using leaf_at_grid [OF assms(1)] True by (simp add: leaf_list_ok(2) [OF assms(2)])
  qed (simp add: leaf_list_ok(2) [OF assms(2)])
  have row: "distinct (concat (map (\<lambda>x. filter seen (leaf_list m players x y)) (steps8 x1 x2)))"
    if "y \<in> set (steps8 y1 y2)" for y
    using grid [OF _ that]
    by (intro distinct_concat_map steps8_distinct) (auto intro: distinct_filter leaf_list_ok(1) [OF assms(2)])
  have "distinct found"
    unfolding found_def using grid by (intro distinct_concat_map steps8_distinct row) auto
  moreover have "c \<in> set found \<longleftrightarrow> c \<in> here \<and> (players \<longrightarrow> isPlayer c) \<and> seen c" for c
  proof
    assume "c \<in> set found"
    then show "c \<in> here \<and> (players \<longrightarrow> isPlayer c) \<and> seen c" unfolding found_def using grid by auto
  next
    assume c: "c \<in> here \<and> (players \<longrightarrow> isPlayer c) \<and> seen c"
    let ?x = "getX (pos c) - getX (pos c) mod 8" and ?y = "getY (pos c) - getY (pos c) mod 8"
    have "?x \<in> set (steps8 x1 x2)" "?y \<in> set (steps8 y1 y2)"
      using c assms(7,8,9) grid_dvd(2) dvd_diff by (auto simp: steps8_set)
    then show "c \<in> set found" unfolding found_def using grid [of ?x ?y c] c by auto
  qed
  ultimately show ?thesis by blast
qed

lemma getSpectatorsInternal_exact:
  assumes "map_ok m" and "creatures_ok isPlayer here pos m"
    and found_def: "found = getSpectatorsInternal m pos p minRangeX maxRangeX minRangeY maxRangeY minRangeZ maxRangeZ players"
  shows "distinct found \<and>
    set found = viewers isPlayer here pos p minRangeX maxRangeX minRangeY maxRangeY minRangeZ maxRangeZ players"
proof -
  define seen where "seen = (\<lambda>c. in_view p (getX p + minRangeX, getX p + maxRangeX, getY p + minRangeY, getY p + maxRangeY)
    minRangeZ maxRangeZ (pos c))"
  define x1 where "x1 = clamp16 (getX p + minRangeX + (getZ p - maxRangeZ))"
  define y1 where "y1 = clamp16 (getY p + minRangeY + (getZ p - maxRangeZ))"
  define x2 where "x2 = clamp16 (getX p + maxRangeX + (getZ p - minRangeZ))"
  define y2 where "y2 = clamp16 (getY p + maxRangeY + (getZ p - minRangeZ))"
  have seen: "seen c \<longleftrightarrow> minRangeZ \<le> getZ (pos c) \<and> getZ (pos c) \<le> maxRangeZ \<and>
        (let shift = getZ p - getZ (pos c)
         in getX p + minRangeX + shift \<le> getX (pos c) \<and> getX (pos c) \<le> getX p + maxRangeX + shift \<and>
            getY p + minRangeY + shift \<le> getY (pos c) \<and> getY (pos c) \<le> getY p + maxRangeY + shift)" for c
    by (auto simp: seen_def in_view_def getOffsetZ_def Let_def)
  have box: "x1 \<le> getX (pos c) \<and> getX (pos c) \<le> x2 \<and> y1 \<le> getY (pos c) \<and> getY (pos c) \<le> y2" if "seen c" for c
    using that getX_bounds [of "pos c"] unfolding seen Let_def x1_def x2_def y1_def y2_def
    by (intro conjI clamp16_lower clamp16_upper) auto
  have bounds: "0 \<le> x1 - x1 mod 8" "x2 - x2 mod 8 \<le> 65535" "0 \<le> y1 - y1 mod 8" "y2 - y2 mod 8 \<le> 65535"
    using clamp16_bounds grid_bounds(1) order_trans [OF grid_bounds(2)] unfolding x1_def x2_def y1_def y2_def by blast+
  have "found = concat (map (\<lambda>y. concat (map (\<lambda>x. filter seen (leaf_list m players x y))
      (steps8 (x1 - x1 mod 8) (x2 - x2 mod 8)))) (steps8 (y1 - y1 mod 8) (y2 - y2 mod 8)))"
    using getLeafStatic_leaf_at [OF assms(1)]
    unfolding found_def getSpectatorsInternal_def Let_def x1_def [symmetric] x2_def [symmetric] y1_def [symmetric]
      y2_def [symmetric] seen_def [symmetric]
    by (intro spectators_rows_reference [OF assms(1)]) simp
  moreover have "distinct \<dots> \<and> set \<dots> = {c \<in> here. (players \<longrightarrow> isPlayer c) \<and> seen c}"
    using box bounds by (intro grid_list_exact [OF assms(1,2)]) (auto intro: grid_mono grid_dvd)
  ultimately show ?thesis by (simp add: viewers_def seen)
qed

subsection \<open>Creatures come, move and go\<close>

lemma swap_remove_correct:
  assumes "distinct cs" and "c \<in> set cs"
  shows "\<exists>ds. swap_remove c cs = Some ds \<and> distinct ds \<and> set ds = set cs - {c}"
proof -
  have index: "index_of c cs < length cs \<and> cs ! index_of c cs = c"
    using assms(2) by (induction cs) auto
  obtain bs d where cs: "cs = bs @ [d]" using assms(2) by (metis append_butlast_last_id empty_iff empty_set)
  have last: "last cs = d" by (simp add: cs)
  show ?thesis
  proof (cases "index_of c cs = length bs")
    case True
    then have "c = d" using index by (simp add: cs)
    then have "cs[index_of c cs := last cs] = cs" using index last by (metis list_update_id)
    then show ?thesis using assms \<open>c = d\<close> by (simp add: swap_remove_def cs)
  next
    case False
    then have i: "index_of c cs < length bs" and ci: "bs ! index_of c cs = c"
      using index by (auto simp: cs nth_append split: if_splits)
    then obtain us vs where bs: "bs = us @ c # vs" and us: "length us = index_of c cs"
      using id_take_nth_drop [OF i] by (metis length_take min.absorb4)
    have "butlast (cs[index_of c cs := last cs]) = us @ d # vs"
      unfolding us [symmetric] last by (simp add: cs bs butlast_append)
    then show ?thesis using assms by (auto simp: swap_remove_def cs bs)
  qed
qed

definition addToLeaf :: "(nat \<Rightarrow> bool) \<Rightarrow> nat \<Rightarrow> Position \<Rightarrow> 'tile game_map \<Rightarrow> 'tile game_map option" where
  "addToLeaf isPlayer c p m =
     map_option (\<lambda>l. set_leaf l (leaf_addCreature isPlayer c) m) (getQTNode (pos_x p) (pos_y p) m)"

definition removeFromLeaf :: "(nat \<Rightarrow> bool) \<Rightarrow> nat \<Rightarrow> Position \<Rightarrow> 'tile game_map \<Rightarrow> 'tile game_map option" where
  "removeFromLeaf isPlayer c p m =
     Option.bind (getQTNode (pos_x p) (pos_y p) m)
       (\<lambda>l. map_option (\<lambda>leaf. set_leaf l (\<lambda>_. leaf) m) (leaf_removeCreature isPlayer c (leaves m l)))"

lemma getQTNode_leaf_of: "map_ok m \<Longrightarrow> getQTNode (pos_x p) (pos_y p) m = leaf_of m p"
  by (simp add: getQTNode_def leaf_of_def getLeafStatic_leaf_at)

lemma leaf_of_set_leaf [simp]: "leaf_of (set_leaf l f m) p = leaf_of m p"
  by (simp add: leaf_of_def)

lemma creatures_okD:
  assumes "creatures_ok isPlayer here pos m"
  shows "c \<in> here \<Longrightarrow> leaf_of m (pos c) \<noteq> None"
    "leaf_at m x y = Some l \<Longrightarrow> distinct (creature_list (leaves m l))"
    "leaf_at m x y = Some l \<Longrightarrow> set (creature_list (leaves m l)) = {c \<in> here. leaf_of m (pos c) = Some l}"
    "leaf_at m x y = Some l \<Longrightarrow> distinct (player_list (leaves m l))"
    "leaf_at m x y = Some l \<Longrightarrow> set (player_list (leaves m l)) = {c \<in> here. isPlayer c \<and> leaf_of m (pos c) = Some l}"
  using assms unfolding creatures_ok_def by blast+

lemma creatures_okI:
  assumes "\<And>c. c \<in> here \<Longrightarrow> leaf_of m (pos c) \<noteq> None"
    "\<And>x y l. leaf_at m x y = Some l \<Longrightarrow> distinct (creature_list (leaves m l)) \<and> distinct (player_list (leaves m l))"
    "\<And>x y l. leaf_at m x y = Some l \<Longrightarrow> set (creature_list (leaves m l)) = {c \<in> here. leaf_of m (pos c) = Some l}"
    "\<And>x y l. leaf_at m x y = Some l \<Longrightarrow>
       set (player_list (leaves m l)) = {c \<in> here. isPlayer c \<and> leaf_of m (pos c) = Some l}"
  shows "creatures_ok isPlayer here pos m"
  unfolding creatures_ok_def using assms by blast

lemma leaf_addCreature_sel [simp]:
  "leafS (leaf_addCreature isPlayer c l) = leafS l" "leafE (leaf_addCreature isPlayer c l) = leafE l"
  "creature_list (leaf_addCreature isPlayer c l) = creature_list l @ [c]"
  "player_list (leaf_addCreature isPlayer c l) = (if isPlayer c then player_list l @ [c] else player_list l)"
  by (simp_all add: leaf_addCreature_def Let_def)

lemma add_creature_ok:
  assumes "map_ok m" and "creatures_ok isPlayer here pos m" and "c \<notin> here" and "leaf_of m p \<noteq> None"
  shows "\<exists>m'. addToLeaf isPlayer c p m = Some m' \<and> map_ok m' \<and> creatures_ok isPlayer (insert c here) (pos(c := p)) m'"
proof -
  obtain l where l: "leaf_of m p = Some l" using assms(4) by auto
  let ?m = "set_leaf l (leaf_addCreature isPlayer c) m"
  note ok = creatures_okD [OF assms(2)]
  have "map_ok ?m" by (rule set_leaf_ok [OF assms(1)]) simp_all
  moreover have "creatures_ok isPlayer (insert c here) (pos(c := p)) ?m"
  proof (rule creatures_okI)
    show "leaf_of ?m ((pos(c := p)) c') \<noteq> None" if "c' \<in> insert c here" for c'
      using that ok(1) [of c'] l by auto
    fix x y l' assume at: "leaf_at ?m x y = Some l'"
    then have at': "leaf_at m x y = Some l'" by simp
    show "distinct (creature_list (leaves ?m l')) \<and> distinct (player_list (leaves ?m l'))"
      using ok(2-5) [OF at'] assms(3) by auto
    show "set (creature_list (leaves ?m l')) = {c' \<in> insert c here. leaf_of ?m ((pos(c := p)) c') = Some l'}"
      using ok(3) [OF at'] assms(3) l by auto
    show "set (player_list (leaves ?m l')) =
        {c' \<in> insert c here. isPlayer c' \<and> leaf_of ?m ((pos(c := p)) c') = Some l'}"
      using ok(5) [OF at'] assms(3) l by auto
  qed
  ultimately show ?thesis by (simp add: addToLeaf_def getQTNode_leaf_of [OF assms(1)] l)
qed

lemma remove_creature_ok:
  assumes "map_ok m" and "creatures_ok isPlayer here pos m" and "c \<in> here"
  shows "\<exists>m'. removeFromLeaf isPlayer c (pos c) m = Some m' \<and> map_ok m' \<and>
    creatures_ok isPlayer (here - {c}) pos m' \<and> (\<forall>p. leaf_of m' p = leaf_of m p)"
proof -
  note ok = creatures_okD [OF assms(2)]
  obtain l where l: "leaf_of m (pos c) = Some l" using ok(1) [OF assms(3)] by auto
  then have at: "leaf_at m (ucast (pos_x (pos c))) (ucast (pos_y (pos c))) = Some l" by (simp add: leaf_of_def)
  have here: "c \<in> set (creature_list (leaves m l))" "isPlayer c \<Longrightarrow> c \<in> set (player_list (leaves m l))"
    using ok(3,5) [OF at] assms(3) l by auto
  obtain cs where cs: "swap_remove c (creature_list (leaves m l)) = Some cs" "distinct cs"
    "set cs = set (creature_list (leaves m l)) - {c}"
    using swap_remove_correct [OF ok(2) [OF at] here(1)] by blast
  obtain ps where ps: "isPlayer c \<Longrightarrow> swap_remove c (player_list (leaves m l)) = Some ps"
    "\<not> isPlayer c \<Longrightarrow> ps = player_list (leaves m l)" "distinct ps" "set ps = set (player_list (leaves m l)) - {c}"
  proof (cases "isPlayer c")
    case True
    then show ?thesis using swap_remove_correct [OF ok(4) [OF at] here(2)] that by blast
  next
    case False
    then have "c \<notin> set (player_list (leaves m l))" using ok(5) [OF at] by auto
    then show ?thesis using False ok(4) [OF at] that [of "player_list (leaves m l)"] by auto
  qed
  define leaf where "leaf = (leaves m l)\<lparr>creature_list := cs, player_list := ps\<rparr>"
  have "leaf_removeCreature isPlayer c (leaves m l) = Some leaf"
    using cs(1) ps(1,2) by (cases "isPlayer c") (simp_all add: leaf_removeCreature_def leaf_def Let_def)
  then have run: "removeFromLeaf isPlayer c (pos c) m = Some (set_leaf l (\<lambda>_. leaf) m)"
    by (simp add: removeFromLeaf_def getQTNode_leaf_of [OF assms(1)] l)
  have "map_ok (set_leaf l (\<lambda>_. leaf) m)" by (rule set_leaf_ok [OF assms(1)]) (simp_all add: leaf_def)
  moreover have "creatures_ok isPlayer (here - {c}) pos (set_leaf l (\<lambda>_. leaf) m)"
  proof (rule creatures_okI)
    show "leaf_of (set_leaf l (\<lambda>_. leaf) m) (pos c') \<noteq> None" if "c' \<in> here - {c}" for c' using that ok(1) [of c'] by auto
    fix x y l' assume "leaf_at (set_leaf l (\<lambda>_. leaf) m) x y = Some l'"
    then have at': "leaf_at m x y = Some l'" by simp
    show "distinct (creature_list (leaves (set_leaf l (\<lambda>_. leaf) m) l')) \<and>
        distinct (player_list (leaves (set_leaf l (\<lambda>_. leaf) m) l'))"
      using ok(2,4) [OF at'] cs(2) ps(3) by (simp add: leaf_def)
    show "set (creature_list (leaves (set_leaf l (\<lambda>_. leaf) m) l')) =
        {c' \<in> here - {c}. leaf_of (set_leaf l (\<lambda>_. leaf) m) (pos c') = Some l'}"
      using ok(3) [OF at'] cs(3) l by (auto simp: leaf_def)
    show "set (player_list (leaves (set_leaf l (\<lambda>_. leaf) m) l')) =
        {c' \<in> here - {c}. isPlayer c' \<and> leaf_of (set_leaf l (\<lambda>_. leaf) m) (pos c') = Some l'}"
      using ok(5) [OF at'] ps(4) l by (auto simp: leaf_def)
  qed
  ultimately show ?thesis using run by simp
qed

lemma setTile_creatures_ok:
  assumes "map_ok m" and "creatures_ok isPlayer here pos m"
  shows "creatures_ok isPlayer here pos (setTile merge x y z t m) \<and>
    (\<forall>p. leaf_of m p \<noteq> None \<longrightarrow> leaf_of (setTile merge x y z t m) p \<noteq> None)"
proof (cases "z < MAP_MAX_LAYERS")
  case True
  obtain leaf m1 where run: "ensure_leaf x y m = (leaf, m1)" by fastforce
  note sel = ensure_leaf_sel [OF assms(1) run]
  note ok = creatures_okD [OF assms(2)]
  define m2 where "m2 = setTile merge x y z t m"
  have at: "leaf_at m2 = leaf_at m1" and
    lists: "creature_list (leaves m2 l) = creature_list (leaves m1 l)" "player_list (leaves m2 l) = player_list (leaves m1 l)" for l
    using setTile_store [OF True run, of merge t] by (auto simp: m2_def fun_eq_iff)
  have kept: "leaf_at m2 x' y' = Some l" if "leaf_at m x' y' = Some l" for x' y' l
    using that sel(1) leaf_at_block [OF assms(1), of x' "ucast x" y' "ucast y"]
    by (auto simp: at sel(2) split: option.splits)
  have of_kept: "leaf_of m2 p = leaf_of m p" if "leaf_of m p \<noteq> None" for p
    using that kept by (auto simp: leaf_of_def)
  have "creatures_ok isPlayer here pos m2"
  proof (rule creatures_okI)
    show "leaf_of m2 (pos c) \<noteq> None" if "c \<in> here" for c using ok(1) [OF that] of_kept by metis
    fix x' y' l assume l: "leaf_at m2 x' y' = Some l"
    have here: "{c \<in> here. P c \<and> leaf_of m2 (pos c) = Some l} = {c \<in> here. P c \<and> leaf_of m (pos c) = Some l}" for P
      using ok(1) of_kept by auto
    have "distinct (creature_list (leaves m2 l)) \<and> distinct (player_list (leaves m2 l)) \<and>
        set (creature_list (leaves m2 l)) = {c \<in> here. leaf_of m (pos c) = Some l} \<and>
        set (player_list (leaves m2 l)) = {c \<in> here. isPlayer c \<and> leaf_of m (pos c) = Some l}"
    proof (cases "leaf_at m (ucast x) (ucast y) = None \<and> l = leaf")
      case True
      then have "leaf_of m p \<noteq> Some l" for p
        using sel(1) map_okD(3) [OF assms(1)] by (auto simp: leaf_of_def)
      then show ?thesis using sel(3) [of l] True by (simp add: lists)
    next
      case False
      then have "leaf_at m x' y' = Some l \<or> leaf_at m (ucast x) (ucast y) = Some l"
        using l sel(1) by (auto simp: at sel(2) split: if_splits option.splits)
      then show ?thesis using ok(2-5) sel(4) [of l] False by (auto simp: lists)
    qed
    then show "distinct (creature_list (leaves m2 l)) \<and> distinct (player_list (leaves m2 l))"
      "set (creature_list (leaves m2 l)) = {c \<in> here. leaf_of m2 (pos c) = Some l}"
      "set (player_list (leaves m2 l)) = {c \<in> here. isPlayer c \<and> leaf_of m2 (pos c) = Some l}"
      using here [of "\<lambda>_. True"] here [of isPlayer] by simp_all
  qed
  then show ?thesis using of_kept by (simp add: m2_def)
qed (use assms in \<open>simp add: setTile_def not_less\<close>)

subsection \<open>The spectator caches\<close>

text \<open>
  The part of the game that a search depends on: the map, the creatures on it with their positions, and the
  two caches.  \<open>Tile::addThing\<close>, \<open>internalAddThing\<close> and \<open>removeThing\<close> clear the caches when the thing is a
  creature, the cache of the players only for a player.
\<close>

record 'tile map_world =
  wo_map :: "'tile game_map"
  wo_here :: "nat set"
  wo_pos :: "nat \<Rightarrow> Position"
  spectatorCache :: "Position \<Rightarrow> nat list option"
  playersSpectatorCache :: "Position \<Rightarrow> nat list option"

definition maxViewportX :: int where "maxViewportX = 11"
definition maxViewportY :: int where "maxViewportY = 11"

definition addSpectators :: "nat list \<Rightarrow> nat list \<Rightarrow> nat list" where
  "addSpectators spectators vec =
     fold (\<lambda>c vec. if c \<in> set vec then vec else vec @ [c]) spectators vec"

definition clear_caches :: "bool \<Rightarrow> 'tile map_world \<Rightarrow> 'tile map_world" where
  "clear_caches player w =
     (let w = w\<lparr>spectatorCache := (\<lambda>_. None)\<rparr>
      in if player then w\<lparr>playersSpectatorCache := (\<lambda>_. None)\<rparr> else w)"

text \<open>The layers a search covers.\<close>

definition floor_range :: "bool \<Rightarrow> Position \<Rightarrow> int \<times> int" where
  "floor_range multifloor p =
     (let z = getZ p in
      if multifloor then
        if z > 7 then (max (z - 2) 0, min (z + 2) (uint MAP_MAX_LAYERS - 1))
        else if z = 6 then (0, 8)
        else if z = 7 then (0, 9)
        else (0, 7)
      else (z, z))"

definition getSpectators ::
  "(nat \<Rightarrow> bool) \<Rightarrow> nat list \<Rightarrow> Position \<Rightarrow> bool \<Rightarrow> bool \<Rightarrow> int \<Rightarrow> int \<Rightarrow> int \<Rightarrow> int \<Rightarrow>
   'tile map_world \<Rightarrow> nat list \<times> 'tile map_world" where
  "getSpectators isPlayer spectators p multifloor onlyPlayers minX maxX minY maxY w =
     (if MAP_MAX_LAYERS \<le> pos_z p then (spectators, w)
      else
        let minRangeX = (if minX = 0 then - maxViewportX else - minX);
            maxRangeX = (if maxX = 0 then maxViewportX else maxX);
            minRangeY = (if minY = 0 then - maxViewportY else - minY);
            maxRangeY = (if maxY = 0 then maxViewportY else maxY);
            cacheable = (minRangeX = - maxViewportX \<and> maxRangeX = maxViewportX \<and> minRangeY = - maxViewportY \<and>
              maxRangeY = maxViewportY \<and> multifloor);
            merge = (\<lambda>cached. if spectators \<noteq> [] then addSpectators cached spectators else cached)
        in case (if cacheable \<and> onlyPlayers then playersSpectatorCache w p else None) of
             Some cached \<Rightarrow> (merge cached, w)
           | None \<Rightarrow>
               (case (if cacheable then spectatorCache w p else None) of
                  Some cached \<Rightarrow> (if \<not> onlyPlayers then merge cached else spectators @ filter isPlayer cached, w)
                | None \<Rightarrow>
                    let (minRangeZ, maxRangeZ) = floor_range multifloor p;
                        spectators = spectators @ getSpectatorsInternal (wo_map w) (wo_pos w) p
                          minRangeX maxRangeX minRangeY maxRangeY minRangeZ maxRangeZ onlyPlayers
                    in (spectators,
                        if \<not> cacheable then w
                        else if onlyPlayers
                        then w\<lparr>playersSpectatorCache := (playersSpectatorCache w)(p := Some spectators)\<rparr>
                        else w\<lparr>spectatorCache := (spectatorCache w)(p := Some spectators)\<rparr>)))"

text \<open>\<open>Map::placeCreature\<close> from the tile it found, \<open>Map::moveCreature\<close> and \<open>Tile::removeCreature\<close>; \<open>None\<close> is a null pointer.\<close>

definition place :: "(nat \<Rightarrow> bool) \<Rightarrow> nat \<Rightarrow> Position \<Rightarrow> 'tile map_world \<Rightarrow> 'tile map_world option" where
  "place isPlayer c p w =
     map_option (\<lambda>m. (clear_caches (isPlayer c) w)\<lparr>wo_map := m, wo_here := insert c (wo_here w), wo_pos := (wo_pos w)(c := p)\<rparr>)
       (addToLeaf isPlayer c p (wo_map w))"

definition switch_leaf :: "(nat \<Rightarrow> bool) \<Rightarrow> nat \<Rightarrow> Position \<Rightarrow> Position \<Rightarrow> 'tile game_map \<Rightarrow> 'tile game_map option" where
  "switch_leaf isPlayer c oldPos newPos m =
     (if getQTNode (pos_x oldPos) (pos_y oldPos) m \<noteq> getQTNode (pos_x newPos) (pos_y newPos) m
      then Option.bind (removeFromLeaf isPlayer c oldPos m) (addToLeaf isPlayer c newPos)
      else Some m)"

definition move :: "(nat \<Rightarrow> bool) \<Rightarrow> nat \<Rightarrow> Position \<Rightarrow> 'tile map_world \<Rightarrow> 'tile map_world option" where
  "move isPlayer c newPos w =
     map_option (\<lambda>m. (clear_caches (isPlayer c) w)\<lparr>wo_map := m, wo_pos := (wo_pos w)(c := newPos)\<rparr>)
       (switch_leaf isPlayer c (wo_pos w c) newPos (wo_map w))"

definition leave :: "(nat \<Rightarrow> bool) \<Rightarrow> nat \<Rightarrow> 'tile map_world \<Rightarrow> 'tile map_world option" where
  "leave isPlayer c w =
     map_option (\<lambda>m. (clear_caches (isPlayer c) w)\<lparr>wo_map := m, wo_here := wo_here w - {c}\<rparr>)
       (removeFromLeaf isPlayer c (wo_pos w c) (wo_map w))"

definition empty_world :: "'tile map_world" where
  "empty_world = \<lparr>wo_map = empty_map, wo_here = {}, wo_pos = (\<lambda>_. Position 0 0 0),
     spectatorCache = (\<lambda>_. None), playersSpectatorCache = (\<lambda>_. None)\<rparr>"

text \<open>
  What happens to the map: tiles are set, creatures come to a tile, move to a tile and leave, and searches fill the
  caches.  A search that may fill a cache starts from an empty vector.
\<close>

inductive world_step :: "('tile \<Rightarrow> 'tile \<Rightarrow> 'tile) \<Rightarrow> (nat \<Rightarrow> bool) \<Rightarrow> 'tile map_world \<Rightarrow> 'tile map_world \<Rightarrow> bool"
  for merge isPlayer where
  set_tile: "world_step merge isPlayer w (w\<lparr>wo_map := setTile merge x y z t (wo_map w)\<rparr>)"
| place: "c \<notin> wo_here w \<Longrightarrow> getTile (pos_x p) (pos_y p) (pos_z p) (wo_map w) \<noteq> None \<Longrightarrow>
    place isPlayer c p w = Some w' \<Longrightarrow> world_step merge isPlayer w w'"
| move: "c \<in> wo_here w \<Longrightarrow> getTile (pos_x p) (pos_y p) (pos_z p) (wo_map w) \<noteq> None \<Longrightarrow>
    move isPlayer c p w = Some w' \<Longrightarrow> world_step merge isPlayer w w'"
| leave: "c \<in> wo_here w \<Longrightarrow> leave isPlayer c w = Some w' \<Longrightarrow> world_step merge isPlayer w w'"
| search: "world_step merge isPlayer w (snd (getSpectators isPlayer [] p multifloor players minX maxX minY maxY w))"

definition fresh :: "(nat \<Rightarrow> bool) \<Rightarrow> bool \<Rightarrow> 'tile map_world \<Rightarrow> Position \<Rightarrow> nat list \<Rightarrow> bool" where
  "fresh isPlayer players w p s \<longleftrightarrow> distinct s \<and>
     set s = viewers isPlayer (wo_here w) (wo_pos w) p (- 11) 11 (- 11) 11
       (fst (floor_range True p)) (snd (floor_range True p)) players"

definition world_ok :: "(nat \<Rightarrow> bool) \<Rightarrow> 'tile map_world \<Rightarrow> bool" where
  "world_ok isPlayer w \<longleftrightarrow>
     map_ok (wo_map w) \<and> creatures_ok isPlayer (wo_here w) (wo_pos w) (wo_map w) \<and>
     (\<forall>p s. spectatorCache w p = Some s \<longrightarrow> fresh isPlayer False w p s) \<and>
     (\<forall>p s. playersSpectatorCache w p = Some s \<longrightarrow> fresh isPlayer True w p s)"

lemma world_okD:
  assumes "world_ok isPlayer w"
  shows "map_ok (wo_map w)" "creatures_ok isPlayer (wo_here w) (wo_pos w) (wo_map w)"
    "spectatorCache w p = Some s \<Longrightarrow> fresh isPlayer False w p s"
    "playersSpectatorCache w p = Some s \<Longrightarrow> fresh isPlayer True w p s"
  using assms unfolding world_ok_def by blast+

text \<open>A change that clears the caches only has to keep the players where they are if the creature is none.\<close>

lemma world_ok_change:
  assumes "world_ok isPlayer w" and "map_ok m" and "creatures_ok isPlayer here pos m"
    and "\<not> isPlayer c \<Longrightarrow> \<forall>d. isPlayer d \<longrightarrow> (d \<in> here \<longleftrightarrow> d \<in> wo_here w) \<and> pos d = wo_pos w d"
  shows "world_ok isPlayer ((clear_caches (isPlayer c) w)\<lparr>wo_map := m, wo_here := here, wo_pos := pos\<rparr>)"
proof -
  have "fresh isPlayer True ((clear_caches (isPlayer c) w)\<lparr>wo_map := m, wo_here := here, wo_pos := pos\<rparr>) p s"
    if "\<not> isPlayer c" "playersSpectatorCache w p = Some s" for p s
    using world_okD(4) [OF assms(1) that(2)] assms(4) [OF that(1)]
    by (auto simp: fresh_def viewers_def clear_caches_def Let_def)
  then show ?thesis using assms(2,3) by (auto simp: world_ok_def clear_caches_def Let_def)
qed

lemma getTile_leaf_of: "map_ok m \<Longrightarrow> getTile (pos_x p) (pos_y p) z m \<noteq> None \<Longrightarrow> leaf_of m p \<noteq> None"
  by (auto simp: getTile_leaf_at leaf_of_def bind_eq_Some_conv split: if_splits)

lemma place_ok:
  assumes "world_ok isPlayer w" and "c \<notin> wo_here w" and "leaf_of (wo_map w) p \<noteq> None"
  shows "\<exists>w'. place isPlayer c p w = Some w' \<and> world_ok isPlayer w'"
proof -
  note ok = world_okD [OF assms(1)]
  obtain m where m: "addToLeaf isPlayer c p (wo_map w) = Some m" "map_ok m"
    "creatures_ok isPlayer (insert c (wo_here w)) ((wo_pos w)(c := p)) m"
    using add_creature_ok [OF ok(1,2) assms(2,3)] by blast
  have "world_ok isPlayer ((clear_caches (isPlayer c) w)\<lparr>wo_map := m, wo_here := insert c (wo_here w), wo_pos := (wo_pos w)(c := p)\<rparr>)"
    by (rule world_ok_change [OF assms(1) m(2,3)]) auto
  then show ?thesis using m(1) by (simp add: place_def)
qed

lemma creatures_ok_moved:
  assumes "creatures_ok isPlayer here pos m" and "leaf_of m p = leaf_of m (pos c)"
  shows "creatures_ok isPlayer here (pos(c := p)) m"
proof -
  have "leaf_of m ((pos(c := p)) d) = leaf_of m (pos d)" for d using assms(2) by simp
  then show ?thesis using assms(1) unfolding creatures_ok_def by presburger
qed

lemma move_ok:
  assumes "world_ok isPlayer w" and "c \<in> wo_here w" and "leaf_of (wo_map w) p \<noteq> None"
  shows "\<exists>w'. move isPlayer c p w = Some w' \<and> world_ok isPlayer w'"
proof -
  note ok = world_okD [OF assms(1)]
  have "\<exists>m. switch_leaf isPlayer c (wo_pos w c) p (wo_map w) = Some m \<and> map_ok m \<and>
      creatures_ok isPlayer (wo_here w) ((wo_pos w)(c := p)) m"
  proof (cases "leaf_of (wo_map w) p = leaf_of (wo_map w) (wo_pos w c)")
    case True
    then show ?thesis
      using creatures_ok_moved [OF ok(2) True] ok(1) by (simp add: switch_leaf_def getQTNode_leaf_of)
  next
    case False
    obtain m1 where m1: "removeFromLeaf isPlayer c (wo_pos w c) (wo_map w) = Some m1" "map_ok m1"
      "creatures_ok isPlayer (wo_here w - {c}) (wo_pos w) m1" "\<forall>p. leaf_of m1 p = leaf_of (wo_map w) p"
      using remove_creature_ok [OF ok(1,2) assms(2)] by blast
    obtain m2 where "addToLeaf isPlayer c p m1 = Some m2" "map_ok m2"
      "creatures_ok isPlayer (insert c (wo_here w - {c})) ((wo_pos w)(c := p)) m2"
      using add_creature_ok [OF m1(2,3), of c p] m1(4) assms(3) by auto
    then show ?thesis
      using m1(1) False ok(1) assms(2) by (simp add: switch_leaf_def getQTNode_leaf_of insert_absorb)
  qed
  then obtain m where m: "switch_leaf isPlayer c (wo_pos w c) p (wo_map w) = Some m" "map_ok m"
      "creatures_ok isPlayer (wo_here w) ((wo_pos w)(c := p)) m" by blast
  have "world_ok isPlayer ((clear_caches (isPlayer c) w)\<lparr>wo_map := m, wo_here := wo_here w, wo_pos := (wo_pos w)(c := p)\<rparr>)"
    by (rule world_ok_change [OF assms(1) m(2,3)]) auto
  moreover have "(clear_caches (isPlayer c) w)\<lparr>wo_map := m, wo_here := wo_here w, wo_pos := (wo_pos w)(c := p)\<rparr> =
      (clear_caches (isPlayer c) w)\<lparr>wo_map := m, wo_pos := (wo_pos w)(c := p)\<rparr>"
    by (simp add: clear_caches_def Let_def)
  ultimately show ?thesis using m(1) by (simp add: move_def)
qed

lemma leave_ok:
  assumes "world_ok isPlayer w" and "c \<in> wo_here w"
  shows "\<exists>w'. leave isPlayer c w = Some w' \<and> world_ok isPlayer w'"
proof -
  note ok = world_okD [OF assms(1)]
  obtain m where m: "removeFromLeaf isPlayer c (wo_pos w c) (wo_map w) = Some m" "map_ok m"
    "creatures_ok isPlayer (wo_here w - {c}) (wo_pos w) m"
    using remove_creature_ok [OF ok(1,2) assms(2)] by blast
  have "world_ok isPlayer ((clear_caches (isPlayer c) w)\<lparr>wo_map := m, wo_here := wo_here w - {c}, wo_pos := wo_pos w\<rparr>)"
    by (rule world_ok_change [OF assms(1) m(2,3)]) auto
  moreover have "(clear_caches (isPlayer c) w)\<lparr>wo_map := m, wo_here := wo_here w - {c}, wo_pos := wo_pos w\<rparr> =
      (clear_caches (isPlayer c) w)\<lparr>wo_map := m, wo_here := wo_here w - {c}\<rparr>"
    by (simp add: clear_caches_def Let_def)
  ultimately show ?thesis using m(1) by (simp add: leave_def)
qed

text \<open>A search from an empty vector.\<close>

definition search_set ::
  "(nat \<Rightarrow> bool) \<Rightarrow> Position \<Rightarrow> bool \<Rightarrow> bool \<Rightarrow> int \<Rightarrow> int \<Rightarrow> int \<Rightarrow> int \<Rightarrow> 'tile map_world \<Rightarrow> nat set" where
  "search_set isPlayer p multifloor players minX maxX minY maxY w =
     viewers isPlayer (wo_here w) (wo_pos w) p
       (if minX = 0 then - 11 else - minX) (if maxX = 0 then 11 else maxX)
       (if minY = 0 then - 11 else - minY) (if maxY = 0 then 11 else maxY)
       (fst (floor_range multifloor p)) (snd (floor_range multifloor p)) players"

lemma viewers_players: "{c \<in> viewers isPlayer here pos p a b c' d e f False. isPlayer c} = viewers isPlayer here pos p a b c' d e f True"
  by (auto simp: viewers_def)

lemma getSpectators_exact:
  assumes "world_ok isPlayer w" and "pos_z p < MAP_MAX_LAYERS"
    and "getSpectators isPlayer [] p multifloor players minX maxX minY maxY w = (found, w')"
  shows "distinct found \<and> set found = search_set isPlayer p multifloor players minX maxX minY maxY w \<and> world_ok isPlayer w'"
proof -
  define x1 where "x1 = (if minX = 0 then - 11 else - minX)"
  define x2 where "x2 = (if maxX = 0 then 11 else maxX)"
  define y1 where "y1 = (if minY = 0 then - 11 else - minY)"
  define y2 where "y2 = (if maxY = 0 then 11 else maxY)"
  define cacheable where "cacheable \<longleftrightarrow> x1 = - 11 \<and> x2 = 11 \<and> y1 = - 11 \<and> y2 = 11 \<and> multifloor"
  define new where "new = getSpectatorsInternal (wo_map w) (wo_pos w) p x1 x2 y1 y2
    (fst (floor_range multifloor p)) (snd (floor_range multifloor p)) players"
  have target: "search_set isPlayer p multifloor players minX maxX minY maxY w =
      viewers isPlayer (wo_here w) (wo_pos w) p x1 x2 y1 y2 (fst (floor_range multifloor p)) (snd (floor_range multifloor p)) players"
    by (simp add: search_set_def x1_def x2_def y1_def y2_def)
  have "getSpectators isPlayer [] p multifloor players minX maxX minY maxY w =
      (case (if cacheable \<and> players then playersSpectatorCache w p else None) of
         Some cached \<Rightarrow> (cached, w)
       | None \<Rightarrow> (case (if cacheable then spectatorCache w p else None) of
            Some cached \<Rightarrow> (if \<not> players then cached else filter isPlayer cached, w)
          | None \<Rightarrow> (new, if \<not> cacheable then w
                else if players then w\<lparr>playersSpectatorCache := (playersSpectatorCache w)(p := Some new)\<rparr>
                else w\<lparr>spectatorCache := (spectatorCache w)(p := Some new)\<rparr>)))"
    using assms(2)
    unfolding getSpectators_def Let_def maxViewportX_def maxViewportY_def x1_def [symmetric] x2_def [symmetric]
      y1_def [symmetric] y2_def [symmetric] cacheable_def [symmetric]
    by (simp only: new_def case_prod_beta not_less [symmetric] not_not if_False append_Nil simp_thms if_True)
  note run = this [unfolded assms(3)]
  note ok = world_okD [OF assms(1)]
  have new: "distinct new \<and> set new = search_set isPlayer p multifloor players minX maxX minY maxY w"
    unfolding target by (rule getSpectatorsInternal_exact [OF ok(1,2) new_def])
  have fresh: "fresh isPlayer players w p s \<longleftrightarrow> distinct s \<and> set s = search_set isPlayer p multifloor players minX maxX minY maxY w"
    if "cacheable" for s players
    using that by (simp add: fresh_def search_set_def cacheable_def x1_def x2_def y1_def y2_def)
  consider (players) cached where "cacheable" "players" "playersSpectatorCache w p = Some cached" "found = cached" "w' = w"
    | (all) cached where "cacheable" "spectatorCache w p = Some cached" "w' = w"
        "found = (if \<not> players then cached else filter isPlayer cached)"
    | (scan) "found = new" "w' = (if \<not> cacheable then w
                else if players then w\<lparr>playersSpectatorCache := (playersSpectatorCache w)(p := Some new)\<rparr>
                else w\<lparr>spectatorCache := (spectatorCache w)(p := Some new)\<rparr>)"
    using run by (auto split: option.splits if_splits)
  then show ?thesis
  proof cases
    case players
    then show ?thesis using ok(4) [OF players(3)] fresh assms(1) by simp
  next
    case all
    then have "fresh isPlayer False w p cached" using ok(3) by blast
    then have cached: "distinct cached" "set cached = viewers isPlayer (wo_here w) (wo_pos w) p x1 x2 y1 y2
        (fst (floor_range multifloor p)) (snd (floor_range multifloor p)) False"
      using all(1) by (simp_all add: fresh_def cacheable_def)
    show ?thesis
      unfolding target using cached all(3,4) assms(1)
        viewers_players [of isPlayer "wo_here w" "wo_pos w" p x1 x2 y1 y2]
      by (cases players) auto
  next
    case scan
    have kept: "fresh isPlayer q (w\<lparr>playersSpectatorCache := f\<rparr>) r s = fresh isPlayer q w r s"
      "fresh isPlayer q (w\<lparr>spectatorCache := f\<rparr>) r s = fresh isPlayer q w r s" for q f r s
      by (simp_all add: fresh_def)
    have "world_ok isPlayer w'"
      using assms(1) new fresh [of players new] unfolding scan(2) world_ok_def
      by (cases cacheable; cases players) (simp_all add: kept)
    then show ?thesis using scan(1) new by simp
  qed
qed

lemma empty_world_ok: "world_ok isPlayer empty_world"
proof -
  have "creatures_ok isPlayer {} pos empty_map" for pos
    by (rule creatures_okI) (simp_all add: empty_map_leaf)
  then show ?thesis by (simp add: world_ok_def empty_world_def empty_map_ok)
qed

lemma world_step_ok: "world_step merge isPlayer w w' \<Longrightarrow> world_ok isPlayer w \<Longrightarrow> world_ok isPlayer w'"
proof (induction rule: world_step.induct)
  case (set_tile w x y z t)
  note ok = world_okD [OF set_tile]
  have "fresh isPlayer q (w\<lparr>wo_map := m\<rparr>) p s = fresh isPlayer q w p s" for q m p s by (simp add: fresh_def)
  then show ?case
    using set_tile setTile_ok [OF ok(1)] setTile_creatures_ok [OF ok(1,2)] by (simp add: world_ok_def)
next
  case (place c w p w')
  then show ?case using place_ok [OF place(4) place(1) getTile_leaf_of [OF world_okD(1) [OF place(4)] place(2)]] place(3) by auto
next
  case (move c w p w')
  then show ?case using move_ok [OF move(4) move(1) getTile_leaf_of [OF world_okD(1) [OF move(4)] move(2)]] move(3) by auto
next
  case (leave c w w')
  then show ?case using leave_ok [OF leave(3) leave(1)] by auto
next
  case (search w p multifloor players minX maxX minY maxY)
  show ?case
  proof (cases "pos_z p < MAP_MAX_LAYERS")
    case True
    then show ?thesis
      using getSpectators_exact [OF search True] by (metis prod.collapse)
  qed (use search in \<open>simp add: getSpectators_def not_less\<close>)
qed

lemma world_steps_ok: "(world_step merge isPlayer)\<^sup>*\<^sup>* w w' \<Longrightarrow> world_ok isPlayer w \<Longrightarrow> world_ok isPlayer w'"
  by (induction rule: rtranclp_induct) (simp_all add: world_step_ok)

lemma one_player_world:
  obtains w where "(world_step (\<lambda>a b. a) (\<lambda>c. c = 5))\<^sup>*\<^sup>* (empty_world :: nat map_world) w"
    "wo_here w = {5}" "wo_pos w 5 = Position 100 100 7"
proof -
  let ?m = "setTile (\<lambda>a b. a) 100 100 7 1 (empty_map :: nat game_map)" and ?p = "Position 100 100 7"
  let ?w = "(empty_world :: nat map_world)\<lparr>wo_map := ?m\<rparr>"
  have first: "world_step (\<lambda>a b. a) (\<lambda>c. c = 5) (empty_world :: nat map_world) ?w"
    using world_step.set_tile [of "\<lambda>a b. a" "\<lambda>c. c = 5" empty_world 100 100 7 "1 :: nat"]
    unfolding empty_world_def by (simp only: map_world.simps)
  have tile: "getTile 100 100 7 ?m \<noteq> None"
    by (simp add: getTile_setTile [OF empty_map_ok] MAP_MAX_LAYERS_def)
  have ok: "world_ok (\<lambda>c. c = 5) ?w" by (rule world_step_ok [OF first empty_world_ok])
  have here: "5 \<notin> wo_here ?w" by (simp add: empty_world_def)
  have "leaf_of (wo_map ?w) ?p \<noteq> None" using getTile_leaf_of [OF setTile_ok [OF empty_map_ok], of ?p] tile by simp
  from place_ok [OF ok here this] obtain w where placed: "place (\<lambda>c. c = 5) 5 ?p ?w = Some w" by blast
  have "world_step (\<lambda>a b. a) (\<lambda>c. c = 5) ?w w"
    by (rule world_step.place [OF here _ placed]) (use tile in simp)
  then have "(world_step (\<lambda>a b. a) (\<lambda>c. c = 5))\<^sup>*\<^sup>* (empty_world :: nat map_world) w"
    using first by (meson rtranclp.rtrancl_refl rtranclp.rtrancl_into_rtrancl)
  moreover have "wo_here w = {5}" "wo_pos w 5 = ?p"
    using placed by (auto simp: place_def empty_world_def)
  ultimately show ?thesis using that by blast
qed

text \<open>
  C32: a search finds exactly the creatures in view.  However tiles are set, creatures come, move and leave, and
  earlier searches fill the caches: a search finds every creature on the layers and in the rectangle it asks
  for, once, and nobody else, whether a cache answers or the leaves are scanned along their links; and putting
  a creature on a tile, moving it there or removing it never meets a null leaf or a missing entry.
\<close>
theorem spectators_exact:
  assumes "(world_step merge isPlayer)\<^sup>*\<^sup>* empty_world w" and "pos_z p < 16"
  shows "distinct (fst (getSpectators isPlayer [] p multifloor players minX maxX minY maxY w)) \<and>
    set (fst (getSpectators isPlayer [] p multifloor players minX maxX minY maxY w)) =
      viewers isPlayer (wo_here w) (wo_pos w) p
        (if minX = 0 then - 11 else - minX) (if maxX = 0 then 11 else maxX)
        (if minY = 0 then - 11 else - minY) (if maxY = 0 then 11 else maxY)
        (fst (floor_range multifloor p)) (snd (floor_range multifloor p)) players \<and>
    (getTile (pos_x q) (pos_y q) (pos_z q) (wo_map w) \<noteq> None \<longrightarrow>
       (c \<notin> wo_here w \<longrightarrow> place isPlayer c q w \<noteq> None) \<and>
       (c \<in> wo_here w \<longrightarrow> move isPlayer c q w \<noteq> None \<and> leave isPlayer c w \<noteq> None))"
proof -
  have ok: "world_ok isPlayer w" by (rule world_steps_ok [OF assms(1) empty_world_ok])
  have z: "pos_z p < MAP_MAX_LAYERS" using assms(2) by (simp add: MAP_MAX_LAYERS_def)
  obtain found w' where run: "getSpectators isPlayer [] p multifloor players minX maxX minY maxY w = (found, w')"
    by fastforce
  show ?thesis
    using getSpectators_exact [OF ok z run] run place_ok [OF ok, of c q] move_ok [OF ok _, of c q] leave_ok [OF ok, of c]
      getTile_leaf_of [OF world_okD(1) [OF ok], of q "pos_z q"]
    by (auto simp: search_set_def)
qed

theorem spectators_exact_witness:
  "\<exists>w :: nat map_world. set (fst (getSpectators (\<lambda>c. c = 5) [] (Position 105 97 6) True True 0 0 0 0 w)) = {5}"
proof -
  obtain w where w: "(world_step (\<lambda>a b. a) (\<lambda>c. c = 5))\<^sup>*\<^sup>* (empty_world :: nat map_world) w"
    "wo_here w = {5}" "wo_pos w 5 = Position 100 100 7"
    by (rule one_player_world)
  have "set (fst (getSpectators (\<lambda>c. c = 5) [] (Position 105 97 6) True True 0 0 0 0 w)) = {5}"
    using spectators_exact [OF w(1), of "Position 105 97 6" True True 0 0 0 0]
    by (simp add: viewers_def w(2,3) floor_range_def getX_def getY_def getZ_def) (auto simp: w(3))
  then show ?thesis by blast
qed

end
