(* ===== verification/Walk_Cache.thy ===== *)
theory Walk_Cache
  imports Map_Spectators
begin

text \<open>
  The walk cache of a creature (creature.h, creature.cpp: \<open>localMapCache\<close>, \<open>updateMapCache\<close>,
  \<open>updateTileCache\<close>, \<open>getWalkCache\<close> and the part of \<open>onAddTileItem\<close>, \<open>onUpdateTileItem\<close>, \<open>onRemoveTileItem\<close>,
  \<open>onCreatureAppear\<close>, \<open>onRemoveCreature\<close>, \<open>onThink\<close> and \<open>onCreatureMove\<close> that keeps it): for the squares
  around a monster, whether it can step there.  When the monster moves, rows and columns are shifted and only
  the new edge is asked for again.  The cache is shown exact along all histories, but for a diagonal step to
  the south, which shifts the wrong rows.
\<close>

subsection \<open>The cache\<close>

text \<open>
  The tiles are the map; \<open>can_enter\<close> is \<open>tile->queryAdd(0, *this, 1, FLAG_PATHFINDING | FLAG_IGNOREFIELDDAMAGE)\<close>
  answering \<open>RETURNVALUE_NOERROR\<close>.
\<close>

record 'tile walk_env =
  we_map :: "'tile game_map"
  can_enter :: "'tile \<Rightarrow> bool"

record walker =
  wk_pos :: Position
  wk_useCacheMap :: bool   \<comment> \<open>\<open>useCacheMap()\<close>: a monster that does not step at random\<close>
  isMapLoaded :: bool
  localMapCache :: "int \<Rightarrow> int \<Rightarrow> bool"   \<comment> \<open>by row, then column\<close>

definition mapWalkWidth :: int where "mapWalkWidth = maxViewportX * 2 + 1"
definition mapWalkHeight :: int where "mapWalkHeight = maxViewportY * 2 + 1"
definition maxWalkCacheWidth :: int where "maxWalkCacheWidth = (mapWalkWidth - 1) div 2"
definition maxWalkCacheHeight :: int where "maxWalkCacheHeight = (mapWalkHeight - 1) div 2"

definition tile_at :: "'tile walk_env \<Rightarrow> Position \<Rightarrow> 'tile option" where
  "tile_at e p = getTile (pos_x p) (pos_y p) (pos_z p) (we_map e)"

definition set_cell :: "int \<Rightarrow> int \<Rightarrow> bool \<Rightarrow> (int \<Rightarrow> int \<Rightarrow> bool) \<Rightarrow> (int \<Rightarrow> int \<Rightarrow> bool)" where
  "set_cell r c b cache = cache(r := (cache r)(c := b))"

definition updateTileCache_at :: "'tile walk_env \<Rightarrow> 'tile option \<Rightarrow> int \<Rightarrow> int \<Rightarrow> walker \<Rightarrow> walker" where
  "updateTileCache_at e tile dx dy w =
     (if \<bar>dx\<bar> \<le> maxWalkCacheWidth \<and> \<bar>dy\<bar> \<le> maxWalkCacheHeight
      then w\<lparr>localMapCache := set_cell (maxWalkCacheHeight + dy) (maxWalkCacheWidth + dx)
               (case tile of None \<Rightarrow> False | Some t \<Rightarrow> can_enter e t) (localMapCache w)\<rparr>
      else w)"

definition updateTileCache :: "'tile walk_env \<Rightarrow> 'tile option \<Rightarrow> Position \<Rightarrow> walker \<Rightarrow> walker" where
  "updateTileCache e tile pos w =
     (if pos_z pos = pos_z (wk_pos w)
      then updateTileCache_at e tile (getOffsetX pos (wk_pos w)) (getOffsetY pos (wk_pos w)) w else w)"

definition updateMapCache :: "'tile walk_env \<Rightarrow> walker \<Rightarrow> walker" where
  "updateMapCache e w =
     fold (\<lambda>y. fold (\<lambda>x w.
         let pos = Position (word_of_int (getX (wk_pos w) + x)) (word_of_int (getY (wk_pos w) + y)) (pos_z (wk_pos w))
         in updateTileCache e (tile_at e pos) pos w)
       [- maxWalkCacheWidth..maxWalkCacheWidth]) [- maxWalkCacheHeight..maxWalkCacheHeight] w"

definition getWalkCache :: "Position \<Rightarrow> walker \<Rightarrow> int" where
  "getWalkCache pos w =
     (if \<not> wk_useCacheMap w then 2
      else if pos_z (wk_pos w) \<noteq> pos_z pos then 0
      else if pos = wk_pos w then 1
      else let dx = getOffsetX pos (wk_pos w); dy = getOffsetY pos (wk_pos w)
        in if \<bar>dx\<bar> \<le> maxWalkCacheWidth \<and> \<bar>dy\<bar> \<le> maxWalkCacheHeight
           then if localMapCache w (maxWalkCacheHeight + dy) (maxWalkCacheWidth + dx) then 1 else 0
           else 2)"

subsection \<open>What the creature is told\<close>

definition onThink_cache :: "'tile walk_env \<Rightarrow> walker \<Rightarrow> walker" where
  "onThink_cache e w =
     (if \<not> isMapLoaded w \<and> wk_useCacheMap w then updateMapCache e (w\<lparr>isMapLoaded := True\<rparr>) else w)"

definition onAddTileItem :: "'tile walk_env \<Rightarrow> Position \<Rightarrow> walker \<Rightarrow> walker" where
  "onAddTileItem e pos w =
     (if isMapLoaded w \<and> pos_z pos = pos_z (wk_pos w) then updateTileCache e (tile_at e pos) pos w else w)"

text \<open>\<open>blocking\<close>: one of the two item types is \<open>blockSolid\<close> or \<open>blockPathFind\<close>.\<close>

definition onUpdateTileItem :: "'tile walk_env \<Rightarrow> Position \<Rightarrow> bool \<Rightarrow> walker \<Rightarrow> walker" where
  "onUpdateTileItem e pos blocking w =
     (if \<not> isMapLoaded w then w
      else if blocking then if pos_z pos = pos_z (wk_pos w) then updateTileCache e (tile_at e pos) pos w else w
      else w)"

text \<open>\<open>blocking\<close>: the item type is \<open>blockSolid\<close>, \<open>blockPathFind\<close> or a ground tile.\<close>

definition onRemoveTileItem :: "'tile walk_env \<Rightarrow> Position \<Rightarrow> bool \<Rightarrow> walker \<Rightarrow> walker" where
  "onRemoveTileItem e pos blocking w =
     (if \<not> isMapLoaded w then w
      else if blocking then if pos_z pos = pos_z (wk_pos w) then updateTileCache e (tile_at e pos) pos w else w
      else w)"

text \<open>The creature itself appears, or (\<open>Some pos\<close>) another creature does, or is removed.\<close>

definition onCreatureAppear :: "'tile walk_env \<Rightarrow> Position option \<Rightarrow> walker \<Rightarrow> walker" where
  "onCreatureAppear e creature w =
     (case creature of
        None \<Rightarrow> if wk_useCacheMap w then updateMapCache e (w\<lparr>isMapLoaded := True\<rparr>) else w
      | Some pos \<Rightarrow>
          if isMapLoaded w then
            if pos_z pos = pos_z (wk_pos w) then updateTileCache e (tile_at e pos) pos w else w
          else w)"

definition onRemoveCreature :: "'tile walk_env \<Rightarrow> Position \<Rightarrow> walker \<Rightarrow> walker" where
  "onRemoveCreature e pos w =
     (if isMapLoaded w then
        if pos_z pos = pos_z (wk_pos w) then updateTileCache e (tile_at e pos) pos w else w
      else w)"

text \<open>Another creature moves.\<close>

definition onOtherMove :: "'tile walk_env \<Rightarrow> Position \<Rightarrow> Position \<Rightarrow> walker \<Rightarrow> walker" where
  "onOtherMove e newPos oldPos w =
     (if isMapLoaded w then
        let w = (if pos_z newPos = pos_z (wk_pos w) then updateTileCache e (tile_at e newPos) newPos w else w)
        in if pos_z oldPos = pos_z (wk_pos w) then updateTileCache e (tile_at e oldPos) oldPos w else w
      else w)"

subsection \<open>The creature moves\<close>

text \<open>The four loops over the rows and columns.\<close>

definition shift_south :: "(int \<Rightarrow> int \<Rightarrow> bool) \<Rightarrow> (int \<Rightarrow> int \<Rightarrow> bool)" where
  "shift_south cache = fold (\<lambda>y cache. cache(y + 1 := cache y)) (rev [0..mapWalkHeight - 2]) cache"

definition shift_north :: "(int \<Rightarrow> int \<Rightarrow> bool) \<Rightarrow> (int \<Rightarrow> int \<Rightarrow> bool)" where
  "shift_north cache = fold (\<lambda>y cache. cache(y := cache (y + 1))) [0..mapWalkHeight - 2] cache"

definition shift_rows_west :: "int \<Rightarrow> int \<Rightarrow> (int \<Rightarrow> int \<Rightarrow> bool) \<Rightarrow> (int \<Rightarrow> int \<Rightarrow> bool)" where
  "shift_rows_west starty endy cache =
     fold (\<lambda>y. fold (\<lambda>x cache. set_cell y x (cache y (x + 1)) cache) [0..mapWalkWidth - 2]) [starty..endy] cache"

definition shift_rows_east :: "int \<Rightarrow> int \<Rightarrow> (int \<Rightarrow> int \<Rightarrow> bool) \<Rightarrow> (int \<Rightarrow> int \<Rightarrow> bool)" where
  "shift_rows_east starty endy cache =
     fold (\<lambda>y. fold (\<lambda>x cache. set_cell y (x + 1) (cache y x) cache) (rev [0..mapWalkWidth - 2])) [starty..endy] cache"

text \<open>The loops that ask for the tiles of a new row or column.\<close>

definition update_row :: "'tile walk_env \<Rightarrow> int \<Rightarrow> walker \<Rightarrow> walker" where
  "update_row e dy w =
     fold (\<lambda>x w. updateTileCache_at e
         (tile_at e (Position (word_of_int (getX (wk_pos w) + x)) (word_of_int (getY (wk_pos w) + dy)) (pos_z (wk_pos w))))
         x dy w) [- maxWalkCacheWidth..maxWalkCacheWidth] w"

definition update_column :: "'tile walk_env \<Rightarrow> int \<Rightarrow> walker \<Rightarrow> walker" where
  "update_column e dx w =
     fold (\<lambda>y w. updateTileCache_at e
         (tile_at e (Position (word_of_int (getX (wk_pos w) + dx)) (word_of_int (getY (wk_pos w) + y)) (pos_z (wk_pos w))))
         dx y w) [- maxWalkCacheHeight..maxWalkCacheHeight] w"

text \<open>The rows that a step along the x axis shifts: \<open>dy\<close> is \<open>oldPos.getDistanceY(newPos)\<close>, never negative.\<close>

definition shifted_rows :: "Position \<Rightarrow> Position \<Rightarrow> int \<times> int" where
  "shifted_rows oldPos newPos =
     (let starty = 0; endy = mapWalkHeight - 1; dy = getDistanceY oldPos newPos
      in if dy < 0 then (starty, endy + dy) else if dy > 0 then (dy, endy) else (starty, endy))"

definition move_north_south :: "'tile walk_env \<Rightarrow> Position \<Rightarrow> Position \<Rightarrow> walker \<Rightarrow> walker" where
  "move_north_south e oldPos newPos w =
     (if pos_y oldPos > pos_y newPos then
        update_row e (- maxWalkCacheHeight) (w\<lparr>localMapCache := shift_south (localMapCache w)\<rparr>)
      else if pos_y oldPos < pos_y newPos then
        update_row e maxWalkCacheHeight (w\<lparr>localMapCache := shift_north (localMapCache w)\<rparr>)
      else w)"

definition move_east_west :: "'tile walk_env \<Rightarrow> Position \<Rightarrow> Position \<Rightarrow> walker \<Rightarrow> walker" where
  "move_east_west e oldPos newPos w =
     (if pos_x oldPos < pos_x newPos then
        let (starty, endy) = shifted_rows oldPos newPos
        in update_column e maxWalkCacheWidth (w\<lparr>localMapCache := shift_rows_west starty endy (localMapCache w)\<rparr>)
      else if pos_x oldPos > pos_x newPos then
        let (starty, endy) = shifted_rows oldPos newPos
        in update_column e (- maxWalkCacheWidth) (w\<lparr>localMapCache := shift_rows_east starty endy (localMapCache w)\<rparr>)
      else w)"

text \<open>\<open>w\<close> is the creature at its new position, with the cache for \<open>oldPos\<close>.\<close>

definition onOwnMove :: "'tile walk_env \<Rightarrow> Position \<Rightarrow> bool \<Rightarrow> walker \<Rightarrow> walker" where
  "onOwnMove e oldPos teleport w =
     (let newPos = wk_pos w
      in if isMapLoaded w then
           if teleport \<or> pos_z oldPos \<noteq> pos_z newPos then updateMapCache e w
           else let w = move_north_south e oldPos newPos w;
                    w = move_east_west e oldPos newPos w
             in updateTileCache e (tile_at e oldPos) oldPos w
         else w)"

subsection \<open>What the loops do\<close>

lemma walk_cache_size [simp]: "mapWalkWidth = 23" "mapWalkHeight = 23" "maxWalkCacheWidth = 11" "maxWalkCacheHeight = 11"
  by (simp_all add: mapWalkWidth_def mapWalkHeight_def maxWalkCacheWidth_def maxWalkCacheHeight_def
      maxViewportX_def maxViewportY_def)

text \<open>Whether a square can be entered, and the square and the range of a cell of the cache.\<close>

definition enterable :: "'tile walk_env \<Rightarrow> Position \<Rightarrow> bool" where
  "enterable e p \<longleftrightarrow> (case tile_at e p of None \<Rightarrow> False | Some t \<Rightarrow> can_enter e t)"

definition square :: "Position \<Rightarrow> int \<Rightarrow> int \<Rightarrow> Position" where
  "square p r c = Position (word_of_int (getX p + (c - 11))) (word_of_int (getY p + (r - 11))) (pos_z p)"

definition in_cache :: "int \<Rightarrow> int \<Rightarrow> bool" where
  "in_cache r c \<longleftrightarrow> 0 \<le> r \<and> r \<le> 22 \<and> 0 \<le> c \<and> c \<le> 22"

definition on_map :: "Position \<Rightarrow> int \<Rightarrow> int \<Rightarrow> bool" where
  "on_map p r c \<longleftrightarrow> 0 \<le> getX p + (c - 11) \<and> getX p + (c - 11) < 65536 \<and> 0 \<le> getY p + (r - 11) \<and> getY p + (r - 11) < 65536"

lemma updateTileCache_at_fields [simp]:
  "wk_pos (updateTileCache_at e t dx dy w) = wk_pos w" "isMapLoaded (updateTileCache_at e t dx dy w) = isMapLoaded w"
  "wk_useCacheMap (updateTileCache_at e t dx dy w) = wk_useCacheMap w"
  by (simp_all add: updateTileCache_at_def)

lemma updateTileCache_fields [simp]:
  "wk_pos (updateTileCache e t p w) = wk_pos w" "isMapLoaded (updateTileCache e t p w) = isMapLoaded w"
  "wk_useCacheMap (updateTileCache e t p w) = wk_useCacheMap w"
  by (simp_all add: updateTileCache_def)

lemma fold_fields:
  assumes "\<And>x w. wk_pos (f x w) = wk_pos w \<and> isMapLoaded (f x w) = isMapLoaded w \<and> wk_useCacheMap (f x w) = wk_useCacheMap w"
  shows "wk_pos (fold f xs w) = wk_pos w \<and> isMapLoaded (fold f xs w) = isMapLoaded w \<and>
    wk_useCacheMap (fold f xs w) = wk_useCacheMap w"
  by (induction xs arbitrary: w) (simp_all add: assms)

lemma update_row_fields [simp]:
  "wk_pos (update_row e dy w) = wk_pos w" "isMapLoaded (update_row e dy w) = isMapLoaded w"
  "wk_useCacheMap (update_row e dy w) = wk_useCacheMap w"
  unfolding update_row_def by (rule fold_fields [THEN conjunct1] fold_fields [THEN conjunct2, THEN conjunct1]
      fold_fields [THEN conjunct2, THEN conjunct2], simp)+

lemma update_column_fields [simp]:
  "wk_pos (update_column e dx w) = wk_pos w" "isMapLoaded (update_column e dx w) = isMapLoaded w"
  "wk_useCacheMap (update_column e dx w) = wk_useCacheMap w"
  unfolding update_column_def by (rule fold_fields [THEN conjunct1] fold_fields [THEN conjunct2, THEN conjunct1]
      fold_fields [THEN conjunct2, THEN conjunct2], simp)+

lemma updateMapCache_fields [simp]:
  "wk_pos (updateMapCache e w) = wk_pos w" "isMapLoaded (updateMapCache e w) = isMapLoaded w"
  "wk_useCacheMap (updateMapCache e w) = wk_useCacheMap w"
  unfolding updateMapCache_def by (rule fold_fields [THEN conjunct1] fold_fields [THEN conjunct2, THEN conjunct1]
      fold_fields [THEN conjunct2, THEN conjunct2], intro fold_fields, simp add: Let_def)+

lemma cell_updateTileCache_at:
  "localMapCache (updateTileCache_at e t dx dy w) r c =
     (if \<bar>dx\<bar> \<le> 11 \<and> \<bar>dy\<bar> \<le> 11 \<and> r = 11 + dy \<and> c = 11 + dx
      then (case t of None \<Rightarrow> False | Some t \<Rightarrow> can_enter e t) else localMapCache w r c)"
  by (simp add: updateTileCache_at_def set_cell_def)

lemma word_of_int_getX [simp]: "word_of_int (getX p) = pos_x p" "word_of_int (getY p) = pos_y p"
  by (simp_all add: getX_def getY_def)

lemma square_offset: "square p (11 + getOffsetY q p) (11 + getOffsetX q p) = Position (pos_x q) (pos_y q) (pos_z p)"
  by (simp add: square_def getOffsetX_def getOffsetY_def)

lemma getX_word [simp]: "0 \<le> i \<Longrightarrow> i < 65536 \<Longrightarrow> getX (Position (word_of_int i) y z) = i"
  "0 \<le> j \<Longrightarrow> j < 65536 \<Longrightarrow> getY (Position x (word_of_int j) z) = j"
  by (simp_all add: getX_def getY_def uint_word_of_int)

lemma square_eq_iff:
  assumes "on_map p r c"
  shows "q = square p r c \<longleftrightarrow> pos_z q = pos_z p \<and> r = 11 + getOffsetY q p \<and> c = 11 + getOffsetX q p"
proof
  assume q: "q = square p r c"
  have "getX q = getX p + (c - 11)" "getY q = getY p + (r - 11)"
    using assms by (simp_all add: q square_def on_map_def del: of_int_add of_int_diff)
  then show "pos_z q = pos_z p \<and> r = 11 + getOffsetY q p \<and> c = 11 + getOffsetX q p"
    by (simp add: q getOffsetX_def getOffsetY_def) (simp add: square_def)
next
  assume "pos_z q = pos_z p \<and> r = 11 + getOffsetY q p \<and> c = 11 + getOffsetX q p"
  then show "q = square p r c" by (cases q) (simp add: square_offset)
qed

text \<open>Asking for the tile at \<open>pos\<close> makes its cell exact and leaves the others.\<close>

lemma cell_updateTileCache:
  assumes "in_cache r c" "on_map (wk_pos w) r c"
  shows "localMapCache (updateTileCache e (tile_at e pos) pos w) r c =
     (if pos = square (wk_pos w) r c then enterable e pos else localMapCache w r c)"
  using assms
  by (auto simp: updateTileCache_def cell_updateTileCache_at square_eq_iff in_cache_def enterable_def)

lemma cell_update_row:
  assumes "\<bar>dy\<bar> \<le> 11"
  shows "localMapCache (update_row e dy w) r c =
    (if r = 11 + dy \<and> 0 \<le> c \<and> c \<le> 22 then enterable e (square (wk_pos w) r c) else localMapCache w r c)"
proof -
  have "localMapCache (fold (\<lambda>x w. updateTileCache_at e
         (tile_at e (Position (word_of_int (getX (wk_pos w) + x)) (word_of_int (getY (wk_pos w) + dy)) (pos_z (wk_pos w))))
         x dy w) xs w) r c =
    (if r = 11 + dy \<and> c - 11 \<in> set xs then enterable e (square (wk_pos w) r c) else localMapCache w r c)"
    if "set xs \<subseteq> {-11..11}" for xs
    using that assms
    by (induction xs arbitrary: w) (auto simp: cell_updateTileCache_at enterable_def square_def)
  note cells = this [of "[-11..11]", unfolded set_upto, OF order_refl]
  show ?thesis unfolding update_row_def walk_cache_size cells by auto
qed

lemma cell_update_column:
  assumes "\<bar>dx\<bar> \<le> 11"
  shows "localMapCache (update_column e dx w) r c =
    (if c = 11 + dx \<and> 0 \<le> r \<and> r \<le> 22 then enterable e (square (wk_pos w) r c) else localMapCache w r c)"
proof -
  have "localMapCache (fold (\<lambda>y w. updateTileCache_at e
         (tile_at e (Position (word_of_int (getX (wk_pos w) + dx)) (word_of_int (getY (wk_pos w) + y)) (pos_z (wk_pos w))))
         dx y w) ys w) r c =
    (if c = 11 + dx \<and> r - 11 \<in> set ys then enterable e (square (wk_pos w) r c) else localMapCache w r c)"
    if "set ys \<subseteq> {-11..11}" for ys
    using that assms
    by (induction ys arbitrary: w) (auto simp: cell_updateTileCache_at enterable_def square_def)
  note cells = this [of "[-11..11]", unfolded set_upto, OF order_refl]
  show ?thesis unfolding update_column_def walk_cache_size cells by auto
qed

lemma cell_updateMapCache:
  assumes "in_cache r c" "on_map (wk_pos w) r c"
  shows "localMapCache (updateMapCache e w) r c = enterable e (square (wk_pos w) r c)"
proof -
  define ask where "ask y x w = (let pos = Position (word_of_int (getX (wk_pos w) + x)) (word_of_int (getY (wk_pos w) + y)) (pos_z (wk_pos w))
         in updateTileCache e (tile_at e pos) pos w)" for y x w
  have pos: "wk_pos (ask y x w) = wk_pos w" for y x w by (simp add: ask_def Let_def)
  have poss: "wk_pos (fold (ask y) xs w) = wk_pos w" for y xs w
    by (induction xs arbitrary: w) (simp_all add: pos)
  have cell: "localMapCache (ask y x w) r c =
      (if square (wk_pos w) (y + 11) (x + 11) = square (wk_pos w) r c then enterable e (square (wk_pos w) r c) else localMapCache w r c)"
    if "on_map (wk_pos w) r c" for y x w
  proof -
    have "ask y x w = updateTileCache e (tile_at e (square (wk_pos w) (y + 11) (x + 11))) (square (wk_pos w) (y + 11) (x + 11)) w"
      by (simp add: ask_def Let_def square_def)
    then show ?thesis using cell_updateTileCache [OF assms(1) that, of e] by simp
  qed
  have row: "localMapCache (fold (ask y) xs w) r c =
      (if \<exists>x \<in> set xs. square (wk_pos w) (y + 11) (x + 11) = square (wk_pos w) r c then enterable e (square (wk_pos w) r c)
       else localMapCache w r c)" if "on_map (wk_pos w) r c" for y xs w
    using that by (induction xs arbitrary: w) (auto simp: cell pos)
  have rows: "localMapCache (fold (\<lambda>y. fold (ask y) xs) ys w) r c =
      (if \<exists>y \<in> set ys. \<exists>x \<in> set xs. square (wk_pos w) (y + 11) (x + 11) = square (wk_pos w) r c then enterable e (square (wk_pos w) r c)
       else localMapCache w r c)" if "on_map (wk_pos w) r c" for xs ys w
    using that by (induction ys arbitrary: w) (auto simp: row poss)
  have "updateMapCache e w = fold (\<lambda>y. fold (ask y) [-11..11]) [-11..11] w"
    unfolding updateMapCache_def ask_def walk_cache_size ..
  moreover have "\<exists>y \<in> set [-11..11]. \<exists>x \<in> set [-11..11]. square (wk_pos w) (y + 11) (x + 11) = square (wk_pos w) r c"
  proof -
    have "r - 11 \<in> set [-11..11]" "c - 11 \<in> set [-11..11]" unfolding set_upto using assms(1) by (simp_all add: in_cache_def)
    moreover have "square (wk_pos w) (r - 11 + 11) (c - 11 + 11) = square (wk_pos w) r c" by simp
    ultimately show ?thesis by blast
  qed
  ultimately show ?thesis using rows [OF assms(2), of "[-11..11]" "[-11..11]"] by presburger
qed

lemma shift_up: "fold (\<lambda>y c. c(y + 1 := c y)) (rev [0..int n - 1]) c r = (if 1 \<le> r \<and> r \<le> int n then c (r - 1) else c r)"
proof (induction n arbitrary: c)
  case 0
  then show ?case by auto
next
  case (Suc n)
  have "rev [0..int (Suc n) - 1] = int n # rev [0..int n - 1]" using upto_rec2 [of 0 "int n"] by simp
  then show ?case using Suc by auto
qed

lemma shift_down: "fold (\<lambda>y c. c(y := c (y + 1))) [0..int n - 1] c r = (if 0 \<le> r \<and> r < int n then c (r + 1) else c r)"
proof (induction n arbitrary: r)
  case 0
  then show ?case by auto
next
  case (Suc n)
  have "[0..int (Suc n) - 1] = [0..int n - 1] @ [int n]" using upto_rec2 [of 0 "int n"] by simp
  then show ?case using Suc by auto
qed

lemma shift_south_eq: "shift_south cache r = (if 1 \<le> r \<and> r \<le> 22 then cache (r - 1) else cache r)"
  using shift_up [of 22 cache r] by (simp add: shift_south_def del: upto.simps)

lemma shift_north_eq: "shift_north cache r = (if 0 \<le> r \<and> r \<le> 21 then cache (r + 1) else cache r)"
  using shift_down [of 22 cache r] by (simp add: shift_north_def del: upto.simps)

text \<open>The loop over a row is a loop on that row, and the loop over rows treats each by itself.\<close>

lemma fold_row:
  "fold (\<lambda>x cache. cache(y := f x (cache y))) xs cache = cache(y := fold f xs (cache y))"
  by (induction xs arbitrary: cache) simp_all

lemma fold_rows:
  "distinct ys \<Longrightarrow> fold (\<lambda>y cache. cache(y := g (cache y))) ys cache r = (if r \<in> set ys then g (cache r) else cache r)"
  by (induction ys arbitrary: cache) auto

lemma shift_rows_west_eq:
  "shift_rows_west s e cache r c = (if s \<le> r \<and> r \<le> e \<and> 0 \<le> c \<and> c \<le> 21 then cache r (c + 1) else cache r c)"
proof -
  have "shift_rows_west s e cache =
      fold (\<lambda>y cache. cache(y := fold (\<lambda>x row. row(x := row (x + 1))) [0..23 - 2] (cache y))) [s..e] cache"
    unfolding shift_rows_west_def set_cell_def walk_cache_size
    by (rule fold_cong [OF refl refl], rule ext, rule fold_row)
  then show ?thesis using shift_down [of 22 "cache r" c] by (simp add: fold_rows)
qed

lemma shift_rows_east_eq:
  "shift_rows_east s e cache r c = (if s \<le> r \<and> r \<le> e \<and> 1 \<le> c \<and> c \<le> 22 then cache r (c - 1) else cache r c)"
proof -
  have "shift_rows_east s e cache =
      fold (\<lambda>y cache. cache(y := fold (\<lambda>x row. row(x + 1 := row x)) (rev [0..23 - 2]) (cache y))) [s..e] cache"
    unfolding shift_rows_east_def set_cell_def walk_cache_size
    by (rule fold_cong [OF refl refl], rule ext, rule fold_row)
  then show ?thesis using shift_up [of 22 "cache r" c] by (simp add: fold_rows del: upto.simps)
qed

subsection \<open>A step of the creature\<close>

text \<open>The cells after the shift along y and the new row, and after the shift along x and the new column.\<close>

lemma move_fields [simp]:
  "wk_pos (move_north_south e old new w) = wk_pos w" "isMapLoaded (move_north_south e old new w) = isMapLoaded w"
  "wk_useCacheMap (move_north_south e old new w) = wk_useCacheMap w"
  "wk_pos (move_east_west e old new w) = wk_pos w" "isMapLoaded (move_east_west e old new w) = isMapLoaded w"
  "wk_useCacheMap (move_east_west e old new w) = wk_useCacheMap w"
  by (simp_all add: move_north_south_def move_east_west_def split: prod.split)

lemma cell_north_south:
  assumes "in_cache r c"
  shows "localMapCache (move_north_south e old new w) r c =
    (if pos_y old > pos_y new then
       if r = 0 then enterable e (square (wk_pos w) r c) else localMapCache w (r - 1) c
     else if pos_y old < pos_y new then
       if r = 22 then enterable e (square (wk_pos w) r c) else localMapCache w (r + 1) c
     else localMapCache w r c)"
  using assms by (auto simp: move_north_south_def cell_update_row shift_south_eq shift_north_eq in_cache_def)

lemma shifted_rows_eq: "shifted_rows old new = (getDistanceY old new, 22)"
  by (simp add: shifted_rows_def Let_def getDistanceY_def)

lemma cell_east_west:
  assumes "in_cache r c"
  shows "localMapCache (move_east_west e old new w) r c =
    (if pos_x old < pos_x new then
       if c = 22 then enterable e (square (wk_pos w) r c)
       else if getDistanceY old new \<le> r then localMapCache w r (c + 1) else localMapCache w r c
     else if pos_x old > pos_x new then
       if c = 0 then enterable e (square (wk_pos w) r c)
       else if getDistanceY old new \<le> r then localMapCache w r (c - 1) else localMapCache w r c
     else localMapCache w r c)"
  using assms
  by (auto simp: move_east_west_def shifted_rows_eq cell_update_column shift_rows_west_eq shift_rows_east_eq in_cache_def)

text \<open>Every cell but the centre is right, unless its square is one of \<open>unheard\<close>.\<close>

definition exact_for :: "'tile walk_env \<Rightarrow> Position set \<Rightarrow> Position \<Rightarrow> (int \<Rightarrow> int \<Rightarrow> bool) \<Rightarrow> bool" where
  "exact_for e unheard p cache \<longleftrightarrow>
     (\<forall>r c. in_cache r c \<longrightarrow> on_map p r c \<longrightarrow> (r, c) \<noteq> (11, 11) \<longrightarrow> square p r c \<notin> unheard \<longrightarrow>
       cache r c = enterable e (square p r c))"

lemma exact_forD:
  "exact_for e U p cache \<Longrightarrow> in_cache r c \<Longrightarrow> on_map p r c \<Longrightarrow> (r, c) \<noteq> (11, 11) \<Longrightarrow> square p r c \<notin> U \<Longrightarrow>
    cache r c = enterable e (square p r c)"
  by (simp add: exact_for_def)

definition changed :: "'tile walk_env \<Rightarrow> 'tile walk_env \<Rightarrow> Position set" where
  "changed e e' = {q. enterable e' q \<noteq> enterable e q}"

text \<open>One step on the floor: \<open>new\<close> lies \<open>dx\<close>, \<open>dy\<close> from \<open>old\<close>, and is not \<open>old\<close>.\<close>

definition steps_to :: "Position \<Rightarrow> Position \<Rightarrow> int \<Rightarrow> int \<Rightarrow> bool" where
  "steps_to old new dx dy \<longleftrightarrow>
     getX new = getX old + dx \<and> getY new = getY old + dy \<and> pos_z new = pos_z old \<and>
     \<bar>dx\<bar> \<le> 1 \<and> \<bar>dy\<bar> \<le> 1 \<and> (dx, dy) \<noteq> (0, 0)"

lemma steps_to_less:
  assumes "steps_to old new dx dy"
  shows "pos_x old < pos_x new \<longleftrightarrow> dx = 1" "pos_x new < pos_x old \<longleftrightarrow> dx = -1"
    "pos_y old < pos_y new \<longleftrightarrow> dy = 1" "pos_y new < pos_y old \<longleftrightarrow> dy = -1" "getDistanceY old new = \<bar>dy\<bar>"
  using assms by (auto simp: steps_to_def word_less_def getX_def getY_def offset_defs)

lemma square_shift:
  assumes "steps_to old new dx dy"
  shows "square old (r + dy) (c + dx) = square new r c" "on_map old (r + dy) (c + dx) = on_map new r c"
  using assms by (simp_all add: steps_to_def square_def on_map_def algebra_simps)

lemma square_inj:
  assumes "on_map p r c" "on_map p r' c'" "square p r c = square p r' c'"
  shows "r = r' \<and> c = c'"
  using square_eq_iff [OF assms(2), of "square p r c"] square_eq_iff [OF assms(1), of "square p r c"] assms(3) by simp

lemma coordinate_bounds [simp]: "0 \<le> getX p" "getX p < 65536" "0 \<le> getY p" "getY p < 65536"
  using uint_lt2p [of "pos_x p"] uint_lt2p [of "pos_y p"] by (simp_all add: getX_def getY_def)

lemma on_map_centre [simp]: "on_map p 11 11"
  by (simp add: on_map_def)

lemma square_centre [simp]: "square p 11 11 = p"
  by (cases p) (simp add: square_def getX_def getY_def)

text \<open>What the shifts bring into a cell was exact for the same square before the step.\<close>

lemma shifted_cell:
  assumes exact: "exact_for e U old cache" and step: "steps_to old new dx dy"
    and cell: "in_cache (r + dy) (c + dx)" "on_map new r c" "square new r c \<noteq> old" "square new r c \<notin> U \<union> changed e e'"
  shows "cache (r + dy) (c + dx) = enterable e' (square new r c)"
proof -
  have "(r + dy, c + dx) \<noteq> (11, 11)"
    using square_shift(1) [OF step, of r c] cell(3) square_centre [of old] by auto
  then have "cache (r + dy) (c + dx) = enterable e (square new r c)"
    using exact_forD [OF exact cell(1)] cell(2,4) square_shift [OF step, of r c] by simp
  then show ?thesis using cell(4) by (simp add: changed_def)
qed

text \<open>Which cells a diagonal step to the south leaves behind: the first and the last row, but for the new column.\<close>

definition left_behind :: "int \<Rightarrow> int \<Rightarrow> int \<Rightarrow> int \<Rightarrow> bool" where
  "left_behind dx dy r c \<longleftrightarrow> dx \<noteq> 0 \<and> dy = 1 \<and> (r = 0 \<or> r = 22) \<and> c \<noteq> 11 + 11 * dx"

lemma cell_own_shifts:
  assumes exact: "exact_for e U old (localMapCache w)" and step: "steps_to old new dx dy" and new: "wk_pos w = new"
    and cell: "in_cache r c" "on_map new r c" "square new r c \<noteq> old" "square new r c \<notin> U \<union> changed e e'" "\<not> left_behind dx dy r c"
  shows "localMapCache (move_east_west e' old new (move_north_south e' old new w)) r c = enterable e' (square new r c)"
proof -
  have d: "dx = -1 \<or> dx = 0 \<or> dx = 1" "dy = -1 \<or> dy = 0 \<or> dy = 1" using step by (auto simp: steps_to_def)
  note less = steps_to_less [OF step]
  have shifted: "localMapCache w (r + dy) (c + dx) = enterable e' (square new r c)" if "in_cache (r + dy) (c + dx)"
    using shifted_cell [OF exact step that cell(2-4)] .
  have east: "localMapCache (move_north_south e' old new w) r (c + 1) = enterable e' (square new r c)"
    if "dx = 1" "c \<noteq> 22" "\<bar>dy\<bar> \<le> r"
    using d(2) that cell shifted
    by (elim disjE) (auto simp: cell_north_south less new in_cache_def left_behind_def)
  have west: "localMapCache (move_north_south e' old new w) r (c - 1) = enterable e' (square new r c)"
    if "dx = -1" "c \<noteq> 0" "\<bar>dy\<bar> \<le> r"
    using d(2) that cell shifted
    by (elim disjE) (auto simp: cell_north_south less new in_cache_def left_behind_def)
  have same: "localMapCache (move_north_south e' old new w) r c = enterable e' (square new r c)"
    if "dx = 0 \<or> dy = -1 \<and> r = 0"
    using d(2) that cell shifted
    by (elim disjE) (auto simp: cell_north_south less new in_cache_def left_behind_def)
  have fresh: "localMapCache (move_east_west e' old new (move_north_south e' old new w)) r c =
    (if dx = 1 then
       if c = 22 then enterable e' (square new r c)
       else if \<bar>dy\<bar> \<le> r then localMapCache (move_north_south e' old new w) r (c + 1) else localMapCache (move_north_south e' old new w) r c
     else if dx = -1 then
       if c = 0 then enterable e' (square new r c)
       else if \<bar>dy\<bar> \<le> r then localMapCache (move_north_south e' old new w) r (c - 1) else localMapCache (move_north_south e' old new w) r c
     else localMapCache (move_north_south e' old new w) r c)"
    by (simp only: cell_east_west [OF cell(1)] less new move_fields)
  have top: "dy = -1 \<and> r = 0" if "dx \<noteq> 0" "\<not> \<bar>dy\<bar> \<le> r" "c \<noteq> 11 + 11 * dx"
    using that cell(1,5) d(2) by (auto simp: in_cache_def left_behind_def)
  from d(1) show ?thesis
  proof (elim disjE)
    assume dx: "dx = -1"
    consider "c = 0" | "c \<noteq> 0" "\<bar>dy\<bar> \<le> r" | "c \<noteq> 0" "\<not> \<bar>dy\<bar> \<le> r" by blast
    then show ?thesis
    proof cases
      case 1
      with dx show ?thesis by (subst fresh) simp
    next
      case 2
      with dx show ?thesis using west [OF dx 2] by (subst fresh) simp
    next
      case 3
      then have "dy = -1 \<and> r = 0" using top dx by simp
      then have "localMapCache (move_north_south e' old new w) r c = enterable e' (square new r c)" by (intro same) simp
      with 3 dx show ?thesis by (subst fresh) simp
    qed
  next
    assume dx: "dx = 0"
    show ?thesis using same unfolding fresh dx by simp
  next
    assume dx: "dx = 1"
    consider "c = 22" | "c \<noteq> 22" "\<bar>dy\<bar> \<le> r" | "c \<noteq> 22" "\<not> \<bar>dy\<bar> \<le> r" by blast
    then show ?thesis
    proof cases
      case 1
      with dx show ?thesis by (subst fresh) simp
    next
      case 2
      with dx show ?thesis using east [OF dx 2] by (subst fresh) simp
    next
      case 3
      then have "dy = -1 \<and> r = 0" using top dx by simp
      then have "localMapCache (move_north_south e' old new w) r c = enterable e' (square new r c)" by (intro same) simp
      with 3 dx show ?thesis by (subst fresh) simp
    qed
  qed
qed

lemma own_move_exact:
  assumes exact: "exact_for e U old (localMapCache w)" and step: "steps_to old (wk_pos w) dx dy" and loaded: "isMapLoaded w"
    and cell: "in_cache r c" "on_map (wk_pos w) r c" "\<not> left_behind dx dy r c" "square (wk_pos w) r c \<notin> (U \<union> changed e e') - {old}"
  shows "localMapCache (onOwnMove e' old False w) r c = enterable e' (square (wk_pos w) r c)"
proof -
  have z: "pos_z old = pos_z (wk_pos w)" using step by (simp add: steps_to_def)
  define m where "m = move_east_west e' old (wk_pos w) (move_north_south e' old (wk_pos w) w)"
  moreover have "localMapCache (updateTileCache e' (tile_at e' old) old m) r c =
      (if old = square (wk_pos w) r c then enterable e' old else localMapCache m r c)"
    using cell_updateTileCache [OF cell(1), of m e' old] cell(2) by (simp add: m_def)
  moreover have "onOwnMove e' old False w = updateTileCache e' (tile_at e' old) old m"
    using z by (simp add: onOwnMove_def Let_def loaded m_def)
  ultimately show ?thesis
    using cell_own_shifts [OF exact step refl cell(1,2) _ _ cell(3)] cell(4) by (cases "old = square (wk_pos w) r c") simp_all
qed

text \<open>A diagonal step to the south: both rows keep what belongs one column further.\<close>

lemma own_move_stale:
  assumes step: "steps_to old (wk_pos w) dx 1" and dx: "dx = 1 \<or> dx = -1" and loaded: "isMapLoaded w"
    and cell: "in_cache 22 c" "on_map (wk_pos w) 22 c" "c \<noteq> 11 + 11 * dx"
  shows "localMapCache (onOwnMove e' old False w) 22 c = enterable e' (square (wk_pos w) 22 (c + dx))"
proof -
  have z: "pos_z old = pos_z (wk_pos w)" using step by (simp add: steps_to_def)
  note less = steps_to_less [OF step]
  have "old \<noteq> square (wk_pos w) 22 c"
    using step by (simp add: square_eq_iff [OF cell(2)] steps_to_def getOffsetY_def)
  moreover have "in_cache 22 (c + dx)" using cell(1,3) dx by (auto simp: in_cache_def)
  moreover define m where "m = move_east_west e' old (wk_pos w) (move_north_south e' old (wk_pos w) w)"
  moreover have "localMapCache m 22 c = enterable e' (square (wk_pos w) 22 (c + dx))"
  proof -
    have "localMapCache (move_north_south e' old (wk_pos w) w) 22 (c + dx) = enterable e' (square (wk_pos w) 22 (c + dx))"
      by (simp only: cell_north_south [OF \<open>in_cache 22 (c + dx)\<close>] less) simp
    then show ?thesis using dx cell(3) unfolding m_def cell_east_west [OF cell(1)] less by auto
  qed
  moreover have "localMapCache (updateTileCache e' (tile_at e' old) old m) 22 c = localMapCache m 22 c"
    using cell_updateTileCache [OF cell(1), of m e' old] cell(2) \<open>old \<noteq> square (wk_pos w) 22 c\<close> by (simp add: m_def)
  moreover have "onOwnMove e' old False w = updateTileCache e' (tile_at e' old) old m"
    using z by (simp add: onOwnMove_def Let_def loaded m_def)
  ultimately show ?thesis by simp
qed

subsection \<open>Histories\<close>

text \<open>
  \<open>canWalkTo\<close> of map.cpp.  For a monster its flags are those of the cache, so both are \<open>can_enter\<close>; the tile
  that differs from \<open>creature.getTile()\<close> is the tile of another position.
\<close>

definition canWalkTo :: "'tile walk_env \<Rightarrow> walker \<Rightarrow> Position \<Rightarrow> 'tile option" where
  "canWalkTo e w pos =
     (let walkCache = getWalkCache pos w
      in if walkCache = 0 then None
         else if walkCache = 1 then tile_at e pos
         else if pos \<noteq> wk_pos w then
           (case tile_at e pos of None \<Rightarrow> None | Some tile \<Rightarrow> if \<not> can_enter e tile then None else Some tile)
         else tile_at e pos)"

text \<open>
  What happens to a creature and the world around it.  A state has the world, the creature, and the squares whose
  answer the cache may have missed (a ghost component): \<open>changed\<close> says which squares answer differently after a
  step, and a call of a handler takes away the squares it asks about.  The world may change at any step, also
  without any call: \<open>Player:setGhostMode\<close> (luaplayer.cpp) and \<open>Creature::setMaster\<close> do that, and so does a
  change of an item that the handlers pass over.  A diagonal step to the south leaves two rows behind.
\<close>

definition left_squares :: "Position \<Rightarrow> int \<Rightarrow> int \<Rightarrow> Position set" where
  "left_squares new dx dy = {q. \<exists>r c. in_cache r c \<and> on_map new r c \<and> left_behind dx dy r c \<and> q = square new r c}"

type_synonym 'tile cache_state = "'tile walk_env \<times> walker \<times> Position set"

inductive cache_step :: "'tile cache_state \<Rightarrow> 'tile cache_state \<Rightarrow> bool" where
  silent: "cache_step (e, w, U) (e', w, U \<union> changed e e')"
| think: "cache_step (e, w, U) (e, onThink_cache e w, if isMapLoaded w then U else {})"
| refresh: "cache_step (e, w, U) (e', updateMapCache e' w, {})"
| stepping: "cache_step (e, w, U) (e, w\<lparr>wk_useCacheMap := b\<rparr>, U)"
| add_item: "cache_step (e, w, U) (e', onAddTileItem e' p w, U \<union> changed e e' - {p})"
| update_item: "cache_step (e, w, U) (e', onUpdateTileItem e' p blocking w, U \<union> changed e e' - (if blocking then {p} else {}))"
| remove_item: "cache_step (e, w, U) (e', onRemoveTileItem e' p blocking w, U \<union> changed e e' - (if blocking then {p} else {}))"
| appear: "\<not> isMapLoaded w \<Longrightarrow> cache_step (e, w, U) (e', onCreatureAppear e' None (w\<lparr>wk_pos := p\<rparr>), {})"
| other_appears: "cache_step (e, w, U) (e', onCreatureAppear e' (Some p) w, U \<union> changed e e' - {p})"
| other_leaves: "cache_step (e, w, U) (e', onRemoveCreature e' p w, U \<union> changed e e' - {p})"
| other_moves: "cache_step (e, w, U) (e', onOtherMove e' new old w, U \<union> changed e e' - {old, new})"
| moves: "steps_to (wk_pos w) new dx dy \<Longrightarrow>
    cache_step (e, w, U) (e', onOwnMove e' (wk_pos w) False (w\<lparr>wk_pos := new\<rparr>),
      (U \<union> changed e e' - {wk_pos w}) \<union> left_squares new dx dy)"
| jumps: "teleport \<or> pos_z new \<noteq> pos_z (wk_pos w) \<Longrightarrow>
    cache_step (e, w, U) (e', onOwnMove e' (wk_pos w) teleport (w\<lparr>wk_pos := new\<rparr>), {})"

inductive cache_reachable :: "'tile cache_state \<Rightarrow> bool" where
  "\<not> isMapLoaded w \<Longrightarrow> cache_reachable (e, w, {})"
| "cache_reachable s \<Longrightarrow> cache_step s s' \<Longrightarrow> cache_reachable s'"

definition cache_ok :: "'tile cache_state \<Rightarrow> bool" where
  "cache_ok = (\<lambda>(e, w, U). isMapLoaded w \<longrightarrow> exact_for e U (wk_pos w) (localMapCache w))"

lemma cache_okI:
  "(\<And>r c. isMapLoaded w \<Longrightarrow> in_cache r c \<Longrightarrow> on_map (wk_pos w) r c \<Longrightarrow> (r, c) \<noteq> (11, 11) \<Longrightarrow> square (wk_pos w) r c \<notin> U \<Longrightarrow>
     localMapCache w r c = enterable e (square (wk_pos w) r c)) \<Longrightarrow> cache_ok (e, w, U)"
  by (simp add: cache_ok_def exact_for_def)

lemma cache_okD:
  "cache_ok (e, w, U) \<Longrightarrow> isMapLoaded w \<Longrightarrow> in_cache r c \<Longrightarrow> on_map (wk_pos w) r c \<Longrightarrow> (r, c) \<noteq> (11, 11) \<Longrightarrow>
    square (wk_pos w) r c \<notin> U \<Longrightarrow> localMapCache w r c = enterable e (square (wk_pos w) r c)"
  by (simp add: cache_ok_def exact_for_def)

lemma cache_ok_updateMapCache: "cache_ok (e, updateMapCache e w, U)"
  by (simp add: cache_ok_def exact_for_def cell_updateMapCache)

lemma cache_ok_unloaded: "\<not> isMapLoaded w \<Longrightarrow> cache_ok (e, w, U)"
  by (simp add: cache_ok_def)

lemma cache_ok_silent: "cache_ok (e, w, U) \<Longrightarrow> cache_ok (e', w, U \<union> changed e e')"
  by (rule cache_okI) (auto simp: changed_def dest: cache_okD)

text \<open>A square of another floor is not in the cache.\<close>

lemma cache_ok_floor:
  assumes "cache_ok (e, w, U)" "isMapLoaded w \<Longrightarrow> pos_z p \<noteq> pos_z (wk_pos w)"
  shows "cache_ok (e, w, U - {p})"
proof (rule cache_okI)
  fix r c assume cell: "isMapLoaded w" "in_cache r c" "on_map (wk_pos w) r c" "(r, c) \<noteq> (11, 11)" "square (wk_pos w) r c \<notin> U - {p}"
  have "square (wk_pos w) r c \<noteq> p" using assms(2) [OF cell(1)] by (auto simp: square_def)
  then show "localMapCache w r c = enterable e (square (wk_pos w) r c)" using cache_okD [OF assms(1) cell(1-4)] cell(5) by simp
qed

text \<open>News of one position: its cell is asked for again.\<close>

lemma cache_ok_update:
  assumes "cache_ok (e, w, U)"
  shows "cache_ok (e, updateTileCache e (tile_at e p) p w, U - {p})"
proof (rule cache_okI, unfold updateTileCache_fields)
  fix r c assume cell: "isMapLoaded w" "in_cache r c" "on_map (wk_pos w) r c" "(r, c) \<noteq> (11, 11)" "square (wk_pos w) r c \<notin> U - {p}"
  show "localMapCache (updateTileCache e (tile_at e p) p w) r c = enterable e (square (wk_pos w) r c)"
    using cell_updateTileCache [OF cell(2,3), of e p] cache_okD [OF assms cell(1-4)] cell(5) by auto
qed

lemma cache_ok_news:
  assumes "cache_ok (e, w, U)"
  shows "cache_ok (e, if isMapLoaded w \<and> pos_z p = pos_z (wk_pos w) then updateTileCache e (tile_at e p) p w else w, U - {p})"
  using cache_ok_update [OF assms, of p] cache_ok_floor [OF assms, of p] by auto

text \<open>A move of another creature is the news of two positions, one after the other.\<close>

lemma cache_ok_other_moves:
  assumes ok: "cache_ok (e, w, U)"
  shows "cache_ok (e, onOtherMove e new old w, U - {old, new})"
proof (cases "isMapLoaded w")
  case True
  define w1 where "w1 = (if isMapLoaded w \<and> pos_z new = pos_z (wk_pos w) then updateTileCache e (tile_at e new) new w else w)"
  have pos: "wk_pos w1 = wk_pos w" "isMapLoaded w1" by (simp_all add: w1_def True)
  have "onOtherMove e new old w = (if isMapLoaded w1 \<and> pos_z old = pos_z (wk_pos w1) then updateTileCache e (tile_at e old) old w1 else w1)"
    by (simp add: onOtherMove_def True Let_def w1_def)
  moreover have "U - {old, new} = U - {new} - {old}" by blast
  ultimately show ?thesis using cache_ok_news [OF cache_ok_news [OF ok, of new, folded w1_def], of old] by simp
next
  case False
  then show ?thesis by (simp add: cache_ok_def onOtherMove_def)
qed

lemma cache_ok_moves:
  assumes "cache_ok (e, w, U)" "steps_to (wk_pos w) new dx dy"
  shows "cache_ok (e', onOwnMove e' (wk_pos w) False (w\<lparr>wk_pos := new\<rparr>), (U \<union> changed e e' - {wk_pos w}) \<union> left_squares new dx dy)"
proof (rule cache_okI)
  let ?w = "w\<lparr>wk_pos := new\<rparr>"
  have fields: "wk_pos (onOwnMove e' (wk_pos w) False ?w) = new" "isMapLoaded (onOwnMove e' (wk_pos w) False ?w) = isMapLoaded w"
    by (simp_all add: onOwnMove_def Let_def)
  fix r c assume cell: "isMapLoaded (onOwnMove e' (wk_pos w) False ?w)" "in_cache r c" "on_map (wk_pos (onOwnMove e' (wk_pos w) False ?w)) r c"
    "square (wk_pos (onOwnMove e' (wk_pos w) False ?w)) r c \<notin> (U \<union> changed e e' - {wk_pos w}) \<union> left_squares new dx dy"
  then have "\<not> left_behind dx dy r c" unfolding fields by (auto simp: left_squares_def)
  then show "localMapCache (onOwnMove e' (wk_pos w) False ?w) r c = enterable e' (square (wk_pos (onOwnMove e' (wk_pos w) False ?w)) r c)"
    using own_move_exact [of e U "wk_pos w" ?w dx dy r c e'] assms cell unfolding fields by (simp add: cache_ok_def)
qed

lemma cache_step_ok: "cache_step s s' \<Longrightarrow> cache_ok s \<Longrightarrow> cache_ok s'"
proof (induction rule: cache_step.induct)
  case (silent e w U e')
  then show ?case by (rule cache_ok_silent)
next
  case (think e w U)
  then show ?case by (auto simp: onThink_cache_def cache_ok_updateMapCache intro: cache_ok_unloaded)
next
  case (refresh e w U e')
  show ?case by (rule cache_ok_updateMapCache)
next
  case (stepping e w U b)
  then show ?case by (simp add: cache_ok_def)
next
  case (add_item e w U e' p)
  then show ?case using cache_ok_news [OF cache_ok_silent] by (simp only: onAddTileItem_def)
next
  case (update_item e w U e' p blocking)
  then show ?case using cache_ok_news [OF cache_ok_silent [OF update_item, of e'], of p] cache_ok_silent [OF update_item, of e']
    by (cases blocking) (auto simp: onUpdateTileItem_def)
next
  case (remove_item e w U e' p blocking)
  then show ?case using cache_ok_news [OF cache_ok_silent [OF remove_item, of e'], of p] cache_ok_silent [OF remove_item, of e']
    by (cases blocking) (auto simp: onRemoveTileItem_def)
next
  case (appear w e U e' p)
  then show ?case by (auto simp: onCreatureAppear_def cache_ok_updateMapCache intro: cache_ok_unloaded)
next
  case (other_appears e w U e' p)
  then show ?case using cache_ok_news [OF cache_ok_silent [OF other_appears, of e'], of p] by (auto simp: onCreatureAppear_def)
next
  case (other_leaves e w U e' p)
  then show ?case using cache_ok_news [OF cache_ok_silent [OF other_leaves, of e'], of p] by (auto simp: onRemoveCreature_def)
next
  case (other_moves e w U e' new old)
  then show ?case by (intro cache_ok_other_moves cache_ok_silent)
next
  case (moves w new dx dy e U e')
  then show ?case by (intro cache_ok_moves)
next
  case (jumps teleport new w e U e')
  then show ?case by (auto simp: onOwnMove_def Let_def cache_ok_updateMapCache intro: cache_ok_unloaded)
qed

lemma cache_reachable_ok: "cache_reachable s \<Longrightarrow> cache_ok s"
  by (induction rule: cache_reachable.induct) (auto simp: cache_step_ok intro: cache_ok_unloaded)

text \<open>The cell that \<open>getWalkCache\<close> reads.\<close>

lemma getWalkCache_cell:
  assumes "wk_useCacheMap w" "pos_z pos = pos_z (wk_pos w)" "pos \<noteq> wk_pos w"
    and "\<bar>getOffsetX pos (wk_pos w)\<bar> \<le> 11" "\<bar>getOffsetY pos (wk_pos w)\<bar> \<le> 11"
  shows "getWalkCache pos w = (if localMapCache w (11 + getOffsetY pos (wk_pos w)) (11 + getOffsetX pos (wk_pos w)) then 1 else 0)"
  using assms by (simp add: getWalkCache_def Let_def)

lemma own_cell:
  assumes "pos_z pos = pos_z p" "\<bar>getOffsetX pos p\<bar> \<le> 11" "\<bar>getOffsetY pos p\<bar> \<le> 11"
  shows "in_cache (11 + getOffsetY pos p) (11 + getOffsetX pos p)" "on_map p (11 + getOffsetY pos p) (11 + getOffsetX pos p)"
    "square p (11 + getOffsetY pos p) (11 + getOffsetX pos p) = pos"
    "pos \<noteq> p \<Longrightarrow> (11 + getOffsetY pos p, 11 + getOffsetX pos p) \<noteq> (11, 11)"
proof -
  show sq: "square p (11 + getOffsetY pos p) (11 + getOffsetX pos p) = pos"
    using assms(1) by (cases pos) (simp add: square_offset)
  show "in_cache (11 + getOffsetY pos p) (11 + getOffsetX pos p)" using assms by (auto simp: in_cache_def)
  show "on_map p (11 + getOffsetY pos p) (11 + getOffsetX pos p)"
    by (simp add: on_map_def getOffsetX_def getOffsetY_def)
  show "(11 + getOffsetY pos p, 11 + getOffsetX pos p) \<noteq> (11, 11)" if "pos \<noteq> p"
    using sq that square_centre [of p] by auto
qed

lemma getWalkCache_exact:
  assumes "cache_ok (e, w, U)" "isMapLoaded w" "wk_useCacheMap w" "pos_z pos = pos_z (wk_pos w)" "pos \<noteq> wk_pos w" "pos \<notin> U"
  shows "getWalkCache pos w \<in> {2, if enterable e pos then 1 else 0}"
proof (cases "\<bar>getOffsetX pos (wk_pos w)\<bar> \<le> 11 \<and> \<bar>getOffsetY pos (wk_pos w)\<bar> \<le> 11")
  case True
  then have range: "\<bar>getOffsetX pos (wk_pos w)\<bar> \<le> 11" "\<bar>getOffsetY pos (wk_pos w)\<bar> \<le> 11" by simp_all
  note cell = own_cell [OF assms(4) range]
  from cache_okD [OF assms(1,2) cell(1,2) cell(4) [OF assms(5)]] assms(6)
  have "localMapCache w (11 + getOffsetY pos (wk_pos w)) (11 + getOffsetX pos (wk_pos w)) = enterable e pos" by (simp add: cell(3))
  then show ?thesis unfolding getWalkCache_cell [OF assms(3-5) range] by simp
next
  case False
  then show ?thesis using assms by (auto simp: getWalkCache_def Let_def)
qed

lemma canWalkTo_cached:
  assumes "cache_ok (e, w, U)" "isMapLoaded w" "pos_z pos = pos_z (wk_pos w)" "pos \<notin> U \<or> pos = wk_pos w"
  shows "canWalkTo e w pos =
    (if pos = wk_pos w then tile_at e pos
     else case tile_at e pos of None \<Rightarrow> None | Some tile \<Rightarrow> if can_enter e tile then Some tile else None)"
proof (cases "wk_useCacheMap w \<and> pos \<noteq> wk_pos w")
  case True
  then have "getWalkCache pos w = 2 \<or> getWalkCache pos w = (if enterable e pos then 1 else 0)"
    using getWalkCache_exact [OF assms(1,2) _ assms(3)] assms(4) by blast
  then show ?thesis using True by (auto simp: canWalkTo_def Let_def enterable_def split: option.splits if_splits)
next
  case False
  then show ?thesis using assms(3)
    by (auto simp: canWalkTo_def getWalkCache_def Let_def split: option.splits)
qed

subsection \<open>Properties\<close>

text \<open>
  C34: after any history of a monster and the world around it, the cache is right about every square on the floor of
  the monster but those in \<open>U\<close>: what it says of the square is whether it can be entered now (or that it does not
  know), and \<open>canWalkTo\<close> answers with the cache as without.  \<open>U\<close> holds the squares whose answer changed without a
  call that asks for them since (a player in ghost mode, a new master), and those of the two rows that a diagonal
  step to the south leaves behind; a call of \<open>updateMapCache\<close> empties it.
\<close>

theorem walk_cache_exact:
  assumes "cache_reachable (e, w, U)" "isMapLoaded w" "pos_z pos = pos_z (wk_pos w)" "pos \<notin> U \<or> pos = wk_pos w"
  shows "getWalkCache pos w \<in> {2, if pos = wk_pos w \<or> enterable e pos then 1 else 0} \<and>
    canWalkTo e w pos = canWalkTo e (w\<lparr>wk_useCacheMap := False\<rparr>) pos"
proof -
  have ok: "cache_ok (e, w, U)" using assms(1) by (rule cache_reachable_ok)
  then have "cache_ok (e, w\<lparr>wk_useCacheMap := False\<rparr>, U)" by (simp add: cache_ok_def)
  moreover have "getWalkCache pos w \<in> {2, if pos = wk_pos w \<or> enterable e pos then 1 else 0}"
    using getWalkCache_exact [OF ok assms(2) _ assms(3)] assms(3,4)
    by (cases "wk_useCacheMap w"; cases "pos = wk_pos w") (auto simp: getWalkCache_def)
  ultimately show ?thesis
    using canWalkTo_cached [OF ok assms(2-4)] canWalkTo_cached [of e "w\<lparr>wk_useCacheMap := False\<rparr>" U pos] assms(2-4) by simp
qed

text \<open>
  C35: a diagonal step to the south-east breaks the cache.  The rows to shift are found with the distance, which is
  never negative, where the offset was meant: the new southern row, just asked for, is shifted west with the
  others, so that every square of it but the last is taken for its eastern neighbour.
\<close>

theorem diagonal_south_stale:
  assumes loaded: "isMapLoaded w" "wk_useCacheMap w" and step: "steps_to (wk_pos w) new 1 1"
    and pos: "pos_z pos = pos_z new" "getOffsetY pos new = 11" "\<bar>getOffsetX pos new\<bar> \<le> 11" "getOffsetX pos new \<noteq> 11"
  shows "getWalkCache pos (onOwnMove e' (wk_pos w) False (w\<lparr>wk_pos := new\<rparr>)) =
    (if enterable e' (getNextPosition DIRECTION_EAST pos) then 1 else 0)"
proof -
  let ?w = "w\<lparr>wk_pos := new\<rparr>"
  have fields: "wk_pos (onOwnMove e' (wk_pos w) False ?w) = new"
    "wk_useCacheMap (onOwnMove e' (wk_pos w) False ?w)" using loaded by (simp_all add: onOwnMove_def Let_def)
  have ne: "pos \<noteq> new" using pos(2) by (auto simp: getOffsetY_def)
  have y: "\<bar>getOffsetY pos new\<bar> \<le> 11" using pos(2) by simp
  note cell = own_cell [OF pos(1,3) y]
  have "localMapCache (onOwnMove e' (wk_pos w) False ?w) (11 + getOffsetY pos new) (11 + getOffsetX pos new)
      = enterable e' (square new 22 (11 + getOffsetX pos new + 1))"
    using own_move_stale [of "wk_pos w" ?w 1 "11 + getOffsetX pos new" e'] step loaded cell pos by simp
  moreover have "square new 22 (11 + getOffsetX pos new + 1) = getNextPosition DIRECTION_EAST pos"
  proof -
    have "getX new + (11 + getOffsetX pos new + 1 - 11) = getX pos + 1" "getY new + (22 - 11) = getY pos"
      using pos(2) by (simp_all add: getOffsetX_def getOffsetY_def)
    then have "square new 22 (11 + getOffsetX pos new + 1) = Position (pos_x pos + 1) (pos_y pos) (pos_z pos)"
      by (simp only: square_def) (simp add: pos(1))
    then show ?thesis by (cases pos) simp
  qed
  moreover have "getWalkCache pos (onOwnMove e' (wk_pos w) False ?w) =
      (if localMapCache (onOwnMove e' (wk_pos w) False ?w) (11 + getOffsetY pos new) (11 + getOffsetX pos new) then 1 else 0)"
    using getWalkCache_cell [of "onOwnMove e' (wk_pos w) False ?w" pos] fields pos(1,3) y ne by simp
  ultimately show ?thesis by simp
qed

text \<open>Two tiles: a wall at (100, 112), and east of it, at (101, 112), one that can be entered.\<close>

definition two_tiles :: "bool walk_env" where
  "two_tiles = \<lparr>we_map = setTile (\<lambda>_ t. t) 101 112 7 True (setTile (\<lambda>_ t. t) 100 112 7 False empty_map), can_enter = id\<rparr>"

definition new_walker :: walker where
  "new_walker = \<lparr>wk_pos = Position 0 0 0, wk_useCacheMap = True, isMapLoaded = False, localMapCache = (\<lambda>_ _. False)\<rparr>"

definition placed_walker :: "Position \<Rightarrow> walker" where
  "placed_walker p = onCreatureAppear two_tiles None (new_walker\<lparr>wk_pos := p\<rparr>)"

lemma placed_walker_fields [simp]: "wk_pos (placed_walker p) = p" "isMapLoaded (placed_walker p)" "wk_useCacheMap (placed_walker p)"
  by (simp_all add: placed_walker_def onCreatureAppear_def new_walker_def)

lemma placed_walker_reachable: "cache_reachable (two_tiles, placed_walker p, {})"
proof -
  have "cache_reachable (two_tiles, new_walker, {})" by (rule cache_reachable.intros) (simp add: new_walker_def)
  then show ?thesis unfolding placed_walker_def
    by (rule cache_reachable.intros, intro appear) (simp add: new_walker_def)
qed

lemma two_tiles_at:
  "tile_at two_tiles (Position 101 112 7) = Some True" "tile_at two_tiles (Position 100 112 7) = Some False"
  by (simp_all add: tile_at_def two_tiles_def getTile_setTile setTile_ok empty_map_ok getTile_empty MAP_MAX_LAYERS_def)

theorem walk_cache_exact_witness:
  "canWalkTo two_tiles (onOwnMove two_tiles (Position 100 100 7) False (placed_walker (Position 100 100 7)\<lparr>wk_pos := Position 101 100 7\<rparr>))
      (Position 100 112 7) =
   canWalkTo two_tiles (onOwnMove two_tiles (Position 100 100 7) False (placed_walker (Position 100 100 7)\<lparr>wk_pos := Position 101 100 7\<rparr>)
      \<lparr>wk_useCacheMap := False\<rparr>) (Position 100 112 7)"
proof -
  let ?w = "onOwnMove two_tiles (Position 100 100 7) False (placed_walker (Position 100 100 7)\<lparr>wk_pos := Position 101 100 7\<rparr>)"
  let ?U = "({} \<union> changed two_tiles two_tiles - {wk_pos (placed_walker (Position 100 100 7))}) \<union> left_squares (Position 101 100 7) 1 0"
  have "cache_step (two_tiles, placed_walker (Position 100 100 7), {}) (two_tiles, ?w, ?U)"
    using cache_step.moves [of "placed_walker (Position 100 100 7)" "Position 101 100 7" 1 0 two_tiles "{}" two_tiles]
    by (simp add: steps_to_def getX_def getY_def)
  then have reached: "cache_reachable (two_tiles, ?w, ?U)" by (rule cache_reachable.intros(2) [OF placed_walker_reachable])
  have U: "?U = {}" by (simp add: changed_def left_squares_def left_behind_def)
  from reached have reach: "cache_reachable (two_tiles, ?w, {})" unfolding U .
  have fields: "isMapLoaded ?w" "wk_pos ?w = Position 101 100 7" by (simp_all add: onOwnMove_def Let_def)
  show ?thesis using walk_cache_exact [OF reach fields(1), of "Position 100 112 7"] fields(2) by simp
qed

text \<open>After a step to the south-east the wall passes for a square to walk to.\<close>

theorem diagonal_south_stale_witness:
  "canWalkTo two_tiles (onOwnMove two_tiles (Position 100 100 7) False (placed_walker (Position 100 100 7)\<lparr>wk_pos := Position 101 101 7\<rparr>))
     (Position 100 112 7) = Some False \<and> \<not> enterable two_tiles (Position 100 112 7)"
proof -
  let ?w = "placed_walker (Position 100 100 7)"
  have "enterable two_tiles (Position 101 112 7)" using two_tiles_at by (simp add: enterable_def) (simp add: two_tiles_def)
  then have "getWalkCache (Position 100 112 7) (onOwnMove two_tiles (wk_pos ?w) False (?w\<lparr>wk_pos := Position 101 101 7\<rparr>)) = 1"
    using diagonal_south_stale [of ?w "Position 101 101 7" "Position 100 112 7" two_tiles]
    by (simp add: steps_to_def getX_def getY_def getOffsetX_def getOffsetY_def)
  moreover have "\<not> enterable two_tiles (Position 100 112 7)" using two_tiles_at by (simp add: enterable_def) (simp add: two_tiles_def)
  ultimately show ?thesis using two_tiles_at by (simp add: canWalkTo_def)
qed

end
