(* ===== verification/Binary_Floats.thy ===== *)
theory Binary_Floats
  imports Complex_Main "HOL-Library.Log_Nat"
begin

text \<open>
  The results of floating-point operations: the exact rational result rounded to a number of significant
  bits, to nearest with ties to even, as IEEE 754 asks of \<open>float\<close> (24 bits) and \<open>double\<close> (53 bits).  Overflow
  and subnormal numbers do not arise from the values the server computes with and are left out.
\<close>

definition pow2 :: "int \<Rightarrow> rat" where
  "pow2 e = (if 0 \<le> e then 2 ^ nat e else 1 / 2 ^ nat (- e))"

definition round_half_even :: "rat \<Rightarrow> int" where
  "round_half_even q =
     (let n = \<lfloor>q\<rfloor>; r = q - of_int n
      in if r < 1 / 2 then n else if 1 / 2 < r then n + 1 else if even n then n else n + 1)"

text \<open>The exponent of the last of \<open>p\<close> significant bits of \<open>q\<close>.\<close>

definition last_bit :: "int \<Rightarrow> rat \<Rightarrow> int" where
  "last_bit p q =
     (let (n, d) = quotient_of \<bar>q\<bar>; e = bitlen n - bitlen d - p
      in if \<bar>q\<bar> < pow2 (e + p) then e else e + 1)"

definition round_bits :: "int \<Rightarrow> rat \<Rightarrow> rat" where
  "round_bits p q = (if q = 0 then 0 else let e = last_bit p q in of_int (round_half_even (q / pow2 e)) * pow2 e)"

definition to_float :: "rat \<Rightarrow> rat" where "to_float = round_bits 24"
definition to_double :: "rat \<Rightarrow> rat" where "to_double = round_bits 53"

subsection \<open>How far rounding goes\<close>

lemma pow2_pos [simp]: "0 < pow2 e"
  by (simp add: pow2_def)

lemma pow2_Suc: "pow2 (e + 1) = 2 * pow2 e"
proof (cases "0 \<le> e")
  case True
  then show ?thesis by (simp add: pow2_def nat_add_distrib)
next
  case False
  then have "nat (- e) = Suc (nat (- (e + 1)))" by simp
  with False show ?thesis by (simp add: pow2_def)
qed

lemma pow2_add: "pow2 (a + b) = pow2 a * pow2 b"
proof -
  have nat_case: "pow2 (a + int n) = pow2 a * pow2 (int n)" for a n
  proof (induction n)
    case (Suc n)
    have "pow2 (a + int (Suc n)) = 2 * pow2 (a + int n)" using pow2_Suc [of "a + int n"] by (simp add: ac_simps)
    also have "\<dots> = pow2 a * pow2 (int (Suc n))" using pow2_Suc [of "int n"] Suc by (simp add: ac_simps)
    finally show ?case .
  qed (simp add: pow2_def)
  show ?thesis
  proof (cases "0 \<le> b")
    case True
    then show ?thesis using nat_case [of a "nat b"] by simp
  next
    case False
    have "pow2 (a + b) * pow2 (- b) = pow2 a" using False nat_case [of "a + b" "nat (- b)"] by simp
    moreover have "pow2 b * pow2 (- b) = 1" using False nat_case [of b "nat (- b)"] by (simp add: pow2_def)
    ultimately show ?thesis by (metis mult.assoc mult.commute mult.right_neutral)
  qed
qed

lemma pow2_mono: "a \<le> b \<Longrightarrow> pow2 a \<le> pow2 b"
proof -
  assume "a \<le> b"
  then have "1 \<le> pow2 (b - a)" by (simp add: pow2_def)
  then have "pow2 a * 1 \<le> pow2 a * pow2 (b - a)" by (intro mult_left_mono) (simp_all add: less_imp_le)
  then show ?thesis by (simp flip: pow2_add)
qed

lemma pow2_strict_mono: "a < b \<Longrightarrow> pow2 a < pow2 b"
  using pow2_mono [of "a + 1" b] pow2_Suc [of a] pow2_pos [of a] by linarith

lemma round_half_even_error: "\<bar>of_int (round_half_even q) - q\<bar> \<le> 1 / 2"
proof -
  define r where "r = q - of_int \<lfloor>q\<rfloor>"
  have "0 \<le> r" "r < 1" unfolding r_def by linarith+
  moreover have "round_half_even q = \<lfloor>q\<rfloor> \<and> r \<le> 1 / 2 \<or> round_half_even q = \<lfloor>q\<rfloor> + 1 \<and> 1 / 2 \<le> r"
    unfolding round_half_even_def Let_def r_def [symmetric] by auto
  moreover have "q = of_int \<lfloor>q\<rfloor> + r" by (simp add: r_def)
  ultimately show ?thesis by (auto simp: abs_if)
qed

lemma bitlen_pow2_bounds:
  assumes "0 < n"
  shows "pow2 (bitlen n - 1) \<le> of_int n" "of_int n < pow2 (bitlen n)"
proof -
  have *: "2 ^ nat (bitlen n - 1) \<le> n" "n < 2 ^ nat (bitlen n)" using bitlen_bounds [OF assms] by auto
  have "0 < bitlen n" using assms bitlen_eq_zero_iff [of n] bitlen_nonneg [of n] by linarith
  then have "pow2 (bitlen n - 1) = of_int (2 ^ nat (bitlen n - 1))" "pow2 (bitlen n) = of_int (2 ^ nat (bitlen n))"
    by (simp_all add: pow2_def)
  with * show "pow2 (bitlen n - 1) \<le> of_int n" "of_int n < pow2 (bitlen n)"
    by (simp_all only: of_int_le_iff of_int_less_iff)
qed

text \<open>The last bit is the last of \<open>p\<close>: the leading one stands \<open>p - 1\<close> places before it.\<close>

lemma last_bit_bounds:
  assumes "q \<noteq> 0"
  shows "pow2 (last_bit p q + p - 1) \<le> \<bar>q\<bar>" "\<bar>q\<bar> < pow2 (last_bit p q + p)"
proof -
  obtain n d where nd: "quotient_of \<bar>q\<bar> = (n, d)" by fastforce
  then have d: "0 < d" and q: "\<bar>q\<bar> = of_int n / of_int d"
    using quotient_of_denom_pos [of "\<bar>q\<bar>"] quotient_of_div [of "\<bar>q\<bar>"] by auto
  have "0 < \<bar>q\<bar>" using assms by simp
  then have n: "0 < n" using d by (simp add: q zero_less_divide_iff)
  have bn: "pow2 (bitlen n - 1) \<le> of_int n" "of_int n < pow2 (bitlen n)" by (fact bitlen_pow2_bounds [OF n])+
  have bd: "pow2 (bitlen d - 1) \<le> of_int d" "of_int d < pow2 (bitlen d)" by (fact bitlen_pow2_bounds [OF d])+
  define e where "e = bitlen n - bitlen d - p"
  have "pow2 (e + p - 1) * of_int d \<le> pow2 (e + p - 1) * pow2 (bitlen d)" using bd by simp
  also have "\<dots> = pow2 (bitlen n - 1)" by (simp add: e_def flip: pow2_add)
  finally have lo: "pow2 (e + p - 1) \<le> \<bar>q\<bar>" using bn d by (simp add: q field_simps)
  have "of_int n < pow2 (bitlen n)" by (rule bn)
  also have "\<dots> = pow2 (e + p + 1) * pow2 (bitlen d - 1)" by (simp add: e_def flip: pow2_add)
  also have "\<dots> \<le> pow2 (e + p + 1) * of_int d" using bd by simp
  finally have hi: "\<bar>q\<bar> < pow2 (e + p + 1)" using d by (simp add: q field_simps)
  show "pow2 (last_bit p q + p - 1) \<le> \<bar>q\<bar>" "\<bar>q\<bar> < pow2 (last_bit p q + p)"
    using lo hi unfolding last_bit_def nd prod.case Let_def e_def [symmetric] by (auto simp: ac_simps)
qed

text \<open>A number below \<open>2 ^ m\<close> is rounded by at most \<open>2 ^ (m - p - 1)\<close>.\<close>

lemma round_bits_error:
  assumes "\<bar>q\<bar> < pow2 m"
  shows "\<bar>round_bits p q - q\<bar> \<le> pow2 (m - p - 1)"
proof (cases "q = 0")
  case False
  define e where "e = last_bit p q"
  have "pow2 (e + p - 1) < pow2 m" using last_bit_bounds(1) [OF False, of p] assms by (simp add: e_def)
  then have em: "e \<le> m - p" using pow2_mono [of m "e + p - 1"] by linarith
  have "round_bits p q - q = (of_int (round_half_even (q / pow2 e)) - q / pow2 e) * pow2 e"
    using False by (simp add: round_bits_def e_def [symmetric] left_diff_distrib less_imp_neq [OF pow2_pos, symmetric])
  then have "\<bar>round_bits p q - q\<bar> = \<bar>of_int (round_half_even (q / pow2 e)) - q / pow2 e\<bar> * pow2 e"
    by (simp add: abs_mult less_imp_le)
  also have "\<dots> \<le> 1 / 2 * pow2 e" using round_half_even_error by (intro mult_right_mono) (auto simp: less_imp_le)
  also have "\<dots> = pow2 (e - 1)" using pow2_Suc [of "e - 1"] by simp
  also have "\<dots> \<le> pow2 (m - p - 1)" using em by (intro pow2_mono) simp
  finally show ?thesis .
qed (simp add: round_bits_def less_imp_le)

lemma to_float_error: "\<bar>q\<bar> < pow2 m \<Longrightarrow> \<bar>to_float q - q\<bar> \<le> pow2 (m - 25)"
  using round_bits_error [of q m 24] by (simp add: to_float_def)

lemma to_double_error: "\<bar>q\<bar> < pow2 m \<Longrightarrow> \<bar>to_double q - q\<bar> \<le> pow2 (m - 54)"
  using round_bits_error [of q m 53] by (simp add: to_double_def)

text \<open>Integers of at most \<open>p\<close> bits, such as all the coordinates and their differences in a \<open>float\<close>, are exact.\<close>

lemma round_bits_int:
  assumes "\<bar>i\<bar> < 2 ^ nat p" and "0 \<le> p"
  shows "round_bits p (of_int i) = of_int i"
proof (cases "i = 0")
  case False
  define e where "e = last_bit p (of_int i)"
  have i: "\<bar>of_int i\<bar> = (of_int \<bar>i\<bar> :: rat)" "of_int i \<noteq> (0 :: rat)" using False by auto
  have "\<bar>i\<bar> < 2 ^ nat p" by (rule assms)
  then have "(of_int \<bar>i\<bar> :: rat) < of_int (2 ^ nat p)" by (simp only: of_int_less_iff)
  then have "\<bar>of_int i\<bar> < pow2 p" using assms(2) by (simp add: pow2_def)
  then have "pow2 (e + p - 1) < pow2 p" using last_bit_bounds(1) [OF i(2), of p] by (simp add: e_def)
  then have "e \<le> 0" using pow2_mono [of p "e + p - 1"] by linarith
  then have "of_int i / pow2 e = (of_int (i * 2 ^ nat (- e)) :: rat)" by (auto simp: pow2_def)
  moreover have "round_half_even (of_int j) = j" for j by (simp add: round_half_even_def)
  ultimately have "of_int (round_half_even (of_int i / pow2 e)) = of_int i / pow2 e" by (metis of_int_eq_iff)
  with False show ?thesis
    by (simp add: round_bits_def e_def [symmetric] less_imp_neq [OF pow2_pos, symmetric])
qed (simp add: round_bits_def)

lemma to_float_int: "\<bar>i\<bar> < 16777216 \<Longrightarrow> to_float (of_int i) = of_int i"
  unfolding to_float_def by (rule round_bits_int) simp_all

end
