(* ===== verification/Sight_Lines.thy ===== *)
theory Sight_Lines
  imports Map_Tree Binary_Floats
begin

text \<open>
  Throwing and seeing along lines (map.cpp: \<open>canThrowObjectTo\<close>, \<open>isTileClear\<close>, \<open>checkSteepLine\<close>,
  \<open>checkSlightLine\<close>, \<open>checkSightLine\<close>, \<open>isSightClear\<close>).  The loops add up a \<open>float\<close> slope; within the range of
  the client they are shown to visit exactly the squares of the line between the two points, whatever the
  coordinates, and to do so from both ends alike.
\<close>

subsection \<open>The code\<close>

text \<open>What the code asks a tile: whether it has a ground, and \<open>hasProperty(CONST_PROP_BLOCKPROJECTILE)\<close>.\<close>

record 'tile sight_map =
  sm_tiles :: "'tile game_map"
  has_ground :: "'tile \<Rightarrow> bool"
  blocks_projectile :: "'tile \<Rightarrow> bool"

definition isTileClear :: "'tile sight_map \<Rightarrow> u16 \<Rightarrow> u16 \<Rightarrow> u8 \<Rightarrow> bool \<Rightarrow> bool" where
  "isTileClear m x y z blockFloor =
     (case getTile x y z (sm_tiles m) of
        None \<Rightarrow> True
      | Some tile \<Rightarrow> if blockFloor \<and> has_ground m tile then False else \<not> blocks_projectile m tile)"

text \<open>The literal \<open>0.1\<close> is the double next to a tenth; \<open>yi + 0.1\<close> is an addition of doubles.\<close>

definition tenth :: rat where "tenth = 3602879701896397 / 36028797018963968"

definition line_cell :: "rat \<Rightarrow> u16" where
  "line_cell yi = word_of_int \<lfloor>to_double (yi + tenth)\<rfloor>"

definition line_slope :: "u16 \<Rightarrow> u16 \<Rightarrow> u16 \<Rightarrow> u16 \<Rightarrow> rat" where
  "line_slope x0 y0 x1 y1 =
     (let dx = to_float (of_int (uint x1 - uint x0))
      in if dx = 0 then 1 else to_float (to_float (of_int (uint y1 - uint y0)) / dx))"

text \<open>The loop of both functions; \<open>clear\<close> is the square they look at.\<close>

function line_loop :: "(u16 \<Rightarrow> u16 \<Rightarrow> bool) \<Rightarrow> rat \<Rightarrow> u16 \<Rightarrow> u16 \<Rightarrow> rat \<Rightarrow> bool" where
  "line_loop clear slope x x1 yi =
     (if x < x1 then
        if \<not> clear x (line_cell yi) then False else line_loop clear slope (x + 1) x1 (to_float (yi + slope))
      else True)"
  by pat_completeness auto
termination
proof (relation "measure (\<lambda>(_, _, x, x1, _). unat x1 - unat x)")
  fix clear :: "u16 \<Rightarrow> u16 \<Rightarrow> bool" and slope :: rat and x x1 :: u16 and yi :: rat
  assume "x < x1"
  then have "unat x < unat x1" "unat (x + 1) = unat x + 1"
    using unat_u16_less [of x1] by (simp_all add: word_less_nat_alt unat_word_ariths)
  then show "((clear, slope, x + 1, x1, to_float (yi + slope)), (clear, slope, x, x1, yi))
      \<in> measure (\<lambda>(_, _, x, x1, _). unat x1 - unat x)" by simp
qed simp

declare line_loop.simps [simp del]

definition checkSteepLine :: "'tile sight_map \<Rightarrow> u16 \<Rightarrow> u16 \<Rightarrow> u16 \<Rightarrow> u16 \<Rightarrow> u8 \<Rightarrow> bool" where
  "checkSteepLine m x0 y0 x1 y1 z =
     (let slope = line_slope x0 y0 x1 y1; yi = to_float (of_int (uint y0) + slope)
      in line_loop (\<lambda>x c. isTileClear m c x z False) slope (x0 + 1) x1 yi)"

definition checkSlightLine :: "'tile sight_map \<Rightarrow> u16 \<Rightarrow> u16 \<Rightarrow> u16 \<Rightarrow> u16 \<Rightarrow> u8 \<Rightarrow> bool" where
  "checkSlightLine m x0 y0 x1 y1 z =
     (let slope = line_slope x0 y0 x1 y1; yi = to_float (of_int (uint y0) + slope)
      in line_loop (\<lambda>x c. isTileClear m x c z False) slope (x0 + 1) x1 yi)"

definition checkSightLine :: "'tile sight_map \<Rightarrow> u16 \<Rightarrow> u16 \<Rightarrow> u16 \<Rightarrow> u16 \<Rightarrow> u8 \<Rightarrow> bool" where
  "checkSightLine m x0 y0 x1 y1 z =
     (if x0 = x1 \<and> y0 = y1 then True
      else if \<bar>uint y1 - uint y0\<bar> > \<bar>uint x1 - uint x0\<bar> then
        if y1 > y0 then checkSteepLine m y0 x0 y1 x1 z else checkSteepLine m y1 x1 y0 x0 z
      else if x0 > x1 then checkSlightLine m x1 y1 x0 y0 z
      else checkSlightLine m x0 y0 x1 y1 z)"

text \<open>The loop over the floors above a target below: \<open>for (z = fromPos.z; z < toPos.z; ++z)\<close>.\<close>

function floors_clear :: "'tile sight_map \<Rightarrow> u16 \<Rightarrow> u16 \<Rightarrow> u8 \<Rightarrow> u8 \<Rightarrow> bool" where
  "floors_clear m x y z toz =
     (if z < toz then if \<not> isTileClear m x y z True then False else floors_clear m x y (z + 1) toz else True)"
  by pat_completeness auto
termination
proof (relation "measure (\<lambda>(_, _, _, z, toz). unat toz - unat z)")
  fix m :: "'tile sight_map" and x y :: u16 and z toz :: u8
  assume "z < toz"
  then have "unat z < unat toz" "unat (z + 1) = unat z + 1"
    using unat_u8_less [of toz] by (simp_all add: word_less_nat_alt unat_word_ariths)
  then show "((m, x, y, z + 1, toz), (m, x, y, z, toz)) \<in> measure (\<lambda>(_, _, _, z, toz). unat toz - unat z)"
    by simp
qed simp

declare floors_clear.simps [simp del]

definition isSightClear :: "'tile sight_map \<Rightarrow> Position \<Rightarrow> Position \<Rightarrow> bool \<Rightarrow> bool" where
  "isSightClear m fromPos toPos sameFloor =
     (let fx = pos_x fromPos; fy = pos_y fromPos; fz = pos_z fromPos;
          tx = pos_x toPos; ty = pos_y toPos; tz = pos_z toPos
      in if fz = tz then
           if getDistanceX fromPos toPos < 2 \<and> getDistanceY fromPos toPos < 2 then True
           else let sightClear = checkSightLine m fx fy tx ty fz
             in if sightClear \<or> sameFloor then sightClear
                else if fz = 0 then True
                else let newZ = fz - 1
                  in isTileClear m fx fy newZ True \<and> isTileClear m tx ty newZ True \<and>
                     checkSightLine m fx fy tx ty newZ
         else if sameFloor then False
         else if (fz < 8 \<and> tz > 7) \<or> (fz > 7 \<and> tz < 8) then False
         else if fz > tz then
           if getDistanceZ fromPos toPos > 1 then False
           else let newZ = fz - 1
             in isTileClear m fx fy newZ True \<and> checkSightLine m fx fy tx ty newZ
         else floors_clear m tx ty fz tz \<and> checkSightLine m fx fy tx ty fz)"

definition maxClientViewportX :: int where "maxClientViewportX = 8"
definition maxClientViewportY :: int where "maxClientViewportY = 6"

definition canThrowObjectTo :: "'tile sight_map \<Rightarrow> Position \<Rightarrow> Position \<Rightarrow> bool \<Rightarrow> bool \<Rightarrow> int \<Rightarrow> int \<Rightarrow> bool" where
  "canThrowObjectTo m fromPos toPos checkLineOfSight sameFloor rangex rangey =
     (if getDistanceX fromPos toPos > rangex \<or> getDistanceY fromPos toPos > rangey then False
      else \<not> checkLineOfSight \<or> isSightClear m fromPos toPos sameFloor)"

subsection \<open>The squares of a line\<close>

lemma uint_u16: "0 \<le> uint (w :: u16)" "uint (w :: u16) < 65536"
  using uint_lt2p [of w] by simp_all

text \<open>Ulps: a coordinate below \<open>2 ^ 16\<close> is a multiple of \<open>2 ^ - 8\<close>, a slope of at most one of \<open>2 ^ - 24\<close> or finer.\<close>

lemma pow2_values: "pow2 16 = 65536" "pow2 17 = 131072" "pow2 1 = 2"
  "pow2 (- 9) = 1 / 512" "pow2 (- 24) = 1 / 16777216" "pow2 (- 37) = 1 / 137438953472"
  by (simp_all add: pow2_def)

definition step_error :: rat where "step_error = 1 / 512 + 1 / 16777216"

lemma line_cell_exact:
  fixes dx dy k y0 :: int
  assumes dx: "0 < dx" "dx \<le> 8" and near: "\<bar>yi - (of_int y0 + of_int (k * dy) / of_int dx)\<bar> \<le> 1 / 64"
    and range: "\<bar>yi\<bar> < 131071"
  shows "line_cell yi = word_of_int (y0 + k * dy div dx)"
proof -
  define q r where "q = k * dy div dx" and "r = k * dy mod dx"
  have kd: "k * dy = q * dx + r" by (simp add: q_def r_def)
  have r: "0 \<le> r" "r \<le> dx - 1" using dx by (simp_all add: r_def)
  have "of_int (k * dy) / of_int dx = (of_int q + of_int r / of_int dx :: rat)"
    using dx by (simp add: kd add_divide_distrib)
  moreover have "0 \<le> (of_int r / of_int dx :: rat)" using r dx by simp
  moreover have "of_int r / of_int dx \<le> (7 / 8 :: rat)"
  proof -
    have "8 * r \<le> 7 * dx" using r dx by linarith
    then have "(of_int (8 * r) :: rat) \<le> of_int (7 * dx)" by (simp only: of_int_le_iff)
    then show ?thesis using dx by (simp add: field_simps)
  qed
  moreover have "\<bar>to_double (yi + tenth) - (yi + tenth)\<bar> \<le> 1 / 137438953472"
    using to_double_error [of "yi + tenth" 17] range by (simp add: pow2_values tenth_def)
  moreover have "99 / 1000 < tenth" "tenth < 101 / 1000" by (simp_all add: tenth_def)
  moreover have "(of_int (y0 + q) :: rat) = of_int y0 + of_int q" by simp
  ultimately have "of_int (y0 + q) \<le> to_double (yi + tenth) \<and> to_double (yi + tenth) < of_int (y0 + q) + 1"
    using near unfolding abs_le_iff by linarith
  then have "\<lfloor>to_double (yi + tenth)\<rfloor> = y0 + q" by (intro floor_unique) simp_all
  then show ?thesis by (simp add: line_cell_def q_def)
qed

text \<open>A step of the loop adds the slope with the errors of the slope and of the sum.\<close>

lemma line_step_exact:
  fixes dx dy k y0 :: int
  assumes near: "\<bar>yi - (of_int y0 + of_int (k * dy) / of_int dx)\<bar> \<le> e"
    and slope: "\<bar>slope - of_int dy / of_int dx\<bar> \<le> 1 / 16777216"
    and inside: "0 \<le> (of_int y0 + of_int ((k + 1) * dy) / of_int dx :: rat)"
      "of_int y0 + of_int ((k + 1) * dy) / of_int dx \<le> (65535 :: rat)" and e: "e \<le> 1 / 64"
  shows "\<bar>to_float (yi + slope) - (of_int y0 + of_int ((k + 1) * dy) / of_int dx)\<bar> \<le> e + step_error"
proof -
  have split: "(of_int ((k + 1) * dy) / of_int dx :: rat) = of_int (k * dy) / of_int dx + of_int dy / of_int dx"
    by (simp add: ring_distribs add_divide_distrib)
  have yi: "\<bar>yi + slope - (of_int y0 + of_int ((k + 1) * dy) / of_int dx)\<bar> \<le> e + 1 / 16777216"
    unfolding split using near slope unfolding abs_le_iff by linarith
  then have "\<bar>yi + slope\<bar> < 65536" using inside e unfolding abs_le_iff abs_less_iff by linarith
  then have "\<bar>to_float (yi + slope) - (yi + slope)\<bar> \<le> 1 / 512"
    using to_float_error [of "yi + slope" 16] by (simp add: pow2_values)
  with yi show ?thesis unfolding step_error_def abs_le_iff by linarith
qed

lemma line_between:
  fixes dx dy k y0 :: int
  assumes "0 < dx" "0 \<le> k" "k \<le> dx" "0 \<le> y0" "y0 \<le> 65535" "0 \<le> y0 + dy" "y0 + dy \<le> 65535"
  shows "0 \<le> (of_int y0 + of_int (k * dy) / of_int dx :: rat)"
    "of_int y0 + of_int (k * dy) / of_int dx \<le> (65535 :: rat)"
proof -
  have "y0 * dx + k * dy = y0 * (dx - k) + (y0 + dy) * k" by (simp add: algebra_simps)
  moreover have "0 \<le> y0 * (dx - k) + (y0 + dy) * k" by (rule add_nonneg_nonneg; rule mult_nonneg_nonneg) (use assms in simp_all)
  moreover have "y0 * (dx - k) + (y0 + dy) * k \<le> 65535 * (dx - k) + 65535 * k"
    by (rule add_mono; rule mult_right_mono) (use assms in simp_all)
  ultimately have "0 \<le> y0 * dx + k * dy" "y0 * dx + k * dy \<le> 65535 * dx" by (simp_all add: algebra_simps)
  then have "(0 :: rat) \<le> of_int (y0 * dx + k * dy)" "(of_int (y0 * dx + k * dy) :: rat) \<le> of_int (65535 * dx)"
    by (simp_all only: of_int_le_iff of_int_0_le_iff)
  then show "0 \<le> (of_int y0 + of_int (k * dy) / of_int dx :: rat)"
    "of_int y0 + of_int (k * dy) / of_int dx \<le> (65535 :: rat)"
    using assms(1) by (simp_all add: field_simps)
qed

lemma line_slope_exact:
  assumes "x0 < x1" and "\<bar>uint y1 - uint y0\<bar> \<le> uint x1 - uint x0"
  shows "\<bar>line_slope x0 y0 x1 y1 - of_int (uint y1 - uint y0) / of_int (uint x1 - uint x0)\<bar> \<le> 1 / 16777216"
proof -
  define dx dy where "dx = uint x1 - uint x0" and "dy = uint y1 - uint y0"
  have dx: "0 < dx" "dx < 65536" using assms uint_u16 [of x1] uint_u16 [of x0] unfolding dx_def word_less_def by linarith+
  have "\<bar>dy\<bar> \<le> dx" using assms by (simp add: dx_def dy_def)
  then have "\<bar>(of_int dy / of_int dx :: rat)\<bar> < 2" using dx by (simp add: field_simps abs_div_pos flip: of_int_abs)
  then have "\<bar>to_float (of_int dy / of_int dx) - of_int dy / of_int dx\<bar> \<le> 1 / 16777216"
    using to_float_error [of "of_int dy / of_int dx" 1] by (simp add: pow2_values)
  moreover have "line_slope x0 y0 x1 y1 = to_float (of_int dy / of_int dx)"
    using dx \<open>\<bar>dy\<bar> \<le> dx\<close> by (simp add: line_slope_def to_float_int Let_def flip: dx_def dy_def)
  ultimately show ?thesis by (simp add: dx_def dy_def)
qed

lemma line_loop_exact:
  fixes x0 x1 :: u16 and dx dy y0 k :: int
  assumes "0 \<le> k" "k \<le> dx" "0 < dx" "dx \<le> 8" "uint x1 = uint x0 + dx"
    and "0 \<le> y0" "y0 \<le> 65535" "0 \<le> y0 + dy" "y0 + dy \<le> 65535"
    and slope: "\<bar>slope - of_int dy / of_int dx\<bar> \<le> 1 / 16777216"
    and "\<bar>yi - (of_int y0 + of_int (k * dy) / of_int dx)\<bar> \<le> of_int k * step_error"
    and "x = x0 + word_of_int k"
  shows "line_loop clear slope x x1 yi \<longleftrightarrow>
    (\<forall>j. k \<le> j \<and> j < dx \<longrightarrow> clear (x0 + word_of_int j) (word_of_int (y0 + j * dy div dx)))"
  using assms(1,2,11,12)
proof (induction "nat (dx - k)" arbitrary: k x yi)
  case 0
  then have "k = dx" by simp
  have "uint x = (uint x0 + dx) mod 65536" using 0 \<open>k = dx\<close> by (simp add: uint_word_ariths uint_word_of_int mod_simps)
  then have "x = x1" using assms(5) uint_u16 [of x1] by (simp add: word_uint_eq_iff)
  with \<open>k = dx\<close> show ?case by (auto simp: line_loop.simps)
next
  case (Suc n)
  then have k: "k < dx" by simp
  have "uint x = (uint x0 + k) mod 65536" using Suc.prems by (simp add: uint_word_ariths uint_word_of_int mod_simps)
  then have x: "uint x = uint x0 + k" using Suc.prems k assms(5) uint_u16 [of x1] uint_u16 [of x0] by simp
  then have less: "x < x1" using k assms by (simp add: word_less_def)
  have err: "of_int k * step_error \<le> 1 / 64"
  proof -
    have "of_int k * step_error \<le> 7 * step_error" using k assms by (intro mult_right_mono) (simp_all add: step_error_def)
    then show ?thesis by (simp add: step_error_def)
  qed
  have between: "0 \<le> (of_int y0 + of_int (j * dy) / of_int dx :: rat)"
    "of_int y0 + of_int (j * dy) / of_int dx \<le> (65535 :: rat)" if "0 \<le> j" "j \<le> dx" for j
    using line_between [of dx j y0 dy] that assms by blast+
  have near: "\<bar>yi - (of_int y0 + of_int (k * dy) / of_int dx)\<bar> \<le> 1 / 64" using Suc.prems err by linarith
  have "\<bar>yi\<bar> < 131071" using near between [of k] Suc.prems k unfolding abs_le_iff abs_less_iff by linarith
  then have cell: "line_cell yi = word_of_int (y0 + k * dy div dx)"
    using line_cell_exact [of dx yi y0 k dy] near assms by blast
  have "\<bar>to_float (yi + slope) - (of_int y0 + of_int ((k + 1) * dy) / of_int dx)\<bar> \<le> of_int (k + 1) * step_error"
    using line_step_exact [OF Suc.prems(3) slope _ _ err] between [of "k + 1"] Suc.prems k
    by (simp add: algebra_simps)
  moreover have "n = nat (dx - (k + 1))" "0 \<le> k + 1" "k + 1 \<le> dx" "x + 1 = x0 + word_of_int (k + 1)"
    using Suc.hyps Suc.prems k by (simp_all add: wi_hom_add [symmetric])
  ultimately have IH: "line_loop clear slope (x + 1) x1 (to_float (yi + slope)) \<longleftrightarrow>
    (\<forall>j. k + 1 \<le> j \<and> j < dx \<longrightarrow> clear (x0 + word_of_int j) (word_of_int (y0 + j * dy div dx)))"
    using Suc.hyps(1) by blast
  have split: "(\<forall>j. k \<le> j \<and> j < dx \<longrightarrow> P j) \<longleftrightarrow> P k \<and> (\<forall>j. k + 1 \<le> j \<and> j < dx \<longrightarrow> P j)" for P
    using k by (metis add1_zle_eq order_le_less order_refl)
  have "x0 + word_of_int k = x" using Suc.prems(4) by simp
  then show ?case unfolding split by (subst line_loop.simps) (simp only: less cell IH if_True if_False not_not, auto)
qed

text \<open>
  The line through two points at column \<open>x\<close>, rounded down to a square, and the squares strictly between two
  squares on the line through them: by columns if the line is flat, by rows if it is steep.
\<close>

definition line_at :: "int \<Rightarrow> int \<Rightarrow> int \<Rightarrow> int \<Rightarrow> int \<Rightarrow> int" where
  "line_at x0 y0 x1 y1 x = \<lfloor>of_int y0 + of_int ((x - x0) * (y1 - y0)) / of_int (x1 - x0) :: rat\<rfloor>"

definition in_line :: "u16 \<Rightarrow> u16 \<Rightarrow> u16 \<Rightarrow> u16 \<Rightarrow> u16 \<Rightarrow> u16 \<Rightarrow> bool" where
  "in_line x0 y0 x1 y1 x y \<longleftrightarrow>
     min (uint x0) (uint x1) < uint x \<and> uint x < max (uint x0) (uint x1) \<and>
     uint y = line_at (uint x0) (uint y0) (uint x1) (uint y1) (uint x)"

definition between_squares :: "u16 \<Rightarrow> u16 \<Rightarrow> u16 \<Rightarrow> u16 \<Rightarrow> u16 \<Rightarrow> u16 \<Rightarrow> bool" where
  "between_squares x0 y0 x1 y1 x y \<longleftrightarrow>
     (if \<bar>uint y1 - uint y0\<bar> > \<bar>uint x1 - uint x0\<bar> then in_line y0 x0 y1 x1 y x else in_line x0 y0 x1 y1 x y)"

lemma line_at_div: "line_at x0 y0 x1 y1 x = y0 + (x - x0) * (y1 - y0) div (x1 - x0)"
  by (simp add: line_at_def floor_divide_of_int_eq flip: of_int_diff of_int_mult)

lemma line_at_swap:
  assumes "x0 \<noteq> x1"
  shows "line_at x1 y1 x0 y0 x = line_at x0 y0 x1 y1 x"
proof -
  have "(of_int y1 + of_int ((x - x1) * (y0 - y1)) / of_int (x0 - x1) :: rat) =
      of_int y0 + of_int ((x - x0) * (y1 - y0)) / of_int (x1 - x0)"
    using assms by (simp add: divide_simps) (simp add: algebra_simps)
  then show ?thesis by (simp only: line_at_def)
qed

lemma in_line_swap: "in_line x1 y1 x0 y0 x y = in_line x0 y0 x1 y1 x y"
proof (cases "x0 = x1")
  case False
  then have "uint x0 \<noteq> uint x1" by (simp add: word_uint_eq_iff)
  then show ?thesis by (simp add: in_line_def line_at_swap min.commute max.commute)
qed (auto simp: in_line_def)

lemma between_squares_swap: "between_squares x1 y1 x0 y0 x y = between_squares x0 y0 x1 y1 x y"
  by (simp add: between_squares_def in_line_swap abs_minus_commute)

lemma line_at_range:
  assumes "x0 < x" "x < x1" "0 \<le> y0" "y0 \<le> 65535" "0 \<le> y1" "y1 \<le> 65535"
  shows "0 \<le> line_at x0 y0 x1 y1 x \<and> line_at x0 y0 x1 y1 x \<le> 65535"
proof -
  define q :: rat where "q = of_int y0 + of_int ((x - x0) * (y1 - y0)) / of_int (x1 - x0)"
  have "0 \<le> q" "q \<le> 65535" using line_between [of "x1 - x0" "x - x0" y0 "y1 - y0"] assms by (simp_all add: q_def)
  then have "0 \<le> \<lfloor>q\<rfloor>" "\<lfloor>q\<rfloor> \<le> 65535" by (simp_all add: floor_le_iff)
  then show ?thesis by (simp add: line_at_def q_def)
qed

lemma in_line_steps:
  assumes "x0 < x1"
  shows "(\<forall>j. 1 \<le> j \<and> j < uint x1 - uint x0 \<longrightarrow>
      clear (x0 + word_of_int j) (word_of_int (uint y0 + j * (uint y1 - uint y0) div (uint x1 - uint x0)))) \<longleftrightarrow>
    (\<forall>x y. in_line x0 y0 x1 y1 x y \<longrightarrow> clear x y)" (is "?l \<longleftrightarrow> ?r")
proof
  assume l: ?l
  show ?r
  proof (intro allI impI)
    fix x y assume xy: "in_line x0 y0 x1 y1 x y"
    have "uint x0 < uint x1" using assms by (simp add: word_less_def)
    with xy have j: "1 \<le> uint x - uint x0" "uint x - uint x0 < uint x1 - uint x0"
      and y: "uint y = uint y0 + (uint x - uint x0) * (uint y1 - uint y0) div (uint x1 - uint x0)"
      by (simp_all add: in_line_def line_at_div)
    have "x = x0 + word_of_int (uint x - uint x0)" by (simp add: wi_hom_sub [symmetric])
    moreover have "y = word_of_int (uint y)" by simp
    ultimately show "clear x y" using l j y by metis
  qed
next
  assume r: ?r
  show ?l
  proof (intro allI impI)
    fix j assume j: "1 \<le> j \<and> j < uint x1 - uint x0"
    let ?y = "uint y0 + j * (uint y1 - uint y0) div (uint x1 - uint x0)"
    have "uint (x0 + word_of_int j) = (uint x0 + j) mod 65536" by (simp add: uint_word_ariths uint_word_of_int mod_simps)
    then have x: "uint (x0 + word_of_int j) = uint x0 + j" using j uint_u16 [of x0] uint_u16 [of x1] by simp
    have at: "line_at (uint x0) (uint y0) (uint x1) (uint y1) (uint x0 + j) = ?y" by (simp add: line_at_div)
    have "0 \<le> ?y \<and> ?y \<le> 65535"
      using line_at_range [of "uint x0" "uint x0 + j" "uint x1" "uint y0" "uint y1"] at j uint_u16 [of y0] uint_u16 [of y1] by simp
    then have "uint (word_of_int ?y :: u16) = ?y" by (simp only: uint_word_of_int) simp
    then have "in_line x0 y0 x1 y1 (x0 + word_of_int j) (word_of_int ?y)"
      using j x at by (simp add: in_line_def)
    with r show "clear (x0 + word_of_int j) (word_of_int ?y)" by blast
  qed
qed

lemma flat_line_exact:
  assumes "x0 < x1" "uint x1 - uint x0 \<le> 8" "\<bar>uint y1 - uint y0\<bar> \<le> uint x1 - uint x0"
  shows "line_loop clear (line_slope x0 y0 x1 y1) (x0 + 1) x1 (to_float (of_int (uint y0) + line_slope x0 y0 x1 y1)) \<longleftrightarrow>
    (\<forall>x y. in_line x0 y0 x1 y1 x y \<longrightarrow> clear x y)"
proof -
  define dx dy where "dx = uint x1 - uint x0" and "dy = uint y1 - uint y0"
  have dx: "0 < dx" "1 \<le> dx" "dx \<le> 8" "uint x1 = uint x0 + dx" using assms by (simp_all add: dx_def word_less_def)
  have y: "0 \<le> uint y0" "uint y0 \<le> 65535" "0 \<le> uint y0 + dy" "uint y0 + dy \<le> 65535"
    using uint_u16 [of y0] uint_u16 [of y1] by (simp_all add: dy_def)
  have slope: "\<bar>line_slope x0 y0 x1 y1 - of_int dy / of_int dx\<bar> \<le> 1 / 16777216"
    using line_slope_exact [OF assms(1,3)] by (simp add: dx_def dy_def)
  have "\<bar>to_float (of_int (uint y0) + line_slope x0 y0 x1 y1) - (of_int (uint y0) + of_int ((0 + 1) * dy) / of_int dx)\<bar>
      \<le> 0 + step_error"
    by (rule line_step_exact [OF _ slope]) (use line_between [of dx 1 "uint y0" dy] dx y in simp_all)
  then have "\<bar>to_float (of_int (uint y0) + line_slope x0 y0 x1 y1) - (of_int (uint y0) + of_int (1 * dy) / of_int dx)\<bar>
      \<le> of_int 1 * step_error" by simp
  with dx y slope have "line_loop clear (line_slope x0 y0 x1 y1) (x0 + 1) x1 (to_float (of_int (uint y0) + line_slope x0 y0 x1 y1)) \<longleftrightarrow>
      (\<forall>j. 1 \<le> j \<and> j < dx \<longrightarrow> clear (x0 + word_of_int j) (word_of_int (uint y0 + j * dy div dx)))"
    by (intro line_loop_exact) simp_all
  then show ?thesis using in_line_steps [OF assms(1), of clear y0 y1] by (simp add: dx_def dy_def)
qed

lemma checkSightLine_exact:
  assumes "\<bar>uint x1 - uint x0\<bar> \<le> 8" "\<bar>uint y1 - uint y0\<bar> \<le> 8"
  shows "checkSightLine m x0 y0 x1 y1 z \<longleftrightarrow>
    (\<forall>x y. between_squares x0 y0 x1 y1 x y \<longrightarrow> isTileClear m x y z False)"
proof -
  have steep: "checkSteepLine m a b c d z \<longleftrightarrow> (\<forall>x y. in_line a b c d y x \<longrightarrow> isTileClear m x y z False)"
    if "a < c" "uint c - uint a \<le> 8" "\<bar>uint d - uint b\<bar> \<le> uint c - uint a" for a b c d
    using flat_line_exact [OF that, of "\<lambda>x c. isTileClear m c x z False"] by (auto simp: checkSteepLine_def Let_def)
  have slight: "checkSlightLine m a b c d z \<longleftrightarrow> (\<forall>x y. in_line a b c d x y \<longrightarrow> isTileClear m x y z False)"
    if "a < c" "uint c - uint a \<le> 8" "\<bar>uint d - uint b\<bar> \<le> uint c - uint a" for a b c d
    using flat_line_exact [OF that, of "\<lambda>x c. isTileClear m x c z False"] by (auto simp: checkSlightLine_def Let_def)
  consider "x0 = x1" "y0 = y1" | "\<bar>uint y1 - uint y0\<bar> > \<bar>uint x1 - uint x0\<bar>" "y0 < y1"
    | "\<bar>uint y1 - uint y0\<bar> > \<bar>uint x1 - uint x0\<bar>" "y1 < y0"
    | "\<bar>uint y1 - uint y0\<bar> \<le> \<bar>uint x1 - uint x0\<bar>" "x1 < x0"
    | "\<bar>uint y1 - uint y0\<bar> \<le> \<bar>uint x1 - uint x0\<bar>" "x0 < x1"
    by (auto simp: word_less_def word_uint_eq_iff) linarith
  then show ?thesis
  proof cases
    case 1
    then show ?thesis by (auto simp: checkSightLine_def between_squares_def in_line_def)
  next
    case 2
    then show ?thesis using steep [of y0 y1 x1 x0] assms
      by (auto simp: checkSightLine_def between_squares_def word_less_def)
  next
    case 3
    then show ?thesis using steep [of y1 y0 x0 x1] assms
      by (auto simp: checkSightLine_def between_squares_def word_less_def in_line_swap [of y1 x1 y0 x0] abs_minus_commute)
  next
    case 4
    then show ?thesis using slight [of x1 x0 y0 y1] assms
      by (auto simp: checkSightLine_def between_squares_def word_less_def in_line_swap [of x1 y1 x0 y0] abs_minus_commute)
  next
    case 5
    then show ?thesis using slight [of x0 x1 y1 y0] assms
      by (auto simp: checkSightLine_def between_squares_def word_less_def)
  qed
qed

subsection \<open>Both ends see alike\<close>

lemma checkSightLine_swap: "checkSightLine m x1 y1 x0 y0 z = checkSightLine m x0 y0 x1 y1 z"
proof -
  have "x0 = x1 \<or> x0 < x1 \<or> x1 < x0" "y0 = y1 \<or> y0 < y1 \<or> y1 < y0" by auto
  then show ?thesis using word_uint_eq_iff [of y0 y1]
    by (auto simp: checkSightLine_def abs_minus_commute)
qed

lemma isSightClear_swap:
  assumes "pos_z p = pos_z q"
  shows "isSightClear m q p sameFloor = isSightClear m p q sameFloor"
proof -
  have "getDistanceX q p = getDistanceX p q" "getDistanceY q p = getDistanceY p q"
    by (simp_all add: offset_defs abs_minus_commute)
  then show ?thesis using assms
    by (auto simp: isSightClear_def Let_def checkSightLine_swap [of m "pos_x q" "pos_y q"])
qed

subsection \<open>Seeing and throwing within the range of the client\<close>

definition line_clear :: "'tile sight_map \<Rightarrow> u8 \<Rightarrow> Position \<Rightarrow> Position \<Rightarrow> bool" where
  "line_clear m z p q \<longleftrightarrow>
     (\<forall>x y. between_squares (pos_x p) (pos_y p) (pos_x q) (pos_y q) x y \<longrightarrow> isTileClear m x y z False)"

definition open_at :: "'tile sight_map \<Rightarrow> Position \<Rightarrow> u8 \<Rightarrow> bool" where
  "open_at m p z \<longleftrightarrow> isTileClear m (pos_x p) (pos_y p) z True"

text \<open>What may be seen of \<open>q\<close> from \<open>p\<close>.\<close>

definition sees :: "'tile sight_map \<Rightarrow> Position \<Rightarrow> Position \<Rightarrow> bool \<Rightarrow> bool" where
  "sees m p q sameFloor \<longleftrightarrow>
     (if pos_z p = pos_z q then
        line_clear m (pos_z p) p q \<or>
        \<not> sameFloor \<and> (pos_z p = 0 \<or>
          open_at m p (pos_z p - 1) \<and> open_at m q (pos_z p - 1) \<and> line_clear m (pos_z p - 1) p q)
      else \<not> sameFloor \<and> (pos_z p < 8 \<longleftrightarrow> pos_z q < 8) \<and>
        (if pos_z q < pos_z p then uint (pos_z p) = uint (pos_z q) + 1 \<and> open_at m p (pos_z q) \<and> line_clear m (pos_z q) p q
         else (\<forall>z. pos_z p \<le> z \<and> z < pos_z q \<longrightarrow> open_at m q z) \<and> line_clear m (pos_z p) p q))"

lemma floors_clear_iff: "floors_clear m x y z toz \<longleftrightarrow> (\<forall>w. z \<le> w \<and> w < toz \<longrightarrow> isTileClear m x y w True)"
proof (induction m x y z toz rule: floors_clear.induct)
  case (1 m x y z toz)
  show ?case
  proof (cases "z < toz")
    case True
    have "z \<le> w \<and> w < toz \<longleftrightarrow> w = z \<or> z + 1 \<le> w \<and> w < toz" for w
      using True unat_u8_less [of toz] by (auto simp: word_le_nat_alt word_less_nat_alt unat_word_ariths word_unat_eq_iff)
    with 1 True show ?thesis by (subst floors_clear.simps) (auto simp: order_le_less)
  next
    case False
    then show ?thesis by (subst floors_clear.simps) auto
  qed
qed

lemma line_clear_adjacent:
  assumes "getDistanceX p q < 2" "getDistanceY p q < 2"
  shows "line_clear m z p q"
proof -
  have no: "\<not> in_line a b c d x y" if "\<bar>uint a - uint c\<bar> < 2" for a b c d x y
    using that by (auto simp: in_line_def)
  then show ?thesis using assms
    by (auto simp: line_clear_def between_squares_def offset_defs)
qed

lemma isSightClear_sees:
  assumes "getDistanceX p q \<le> 8" "getDistanceY p q \<le> 8"
  shows "isSightClear m p q sameFloor \<longleftrightarrow> sees m p q sameFloor"
proof -
  have line: "checkSightLine m (pos_x p) (pos_y p) (pos_x q) (pos_y q) z \<longleftrightarrow> line_clear m z p q" for z
    unfolding line_clear_def by (rule checkSightLine_exact) (use assms in \<open>simp_all add: offset_defs abs_minus_commute\<close>)
  have floors: "floors_clear m (pos_x q) (pos_y q) (pos_z p) (pos_z q) \<longleftrightarrow> (\<forall>z. pos_z p \<le> z \<and> z < pos_z q \<longrightarrow> open_at m q z)"
    by (simp add: floors_clear_iff open_at_def)
  have below: "\<not> getDistanceZ p q > 1 \<and> pos_z p - 1 = pos_z q \<longleftrightarrow> uint (pos_z p) = uint (pos_z q) + 1" if "pos_z q < pos_z p"
    using that uint_lt2p [of "pos_z p"] by (auto simp: offset_defs word_less_def word_uint_eq_iff uint_word_ariths)
  have one: "\<not> getDistanceZ p q > 1 \<longleftrightarrow> uint (pos_z p) = uint (pos_z q) + 1" if "pos_z q < pos_z p"
    using that by (auto simp: offset_defs word_less_def)
  have ground: "(pos_z p < 8 \<and> pos_z q > 7) \<or> (pos_z p > 7 \<and> pos_z q < 8) \<longleftrightarrow> \<not> (pos_z p < 8 \<longleftrightarrow> pos_z q < 8)"
    by (auto simp: word_less_def)
  show ?thesis
  proof (cases "pos_z p = pos_z q")
    case True
    then show ?thesis using line_clear_adjacent [of p q m]
      by (auto simp: isSightClear_def sees_def Let_def line open_at_def)
  next
    case False
    then have order: "pos_z q < pos_z p \<or> pos_z p < pos_z q" by auto
    show ?thesis
      unfolding isSightClear_def Let_def line floors ground sees_def
      using False order below one by (auto simp: open_at_def)
  qed
qed

subsection \<open>Properties\<close>

text \<open>
  C33: within the range of the client an object can be thrown exactly where geometry allows it.  Although the
  code adds up a rounded slope, at no coordinates does it look at a square other than those of the line between
  the two positions (rounded down): the throw succeeds on the same floor if these squares are clear, or, unless
  it must stay on the floor, if the tiles above both ends and the line above are; to the floor below only past
  the open tiles above the target, to the floor above only by one, and never past the ground floor.  On one
  floor it succeeds in both directions or in none.
\<close>

theorem throw_is_geometric:
  assumes "rangex \<le> maxClientViewportX" "rangey \<le> maxClientViewportX"
  shows "(canThrowObjectTo m p q True sameFloor rangex rangey \<longleftrightarrow>
      getDistanceX p q \<le> rangex \<and> getDistanceY p q \<le> rangey \<and> sees m p q sameFloor) \<and>
    (pos_z p = pos_z q \<longrightarrow>
      canThrowObjectTo m q p True sameFloor rangex rangey = canThrowObjectTo m p q True sameFloor rangex rangey)"
proof -
  have "canThrowObjectTo m p q True sameFloor rangex rangey \<longleftrightarrow>
      getDistanceX p q \<le> rangex \<and> getDistanceY p q \<le> rangey \<and> sees m p q sameFloor"
    using assms isSightClear_sees [of p q m sameFloor]
    by (auto simp: canThrowObjectTo_def maxClientViewportX_def)
  moreover have "canThrowObjectTo m q p True sameFloor rangex rangey = canThrowObjectTo m p q True sameFloor rangex rangey"
    if "pos_z p = pos_z q"
  proof -
    have "getDistanceX q p = getDistanceX p q" "getDistanceY q p = getDistanceY p q"
      by (simp_all add: offset_defs abs_minus_commute)
    then show ?thesis by (simp add: canThrowObjectTo_def isSightClear_swap [OF that])
  qed
  ultimately show ?thesis by blast
qed

text \<open>A map with one wall, at (102, 101): it stands in the way of a throw from (100, 100) to (104, 102).\<close>

definition wall_map :: "bool sight_map" where
  "wall_map = \<lparr>sm_tiles = setTile (\<lambda>_ t. t) 102 101 7 True empty_map, has_ground = (\<lambda>_. True), blocks_projectile = id\<rparr>"

theorem throw_is_geometric_witness:
  "\<not> canThrowObjectTo wall_map (Position 100 100 7) (Position 104 102 7) True True maxClientViewportX maxClientViewportY
   \<and> \<not> canThrowObjectTo wall_map (Position 104 102 7) (Position 100 100 7) True True maxClientViewportX maxClientViewportY"
proof -
  have "\<not> isTileClear wall_map 102 101 7 False"
    by (simp add: isTileClear_def wall_map_def getTile_setTile [OF empty_map_ok] getTile_empty MAP_MAX_LAYERS_def)
  moreover have "between_squares 100 100 104 102 102 101"
    by (simp add: between_squares_def in_line_def line_at_div)
  ultimately have "\<not> sees wall_map (Position 100 100 7) (Position 104 102 7) True"
    by (auto simp: sees_def line_clear_def)
  then show ?thesis
    using throw_is_geometric [of maxClientViewportX maxClientViewportY wall_map "Position 100 100 7" "Position 104 102 7" True]
    by (simp add: maxClientViewportX_def maxClientViewportY_def)
qed

end
