(* ===== verification/Path_Finding.thy ===== *)
theory Path_Finding
  imports Walk_Cache Sight_Lines Condition_System
begin

text \<open>
  Finding the way (map.h, map.cpp: \<open>AStarNode\<close>, \<open>AStarNodes\<close>, \<open>Map::getPathMatching\<close>; creature.h, creature.cpp:
  \<open>FindPathParams\<close>, \<open>FrozenPathingConditionCall\<close>, \<open>Creature::getPathTo\<close>, \<open>getPathSearchParams\<close>).  A pointer to a
  node is its index in the array of 512 nodes.  The invariant of the search is that of Dijkstra's algorithm: closed
  nodes are settled.  It gives that the search ends, that the directions returned lead over walkable squares to a
  square that satisfies the condition, and that the way is a cheapest one where the nodes suffice.
\<close>

subsection \<open>The nodes\<close>

record astar_node =
  an_parent :: "nat option"
  an_f :: int
  an_x :: u16
  an_y :: u16

record astar =
  an_nodes :: "nat \<Rightarrow> astar_node"
  openNodes :: "nat \<Rightarrow> bool"
  nodeTable :: "u32 \<rightharpoonup> nat"
  curNode :: nat
  closedNodes :: int

definition MAX_NODES :: nat where "MAX_NODES = 512"
definition MAP_NORMALWALKCOST :: int where "MAP_NORMALWALKCOST = 10"
definition MAP_DIAGONALWALKCOST :: int where "MAP_DIAGONALWALKCOST = 25"

definition node_key :: "u16 \<Rightarrow> u16 \<Rightarrow> u32" where
  "node_key x y = push_bit 16 (ucast x) OR ucast y"

definition AStarNodes_init :: "u16 \<Rightarrow> u16 \<Rightarrow> astar" where
  "AStarNodes_init x y =
     (let node = \<lparr>an_parent = None, an_f = 0, an_x = x, an_y = y\<rparr>
      in \<lparr>an_nodes = (\<lambda>_. \<lparr>an_parent = None, an_f = 0, an_x = 0, an_y = 0\<rparr>)(0 := node), openNodes = (\<lambda>_. False)(0 := True),
          nodeTable = Map.empty(node_key x y \<mapsto> 0), curNode = 1, closedNodes = 0\<rparr>)"

definition createOpenNode :: "nat \<Rightarrow> u16 \<Rightarrow> u16 \<Rightarrow> int \<Rightarrow> astar \<Rightarrow> astar option" where
  "createOpenNode parent x y f s =
     (if MAX_NODES \<le> curNode s then None
      else let retNode = curNode s
        in Some (s\<lparr>curNode := curNode s + 1, openNodes := (openNodes s)(retNode := True),
             nodeTable := (nodeTable s)(node_key x y \<mapsto> retNode),
             an_nodes := (an_nodes s)(retNode := \<lparr>an_parent = Some parent, an_f = f, an_x = x, an_y = y\<rparr>)\<rparr>))"

text \<open>The scan for the open node with the least \<open>f\<close>, the first of them, below \<open>INT32_MAX\<close>.\<close>

definition better_node :: "astar \<Rightarrow> nat \<Rightarrow> int \<times> nat option \<Rightarrow> int \<times> nat option" where
  "better_node s i = (\<lambda>(best_node_f, best_node).
     if openNodes s i \<and> an_f (an_nodes s i) < best_node_f then (an_f (an_nodes s i), Some i) else (best_node_f, best_node))"

definition getBestNode :: "astar \<Rightarrow> nat option" where
  "getBestNode s =
     (if curNode s = 0 then None else snd (fold (better_node s) [0..<curNode s] (2147483647, None)))"

text \<open>\<open>None\<close> is the failed assertion that the node is one of the array.\<close>

definition closeNode :: "nat \<Rightarrow> astar \<Rightarrow> astar option" where
  "closeNode index s =
     (if index < MAX_NODES then Some (s\<lparr>openNodes := (openNodes s)(index := False), closedNodes := closedNodes s + 1\<rparr>) else None)"

definition openNode :: "nat \<Rightarrow> astar \<Rightarrow> astar option" where
  "openNode index s =
     (if index < MAX_NODES then
        Some (if \<not> openNodes s index
              then s\<lparr>openNodes := (openNodes s)(index := True), closedNodes := closedNodes s - 1\<rparr> else s)
      else None)"

definition getNodeByPosition :: "u16 \<Rightarrow> u16 \<Rightarrow> astar \<Rightarrow> nat option" where
  "getNodeByPosition x y s = nodeTable s (node_key x y)"

definition getMapWalkCost :: "astar_node \<Rightarrow> Position \<Rightarrow> int" where
  "getMapWalkCost node neighborPos =
     (if \<bar>uint (an_x node) - getX neighborPos\<bar> = \<bar>uint (an_y node) - getY neighborPos\<bar>
      then MAP_DIAGONALWALKCOST else MAP_NORMALWALKCOST)"

subsection \<open>The condition\<close>

text \<open>What the search asks about the world and the creature.\<close>

record 'tile path_env =
  pe_walk :: "'tile walk_env"
  pe_creature :: walker
  pe_ground :: "'tile \<Rightarrow> bool"
  pe_blocks :: "'tile \<Rightarrow> bool"
  visible_creature :: "'tile \<Rightarrow> bool"   \<comment> \<open>\<open>getTopVisibleCreature(&creature)\<close>\<close>
  field_type :: "'tile \<Rightarrow> u16 option"   \<comment> \<open>\<open>getFieldItem()\<close> and its \<open>getCombatType()\<close>\<close>
  pe_isImmune :: "u16 \<Rightarrow> bool"
  pe_hasCondition :: "u32 \<Rightarrow> bool"
  canWalkOnFieldType :: "(u16 \<Rightarrow> bool) option"   \<comment> \<open>of a monster\<close>

definition DamageToConditionType :: "u16 \<Rightarrow> u32" where
  "DamageToConditionType t =
     (if t = COMBAT_FIREDAMAGE then CONDITION_FIRE
      else if t = COMBAT_ENERGYDAMAGE then CONDITION_ENERGY
      else if t = COMBAT_DROWNDAMAGE then CONDITION_DROWN
      else if t = COMBAT_EARTHDAMAGE then CONDITION_POISON
      else if t = COMBAT_ICEDAMAGE then CONDITION_FREEZING
      else if t = COMBAT_HOLYDAMAGE then CONDITION_DAZZLED
      else if t = COMBAT_DEATHDAMAGE then CONDITION_CURSED
      else if t = COMBAT_PHYSICALDAMAGE then CONDITION_BLEEDING
      else CONDITION_NONE)"

definition getTileWalkCost :: "'tile path_env \<Rightarrow> 'tile \<Rightarrow> int" where
  "getTileWalkCost e tile =
     (if visible_creature e tile then MAP_NORMALWALKCOST * 3 else 0) +
     (case field_type e tile of
        None \<Rightarrow> 0
      | Some combatType \<Rightarrow>
          if \<not> pe_isImmune e combatType \<and> \<not> pe_hasCondition e (DamageToConditionType combatType) \<and>
             (case canWalkOnFieldType e of None \<Rightarrow> False | Some canWalk \<Rightarrow> \<not> canWalk combatType)
          then MAP_NORMALWALKCOST * 18 else 0)"

record find_path_params =
  fullPathSearch :: bool
  clearSight :: bool
  allowDiagonal :: bool
  keepDistance :: bool
  maxSearchDist :: int
  minTargetDist :: int
  maxTargetDist :: int

definition default_params :: find_path_params where
  "default_params = \<lparr>fullPathSearch = True, clearSight = True, allowDiagonal = True, keepDistance = False,
     maxSearchDist = 0, minTargetDist = -1, maxTargetDist = -1\<rparr>"

text \<open>\<open>FrozenPathingConditionCall::isInRange\<close> and \<open>operator()\<close> with its result in \<open>bestMatchDist\<close>.\<close>

definition targetInRange :: "Position \<Rightarrow> Position \<Rightarrow> Position \<Rightarrow> find_path_params \<Rightarrow> bool" where
  "targetInRange targetPos startPos testPos fpp =
     (if fullPathSearch fpp then
        \<not> getX testPos > getX targetPos + maxTargetDist fpp \<and> \<not> getX testPos < getX targetPos - maxTargetDist fpp \<and>
        \<not> getY testPos > getY targetPos + maxTargetDist fpp \<and> \<not> getY testPos < getY targetPos - maxTargetDist fpp
      else
        let dx = getOffsetX startPos targetPos;
            dxMax = (if dx \<ge> 0 then maxTargetDist fpp else 0); dxMin = (if dx \<le> 0 then maxTargetDist fpp else 0);
            dy = getOffsetY startPos targetPos;
            dyMax = (if dy \<ge> 0 then maxTargetDist fpp else 0); dyMin = (if dy \<le> 0 then maxTargetDist fpp else 0)
        in \<not> getX testPos > getX targetPos + dxMax \<and> \<not> getX testPos < getX targetPos - dxMin \<and>
           \<not> getY testPos > getY targetPos + dyMax \<and> \<not> getY testPos < getY targetPos - dyMin)"

definition path_sight :: "'tile path_env \<Rightarrow> 'tile sight_map" where
  "path_sight e = \<lparr>sm_tiles = we_map (pe_walk e), has_ground = pe_ground e, blocks_projectile = pe_blocks e\<rparr>"

definition pathCondition ::
  "'tile path_env \<Rightarrow> Position \<Rightarrow> Position \<Rightarrow> Position \<Rightarrow> find_path_params \<Rightarrow> int \<Rightarrow> bool \<times> int" where
  "pathCondition e targetPos startPos testPos fpp bestMatchDist =
     (if \<not> targetInRange targetPos startPos testPos fpp then (False, bestMatchDist)
      else if clearSight fpp \<and> \<not> isSightClear (path_sight e) testPos targetPos True then (False, bestMatchDist)
      else let testDist = max (getDistanceX targetPos testPos) (getDistanceY targetPos testPos)
        in if maxTargetDist fpp = 1 then
             if testDist < minTargetDist fpp \<or> testDist > maxTargetDist fpp then (False, bestMatchDist)
             else (True, bestMatchDist)
           else if testDist \<le> maxTargetDist fpp then
             if testDist < minTargetDist fpp then (False, bestMatchDist)
             else if testDist = maxTargetDist fpp then (True, 0)
             else if testDist > bestMatchDist then (True, testDist)
             else (False, bestMatchDist)
           else (False, bestMatchDist))"

text \<open>The parameters of the creatures that follow another; those of a monster depend on its kind and its target.\<close>

definition getPathSearchParams :: "bool \<Rightarrow> find_path_params \<Rightarrow> find_path_params" where
  "getPathSearchParams hasFollowPath fpp =
     fpp\<lparr>fullPathSearch := \<not> hasFollowPath, clearSight := True, maxSearchDist := 12, minTargetDist := 1, maxTargetDist := 1\<rparr>"

definition player_getPathSearchParams :: "bool \<Rightarrow> find_path_params \<Rightarrow> find_path_params" where
  "player_getPathSearchParams hasFollowPath fpp = (getPathSearchParams hasFollowPath fpp)\<lparr>fullPathSearch := True\<rparr>"

record monster_state =
  targetDistance :: int
  isSummon :: bool
  masterIsTarget :: bool   \<comment> \<open>\<open>getMaster() == creature\<close>\<close>
  isFleeing :: bool
  canUseAttack :: bool     \<comment> \<open>\<open>canUseAttack(getPosition(), creature)\<close>\<close>

definition monster_getPathSearchParams :: "monster_state \<Rightarrow> bool \<Rightarrow> find_path_params \<Rightarrow> find_path_params" where
  "monster_getPathSearchParams m hasFollowPath fpp =
     (let fpp = (getPathSearchParams hasFollowPath fpp)\<lparr>minTargetDist := 1, maxTargetDist := targetDistance m\<rparr>
      in if isSummon m then
           if masterIsTarget m then fpp\<lparr>maxTargetDist := 2, fullPathSearch := True\<rparr>
           else if targetDistance m \<le> 1 then fpp\<lparr>fullPathSearch := True\<rparr>
           else fpp\<lparr>fullPathSearch := \<not> canUseAttack m\<rparr>
         else if isFleeing m then
           fpp\<lparr>maxTargetDist := maxViewportX, clearSight := False, keepDistance := True, fullPathSearch := False\<rparr>
         else if targetDistance m \<le> 1 then fpp\<lparr>fullPathSearch := True\<rparr>
         else fpp\<lparr>fullPathSearch := \<not> canUseAttack m\<rparr>)"

subsection \<open>The search\<close>

fun dirNeighbors :: "Direction \<Rightarrow> (int \<times> int) list" where
  "dirNeighbors DIRECTION_NORTH = [(-1, 0), (0, 1), (1, 0), (1, 1), (-1, 1)]"
| "dirNeighbors DIRECTION_EAST = [(-1, 0), (0, 1), (0, -1), (-1, -1), (-1, 1)]"
| "dirNeighbors DIRECTION_SOUTH = [(-1, 0), (1, 0), (0, -1), (-1, -1), (1, -1)]"
| "dirNeighbors DIRECTION_WEST = [(0, 1), (1, 0), (0, -1), (1, -1), (1, 1)]"
| "dirNeighbors DIRECTION_SOUTHWEST = [(1, 0), (0, -1), (-1, -1), (1, -1), (1, 1)]"
| "dirNeighbors DIRECTION_SOUTHEAST = [(-1, 0), (0, -1), (-1, -1), (1, -1), (-1, 1)]"
| "dirNeighbors DIRECTION_NORTHWEST = [(0, 1), (1, 0), (1, -1), (1, 1), (-1, 1)]"
| "dirNeighbors DIRECTION_NORTHEAST = [(-1, 0), (0, 1), (-1, -1), (1, 1), (-1, 1)]"
| "dirNeighbors DIRECTION_NONE = []"

definition allNeighbors :: "(int \<times> int) list" where
  "allNeighbors = [(-1, 0), (0, 1), (1, 0), (0, -1), (-1, -1), (1, -1), (1, 1), (-1, 1)]"

text \<open>The table for the offset of the parent.\<close>

definition parent_table :: "bool \<Rightarrow> int \<Rightarrow> int \<Rightarrow> Direction" where
  "parent_table diagonal offset_x offset_y =
     (if offset_y = 0 then if offset_x = -1 then DIRECTION_WEST else DIRECTION_EAST
      else if \<not> diagonal \<or> offset_x = 0 then if offset_y = -1 then DIRECTION_NORTH else DIRECTION_SOUTH
      else if offset_y = -1 then if offset_x = -1 then DIRECTION_NORTHWEST else DIRECTION_NORTHEAST
      else if offset_x = -1 then DIRECTION_SOUTHWEST else DIRECTION_SOUTHEAST)"

definition node_neighbors :: "find_path_params \<Rightarrow> nat \<Rightarrow> astar \<Rightarrow> (int \<times> int) list" where
  "node_neighbors fpp n s =
     (case an_parent (an_nodes s n) of
        Some p \<Rightarrow>
          let offset_x = uint (an_x (an_nodes s p)) - uint (an_x (an_nodes s n));
              offset_y = uint (an_y (an_nodes s p)) - uint (an_y (an_nodes s n));
              dirCount = (if allowDiagonal fpp then 5 else 3)
          in take dirCount (dirNeighbors (parent_table (allowDiagonal fpp) offset_x offset_y))
      | None \<Rightarrow> allNeighbors)"

text \<open>
  The body of the loop over the neighbours of \<open>n\<close>.  \<open>None\<close> is a null pointer that is followed (a node without a
  tile) or a failed assertion, \<open>NoRoom\<close> a node that could not be created.
\<close>

datatype expansion = Expanded astar | NoRoom astar

definition outOfReach :: "Position \<Rightarrow> Position \<Rightarrow> find_path_params \<Rightarrow> Position \<Rightarrow> bool" where
  "outOfReach targetPos startPos fpp pos \<longleftrightarrow>
     (maxSearchDist fpp \<noteq> 0 \<and>
        (getDistanceX startPos pos > maxSearchDist fpp \<or> getDistanceY startPos pos > maxSearchDist fpp)) \<or>
     (keepDistance fpp \<and> \<not> targetInRange targetPos startPos pos fpp)"

definition visit_neighbor ::
  "'tile path_env \<Rightarrow> nat \<Rightarrow> int \<Rightarrow> Position \<Rightarrow> astar \<Rightarrow> expansion option" where
  "visit_neighbor e n f pos s =
     (let neighborNode = getNodeByPosition (pos_x pos) (pos_y pos) s
      in case neighborNode of
           Some k \<Rightarrow>
             (case tile_at (pe_walk e) pos of
                None \<Rightarrow> None
              | Some tile \<Rightarrow>
                  let cost = getMapWalkCost (an_nodes s n) pos; extraCost = getTileWalkCost e tile; newf = f + cost + extraCost
                  in if an_f (an_nodes s k) \<le> newf then Some (Expanded s)
                     else map_option Expanded (openNode k
                            (s\<lparr>an_nodes := (an_nodes s)(k := (an_nodes s k)\<lparr>an_f := newf, an_parent := Some n\<rparr>)\<rparr>)))
         | None \<Rightarrow>
             (case canWalkTo (pe_walk e) (pe_creature e) pos of
                None \<Rightarrow> Some (Expanded s)
              | Some tile \<Rightarrow>
                  let cost = getMapWalkCost (an_nodes s n) pos; extraCost = getTileWalkCost e tile; newf = f + cost + extraCost
                  in case createOpenNode n (pos_x pos) (pos_y pos) newf s of
                       None \<Rightarrow> Some (NoRoom s)
                     | Some s \<Rightarrow> Some (Expanded s)))"

fun expand_node ::
  "'tile path_env \<Rightarrow> Position \<Rightarrow> Position \<Rightarrow> find_path_params \<Rightarrow> nat \<Rightarrow> int \<Rightarrow> int \<Rightarrow> int \<Rightarrow> (int \<times> int) list \<Rightarrow> astar \<Rightarrow>
     expansion option" where
  "expand_node e targetPos startPos fpp n f x y [] s = Some (Expanded s)"
| "expand_node e targetPos startPos fpp n f x y ((dx, dy) # neighbors) s =
     (let pos = Position (word_of_int (x + dx)) (word_of_int (y + dy)) (pos_z startPos)
      in if outOfReach targetPos startPos fpp pos then expand_node e targetPos startPos fpp n f x y neighbors s
         else case visit_neighbor e n f pos s of
                None \<Rightarrow> None
              | Some (NoRoom s) \<Rightarrow> Some (NoRoom s)
              | Some (Expanded s) \<Rightarrow> expand_node e targetPos startPos fpp n f x y neighbors s)"

text \<open>
  The \<open>while\<close> loop: \<open>Inl\<close> is the state of the next round, \<open>Inr\<close> the end of the loop or the early return (with
  nothing found).
\<close>

record path_state =
  ps_nodes :: astar
  ps_found :: "nat option"
  ps_endPos :: Position
  ps_bestMatch :: int

definition node_position :: "astar \<Rightarrow> Position \<Rightarrow> nat \<Rightarrow> Position" where
  "node_position s startPos n = Position (an_x (an_nodes s n)) (an_y (an_nodes s n)) (pos_z startPos)"

definition path_round ::
  "'tile path_env \<Rightarrow> Position \<Rightarrow> Position \<Rightarrow> find_path_params \<Rightarrow> path_state \<Rightarrow> (path_state + path_state) option" where
  "path_round e targetPos startPos fpp st =
     (let s = ps_nodes st in
      if maxSearchDist fpp \<noteq> 0 \<or> closedNodes s < 100 then
        case getBestNode s of
          None \<Rightarrow> Some (Inr st)
        | Some n \<Rightarrow>
            let x = uint (an_x (an_nodes s n)); y = uint (an_y (an_nodes s n));
                pos = node_position s startPos n;
                (matched, best) = pathCondition e targetPos startPos pos fpp (ps_bestMatch st);
                st = (if matched then st\<lparr>ps_found := Some n, ps_endPos := pos, ps_bestMatch := best\<rparr>
                      else st\<lparr>ps_bestMatch := best\<rparr>)
            in if matched \<and> best = 0 then Some (Inr st)
               else case expand_node e targetPos startPos fpp n (an_f (an_nodes s n)) x y (node_neighbors fpp n s) s of
                      None \<Rightarrow> None
                    | Some (Expanded s) \<Rightarrow> map_option (\<lambda>s. Inl (st\<lparr>ps_nodes := s\<rparr>)) (closeNode n s)
                    | Some (NoRoom s) \<Rightarrow>
                        if ps_found st = None then Some (Inr (st\<lparr>ps_nodes := s\<rparr>))
                        else map_option (\<lambda>s. Inl (st\<lparr>ps_nodes := s\<rparr>)) (closeNode n s)
      else Some (Inr st))"

partial_function (option) path_loop ::
  "'tile path_env \<Rightarrow> Position \<Rightarrow> Position \<Rightarrow> find_path_params \<Rightarrow> path_state \<Rightarrow> path_state option" where
  "path_loop e targetPos startPos fpp st =
     (case path_round e targetPos startPos fpp st of
        None \<Rightarrow> None
      | Some (Inr st) \<Rightarrow> Some st
      | Some (Inl st) \<Rightarrow> path_loop e targetPos startPos fpp st)"

subsection \<open>The way back\<close>

definition back_direction :: "int \<Rightarrow> int \<Rightarrow> Direction list" where
  "back_direction dx dy =
     (if dx = 1 \<and> dy = 1 then [DIRECTION_NORTHWEST]
      else if dx = -1 \<and> dy = 1 then [DIRECTION_NORTHEAST]
      else if dx = 1 \<and> dy = -1 then [DIRECTION_SOUTHWEST]
      else if dx = -1 \<and> dy = -1 then [DIRECTION_SOUTHEAST]
      else if dx = 1 then [DIRECTION_WEST]
      else if dx = -1 then [DIRECTION_EAST]
      else if dy = 1 then [DIRECTION_NORTH]
      else if dy = -1 then [DIRECTION_SOUTH]
      else [])"

partial_function (option) way_back ::
  "astar \<Rightarrow> int \<Rightarrow> int \<Rightarrow> nat option \<Rightarrow> Direction list \<Rightarrow> Direction list option" where
  "way_back s prevx prevy found dirList =
     (case found of
        None \<Rightarrow> Some dirList
      | Some k \<Rightarrow>
          let x = uint (an_x (an_nodes s k)); y = uint (an_y (an_nodes s k)); dx = x - prevx; dy = y - prevy
          in way_back s x y (an_parent (an_nodes s k)) (dirList @ back_direction dx dy))"

text \<open>
  The whole function: whether there is a way, and the list of directions.  \<open>None\<close> is a search that does not end
  or follows a null pointer.
\<close>

definition getPathMatching ::
  "'tile path_env \<Rightarrow> Direction list \<Rightarrow> Position \<Rightarrow> find_path_params \<Rightarrow> (bool \<times> Direction list) option" where
  "getPathMatching e dirList targetPos fpp =
     (let startPos = wk_pos (pe_creature e);
          st = \<lparr>ps_nodes = AStarNodes_init (pos_x startPos) (pos_y startPos), ps_found = None,
                ps_endPos = Position 0 0 0, ps_bestMatch = 0\<rparr>
      in case path_loop e targetPos startPos fpp st of
           None \<Rightarrow> None
         | Some st \<Rightarrow>
             (case ps_found st of
                None \<Rightarrow> Some (False, dirList)
              | Some n \<Rightarrow>
                  map_option (\<lambda>ds. (True, ds)) (way_back (ps_nodes st) (getX (ps_endPos st)) (getY (ps_endPos st))
                    (an_parent (an_nodes (ps_nodes st) n)) dirList)))"

definition getPathTo ::
  "'tile path_env \<Rightarrow> Position \<Rightarrow> Direction list \<Rightarrow> find_path_params \<Rightarrow> (bool \<times> Direction list) option" where
  "getPathTo e targetPos dirList fpp = getPathMatching e dirList targetPos fpp"

definition getPathTo_dist ::
  "'tile path_env \<Rightarrow> Position \<Rightarrow> Direction list \<Rightarrow> int \<Rightarrow> int \<Rightarrow> bool \<Rightarrow> bool \<Rightarrow> int \<Rightarrow> (bool \<times> Direction list) option" where
  "getPathTo_dist e targetPos dirList minDist maxDist fullSearch clear searchDist =
     getPathTo e targetPos dirList
       (default_params\<lparr>fullPathSearch := fullSearch, maxSearchDist := searchDist, clearSight := clear,
          minTargetDist := minDist, maxTargetDist := maxDist\<rparr>)"

subsection \<open>Costs and squares\<close>

definition move_cost :: "Position \<Rightarrow> Position \<Rightarrow> int" where
  "move_cost p p' = (if getDistanceX p p' = getDistanceY p p' then MAP_DIAGONALWALKCOST else MAP_NORMALWALKCOST)"

definition enter_cost :: "'tile path_env \<Rightarrow> Position \<Rightarrow> int" where
  "enter_cost e p = (case tile_at (pe_walk e) p of None \<Rightarrow> 0 | Some tile \<Rightarrow> getTileWalkCost e tile)"

definition step_cost :: "'tile path_env \<Rightarrow> Position \<Rightarrow> Position \<Rightarrow> int" where
  "step_cost e p p' = move_cost p p' + enter_cost e p'"

lemma getMapWalkCost_eq: "getMapWalkCost (an_nodes s n) pos = move_cost (node_position s q n) pos"
  by (simp add: getMapWalkCost_def move_cost_def node_position_def offset_defs)

lemma getTileWalkCost_bounds: "0 \<le> getTileWalkCost e tile" "getTileWalkCost e tile \<le> 210"
  by (auto simp: getTileWalkCost_def MAP_NORMALWALKCOST_def split: option.splits)

lemma step_cost_bounds: "10 \<le> step_cost e p p'" "step_cost e p p' \<le> 235"
proof -
  have "0 \<le> enter_cost e p'" "enter_cost e p' \<le> 210"
    using getTileWalkCost_bounds by (auto simp: enter_cost_def split: option.split)
  then show "10 \<le> step_cost e p p'" "step_cost e p p' \<le> 235"
    by (auto simp: step_cost_def move_cost_def MAP_NORMALWALKCOST_def MAP_DIAGONALWALKCOST_def)
qed

text \<open>A square of the search: the creature can walk to it, and it is in reach.\<close>

definition admissible :: "'tile path_env \<Rightarrow> Position \<Rightarrow> find_path_params \<Rightarrow> Position \<Rightarrow> bool" where
  "admissible e t fpp p \<longleftrightarrow>
     canWalkTo (pe_walk e) (pe_creature e) p \<noteq> None \<and> \<not> outOfReach t (wk_pos (pe_creature e)) fpp p"

text \<open>The creature stands on a tile, and no tile of its floor lies on the edge of the map.\<close>

definition inside :: "Position \<Rightarrow> bool" where
  "inside p \<longleftrightarrow> 0 < getX p \<and> getX p < 65535 \<and> 0 < getY p \<and> getY p < 65535"

definition path_world :: "'tile path_env \<Rightarrow> bool" where
  "path_world e \<longleftrightarrow>
     tile_at (pe_walk e) (wk_pos (pe_creature e)) \<noteq> None \<and>
     (\<forall>p. pos_z p = pos_z (wk_pos (pe_creature e)) \<longrightarrow> \<not> inside p \<longrightarrow> tile_at (pe_walk e) p = None)"

lemma canWalkTo_tile: "canWalkTo e w p = Some tile \<Longrightarrow> tile_at e p = Some tile"
  by (auto simp: canWalkTo_def Let_def split: if_splits option.splits)

lemma admissible_tile: "admissible e t fpp p \<Longrightarrow> tile_at (pe_walk e) p \<noteq> None"
  using canWalkTo_tile by (fastforce simp: admissible_def)

lemma admissible_inside:
  "path_world e \<Longrightarrow> admissible e t fpp p \<Longrightarrow> pos_z p = pos_z (wk_pos (pe_creature e)) \<Longrightarrow> inside p"
  using admissible_tile by (fastforce simp: path_world_def)

lemma start_inside: "path_world e \<Longrightarrow> inside (wk_pos (pe_creature e))"
  by (auto simp: path_world_def)

text \<open>The square next to a square inside the map.\<close>

lemma neighbor_position:
  assumes "inside p" "\<bar>dx\<bar> \<le> 1" "\<bar>dy\<bar> \<le> 1" "(dx, dy) \<noteq> (0, 0)"
  shows "steps_to p (Position (word_of_int (getX p + dx)) (word_of_int (getY p + dy)) (pos_z p)) dx dy"
proof -
  have "0 \<le> getX p + dx" "getX p + dx < 65536" "0 \<le> getY p + dy" "getY p + dy < 65536"
    using assms(1-3) unfolding inside_def abs_le_iff by linarith+
  note coords = getX_word(1) [OF this(1,2)] getX_word(2) [OF this(3,4)]
  show ?thesis unfolding steps_to_def coords using assms by simp
qed

lemma Position_getX: "p = Position (word_of_int (getX p)) (word_of_int (getY p)) (pos_z p)"
  by (cases p) simp

lemma steps_to_position:
  assumes "steps_to p p' dx dy"
  shows "p' = Position (word_of_int (getX p + dx)) (word_of_int (getY p + dy)) (pos_z p)"
  using Position_getX [of p'] assms by (simp only: steps_to_def)

lemma Position_eq_iff: "p = p' \<longleftrightarrow> getX p = getX p' \<and> getY p = getY p' \<and> pos_z p = pos_z p'"
  by (cases p; cases p') (auto simp: getX_def getY_def word_uint_eq_iff)

lemma move_cost_steps: "steps_to p p' dx dy \<Longrightarrow> move_cost p p' = (if \<bar>dx\<bar> = \<bar>dy\<bar> then 25 else 10)"
  by (simp add: steps_to_def move_cost_def getDistanceX_def getDistanceY_def getOffsetX_def getOffsetY_def
      MAP_NORMALWALKCOST_def MAP_DIAGONALWALKCOST_def)

text \<open>The keys of the table of nodes.\<close>

lemma unat_node_key: "unat (node_key x y) = unat x * 65536 + unat y"
proof -
  have wide: "unat (ucast (w :: u16) :: u32) = unat w" for w by (rule unat_ucast_widen) simp
  have "unat (push_bit 16 (ucast x) OR ucast y :: u32) = unat (ucast x :: u32) * 2 ^ 16 + unat (ucast y :: u32)"
    by (rule unat_push_or) (use wide [of x] wide [of y] unat_u16_less [of x] unat_u16_less [of y] in simp_all)
  then show ?thesis by (simp add: node_key_def wide)
qed

lemma node_key_eq: "node_key x y = node_key x' y' \<longleftrightarrow> x = x' \<and> y = y'"
proof
  assume "node_key x y = node_key x' y'"
  then have eq: "unat x * 65536 + unat y = unat x' * 65536 + unat y'" using unat_node_key by metis
  have "unat x = (unat x * 65536 + unat y) div 65536" "unat y = (unat x * 65536 + unat y) mod 65536" for x y :: u16
    using unat_u16_less [of y] by simp_all
  with eq have "unat x = unat x'" "unat y = unat y'" by metis+
  then show "x = x' \<and> y = y'" by (simp add: word_unat_eq_iff)
qed simp

subsection \<open>The invariant of the search\<close>

abbreviation label :: "astar \<Rightarrow> nat \<Rightarrow> int" where
  "label s i \<equiv> an_f (an_nodes s i)"

abbreviation place_of :: "'tile path_env \<Rightarrow> astar \<Rightarrow> nat \<Rightarrow> Position" where
  "place_of e s i \<equiv> node_position s (wk_pos (pe_creature e)) i"

text \<open>The table finds exactly the nodes of the array.\<close>

definition table_ok :: "astar \<Rightarrow> bool" where
  "table_ok s \<longleftrightarrow> 0 < curNode s \<and> curNode s \<le> 512 \<and> (\<forall>i. openNodes s i \<longrightarrow> i < curNode s) \<and>
     (\<forall>x y i. getNodeByPosition x y s = Some i \<longleftrightarrow> i < curNode s \<and> an_x (an_nodes s i) = x \<and> an_y (an_nodes s i) = y)"

definition root_ok :: "'tile path_env \<Rightarrow> astar \<Rightarrow> bool" where
  "root_ok e s \<longleftrightarrow> an_parent (an_nodes s 0) = None \<and> label s 0 = 0 \<and> place_of e s 0 = wk_pos (pe_creature e)"

text \<open>Every other node was reached from its parent, at the cost of the step.\<close>

definition linked :: "'tile path_env \<Rightarrow> Position \<Rightarrow> find_path_params \<Rightarrow> astar \<Rightarrow> nat \<Rightarrow> nat \<Rightarrow> bool" where
  "linked e t fpp s j i \<longleftrightarrow> j < curNode s \<and>
     (\<exists>dx dy. steps_to (place_of e s j) (place_of e s i) dx dy \<and> (\<not> allowDiagonal fpp \<longrightarrow> j \<noteq> 0 \<longrightarrow> dx = 0 \<or> dy = 0)) \<and>
     label s j + step_cost e (place_of e s j) (place_of e s i) \<le> label s i \<and> admissible e t fpp (place_of e s i)"

definition links_ok :: "'tile path_env \<Rightarrow> Position \<Rightarrow> find_path_params \<Rightarrow> astar \<Rightarrow> bool" where
  "links_ok e t fpp s \<longleftrightarrow> (\<forall>i. 0 < i \<and> i < curNode s \<longrightarrow> (\<exists>j. an_parent (an_nodes s i) = Some j \<and> linked e t fpp s j i))"

text \<open>
  Closed nodes have the least labels, and only they are parents, apart from the node \<open>N\<close> that is being expanded
  and is the least of the open ones.
\<close>

definition frontier_ok :: "nat option \<Rightarrow> astar \<Rightarrow> bool" where
  "frontier_ok N s \<longleftrightarrow>
     (\<forall>i < curNode s. 0 \<le> label s i \<and> label s i \<le> 235 * int i) \<and>
     (\<forall>i < curNode s. \<forall>j. \<not> openNodes s i \<longrightarrow> openNodes s j \<longrightarrow> label s i \<le> label s j) \<and>
     (\<forall>i < curNode s. \<forall>j. an_parent (an_nodes s i) = Some j \<longrightarrow> \<not> openNodes s j \<or> N = Some j) \<and>
     (\<forall>n. N = Some n \<longrightarrow> openNodes s n \<and> (\<forall>j. openNodes s j \<longrightarrow> label s n \<le> label s j))"

definition astar_ok :: "'tile path_env \<Rightarrow> Position \<Rightarrow> find_path_params \<Rightarrow> nat option \<Rightarrow> astar \<Rightarrow> bool" where
  "astar_ok e t fpp N s \<longleftrightarrow> table_ok s \<and> root_ok e s \<and> links_ok e t fpp s \<and> frontier_ok N s"

definition reached :: "'tile path_env \<Rightarrow> astar \<Rightarrow> Position \<Rightarrow> int \<Rightarrow> bool" where
  "reached e s p c \<longleftrightarrow> (\<exists>k < curNode s. place_of e s k = p \<and> label s k \<le> c)"

text \<open>What an expansion of \<open>n\<close> leaves of the nodes: labels fall, closed nodes and \<open>n\<close> stay as they are, and none is closed.\<close>

definition extends :: "nat \<Rightarrow> astar \<Rightarrow> astar \<Rightarrow> bool" where
  "extends n s s' \<longleftrightarrow> curNode s \<le> curNode s' \<and>
     (\<forall>i < curNode s'. \<not> openNodes s' i \<longrightarrow> i < curNode s \<and> \<not> openNodes s i) \<and>
     (\<forall>i < curNode s. an_x (an_nodes s' i) = an_x (an_nodes s i) \<and> an_y (an_nodes s' i) = an_y (an_nodes s i) \<and>
        label s' i \<le> label s i \<and>
        (\<not> openNodes s i \<or> i = n \<longrightarrow> an_nodes s' i = an_nodes s i \<and> openNodes s' i = openNodes s i))"

lemma extends_refl [simp]: "extends n s s"
  by (simp add: extends_def)

lemma extendsD:
  assumes "extends n s s'"
  shows "curNode s \<le> curNode s'"
    and "i < curNode s' \<Longrightarrow> \<not> openNodes s' i \<Longrightarrow> i < curNode s \<and> \<not> openNodes s i"
    and "i < curNode s \<Longrightarrow> an_x (an_nodes s' i) = an_x (an_nodes s i) \<and> an_y (an_nodes s' i) = an_y (an_nodes s i) \<and>
      label s' i \<le> label s i"
    and "i < curNode s \<Longrightarrow> \<not> openNodes s i \<or> i = n \<Longrightarrow> an_nodes s' i = an_nodes s i \<and> openNodes s' i = openNodes s i"
  using assms unfolding extends_def by blast+

lemma extends_trans:
  assumes "extends n s s'" "extends n s' s''"
  shows "extends n s s''"
  unfolding extends_def
proof (intro conjI allI impI)
  show "curNode s \<le> curNode s''" using extendsD(1) [OF assms(1)] extendsD(1) [OF assms(2)] by simp
next
  fix i assume "i < curNode s''" "\<not> openNodes s'' i"
  then show "i < curNode s" "\<not> openNodes s i" using extendsD(2) [OF assms(1)] extendsD(2) [OF assms(2)] by blast+
next
  fix i assume i: "i < curNode s"
  then have i': "i < curNode s'" using extendsD(1) [OF assms(1)] by simp
  note one = extendsD(3) [OF assms(1) i] and two = extendsD(3) [OF assms(2) i']
  show "an_x (an_nodes s'' i) = an_x (an_nodes s i)" "an_y (an_nodes s'' i) = an_y (an_nodes s i)" "label s'' i \<le> label s i"
    using one two by simp_all
  assume same: "\<not> openNodes s i \<or> i = n"
  note first = extendsD(4) [OF assms(1) i same]
  then have "\<not> openNodes s' i \<or> i = n" using same by auto
  from extendsD(4) [OF assms(2) i' this] first
  show "an_nodes s'' i = an_nodes s i" "openNodes s'' i = openNodes s i" by simp_all
qed

lemma extends_place: "extends n s s' \<Longrightarrow> i < curNode s \<Longrightarrow> node_position s' q i = node_position s q i"
  by (simp add: extends_def node_position_def)

lemma reached_extends: "extends n s s' \<Longrightarrow> reached e s p c \<Longrightarrow> reached e s' p c"
  unfolding reached_def using extends_place extendsD(1,3) by (metis order_less_le_trans order_trans)

lemma node_position_pos_z [simp]: "pos_z (node_position s q i) = pos_z q"
  by (simp add: node_position_def)

text \<open>A node that is found has its place, and its square a tile.\<close>

lemma getNode_place:
  assumes "table_ok s" "pos_z p = pos_z q"
  shows "getNodeByPosition (pos_x p) (pos_y p) s = Some k \<longleftrightarrow> k < curNode s \<and> node_position s q k = p"
  using assms by (cases p) (auto simp: table_ok_def node_position_def)

lemma place_inj:
  assumes "table_ok s" "i < curNode s" "j < curNode s" "node_position s q i = node_position s q j"
  shows "i = j"
  using getNode_place [OF assms(1), of "node_position s q i" q i] getNode_place [OF assms(1), of "node_position s q i" q j] assms
  by simp

lemma place_tile:
  assumes "astar_ok e t fpp N s" "path_world e" "k < curNode s"
  shows "\<exists>tile. tile_at (pe_walk e) (place_of e s k) = Some tile"
proof (cases "k = 0")
  case True
  then show ?thesis using assms(1,2) by (auto simp: astar_ok_def root_ok_def path_world_def)
next
  case False
  then have "admissible e t fpp (place_of e s k)" using assms(1,3) by (auto simp: astar_ok_def links_ok_def linked_def)
  then show ?thesis using admissible_tile by blast
qed

lemma place_inside:
  assumes "astar_ok e t fpp N s" "path_world e" "k < curNode s"
  shows "inside (place_of e s k)"
proof -
  obtain tile where "tile_at (pe_walk e) (place_of e s k) = Some tile" using place_tile [OF assms] by blast
  then show ?thesis using assms(2) unfolding path_world_def by (metis node_position_pos_z option.distinct(1))
qed

subsection \<open>Visiting a neighbour\<close>

text \<open>An open node gets a better label and the expanded node for its parent.\<close>

lemma relabel_ok:
  assumes ok: "astar_ok e t fpp (Some n) s" and k: "k < curNode s"
    and step: "steps_to (place_of e s n) (place_of e s k) dx dy" "\<not> allowDiagonal fpp \<longrightarrow> n \<noteq> 0 \<longrightarrow> dx = 0 \<or> dy = 0"
    and newf: "newf = label s n + step_cost e (place_of e s n) (place_of e s k)" "newf < label s k"
    and s': "s' = s\<lparr>an_nodes := (an_nodes s)(k := (an_nodes s k)\<lparr>an_f := newf, an_parent := Some n\<rparr>)\<rparr>"
  shows "openNodes s k \<and> astar_ok e t fpp (Some n) s' \<and> extends n s s'"
proof -
  have table: "table_ok s" and root: "root_ok e s" and links: "links_ok e t fpp s" and front: "frontier_ok (Some n) s"
    using ok by (simp_all add: astar_ok_def)
  have n: "openNodes s n" "n < curNode s" using front table by (auto simp: frontier_ok_def table_ok_def)
  have less: "label s n < newf" using newf(1) step_cost_bounds(1) [of e "place_of e s n" "place_of e s k"] by simp
  have "n \<noteq> k" using less newf(2) by auto
  have "0 \<le> label s n" using front n by (simp add: frontier_ok_def)
  then have "k \<noteq> 0" using root less newf(2) \<open>0 \<le> label s n\<close> by (intro notI) (simp add: root_ok_def)
  have open_k: "openNodes s k"
  proof (rule ccontr)
    assume "\<not> openNodes s k"
    then have "label s k \<le> label s n" using front n k by (simp add: frontier_ok_def)
    with less newf(2) show False by simp
  qed
  have no_parent: "an_parent (an_nodes s i) \<noteq> Some k" if "i < curNode s" for i
    using front that open_k \<open>n \<noteq> k\<close> by (auto simp: frontier_ok_def)
  have place: "node_position s' q i = node_position s q i" for q i by (simp add: s' node_position_def)
  have "table_ok s'" using table by (auto simp: table_ok_def s' getNodeByPosition_def)
  moreover have "root_ok e s'" using root \<open>k \<noteq> 0\<close> by (simp add: root_ok_def s' node_position_def)
  moreover have "links_ok e t fpp s'"
    unfolding links_ok_def
  proof (intro allI impI)
    fix i assume i: "0 < i \<and> i < curNode s'"
    then obtain j where j: "an_parent (an_nodes s i) = Some j" "linked e t fpp s j i"
      using links by (auto simp: links_ok_def s')
    show "\<exists>j. an_parent (an_nodes s' i) = Some j \<and> linked e t fpp s' j i"
    proof (cases "i = k")
      case True
      have "linked e t fpp s' n k" using j step n newf True \<open>n \<noteq> k\<close>
        unfolding linked_def place by (auto simp: s')
      then show ?thesis using True by (simp add: s')
    next
      case False
      have "j \<noteq> k" using j(1) no_parent i by (auto simp: s')
      then have "linked e t fpp s' j i" using j(2) False unfolding linked_def place by (simp add: s')
      then show ?thesis using False j(1) by (simp add: s')
    qed
  qed
  moreover have "frontier_ok (Some n) s'"
    unfolding frontier_ok_def
  proof (intro conjI allI impI)
    fix i assume i: "i < curNode s'"
    show "0 \<le> label s' i" using front i newf less \<open>0 \<le> label s n\<close> by (auto simp: frontier_ok_def s')
    show "label s' i \<le> 235 * int i" using front i newf k by (auto simp: frontier_ok_def s' dest!: spec [of _ k])
  next
    fix i j assume i: "i < curNode s'" "\<not> openNodes s' i" "openNodes s' j"
    then have "label s i \<le> label s n" "label s i \<le> label s j" "i \<noteq> k"
      using front n open_k by (auto simp: frontier_ok_def s')
    then show "label s' i \<le> label s' j" using less by (auto simp: s')
  next
    fix i j assume i: "i < curNode s'" "an_parent (an_nodes s' i) = Some j"
    then show "\<not> openNodes s' j \<or> Some n = Some j"
      using front by (cases "i = k") (auto simp: frontier_ok_def s')
  next
    fix m assume m: "Some n = Some m"
    show "openNodes s' m" using m n by (simp add: s')
    fix j assume "openNodes s' j"
    then show "label s' m \<le> label s' j" using m front less \<open>n \<noteq> k\<close> by (auto simp: frontier_ok_def s')
  qed
  moreover have "extends n s s'" using newf open_k \<open>n \<noteq> k\<close> by (auto simp: extends_def s')
  ultimately show ?thesis using open_k by (simp add: astar_ok_def)
qed

text \<open>A square that no node stands for gets one, with the expanded node for its parent.\<close>

lemma create_ok:
  assumes ok: "astar_ok e t fpp (Some n) s" and new: "getNodeByPosition (pos_x p) (pos_y p) s = None"
    and step: "steps_to (place_of e s n) p dx dy" "\<not> allowDiagonal fpp \<longrightarrow> n \<noteq> 0 \<longrightarrow> dx = 0 \<or> dy = 0"
    and adm: "admissible e t fpp p" and newf: "newf = label s n + step_cost e (place_of e s n) p"
    and create: "createOpenNode n (pos_x p) (pos_y p) newf s = Some s'"
  shows "astar_ok e t fpp (Some n) s' \<and> extends n s s' \<and> reached e s' p newf"
proof -
  have table: "table_ok s" and root: "root_ok e s" and links: "links_ok e t fpp s" and front: "frontier_ok (Some n) s"
    using ok by (simp_all add: astar_ok_def)
  let ?k = "curNode s"
  have n: "openNodes s n" "n < ?k" using front table by (auto simp: frontier_ok_def table_ok_def)
  have closed_k: "\<not> openNodes s ?k" using table by (auto simp: table_ok_def)
  have s': "s' = s\<lparr>curNode := ?k + 1, openNodes := (openNodes s)(?k := True),
             nodeTable := (nodeTable s)(node_key (pos_x p) (pos_y p) \<mapsto> ?k),
             an_nodes := (an_nodes s)(?k := \<lparr>an_parent = Some n, an_f = newf, an_x = pos_x p, an_y = pos_y p\<rparr>)\<rparr>"
    and room: "?k < 512"
    using create by (auto simp: createOpenNode_def Let_def MAX_NODES_def split: if_splits)
  have less: "label s n < newf" "newf \<le> label s n + 235"
    using newf step_cost_bounds [of e "place_of e s n" p] by simp_all
  have label_n: "0 \<le> label s n" "label s n \<le> 235 * int n" using front n by (simp_all add: frontier_ok_def)
  have z: "pos_z p = pos_z (wk_pos (pe_creature e))" using step(1) by (simp add: steps_to_def)
  have place: "node_position s' q i = node_position s q i" if "i < ?k" for q i using that by (simp add: s' node_position_def)
  have place_k: "place_of e s' ?k = p" using z by (cases p) (simp add: s' node_position_def)
  have "table_ok s'"
    unfolding table_ok_def
  proof (intro conjI allI impI)
    show "i < curNode s'" if "openNodes s' i" for i
      using that table by (auto simp: s' table_ok_def split: if_splits)
    fix x y i
    have other: "\<not> (i < ?k \<and> an_x (an_nodes s i) = pos_x p \<and> an_y (an_nodes s i) = pos_y p)" for i
      using new table unfolding table_ok_def by (metis option.distinct(1))
    show "getNodeByPosition x y s' = Some i \<longleftrightarrow> i < curNode s' \<and> an_x (an_nodes s' i) = x \<and> an_y (an_nodes s' i) = y"
    proof (cases "x = pos_x p \<and> y = pos_y p")
      case True
      then show ?thesis using other [of i] by (auto simp: s' getNodeByPosition_def)
    next
      case False
      then have "getNodeByPosition x y s' = getNodeByPosition x y s" by (auto simp: s' getNodeByPosition_def node_key_eq)
      then show ?thesis using table False by (auto simp: s' table_ok_def)
    qed
  qed (use room in \<open>simp_all add: s'\<close>)
  moreover have "root_ok e s'" using root n place [of 0] by (auto simp: root_ok_def s')
  moreover have "links_ok e t fpp s'"
    unfolding links_ok_def
  proof (intro allI impI)
    fix i assume i: "0 < i \<and> i < curNode s'"
    show "\<exists>j. an_parent (an_nodes s' i) = Some j \<and> linked e t fpp s' j i"
    proof (cases "i = ?k")
      case True
      have "linked e t fpp s' n ?k" using step n newf adm place [OF n(2)] place_k
        unfolding linked_def by (auto simp: s')
      then show ?thesis using True by (simp add: s')
    next
      case False
      with i obtain j where j: "an_parent (an_nodes s i) = Some j" "linked e t fpp s j i" "i < ?k"
        using links by (auto simp: links_ok_def s')
      then have "j < ?k" by (simp add: linked_def)
      then have "linked e t fpp s' j i" using j(2,3) place [of j] place [of i] by (simp add: linked_def s')
      then show ?thesis using False j(1) by (simp add: s')
    qed
  qed
  moreover have "frontier_ok (Some n) s'"
    unfolding frontier_ok_def
  proof (intro conjI allI impI)
    fix i assume i: "i < curNode s'"
    show "0 \<le> label s' i" using front i less label_n by (auto simp: frontier_ok_def s')
    show "label s' i \<le> 235 * int i" using front i less label_n n(2) by (auto simp: frontier_ok_def s')
  next
    fix i j assume i: "i < curNode s'" "\<not> openNodes s' i" "openNodes s' j"
    then have "i \<noteq> ?k" "i < ?k" "\<not> openNodes s i" by (auto simp: s' split: if_splits)
    then have "label s i \<le> label s n" "j \<noteq> ?k \<Longrightarrow> label s i \<le> label s j"
      using front n i by (auto simp: frontier_ok_def s')
    then show "label s' i \<le> label s' j" using less \<open>i \<noteq> ?k\<close> by (auto simp: s')
  next
    fix i j assume i: "i < curNode s'" "an_parent (an_nodes s' i) = Some j"
    show "\<not> openNodes s' j \<or> Some n = Some j"
    proof (cases "i = ?k")
      case True
      then show ?thesis using i by (simp add: s')
    next
      case False
      then have i': "i < ?k" "an_parent (an_nodes s i) = Some j" using i by (auto simp: s')
      then have "j < ?k" using links root by (cases "i = 0") (auto simp: links_ok_def linked_def root_ok_def)
      then show ?thesis using front i' by (auto simp: frontier_ok_def s')
    qed
  next
    fix m assume m: "Some n = Some m"
    show "openNodes s' m" using m n by (simp add: s')
    fix j assume "openNodes s' j"
    then show "label s' m \<le> label s' j" using m n(2) front less by (auto simp: frontier_ok_def s' split: if_splits)
  qed
  moreover have "extends n s s'" by (auto simp: extends_def s')
  moreover have "reached e s' p newf" using place_k by (auto simp: reached_def s' intro!: exI [of _ ?k])
  ultimately show ?thesis by (simp add: astar_ok_def)
qed

lemma visit_ok:
  assumes ok: "astar_ok e t fpp (Some n) s" and world: "path_world e"
    and step: "steps_to (place_of e s n) p dx dy" "\<not> allowDiagonal fpp \<longrightarrow> n \<noteq> 0 \<longrightarrow> dx = 0 \<or> dy = 0"
    and reach: "\<not> outOfReach t (wk_pos (pe_creature e)) fpp p"
  shows "case visit_neighbor e n (label s n) p s of
      None \<Rightarrow> False
    | Some (NoRoom s') \<Rightarrow> s' = s \<and> curNode s = 512
    | Some (Expanded s') \<Rightarrow> astar_ok e t fpp (Some n) s' \<and> extends n s s' \<and>
        (admissible e t fpp p \<longrightarrow> reached e s' p (label s n + step_cost e (place_of e s n) p))"
proof -
  have table: "table_ok s" using ok by (simp add: astar_ok_def)
  have z: "pos_z p = pos_z (wk_pos (pe_creature e))" using step(1) by (simp add: steps_to_def)
  have cost: "getMapWalkCost (an_nodes s n) p + getTileWalkCost e tile = step_cost e (place_of e s n) p" if "tile_at (pe_walk e) p = Some tile" for tile
    using that by (simp add: step_cost_def enter_cost_def getMapWalkCost_eq [of _ _ _ "wk_pos (pe_creature e)"])
  show ?thesis
  proof (cases "getNodeByPosition (pos_x p) (pos_y p) s")
    case None
    show ?thesis
    proof (cases "canWalkTo (pe_walk e) (pe_creature e) p")
      case None': None
      then show ?thesis using ok None by (simp add: visit_neighbor_def admissible_def)
    next
      case (Some tile)
      have adm: "admissible e t fpp p" using Some reach by (simp add: admissible_def)
      note tile = canWalkTo_tile [OF Some]
      define newf where "newf = label s n + step_cost e (place_of e s n) p"
      have visit: "visit_neighbor e n (label s n) p s =
          (case createOpenNode n (pos_x p) (pos_y p) newf s of None \<Rightarrow> Some (NoRoom s) | Some s \<Rightarrow> Some (Expanded s))"
        using None Some cost [OF tile] by (simp add: visit_neighbor_def newf_def add.assoc)
      show ?thesis
      proof (cases "createOpenNode n (pos_x p) (pos_y p) newf s")
        case None
        then show ?thesis using table by (auto simp: visit createOpenNode_def MAX_NODES_def table_ok_def Let_def split: if_splits)
      next
        case (Some s')
        then show ?thesis using create_ok [OF ok None step adm newf_def Some] by (simp add: visit newf_def)
      qed
    qed
  next
    case (Some k)
    then have k: "k < curNode s" "place_of e s k = p" using getNode_place [OF table z] by simp_all
    obtain tile where tile: "tile_at (pe_walk e) p = Some tile" using place_tile [OF ok world k(1)] k(2) by blast
    define newf where "newf = label s n + step_cost e (place_of e s n) p"
    show ?thesis
    proof (cases "label s k \<le> newf")
      case True
      then have "reached e s p newf" using k by (auto simp: reached_def)
      then show ?thesis using True Some tile ok cost [OF tile] by (simp add: visit_neighbor_def newf_def add.assoc)
    next
      case False
      define s' where "s' = s\<lparr>an_nodes := (an_nodes s)(k := (an_nodes s k)\<lparr>an_f := newf, an_parent := Some n\<rparr>)\<rparr>"
      have relabelled: "openNodes s k \<and> astar_ok e t fpp (Some n) s' \<and> extends n s s'"
        using relabel_ok [OF ok k(1) _ step(2) _ _ s'_def] step(1) False k(2) by (simp add: newf_def)
      have "reached e s' p newf" using k by (auto simp: reached_def s'_def node_position_def intro!: exI [of _ k])
      moreover have "k < 512" using k(1) table unfolding table_ok_def by linarith
      then have "openNode k s' = Some s'" using relabelled by (simp add: openNode_def MAX_NODES_def s'_def)
      ultimately show ?thesis
        using False Some tile cost [OF tile] relabelled
        by (simp add: visit_neighbor_def Let_def newf_def s'_def add.assoc)
    qed
  qed
qed

subsection \<open>A round\<close>

definition unit_offsets :: "(int \<times> int) list \<Rightarrow> bool" where
  "unit_offsets ds \<longleftrightarrow> (\<forall>(dx, dy) \<in> set ds. \<bar>dx\<bar> \<le> 1 \<and> \<bar>dy\<bar> \<le> 1 \<and> (dx, dy) \<noteq> (0, 0))"

lemma astar_ok_expanded: "astar_ok e t fpp (Some n) s \<Longrightarrow> n < curNode s \<and> openNodes s n"
  by (auto simp: astar_ok_def frontier_ok_def table_ok_def)

lemma expand_ok:
  assumes "astar_ok e t fpp (Some n) s" "path_world e" "unit_offsets ds"
    and "\<not> allowDiagonal fpp \<Longrightarrow> n \<noteq> 0 \<Longrightarrow> \<forall>(dx, dy) \<in> set ds. dx = 0 \<or> dy = 0"
  shows "case expand_node e t (wk_pos (pe_creature e)) fpp n (label s n) (getX (place_of e s n)) (getY (place_of e s n)) ds s of
      None \<Rightarrow> False
    | Some (NoRoom s') \<Rightarrow> astar_ok e t fpp (Some n) s' \<and> extends n s s' \<and> curNode s' = 512
    | Some (Expanded s') \<Rightarrow> astar_ok e t fpp (Some n) s' \<and> extends n s s' \<and>
        (\<forall>dx dy p. (dx, dy) \<in> set ds \<longrightarrow> steps_to (place_of e s n) p dx dy \<longrightarrow> admissible e t fpp p \<longrightarrow>
           reached e s' p (label s n + step_cost e (place_of e s n) p))"
  using assms
proof (induction ds arbitrary: s)
  case Nil
  then show ?case by simp
next
  case (Cons d ds)
  obtain dx dy where d: "d = (dx, dy)" by fastforce
  let ?q = "wk_pos (pe_creature e)"
  let ?n = "place_of e s n"
  note n = astar_ok_expanded [OF Cons.prems(1)]
  have off: "\<bar>dx\<bar> \<le> 1" "\<bar>dy\<bar> \<le> 1" "(dx, dy) \<noteq> (0, 0)" and units: "unit_offsets ds"
    using Cons.prems(3) by (auto simp: unit_offsets_def d)
  define p where "p = Position (word_of_int (getX ?n + dx)) (word_of_int (getY ?n + dy)) (pos_z ?q)"
  have step: "steps_to ?n p dx dy"
    using neighbor_position [OF place_inside [OF Cons.prems(1,2)] off] n by (simp add: p_def)
  have straight: "\<not> allowDiagonal fpp \<longrightarrow> n \<noteq> 0 \<longrightarrow> dx = 0 \<or> dy = 0"
    "\<not> allowDiagonal fpp \<Longrightarrow> n \<noteq> 0 \<Longrightarrow> \<forall>(dx, dy) \<in> set ds. dx = 0 \<or> dy = 0"
    using Cons.prems(4) by (auto simp: d)
  have only_p: "p' = p" if "steps_to ?n p' dx dy" for p'
    using steps_to_position [OF that] by (simp add: p_def)
  show ?case
  proof (cases "outOfReach t ?q fpp p")
    case True
    then have "\<not> admissible e t fpp p" by (simp add: admissible_def)
    have unfold: "expand_node e t ?q fpp n (label s n) (getX ?n) (getY ?n) (d # ds) s =
        expand_node e t ?q fpp n (label s n) (getX ?n) (getY ?n) ds s"
      by (simp only: d expand_node.simps Let_def p_def [symmetric] True if_True)
    show ?thesis using Cons.IH [OF Cons.prems(1,2) units straight(2)] \<open>\<not> admissible e t fpp p\<close> only_p
      unfolding unfold by (auto simp: d split: option.splits expansion.splits)
  next
    case False
    note visit = visit_ok [OF Cons.prems(1,2) step straight(1) False]
    show ?thesis
    proof (cases "visit_neighbor e n (label s n) p s")
      case None
      then show ?thesis using visit by simp
    next
      case (Some r)
      show ?thesis
      proof (cases r)
        case (NoRoom s')
        have "expand_node e t ?q fpp n (label s n) (getX ?n) (getY ?n) (d # ds) s = Some (NoRoom s')"
          by (simp only: d expand_node.simps Let_def p_def [symmetric] False if_False Some NoRoom option.case expansion.case)
        then show ?thesis using visit Some NoRoom Cons.prems(1) by simp
      next
        case (Expanded s')
        have s': "astar_ok e t fpp (Some n) s'" "extends n s s'"
          "admissible e t fpp p \<Longrightarrow> reached e s' p (label s n + step_cost e ?n p)"
          using visit Some Expanded by simp_all
        have same: "label s' n = label s n" "place_of e s' n = ?n"
          using s'(2) n extends_place [OF s'(2)] by (simp_all add: extends_def)
        have unfold: "expand_node e t ?q fpp n (label s n) (getX ?n) (getY ?n) (d # ds) s =
            expand_node e t ?q fpp n (label s' n) (getX (place_of e s' n)) (getY (place_of e s' n)) ds s'"
          by (simp only: d expand_node.simps Let_def p_def [symmetric] False if_False Some Expanded option.case expansion.case same)
        note IH = Cons.IH [OF s'(1) Cons.prems(2) units straight(2)]
        show ?thesis
        proof (cases "expand_node e t ?q fpp n (label s' n) (getX (place_of e s' n)) (getY (place_of e s' n)) ds s'")
          case None
          then show ?thesis using IH by simp
        next
          case (Some r')
          show ?thesis
          proof (cases r')
            case (NoRoom s2)
            then show ?thesis using IH unfolding unfold Some by (simp add: extends_trans [OF s'(2)])
          next
            case (Expanded s2)
            have s2: "astar_ok e t fpp (Some n) s2" "extends n s' s2"
              "\<forall>dx dy p. (dx, dy) \<in> set ds \<longrightarrow> steps_to ?n p dx dy \<longrightarrow> admissible e t fpp p \<longrightarrow>
                 reached e s2 p (label s n + step_cost e ?n p)"
              using IH Some Expanded by (simp_all add: same)
            have "reached e s2 p' (label s n + step_cost e ?n p')"
              if "(dx', dy') \<in> set (d # ds)" "steps_to ?n p' dx' dy'" "admissible e t fpp p'" for dx' dy' p'
            proof (cases "(dx', dy') = d")
              case True
              then have "p' = p" using only_p that(2) by (simp add: d)
              then show ?thesis using reached_extends [OF s2(2) s'(3)] that(3) by simp
            next
              case False
              then show ?thesis using s2(3) that by simp
            qed
            then show ?thesis unfolding unfold Some Expanded using s2(1) extends_trans [OF s'(2) s2(2)] by simp
          qed
        qed
      qed
    qed
  qed
qed

text \<open>The offsets that are visited.\<close>

lemma node_neighbors_units: "unit_offsets (node_neighbors fpp n s)"
proof -
  have all: "unit_offsets allNeighbors" by (simp add: unit_offsets_def allNeighbors_def)
  have "unit_offsets (dirNeighbors d)" for d by (cases d) (simp_all add: unit_offsets_def)
  then have "unit_offsets (take k (dirNeighbors d))" for k d using set_take_subset by (fastforce simp: unit_offsets_def)
  with all show ?thesis by (simp add: node_neighbors_def Let_def split: option.split)
qed

lemma node_neighbors_straight:
  assumes "\<not> allowDiagonal fpp" "an_parent (an_nodes s n) \<noteq> None"
  shows "\<forall>(dx, dy) \<in> set (node_neighbors fpp n s). dx = 0 \<or> dy = 0"
proof -
  have "\<forall>(dx, dy) \<in> set (take 3 (dirNeighbors (parent_table False ox oy))). dx = 0 \<or> dy = 0" for ox oy
    by (simp add: parent_table_def)
  then show ?thesis using assms by (auto simp: node_neighbors_def Let_def split: option.splits)
qed

text \<open>The scan finds an open node with the least label.\<close>

lemma better_fold:
  assumes "fold (better_node s) xs (b, m) = (b', m')" "m \<noteq> None \<longrightarrow> b = label s (the m) \<and> openNodes s (the m)"
  shows "(m' \<noteq> None \<longrightarrow> b' = label s (the m') \<and> openNodes s (the m')) \<and> b' \<le> b \<and>
    (\<forall>i \<in> set xs. openNodes s i \<longrightarrow> b' \<le> label s i) \<and> (m' = None \<longrightarrow> m = None \<and> b' = b)"
  using assms
proof (induction xs arbitrary: b m)
  case (Cons i xs)
  show ?case
  proof (cases "openNodes s i \<and> label s i < b")
    case True
    then have "better_node s i (b, m) = (label s i, Some i)" by (simp add: better_node_def)
    then have "fold (better_node s) xs (label s i, Some i) = (b', m')" using Cons.prems(1) by simp
    from Cons.IH [OF this] True show ?thesis by auto
  next
    case False
    then have "better_node s i (b, m) = (b, m)" by (auto simp: better_node_def)
    then have "fold (better_node s) xs (b, m) = (b', m')" using Cons.prems(1) by simp
    from Cons.IH [OF this Cons.prems(2)] False show ?thesis by auto
  qed
qed simp

lemma getBestNode_best:
  assumes "astar_ok e t fpp N s"
  shows "case getBestNode s of
      None \<Rightarrow> \<forall>i. \<not> openNodes s i
    | Some n \<Rightarrow> openNodes s n \<and> (\<forall>j. openNodes s j \<longrightarrow> label s n \<le> label s j)"
proof -
  have table: "0 < curNode s" "curNode s \<le> 512" "\<And>i. openNodes s i \<Longrightarrow> i < curNode s"
    using assms by (auto simp: astar_ok_def table_ok_def)
  have small: "label s i < 2147483647" if "i < curNode s" for i
  proof -
    have "label s i \<le> 235 * int i" using assms that by (simp add: astar_ok_def frontier_ok_def)
    then show ?thesis using that table(2) by simp
  qed
  obtain b m where fold: "fold (better_node s) [0..<curNode s] (2147483647, None) = (b, m)" by fastforce
  have best: "(m \<noteq> None \<longrightarrow> b = label s (the m) \<and> openNodes s (the m)) \<and> b \<le> 2147483647 \<and>
    (\<forall>i \<in> set [0..<curNode s]. openNodes s i \<longrightarrow> b \<le> label s i) \<and> (m = None \<longrightarrow> b = 2147483647)"
    using better_fold [OF fold] by simp
  have m: "getBestNode s = m" using table(1) fold by (simp add: getBestNode_def)
  show ?thesis
  proof (cases m)
    case None
    have "\<not> openNodes s i" for i
    proof
      assume i: "openNodes s i"
      then have "2147483647 \<le> label s i" using best None table(3) by auto
      then show False using small [OF table(3) [OF i]] by simp
    qed
    then show ?thesis by (simp add: m None)
  next
    case (Some n)
    have "label s n \<le> label s j" if "openNodes s j" for j using best Some table(3) that by auto
    then show ?thesis using best by (simp add: m Some)
  qed
qed

lemma closeNode_ok:
  assumes ok: "astar_ok e t fpp (Some n) s"
  shows "\<exists>s'. closeNode n s = Some s' \<and> astar_ok e t fpp None s' \<and> an_nodes s' = an_nodes s \<and> curNode s' = curNode s \<and>
    openNodes s' = (openNodes s)(n := False)"
proof -
  note n = astar_ok_expanded [OF ok]
  have "n < 512" using n ok by (simp add: astar_ok_def table_ok_def)
  define s' where "s' = s\<lparr>openNodes := (openNodes s)(n := False), closedNodes := closedNodes s + 1\<rparr>"
  have place: "node_position s' q i = node_position s q i" for q i by (simp add: s'_def node_position_def)
  have "table_ok s'" using ok by (auto simp: astar_ok_def table_ok_def s'_def getNodeByPosition_def)
  moreover have "root_ok e s'" using ok by (simp add: astar_ok_def root_ok_def place) (simp add: s'_def)
  moreover have "links_ok e t fpp s'" using ok by (simp add: astar_ok_def links_ok_def linked_def place) (simp add: s'_def)
  moreover have "frontier_ok None s'" using ok by (auto simp: astar_ok_def frontier_ok_def s'_def)
  moreover have "closeNode n s = Some s'" using \<open>n < 512\<close> by (simp add: closeNode_def MAX_NODES_def s'_def)
  ultimately show ?thesis by (simp add: astar_ok_def s'_def)
qed

lemma astar_ok_choose:
  assumes "astar_ok e t fpp None s" "openNodes s n" "\<forall>j. openNodes s j \<longrightarrow> label s n \<le> label s j"
  shows "astar_ok e t fpp (Some n) s"
  using assms by (auto simp: astar_ok_def frontier_ok_def)

definition chosen :: "nat \<Rightarrow> astar \<Rightarrow> bool" where
  "chosen n s \<longleftrightarrow> openNodes s n \<and> (\<forall>j. openNodes s j \<longrightarrow> label s n \<le> label s j)"

text \<open>The condition at the place of a node, and the state after it was asked.\<close>

abbreviation condition_at :: "'tile path_env \<Rightarrow> Position \<Rightarrow> find_path_params \<Rightarrow> int \<Rightarrow> Position \<Rightarrow> bool \<times> int" where
  "condition_at e t fpp b p \<equiv> pathCondition e t (wk_pos (pe_creature e)) p fpp b"

definition asked :: "'tile path_env \<Rightarrow> Position \<Rightarrow> find_path_params \<Rightarrow> nat \<Rightarrow> path_state \<Rightarrow> path_state" where
  "asked e t fpp n st =
     (let p = place_of e (ps_nodes st) n; (matched, best) = condition_at e t fpp (ps_bestMatch st) p
      in if matched then st\<lparr>ps_found := Some n, ps_endPos := p, ps_bestMatch := best\<rparr> else st\<lparr>ps_bestMatch := best\<rparr>)"

definition visited_all :: "'tile path_env \<Rightarrow> Position \<Rightarrow> find_path_params \<Rightarrow> nat \<Rightarrow> astar \<Rightarrow> astar \<Rightarrow> bool" where
  "visited_all e t fpp n s s' \<longleftrightarrow>
     (\<forall>dx dy p. (dx, dy) \<in> set (node_neighbors fpp n s) \<longrightarrow> steps_to (place_of e s n) p dx dy \<longrightarrow> admissible e t fpp p \<longrightarrow>
        reached e s' p (label s n + step_cost e (place_of e s n) p))"

lemma asked_nodes [simp]: "ps_nodes (asked e t fpp n st) = ps_nodes st"
  by (simp add: asked_def Let_def split: prod.split)

text \<open>The ends of a round: the search is over, the condition holds, a node was closed, or there is no room.\<close>

lemma path_round_cases:
  assumes ok: "astar_ok e t fpp None (ps_nodes st)" and world: "path_world e"
  obtains (over) "path_round e t (wk_pos (pe_creature e)) fpp st = Some (Inr st)"
      "(\<forall>i. \<not> openNodes (ps_nodes st) i) \<or> maxSearchDist fpp = 0"
  | (found) n where "path_round e t (wk_pos (pe_creature e)) fpp st = Some (Inr (asked e t fpp n st))" "chosen n (ps_nodes st)"
      "condition_at e t fpp (ps_bestMatch st) (place_of e (ps_nodes st) n) = (True, 0)"
  | (closed) n s1 s2 where "path_round e t (wk_pos (pe_creature e)) fpp st = Some (Inl (asked e t fpp n st\<lparr>ps_nodes := s2\<rparr>))"
      "chosen n (ps_nodes st)" "condition_at e t fpp (ps_bestMatch st) (place_of e (ps_nodes st) n) \<noteq> (True, 0)"
      "astar_ok e t fpp (Some n) s1" "extends n (ps_nodes st) s1" "closeNode n s1 = Some s2"
      "visited_all e t fpp n (ps_nodes st) s1 \<or> curNode s1 = 512"
  | (full) n s1 where "path_round e t (wk_pos (pe_creature e)) fpp st = Some (Inr (asked e t fpp n st\<lparr>ps_nodes := s1\<rparr>))"
      "chosen n (ps_nodes st)" "astar_ok e t fpp (Some n) s1" "extends n (ps_nodes st) s1" "curNode s1 = 512"
      "ps_found (asked e t fpp n st) = None"
proof -
  let ?q = "wk_pos (pe_creature e)"
  define s where "s = ps_nodes st"
  show thesis
  proof (cases "(maxSearchDist fpp \<noteq> 0 \<or> closedNodes s < 100) \<and> getBestNode s \<noteq> None")
    case False
    have "path_round e t ?q fpp st = Some (Inr st)" using False by (auto simp: path_round_def s_def Let_def)
    moreover have "getBestNode s = None \<Longrightarrow> \<forall>i. \<not> openNodes s i" using getBestNode_best [OF ok] by (simp add: s_def)
    ultimately show thesis using over False by (auto simp: s_def)
  next
    case True
    then obtain n where n: "getBestNode s = Some n" by blast
    have chosen: "chosen n s" using getBestNode_best [OF ok] n by (simp add: s_def chosen_def)
    then have okn: "astar_ok e t fpp (Some n) s" using astar_ok_choose ok by (auto simp: chosen_def s_def)
    obtain matched best where cond: "condition_at e t fpp (ps_bestMatch st) (place_of e s n) = (matched, best)" by fastforce
    define next_state where "next_state = expand_node e t ?q fpp n (label s n) (getX (place_of e s n)) (getY (place_of e s n))
      (node_neighbors fpp n s) s"
    have xy: "uint (an_x (an_nodes s n)) = getX (place_of e s n)" "uint (an_y (an_nodes s n)) = getY (place_of e s n)"
      by (simp_all add: node_position_def getX_def getY_def)
    have round: "path_round e t ?q fpp st =
        (if matched \<and> best = 0 then Some (Inr (asked e t fpp n st))
         else case next_state of
                None \<Rightarrow> None
              | Some (Expanded s) \<Rightarrow> map_option (\<lambda>s. Inl (asked e t fpp n st\<lparr>ps_nodes := s\<rparr>)) (closeNode n s)
              | Some (NoRoom s) \<Rightarrow>
                  if ps_found (asked e t fpp n st) = None then Some (Inr (asked e t fpp n st\<lparr>ps_nodes := s\<rparr>))
                  else map_option (\<lambda>s. Inl (asked e t fpp n st\<lparr>ps_nodes := s\<rparr>)) (closeNode n s))"
    proof -
      have asked: "asked e t fpp n st =
          (if matched then st\<lparr>ps_found := Some n, ps_endPos := place_of e s n, ps_bestMatch := best\<rparr> else st\<lparr>ps_bestMatch := best\<rparr>)"
        using cond by (simp add: asked_def s_def)
      show ?thesis using True n cond unfolding asked
        by (cases matched) (simp_all add: path_round_def s_def [symmetric] Let_def xy next_state_def)
    qed
    have straight: "n \<noteq> 0 \<Longrightarrow> an_parent (an_nodes s n) \<noteq> None"
      using ok astar_ok_expanded [OF okn] by (auto simp: astar_ok_def links_ok_def s_def)
    have expand: "case next_state of
        None \<Rightarrow> False
      | Some (NoRoom s') \<Rightarrow> astar_ok e t fpp (Some n) s' \<and> extends n s s' \<and> curNode s' = 512
      | Some (Expanded s') \<Rightarrow> astar_ok e t fpp (Some n) s' \<and> extends n s s' \<and> visited_all e t fpp n s s'"
      unfolding next_state_def visited_all_def
      by (rule expand_ok [OF okn world node_neighbors_units]) (use node_neighbors_straight straight in blast)
    show thesis
    proof (cases "matched \<and> best = 0")
      case True
      then show thesis using found [of n] round chosen cond by (simp add: s_def)
    next
      case False
      have "condition_at e t fpp (ps_bestMatch st) (place_of e s n) \<noteq> (True, 0)" using False cond by simp
      note miss = chosen [unfolded s_def] this [unfolded s_def]
      have "next_state \<noteq> None" using expand by (cases next_state) simp_all
      then obtain r where r: "next_state = Some r" by blast
      show thesis
      proof (cases r)
        case (Expanded s1)
        then have s1: "astar_ok e t fpp (Some n) s1" "extends n s s1" "visited_all e t fpp n s s1" using expand r by simp_all
        obtain s2 where "closeNode n s1 = Some s2" using closeNode_ok [OF s1(1)] by blast
        then show thesis using closed [of s2 n s1] miss s1 round False r Expanded by (simp add: s_def)
      next
        case (NoRoom s1)
        then have s1: "astar_ok e t fpp (Some n) s1" "extends n s s1" "curNode s1 = 512" using expand r by simp_all
        obtain s2 where s2: "closeNode n s1 = Some s2" using closeNode_ok [OF s1(1)] by blast
        show thesis
        proof (cases "ps_found (asked e t fpp n st) = None")
          case True
          then show thesis using full [of s1 n] miss s1 round False r NoRoom by (simp add: s_def)
        next
          case notfound: False
          then show thesis using closed [of s2 n s1] miss s1 s2 round False r NoRoom by (simp add: s_def)
        qed
      qed
    qed
  qed
qed

subsection \<open>The search ends\<close>

definition good_best :: "find_path_params \<Rightarrow> int \<Rightarrow> bool" where
  "good_best fpp b \<longleftrightarrow> 0 \<le> b \<and> (maxTargetDist fpp = 1 \<longrightarrow> b = 0)"

text \<open>A square is exact if the search may stop at it at once; the best match so far does not matter.\<close>

definition exact_goal :: "'tile path_env \<Rightarrow> Position \<Rightarrow> find_path_params \<Rightarrow> Position \<Rightarrow> bool" where
  "exact_goal e t fpp p \<longleftrightarrow> condition_at e t fpp 0 p = (True, 0)"

lemma condition_best:
  assumes "good_best fpp b" "condition_at e t fpp b p = (m, b')"
  shows "good_best fpp b' \<and> ((m, b') = (True, 0) \<longleftrightarrow> exact_goal e t fpp p)"
proof -
  have "0 \<le> max (getDistanceX t p) (getDistanceY t p)" by (simp add: getDistanceX_def)
  then show ?thesis using assms
    by (auto simp: good_best_def exact_goal_def pathCondition_def Let_def split: if_splits)
qed

definition matches_goal :: "'tile path_env \<Rightarrow> Position \<Rightarrow> find_path_params \<Rightarrow> Position \<Rightarrow> bool" where
  "matches_goal e t fpp p \<longleftrightarrow> (\<exists>b b'. condition_at e t fpp b p = (True, b'))"

lemma matches_goalI: "condition_at e t fpp b p = (True, b') \<Longrightarrow> matches_goal e t fpp p"
  unfolding matches_goal_def by (intro exI)

definition state_ok :: "'tile path_env \<Rightarrow> Position \<Rightarrow> find_path_params \<Rightarrow> path_state \<Rightarrow> bool" where
  "state_ok e t fpp st \<longleftrightarrow>
     good_best fpp (ps_bestMatch st) \<and>
     (\<forall>n. ps_found st = Some n \<longrightarrow> n < curNode (ps_nodes st) \<and> ps_endPos st = place_of e (ps_nodes st) n \<and>
        matches_goal e t fpp (ps_endPos st))"

lemma asked_ok:
  assumes "state_ok e t fpp st" "n < curNode (ps_nodes st)"
  shows "state_ok e t fpp (asked e t fpp n st)"
proof -
  obtain m b' where cond: "condition_at e t fpp (ps_bestMatch st) (place_of e (ps_nodes st) n) = (m, b')" by fastforce
  have "good_best fpp b'" using condition_best [OF _ cond] assms(1) by (simp add: state_ok_def)
  then show ?thesis using assms cond by (auto simp: state_ok_def asked_def Let_def intro: matches_goalI)
qed

lemma state_ok_extends:
  assumes "state_ok e t fpp st" "extends n (ps_nodes st) s1" "curNode s2 = curNode s1" "an_nodes s2 = an_nodes s1"
  shows "state_ok e t fpp (st\<lparr>ps_nodes := s2\<rparr>)"
proof -
  have "i < curNode s2 \<and> place_of e s2 i = place_of e (ps_nodes st) i" if "i < curNode (ps_nodes st)" for i
    using extends_place [OF assms(2) that] extendsD(1) [OF assms(2)] assms(3,4) that by (simp add: node_position_def)
  then show ?thesis using assms(1) unfolding state_ok_def by auto
qed

definition closed_count :: "astar \<Rightarrow> nat" where
  "closed_count s = card {i. i < curNode s \<and> \<not> openNodes s i}"

lemma closed_count_le: "closed_count s \<le> curNode s"
  unfolding closed_count_def using card_mono [of "{..<curNode s}"] by (metis (no_types, lifting) card_lessThan finite_lessThan lessThan_iff mem_Collect_eq subsetI)

lemma closed_count_grows:
  assumes "extends n s s1" "openNodes s n" "n < curNode s" "curNode s2 = curNode s1" "openNodes s2 = (openNodes s1)(n := False)"
  shows "closed_count s < closed_count s2"
  unfolding closed_count_def
proof (rule psubset_card_mono)
  show "finite {i. i < curNode s2 \<and> \<not> openNodes s2 i}" by simp
  have "i < curNode s2 \<and> \<not> openNodes s2 i" if "i < curNode s" "\<not> openNodes s i" for i
    using extendsD(1,4) [OF assms(1)] assms(4,5) that by (auto dest: order_less_le_trans)
  moreover have "n < curNode s2 \<and> \<not> openNodes s2 n" using extendsD(1) [OF assms(1)] assms(3-5) by simp
  ultimately show "{i. i < curNode s \<and> \<not> openNodes s i} \<subset> {i. i < curNode s2 \<and> \<not> openNodes s2 i}"
    using assms(2) by blast
qed

text \<open>
  An invariant of the rounds holds at the end of the loop, and the end comes: every round closes a node for good.
\<close>

lemma path_loop_ends:
  assumes world: "path_world e"
    and "astar_ok e t fpp None (ps_nodes st)" "state_ok e t fpp st" "I st"
    and keep: "\<And>st st'. astar_ok e t fpp None (ps_nodes st) \<Longrightarrow> state_ok e t fpp st \<Longrightarrow> I st \<Longrightarrow>
      path_round e t (wk_pos (pe_creature e)) fpp st = Some (Inl st') \<Longrightarrow> I st'"
  shows "\<exists>st0 st'. path_loop e t (wk_pos (pe_creature e)) fpp st = Some st' \<and> I st0 \<and>
    astar_ok e t fpp None (ps_nodes st0) \<and> state_ok e t fpp st0 \<and>
    path_round e t (wk_pos (pe_creature e)) fpp st0 = Some (Inr st') \<and>
    (\<exists>N. astar_ok e t fpp N (ps_nodes st')) \<and> state_ok e t fpp st'"
  using assms(2-4)
proof (induction "512 - closed_count (ps_nodes st)" arbitrary: st rule: less_induct)
  case less
  note ok = less.prems
  let ?q = "wk_pos (pe_creature e)"
  have chosenD: "n < curNode (ps_nodes st) \<and> openNodes (ps_nodes st) n" if "chosen n (ps_nodes st)" for n
    using that ok(1) by (auto simp: chosen_def astar_ok_def table_ok_def)
  show ?case
    using ok(1) world
  proof (cases rule: path_round_cases)
    case over
    then show ?thesis using ok by (subst path_loop.simps) auto
  next
    case (found n)
    then have "state_ok e t fpp (asked e t fpp n st)" using asked_ok ok(2) chosenD by blast
    then show ?thesis using found(1) ok by (subst path_loop.simps) auto
  next
    case (full n s1)
    have "state_ok e t fpp (asked e t fpp n st\<lparr>ps_nodes := s1\<rparr>)"
      using state_ok_extends [OF asked_ok [OF ok(2)], of n n s1 s1] chosenD full by simp
    then show ?thesis using full(1,3) ok by (subst path_loop.simps) auto
  next
    case (closed n s1 s2)
    obtain s2' where "closeNode n s1 = Some s2'" and s2: "astar_ok e t fpp None s2'" "an_nodes s2' = an_nodes s1"
      "curNode s2' = curNode s1" "openNodes s2' = (openNodes s1)(n := False)"
      using closeNode_ok [OF closed(4)] by blast
    then have [simp]: "s2' = s2" using closed(6) by simp
    let ?st = "asked e t fpp n st\<lparr>ps_nodes := s2\<rparr>"
    have "state_ok e t fpp ?st"
      using state_ok_extends [OF asked_ok [OF ok(2)], of n n s1 s2] chosenD closed s2 by simp
    moreover have "closed_count (ps_nodes st) < closed_count s2"
      using closed_count_grows [OF closed(5)] chosenD [OF closed(2)] s2 by simp
    moreover have "closed_count s2 \<le> 512" using closed_count_le [of s2] s2(1) by (simp add: astar_ok_def table_ok_def)
    moreover have "I ?st" using keep [OF ok closed(1)] .
    moreover have "astar_ok e t fpp None (ps_nodes ?st)" using s2(1) by simp
    ultimately have "\<exists>st0 st'. path_loop e t ?q fpp ?st = Some st' \<and> I st0 \<and>
        astar_ok e t fpp None (ps_nodes st0) \<and> state_ok e t fpp st0 \<and>
        path_round e t ?q fpp st0 = Some (Inr st') \<and> (\<exists>N. astar_ok e t fpp N (ps_nodes st')) \<and> state_ok e t fpp st'"
      by (intro less.hyps) simp_all
    then show ?thesis using closed(1) by (subst path_loop.simps) simp
  qed
qed

subsection \<open>Walks\<close>

text \<open>A walk enters admissible squares only; its cost is that of its steps.\<close>

fun walks_to :: "'tile path_env \<Rightarrow> Position \<Rightarrow> find_path_params \<Rightarrow> Position \<Rightarrow> Direction list \<Rightarrow> Position \<Rightarrow> bool" where
  "walks_to e t fpp p [] p' \<longleftrightarrow> p = p'"
| "walks_to e t fpp p (d # ds) p' \<longleftrightarrow>
     d \<noteq> DIRECTION_NONE \<and> admissible e t fpp (getNextPosition d p) \<and> walks_to e t fpp (getNextPosition d p) ds p'"

fun walk_cost :: "'tile path_env \<Rightarrow> Position \<Rightarrow> Direction list \<Rightarrow> int" where
  "walk_cost e p [] = 0"
| "walk_cost e p (d # ds) = step_cost e p (getNextPosition d p) + walk_cost e (getNextPosition d p) ds"

definition straight :: "Direction \<Rightarrow> bool" where
  "straight d \<longleftrightarrow> d \<in> {DIRECTION_NORTH, DIRECTION_EAST, DIRECTION_SOUTH, DIRECTION_WEST}"

lemma walks_to_snoc:
  "walks_to e t fpp p (ds @ [d]) p' \<longleftrightarrow>
     (\<exists>p1. walks_to e t fpp p ds p1 \<and> d \<noteq> DIRECTION_NONE \<and> admissible e t fpp p' \<and> p' = getNextPosition d p1)"
  by (induction ds arbitrary: p) auto

lemma walk_cost_snoc:
  "walks_to e t fpp p ds p1 \<Longrightarrow> walk_cost e p (ds @ [d]) = walk_cost e p ds + step_cost e p1 (getNextPosition d p1)"
  by (induction ds arbitrary: p) auto

lemma walk_cost_nonneg: "0 \<le> walk_cost e p ds"
proof (induction ds arbitrary: p)
  case (Cons d ds)
  then show ?case using step_cost_bounds(1) [of e p "getNextPosition d p"] Cons.IH [of "getNextPosition d p"] by simp
qed simp

text \<open>The direction that leads from a place to the next.\<close>

lemma back_direction_step:
  assumes "steps_to p p' a b"
  shows "\<exists>d. back_direction (getX p - getX p') (getY p - getY p') = [d] \<and> d \<noteq> DIRECTION_NONE \<and>
    getNextPosition d p = p' \<and> (a = 0 \<or> b = 0 \<longrightarrow> straight d)"
proof -
  have p': "p' = Position (pos_x p + word_of_int a) (pos_y p + word_of_int b) (pos_z p)"
    using steps_to_position [OF assms] by simp
  have diff: "getX p - getX p' = - a" "getY p - getY p' = - b" using assms by (simp_all add: steps_to_def)
  have "\<bar>a\<bar> \<le> 1" "\<bar>b\<bar> \<le> 1" "\<not> (a = 0 \<and> b = 0)" using assms by (simp_all add: steps_to_def)
  then have "a = -1 \<or> a = 0 \<or> a = 1" "b = -1 \<or> b = 0 \<or> b = 1" "\<not> (a = 0 \<and> b = 0)" by linarith+
  moreover obtain x y z where p: "p = Position x y z" by (cases p)
  ultimately show ?thesis unfolding diff unfolding p'
    by (elim disjE) (simp_all add: p back_direction_def straight_def)
qed

text \<open>From a node the parents lead back to the start, and the directions of the way lead from the start to the node.\<close>

lemma way_back_walk:
  assumes ok: "astar_ok e t fpp N s" and k: "k < curNode s"
  shows "\<exists>path. way_back s (getX (place_of e s k)) (getY (place_of e s k)) (an_parent (an_nodes s k)) ds = Some (ds @ rev path) \<and>
    walks_to e t fpp (wk_pos (pe_creature e)) path (place_of e s k) \<and>
    walk_cost e (wk_pos (pe_creature e)) path \<le> label s k \<and>
    (\<not> allowDiagonal fpp \<longrightarrow> list_all straight (tl path)) \<and> (k = 0 \<longrightarrow> path = [])"
  using k
proof (induction "nat (label s k)" arbitrary: k ds rule: less_induct)
  case less
  let ?q = "wk_pos (pe_creature e)"
  show ?case
  proof (cases "k = 0")
    case True
    then show ?thesis using ok
      by (intro exI [of _ "[]"]) (simp add: astar_ok_def root_ok_def way_back.simps)
  next
    case False
    then have "\<exists>j. an_parent (an_nodes s k) = Some j \<and> linked e t fpp s j k"
      using ok less.prems by (simp add: astar_ok_def links_ok_def)
    then obtain j dx dy where j: "an_parent (an_nodes s k) = Some j" "j < curNode s"
      and step: "steps_to (place_of e s j) (place_of e s k) dx dy" "\<not> allowDiagonal fpp \<longrightarrow> j \<noteq> 0 \<longrightarrow> dx = 0 \<or> dy = 0"
      and cost: "label s j + step_cost e (place_of e s j) (place_of e s k) \<le> label s k"
      and adm: "admissible e t fpp (place_of e s k)"
      unfolding linked_def by blast
    obtain d where d: "back_direction (getX (place_of e s j) - getX (place_of e s k)) (getY (place_of e s j) - getY (place_of e s k)) = [d]"
      "d \<noteq> DIRECTION_NONE" "getNextPosition d (place_of e s j) = place_of e s k" "dx = 0 \<or> dy = 0 \<longrightarrow> straight d"
      using back_direction_step [OF step(1)] by blast
    have "0 \<le> label s j" using ok j(2) by (simp add: astar_ok_def frontier_ok_def)
    then have "nat (label s j) < nat (label s k)"
      using cost step_cost_bounds(1) [of e "place_of e s j" "place_of e s k"] by simp
    then obtain path where path: "way_back s (getX (place_of e s j)) (getY (place_of e s j)) (an_parent (an_nodes s j)) (ds @ [d])
          = Some ((ds @ [d]) @ rev path)"
      "walks_to e t fpp ?q path (place_of e s j)" "walk_cost e ?q path \<le> label s j"
      "\<not> allowDiagonal fpp \<longrightarrow> list_all straight (tl path)" "j = 0 \<longrightarrow> path = []"
      using less.hyps [of j "ds @ [d]"] j(2) by blast
    have xy: "uint (an_x (an_nodes s j)) = getX (place_of e s j)" "uint (an_y (an_nodes s j)) = getY (place_of e s j)"
      by (simp_all add: node_position_def getX_def getY_def)
    have "way_back s (getX (place_of e s k)) (getY (place_of e s k)) (an_parent (an_nodes s k)) ds = Some (ds @ rev (path @ [d]))"
      using path(1) d(1) by (subst way_back.simps) (simp add: j(1) xy Let_def)
    moreover have "walks_to e t fpp ?q (path @ [d]) (place_of e s k)" using path(2) d(2,3) adm by (auto simp: walks_to_snoc)
    moreover have "walk_cost e ?q (path @ [d]) \<le> label s k" using walk_cost_snoc [OF path(2), of d] path(3) d(3) cost by simp
    moreover have "list_all straight (tl (path @ [d]))" if "\<not> allowDiagonal fpp"
      using that path(4,5) step(2) d(4) by (cases path) auto
    ultimately show ?thesis using False by blast
  qed
qed

subsection \<open>The search is correct\<close>

definition initial_state :: "'tile path_env \<Rightarrow> path_state" where
  "initial_state e = \<lparr>ps_nodes = AStarNodes_init (pos_x (wk_pos (pe_creature e))) (pos_y (wk_pos (pe_creature e))),
     ps_found = None, ps_endPos = Position 0 0 0, ps_bestMatch = 0\<rparr>"

lemma initial_ok: "astar_ok e t fpp None (ps_nodes (initial_state e)) \<and> state_ok e t fpp (initial_state e)"
proof -
  let ?q = "wk_pos (pe_creature e)"
  define s where "s = AStarNodes_init (pos_x ?q) (pos_y ?q)"
  have s: "an_nodes s 0 = \<lparr>an_parent = None, an_f = 0, an_x = pos_x ?q, an_y = pos_y ?q\<rparr>" "openNodes s = (\<lambda>i. i = 0)"
    "curNode s = 1" "nodeTable s = [node_key (pos_x ?q) (pos_y ?q) \<mapsto> 0]"
    by (auto simp: s_def AStarNodes_init_def Let_def fun_eq_iff)
  have "table_ok s" by (auto simp: table_ok_def s getNodeByPosition_def node_key_eq)
  moreover have "root_ok e s" by (simp add: root_ok_def s node_position_def)
  moreover have "links_ok e t fpp s" by (auto simp: links_ok_def s)
  moreover have "frontier_ok None s" by (auto simp: frontier_ok_def s)
  ultimately show ?thesis by (simp add: astar_ok_def state_ok_def good_best_def initial_state_def s_def)
qed

lemma getPathMatching_result:
  assumes "path_loop e t (wk_pos (pe_creature e)) fpp (initial_state e) = Some st"
    and "astar_ok e t fpp N (ps_nodes st)" "state_ok e t fpp st"
  shows "case ps_found st of
      None \<Rightarrow> getPathMatching e ds t fpp = Some (False, ds)
    | Some n \<Rightarrow> \<exists>path. getPathMatching e ds t fpp = Some (True, ds @ rev path) \<and> n < curNode (ps_nodes st) \<and>
        matches_goal e t fpp (ps_endPos st) \<and> ps_endPos st = place_of e (ps_nodes st) n \<and>
        walks_to e t fpp (wk_pos (pe_creature e)) path (ps_endPos st) \<and>
        walk_cost e (wk_pos (pe_creature e)) path \<le> label (ps_nodes st) n \<and>
        (\<not> allowDiagonal fpp \<longrightarrow> list_all straight (tl path))"
proof (cases "ps_found st")
  case None
  then show ?thesis using assms(1) by (simp add: getPathMatching_def Let_def initial_state_def)
next
  case (Some n)
  then have n: "n < curNode (ps_nodes st)" "ps_endPos st = place_of e (ps_nodes st) n" "matches_goal e t fpp (ps_endPos st)"
    using assms(3) unfolding state_ok_def by blast+
  obtain path where path: "way_back (ps_nodes st) (getX (ps_endPos st)) (getY (ps_endPos st)) (an_parent (an_nodes (ps_nodes st) n)) ds
      = Some (ds @ rev path)" "walks_to e t fpp (wk_pos (pe_creature e)) path (ps_endPos st)"
    "walk_cost e (wk_pos (pe_creature e)) path \<le> label (ps_nodes st) n" "\<not> allowDiagonal fpp \<longrightarrow> list_all straight (tl path)"
    using way_back_walk [OF assms(2) n(1), of ds] unfolding n(2) by blast
  have "getPathMatching e ds t fpp = Some (True, ds @ rev path)"
    using assms(1) Some path(1) by (simp add: getPathMatching_def Let_def initial_state_def)
  then show ?thesis using n path(2-4) by (auto simp: Some)
qed

lemma getPathMatching_sound:
  assumes "path_world e"
  shows "\<exists>found ds'. getPathMatching e ds t fpp = Some (found, ds') \<and>
    (\<not> found \<longrightarrow> ds' = ds) \<and>
    (found \<longrightarrow> (\<exists>path goal. ds' = ds @ rev path \<and> walks_to e t fpp (wk_pos (pe_creature e)) path goal \<and>
        matches_goal e t fpp goal \<and> (\<not> allowDiagonal fpp \<longrightarrow> list_all straight (tl path))))"
proof -
  obtain st N where st: "path_loop e t (wk_pos (pe_creature e)) fpp (initial_state e) = Some st"
    "astar_ok e t fpp N (ps_nodes st)" "state_ok e t fpp st"
    using path_loop_ends [OF assms, of t fpp "initial_state e" "\<lambda>_. True"] initial_ok [of e t fpp] by blast
  show ?thesis
  proof (cases "ps_found st")
    case None
    then show ?thesis using getPathMatching_result [OF st, of ds] by (intro exI [of _ False] exI [of _ ds]) simp
  next
    case (Some n)
    then show ?thesis using getPathMatching_result [OF st, of ds] by auto
  qed
qed

subsection \<open>The way is a cheapest\<close>

text \<open>A closed node is no exact goal, and every square next to it has a node with a label as good as through it.\<close>

definition settled :: "'tile path_env \<Rightarrow> Position \<Rightarrow> find_path_params \<Rightarrow> astar \<Rightarrow> bool" where
  "settled e t fpp s \<longleftrightarrow> (\<forall>i < curNode s. \<not> openNodes s i \<longrightarrow>
     \<not> exact_goal e t fpp (place_of e s i) \<and>
     (\<forall>p dx dy. steps_to (place_of e s i) p dx dy \<longrightarrow> admissible e t fpp p \<longrightarrow>
        reached e s p (label s i + step_cost e (place_of e s i) p)))"

lemma reached_mono: "reached e s p c \<Longrightarrow> c \<le> c' \<Longrightarrow> reached e s p c'"
  by (auto simp: reached_def intro: order_trans)

text \<open>The neighbours that a node with a parent leaves out are the parent and squares straight next to it.\<close>

definition pruned_ok :: "int \<Rightarrow> int \<Rightarrow> int \<Rightarrow> int \<Rightarrow> bool" where
  "pruned_ok ox oy dx dy \<longleftrightarrow>
     (dx, dy) \<in> set (take 5 (dirNeighbors (parent_table True ox oy))) \<or> \<bar>dx - ox\<bar> + \<bar>dy - oy\<bar> \<le> 1"

lemma pruned_ok_table:
  assumes "(ox, oy) \<in> {(0, -1), (0, 1), (-1, 0), (1, 0), (-1, -1), (-1, 1), (1, -1), (1, 1)}"
  shows "(\<forall>dx \<in> {-1, 0, 1}. \<forall>dy \<in> {-1, 0, 1}. (dx, dy) \<noteq> (0, 0) \<longrightarrow> pruned_ok ox oy dx dy)"
  using assms by (elim insertE emptyE; simp add: pruned_ok_def parent_table_def)

lemma pruned_offset:
  assumes "\<bar>ox\<bar> \<le> 1" "\<bar>oy\<bar> \<le> 1" "\<not> (ox = 0 \<and> oy = 0)" "\<bar>dx\<bar> \<le> 1" "\<bar>dy\<bar> \<le> 1" "\<not> (dx = 0 \<and> dy = 0)"
    and "(dx, dy) \<notin> set (take 5 (dirNeighbors (parent_table True ox oy)))"
  shows "\<bar>dx - ox\<bar> + \<bar>dy - oy\<bar> \<le> 1"
proof -
  have three: "i = -1 \<or> i = 0 \<or> i = 1" if "\<bar>i\<bar> \<le> 1" for i :: int using that by linarith
  have "(ox, oy) \<in> {(0, -1), (0, 1), (-1, 0), (1, 0), (-1, -1), (-1, 1), (1, -1), (1, 1)}"
    using three [OF assms(1)] three [OF assms(2)] assms(3) by (elim disjE) simp_all
  moreover have "dx \<in> {-1, 0, 1}" "dy \<in> {-1, 0, 1}" using three [OF assms(4)] three [OF assms(5)] by simp_all
  ultimately have "pruned_ok ox oy dx dy" using pruned_ok_table [rule_format, of ox oy dx dy] assms(6) by simp
  then show ?thesis using assms(7) by (simp add: pruned_ok_def)
qed

lemma steps_to_diff:
  assumes "steps_to u p dx dy" "steps_to j u a b" "\<bar>dx + a\<bar> + \<bar>dy + b\<bar> \<le> 1"
  shows "p = j \<or> steps_to j p (dx + a) (dy + b)"
proof (cases "dx + a = 0 \<and> dy + b = 0")
  case True
  then show ?thesis using assms(1,2) by (simp add: steps_to_def Position_eq_iff)
next
  case False
  have "\<bar>dx + a\<bar> \<le> 1 \<and> \<bar>dy + b\<bar> \<le> 1" using assms(3) by linarith
  then show ?thesis using False assms(1,2) by (simp add: steps_to_def)
qed

text \<open>Closing the expanded node keeps this: what it leaves out is reached through its parent as well.\<close>

lemma settled_expanded:
  assumes settled: "settled e t fpp s" and ok: "astar_ok e t fpp None s" and n: "n < curNode s"
    and diagonal: "allowDiagonal fpp" and ext: "extends n s s1" and visited: "visited_all e t fpp n s s1"
    and step: "steps_to (place_of e s n) p dx dy" and adm: "admissible e t fpp p"
  shows "reached e s1 p (label s n + step_cost e (place_of e s n) p)"
proof (cases "(dx, dy) \<in> set (node_neighbors fpp n s)")
  case True
  then show ?thesis using visited step adm by (simp add: visited_all_def)
next
  case False
  have unit: "\<bar>dx\<bar> \<le> 1" "\<bar>dy\<bar> \<le> 1" "(dx, dy) \<noteq> (0, 0)" using step by (simp_all add: steps_to_def)
  have "an_parent (an_nodes s n) \<noteq> None"
  proof
    assume "an_parent (an_nodes s n) = None"
    moreover have "dx = -1 \<or> dx = 0 \<or> dx = 1" "dy = -1 \<or> dy = 0 \<or> dy = 1" using unit by linarith+
    ultimately show False using False unit by (auto simp: node_neighbors_def allNeighbors_def)
  qed
  then obtain j where parent: "an_parent (an_nodes s n) = Some j" by blast
  have "n \<noteq> 0" using parent ok by (intro notI) (simp add: astar_ok_def root_ok_def)
  then have "linked e t fpp s j n" using ok n parent by (auto simp: astar_ok_def links_ok_def)
  then obtain a b where j: "j < curNode s" "steps_to (place_of e s j) (place_of e s n) a b"
    "label s j + step_cost e (place_of e s j) (place_of e s n) \<le> label s n" by (auto simp: linked_def)
  then have "label s j + 10 \<le> label s n" using step_cost_bounds(1) [of e "place_of e s j" "place_of e s n"] by simp
  have closed: "\<not> openNodes s j" using ok n parent by (auto simp: astar_ok_def frontier_ok_def)
  have offset: "uint (an_x (an_nodes s j)) - uint (an_x (an_nodes s n)) = - a" "uint (an_y (an_nodes s j)) - uint (an_y (an_nodes s n)) = - b"
    using j(2) by (simp_all add: steps_to_def node_position_def getX_def getY_def)
  have "(dx, dy) \<notin> set (take 5 (dirNeighbors (parent_table True (- a) (- b))))"
    using False parent diagonal by (simp add: node_neighbors_def Let_def offset)
  then have near: "\<bar>dx + a\<bar> + \<bar>dy + b\<bar> \<le> 1"
    using pruned_offset [of "- a" "- b" dx dy] unit j(2) by (simp add: steps_to_def)
  have enter: "10 + enter_cost e p \<le> step_cost e (place_of e s n) p"
    by (simp add: step_cost_def move_cost_def MAP_NORMALWALKCOST_def MAP_DIAGONALWALKCOST_def)
  have pos: "0 \<le> enter_cost e p" by (simp add: enter_cost_def getTileWalkCost_bounds split: option.split)
  have "reached e s p (label s n + step_cost e (place_of e s n) p)"
    using steps_to_diff [OF step j(2) near]
  proof
    assume "p = place_of e s j"
    then show ?thesis using j(1) \<open>label s j + 10 \<le> label s n\<close> enter pos by (auto simp: reached_def intro!: exI [of _ j])
  next
    assume direct: "steps_to (place_of e s j) p (dx + a) (dy + b)"
    then have "\<not> (dx + a = 0 \<and> dy + b = 0)" by (simp add: steps_to_def)
    then have "\<bar>dx + a\<bar> \<noteq> \<bar>dy + b\<bar>" using near by linarith
    then have "move_cost (place_of e s j) p = 10" by (simp add: move_cost_steps [OF direct])
    moreover have "reached e s p (label s j + step_cost e (place_of e s j) p)"
      using settled j(1) closed direct adm by (auto simp: settled_def)
    ultimately show ?thesis
      using reached_mono \<open>label s j + 10 \<le> label s n\<close> enter by (fastforce simp: step_cost_def)
  qed
  then show ?thesis by (rule reached_extends [OF ext])
qed

lemma settled_closed:
  assumes settled: "settled e t fpp s" and ok: "astar_ok e t fpp None s" and n: "n < curNode s" "openNodes s n"
    and diagonal: "allowDiagonal fpp" and ext: "extends n s s1" and visited: "visited_all e t fpp n s s1"
    and miss: "\<not> exact_goal e t fpp (place_of e s n)"
    and okn: "astar_ok e t fpp (Some n) s1" and close: "closeNode n s1 = Some s2"
  shows "settled e t fpp s2"
proof -
  obtain s2' where "closeNode n s1 = Some s2'" "an_nodes s2' = an_nodes s1" "curNode s2' = curNode s1"
    "openNodes s2' = (openNodes s1)(n := False)" using closeNode_ok [OF okn] by blast
  then have s2: "an_nodes s2 = an_nodes s1" "curNode s2 = curNode s1" "openNodes s2 = (openNodes s1)(n := False)"
    using close by simp_all
  have reached_eq: "reached e s2 p c = reached e s1 p c" for p c by (simp add: reached_def s2 node_position_def)
  have place: "place_of e s2 i = place_of e s1 i" for i by (simp add: s2 node_position_def)
  have same: "label s1 i = label s i \<and> place_of e s1 i = place_of e s i" if "i < curNode s" "\<not> openNodes s i \<or> i = n" for i
    using extendsD(4) [OF ext that] by (simp add: node_position_def)
  have old: "i < curNode s \<and> \<not> openNodes s i" if "i < curNode s1" "\<not> openNodes s1 i" for i
    using extendsD(2) [OF ext that] .
  show ?thesis
    unfolding settled_def
  proof (intro allI impI)
    fix i assume i: "i < curNode s2" "\<not> openNodes s2 i"
    consider "i = n" | "i \<noteq> n" "i < curNode s" "\<not> openNodes s i" using i old [of i] by (cases "i = n") (simp_all add: s2)
    then show "\<not> exact_goal e t fpp (place_of e s2 i) \<and> (\<forall>p dx dy. steps_to (place_of e s2 i) p dx dy \<longrightarrow> admissible e t fpp p \<longrightarrow>
        reached e s2 p (label s2 i + step_cost e (place_of e s2 i) p))"
    proof cases
      case 1
      then show ?thesis using same [OF n(1)] miss settled_expanded [OF settled ok n(1) diagonal ext visited]
        by (auto simp: reached_eq place s2(1))
    next
      case 2
      have "reached e s1 p (label s i + step_cost e (place_of e s i) p)"
        if "steps_to (place_of e s i) p dx dy" "admissible e t fpp p" for p dx dy
        using settled 2(2,3) that unfolding settled_def by (intro reached_extends [OF ext]) blast
      moreover have "\<not> exact_goal e t fpp (place_of e s i)" using settled 2(2,3) by (simp add: settled_def)
      ultimately show ?thesis using same [OF 2(2)] 2(3) by (simp add: reached_eq place s2(1))
    qed
  qed
qed

text \<open>Within a distance of ten squares the nodes suffice.\<close>

lemma room_enough:
  assumes ok: "astar_ok e t fpp N s" and dist: "0 < maxSearchDist fpp" "maxSearchDist fpp \<le> 10"
  shows "curNode s \<noteq> 512"
proof -
  let ?q = "wk_pos (pe_creature e)"
  define square_of where "square_of i = (getX (place_of e s i), getY (place_of e s i))" for i
  have near: "\<bar>getX (place_of e s i) - getX ?q\<bar> \<le> 10 \<and> \<bar>getY (place_of e s i) - getY ?q\<bar> \<le> 10" if "i < curNode s" for i
  proof (cases "i = 0")
    case True
    then show ?thesis using ok by (simp add: astar_ok_def root_ok_def)
  next
    case False
    then have "\<exists>j. linked e t fpp s j i" using ok that by (auto simp: astar_ok_def links_ok_def)
    then have "\<not> outOfReach t ?q fpp (place_of e s i)" by (auto simp: linked_def admissible_def)
    then have "\<bar>getX ?q - getX (place_of e s i)\<bar> \<le> maxSearchDist fpp" "\<bar>getY ?q - getY (place_of e s i)\<bar> \<le> maxSearchDist fpp"
      using dist(1) by (simp_all add: outOfReach_def getDistanceX_def getDistanceY_def getOffsetX_def getOffsetY_def)
    then show ?thesis using dist(2) unfolding abs_le_iff by linarith
  qed
  have "inj_on square_of {..<curNode s}"
  proof (rule inj_onI)
    fix i j assume "i \<in> {..<curNode s}" "j \<in> {..<curNode s}" "square_of i = square_of j"
    then show "i = j" using place_inj [of s i j ?q] ok by (simp add: square_of_def Position_eq_iff astar_ok_def)
  qed
  moreover have "square_of ` {..<curNode s} \<subseteq> {getX ?q - 10..getX ?q + 10} \<times> {getY ?q - 10..getY ?q + 10}"
  proof (rule image_subsetI)
    fix i assume "i \<in> {..<curNode s}"
    then have "\<bar>getX (place_of e s i) - getX ?q\<bar> \<le> 10" "\<bar>getY (place_of e s i) - getY ?q\<bar> \<le> 10" using near by auto
    then show "square_of i \<in> {getX ?q - 10..getX ?q + 10} \<times> {getY ?q - 10..getY ?q + 10}"
      unfolding square_of_def mem_Times_iff atLeastAtMost_iff fst_conv snd_conv by linarith
  qed
  ultimately have "card {..<curNode s} \<le> card ({getX ?q - 10..getX ?q + 10} \<times> {getY ?q - 10..getY ?q + 10})"
    by (intro card_inj_on_le) auto
  then show ?thesis by (simp add: card_cartesian_product)
qed

lemma getNextPosition_steps:
  assumes "d \<noteq> DIRECTION_NONE" "inside p"
  shows "\<exists>dx dy. steps_to p (getNextPosition d p) dx dy"
proof -
  obtain x y z where p: "p = Position x y z" by (cases p)
  have "0 < uint x" "uint x < 65535" "0 < uint y" "uint y < 65535" using assms(2) by (simp_all add: inside_def p getX_def getY_def)
  then have "uint (x + 1) = uint x + 1" "uint (x - 1) = uint x - 1" "uint (y + 1) = uint y + 1" "uint (y - 1) = uint y - 1"
    by (simp_all add: uint_plus1 uint_minus1)
  note coords = this
  let ?dx = "getX (getNextPosition d p) - getX p" and ?dy = "getY (getNextPosition d p) - getY p"
  have "steps_to p (getNextPosition d p) ?dx ?dy"
    using assms(1) coords by (cases d) (simp_all add: steps_to_def p getX_def getY_def)
  then show ?thesis by blast
qed

text \<open>A walk either ends in a closed node or passes an open one, with labels no greater than its cost.\<close>

lemma frontier_walk:
  assumes ok: "astar_ok e t fpp N s" and world: "path_world e" and settled: "settled e t fpp s"
  shows "walks_to e t fpp p ds p' \<Longrightarrow> reached e s p c \<Longrightarrow>
    (\<exists>k. openNodes s k \<and> label s k \<le> c + walk_cost e p ds) \<or>
    (\<exists>k < curNode s. \<not> openNodes s k \<and> place_of e s k = p' \<and> label s k \<le> c + walk_cost e p ds)"
proof (induction ds arbitrary: p c)
  case Nil
  then show ?case by (auto simp: reached_def)
next
  case (Cons d ds)
  obtain k where k: "k < curNode s" "place_of e s k = p" "label s k \<le> c" using Cons.prems(2) by (auto simp: reached_def)
  have rest: "0 \<le> walk_cost e p (d # ds)" by (rule walk_cost_nonneg)
  show ?case
  proof (cases "openNodes s k")
    case True
    then show ?thesis using k(3) rest by (intro disjI1 exI [of _ k]) simp
  next
    case False
    have d: "d \<noteq> DIRECTION_NONE" "admissible e t fpp (getNextPosition d p)" "walks_to e t fpp (getNextPosition d p) ds p'"
      using Cons.prems(1) by simp_all
    have "inside p" using place_inside [OF ok world k(1)] k(2) by simp
    then obtain dx dy where "steps_to p (getNextPosition d p) dx dy" using getNextPosition_steps d(1) by blast
    then have "reached e s (getNextPosition d p) (label s k + step_cost e p (getNextPosition d p))"
      using settled k(1,2) False d(2) unfolding settled_def by blast
    then have "reached e s (getNextPosition d p) (c + step_cost e p (getNextPosition d p))"
      by (rule reached_mono) (use k(3) in simp)
    from Cons.IH [OF d(3) this] show ?thesis by (simp add: add.assoc)
  qed
qed

lemma exact_walk_open:
  assumes ok: "astar_ok e t fpp N s" and world: "path_world e" and settled: "settled e t fpp s"
    and walk: "walks_to e t fpp (wk_pos (pe_creature e)) path goal" and exact: "exact_goal e t fpp goal"
  shows "\<exists>k. openNodes s k \<and> label s k \<le> walk_cost e (wk_pos (pe_creature e)) path"
proof -
  have "0 < curNode s" "label s 0 = 0" "place_of e s 0 = wk_pos (pe_creature e)"
    using ok by (simp_all add: astar_ok_def table_ok_def root_ok_def)
  then have "reached e s (wk_pos (pe_creature e)) 0" by (auto simp: reached_def)
  from frontier_walk [OF ok world settled walk this] settled exact show ?thesis
    by (auto simp: settled_def)
qed

lemma settled_round:
  assumes world: "path_world e" and dist: "0 < maxSearchDist fpp" "maxSearchDist fpp \<le> 10" and diagonal: "allowDiagonal fpp"
    and ok: "astar_ok e t fpp None (ps_nodes st)" "state_ok e t fpp st" and settled: "settled e t fpp (ps_nodes st)"
    and round: "path_round e t (wk_pos (pe_creature e)) fpp st = Some (Inl st')"
  shows "settled e t fpp (ps_nodes st')"
  using ok(1) world
proof (cases rule: path_round_cases)
  case (closed n s1 s2)
  have n: "n < curNode (ps_nodes st)" "openNodes (ps_nodes st) n"
    using closed(2) ok(1) by (auto simp: chosen_def astar_ok_def table_ok_def)
  obtain m b where cond: "condition_at e t fpp (ps_bestMatch st) (place_of e (ps_nodes st) n) = (m, b)" by fastforce
  have miss: "\<not> exact_goal e t fpp (place_of e (ps_nodes st) n)"
    using condition_best [OF _ cond] ok(2) closed(3) cond by (simp add: state_ok_def)
  have "visited_all e t fpp n (ps_nodes st) s1" using closed(7) room_enough [OF closed(4) dist] by blast
  from settled_closed [OF settled ok(1) n diagonal closed(5) this miss closed(4,6)]
  show ?thesis using round closed(1) by auto
qed (use round in simp_all)

lemma getPathMatching_best:
  assumes world: "path_world e" and dist: "0 < maxSearchDist fpp" "maxSearchDist fpp \<le> 10" and diagonal: "allowDiagonal fpp"
    and walk: "walks_to e t fpp (wk_pos (pe_creature e)) path0 goal0" "exact_goal e t fpp goal0"
  shows "\<exists>path goal. getPathMatching e ds t fpp = Some (True, ds @ rev path) \<and>
    walks_to e t fpp (wk_pos (pe_creature e)) path goal \<and> exact_goal e t fpp goal \<and>
    (\<forall>path' goal'. walks_to e t fpp (wk_pos (pe_creature e)) path' goal' \<longrightarrow> exact_goal e t fpp goal' \<longrightarrow>
       walk_cost e (wk_pos (pe_creature e)) path \<le> walk_cost e (wk_pos (pe_creature e)) path')"
proof -
  let ?q = "wk_pos (pe_creature e)"
  have "settled e t fpp (ps_nodes (initial_state e))"
    by (auto simp: settled_def initial_state_def AStarNodes_init_def Let_def)
  moreover note initial_ok [of e t fpp]
  ultimately obtain st0 st N where st: "path_loop e t ?q fpp (initial_state e) = Some st" "settled e t fpp (ps_nodes st0)"
    "astar_ok e t fpp None (ps_nodes st0)" "state_ok e t fpp st0" "path_round e t ?q fpp st0 = Some (Inr st)"
    "astar_ok e t fpp N (ps_nodes st)" "state_ok e t fpp st"
    using path_loop_ends [OF world, of t fpp "initial_state e" "\<lambda>st. settled e t fpp (ps_nodes st)"]
      settled_round [OF world dist diagonal] by blast
  have some_open: "\<exists>k. openNodes (ps_nodes st0) k \<and> label (ps_nodes st0) k \<le> walk_cost e ?q path'"
    if "walks_to e t fpp ?q path' goal'" "exact_goal e t fpp goal'" for path' goal'
    by (rule exact_walk_open [OF st(3) world st(2) that])
  show ?thesis
    using st(3) world
  proof (cases rule: path_round_cases)
    case over
    then show ?thesis using some_open [OF walk] dist(1) by auto
  next
    case (closed n s1 s2)
    then show ?thesis using st(5) by simp
  next
    case (full n s1)
    then show ?thesis using room_enough [OF full(3) dist] by simp
  next
    case (found n)
    have st_eq: "st = asked e t fpp n st0" using found(1) st(5) by simp
    have n: "n < curNode (ps_nodes st0)" using found(2) st(3) by (auto simp: chosen_def astar_ok_def table_ok_def)
    have final: "ps_found st = Some n" "ps_endPos st = place_of e (ps_nodes st0) n" "ps_nodes st = ps_nodes st0"
      using found(3) by (simp_all add: st_eq asked_def)
    obtain path where path: "getPathMatching e ds t fpp = Some (True, ds @ rev path)"
      "walks_to e t fpp ?q path (place_of e (ps_nodes st0) n)" "walk_cost e ?q path \<le> label (ps_nodes st0) n"
      using getPathMatching_result [OF st(1,6,7), of ds] by (auto simp: final)
    have goal: "exact_goal e t fpp (place_of e (ps_nodes st0) n)"
      using condition_best [OF _ found(3)] st(4) by (simp add: state_ok_def)
    have "walk_cost e ?q path \<le> walk_cost e ?q path'"
      if "walks_to e t fpp ?q path' goal'" "exact_goal e t fpp goal'" for path' goal'
      using some_open [OF that] found(2) path(3) by (auto simp: chosen_def intro: order_trans)
    then show ?thesis using path(1,2) goal by blast
  qed
qed

subsection \<open>Ways\<close>

text \<open>
  C36: a search ends, never follows a null pointer and never trips an assertion.  Without success the list of
  directions is as it was.  With success the way is appended to it in reverse, the last step first, and
  \<open>Creature::getNextStep\<close> takes it from the end: from the square of the creature, each step leads to a square that
  \<open>canWalkTo\<close> admits and that is within \<open>maxSearchDist\<close> (and, keeping the distance, in range of the target), and
  the last square satisfies the condition of the search.  Without \<open>allowDiagonal\<close> the steps are straight, but
  for the first, which may be diagonal.  The creature stands on a tile, and no tile lies on the edge of the map,
  where coordinates wrap.
\<close>

theorem path_found_walkable:
  assumes "path_world e"
  shows "\<exists>found ds'. getPathMatching e ds t fpp = Some (found, ds') \<and>
    (if found
     then \<exists>path goal. ds' = ds @ rev path \<and>
       walks_to e t fpp (wk_pos (pe_creature e)) path goal \<and>
       (\<exists>best best'. pathCondition e t (wk_pos (pe_creature e)) goal fpp best = (True, best')) \<and>
       (allowDiagonal fpp \<or> list_all straight (tl path))
     else ds' = ds)"
proof -
  obtain found ds' where "getPathMatching e ds t fpp = Some (found, ds')" "\<not> found \<longrightarrow> ds' = ds"
    "found \<longrightarrow> (\<exists>path goal. ds' = ds @ rev path \<and> walks_to e t fpp (wk_pos (pe_creature e)) path goal \<and>
       matches_goal e t fpp goal \<and> (\<not> allowDiagonal fpp \<longrightarrow> list_all straight (tl path)))"
    using getPathMatching_sound [OF assms, of ds t fpp] by blast
  then show ?thesis by (cases found) (auto simp: matches_goal_def)
qed

text \<open>
  C37: a search of at most ten squares with diagonal steps finds a way whenever there is one to an exact goal (a
  square at which the search stops, such as one at \<open>maxTargetDist\<close>), and the way it returns is a cheapest of all:
  10 for a straight step, 25 for a diagonal one, and the costs of creatures and fields on the squares
  entered.  So 512 nodes are enough there.
\<close>

theorem path_found_cheapest:
  assumes "path_world e" and "0 < maxSearchDist fpp" "maxSearchDist fpp \<le> 10" and "allowDiagonal fpp"
    and "walks_to e t fpp (wk_pos (pe_creature e)) path0 goal0"
    and "pathCondition e t (wk_pos (pe_creature e)) goal0 fpp 0 = (True, 0)"
  shows "\<exists>path goal. getPathMatching e ds t fpp = Some (True, ds @ rev path) \<and>
    walks_to e t fpp (wk_pos (pe_creature e)) path goal \<and>
    pathCondition e t (wk_pos (pe_creature e)) goal fpp 0 = (True, 0) \<and>
    (\<forall>path' goal'. walks_to e t fpp (wk_pos (pe_creature e)) path' goal' \<longrightarrow>
       pathCondition e t (wk_pos (pe_creature e)) goal' fpp 0 = (True, 0) \<longrightarrow>
       walk_cost e (wk_pos (pe_creature e)) path \<le> walk_cost e (wk_pos (pe_creature e)) path')"
  using getPathMatching_best [OF assms(1-5)] assms(6) unfolding exact_goal_def by blast

subsection \<open>Witnesses\<close>

text \<open>A creature on two tiles, looking for a square next to (102, 100).\<close>

definition short_street :: "unit path_env" where
  "short_street = \<lparr>pe_walk = \<lparr>we_map = setTile (\<lambda>_ t. t) 101 100 7 () (setTile (\<lambda>_ t. t) 100 100 7 () empty_map), can_enter = (\<lambda>_. True)\<rparr>,
     pe_creature = \<lparr>wk_pos = Position 100 100 7, wk_useCacheMap = False, isMapLoaded = False, localMapCache = (\<lambda>_ _. False)\<rparr>,
     pe_ground = (\<lambda>_. True), pe_blocks = (\<lambda>_. False), visible_creature = (\<lambda>_. False), field_type = (\<lambda>_. None),
     pe_isImmune = (\<lambda>_. False), pe_hasCondition = (\<lambda>_. False), canWalkOnFieldType = None\<rparr>"

definition short_search :: find_path_params where
  "short_search = default_params\<lparr>clearSight := False, maxSearchDist := 10, minTargetDist := 1, maxTargetDist := 1\<rparr>"

lemma short_street_at:
  "tile_at (pe_walk short_street) p = (if p = Position 101 100 7 \<or> p = Position 100 100 7 then Some () else None)"
  by (cases p) (auto simp: tile_at_def short_street_def getTile_setTile setTile_ok empty_map_ok getTile_empty MAP_MAX_LAYERS_def)

lemma short_street_pos [simp]: "wk_pos (pe_creature short_street) = Position 100 100 7"
  by (simp add: short_street_def)

lemma short_street_world: "path_world short_street"
  by (auto simp: path_world_def short_street_at inside_def getX_def getY_def)

lemma short_street_way:
  "walks_to short_street (Position 102 100 7) short_search (Position 100 100 7) [DIRECTION_EAST] (Position 101 100 7)"
proof -
  have "canWalkTo (pe_walk short_street) (pe_creature short_street) (Position 101 100 7) = Some ()"
    using short_street_at [of "Position 101 100 7"]
    by (simp add: canWalkTo_def getWalkCache_def) (simp add: short_street_def)
  then show ?thesis
    by (simp add: admissible_def outOfReach_def short_search_def default_params_def getDistanceX_def getDistanceY_def
        getOffsetX_def getOffsetY_def getX_def getY_def)
qed

lemma short_street_goal:
  "pathCondition short_street (Position 102 100 7) (Position 100 100 7) (Position 101 100 7) short_search 0 = (True, 0)"
  by (simp add: pathCondition_def targetInRange_def short_search_def default_params_def getDistanceX_def getDistanceY_def
      getOffsetX_def getOffsetY_def getX_def getY_def)

lemmas short_street_way' = short_street_way [folded short_street_pos]
lemmas short_street_goal' = short_street_goal [folded short_street_pos]

lemma short_street_exact: "exact_goal short_street (Position 102 100 7) short_search (Position 101 100 7)"
  by (simp add: exact_goal_def short_street_goal)

lemma short_street_unique:
  assumes walk: "walks_to short_street (Position 102 100 7) short_search (Position 100 100 7) path goal"
    and goal: "pathCondition short_street (Position 102 100 7) (Position 100 100 7) goal short_search 0 = (True, 0)"
    and cost: "walk_cost short_street (Position 100 100 7) path \<le> 10"
  shows "path = [DIRECTION_EAST]"
proof (cases path)
  case Nil
  then have "goal = Position 100 100 7" using walk by simp
  then show ?thesis using goal
    by (simp add: pathCondition_def targetInRange_def short_search_def default_params_def getX_def getY_def)
next
  case (Cons d ds)
  have "tile_at (pe_walk short_street) (getNextPosition d (Position 100 100 7)) \<noteq> None" "d \<noteq> DIRECTION_NONE"
    using walk admissible_tile [of short_street "Position 102 100 7" short_search "getNextPosition d (Position 100 100 7)"]
    unfolding Cons by auto
  then have d: "d = DIRECTION_EAST" by (cases d) (simp_all add: short_street_at)
  have "ds = []"
  proof (rule ccontr)
    assume "ds \<noteq> []"
    then obtain d' ds' where "ds = d' # ds'" by (cases ds) auto
    moreover have "10 \<le> step_cost short_street p p'" for p p' by (rule step_cost_bounds)
    moreover have "0 \<le> walk_cost short_street p ds'" for p by (rule walk_cost_nonneg)
    ultimately show False using cost unfolding Cons by (smt (verit) walk_cost.simps(2))
  qed
  then show ?thesis using Cons d by simp
qed

lemma short_street_cost: "walk_cost short_street (Position 100 100 7) [DIRECTION_EAST] = 10"
  by (simp add: step_cost_def move_cost_def enter_cost_def short_street_at getTileWalkCost_def getDistanceX_def getDistanceY_def
      getOffsetX_def getOffsetY_def getX_def getY_def MAP_NORMALWALKCOST_def) (simp add: short_street_def)

lemma short_search_fields: "0 < maxSearchDist short_search" "maxSearchDist short_search \<le> 10" "allowDiagonal short_search"
  by (simp_all add: short_search_def default_params_def)

lemma short_street_result: "getPathMatching short_street [] (Position 102 100 7) short_search = Some (True, [DIRECTION_EAST])"
proof -
  obtain path goal where found: "getPathMatching short_street [] (Position 102 100 7) short_search = Some (True, [] @ rev path)"
    "walks_to short_street (Position 102 100 7) short_search (Position 100 100 7) path goal"
    "pathCondition short_street (Position 102 100 7) (Position 100 100 7) goal short_search 0 = (True, 0)"
    "\<forall>path' goal'. walks_to short_street (Position 102 100 7) short_search (Position 100 100 7) path' goal' \<longrightarrow>
       pathCondition short_street (Position 102 100 7) (Position 100 100 7) goal' short_search 0 = (True, 0) \<longrightarrow>
       walk_cost short_street (Position 100 100 7) path \<le> walk_cost short_street (Position 100 100 7) path'"
    using getPathMatching_best [OF short_street_world short_search_fields short_street_way' short_street_exact, of "[]"]
    unfolding short_street_pos exact_goal_def by blast
  then have "path = [DIRECTION_EAST]"
    using short_street_unique [OF found(2,3)] short_street_way short_street_goal short_street_cost by metis
  then show ?thesis using found(1) by simp
qed

theorem path_found_walkable_witness:
  "\<exists>path goal. [DIRECTION_EAST] = rev path \<and>
     walks_to short_street (Position 102 100 7) short_search (Position 100 100 7) path goal \<and>
     (\<exists>best best'. pathCondition short_street (Position 102 100 7) (Position 100 100 7) goal short_search best = (True, best'))"
  using path_found_walkable [OF short_street_world, of "[]" "Position 102 100 7" short_search] short_street_result by auto

theorem path_found_cheapest_witness:
  "getPathMatching short_street [] (Position 102 100 7) short_search = Some (True, [DIRECTION_EAST])"
proof -
  obtain path goal where found: "getPathMatching short_street [] (Position 102 100 7) short_search = Some (True, [] @ rev path)"
    "walks_to short_street (Position 102 100 7) short_search (Position 100 100 7) path goal"
    "pathCondition short_street (Position 102 100 7) (Position 100 100 7) goal short_search 0 = (True, 0)"
    "\<forall>path' goal'. walks_to short_street (Position 102 100 7) short_search (Position 100 100 7) path' goal' \<longrightarrow>
       pathCondition short_street (Position 102 100 7) (Position 100 100 7) goal' short_search 0 = (True, 0) \<longrightarrow>
       walk_cost short_street (Position 100 100 7) path \<le> walk_cost short_street (Position 100 100 7) path'"
    using path_found_cheapest [OF short_street_world short_search_fields short_street_way' short_street_goal', of "[]"]
    unfolding short_street_pos exact_goal_def by blast
  then have "path = [DIRECTION_EAST]"
    using short_street_unique [OF found(2,3)] short_street_way short_street_goal short_street_cost by metis
  then show ?thesis using found(1) by simp
qed

end
