(* ===== verification/Monster_Steps.thy ===== *)
theory Monster_Steps
  imports Path_Finding
begin

text \<open>
  The steps of monsters (monster.cpp: \<open>Monster::canWalkTo\<close>, \<open>getRandomStep\<close>, \<open>getDanceStep\<close>, \<open>getDistanceStep\<close>,
  \<open>isInSpawnRange\<close>, \<open>canUseAttack\<close>, \<open>onFollowCreatureComplete\<close>) and how a creature follows another (creature.cpp:
  \<open>goToFollowCreature\<close>, \<open>getNextStep\<close>; player.cpp: \<open>goToFollowCreature\<close>), which puts them together with the search of \<open>Path_Finding\<close>.  A step is
  shown to lead to a square that can be walked on, and to keep the distance it is meant to keep.
\<close>

subsection \<open>The monster\<close>

record 'tile monster =
  admits :: "'tile \<Rightarrow> bool"   \<comment> \<open>\<open>queryAdd(0, *this, 1, FLAG_PATHFINDING)\<close>\<close>
  mo_spawn :: bool
  masterPos :: Position
  despawnRadius :: int
  despawnRange :: int
  mo_targetDistance :: int
  isHostile :: bool
  attack_ranges :: "u32 list"   \<comment> \<open>\<open>range\<close> of each of the \<open>attackSpells\<close>\<close>
  mo_master :: "nat option"
  mo_health :: int
  runAwayHealth :: int
  challengeFocusDuration :: int
  stepDuration :: int
  targetList :: "nat list"

definition monster_isSummon :: "'tile monster \<Rightarrow> bool" where
  "monster_isSummon m \<longleftrightarrow> mo_master m \<noteq> None"

definition monster_isFleeing :: "'tile monster \<Rightarrow> bool" where
  "monster_isFleeing m \<longleftrightarrow> \<not> monster_isSummon m \<and> mo_health m \<le> runAwayHealth m \<and> challengeFocusDuration m \<le> 0"

definition isInZone :: "Position \<Rightarrow> int \<Rightarrow> Position \<Rightarrow> bool" where
  "isInZone centerPos radius pos \<longleftrightarrow>
     radius = -1 \<or>
     (getX pos \<ge> getX centerPos - radius \<and> getX pos \<le> getX centerPos + radius \<and>
      getY pos \<ge> getY centerPos - radius \<and> getY pos \<le> getY centerPos + radius)"

definition isInSpawnRange :: "'tile monster \<Rightarrow> Position \<Rightarrow> bool" where
  "isInSpawnRange m pos =
     (if \<not> mo_spawn m then True
      else if despawnRadius m = 0 then True
      else if \<not> isInZone (masterPos m) (despawnRadius m) pos then False
      else if despawnRange m = 0 then True
      else if getDistanceZ pos (masterPos m) > despawnRange m then False
      else True)"

definition monster_canWalkTo :: "'tile path_env \<Rightarrow> 'tile monster \<Rightarrow> Position \<Rightarrow> Direction \<Rightarrow> bool" where
  "monster_canWalkTo e m pos direction =
     (let pos = getNextPosition direction pos
      in if isInSpawnRange m pos then
           if getWalkCache pos (pe_creature e) = 0 then False
           else case tile_at (pe_walk e) pos of
                  None \<Rightarrow> False
                | Some tile \<Rightarrow> \<not> visible_creature e tile \<and> admits m tile
         else False)"

definition far_off :: "Position \<Rightarrow> Position \<Rightarrow> int" where
  "far_off p q = max (getDistanceX p q) (getDistanceY p q)"

definition monster_canUseAttack :: "'tile path_env \<Rightarrow> 'tile monster \<Rightarrow> Position \<Rightarrow> Position \<Rightarrow> bool" where
  "monster_canUseAttack e m pos targetPos =
     (if isHostile m then
        if list_ex (\<lambda>range. range \<noteq> 0 \<and> far_off pos targetPos \<le> uint range) (attack_ranges m)
        then isSightClear (path_sight e) pos targetPos True else False
      else True)"

subsection \<open>Random steps and dancing\<close>

text \<open>The directions in the order of \<open>getShuffleDirections\<close> are an argument, and so is every random draw.\<close>

fun getRandomStep :: "(Direction \<Rightarrow> bool) \<Rightarrow> Direction list \<Rightarrow> Direction \<Rightarrow> bool \<times> Direction" where
  "getRandomStep can [] direction = (False, direction)"
| "getRandomStep can (dir # dirs) direction = (if can dir then (True, dir) else getRandomStep can dirs direction)"

definition dance_direction ::
  "'tile path_env \<Rightarrow> 'tile monster \<Rightarrow> Position \<Rightarrow> Position \<Rightarrow> bool \<Rightarrow> bool \<Rightarrow> int \<Rightarrow> Direction \<Rightarrow> Direction list" where
  "dance_direction e m creaturePos centerPos keepAttack side tmpDist dir =
     (if side \<and> tmpDist = far_off creaturePos centerPos \<and> monster_canWalkTo e m creaturePos dir
      then let result = (if keepAttack
             then \<not> monster_canUseAttack e m creaturePos centerPos \<or> monster_canUseAttack e m (getNextPosition dir creaturePos) centerPos
             else True)
        in if result then [dir] else []
      else [])"

definition getDanceStep ::
  "'tile path_env \<Rightarrow> 'tile monster \<Rightarrow> (Direction list \<Rightarrow> Direction list) \<Rightarrow> (int \<Rightarrow> int \<Rightarrow> int) \<Rightarrow>
     Position \<Rightarrow> Position \<Rightarrow> bool \<Rightarrow> bool \<Rightarrow> Direction \<Rightarrow> bool \<times> Direction" where
  "getDanceStep e m shuffle uniform_random creaturePos centerPos keepAttack keep direction =
     (let offset_x = getOffsetX creaturePos centerPos; offset_y = getOffsetY creaturePos centerPos;
          distance_x = \<bar>offset_x\<bar>; distance_y = \<bar>offset_y\<bar>;
          dance = dance_direction e m creaturePos centerPos keepAttack;
          dirList =
            dance (\<not> keep \<or> offset_y \<ge> 0) (max distance_x \<bar>getY creaturePos - 1 - getY centerPos\<bar>) DIRECTION_NORTH @
            dance (\<not> keep \<or> offset_y \<le> 0) (max distance_x \<bar>getY creaturePos + 1 - getY centerPos\<bar>) DIRECTION_SOUTH @
            dance (\<not> keep \<or> offset_x \<le> 0) (max \<bar>getX creaturePos + 1 - getX centerPos\<bar> distance_y) DIRECTION_EAST @
            dance (\<not> keep \<or> offset_x \<ge> 0) (max \<bar>getX creaturePos - 1 - getX centerPos\<bar> distance_y) DIRECTION_WEST
      in if dirList \<noteq> [] then (True, shuffle dirList ! nat (uniform_random 0 (int (length dirList) - 1)))
         else (False, direction))"

subsection \<open>Steps that keep the distance\<close>

text \<open>
  The target is diagonal to the monster: the two straight ways out \<open>a\<close> and \<open>b\<close>, the diagonal one between them, the
  two ways past the target for a monster that flees, and two ways around a corner.
\<close>

definition escape_corner ::
  "(Direction \<Rightarrow> bool) \<Rightarrow> bool \<Rightarrow> bool \<Rightarrow> Direction \<Rightarrow> Direction \<Rightarrow> Direction \<Rightarrow> Direction \<Rightarrow> Direction \<Rightarrow>
     Direction \<times> Direction \<Rightarrow> Direction \<times> Direction \<Rightarrow> Direction \<Rightarrow> Direction" where
  "escape_corner can coin flee a b ab c d = (\<lambda>(x, x') (y, y') direction.
     if can a \<and> can b then (if coin then a else b)
     else if can a then a
     else if can b then b
     else if can ab then ab
     else if flee \<and> can c \<and> can d then (if coin then c else d)
     else if flee \<and> can c then c
     else if flee \<and> can d then d
     else if can x \<and> can x' then x
     else if can y \<and> can y' then y
     else direction)"

text \<open>
  The target is on one side: straight \<open>away\<close>, else to the \<open>left\<close> or \<open>right\<close>, else diagonally, where a step to the side
  is tried before the diagonal one if only one of these is free.
\<close>

definition escape_side ::
  "(Direction \<Rightarrow> bool) \<Rightarrow> bool \<Rightarrow> bool \<Rightarrow> Direction \<Rightarrow> Direction \<Rightarrow> Direction \<Rightarrow> int \<Rightarrow>
     Direction \<times> Direction \<Rightarrow> Direction \<times> Direction \<Rightarrow> Direction \<Rightarrow> Direction \<Rightarrow> Direction" where
  "escape_side can coin flee away left right offset = (\<lambda>(p, pd) (q, qd) toward direction.
     if can away then away
     else if can left \<and> can right \<and> offset = 0 then (if coin then left else right)
     else if can left \<and> offset \<le> 0 then left
     else if can right \<and> offset \<ge> 0 then right
     else if flee \<and> can left \<and> can right then (if coin then left else right)
     else if flee \<and> can left then left
     else if flee \<and> can right then right
     else if can pd \<or> can qd then
       if can pd \<and> can qd then (if coin then pd else qd)
       else if can p then p
       else if can pd then pd
       else if can q then q
       else qd
     else if flee \<and> can toward then toward
     else direction)"

definition escape_direction ::
  "(Direction \<Rightarrow> bool) \<Rightarrow> bool \<Rightarrow> bool \<Rightarrow> int \<Rightarrow> int \<Rightarrow> Direction \<Rightarrow> Direction" where
  "escape_direction can coin flee offsetx offsety direction =
     (if \<bar>offsetx\<bar> = \<bar>offsety\<bar> \<and> offsetx \<ge> 1 \<and> offsety \<ge> 1 then   \<comment> \<open>player is NW\<close>
        escape_corner can coin flee DIRECTION_SOUTH DIRECTION_EAST DIRECTION_SOUTHEAST DIRECTION_NORTH DIRECTION_WEST
          (DIRECTION_WEST, DIRECTION_SOUTHWEST) (DIRECTION_NORTH, DIRECTION_NORTHEAST) direction
      else if \<bar>offsetx\<bar> = \<bar>offsety\<bar> \<and> offsetx \<le> -1 \<and> offsety \<le> -1 then   \<comment> \<open>player is SE\<close>
        escape_corner can coin flee DIRECTION_WEST DIRECTION_NORTH DIRECTION_NORTHWEST DIRECTION_SOUTH DIRECTION_EAST
          (DIRECTION_SOUTH, DIRECTION_SOUTHWEST) (DIRECTION_EAST, DIRECTION_NORTHEAST) direction
      else if \<bar>offsetx\<bar> = \<bar>offsety\<bar> \<and> offsetx \<ge> 1 \<and> offsety \<le> -1 then   \<comment> \<open>player is SW\<close>
        escape_corner can coin flee DIRECTION_NORTH DIRECTION_EAST DIRECTION_NORTHEAST DIRECTION_SOUTH DIRECTION_WEST
          (DIRECTION_WEST, DIRECTION_NORTHWEST) (DIRECTION_SOUTH, DIRECTION_SOUTHEAST) direction
      else if \<bar>offsetx\<bar> = \<bar>offsety\<bar> \<and> offsetx \<le> -1 \<and> offsety \<ge> 1 then   \<comment> \<open>player is NE\<close>
        escape_corner can coin flee DIRECTION_WEST DIRECTION_SOUTH DIRECTION_SOUTHWEST DIRECTION_NORTH DIRECTION_EAST
          (DIRECTION_EAST, DIRECTION_SOUTHEAST) (DIRECTION_NORTH, DIRECTION_NORTHWEST) direction
      else if \<bar>offsety\<bar> > \<bar>offsetx\<bar> then
        if \<not> offsety < 0 then   \<comment> \<open>player is to the north\<close>
          escape_side can coin flee DIRECTION_SOUTH DIRECTION_WEST DIRECTION_EAST offsetx
            (DIRECTION_WEST, DIRECTION_SOUTHWEST) (DIRECTION_EAST, DIRECTION_SOUTHEAST) DIRECTION_NORTH direction
        else
          escape_side can coin flee DIRECTION_NORTH DIRECTION_WEST DIRECTION_EAST offsetx
            (DIRECTION_WEST, DIRECTION_NORTHWEST) (DIRECTION_EAST, DIRECTION_NORTHEAST) DIRECTION_SOUTH direction
      else
        if \<not> offsetx < 0 then   \<comment> \<open>player is to the west\<close>
          escape_side can coin flee DIRECTION_EAST DIRECTION_NORTH DIRECTION_SOUTH offsety
            (DIRECTION_SOUTH, DIRECTION_SOUTHEAST) (DIRECTION_NORTH, DIRECTION_NORTHEAST) DIRECTION_WEST direction
        else
          escape_side can coin flee DIRECTION_WEST DIRECTION_NORTH DIRECTION_SOUTH offsety
            (DIRECTION_NORTH, DIRECTION_NORTHWEST) (DIRECTION_SOUTH, DIRECTION_SOUTHWEST) DIRECTION_EAST direction)"

definition getDistanceStep ::
  "'tile path_env \<Rightarrow> 'tile monster \<Rightarrow> bool \<Rightarrow> Direction list \<Rightarrow> Position \<Rightarrow> Direction \<Rightarrow> bool \<Rightarrow>
     bool \<times> Direction \<times> 'tile monster" where
  "getDistanceStep e m coin dirs targetPos direction flee =
     (let creaturePos = wk_pos (pe_creature e);
          dx = getDistanceX creaturePos targetPos; dy = getDistanceY creaturePos targetPos;
          distance = max dx dy
      in if \<not> flee \<and> (distance > mo_targetDistance m \<or> \<not> isSightClear (path_sight e) creaturePos targetPos True)
         then (False, direction, m)
         else if \<not> flee \<and> distance = mo_targetDistance m then (True, direction, m)
         else
           let offsetx = getOffsetX creaturePos targetPos; offsety = getOffsetY creaturePos targetPos;
               m' = (if dx \<le> 1 \<and> dy \<le> 1 then
                       if stepDuration m < 2 then m\<lparr>stepDuration := stepDuration m + 1\<rparr> else m
                     else if stepDuration m > 0 then m\<lparr>stepDuration := stepDuration m - 1\<rparr> else m);
               can = monster_canWalkTo e m' creaturePos
           in if offsetx = 0 \<and> offsety = 0 then
                let (found, dir) = getRandomStep can dirs direction in (found, dir, m')
              else (True, escape_direction can coin flee offsetx offsety direction, m'))"

subsection \<open>Following\<close>

text \<open>The target list is one of creature ids.\<close>

datatype 'tile chaser_kind = A_Player | An_Npc | A_Monster "'tile monster"

record 'tile chaser =
  ch_env :: "'tile path_env"
  ch_kind :: "'tile chaser_kind"
  movementBlocked :: bool
  followCreature :: "(nat \<times> Position) option"
  hasFollowPath :: bool
  listWalkDir :: "Direction list"
  drunkenness :: int
  walk_asked :: bool   \<comment> \<open>\<open>startAutoWalk\<close> was called\<close>

definition search_state :: "'tile path_env \<Rightarrow> 'tile monster \<Rightarrow> nat \<Rightarrow> Position \<Rightarrow> monster_state" where
  "search_state e m i pos =
     \<lparr>targetDistance = mo_targetDistance m, isSummon = monster_isSummon m, masterIsTarget = (mo_master m = Some i),
      isFleeing = monster_isFleeing m, canUseAttack = monster_canUseAttack e m (wk_pos (pe_creature e)) pos\<rparr>"

definition chase_params :: "'tile chaser \<Rightarrow> nat \<Rightarrow> Position \<Rightarrow> find_path_params" where
  "chase_params c i pos =
     (case ch_kind c of
        A_Player \<Rightarrow> player_getPathSearchParams (hasFollowPath c) default_params
      | An_Npc \<Rightarrow> getPathSearchParams (hasFollowPath c) default_params
      | A_Monster m \<Rightarrow> monster_getPathSearchParams (search_state (ch_env c) m i pos) (hasFollowPath c) default_params)"

definition onFollowCreatureComplete :: "nat option \<Rightarrow> 'tile chaser \<Rightarrow> 'tile chaser" where
  "onFollowCreatureComplete creature c =
     (case (ch_kind c, creature) of
        (A_Monster m, Some i) \<Rightarrow>
          if i \<in> set (targetList m) then
            let others = remove1 i (targetList m);
                list = (if hasFollowPath c then i # others else if \<not> monster_isSummon m then others @ [i] else others)
            in c\<lparr>ch_kind := A_Monster (m\<lparr>targetList := list\<rparr>)\<rparr>
          else c
      | _ \<Rightarrow> c)"

definition search_way :: "Position \<Rightarrow> find_path_params \<Rightarrow> 'tile chaser \<Rightarrow> 'tile chaser option" where
  "search_way pos fpp c =
     (case getPathTo (ch_env c) pos [] fpp of
        None \<Rightarrow> None
      | Some (found, ds) \<Rightarrow>
          Some (if found then c\<lparr>listWalkDir := ds, hasFollowPath := True, walk_asked := True\<rparr>
                else c\<lparr>listWalkDir := ds, hasFollowPath := False\<rparr>))"

definition goToFollowCreature :: "bool \<Rightarrow> Direction list \<Rightarrow> 'tile chaser \<Rightarrow> 'tile chaser option" where
  "goToFollowCreature coin dirs c =
     (if movementBlocked c then Some c
      else case followCreature c of
        None \<Rightarrow> Some (onFollowCreatureComplete None c)
      | Some (i, pos) \<Rightarrow>
          let fpp = chase_params c i pos;
              plain = map_option (onFollowCreatureComplete (Some i)) (search_way pos fpp c)
          in case ch_kind c of
               A_Monster m \<Rightarrow>
                 if mo_master m = None \<and> (monster_isFleeing m \<or> maxTargetDist fpp > 1) then
                   let flee = monster_isFleeing m;
                       (found, dir, m) = getDistanceStep (ch_env c) m coin dirs pos DIRECTION_NONE flee;
                       c = c\<lparr>ch_kind := A_Monster m\<rparr>
                   in if \<not> flee \<and> \<not> found then search_way pos fpp c
                      else Some (onFollowCreatureComplete (Some i)
                        (if dir \<noteq> DIRECTION_NONE
                         then c\<lparr>listWalkDir := [dir], hasFollowPath := True, walk_asked := True\<rparr> else c))
                 else plain
             | _ \<Rightarrow> plain)"

text \<open>
  A player that follows: not while a walk to a thing is scheduled, and not within two seconds of a failed
  search.  \<open>walkTask\<close> is whether the pointer is set, \<open>now\<close> the clock; the new \<open>lastFailedFollow\<close> is part
  of the answer.
\<close>

definition player_goToFollowCreature ::
  "int \<Rightarrow> bool \<Rightarrow> int \<Rightarrow> bool \<Rightarrow> Direction list \<Rightarrow> 'tile chaser \<Rightarrow> (int \<times> 'tile chaser) option" where
  "player_goToFollowCreature now walkTask lastFailedFollow coin dirs c =
     (if \<not> walkTask then
        if now - lastFailedFollow < 2000 then Some (lastFailedFollow, c)
        else case goToFollowCreature coin dirs c of
               None \<Rightarrow> None
             | Some c \<Rightarrow>
                 Some (if followCreature c \<noteq> None \<and> \<not> hasFollowPath c then now else lastFailedFollow, c)
      else Some (lastFailedFollow, c))"

text \<open>\<open>Creature::getNextStep\<close> and \<open>Creature::onWalk(Direction&)\<close>, with the number drawn from 0 to 399.\<close>

definition onWalk_direction :: "nat \<Rightarrow> 'tile chaser \<Rightarrow> Direction \<Rightarrow> Direction" where
  "onWalk_direction rand c dir =
     (if \<not> pe_hasCondition (ch_env c) CONDITION_DRUNK then dir
      else if int (rand div 4) > drunkenness c then dir
      else [DIRECTION_NORTH, DIRECTION_EAST, DIRECTION_SOUTH, DIRECTION_WEST] ! (rand mod 4))"

definition getNextStep :: "nat \<Rightarrow> Direction \<Rightarrow> 'tile chaser \<Rightarrow> bool \<times> Direction \<times> 'tile chaser" where
  "getNextStep rand dir c =
     (if listWalkDir c = [] then (False, dir, c)
      else let dir = last (listWalkDir c); c = c\<lparr>listWalkDir := butlast (listWalkDir c)\<rparr>
        in (True, onWalk_direction rand c dir, c))"

subsection \<open>Distances after a step\<close>

definition gap :: "int \<Rightarrow> int \<Rightarrow> Direction \<Rightarrow> int" where
  "gap ox oy d = max \<bar>ox + dir_x d\<bar> \<bar>oy + dir_y d\<bar>"

lemma next_coords:
  assumes "inside p"
  shows "getX (getNextPosition d p) = getX p + dir_x d" "getY (getNextPosition d p) = getY p + dir_y d"
proof -
  obtain x y z where p: "p = Position x y z" by (cases p)
  have "0 < uint x" "uint x < 65535" "0 < uint y" "uint y < 65535" using assms by (simp_all add: inside_def p getX_def getY_def)
  then have "uint (x + 1) = uint x + 1" "uint (x - 1) = uint x - 1" "uint (y + 1) = uint y + 1" "uint (y - 1) = uint y - 1"
    by (simp_all add: uint_plus1 uint_minus1)
  then show "getX (getNextPosition d p) = getX p + dir_x d" "getY (getNextPosition d p) = getY p + dir_y d"
    by (cases d; simp add: p getX_def getY_def)+
qed

lemma far_off_gap: "far_off p q = max \<bar>getOffsetX p q\<bar> \<bar>getOffsetY p q\<bar>"
  by (simp add: far_off_def getDistanceX_def getDistanceY_def)

lemma far_off_next: "inside p \<Longrightarrow> far_off (getNextPosition d p) q = gap (getOffsetX p q) (getOffsetY p q) d"
  by (simp add: far_off_gap gap_def getOffsetX_def getOffsetY_def next_coords algebra_simps)

subsection \<open>Escaping\<close>

lemma escape_corner_can:
  "escape_corner can coin flee a b ab c d x y direction \<noteq> direction \<Longrightarrow> can (escape_corner can coin flee a b ab c d x y direction)"
  by (cases x; cases y; simp add: escape_corner_def split: if_splits)

lemma escape_side_can:
  "escape_side can coin flee away l r offset p q toward direction \<noteq> direction \<Longrightarrow>
     can (escape_side can coin flee away l r offset p q toward direction)"
  by (cases p; cases q) (auto simp: escape_side_def)

lemma escape_corner_gap:
  assumes "g + 1 \<le> gp a" "g + 1 \<le> gp b" "g + 1 \<le> gp ab" "g \<le> gp c" "g \<le> gp d" "g \<le> gp x" "g \<le> gp y" "g \<le> gp (direction :: Direction)"
  shows "(g :: int) \<le> gp (escape_corner can coin flee a b ab c d (x, x') (y, y') direction)"
    and "can a \<or> can b \<Longrightarrow> g + 1 \<le> gp (escape_corner can coin flee a b ab c d (x, x') (y, y') direction)"
  using assms by (auto simp: escape_corner_def)

lemma escape_side_gap:
  assumes "g + 1 \<le> gp away" "g \<le> gp l" "g \<le> gp r" "g \<le> gp p" "g \<le> gp pd" "g \<le> gp q" "g \<le> gp qd" "g \<le> gp (direction :: Direction)"
  shows "(g :: int) \<le> gp (escape_side can coin flee away l r offset (p, pd) (q, qd) toward direction) \<or>
      flee \<and> \<not> can away \<and> \<not> can l \<and> \<not> can r \<and> \<not> can pd \<and> \<not> can qd"
    and "can away \<Longrightarrow> g + 1 \<le> gp (escape_side can coin flee away l r offset (p, pd) (q, qd) toward direction)"
  using assms by (auto simp: escape_side_def)

text \<open>The position of the target, as the code tells it apart.\<close>

lemma target_side:
  fixes ox oy :: int
  obtains (nw) "ox = oy" "1 \<le> ox" | (se) "ox = oy" "ox \<le> -1" | (sw) "oy = - ox" "1 \<le> ox" | (ne) "oy = - ox" "ox \<le> -1"
  | (north) "\<bar>ox\<bar> < oy" | (south) "\<bar>ox\<bar> < - oy" | (west) "\<bar>oy\<bar> < ox" | (east) "\<bar>oy\<bar> < - ox"
  | (here) "ox = 0" "oy = 0"
proof -
  consider "ox = 0" | "1 \<le> ox" | "ox \<le> -1" by linarith
  then show thesis by cases (cases "\<bar>ox\<bar> < \<bar>oy\<bar>"; cases "\<bar>oy\<bar> < \<bar>ox\<bar>"; use that in linarith)+
qed

lemma escape_direction_can:
  "escape_direction can coin flee ox oy direction \<noteq> direction \<Longrightarrow> can (escape_direction can coin flee ox oy direction)"
  unfolding escape_direction_def
  by (split if_splits)+ (auto dest: escape_corner_can escape_side_can)

text \<open>Every step that is left leads towards the target, along the axis of the greater offset.\<close>

definition cornered :: "(Direction \<Rightarrow> bool) \<Rightarrow> int \<Rightarrow> int \<Rightarrow> bool" where
  "cornered can ox oy \<longleftrightarrow> (\<forall>d. d \<noteq> DIRECTION_NONE \<longrightarrow> can d \<longrightarrow>
     (if \<bar>ox\<bar> < \<bar>oy\<bar> then \<bar>oy + dir_y d\<bar> < \<bar>oy\<bar> else \<bar>ox + dir_x d\<bar> < \<bar>ox\<bar>))"

lemma gap_values:
  "gap ox oy DIRECTION_NORTH = max \<bar>ox\<bar> \<bar>oy - 1\<bar>" "gap ox oy DIRECTION_SOUTH = max \<bar>ox\<bar> \<bar>oy + 1\<bar>"
  "gap ox oy DIRECTION_WEST = max \<bar>ox - 1\<bar> \<bar>oy\<bar>" "gap ox oy DIRECTION_EAST = max \<bar>ox + 1\<bar> \<bar>oy\<bar>"
  "gap ox oy DIRECTION_NORTHWEST = max \<bar>ox - 1\<bar> \<bar>oy - 1\<bar>" "gap ox oy DIRECTION_NORTHEAST = max \<bar>ox + 1\<bar> \<bar>oy - 1\<bar>"
  "gap ox oy DIRECTION_SOUTHWEST = max \<bar>ox - 1\<bar> \<bar>oy + 1\<bar>" "gap ox oy DIRECTION_SOUTHEAST = max \<bar>ox + 1\<bar> \<bar>oy + 1\<bar>"
  "gap ox oy DIRECTION_NONE = max \<bar>ox\<bar> \<bar>oy\<bar>"
  by (simp_all add: gap_def)

lemma escape_side_kept:
  assumes "g + 1 \<le> gp away" "g \<le> gp l" "g \<le> gp r" "g \<le> gp p" "g \<le> gp pd" "g \<le> gp q" "g \<le> gp qd" "g \<le> gp (direction :: Direction)"
    and "\<not> can away \<Longrightarrow> \<not> can l \<Longrightarrow> \<not> can r \<Longrightarrow> \<not> can pd \<Longrightarrow> \<not> can qd \<Longrightarrow> Q"
  shows "(g :: int) \<le> gp (escape_side can coin flee away l r offset (p, pd) (q, qd) toward direction) \<or> flee \<and> Q"
  using escape_side_gap(1) [where gp = gp and g = g, OF assms(1-8), of can coin flee offset toward] assms(9) by blast

lemma escape_direction_at:
  "ox = oy \<Longrightarrow> 1 \<le> ox \<Longrightarrow> escape_direction can coin flee ox oy direction = escape_corner can coin flee DIRECTION_SOUTH DIRECTION_EAST DIRECTION_SOUTHEAST DIRECTION_NORTH DIRECTION_WEST (DIRECTION_WEST, DIRECTION_SOUTHWEST) (DIRECTION_NORTH, DIRECTION_NORTHEAST) direction"
  "ox = oy \<Longrightarrow> ox \<le> -1 \<Longrightarrow> escape_direction can coin flee ox oy direction = escape_corner can coin flee DIRECTION_WEST DIRECTION_NORTH DIRECTION_NORTHWEST DIRECTION_SOUTH DIRECTION_EAST (DIRECTION_SOUTH, DIRECTION_SOUTHWEST) (DIRECTION_EAST, DIRECTION_NORTHEAST) direction"
  "oy = - ox \<Longrightarrow> 1 \<le> ox \<Longrightarrow> escape_direction can coin flee ox oy direction = escape_corner can coin flee DIRECTION_NORTH DIRECTION_EAST DIRECTION_NORTHEAST DIRECTION_SOUTH DIRECTION_WEST (DIRECTION_WEST, DIRECTION_NORTHWEST) (DIRECTION_SOUTH, DIRECTION_SOUTHEAST) direction"
  "oy = - ox \<Longrightarrow> ox \<le> -1 \<Longrightarrow> escape_direction can coin flee ox oy direction = escape_corner can coin flee DIRECTION_WEST DIRECTION_SOUTH DIRECTION_SOUTHWEST DIRECTION_NORTH DIRECTION_EAST (DIRECTION_EAST, DIRECTION_SOUTHEAST) (DIRECTION_NORTH, DIRECTION_NORTHWEST) direction"
  "\<bar>ox\<bar> < oy \<Longrightarrow> escape_direction can coin flee ox oy direction = escape_side can coin flee DIRECTION_SOUTH DIRECTION_WEST DIRECTION_EAST ox (DIRECTION_WEST, DIRECTION_SOUTHWEST) (DIRECTION_EAST, DIRECTION_SOUTHEAST) DIRECTION_NORTH direction"
  "\<bar>ox\<bar> < - oy \<Longrightarrow> escape_direction can coin flee ox oy direction = escape_side can coin flee DIRECTION_NORTH DIRECTION_WEST DIRECTION_EAST ox (DIRECTION_WEST, DIRECTION_NORTHWEST) (DIRECTION_EAST, DIRECTION_NORTHEAST) DIRECTION_SOUTH direction"
  "\<bar>oy\<bar> < ox \<Longrightarrow> escape_direction can coin flee ox oy direction = escape_side can coin flee DIRECTION_EAST DIRECTION_NORTH DIRECTION_SOUTH oy (DIRECTION_SOUTH, DIRECTION_SOUTHEAST) (DIRECTION_NORTH, DIRECTION_NORTHEAST) DIRECTION_WEST direction"
  "\<bar>oy\<bar> < - ox \<Longrightarrow> escape_direction can coin flee ox oy direction = escape_side can coin flee DIRECTION_WEST DIRECTION_NORTH DIRECTION_SOUTH oy (DIRECTION_NORTH, DIRECTION_NORTHWEST) (DIRECTION_SOUTH, DIRECTION_SOUTHWEST) DIRECTION_EAST direction"
  by (auto simp: escape_direction_def)

lemma corner_keeps:
  "ox = oy \<Longrightarrow> 1 \<le> ox \<Longrightarrow> max \<bar>ox\<bar> \<bar>oy\<bar> \<le> gap ox oy (escape_direction can coin flee ox oy DIRECTION_NONE)"
  "ox = oy \<Longrightarrow> ox \<le> -1 \<Longrightarrow> max \<bar>ox\<bar> \<bar>oy\<bar> \<le> gap ox oy (escape_direction can coin flee ox oy DIRECTION_NONE)"
  "oy = - ox \<Longrightarrow> 1 \<le> ox \<Longrightarrow> max \<bar>ox\<bar> \<bar>oy\<bar> \<le> gap ox oy (escape_direction can coin flee ox oy DIRECTION_NONE)"
  "oy = - ox \<Longrightarrow> ox \<le> -1 \<Longrightarrow> max \<bar>ox\<bar> \<bar>oy\<bar> \<le> gap ox oy (escape_direction can coin flee ox oy DIRECTION_NONE)"
  by (simp only: escape_direction_at, rule escape_corner_gap(1); simp add: gap_values)+

text \<open>A direction that leads straight away along an axis of the greatest offset.\<close>

definition leads_away :: "int \<Rightarrow> int \<Rightarrow> Direction \<Rightarrow> bool" where
  "leads_away ox oy d \<longleftrightarrow> straight d \<and> gap ox oy d = max \<bar>ox\<bar> \<bar>oy\<bar> + 1"

lemma leads_away_at:
  "ox = oy \<Longrightarrow> 1 \<le> ox \<Longrightarrow> leads_away ox oy d \<Longrightarrow> d = DIRECTION_SOUTH \<or> d = DIRECTION_EAST"
  "ox = oy \<Longrightarrow> ox \<le> -1 \<Longrightarrow> leads_away ox oy d \<Longrightarrow> d = DIRECTION_WEST \<or> d = DIRECTION_NORTH"
  "oy = - ox \<Longrightarrow> 1 \<le> ox \<Longrightarrow> leads_away ox oy d \<Longrightarrow> d = DIRECTION_NORTH \<or> d = DIRECTION_EAST"
  "oy = - ox \<Longrightarrow> ox \<le> -1 \<Longrightarrow> leads_away ox oy d \<Longrightarrow> d = DIRECTION_WEST \<or> d = DIRECTION_SOUTH"
  "\<bar>ox\<bar> < oy \<Longrightarrow> leads_away ox oy d \<Longrightarrow> d = DIRECTION_SOUTH"
  "\<bar>ox\<bar> < - oy \<Longrightarrow> leads_away ox oy d \<Longrightarrow> d = DIRECTION_NORTH"
  "\<bar>oy\<bar> < ox \<Longrightarrow> leads_away ox oy d \<Longrightarrow> d = DIRECTION_EAST"
  "\<bar>oy\<bar> < - ox \<Longrightarrow> leads_away ox oy d \<Longrightarrow> d = DIRECTION_WEST"
  by (cases d; simp add: leads_away_def straight_def gap_values)+

lemma corner_leaves:
  "ox = oy \<Longrightarrow> 1 \<le> ox \<Longrightarrow> can DIRECTION_SOUTH \<or> can DIRECTION_EAST \<Longrightarrow>
    max \<bar>ox\<bar> \<bar>oy\<bar> + 1 \<le> gap ox oy (escape_direction can coin flee ox oy DIRECTION_NONE)"
  "ox = oy \<Longrightarrow> ox \<le> -1 \<Longrightarrow> can DIRECTION_WEST \<or> can DIRECTION_NORTH \<Longrightarrow>
    max \<bar>ox\<bar> \<bar>oy\<bar> + 1 \<le> gap ox oy (escape_direction can coin flee ox oy DIRECTION_NONE)"
  "oy = - ox \<Longrightarrow> 1 \<le> ox \<Longrightarrow> can DIRECTION_NORTH \<or> can DIRECTION_EAST \<Longrightarrow>
    max \<bar>ox\<bar> \<bar>oy\<bar> + 1 \<le> gap ox oy (escape_direction can coin flee ox oy DIRECTION_NONE)"
  "oy = - ox \<Longrightarrow> ox \<le> -1 \<Longrightarrow> can DIRECTION_WEST \<or> can DIRECTION_SOUTH \<Longrightarrow>
    max \<bar>ox\<bar> \<bar>oy\<bar> + 1 \<le> gap ox oy (escape_direction can coin flee ox oy DIRECTION_NONE)"
  by (simp only: escape_direction_at, rule escape_corner_gap(2); simp add: gap_values)+

lemma side_leaves:
  "\<bar>ox\<bar> < oy \<Longrightarrow> can DIRECTION_SOUTH \<Longrightarrow>
    max \<bar>ox\<bar> \<bar>oy\<bar> + 1 \<le> gap ox oy (escape_direction can coin flee ox oy DIRECTION_NONE)"
  "\<bar>ox\<bar> < - oy \<Longrightarrow> can DIRECTION_NORTH \<Longrightarrow>
    max \<bar>ox\<bar> \<bar>oy\<bar> + 1 \<le> gap ox oy (escape_direction can coin flee ox oy DIRECTION_NONE)"
  "\<bar>oy\<bar> < ox \<Longrightarrow> can DIRECTION_EAST \<Longrightarrow>
    max \<bar>ox\<bar> \<bar>oy\<bar> + 1 \<le> gap ox oy (escape_direction can coin flee ox oy DIRECTION_NONE)"
  "\<bar>oy\<bar> < - ox \<Longrightarrow> can DIRECTION_WEST \<Longrightarrow>
    max \<bar>ox\<bar> \<bar>oy\<bar> + 1 \<le> gap ox oy (escape_direction can coin flee ox oy DIRECTION_NONE)"
  by (simp only: escape_direction_at, rule escape_side_gap(2); simp add: gap_values)+

lemma cornered_at:
  "\<bar>ox\<bar> < oy \<Longrightarrow> \<not> can DIRECTION_SOUTH \<Longrightarrow> \<not> can DIRECTION_WEST \<Longrightarrow> \<not> can DIRECTION_EAST \<Longrightarrow> \<not> can DIRECTION_SOUTHWEST \<Longrightarrow> \<not> can DIRECTION_SOUTHEAST \<Longrightarrow> cornered can ox oy"
  "\<bar>ox\<bar> < - oy \<Longrightarrow> \<not> can DIRECTION_NORTH \<Longrightarrow> \<not> can DIRECTION_WEST \<Longrightarrow> \<not> can DIRECTION_EAST \<Longrightarrow> \<not> can DIRECTION_NORTHWEST \<Longrightarrow> \<not> can DIRECTION_NORTHEAST \<Longrightarrow> cornered can ox oy"
  "\<bar>oy\<bar> < ox \<Longrightarrow> \<not> can DIRECTION_EAST \<Longrightarrow> \<not> can DIRECTION_NORTH \<Longrightarrow> \<not> can DIRECTION_SOUTH \<Longrightarrow> \<not> can DIRECTION_SOUTHEAST \<Longrightarrow> \<not> can DIRECTION_NORTHEAST \<Longrightarrow> cornered can ox oy"
  "\<bar>oy\<bar> < - ox \<Longrightarrow> \<not> can DIRECTION_WEST \<Longrightarrow> \<not> can DIRECTION_NORTH \<Longrightarrow> \<not> can DIRECTION_SOUTH \<Longrightarrow> \<not> can DIRECTION_NORTHWEST \<Longrightarrow> \<not> can DIRECTION_SOUTHWEST \<Longrightarrow> cornered can ox oy"
  unfolding cornered_def by (intro allI impI, rename_tac d, case_tac d; simp)+

lemma side_keeps:
  "\<bar>ox\<bar> < oy \<Longrightarrow>
    max \<bar>ox\<bar> \<bar>oy\<bar> \<le> gap ox oy (escape_direction can coin flee ox oy DIRECTION_NONE) \<or> flee \<and> cornered can ox oy"
  "\<bar>ox\<bar> < - oy \<Longrightarrow>
    max \<bar>ox\<bar> \<bar>oy\<bar> \<le> gap ox oy (escape_direction can coin flee ox oy DIRECTION_NONE) \<or> flee \<and> cornered can ox oy"
  "\<bar>oy\<bar> < ox \<Longrightarrow>
    max \<bar>ox\<bar> \<bar>oy\<bar> \<le> gap ox oy (escape_direction can coin flee ox oy DIRECTION_NONE) \<or> flee \<and> cornered can ox oy"
  "\<bar>oy\<bar> < - ox \<Longrightarrow>
    max \<bar>ox\<bar> \<bar>oy\<bar> \<le> gap ox oy (escape_direction can coin flee ox oy DIRECTION_NONE) \<or> flee \<and> cornered can ox oy"
  by (simp only: escape_direction_at, rule escape_side_kept; simp add: gap_values cornered_at)+


text \<open>
  When no step is left.  A step retreats if it is straight and makes the sum of the offsets grow, or if it makes
  the distance grow and, from a target on a diagonal, brings neither offset nearer.  From a target on a
  diagonal a step along one side is taken if the square around the corner, beside it, is free as well.
\<close>

definition retreats :: "int \<Rightarrow> int \<Rightarrow> Direction \<Rightarrow> bool" where
  "retreats ox oy d \<longleftrightarrow>
     straight d \<and> \<bar>ox\<bar> + \<bar>oy\<bar> < \<bar>ox + dir_x d\<bar> + \<bar>oy + dir_y d\<bar> \<or>
     max \<bar>ox\<bar> \<bar>oy\<bar> < gap ox oy d \<and> (\<bar>ox\<bar> = \<bar>oy\<bar> \<longrightarrow> \<bar>ox\<bar> \<le> \<bar>ox + dir_x d\<bar> \<and> \<bar>oy\<bar> \<le> \<bar>oy + dir_y d\<bar>)"

definition around_corner :: "int \<Rightarrow> int \<Rightarrow> Direction \<Rightarrow> Direction \<Rightarrow> bool" where
  "around_corner ox oy d d' \<longleftrightarrow> \<bar>ox\<bar> = \<bar>oy\<bar> \<and> straight d \<and> \<not> straight d' \<and>
     \<not> max \<bar>ox\<bar> \<bar>oy\<bar> < gap ox oy d \<and> max \<bar>ox\<bar> \<bar>oy\<bar> < gap ox oy d' \<and>
     (dir_x d' = dir_x d \<or> dir_y d' = dir_y d)"

definition stuck :: "(Direction \<Rightarrow> bool) \<Rightarrow> bool \<Rightarrow> int \<Rightarrow> int \<Rightarrow> bool" where
  "stuck can flee ox oy \<longleftrightarrow>
     (\<forall>d. retreats ox oy d \<longrightarrow> \<not> can d) \<and> (\<forall>d d'. around_corner ox oy d d' \<longrightarrow> \<not> (can d \<and> can d')) \<and>
     (flee \<longrightarrow> (\<forall>d. straight d \<longrightarrow> \<not> can d))"

lemma all_directions:
  "(\<forall>d. P d) \<longleftrightarrow> P DIRECTION_NORTH \<and> P DIRECTION_EAST \<and> P DIRECTION_SOUTH \<and> P DIRECTION_WEST \<and> P DIRECTION_SOUTHWEST \<and>
     P DIRECTION_SOUTHEAST \<and> P DIRECTION_NORTHWEST \<and> P DIRECTION_NORTHEAST \<and> P DIRECTION_NONE"
  by (metis Direction.exhaust)

lemma straight_simps:
  "straight DIRECTION_NORTH" "straight DIRECTION_EAST" "straight DIRECTION_SOUTH" "straight DIRECTION_WEST"
  "\<not> straight DIRECTION_SOUTHWEST" "\<not> straight DIRECTION_SOUTHEAST" "\<not> straight DIRECTION_NORTHWEST"
  "\<not> straight DIRECTION_NORTHEAST" "\<not> straight DIRECTION_NONE"
  by (simp_all add: straight_def)

lemma escape_corner_none:
  "a \<noteq> DIRECTION_NONE \<Longrightarrow> b \<noteq> DIRECTION_NONE \<Longrightarrow> ab \<noteq> DIRECTION_NONE \<Longrightarrow> c \<noteq> DIRECTION_NONE \<Longrightarrow> d \<noteq> DIRECTION_NONE \<Longrightarrow>
   x \<noteq> DIRECTION_NONE \<Longrightarrow> y \<noteq> DIRECTION_NONE \<Longrightarrow>
   escape_corner can coin flee a b ab c d (x, x') (y, y') DIRECTION_NONE = DIRECTION_NONE \<longleftrightarrow>
     \<not> can a \<and> \<not> can b \<and> \<not> can ab \<and> (flee \<longrightarrow> \<not> can c \<and> \<not> can d) \<and> \<not> (can x \<and> can x') \<and> \<not> (can y \<and> can y')"
  by (auto simp: escape_corner_def)

lemma escape_side_none:
  "away \<noteq> DIRECTION_NONE \<Longrightarrow> l \<noteq> DIRECTION_NONE \<Longrightarrow> r \<noteq> DIRECTION_NONE \<Longrightarrow> p \<noteq> DIRECTION_NONE \<Longrightarrow> pd \<noteq> DIRECTION_NONE \<Longrightarrow>
   q \<noteq> DIRECTION_NONE \<Longrightarrow> qd \<noteq> DIRECTION_NONE \<Longrightarrow> toward \<noteq> DIRECTION_NONE \<Longrightarrow>
   escape_side can coin flee away l r offset (p, pd) (q, qd) toward DIRECTION_NONE = DIRECTION_NONE \<longleftrightarrow>
     \<not> can away \<and> \<not> (can l \<and> offset \<le> 0) \<and> \<not> (can r \<and> 0 \<le> offset) \<and> \<not> can pd \<and> \<not> can qd \<and>
     (flee \<longrightarrow> \<not> can l \<and> \<not> can r \<and> \<not> can toward)"
  by (auto simp: escape_side_def)

lemma stuck_at:
  "ox = oy \<Longrightarrow> 1 \<le> ox \<Longrightarrow> stuck can flee ox oy \<longleftrightarrow> escape_direction can coin flee ox oy DIRECTION_NONE = DIRECTION_NONE"
  "ox = oy \<Longrightarrow> ox \<le> -1 \<Longrightarrow> stuck can flee ox oy \<longleftrightarrow> escape_direction can coin flee ox oy DIRECTION_NONE = DIRECTION_NONE"
  "oy = - ox \<Longrightarrow> 1 \<le> ox \<Longrightarrow> stuck can flee ox oy \<longleftrightarrow> escape_direction can coin flee ox oy DIRECTION_NONE = DIRECTION_NONE"
  "oy = - ox \<Longrightarrow> ox \<le> -1 \<Longrightarrow> stuck can flee ox oy \<longleftrightarrow> escape_direction can coin flee ox oy DIRECTION_NONE = DIRECTION_NONE"
  "\<bar>ox\<bar> < oy \<Longrightarrow> stuck can flee ox oy \<longleftrightarrow> escape_direction can coin flee ox oy DIRECTION_NONE = DIRECTION_NONE"
  "\<bar>ox\<bar> < - oy \<Longrightarrow> stuck can flee ox oy \<longleftrightarrow> escape_direction can coin flee ox oy DIRECTION_NONE = DIRECTION_NONE"
  "\<bar>oy\<bar> < ox \<Longrightarrow> stuck can flee ox oy \<longleftrightarrow> escape_direction can coin flee ox oy DIRECTION_NONE = DIRECTION_NONE"
  "\<bar>oy\<bar> < - ox \<Longrightarrow> stuck can flee ox oy \<longleftrightarrow> escape_direction can coin flee ox oy DIRECTION_NONE = DIRECTION_NONE"
  by (simp only: escape_direction_at, simp only: escape_corner_none escape_side_none Direction.distinct not_False_eq_True
      stuck_def all_directions retreats_def around_corner_def straight_simps gap_values dir_x.simps dir_y.simps, force)+

lemma escape_direction_keeps:
  "(ox, oy) \<noteq> (0, 0) \<Longrightarrow>
   max \<bar>ox\<bar> \<bar>oy\<bar> \<le> gap ox oy (escape_direction can coin flee ox oy DIRECTION_NONE) \<or> flee \<and> cornered can ox oy"
  by (cases rule: target_side [where ox = ox and oy = oy]) ((rule disjI1, rule corner_keeps; assumption) | (rule side_keeps; assumption) | simp)+

lemma escape_direction_leaves:
  assumes "(ox, oy) \<noteq> (0, 0)" "can d" "leads_away ox oy d"
  shows "max \<bar>ox\<bar> \<bar>oy\<bar> + 1 \<le> gap ox oy (escape_direction can coin flee ox oy DIRECTION_NONE)"
proof (cases rule: target_side [where ox = ox and oy = oy])
  case nw
  show ?thesis by (rule corner_leaves(1) [OF nw]) (use leads_away_at(1) [OF nw assms(3)] assms(2) in auto)
next
  case se
  show ?thesis by (rule corner_leaves(2) [OF se]) (use leads_away_at(2) [OF se assms(3)] assms(2) in auto)
next
  case sw
  show ?thesis by (rule corner_leaves(3) [OF sw]) (use leads_away_at(3) [OF sw assms(3)] assms(2) in auto)
next
  case ne
  show ?thesis by (rule corner_leaves(4) [OF ne]) (use leads_away_at(4) [OF ne assms(3)] assms(2) in auto)
next
  case north
  show ?thesis by (rule side_leaves(1) [OF north]) (use leads_away_at(5) [OF north assms(3)] assms(2) in simp)
next
  case south
  show ?thesis by (rule side_leaves(2) [OF south]) (use leads_away_at(6) [OF south assms(3)] assms(2) in simp)
next
  case west
  show ?thesis by (rule side_leaves(3) [OF west]) (use leads_away_at(7) [OF west assms(3)] assms(2) in simp)
next
  case east
  show ?thesis by (rule side_leaves(4) [OF east]) (use leads_away_at(8) [OF east assms(3)] assms(2) in simp)
next
  case here
  with assms(1) show ?thesis by simp
qed

lemma getRandomStep_result:
  assumes "getRandomStep can dirs direction = (found, d)"
  shows "found \<longleftrightarrow> (\<exists>d' \<in> set dirs. can d')" "found \<Longrightarrow> d \<in> set dirs \<and> can d" "\<not> found \<Longrightarrow> d = direction"
  using assms by (induction dirs) (auto split: if_splits)

lemma isInSpawnRange_step [simp]: "isInSpawnRange (m\<lparr>stepDuration := n\<rparr>) = isInSpawnRange m"
  by (rule ext) (simp add: isInSpawnRange_def)

lemma monster_canWalkTo_step [simp]: "monster_canWalkTo e (m\<lparr>stepDuration := n\<rparr>) = monster_canWalkTo e m"
  by (rule ext, rule ext) (simp add: monster_canWalkTo_def Let_def split: option.split)

text \<open>The directions of a shuffle.\<close>

definition shuffled_directions :: "Direction list \<Rightarrow> bool" where
  "shuffled_directions dirs \<longleftrightarrow> distinct dirs \<and> set dirs = {DIRECTION_NORTH, DIRECTION_WEST, DIRECTION_EAST, DIRECTION_SOUTH}"

lemma shuffled_straight: "shuffled_directions dirs \<Longrightarrow> d \<in> set dirs \<longleftrightarrow> straight d"
  by (auto simp: shuffled_directions_def straight_def)

lemma gap_here: "straight d \<Longrightarrow> gap 0 0 d = 1"
  by (cases d) (simp_all add: straight_def gap_values)

definition slowed :: "Position \<Rightarrow> Position \<Rightarrow> 'tile monster \<Rightarrow> 'tile monster" where
  "slowed p t m =
     (if getDistanceX p t \<le> 1 \<and> getDistanceY p t \<le> 1 then
        if stepDuration m < 2 then m\<lparr>stepDuration := stepDuration m + 1\<rparr> else m
      else if stepDuration m > 0 then m\<lparr>stepDuration := stepDuration m - 1\<rparr> else m)"

lemma slowed_fields:
  "monster_canWalkTo e (slowed p t m) = monster_canWalkTo e m"
  "0 \<le> stepDuration m \<and> stepDuration m \<le> 2 \<Longrightarrow> 0 \<le> stepDuration (slowed p t m) \<and> stepDuration (slowed p t m) \<le> 2"
  by (simp_all add: slowed_def)

lemma getDistanceStep_cases:
  assumes "getDistanceStep e m coin dirs t DIRECTION_NONE flee = (moved, d, m')"
  obtains (wait) "\<not> flee" "mo_targetDistance m \<le> far_off (wk_pos (pe_creature e)) t \<or> \<not> isSightClear (path_sight e) (wk_pos (pe_creature e)) t True"
      "d = DIRECTION_NONE" "m' = m"
      "moved \<longleftrightarrow> far_off (wk_pos (pe_creature e)) t = mo_targetDistance m \<and> isSightClear (path_sight e) (wk_pos (pe_creature e)) t True"
  | (random) "getOffsetX (wk_pos (pe_creature e)) t = 0" "getOffsetY (wk_pos (pe_creature e)) t = 0"
      "flee \<or> far_off (wk_pos (pe_creature e)) t < mo_targetDistance m \<and> isSightClear (path_sight e) (wk_pos (pe_creature e)) t True"
      "getRandomStep (monster_canWalkTo e m (wk_pos (pe_creature e))) dirs DIRECTION_NONE = (moved, d)" "m' = slowed (wk_pos (pe_creature e)) t m"
  | (escape) "(getOffsetX (wk_pos (pe_creature e)) t, getOffsetY (wk_pos (pe_creature e)) t) \<noteq> (0, 0)" "moved"
      "flee \<or> far_off (wk_pos (pe_creature e)) t < mo_targetDistance m \<and> isSightClear (path_sight e) (wk_pos (pe_creature e)) t True"
      "d = escape_direction (monster_canWalkTo e m (wk_pos (pe_creature e))) coin flee
         (getOffsetX (wk_pos (pe_creature e)) t) (getOffsetY (wk_pos (pe_creature e)) t) DIRECTION_NONE" "m' = slowed (wk_pos (pe_creature e)) t m"
proof -
  let ?p = "wk_pos (pe_creature e)"
  let ?wait = "\<not> flee \<and> (mo_targetDistance m \<le> far_off ?p t \<or> \<not> isSightClear (path_sight e) ?p t True)"
  have eq: "getDistanceStep e m coin dirs t DIRECTION_NONE flee =
    (if ?wait then (far_off ?p t = mo_targetDistance m \<and> isSightClear (path_sight e) ?p t True, DIRECTION_NONE, m)
     else if getOffsetX ?p t = 0 \<and> getOffsetY ?p t = 0 then
       (let (found, dir) = getRandomStep (monster_canWalkTo e (slowed ?p t m) ?p) dirs DIRECTION_NONE in (found, dir, slowed ?p t m))
     else (True, escape_direction (monster_canWalkTo e (slowed ?p t m) ?p) coin flee (getOffsetX ?p t) (getOffsetY ?p t) DIRECTION_NONE,
       slowed ?p t m))"
    unfolding getDistanceStep_def Let_def far_off_def slowed_def [symmetric] by (cases flee) auto
  show thesis
  proof (cases ?wait)
    case True
    then show thesis using wait assms eq by auto
  next
    case False
    then show thesis using random escape assms eq unfolding slowed_fields by (cases "getOffsetX ?p t = 0 \<and> getOffsetY ?p t = 0") (auto split: prod.splits)
  qed
qed

lemma distance_step_keeps:
  assumes "inside (wk_pos (pe_creature e))" and "shuffled_directions dirs"
    and "getDistanceStep e m coin dirs t DIRECTION_NONE flee = (moved, d, m')"
  shows "d \<noteq> DIRECTION_NONE \<Longrightarrow> monster_canWalkTo e m (wk_pos (pe_creature e)) d"
    and "far_off (wk_pos (pe_creature e)) t \<le> far_off (getNextPosition d (wk_pos (pe_creature e))) t \<or>
      flee \<and> cornered (monster_canWalkTo e m (wk_pos (pe_creature e)))
        (getOffsetX (wk_pos (pe_creature e)) t) (getOffsetY (wk_pos (pe_creature e)) t)"
proof -
  note distances = far_off_next [OF assms(1)] far_off_gap [of "wk_pos (pe_creature e)" t]
  from assms(3) show "monster_canWalkTo e m (wk_pos (pe_creature e)) d" if "d \<noteq> DIRECTION_NONE"
  proof (cases rule: getDistanceStep_cases)
    case random
    then show ?thesis using getRandomStep_result [OF random(4)] that by (cases moved) simp_all
  next
    case escape
    then show ?thesis using escape_direction_can that by metis
  qed (use that in simp)
  from assms(3) show "far_off (wk_pos (pe_creature e)) t \<le> far_off (getNextPosition d (wk_pos (pe_creature e))) t \<or>
      flee \<and> cornered (monster_canWalkTo e m (wk_pos (pe_creature e)))
        (getOffsetX (wk_pos (pe_creature e)) t) (getOffsetY (wk_pos (pe_creature e)) t)"
  proof (cases rule: getDistanceStep_cases)
    case random
    then show ?thesis by (simp add: distances gap_def le_max_iff_disj)
  next
    case escape
    show ?thesis unfolding distances escape(4) by (rule escape_direction_keeps [OF escape(1)])
  qed (simp add: distances gap_values)
qed

lemma distance_step_leaves:
  assumes "inside (wk_pos (pe_creature e))" and "shuffled_directions dirs"
    and "getDistanceStep e m coin dirs t DIRECTION_NONE flee = (moved, d, m')"
    and "flee \<or> far_off (wk_pos (pe_creature e)) t < mo_targetDistance m \<and> isSightClear (path_sight e) (wk_pos (pe_creature e)) t True"
    and "straight d'" "monster_canWalkTo e m (wk_pos (pe_creature e)) d'"
    and "far_off (getNextPosition d' (wk_pos (pe_creature e))) t = far_off (wk_pos (pe_creature e)) t + 1"
  shows "far_off (wk_pos (pe_creature e)) t < far_off (getNextPosition d (wk_pos (pe_creature e))) t"
proof -
  let ?ox = "getOffsetX (wk_pos (pe_creature e)) t" and ?oy = "getOffsetY (wk_pos (pe_creature e)) t"
  note distances = far_off_next [OF assms(1)] far_off_gap [of "wk_pos (pe_creature e)" t]
  show ?thesis using assms(3)
  proof (cases rule: getDistanceStep_cases)
    case wait
    then show ?thesis using assms(4) by auto
  next
    case random
    have "moved" "d \<in> set dirs"
      using getRandomStep_result [OF random(4)] shuffled_straight [OF assms(2)] assms(5,6) by auto
    then show ?thesis using random gap_here shuffled_straight [OF assms(2)] by (simp add: distances)
  next
    case escape
    have "leads_away ?ox ?oy d'" using assms(5,7) unfolding distances leads_away_def by simp
    from escape_direction_leaves [OF escape(1), where can = "monster_canWalkTo e m (wk_pos (pe_creature e))", OF assms(6) this]
    show ?thesis unfolding distances escape(4) by (rule less_le_trans [rotated]) simp
  qed
qed

lemma distance_step_waits:
  assumes "getDistanceStep e m coin dirs t DIRECTION_NONE flee = (moved, d, m')"
  shows "\<not> flee \<Longrightarrow> mo_targetDistance m < far_off (wk_pos (pe_creature e)) t \<or> \<not> isSightClear (path_sight e) (wk_pos (pe_creature e)) t True \<Longrightarrow>
      \<not> moved \<and> d = DIRECTION_NONE"
    and "0 \<le> stepDuration m \<and> stepDuration m \<le> 2 \<Longrightarrow> 0 \<le> stepDuration m' \<and> stepDuration m' \<le> 2"
  using assms by (cases rule: getDistanceStep_cases; auto)
    (use assms in \<open>cases rule: getDistanceStep_cases; simp add: slowed_fields(2)\<close>)

lemma escape_direction_none:
  assumes "(ox, oy) \<noteq> (0, 0)"
  shows "escape_direction can coin flee ox oy DIRECTION_NONE = DIRECTION_NONE \<longleftrightarrow> stuck can flee ox oy"
proof (cases rule: target_side [where ox = ox and oy = oy])
  case nw then show ?thesis by (rule stuck_at(1) [symmetric])
next
  case se then show ?thesis by (rule stuck_at(2) [symmetric])
next
  case sw then show ?thesis by (rule stuck_at(3) [symmetric])
next
  case ne then show ?thesis by (rule stuck_at(4) [symmetric])
next
  case north then show ?thesis by (rule stuck_at(5) [symmetric])
next
  case south then show ?thesis by (rule stuck_at(6) [symmetric])
next
  case west then show ?thesis by (rule stuck_at(7) [symmetric])
next
  case east then show ?thesis by (rule stuck_at(8) [symmetric])
next
  case here with assms show ?thesis by simp
qed

text \<open>On the square of its target a monster is stuck if no straight step is possible.\<close>

definition no_step :: "(Direction \<Rightarrow> bool) \<Rightarrow> bool \<Rightarrow> int \<Rightarrow> int \<Rightarrow> bool" where
  "no_step can flee ox oy \<longleftrightarrow>
     (if ox = 0 \<and> oy = 0 then \<forall>d. straight d \<longrightarrow> \<not> can d else stuck can flee ox oy)"

lemma distance_step_none:
  assumes "shuffled_directions dirs" and "getDistanceStep e m coin dirs t DIRECTION_NONE flee = (moved, d, m')"
    and "flee \<or> far_off (wk_pos (pe_creature e)) t < mo_targetDistance m \<and> isSightClear (path_sight e) (wk_pos (pe_creature e)) t True"
  shows "d = DIRECTION_NONE \<longleftrightarrow> no_step (monster_canWalkTo e m (wk_pos (pe_creature e))) flee
      (getOffsetX (wk_pos (pe_creature e)) t) (getOffsetY (wk_pos (pe_creature e)) t)"
    and "\<not> moved \<longleftrightarrow> d = DIRECTION_NONE \<and> getOffsetX (wk_pos (pe_creature e)) t = 0 \<and> getOffsetY (wk_pos (pe_creature e)) t = 0"
proof -
  have none: "DIRECTION_NONE \<notin> set dirs" using assms(1) by (simp add: shuffled_directions_def)
  show "d = DIRECTION_NONE \<longleftrightarrow> no_step (monster_canWalkTo e m (wk_pos (pe_creature e))) flee
      (getOffsetX (wk_pos (pe_creature e)) t) (getOffsetY (wk_pos (pe_creature e)) t)"
    using assms(2)
  proof (cases rule: getDistanceStep_cases)
    case wait
    with assms(3) show ?thesis by auto
  next
    case random
    have "d = DIRECTION_NONE \<longleftrightarrow> \<not> moved"
      using getRandomStep_result(2,3) [OF random(4)] none by (cases moved) auto
    then show ?thesis
      using getRandomStep_result(1) [OF random(4)] shuffled_straight [OF assms(1)] random(1,2)
      by (auto simp: no_step_def)
  next
    case escape
    show ?thesis using escape(1) unfolding escape(4) escape_direction_none [OF escape(1)] no_step_def by auto
  qed
  show "\<not> moved \<longleftrightarrow> d = DIRECTION_NONE \<and> getOffsetX (wk_pos (pe_creature e)) t = 0 \<and> getOffsetY (wk_pos (pe_creature e)) t = 0"
    using assms(2)
  proof (cases rule: getDistanceStep_cases)
    case wait
    with assms(3) show ?thesis by auto
  next
    case random
    then show ?thesis
      using getRandomStep_result(2,3) [OF random(4)] none by (cases moved) auto
  next
    case escape
    then show ?thesis by auto
  qed
qed

text \<open>
  C38: what a monster does that keeps a distance or flees.  A step it takes leads to a square it can walk on.  It is
  not nearer to its target after the step, unless it flees and every step that is left leads towards the target.
  If it takes a step at all and one straight away from the target is possible, it is farther off afterwards.  If
  it does not flee and the target is too far or out of sight, the search for a way is left to decide.  Its
  slowness stays between 0 and 2.
\<close>

theorem distance_step_keeps_away:
  assumes "inside (wk_pos (pe_creature e))" and "shuffled_directions dirs"
    and "getDistanceStep e m coin dirs t DIRECTION_NONE flee = (moved, d, m')"
  shows "(d \<noteq> DIRECTION_NONE \<longrightarrow> monster_canWalkTo e m (wk_pos (pe_creature e)) d) \<and>
    (far_off (wk_pos (pe_creature e)) t \<le> far_off (getNextPosition d (wk_pos (pe_creature e))) t \<or>
      flee \<and> cornered (monster_canWalkTo e m (wk_pos (pe_creature e)))
        (getOffsetX (wk_pos (pe_creature e)) t) (getOffsetY (wk_pos (pe_creature e)) t)) \<and>
    ((flee \<or> far_off (wk_pos (pe_creature e)) t < mo_targetDistance m \<and> isSightClear (path_sight e) (wk_pos (pe_creature e)) t True) \<longrightarrow>
      (\<exists>d'. straight d' \<and> monster_canWalkTo e m (wk_pos (pe_creature e)) d' \<and>
        far_off (getNextPosition d' (wk_pos (pe_creature e))) t = far_off (wk_pos (pe_creature e)) t + 1) \<longrightarrow>
      far_off (wk_pos (pe_creature e)) t < far_off (getNextPosition d (wk_pos (pe_creature e))) t) \<and>
    (\<not> flee \<and> (mo_targetDistance m < far_off (wk_pos (pe_creature e)) t \<or> \<not> isSightClear (path_sight e) (wk_pos (pe_creature e)) t True) \<longrightarrow>
      \<not> moved \<and> d = DIRECTION_NONE) \<and>
    (0 \<le> stepDuration m \<and> stepDuration m \<le> 2 \<longrightarrow> 0 \<le> stepDuration m' \<and> stepDuration m' \<le> 2)"
  using distance_step_keeps [OF assms] distance_step_leaves [OF assms] distance_step_waits [OF assms(3)] by blast

subsection \<open>Dancing\<close>

text \<open>A step of the dance: straight, at the same distance, and where asked for without drifting off or losing the attack.\<close>

definition dances :: "'tile path_env \<Rightarrow> 'tile monster \<Rightarrow> Position \<Rightarrow> Position \<Rightarrow> bool \<Rightarrow> bool \<Rightarrow> Direction \<Rightarrow> bool" where
  "dances e m p q keepAttack keep d \<longleftrightarrow>
     straight d \<and> monster_canWalkTo e m p d \<and> far_off (getNextPosition d p) q = far_off p q \<and>
     (keep \<longrightarrow> dir_x d * getOffsetX p q + dir_y d * getOffsetY p q \<le> 0) \<and>
     (keepAttack \<and> monster_canUseAttack e m p q \<longrightarrow> monster_canUseAttack e m (getNextPosition d p) q)"

lemma set_dance_direction:
  "set (dance_direction e m p q keepAttack side n d) =
     {d' \<in> {d}. side \<and> n = far_off p q \<and> monster_canWalkTo e m p d \<and>
        (keepAttack \<and> monster_canUseAttack e m p q \<longrightarrow> monster_canUseAttack e m (getNextPosition d p) q)}"
  by (auto simp: dance_direction_def Let_def)

lemma dance_offsets:
  assumes "inside p"
  shows "max \<bar>getOffsetX p q\<bar> \<bar>getY p - 1 - getY q\<bar> = far_off (getNextPosition DIRECTION_NORTH p) q"
    "max \<bar>getOffsetX p q\<bar> \<bar>getY p + 1 - getY q\<bar> = far_off (getNextPosition DIRECTION_SOUTH p) q"
    "max \<bar>getX p + 1 - getX q\<bar> \<bar>getOffsetY p q\<bar> = far_off (getNextPosition DIRECTION_EAST p) q"
    "max \<bar>getX p - 1 - getX q\<bar> \<bar>getOffsetY p q\<bar> = far_off (getNextPosition DIRECTION_WEST p) q"
  unfolding far_off_next [OF assms] gap_values getOffsetX_def getOffsetY_def by linarith+

text \<open>
  C39: target dancing.  A monster that dances takes a straight step to a square it can walk on, at the same distance
  from its target; keeping the attack, it does not lose sight or range, and keeping the distance, it does not drift
  off along the axis of the step.  It takes a step whenever there is one, whatever the shuffle and the number drawn.
\<close>

theorem dance_step_keeps_distance:
  assumes "inside p" and "\<And>l. length (shuffle l) = length l \<and> set (shuffle l) = set l"
    and "\<And>a b. a \<le> b \<Longrightarrow> a \<le> uniform_random a b \<and> uniform_random a b \<le> b"
    and "getDanceStep e m shuffle uniform_random p q keepAttack keep direction = (moved, d)"
  shows "(moved \<longleftrightarrow> (\<exists>d'. dances e m p q keepAttack keep d')) \<and>
    (moved \<longrightarrow> dances e m p q keepAttack keep d) \<and> (\<not> moved \<longrightarrow> d = direction)"
proof -
  obtain dirList where list: "set dirList = {d'. dances e m p q keepAttack keep d'}"
    "(moved, d) = (if dirList \<noteq> [] then (True, shuffle dirList ! nat (uniform_random 0 (int (length dirList) - 1))) else (False, direction))"
  proof (rule that)
    let ?dance = "dance_direction e m p q keepAttack" and ?ox = "getOffsetX p q" and ?oy = "getOffsetY p q"
    let ?l = "?dance (\<not> keep \<or> ?oy \<ge> 0) (max \<bar>?ox\<bar> \<bar>getY p - 1 - getY q\<bar>) DIRECTION_NORTH @
      ?dance (\<not> keep \<or> ?oy \<le> 0) (max \<bar>?ox\<bar> \<bar>getY p + 1 - getY q\<bar>) DIRECTION_SOUTH @
      ?dance (\<not> keep \<or> ?ox \<le> 0) (max \<bar>getX p + 1 - getX q\<bar> \<bar>?oy\<bar>) DIRECTION_EAST @
      ?dance (\<not> keep \<or> ?ox \<ge> 0) (max \<bar>getX p - 1 - getX q\<bar> \<bar>?oy\<bar>) DIRECTION_WEST"
    show "set ?l = {d'. dances e m p q keepAttack keep d'}"
    proof (rule set_eqI)
      fix d' show "d' \<in> set ?l \<longleftrightarrow> d' \<in> {d'. dances e m p q keepAttack keep d'}"
        unfolding set_append set_dance_direction dance_offsets [OF assms(1)] dances_def straight_def Un_iff mem_Collect_eq
        by (cases d') (simp_all, blast+)
    qed
    show "(moved, d) = (if ?l \<noteq> [] then (True, shuffle ?l ! nat (uniform_random 0 (int (length ?l) - 1))) else (False, direction))"
      using assms(4) unfolding getDanceStep_def Let_def by (rule sym)
  qed
  have "shuffle dirList ! nat (uniform_random 0 (int (length dirList) - 1)) \<in> set dirList" if "dirList \<noteq> []"
  proof -
    have "0 \<le> int (length dirList) - 1" using that by (cases dirList) simp_all
    then have "nat (uniform_random 0 (int (length dirList) - 1)) < length (shuffle dirList)"
      using assms(3) [of 0 "int (length dirList) - 1"] assms(2) [of dirList] by linarith
    then show ?thesis using assms(2) [of dirList] nth_mem by metis
  qed
  then show ?thesis using list by (cases "dirList = []") auto
qed

subsection \<open>Following\<close>

lemma complete_fields [simp]:
  "listWalkDir (onFollowCreatureComplete i c) = listWalkDir c" "hasFollowPath (onFollowCreatureComplete i c) = hasFollowPath c"
  "walk_asked (onFollowCreatureComplete i c) = walk_asked c" "ch_env (onFollowCreatureComplete i c) = ch_env c"
  by (simp_all add: onFollowCreatureComplete_def Let_def split: chaser_kind.split option.split)

text \<open>What becomes of the targets: the one followed moves to the front or the back, and only a summon forgets it.\<close>

lemma complete_targets:
  assumes "ch_kind c = A_Monster m" "distinct (targetList m)"
  obtains m' where "ch_kind (onFollowCreatureComplete (Some i) c) = A_Monster m'" "distinct (targetList m')"
    "set (targetList m') = (if hasFollowPath c \<or> \<not> monster_isSummon m then set (targetList m) else set (targetList m) - {i})"
    "filter (\<lambda>j. j \<noteq> i) (targetList m') = filter (\<lambda>j. j \<noteq> i) (targetList m)"
proof (cases "i \<in> set (targetList m)")
  case True
  let ?others = "remove1 i (targetList m)"
  let ?list = "if hasFollowPath c then i # ?others else if \<not> monster_isSummon m then ?others @ [i] else ?others"
  have others: "set ?others = set (targetList m) - {i}" "distinct ?others" "filter (\<lambda>j. j \<noteq> i) ?others = filter (\<lambda>j. j \<noteq> i) (targetList m)"
    using assms(2) by (simp_all add: set_remove1_eq) (auto simp: distinct_remove1_removeAll removeAll_filter_not_eq intro!: filter_cong)
  show thesis
    by (rule that [of "m\<lparr>targetList := ?list\<rparr>"])
      (use True others assms(1) in \<open>auto simp: onFollowCreatureComplete_def Let_def insert_absorb\<close>)
next
  case False
  then show thesis using that [of m] assms by (auto simp: onFollowCreatureComplete_def)
qed

text \<open>
  How a call ends, and when.  A monster without a master that flees or keeps a distance minds it: it steps
  away while it flees or is too near to a target in sight.  All others search a way, and so does such a monster if
  it is too far off, does not see its target, or stands on it with no straight step left.
\<close>

definition stands :: "'tile chaser \<Rightarrow> Position" where
  "stands c = wk_pos (pe_creature (ch_env c))"

definition can_step :: "'tile chaser \<Rightarrow> 'tile monster \<Rightarrow> Direction \<Rightarrow> bool" where
  "can_step c m = monster_canWalkTo (ch_env c) m (stands c)"

definition minds_distance :: "'tile chaser \<Rightarrow> nat \<Rightarrow> Position \<Rightarrow> 'tile monster \<Rightarrow> bool" where
  "minds_distance c i t m \<longleftrightarrow>
     ch_kind c = A_Monster m \<and> mo_master m = None \<and> (monster_isFleeing m \<or> 1 < maxTargetDist (chase_params c i t))"

definition in_sight :: "'tile chaser \<Rightarrow> Position \<Rightarrow> bool" where
  "in_sight c t \<longleftrightarrow> isSightClear (path_sight (ch_env c)) (stands c) t True"

definition wants_step :: "'tile chaser \<Rightarrow> Position \<Rightarrow> 'tile monster \<Rightarrow> bool" where
  "wants_step c t m \<longleftrightarrow> monster_isFleeing m \<or> far_off (stands c) t < mo_targetDistance m \<and> in_sight c t"

definition searches :: "'tile chaser \<Rightarrow> nat \<Rightarrow> Position \<Rightarrow> bool" where
  "searches c i t \<longleftrightarrow> (\<forall>m. minds_distance c i t m \<longrightarrow> \<not> monster_isFleeing m \<and>
     (mo_targetDistance m < far_off (stands c) t \<or> \<not> in_sight c t \<or>
      far_off (stands c) t = 0 \<and> (\<forall>d. straight d \<longrightarrow> \<not> can_step c m d)))"

definition found_way :: "'tile chaser \<Rightarrow> nat \<Rightarrow> Position \<Rightarrow> 'tile chaser \<Rightarrow> bool" where
  "found_way c i t c' \<longleftrightarrow>
     hasFollowPath c' \<and> walk_asked c' \<and>
     (\<exists>path goal best best'. listWalkDir c' = rev path \<and>
        walks_to (ch_env c) t (chase_params c i t) (stands c) path goal \<and>
        pathCondition (ch_env c) t (stands c) goal (chase_params c i t) best = (True, best'))"

definition no_way :: "'tile chaser \<Rightarrow> nat \<Rightarrow> Position \<Rightarrow> 'tile chaser \<Rightarrow> bool" where
  "no_way c i t c' \<longleftrightarrow>
     listWalkDir c' = [] \<and> \<not> hasFollowPath c' \<and> walk_asked c' = walk_asked c \<and>
     getPathTo (ch_env c) t [] (chase_params c i t) = Some (False, [])"

text \<open>The step taken is possible and not nearer to the target, and farther off if a straight step farther off is possible.\<close>

definition found_step :: "'tile chaser \<Rightarrow> nat \<Rightarrow> Position \<Rightarrow> 'tile chaser \<Rightarrow> bool" where
  "found_step c i t c' \<longleftrightarrow>
     hasFollowPath c' \<and> walk_asked c' \<and>
     (\<exists>m d. minds_distance c i t m \<and> wants_step c t m \<and> listWalkDir c' = [d] \<and> d \<noteq> DIRECTION_NONE \<and> can_step c m d \<and>
        (far_off (stands c) t \<le> far_off (getNextPosition d (stands c)) t \<or>
         monster_isFleeing m \<and> cornered (can_step c m) (getOffsetX (stands c) t) (getOffsetY (stands c) t)) \<and>
        ((\<exists>d'. straight d' \<and> can_step c m d' \<and> far_off (getNextPosition d' (stands c)) t = far_off (stands c) t + 1) \<longrightarrow>
         far_off (stands c) t < far_off (getNextPosition d (stands c)) t))"

text \<open>A monster stays only at its distance, in sight of the target, or where a step is wanted and none is left.\<close>

definition stays :: "'tile chaser \<Rightarrow> nat \<Rightarrow> Position \<Rightarrow> 'tile chaser \<Rightarrow> bool" where
  "stays c i t c' \<longleftrightarrow>
     listWalkDir c' = listWalkDir c \<and> hasFollowPath c' = hasFollowPath c \<and> walk_asked c' = walk_asked c \<and>
     (\<exists>m. minds_distance c i t m \<and>
        (\<not> monster_isFleeing m \<and> far_off (stands c) t = mo_targetDistance m \<and> in_sight c t \<or>
         wants_step c t m \<and> (monster_isFleeing m \<or> far_off (stands c) t \<noteq> 0) \<and>
         no_step (can_step c m) (monster_isFleeing m) (getOffsetX (stands c) t) (getOffsetY (stands c) t)))"

lemmas follow_results = found_way_def found_step_def no_way_def stays_def

lemma follow_results_complete [simp]:
  "found_way c i t (onFollowCreatureComplete j c') = found_way c i t c'"
  "found_step c i t (onFollowCreatureComplete j c') = found_step c i t c'"
  "no_way c i t (onFollowCreatureComplete j c') = no_way c i t c'"
  "stays c i t (onFollowCreatureComplete j c') = stays c i t c'"
  by (simp_all add: follow_results)

lemma far_off_0: "far_off p q = 0 \<longleftrightarrow> getOffsetX p q = 0 \<and> getOffsetY p q = 0"
  by (auto simp: far_off_gap max_def)

lemma search_way_result:
  assumes "path_world (ch_env c)"
  shows "\<exists>c'. search_way t (chase_params c i t) (c\<lparr>ch_kind := k\<rparr>) = Some c' \<and> followCreature c' = followCreature c \<and>
    (found_way c i t c' \<or> no_way c i t c')"
proof -
  obtain found ds where way: "getPathMatching (ch_env c) [] t (chase_params c i t) = Some (found, ds)" "\<not> found \<longrightarrow> ds = []"
    "found \<longrightarrow> (\<exists>path goal. ds = [] @ rev path \<and> walks_to (ch_env c) t (chase_params c i t) (wk_pos (pe_creature (ch_env c))) path goal \<and>
       matches_goal (ch_env c) t (chase_params c i t) goal)"
    using getPathMatching_sound [OF assms, of "[]" t "chase_params c i t"] by blast
  then show ?thesis
    by (cases found) (auto simp: search_way_def getPathTo_def found_way_def no_way_def matches_goal_def stands_def)
qed

lemma step_result:
  assumes minds: "minds_distance c i t m" and inside: "inside (stands c)" and dirs: "shuffled_directions dirs"
    and step: "getDistanceStep (ch_env c) m coin dirs t DIRECTION_NONE (monster_isFleeing m) = (found, d, m')"
    and go: "monster_isFleeing m \<or> found"
  shows "d \<noteq> DIRECTION_NONE \<Longrightarrow> listWalkDir c' = [d] \<Longrightarrow> hasFollowPath c' \<Longrightarrow> walk_asked c' \<Longrightarrow> found_step c i t c'"
    and "d = DIRECTION_NONE \<Longrightarrow> listWalkDir c' = listWalkDir c \<Longrightarrow> hasFollowPath c' = hasFollowPath c \<Longrightarrow>
      walk_asked c' = walk_asked c \<Longrightarrow> stays c i t c'"
proof -
  note keeps = distance_step_keeps [OF inside [unfolded stands_def] dirs step, folded stands_def, folded can_step_def]
  note leaves = distance_step_leaves [OF inside [unfolded stands_def] dirs step, folded stands_def, folded can_step_def in_sight_def, folded wants_step_def]
  note waits = distance_step_waits(1) [OF step, folded stands_def, folded in_sight_def]
  note none = distance_step_none [OF dirs step, folded stands_def, folded can_step_def in_sight_def, folded wants_step_def]
  have wants: "wants_step c t m \<or> \<not> monster_isFleeing m \<and> far_off (stands c) t = mo_targetDistance m \<and> in_sight c t"
  proof (cases "monster_isFleeing m")
    case False
    then have "\<not> mo_targetDistance m < far_off (stands c) t" "in_sight c t" using waits go by blast+
    with False show ?thesis by (auto simp: wants_step_def)
  qed (simp add: wants_step_def)
  have at: "d = DIRECTION_NONE" if "\<not> wants_step c t m"
    using step by (cases rule: getDistanceStep_cases) (use that in \<open>auto simp: wants_step_def stands_def in_sight_def\<close>)
  show "found_step c i t c'" if "d \<noteq> DIRECTION_NONE" "listWalkDir c' = [d]" "hasFollowPath c'" "walk_asked c'"
    unfolding found_step_def using minds that keeps leaves at by blast
  show "stays c i t c'" if "d = DIRECTION_NONE" "listWalkDir c' = listWalkDir c" "hasFollowPath c' = hasFollowPath c"
    "walk_asked c' = walk_asked c"
  proof (cases "wants_step c t m")
    case True
    then have "no_step (can_step c m) (monster_isFleeing m) (getOffsetX (stands c) t) (getOffsetY (stands c) t)"
      "monster_isFleeing m \<or> far_off (stands c) t \<noteq> 0"
      using none that(1) go by (auto simp: wants_step_def far_off_0)
    with True minds that show ?thesis unfolding stays_def by blast
  next
    case False
    with wants minds that show ?thesis unfolding stays_def by blast
  qed
qed

lemma step_refused:
  assumes minds: "minds_distance c i t m" and inside: "inside (stands c)" and dirs: "shuffled_directions dirs"
    and step: "getDistanceStep (ch_env c) m coin dirs t DIRECTION_NONE (monster_isFleeing m) = (False, d, m')"
    and no_flight: "\<not> monster_isFleeing m"
  shows "searches c i t"
proof -
  note none = distance_step_none [OF dirs step, folded stands_def, folded can_step_def in_sight_def, folded wants_step_def]
  have "mo_targetDistance m < far_off (stands c) t \<or> \<not> in_sight c t \<or>
      far_off (stands c) t = 0 \<and> (\<forall>d. straight d \<longrightarrow> \<not> can_step c m d)"
  proof (cases "wants_step c t m")
    case True
    then show ?thesis using none by (simp add: wants_step_def far_off_0 no_step_def)
  next
    case False
    from step show ?thesis
    proof (cases rule: getDistanceStep_cases)
      case wait
      then show ?thesis by (auto simp: stands_def in_sight_def)
    qed (use False no_flight in \<open>auto simp: wants_step_def stands_def in_sight_def\<close>)
  qed
  with minds no_flight show ?thesis by (auto simp: searches_def minds_distance_def)
qed

lemma complete_follow [simp]: "followCreature (onFollowCreatureComplete i c) = followCreature c"
  by (simp add: onFollowCreatureComplete_def Let_def split: chaser_kind.split option.split)

text \<open>The search, followed by the notice that the following is settled.\<close>

lemma plain_result:
  assumes "path_world (ch_env c)"
  shows "\<exists>c'. map_option (onFollowCreatureComplete (Some i)) (search_way t (chase_params c i t) c) = Some c' \<and>
    followCreature c' = followCreature c \<and> (found_way c i t c' \<or> no_way c i t c')"
  using search_way_result [OF assms, of t i "ch_kind c"] by auto

lemma go_plain:
  assumes "\<not> movementBlocked c" and "followCreature c = Some (i, t)" and "\<And>m. \<not> minds_distance c i t m"
  shows "goToFollowCreature coin dirs c =
    map_option (onFollowCreatureComplete (Some i)) (search_way t (chase_params c i t) c)"
proof (cases "ch_kind c")
  case (A_Monster m)
  then have "\<not> (mo_master m = None \<and> (monster_isFleeing m \<or> maxTargetDist (chase_params c i t) > 1))"
    using assms(3) [of m] by (simp add: minds_distance_def)
  then show ?thesis
    using A_Monster assms(1,2) unfolding goToFollowCreature_def Let_def by (simp only: if_False option.case prod.case chaser_kind.case)
qed (use assms(1,2) in \<open>simp_all add: goToFollowCreature_def Let_def\<close>)

lemma go_step:
  assumes "\<not> movementBlocked c" and "followCreature c = Some (i, t)" and "minds_distance c i t m"
    and "getDistanceStep (ch_env c) m coin dirs t DIRECTION_NONE (monster_isFleeing m) = (found, d, m')"
  shows "goToFollowCreature coin dirs c =
    (if \<not> monster_isFleeing m \<and> \<not> found then search_way t (chase_params c i t) (c\<lparr>ch_kind := A_Monster m'\<rparr>)
     else Some (onFollowCreatureComplete (Some i)
       (if d \<noteq> DIRECTION_NONE
        then c\<lparr>ch_kind := A_Monster m', listWalkDir := [d], hasFollowPath := True, walk_asked := True\<rparr>
        else c\<lparr>ch_kind := A_Monster m'\<rparr>)))"
  using assms unfolding goToFollowCreature_def Let_def minds_distance_def by simp

lemma goToFollowCreature_result:
  assumes "path_world (ch_env c)" and "shuffled_directions dirs" and "\<not> movementBlocked c" and "followCreature c = Some (i, t)"
  shows "\<exists>c'. goToFollowCreature coin dirs c = Some c' \<and> followCreature c' = followCreature c \<and>
    (searches c i t \<and> (found_way c i t c' \<or> no_way c i t c') \<or> found_step c i t c' \<or> stays c i t c')"
proof (cases "\<exists>m. minds_distance c i t m")
  case False
  then have "searches c i t" by (simp add: searches_def)
  moreover have "goToFollowCreature coin dirs c =
      map_option (onFollowCreatureComplete (Some i)) (search_way t (chase_params c i t) c)"
    using go_plain [OF assms(3,4)] False by blast
  ultimately show ?thesis using plain_result [OF assms(1), of i t] by metis
next
  case True
  then obtain m where m: "minds_distance c i t m" by blast
  obtain found d m' where step: "getDistanceStep (ch_env c) m coin dirs t DIRECTION_NONE (monster_isFleeing m) = (found, d, m')"
    by (metis prod_cases3)
  note go = go_step [OF assms(3,4) m step]
  have inside: "inside (stands c)" using start_inside [OF assms(1)] by (simp add: stands_def)
  show ?thesis
  proof (cases "\<not> monster_isFleeing m \<and> \<not> found")
    case True
    then have "searches c i t" using step_refused [OF m inside assms(2), of coin d m'] step by simp
    with True search_way_result [OF assms(1), of t i "A_Monster m'"] show ?thesis unfolding go by auto
  next
    case False
    note results = step_result [OF m inside assms(2) step]
    have go': "goToFollowCreature coin dirs c = Some (onFollowCreatureComplete (Some i)
       (if d \<noteq> DIRECTION_NONE
        then c\<lparr>ch_kind := A_Monster m', listWalkDir := [d], hasFollowPath := True, walk_asked := True\<rparr>
        else c\<lparr>ch_kind := A_Monster m'\<rparr>))"
      unfolding go using False by (simp only: if_False)
    show ?thesis
    proof (cases "d = DIRECTION_NONE")
      case True
      have "stays c i t (c\<lparr>ch_kind := A_Monster m'\<rparr>)" using results(2) True False by simp
      with True show ?thesis unfolding go' by simp
    next
      case moving: False
      have "found_step c i t (c\<lparr>ch_kind := A_Monster m', listWalkDir := [d], hasFollowPath := True, walk_asked := True\<rparr>)"
        using results(1) moving False by simp
      with moving show ?thesis unfolding go' by simp
    qed
  qed
qed

lemma only_monsters_step: "found_step c i t c' \<or> stays c i t c' \<Longrightarrow> \<exists>m. ch_kind c = A_Monster m"
  by (auto simp: found_step_def stays_def minds_distance_def)

text \<open>
  C40: a creature that follows another ends with one of four results, and never with a null pointer or a search that
  does not end.  It searches a way, and finds one, over squares it can walk on to one that satisfies its search
  parameters, or finds none and its list is empty; this is what every creature does but a monster without a
  master that flees or keeps a distance, and such a monster too if it is too far off, sees no target, or has no
  step left on the target's own square.  Such a monster takes one step if it flees or is too near: a step it can
  take, not nearer to the target (unless it flees and every step left leads towards the target), and farther
  off if a straight step farther off is possible.  Or it stays: at its distance, or because no step is left, and
  then no step that retreats is possible, and for one that flees no straight step at all.  A player follows so
  too, but not while a walk to a thing is scheduled nor within two seconds of a search that failed.
\<close>

theorem follow_results_walkable:
  assumes "path_world (ch_env c)" and "shuffled_directions dirs" and "\<not> movementBlocked c" and "followCreature c = Some (i, t)"
  shows "(\<exists>c'. goToFollowCreature coin dirs c = Some c' \<and>
      (searches c i t \<and> (found_way c i t c' \<or> no_way c i t c') \<or> found_step c i t c' \<or> stays c i t c')) \<and>
    (ch_kind c = A_Player \<longrightarrow> (\<exists>failed' c'. player_goToFollowCreature now task failed coin dirs c = Some (failed', c') \<and>
      (if task \<or> now - failed < 2000 then c' = c \<and> failed' = failed
       else found_way c i t c' \<and> failed' = failed \<or> no_way c i t c' \<and> failed' = now)))"
proof -
  obtain c' where go: "goToFollowCreature coin dirs c = Some c'" "followCreature c' = followCreature c"
    "searches c i t \<and> (found_way c i t c' \<or> no_way c i t c') \<or> found_step c i t c' \<or> stays c i t c'"
    using goToFollowCreature_result [OF assms] by blast
  have "found_way c i t c' \<or> no_way c i t c'" if "ch_kind c = A_Player"
    using go(3) only_monsters_step [of c i t c'] that by auto
  then show ?thesis
    using go assms(4) by (auto simp: player_goToFollowCreature_def found_way_def no_way_def)
qed

text \<open>The way is taken from the end of the list: without drunkenness, step by step as it was found.\<close>

lemma getNextStep_way:
  assumes "listWalkDir c = rev (d # path)" and "\<not> pe_hasCondition (ch_env c) CONDITION_DRUNK"
  shows "getNextStep rand dir c = (True, d, c\<lparr>listWalkDir := rev path\<rparr>)"
  using assms by (simp add: getNextStep_def onWalk_direction_def Let_def)

subsection \<open>Witnesses\<close>

definition street_monster :: "unit monster" where
  "street_monster = \<lparr>admits = (\<lambda>_. True), mo_spawn = False, masterPos = Position 0 0 0, despawnRadius = 0, despawnRange = 0,
     mo_targetDistance = 4, isHostile = False, attack_ranges = [], mo_master = None, mo_health = 5, runAwayHealth = 10,
     challengeFocusDuration = 0, stepDuration = 0, targetList = [7]\<rparr>"

definition some_shuffle :: "Direction list" where
  "some_shuffle = [DIRECTION_NORTH, DIRECTION_WEST, DIRECTION_EAST, DIRECTION_SOUTH]"

lemma some_shuffle_ok: "shuffled_directions some_shuffle"
  by (simp add: shuffled_directions_def some_shuffle_def)

lemma street_steps:
  "monster_canWalkTo short_street street_monster (Position 100 100 7) d \<longleftrightarrow> d = DIRECTION_EAST \<or> d = DIRECTION_NONE"
proof -
  have cache: "getWalkCache p (pe_creature short_street) \<noteq> 0" for p by (simp add: getWalkCache_def short_street_def)
  have visible: "\<not> visible_creature short_street tile" for tile by (simp add: short_street_def)
  show ?thesis by (cases d) (simp_all add: monster_canWalkTo_def isInSpawnRange_def street_monster_def cache visible short_street_at)
qed

text \<open>A monster in flight from (98, 100) takes the only tile there is.\<close>

lemma street_flight:
  "getDistanceStep short_street street_monster True some_shuffle (Position 98 100 7) DIRECTION_NONE True =
     (True, DIRECTION_EAST, street_monster)"
  by (simp add: getDistanceStep_def Let_def escape_direction_def escape_side_def street_steps getDistanceX_def getDistanceY_def
      getOffsetX_def getOffsetY_def getX_def getY_def) (simp add: street_monster_def)

theorem distance_step_keeps_away_witness:
  "monster_canWalkTo short_street street_monster (Position 100 100 7) DIRECTION_EAST \<and>
   far_off (Position 100 100 7) (Position 98 100 7) < far_off (getNextPosition DIRECTION_EAST (Position 100 100 7)) (Position 98 100 7)"
  using distance_step_keeps_away [OF _ some_shuffle_ok street_flight] street_steps [of DIRECTION_EAST]
  by (auto simp: inside_def getX_def getY_def far_off_def getDistanceX_def getDistanceY_def getOffsetX_def getOffsetY_def straight_def)

theorem dance_step_keeps_distance_witness:
  "\<exists>d. getDanceStep short_street street_monster (\<lambda>l. l) (\<lambda>a b. a) (Position 100 100 7) (Position 100 98 7) True True DIRECTION_NONE = (True, d) \<and>
     straight d \<and> far_off (getNextPosition d (Position 100 100 7)) (Position 100 98 7) = far_off (Position 100 100 7) (Position 100 98 7)"
proof -
  obtain moved d where step: "getDanceStep short_street street_monster (\<lambda>l. l) (\<lambda>a b. a) (Position 100 100 7) (Position 100 98 7) True True
    DIRECTION_NONE = (moved, d)" by fastforce
  have "dances short_street street_monster (Position 100 100 7) (Position 100 98 7) True True DIRECTION_EAST"
    by (simp add: dances_def street_steps straight_def far_off_def getDistanceX_def getDistanceY_def getOffsetX_def getOffsetY_def
        getX_def getY_def) (simp add: monster_canUseAttack_def street_monster_def)
  then show ?thesis
    using dance_step_keeps_distance [OF _ _ _ step] step by (auto simp: inside_def getX_def getY_def dances_def)
qed

definition street_chaser :: "unit chaser" where
  "street_chaser = \<lparr>ch_env = short_street, ch_kind = A_Monster street_monster, movementBlocked = False,
     followCreature = Some (7, Position 98 100 7), hasFollowPath = False, listWalkDir = [], drunkenness = 0, walk_asked = False\<rparr>"

theorem follow_results_walkable_witness:
  "\<exists>c'. goToFollowCreature True some_shuffle street_chaser = Some c' \<and>
     hasFollowPath c' \<and> walk_asked c' \<and> listWalkDir c' = [DIRECTION_EAST]"
proof -
  let ?t = "Position 98 100 7"
  have world: "path_world (ch_env street_chaser)" using short_street_world by (simp add: street_chaser_def)
  have free: "\<not> movementBlocked street_chaser" "followCreature street_chaser = Some (7, ?t)"
    by (simp_all add: street_chaser_def)
  have here: "stands street_chaser = Position 100 100 7" and env: "ch_env street_chaser = short_street"
    by (simp_all add: stands_def street_chaser_def)
  have flees: "m = street_monster \<and> monster_isFleeing m" if "minds_distance street_chaser 7 ?t m" for m
    using that by (auto simp: minds_distance_def street_chaser_def monster_isFleeing_def monster_isSummon_def street_monster_def)
  have minds: "minds_distance street_chaser 7 ?t street_monster"
    by (simp add: minds_distance_def street_chaser_def monster_isFleeing_def monster_isSummon_def street_monster_def)
  have east: "can_step street_chaser street_monster d \<longleftrightarrow> d = DIRECTION_EAST \<or> d = DIRECTION_NONE" for d
    by (simp add: can_step_def here env street_steps)
  obtain c' where go: "goToFollowCreature True some_shuffle street_chaser = Some c'"
    and result: "searches street_chaser 7 ?t \<and> (found_way street_chaser 7 ?t c' \<or> no_way street_chaser 7 ?t c') \<or>
      found_step street_chaser 7 ?t c' \<or> stays street_chaser 7 ?t c'"
    using conjunct1 [OF follow_results_walkable [OF world some_shuffle_ok free]] by blast
  have "\<not> searches street_chaser 7 ?t" using minds flees by (auto simp: searches_def)
  moreover have "\<not> stays street_chaser 7 ?t c'"
  proof
    assume "stays street_chaser 7 ?t c'"
    then obtain m where m: "minds_distance street_chaser 7 ?t m" "monster_isFleeing m \<longrightarrow>
        no_step (can_step street_chaser m) (monster_isFleeing m) (getOffsetX (stands street_chaser) ?t) (getOffsetY (stands street_chaser) ?t)"
      unfolding stays_def by blast
    have "no_step (can_step street_chaser street_monster) True
        (getOffsetX (stands street_chaser) ?t) (getOffsetY (stands street_chaser) ?t)"
      using m(2) flees [OF m(1)] by auto
    then have "straight DIRECTION_EAST \<longrightarrow> \<not> can_step street_chaser street_monster DIRECTION_EAST"
      unfolding no_step_def stuck_def by (simp split: if_splits)
    then show False using east [of DIRECTION_EAST] straight_simps(2) by simp
  qed
  ultimately have "found_step street_chaser 7 ?t c'" using result by blast
  then obtain m d where step: "hasFollowPath c'" "walk_asked c'" "minds_distance street_chaser 7 ?t m" "listWalkDir c' = [d]"
    "d \<noteq> DIRECTION_NONE" "can_step street_chaser m d"
    unfolding found_step_def by (elim exE conjE) (rule that)
  then have "d = DIRECTION_EAST" using flees [OF step(3)] east [of d] by simp
  with go step show ?thesis by (intro exI [of _ c'] conjI) simp_all
qed

end
