(* ===== verification/Spec2Isabelle.thy ===== *)
theory Spec2Isabelle
  imports Secure_Channel Matrix_Area Player_Registry Otb_File Party_Safety Training_Laws Chat_Safety Condition_Parameters Condition_Bonuses Monster_Steps
begin

text \<open>
  Verification development for The Forgotten Server, the C++ game server under \<open>src/server/src\<close>.

  \<^bold>\<open>The program and its parts.\<close>  Clients send packets: \<open>connection.cpp\<close> reads a frame, \<open>protocol.cpp\<close> checks and
  decrypts it, \<open>protocolgame.cpp\<close> reads the fields with \<open>NetworkMessage\<close> and posts a call of one of the handlers of
  \<open>Game\<close> to the dispatcher thread.  The handlers change players, parties, channels and the map and answer through
  \<open>OutputMessage\<close>, which takes the way back.  All handlers run one after the other on the dispatcher thread, so
  each is a function on the state and a run of the server a sequence of such steps.  Players and maps are loaded
  from, and stored in, binary node files and property streams.  The development takes the components bottom up;
  each has a theory (or a few) with its state, its operations in the order of the code, and its lemmas.

  \<^bold>\<open>Shared theories.\<close>
  \<^item> \<open>Prelude\<close>: widths of the integers, little-endian object representations (\<open>object_rep\<close>, interpreted for 8, 16, 32
    and 64 bits), truncating division, bounds of words.
  \<^item> \<open>Ordered_Map\<close>: \<open>std::map\<close> as its sorted entries (locale \<open>dictionary\<close>), used by \<open>Chat_System\<close>.

  \<^bold>\<open>From bytes to messages.\<close>
  \<^item> \<open>Network_Message\<close> (networkmessage.h, .cpp): the record \<open>net_msg\<close> is \<open>NetworkMessage\<close>; an access outside its
    24590 bytes is \<open>None\<close>.  \<open>message_memory_safe\<close> (in \<open>Secure_Channel\<close>) shows that the guarded operations never get
    there, in any state, and names the states in which the two unguarded ones (\<open>getPreviousByte\<close>, \<open>append\<close>) do.  The locale
    \<open>field_stream\<close> says what a stream of typed fields promises; messages and property streams interpret it, and
    the round trip of a list of fields is proved once.
  \<^item> \<open>Xtea\<close> (xtea.cpp): key schedule and both directions of the cipher, with the locale \<open>block_cipher\<close>.
  \<^item> \<open>Checksum\<close> (tools.cpp \<open>adlerChecksum\<close>): the delayed remainders never wrap 32 bits, so the result is Adler-32.
  \<^item> \<open>Secure_Channel\<close> (outputmessage.h, protocol.cpp, connection.cpp): headers, padding, encryption and their removal,
    composed as in \<open>onSendMessage\<close> and \<open>onRecvMessage\<close>; what is sent is received.
  \<^item> \<open>Otb_File\<close> (fileloader.h, .cpp): property streams and the parser of node files, with fuel equal to the length of
    the file, which is enough because every step reads a byte.

  \<^bold>\<open>The world.\<close>
  \<^item> \<open>Positions\<close> (position.h, tools.cpp): coordinates as 16 and 8 bit words, directions and steps.
  \<^item> \<open>Matrix_Area\<close> (matrixarea.cpp, \<open>AreaCombat\<close> of combat.cpp): areas of effect and their turns; the locale
    \<open>area_op\<close> is a symmetry of the square, interpreted for each of the five operations.
  \<^item> \<open>Map_Tree\<close> (map.h, map.cpp): the quadtree of tiles, from level 15 with 13 levels of inner nodes above leaves of
    8 by 8 tiles, with the links between leaves.  \<open>map_refines_table\<close> is its refinement to a table from positions to
    tiles; what a reader of a table may expect is the locale \<open>joining_store\<close>.
  \<^item> \<open>Map_Spectators\<close> (\<open>getSpectators\<close> and its caches; the leaf lists kept by placing, moving and removing a
    creature): a search finds exactly the creatures in view.
  \<^item> \<open>Binary_Floats\<close>, \<open>Sight_Lines\<close> (map.cpp \<open>checkSightLine\<close>, \<open>isSightClear\<close>, \<open>canThrowObjectTo\<close>): \<open>float\<close> and
    \<open>double\<close> as reals rounded to 24 and 53 bits after each operation; within the client's viewport of 8 by 6 squares
    the rounded line visits exactly the squares of the geometric one.
  \<^item> \<open>Walk_Cache\<close> (creature.cpp, map.cpp \<open>canWalkTo\<close>): the 23 by 23 squares that a monster remembers.  The cache is
    exact after every history (\<open>cache_step\<close>) except on the squares that changed without a call of one of its handlers
    (\<open>setGhostMode\<close>, \<open>setMaster\<close>) and, after a diagonal step to the south, on two rows; the history carries
    these squares with it until they are asked for again.
  \<^item> \<open>Path_Finding\<close> (map.h, map.cpp \<open>getPathMatching\<close>, \<open>AStarNodes\<close>; creature.cpp): the search for a way.  A pointer
    to a node is its index among the 512 nodes.  Costs are at most 235 for each step and so stay below
    \<open>INT32_MAX\<close>, where \<open>getBestNode\<close> stops looking; every round closes a node for good, so at most 512 rounds run; up
    to ten squares, 21 * 21 nodes are enough, and the search is optimal.  The hypothesis \<open>path_world\<close> keeps tiles off
    the edge of the map, where coordinates would wrap.
  \<^item> \<open>Monster_Steps\<close> (monster.cpp \<open>getRandomStep\<close>, \<open>getDanceStep\<close>, \<open>getDistanceStep\<close>; creature.cpp
    \<open>goToFollowCreature\<close>, \<open>getNextStep\<close>; player.cpp \<open>goToFollowCreature\<close>): the steps of monsters and how a creature follows another, on top of
    \<open>Path_Finding\<close>.  The four corners and the four sides of \<open>getDistanceStep\<close> are two functions of their directions; \<open>stuck\<close> says
    exactly when they leave a monster where it is.

  \<^bold>\<open>Players.\<close>
  \<^item> \<open>Return_Values\<close>, \<open>Wildcard_Tree\<close>, \<open>Player_Registry\<close> (enums.h, wildcardtree.cpp, game.cpp): the maps of players
    online and the prefix tree of their names (locale \<open>name_index\<close>), over all histories of logins and logouts
    that \<open>ProtocolGame::login\<close> admits (\<open>login_admits\<close>).  With \<open>allowClones\<close>, and for the account manager, a character
    may be online more than once: the look-ups are right for all others, and \<open>clone_logout_hides\<close> shows what goes wrong.
    That ids start at one and names are unique, ignoring case, is what the database schema promises.
  \<^item> \<open>Player_Progress\<close>, \<open>Level_Laws\<close>, \<open>Training_Laws\<close> (player.cpp, vocation.cpp, creature.cpp): experience, skills, magic
    level, vitals and the losses of a death, at the widths of the code.  The loops that pass levels run on the
    difference of what is there and what is required; levels are bounded by one million, below which the 64-bit
    experience table does not overflow.  Quotients of doubles are parameters, of which a death assumes that a portion is at most the whole.  Gains are taken back exactly while
    the sums fit their signed types at the level reached, and a death takes exactly its portion while the tries
    for the next level stay below \<open>2 ^ 31\<close> in each skill; \<open>losses_wrap\<close> shows the wrap-around beyond.
  \<^item> \<open>Party_System\<close>, \<open>Party_Invariant\<close>, \<open>Party_Safety\<close> (party.cpp, handlers of game.cpp): parties as a heap with freed
    cells; a null or dangling pointer is \<open>None\<close>.  The invariant relates both ends of each membership and invitation
    and is shown for all reachable heaps (\<open>party_reachable\<close>), along steps in which no script vetoes a disbanding; no
    handler gets stuck in one.  \<open>disband_veto_dangles\<close> shows what a veto does in any of them.
  \<^item> \<open>Chat_System\<close>, \<open>Chat_Safety\<close> (chat.cpp, handlers of game.cpp): channels, their users and invitations, with private
    channels numbered 100 to 9999 and reachable chats (\<open>chat_reachable\<close>).
  \<^item> \<open>Condition_Data\<close>, \<open>Condition_Storage\<close>, \<open>Condition_Parameters\<close>, \<open>Condition_Damage\<close> (condition.h, condition.cpp): the
    classes of conditions as one datatype, the virtual methods as case distinctions; what storage keeps, resets and
    loses, parameters, and the loop that splits damage over time.  That loop may leave \<open>int32_t\<close> or fail to end, which is
    \<open>None\<close>; it ends for limits up to 10000 and
    first damages up to 500 with at most as many entries as both together, and with the comparison of float quotients correctly rounded for integers of 20 bits.
  \<^item> \<open>Condition_System\<close>, \<open>Condition_Bonuses\<close> (creature.cpp, player.cpp, condition.cpp): the conditions a creature has and
    what they do to its bonuses, over all sequences of calls (\<open>condition_step\<close>).  A simplification: the harm of a
    tick (\<open>doDamage\<close>) changes health and mana only; in the code the hit also reaches \<open>Player::onAttacked\<close>, which may
    add the fight condition while the tick runs.

  \<^bold>\<open>How the theorems read.\<close>  A pointer that the code follows is a look-up, and an access that C++ leaves undefined is
  \<open>None\<close>; results \<open>Some\<close> in the conclusions therefore say that the code is safe.  Scripts, random draws, clocks and,
  outside \<open>Sight_Lines\<close>, floating-point quotients are arguments of the operations; where a property needs more than that they are functions, its
  hypotheses say what.  Invariants are shown along step relations whose steps are the operations with any arguments.
  The properties C1 to C40 are the statements marked so in the theories; those with hypotheses are followed by an
  application to a concrete state.  Where the code does not do what it means to, the property of kind error shows
  the run that goes wrong.

  \<^bold>\<open>Not modelled.\<close>  The Lua bindings (lua*.cpp) and the scripts; the database, accounts and SQL storage (database*.cpp,
  iologindata.cpp apart from its loops over conditions, ban.cpp, ioguild.cpp, iomapserialize.cpp), which are input
  and output; the
  message-by-message protocol code (protocolgame.cpp and the other protocols), which only writes the fields whose
  round trip \<open>Network_Message\<close> shows; sockets, timers and threads (server.cpp, connection.cpp apart from
  its parser, scheduler.cpp, tasks.cpp); the loaders of XML data (vocation.cpp, monsters.cpp, items.cpp, outfit.cpp,
  mounts.cpp, groups.cpp, raids.cpp, spawn.cpp, npc.cpp); items, containers, tiles and the moves of things
  between them; combat, spells and
  weapons apart from areas and conditions; the decisions of monsters and npcs apart from their steps; houses.  RSA and hashing call
  libraries.
\<close>

end
